(* ===== verification/Prelude.thy ===== *)
theory Prelude
  imports Main "HOL-Library.Word"
begin

text \<open>
  Shared vocabulary of the development: the machine integers of the C++ code
  (\<^verbatim>\<open>slience/base/config.hpp\<close>), bytes and little-endian codecs, the outcome type
  of operations that touch raw memory, the queue interface that the containers
  provide, and generic lemmas on lists and words.  The host is little endian,
  as on the x86 machines the framework is built for.
\<close>

unbundle bit_operations_syntax

subsection \<open>Machine integers\<close>

type_synonym u8 = "8 word"
type_synonym u16 = "16 word"
type_synonym u32 = "32 word"
type_synonym u64 = "64 word"
type_synonym byte = "8 word"

named_theorems faults \<open>when an operation on raw memory is defined\<close>
named_theorems content \<open>the abstract content of a structure after an operation\<close>
named_theorems inv_intros \<open>preservation of representation invariants\<close>

subsection \<open>Raw memory outcomes\<close>

text \<open>An operation on raw memory returns \<^term>\<open>None\<close> when the C++ code would leave
  the block it owns (undefined behaviour); no theorem says anything about
  what happens after that.\<close>

type_synonym 'a mem = "'a option"

lemma bind_SomeI: "x = Some a \<Longrightarrow> f a = y \<Longrightarrow> Option.bind x f = y"
  by simp

subsection \<open>Byte codecs\<close>

primrec le_bytes :: "nat \<Rightarrow> 'a::len word \<Rightarrow> byte list" where
  "le_bytes 0 w = []"
| "le_bytes (Suc n) w = ucast w # le_bytes n (drop_bit 8 w)"

primrec le_val :: "byte list \<Rightarrow> 'a::len word" where
  "le_val [] = 0"
| "le_val (b # bs) = (ucast b) OR (push_bit 8 (le_val bs))"

lemma length_le_bytes [simp]: "length (le_bytes n w) = n"
  by (induction n arbitrary: w) auto

lemma le_val_le_bytes:
  "le_val (le_bytes n (w :: 'a::len word)) = take_bit (8 * n) w"
proof (induction n arbitrary: w)
  case 0
  then show ?case by simp
next
  case (Suc n)
  show ?case
    by (rule bit_word_eqI)
       (auto simp: Suc.IH bit_simps; linarith?)
qed

lemma le_val_le_bytes_full [simp]:
  "LENGTH('a) \<le> 8 * n \<Longrightarrow> le_val (le_bytes n (w :: 'a::len word)) = w"
  by (simp add: le_val_le_bytes take_bit_word_eq_self)

lemma ucast_or_push8:
  assumes "8 \<le> LENGTH('a)"
  shows "(ucast ((ucast b :: 'a::len word) OR push_bit 8 x) :: byte) = b"
  using assms by (auto intro!: bit_word_eqI simp: bit_simps)

lemma drop8_or_push8:
  assumes "take_bit (LENGTH('a) - 8) x = x"
  shows "drop_bit 8 ((ucast (b::byte) :: 'a::len word) OR push_bit 8 x) = x"
proof (rule bit_word_eqI)
  fix n assume "n < LENGTH('a)"
  have "bit x n \<Longrightarrow> n < LENGTH('a) - 8"
    using assms bit_take_bit_iff by metis
  then show "bit (drop_bit 8 ((ucast b :: 'a word) OR push_bit 8 x)) n = bit x n"
    by (auto simp: bit_simps dest: bit_imp_le_length)
qed

lemma take_bit_le_val:
  "8 * length bs \<le> k \<Longrightarrow> take_bit k (le_val bs :: 'a::len word) = le_val bs"
proof (induction bs arbitrary: k)
  case Nil
  then show ?case by simp
next
  case (Cons b bs)
  have "take_bit (k - 8) (le_val bs :: 'a word) = le_val bs"
    using Cons by simp
  then have *: "\<And>n. bit (le_val bs :: 'a word) n \<Longrightarrow> n < k - 8"
    using bit_take_bit_iff by metis
  show ?case
    by (rule bit_word_eqI)
       (use Cons.prems in \<open>auto simp: bit_simps dest: * bit_imp_le_length\<close>)
qed

lemma le_bytes_le_val [simp]:
  "8 * length bs \<le> LENGTH('a) \<Longrightarrow> le_bytes (length bs) (le_val bs :: 'a::len word) = bs"
proof (induction bs)
  case Nil
  then show ?case by simp
next
  case (Cons b bs)
  have t: "take_bit (LENGTH('a) - 8) (le_val bs :: 'a word) = le_val bs"
    using Cons.prems by (intro take_bit_le_val) simp
  show ?case
    using Cons by (simp add: ucast_or_push8 drop8_or_push8 [OF t] del: drop_bit_or)
qed

subsection \<open>Sums and conversions that do not wrap\<close>

lemma unat_of_nat_small:
  "n < 2 ^ LENGTH('a) \<Longrightarrow> unat (word_of_nat n :: 'a::len word) = n"
  by (simp add: unat_of_nat take_bit_nat_eq_self)

lemma unat_plus_small:
  "unat a + unat b < 2 ^ LENGTH('a) \<Longrightarrow> unat (a + b :: 'a::len word) = unat a + unat b"
  by (simp add: unat_add_lem)

lemma unat_times_small:
  "unat a * unat b < 2 ^ LENGTH('a) \<Longrightarrow> unat (a * b :: 'a::len word) = unat a * unat b"
  by (simp add: unat_mult_lem)

lemma unat_lt2p: "unat (w :: 'a::len word) < 2 ^ LENGTH('a)"
  by (rule unsigned_less)

lemma uint_eq_sint: "\<lbrakk>0 \<le> sint w; sint w < 2 ^ LENGTH('a)\<rbrakk> \<Longrightarrow> uint (w :: 'a::len word) = sint w"
  by (simp add: uint_sint take_bit_int_eq_self)

end
