(* ===== verification/Buffer.thy ===== *)
theory Buffer
  imports Prelude
begin

text \<open>
  The growable byte buffer of \<^verbatim>\<open>slience/base/buffer.{hpp,cpp}\<close>.  \<^term>\<open>bdata\<close> holds the
  bytes written so far (the first \<^verbatim>\<open>_pos\<close> bytes of the block); the rest of the
  \<^verbatim>\<open>_size\<close> bytes of the block is indeterminate and is never read.  All three
  counters are the 32-bit integers of the code, so the wrap-around of
  \<^verbatim>\<open>_pos + len\<close> is the code's; a \<^verbatim>\<open>memcpy\<close> that would leave the block is \<^term>\<open>None\<close>.
\<close>

record buffer =
  bsize :: u32
  bpos :: u32
  boffset :: u32
  bdata :: "byte list"

definition buf_default_size :: u32 where
  "buf_default_size = 512"

definition buf_new :: buffer where
  "buf_new = \<lparr>bsize = buf_default_size, bpos = 0, boffset = 0, bdata = []\<rparr>"

definition buf_Clear :: "buffer \<Rightarrow> buffer" where
  "buf_Clear b =
     (let b1 = b\<lparr>bpos := 0, boffset := 0, bdata := []\<rparr>
      in if bsize b1 \<ge> 4 * 1024 then b1\<lparr>bsize := buf_default_size\<rparr> else b1)"

definition buf_CutData :: "u32 \<Rightarrow> buffer \<Rightarrow> buffer" where
  "buf_CutData len b =
     (if boffset b + len > bpos b then b\<lparr>boffset := bpos b\<rparr>
      else b\<lparr>boffset := boffset b + len\<rparr>)"

definition buf_Data :: "buffer \<Rightarrow> byte list" where
  "buf_Data b = drop (unat (boffset b)) (bdata b)"

definition buf_Raw :: "buffer \<Rightarrow> byte list" where
  "buf_Raw b = bdata b"

definition buf_Capacity :: "buffer \<Rightarrow> u32" where
  "buf_Capacity b = bsize b"

definition buf_Size :: "buffer \<Rightarrow> u32" where
  "buf_Size b = bpos b"

definition buf_Length :: "buffer \<Rightarrow> u32" where
  "buf_Length b = bpos b - boffset b"

definition buf_Write :: "byte list \<Rightarrow> buffer \<Rightarrow> buffer mem" where
  "buf_Write bs b =
     (let len = word_of_nat (length bs);
          b1 = (if bpos b + len > bsize b
                then b\<lparr>bsize := buf_default_size * ((bpos b + len) div buf_default_size + 1)\<rparr>
                else b)
      in if unat (bpos b) + length bs > unat (bsize b1) then None
         else Some (b1\<lparr>bpos := bpos b + len, bdata := bdata b @ bs\<rparr>))"

text \<open>\<^verbatim>\<open>Read\<close> leaves the caller's variable untouched when there are not enough bytes:
  the first component is \<^term>\<open>None\<close> then.\<close>

definition buf_Read :: "u32 \<Rightarrow> buffer \<Rightarrow> (byte list option \<times> buffer) mem" where
  "buf_Read len b =
     (if boffset b + len > bpos b then Some (None, b)
      else if unat (boffset b) + unat len > unat (bpos b) then None
      else Some (Some (take (unat len) (drop (unat (boffset b)) (bdata b))),
                 b\<lparr>boffset := boffset b + len\<rparr>))"

definition buf_Swap :: "buffer \<times> buffer \<Rightarrow> buffer \<times> buffer" where
  "buf_Swap p = (snd p, fst p)"

subsection \<open>Representation invariant\<close>

definition buf_ok :: "buffer \<Rightarrow> bool" where
  "buf_ok b \<longleftrightarrow> length (bdata b) = unat (bpos b) \<and> boffset b \<le> bpos b \<and> bpos b \<le> bsize b
     \<and> buf_default_size \<le> bsize b"

definition buf_limit :: nat where
  "buf_limit = 2 ^ 31"

lemma length_buf_Data: "buf_ok b \<Longrightarrow> length (buf_Data b) = unat (buf_Length b)"
  by (simp add: buf_ok_def buf_Data_def buf_Length_def unat_sub)

lemma buf_ok_new [inv_intros, simp]: "buf_ok buf_new"
  by (simp add: buf_ok_def buf_new_def buf_default_size_def)

lemma buf_ok_Clear [inv_intros]: "buf_ok b \<Longrightarrow> buf_ok (buf_Clear b)"
  by (simp add: buf_ok_def buf_Clear_def Let_def buf_default_size_def)

lemma buf_ok_CutData [inv_intros]: "buf_ok b \<Longrightarrow> buf_ok (buf_CutData len b)"
  by (simp add: buf_ok_def buf_CutData_def not_less)

lemma buf_Data_new [content, simp]: "buf_Data buf_new = []"
  by (simp add: buf_Data_def buf_new_def)

lemma buf_Data_Clear [content, simp]: "buf_Data (buf_Clear b) = []"
  by (simp add: buf_Data_def buf_Clear_def Let_def)

lemma buf_Size_new [simp]: "buf_Size buf_new = 0"
  by (simp add: buf_Size_def buf_new_def)

lemma buf_Size_Clear [simp]: "buf_Size (buf_Clear b) = 0"
  by (simp add: buf_Size_def buf_Clear_def Let_def)

lemma buf_Size_CutData [simp]: "buf_Size (buf_CutData n b) = buf_Size b"
  by (simp add: buf_Size_def buf_CutData_def)

lemma buf_Data_CutData [content]:
  assumes ok: "buf_ok b" and n: "n \<le> length (buf_Data b)" and lim: "unat (buf_Size b) < buf_limit"
  shows "buf_Data (buf_CutData (word_of_nat n) b) = drop n (buf_Data b)"
proof -
  have nb: "n + unat (boffset b) \<le> unat (bpos b)"
    using n ok by (auto simp: buf_Data_def buf_ok_def word_le_nat_alt)
  have lt: "unat (bpos b) < 2 ^ 32" using unat_lt2p [of "bpos b"] by simp
  have nn: "unat (word_of_nat n :: u32) = n"
    using nb lt by (simp add: unat_of_nat_small)
  have s: "unat (boffset b + word_of_nat n) = unat (boffset b) + n"
    using nb lt nn by (simp add: unat_plus_small)
  have "\<not> boffset b + word_of_nat n > bpos b"
    using s nb by (simp add: word_less_nat_alt)
  then show ?thesis
    using s by (simp add: buf_CutData_def buf_Data_def add.commute)
qed

lemma grow_size:
  assumes "unat p < buf_limit"
  shows "unat (buf_default_size * (p div buf_default_size + 1)) = 512 * (unat p div 512 + 1)"
proof -
  have d: "unat (p div buf_default_size) = unat p div 512"
    by (simp add: unat_div buf_default_size_def)
  have "unat p div 512 < 2 ^ 22" using assms by (simp add: buf_limit_def)
  then have e: "unat (p div buf_default_size + 1) = unat p div 512 + 1"
    using d by (simp add: unat_plus_small)
  have "512 * (unat p div 512 + 1) < 2 ^ 32"
    using assms by (simp add: buf_limit_def)
  then show ?thesis
    using e by (simp add: unat_times_small buf_default_size_def del: distrib_left_numeral)
qed

text \<open>Inside the limit \<^verbatim>\<open>Write\<close> is defined, keeps the invariant and appends.\<close>

lemma buf_Write_ok:
  assumes ok: "buf_ok b" and lim: "unat (buf_Size b) + length bs < buf_limit"
  shows "\<exists>b'. buf_Write bs b = Some b' \<and> buf_ok b' \<and> buf_Data b' = buf_Data b @ bs
     \<and> buf_Raw b' = buf_Raw b @ bs \<and> boffset b' = boffset b
     \<and> unat (buf_Size b') = unat (buf_Size b) + length bs"
proof -
  let ?len = "word_of_nat (length bs) :: u32"
  let ?p = "bpos b + ?len"
  have l: "unat ?len = length bs"
    using lim by (simp add: unat_of_nat_small buf_limit_def)
  have p: "unat ?p = unat (bpos b) + length bs"
    using lim l by (simp add: unat_plus_small buf_limit_def buf_Size_def)
  have g: "unat (buf_default_size * (?p div buf_default_size + 1)) = 512 * (unat ?p div 512 + 1)"
    using lim p by (intro grow_size) (simp add: buf_Size_def)
  have big: "unat ?p \<le> 512 * (unat ?p div 512 + 1)"
    by simp
  have off: "unat (boffset b) \<le> length (bdata b)"
    using ok by (simp add: buf_ok_def word_le_nat_alt)
  show ?thesis
    using ok p g big off lim
    by (auto simp: buf_Write_def Let_def buf_ok_def buf_Data_def buf_Raw_def buf_Size_def
        word_le_nat_alt word_less_nat_alt buf_default_size_def not_less)
qed

lemma buf_WriteE:
  assumes "buf_Write bs b = Some b'" "buf_ok b" "unat (buf_Size b) + length bs < buf_limit"
  obtains "buf_ok b'" "buf_Data b' = buf_Data b @ bs"
    "unat (buf_Size b') = unat (buf_Size b) + length bs"
    "boffset b' = boffset b" "buf_Raw b' = buf_Raw b @ bs"
  using buf_Write_ok [OF assms(2,3)] assms(1) by auto

end
