(* ===== verification/Interfaces.thy ===== *)
theory Interfaces
  imports Buffer
begin

text \<open>
  The contracts between the components.  A client's lemmas are proved once
  inside the locale; the providers (the byte buffer, the ring queue, the linked
  list, the frame and packet codecs, the object pools) interpret them on the
  model's own definitions.
\<close>

subsection \<open>First-in first-out queues\<close>

datatype 'a queue_op = Enq 'a | Deq

fun run_queue :: "('a \<Rightarrow> 's \<Rightarrow> bool \<times> 's) \<Rightarrow> ('s \<Rightarrow> ('a \<times> 's) option) \<Rightarrow> 'a queue_op list \<Rightarrow> 's
    \<Rightarrow> 'a list \<times> 'a list \<times> 's" where
  "run_queue enq deq [] s = ([], [], s)"
| "run_queue enq deq (Enq x # ops) s =
     (case enq x s of (ok, s1) \<Rightarrow>
        (case run_queue enq deq ops s1 of (ins, outs, s2) \<Rightarrow>
           (if ok then x # ins else ins, outs, s2)))"
| "run_queue enq deq (Deq # ops) s =
     (case deq s of
        None \<Rightarrow> run_queue enq deq ops s
      | Some (y, s1) \<Rightarrow>
          (case run_queue enq deq ops s1 of (ins, outs, s2) \<Rightarrow> (ins, y # outs, s2)))"

locale fifo =
  fixes inv :: "'s \<Rightarrow> bool"
    and items :: "'s \<Rightarrow> 'a list"
    and room :: "'s \<Rightarrow> bool"
    and enq :: "'a \<Rightarrow> 's \<Rightarrow> bool \<times> 's"
    and deq :: "'s \<Rightarrow> ('a \<times> 's) option"
  assumes enq_room: "\<lbrakk>inv s; room s\<rbrakk> \<Longrightarrow>
      fst (enq x s) \<and> inv (snd (enq x s)) \<and> items (snd (enq x s)) = items s @ [x]"
    and enq_full: "\<lbrakk>inv s; \<not> room s\<rbrakk> \<Longrightarrow> enq x s = (False, s)"
    and deq_empty: "\<lbrakk>inv s; items s = []\<rbrakk> \<Longrightarrow> deq s = None"
    and deq_items: "\<lbrakk>inv s; items s = x # xs\<rbrakk> \<Longrightarrow>
      \<exists>s1. deq s = Some (x, s1) \<and> inv s1 \<and> items s1 = xs"
begin

lemma enq_cases:
  assumes "inv s" "enq x s = (ok, s1)"
  shows "inv s1 \<and> items s1 = items s @ (if ok then [x] else [])"
  using assms enq_room [of s x] enq_full [of s x] by (cases "room s") auto

lemma deq_cases:
  assumes "inv s"
  shows "case deq s of None \<Rightarrow> items s = []
         | Some (y, s1) \<Rightarrow> inv s1 \<and> items s = y # items s1"
  using assms deq_empty [of s] deq_items [of s] by (cases "items s") auto

text \<open>In every run the accepted values come out in order, each exactly once.\<close>

lemma run_fifo:
  assumes "inv s" "run_queue enq deq ops s = (ins, outs, s1)"
  shows "inv s1 \<and> outs @ items s1 = items s @ ins"
  using assms
proof (induction ops arbitrary: s ins outs s1)
  case Nil
  then show ?case by simp
next
  case (Cons p ops)
  show ?case
  proof (cases p)
    case (Enq x)
    obtain ok sa where a: "enq x s = (ok, sa)" by fastforce
    obtain i1 o1 sb where b: "run_queue enq deq ops sa = (i1, o1, sb)" by (metis prod_cases3)
    note q = enq_cases [OF Cons.prems(1) a]
    have "inv sb \<and> o1 @ items sb = items sa @ i1"
      using Cons.IH [OF _ b] q by simp
    then show ?thesis
      using Cons.prems(2) a b q Enq by (auto split: if_splits)
  next
    case Deq
    note q = deq_cases [OF Cons.prems(1)]
    show ?thesis
    proof (cases "deq s")
      case None
      then show ?thesis using Cons.prems(2) Cons.IH [OF Cons.prems(1)] Deq by simp
    next
      case (Some r)
      obtain y sa where r: "r = (y, sa)" by fastforce
      obtain i1 o1 sb where b: "run_queue enq deq ops sa = (i1, o1, sb)" by (metis prod_cases3)
      show ?thesis
        using Cons.prems(2) Cons.IH [OF _ b] q Deq Some r b by auto
    qed
  qed
qed

end

subsection \<open>Byte streams\<close>

locale byte_stream =
  fixes inv :: "'b \<Rightarrow> bool"
    and bytes :: "'b \<Rightarrow> byte list"
    and used :: "'b \<Rightarrow> nat"
    and put :: "byte list \<Rightarrow> 'b \<Rightarrow> 'b option"
    and cut :: "nat \<Rightarrow> 'b \<Rightarrow> 'b"
    and wipe :: "'b \<Rightarrow> 'b"
    and limit :: nat
  assumes put_law: "\<lbrakk>inv b; used b + length bs < limit\<rbrakk> \<Longrightarrow>
      \<exists>c. put bs b = Some c \<and> inv c \<and> bytes c = bytes b @ bs \<and> used c = used b + length bs"
    and cut_law: "\<lbrakk>inv b; used b < limit; n \<le> length (bytes b)\<rbrakk> \<Longrightarrow>
      inv (cut n b) \<and> bytes (cut n b) = drop n (bytes b) \<and> used (cut n b) = used b"
    and wipe_law: "inv b \<Longrightarrow> inv (wipe b) \<and> bytes (wipe b) = [] \<and> used (wipe b) = 0"
    and bytes_used: "inv b \<Longrightarrow> length (bytes b) \<le> used b"
begin

primrec put_all :: "byte list list \<Rightarrow> 'b \<Rightarrow> 'b option" where
  "put_all [] b = Some b"
| "put_all (bs # bss) b = Option.bind (put bs b) (put_all bss)"

lemma put_all_law:
  assumes "inv b" "used b + length (concat bss) < limit"
  shows "\<exists>c. put_all bss b = Some c \<and> inv c \<and> bytes c = bytes b @ concat bss
    \<and> used c = used b + length (concat bss)"
  using assms
proof (induction bss arbitrary: b)
  case Nil
  then show ?case by simp
next
  case (Cons bs bss)
  obtain c where c: "put bs b = Some c" "inv c" "bytes c = bytes b @ bs"
      "used c = used b + length bs"
    using put_law [of b bs] Cons.prems by auto
  have "used c + length (concat bss) < limit"
    using c(4) Cons.prems(2) by simp
  from Cons.IH [OF c(2) this] show ?case
    using c by (auto simp: add.assoc)
qed

end

interpretation buf: byte_stream buf_ok buf_Data "\<lambda>b. unat (buf_Size b)" buf_Write
    "\<lambda>n. buf_CutData (word_of_nat n)" buf_Clear buf_limit
proof unfold_locales
  show "\<exists>c. buf_Write bs b = Some c \<and> buf_ok c \<and> buf_Data c = buf_Data b @ bs
      \<and> unat (buf_Size c) = unat (buf_Size b) + length bs"
    if "buf_ok b" "unat (buf_Size b) + length bs < buf_limit" for b bs
    using buf_Write_ok [OF that] by auto
  show "length (buf_Data b) \<le> unat (buf_Size b)" if "buf_ok b" for b
    using that by (auto simp: buf_Data_def buf_ok_def buf_Size_def)
qed (simp_all add: buf_ok_Clear buf_ok_CutData buf_Data_CutData)

subsection \<open>Codecs\<close>

locale codec =
  fixes wf :: "'m \<Rightarrow> bool"
    and enc :: "'m \<Rightarrow> byte list"
    and dec :: "byte list \<Rightarrow> ('m \<times> byte list) option"
  assumes dec_enc: "wf m \<Longrightarrow> dec (enc m @ rest) = Some (m, rest)"
begin

lemma enc_inj: "\<lbrakk>wf m; wf m'; enc m @ r = enc m' @ r'\<rbrakk> \<Longrightarrow> m = m' \<and> r = r'"
  by (metis dec_enc option.inject prod.inject)

primrec dec_n :: "nat \<Rightarrow> byte list \<Rightarrow> ('m list \<times> byte list) option" where
  "dec_n 0 bs = Some ([], bs)"
| "dec_n (Suc n) bs =
     Option.bind (dec bs) (\<lambda>(m, r). map_option (map_prod ((#) m) id) (dec_n n r))"

lemma dec_n_stream:
  "list_all wf ms \<Longrightarrow> dec_n (length ms) (concat (map enc ms) @ rest) = Some (ms, rest)"
proof (induction ms)
  case Nil
  then show ?case by simp
next
  case (Cons m ms)
  have "dec (enc m @ concat (map enc ms) @ rest) = Some (m, concat (map enc ms) @ rest)"
    using Cons.prems by (intro dec_enc) simp
  then show ?case using Cons by simp
qed

end

subsection \<open>Resumable tasks\<close>

text \<open>What runs inside a task: given the id of its coroutine, its continuation and the
  world, the world and the continuation left at the next \<^verbatim>\<open>yield\<close>, or none when it has
  returned.\<close>

type_synonym ('k, 'w) slice = "int \<Rightarrow> 'k \<Rightarrow> 'w \<Rightarrow> ('w \<times> 'k option) mem"

text \<open>A scheduler is a map from coroutine ids to suspended tasks: a new task runs at once on
  an id that holds none, a suspended one runs on its own id, and no other task is
  touched.\<close>

locale task_map =
  fixes ok :: "'s \<Rightarrow> bool"
    and tasks :: "'s \<Rightarrow> int \<Rightarrow> 'k option"
    and start :: "('k, 'w) slice \<Rightarrow> 'k \<Rightarrow> 's \<times> 'w \<Rightarrow> ('s \<times> 'w) mem"
    and resume :: "('k, 'w) slice \<Rightarrow> int \<Rightarrow> 's \<times> 'w \<Rightarrow> ('s \<times> 'w) mem"
  assumes start_law: "ok s \<Longrightarrow> \<exists>i S. 1 \<le> i \<and> tasks s i = None
      \<and> (\<forall>r. ok (S r) \<and> tasks (S r) = (tasks s)(i := r))
      \<and> (\<forall>run w. start run k (s, w) = map_option (\<lambda>(w2, r). (S r, w2)) (run i k w))"
    and resume_law: "\<lbrakk>ok s; tasks s i = Some k\<rbrakk> \<Longrightarrow> \<exists>S. (\<forall>r. ok (S r) \<and> tasks (S r) = (tasks s)(i := r))
      \<and> (\<forall>run w. resume run i (s, w) = map_option (\<lambda>(w2, r). (S r, w2)) (run i k w))"
begin

text \<open>An invariant of the map and the world that every slice keeps is kept by both.\<close>

lemma start_inv:
  assumes "ok s" "start run k (s, w) = Some (s2, w2)"
    and "\<And>i w2 r. \<lbrakk>1 \<le> i; tasks s i = None; run i k w = Some (w2, r)\<rbrakk> \<Longrightarrow> P ((tasks s)(i := r)) w2"
  shows "ok s2 \<and> P (tasks s2) w2"
proof -
  obtain i S where S: "1 \<le> i" "tasks s i = None" "\<And>r. ok (S r) \<and> tasks (S r) = (tasks s)(i := r)"
      "start run k (s, w) = map_option (\<lambda>(w2, r). (S r, w2)) (run i k w)"
    using start_law [OF assms(1), of k] by blast
  then obtain r where r: "run i k w = Some (w2, r)" "s2 = S r"
    using assms(2) by (cases "run i k w") auto
  then show ?thesis using S assms(3) [OF S(1,2) r(1)] by simp
qed

lemma resume_inv:
  assumes "ok s" "tasks s i = Some k" "resume run i (s, w) = Some (s2, w2)"
    and "\<And>w2 r. run i k w = Some (w2, r) \<Longrightarrow> P ((tasks s)(i := r)) w2"
  shows "ok s2 \<and> P (tasks s2) w2"
proof -
  obtain S where S: "\<And>r. ok (S r) \<and> tasks (S r) = (tasks s)(i := r)"
      "resume run i (s, w) = map_option (\<lambda>(w2, r). (S r, w2)) (run i k w)"
    using resume_law [OF assms(1,2)] by blast
  then obtain r where r: "run i k w = Some (w2, r)" "s2 = S r"
    using assms(3) by (cases "run i k w") auto
  then show ?thesis using S assms(4) [OF r(1)] by simp
qed

text \<open>Neither faults unless the task itself does.\<close>

lemma start_total: "\<lbrakk>ok s; \<And>i. run i k w \<noteq> None\<rbrakk> \<Longrightarrow> start run k (s, w) \<noteq> None"
  using start_law [of s k] by fastforce

lemma resume_total: "\<lbrakk>ok s; tasks s i = Some k; run i k w \<noteq> None\<rbrakk> \<Longrightarrow> resume run i (s, w) \<noteq> None"
  using resume_law [of s i k] by fastforce

end

end
