(* ===== verification/Ring_Queue.thy ===== *)
theory Ring_Queue
  imports Interfaces
begin

text \<open>
  The bounded ring \<^verbatim>\<open>circular_queue<T>\<close> of \<^verbatim>\<open>slience/base/circular_queue.hpp\<close>: a block of
  \<^verbatim>\<open>cap + 1\<close> slots of which one always stays free.  A slot is \<^term>\<open>None\<close> while it
  holds no constructed object.  The ring provides the queue contract \<^verbatim>\<open>fifo\<close>.
\<close>

record 'a cq =
  cq_cap :: nat
  cq_head :: nat
  cq_tail :: nat
  cq_element :: "'a option list"

definition cq_new :: "nat \<Rightarrow> 'a cq" where
  "cq_new cap = \<lparr>cq_cap = cap + 1, cq_head = 0, cq_tail = 0, cq_element = replicate (cap + 1) None\<rparr>"

definition cq_new_default :: "'a cq" where
  "cq_new_default = \<lparr>cq_cap = 1024 + 1, cq_head = 0, cq_tail = 0, cq_element = replicate (1024 + 1) None\<rparr>"

definition cq_capacity :: "'a cq \<Rightarrow> nat" where
  "cq_capacity q = cq_cap q - 1"

definition cq_size :: "'a cq \<Rightarrow> nat" where
  "cq_size q = (cq_cap q - cq_head q + cq_tail q) mod cq_cap q"

definition cq_full :: "'a cq \<Rightarrow> bool" where
  "cq_full q \<longleftrightarrow> cq_size q = cq_cap q - 1"

definition cq_empty :: "'a cq \<Rightarrow> bool" where
  "cq_empty q \<longleftrightarrow> cq_head q = cq_tail q"

definition cq_front :: "'a cq \<Rightarrow> 'a option" where
  "cq_front q = cq_element q ! cq_head q"

definition cq_back :: "'a cq \<Rightarrow> 'a option" where
  "cq_back q = cq_element q ! ((cq_cap q + cq_tail q - 1) mod cq_cap q)"

definition cq_pop_front :: "'a cq \<Rightarrow> 'a cq" where
  "cq_pop_front q =
     (if cq_head q \<noteq> cq_tail q
      then q\<lparr>cq_element := (cq_element q)[cq_head q := None],
             cq_head := (cq_head q + 1) mod cq_cap q\<rparr>
      else q)"

definition cq_pop_front_get :: "'a cq \<Rightarrow> ('a \<times> 'a cq) option" where
  "cq_pop_front_get q =
     (if cq_head q \<noteq> cq_tail q
      then Some (the (cq_element q ! cq_head q),
                 q\<lparr>cq_element := (cq_element q)[cq_head q := None],
                   cq_head := (cq_head q + 1) mod cq_cap q\<rparr>)
      else None)"

definition cq_pop_back :: "'a cq \<Rightarrow> 'a cq" where
  "cq_pop_back q =
     (if cq_head q \<noteq> cq_tail q
      then let t = (cq_cap q + cq_tail q - 1) mod cq_cap q
           in q\<lparr>cq_tail := t, cq_element := (cq_element q)[t := None]\<rparr>
      else q)"

text \<open>The value-returning \<^verbatim>\<open>pop_back(T&)\<close> ends its success branch with the expression
  statement \<^verbatim>\<open>true;\<close> and no \<^verbatim>\<open>return\<close>: the first component, the value of the call, is
  \<^term>\<open>None\<close> (indeterminate) there.\<close>

definition cq_pop_back_get :: "'a cq \<Rightarrow> bool option \<times> 'a option \<times> 'a cq" where
  "cq_pop_back_get q =
     (if cq_head q \<noteq> cq_tail q
      then let t = (cq_cap q + cq_tail q - 1) mod cq_cap q
           in (None, cq_element q ! t, q\<lparr>cq_tail := t, cq_element := (cq_element q)[t := None]\<rparr>)
      else (Some False, None, q))"

definition cq_push_back :: "'a \<Rightarrow> 'a cq \<Rightarrow> bool \<times> 'a cq" where
  "cq_push_back t q =
     (if cq_full q then (False, q)
      else (True, q\<lparr>cq_element := (cq_element q)[cq_tail q := Some t],
                    cq_tail := (cq_tail q + 1) mod cq_cap q\<rparr>))"

definition cq_swap :: "'a cq \<times> 'a cq \<Rightarrow> 'a cq \<times> 'a cq" where
  "cq_swap p = (snd p, fst p)"

lemma mod_wrap: "x < 2 * c \<Longrightarrow> x mod c = (if x < c then x else x - (c::nat))"
  by (simp add: le_mod_geq not_less)

lemma ring_dist:
  assumes "h < c" "t < (c::nat)"
  shows "(c - h + t) mod c = (if h \<le> t then t - h else c - h + t)"
  using assms by (subst mod_wrap) auto

lemma ring_step: "t < (c::nat) \<Longrightarrow> (t + 1) mod c = (if t + 1 = c then 0 else t + 1)"
  by auto

lemma ring_dec:
  assumes "h < c" "t < (c::nat)" "h \<noteq> t"
  shows "(c - (h + 1) mod c + t) mod c + 1 = (c - h + t) mod c"
proof (cases "h + 1 = c")
  case True
  then have "(h + 1) mod c = 0" by simp
  then show ?thesis using assms True by (simp add: ring_dist)
next
  case False
  then have "(h + 1) mod c = h + 1" "h + 1 < c" using assms by auto
  then show ?thesis using assms by (simp only: ring_dist) auto
qed

lemma ring_inc:
  assumes "h < c" "t < (c::nat)" "(c - h + t) mod c \<noteq> c - 1"
  shows "(c - h + (t + 1) mod c) mod c = (c - h + t) mod c + 1"
proof (cases "t + 1 = c")
  case True
  then have "(t + 1) mod c = 0" by simp
  then show ?thesis using assms True by (simp only: ring_dist) (auto split: if_splits)
next
  case False
  then have "(t + 1) mod c = t + 1" "t + 1 < c" using assms by auto
  then show ?thesis using assms by (simp only: ring_dist) (auto split: if_splits)
qed

text \<open>\<^verbatim>\<open>clear\<close> destroys the elements from the head; the two extra tests stop the
  recursion on indices outside the block, which no operation produces.\<close>

function cq_clear :: "'a cq \<Rightarrow> 'a cq" where
  "cq_clear q =
     (if cq_head q = cq_tail q \<or> cq_cap q \<le> cq_head q \<or> cq_cap q \<le> cq_tail q then q
      else cq_clear (q\<lparr>cq_element := (cq_element q)[cq_head q := None],
                       cq_head := (cq_head q + 1) mod cq_cap q\<rparr>))"
  by pat_completeness auto

termination
proof (relation "measure cq_size")
  fix q :: "'a cq"
  assume a: "\<not> (cq_head q = cq_tail q \<or> cq_cap q \<le> cq_head q \<or> cq_cap q \<le> cq_tail q)"
  then have "(cq_cap q - (cq_head q + 1) mod cq_cap q + cq_tail q) mod cq_cap q
      < (cq_cap q - cq_head q + cq_tail q) mod cq_cap q"
    using ring_dec [of "cq_head q" "cq_cap q" "cq_tail q"] by linarith
  then show "(q\<lparr>cq_element := (cq_element q)[cq_head q := None],
      cq_head := (cq_head q + 1) mod cq_cap q\<rparr>, q) \<in> measure cq_size"
    by (simp add: cq_size_def)
qed simp

declare cq_clear.simps [simp del]

subsection \<open>Abstraction and invariant\<close>

definition cq_items :: "'a cq \<Rightarrow> 'a list" where
  "cq_items q = map (\<lambda>i. the (cq_element q ! ((cq_head q + i) mod cq_cap q))) [0..<cq_size q]"

definition cq_ok :: "'a cq \<Rightarrow> bool" where
  "cq_ok q \<longleftrightarrow> cq_head q < cq_cap q \<and> cq_tail q < cq_cap q \<and> length (cq_element q) = cq_cap q
     \<and> (\<forall>i < cq_size q. cq_element q ! ((cq_head q + i) mod cq_cap q) \<noteq> None)"

lemma length_cq_items: "length (cq_items q) = cq_size q"
  by (simp add: cq_items_def)

lemma cq_ok_new: "cq_ok (cq_new cap)"
  by (simp add: cq_ok_def cq_new_def cq_size_def)

lemma cq_size_eq:
  "cq_ok q \<Longrightarrow> cq_size q = (if cq_head q \<le> cq_tail q then cq_tail q - cq_head q
                         else cq_cap q - cq_head q + cq_tail q)"
  unfolding cq_size_def cq_ok_def by (intro ring_dist) auto

lemma cq_size_less: "cq_ok q \<Longrightarrow> cq_size q < cq_cap q"
  by (auto simp: cq_size_def cq_ok_def)

lemma cq_size_0: "cq_ok q \<Longrightarrow> (cq_size q = 0) = (cq_head q = cq_tail q)"
  by (auto simp: cq_size_eq) (auto simp: cq_ok_def)

lemma cq_tail_pos: "cq_ok q \<Longrightarrow> (cq_head q + cq_size q) mod cq_cap q = cq_tail q"
  by (auto simp: cq_size_eq) (auto simp: cq_ok_def)

lemma ring_inj:
  "\<lbrakk>h < c; i < c; j < c; (h + i) mod c = (h + j) mod (c::nat)\<rbrakk> \<Longrightarrow> i = j"
  by (simp add: mod_wrap split: if_splits)

subsection \<open>Operations\<close>

lemma cq_full_iff: "cq_ok q \<Longrightarrow> cq_full q \<longleftrightarrow> length (cq_items q) = cq_capacity q"
  by (simp add: cq_full_def length_cq_items cq_capacity_def)

lemma cq_empty_iff: "cq_ok q \<Longrightarrow> cq_empty q \<longleftrightarrow> cq_items q = []"
  by (metis cq_empty_def cq_size_0 length_0_conv length_cq_items)

lemma cq_push_size:
  assumes "cq_ok q" "\<not> cq_full q"
  shows "cq_size (snd (cq_push_back x q)) = cq_size q + 1"
proof -
  have "cq_head q < cq_cap q" "cq_tail q < cq_cap q" using assms by (auto simp: cq_ok_def)
  then show ?thesis
    using assms(2) ring_inc [of "cq_head q" "cq_cap q" "cq_tail q"]
    by (simp add: cq_push_back_def cq_full_def cq_size_def)
qed

lemma cq_push_back_ok:
  assumes ok: "cq_ok q" and nf: "\<not> cq_full q"
  shows "cq_ok (snd (cq_push_back x q))"
    and "cq_items (snd (cq_push_back x q)) = cq_items q @ [x]"
proof -
  let ?q = "snd (cq_push_back x q)"
  have sz: "cq_size ?q = cq_size q + 1" by (rule cq_push_size [OF ok nf])
  have lt: "cq_size q < cq_cap q" by (rule cq_size_less [OF ok])
  have b: "cq_head q < cq_cap q" "cq_tail q < cq_cap q" "length (cq_element q) = cq_cap q"
    using ok by (auto simp: cq_ok_def)
  have h: "cq_head ?q = cq_head q" "cq_cap ?q = cq_cap q"
    "cq_tail ?q = (cq_tail q + 1) mod cq_cap q"
    "cq_element ?q = (cq_element q)[cq_tail q := Some x]"
    using nf by (simp_all add: cq_push_back_def)
  have tl: "(cq_head q + cq_size q) mod cq_cap q = cq_tail q" by (rule cq_tail_pos [OF ok])
  have ne: "cq_tail q \<noteq> (cq_head q + i) mod cq_cap q" if "i < cq_size q" for i
    using ring_inj [OF b(1), of i "cq_size q"] that lt tl by auto
  show "cq_items ?q = cq_items q @ [x]"
    using b tl ne by (auto simp: cq_items_def sz h)
  have "cq_element ?q ! ((cq_head q + i) mod cq_cap q) \<noteq> None" if "i < cq_size q + 1" for i
    using that ok ne [of i] tl b by (cases "i = cq_size q") (auto simp: h cq_ok_def)
  then show "cq_ok ?q"
    using b unfolding cq_ok_def sz h by auto
qed

lemma cq_pop_size:
  assumes "cq_ok q" "cq_head q \<noteq> cq_tail q"
  shows "cq_size (cq_pop_front q) = cq_size q - 1"
proof -
  have "cq_head q < cq_cap q" "cq_tail q < cq_cap q" using assms by (auto simp: cq_ok_def)
  then show ?thesis
    using assms(2) ring_dec [of "cq_head q" "cq_cap q" "cq_tail q"]
    by (simp add: cq_pop_front_def cq_size_def)
qed

lemma cq_pop_front_ok:
  assumes ok: "cq_ok q" and ne: "cq_head q \<noteq> cq_tail q"
  shows "cq_ok (cq_pop_front q)"
    and "cq_items q = the (cq_element q ! cq_head q) # cq_items (cq_pop_front q)"
proof -
  let ?q = "cq_pop_front q"
  have sz: "cq_size ?q = cq_size q - 1" by (rule cq_pop_size [OF ok ne])
  have pos: "cq_size q \<noteq> 0" using ok ne cq_size_0 by blast
  have lt: "cq_size q < cq_cap q" by (rule cq_size_less [OF ok])
  have b: "cq_head q < cq_cap q" "cq_tail q < cq_cap q" "length (cq_element q) = cq_cap q"
    using ok by (auto simp: cq_ok_def)
  have h: "cq_head ?q = (cq_head q + 1) mod cq_cap q" "cq_cap ?q = cq_cap q"
    "cq_tail ?q = cq_tail q" "cq_element ?q = (cq_element q)[cq_head q := None]"
    using ne by (simp_all add: cq_pop_front_def)
  have ix: "((cq_head q + 1) mod cq_cap q + i) mod cq_cap q = (cq_head q + Suc i) mod cq_cap q" for i
    by (simp add: mod_add_left_eq)
  have nh: "cq_head q \<noteq> (cq_head q + Suc i) mod cq_cap q" if "Suc i < cq_size q" for i
    using ring_inj [OF b(1), of "Suc i" 0] that lt b by auto
  have up: "[0..<cq_size q] = 0 # map Suc [0..<cq_size q - 1]"
    using pos by (metis Suc_pred' bot_nat_0.not_eq_extremum map_Suc_upt upt_conv_Cons)
  show "cq_items q = the (cq_element q ! cq_head q) # cq_items ?q"
    unfolding cq_items_def up sz h ix using b nh by auto
  have "cq_element ?q ! ((cq_head ?q + i) mod cq_cap q) \<noteq> None" if "i < cq_size q - 1" for i
  proof -
    have i: "Suc i < cq_size q" using that by simp
    have "cq_element q ! ((cq_head q + Suc i) mod cq_cap q) \<noteq> None"
      using ok i unfolding cq_ok_def by blast
    then show ?thesis unfolding h ix using nh [OF i] by simp
  qed
  then show "cq_ok ?q"
    using b unfolding cq_ok_def sz h by auto
qed

lemma cq_pop_front_get_eq:
  "cq_pop_front_get q = (if cq_head q \<noteq> cq_tail q
     then Some (the (cq_element q ! cq_head q), cq_pop_front q) else None)"
  by (simp add: cq_pop_front_get_def cq_pop_front_def)

interpretation cq: fifo cq_ok cq_items "\<lambda>q. \<not> cq_full q" cq_push_back cq_pop_front_get
proof unfold_locales
  fix q :: "'a cq" and x xs
  assume ok: "cq_ok q"
  show "cq_pop_front_get q = None" if "cq_items q = []"
    using that ok by (metis cq_empty_def cq_empty_iff cq_pop_front_get_eq)
  show "\<exists>s1. cq_pop_front_get q = Some (x, s1) \<and> cq_ok s1 \<and> cq_items s1 = xs"
    if i: "cq_items q = x # xs"
  proof -
    have "cq_head q \<noteq> cq_tail q" using i ok by (metis cq_empty_def cq_empty_iff list.distinct(1))
    then show ?thesis
      using cq_pop_front_ok [OF ok] i by (simp add: cq_pop_front_get_eq)
  qed
qed (simp_all add: cq_push_back_ok, simp_all add: cq_push_back_def)

end
