(* ===== verification/Linked_List.thy ===== *)
theory Linked_List
  imports Interfaces
begin

text \<open>
  The singly linked list \<^verbatim>\<open>slist<T>\<close> of \<^verbatim>\<open>slience/base/slist.hpp\<close>, over an explicit heap
  of nodes: a freed node is absent from the heap, and following a pointer to it
  is a memory fault (\<^term>\<open>None\<close>).  Addresses are not reused, so every use of a
  dangling pointer is seen.
\<close>

type_synonym addr = nat

record 'a node_heap =
  nodes :: "addr \<Rightarrow> ('a \<times> addr option) option"
  next_addr :: addr

record slist =
  sl_count :: int
  sl_head :: "addr option"
  sl_tail :: "addr option"

type_synonym 'a sl_state = "'a node_heap \<times> slist"

definition heap_empty :: "'a node_heap" where
  "heap_empty = \<lparr>nodes = (\<lambda>_. None), next_addr = 0\<rparr>"

definition sl_new :: slist where
  "sl_new = \<lparr>sl_count = 0, sl_head = None, sl_tail = None\<rparr>"

definition sl_push_back :: "'a \<Rightarrow> 'a sl_state \<Rightarrow> 'a sl_state mem" where
  "sl_push_back t s =
     (let h = fst s; l = snd s; p = next_addr h;
          h1 = h\<lparr>nodes := (nodes h)(p := Some (t, None)), next_addr := p + 1\<rparr>;
          finish = (\<lambda>h2. Some (h2, l\<lparr>sl_tail := Some p,
                       sl_head := (if sl_head l = None then Some p else sl_head l),
                       sl_count := sl_count l + 1\<rparr>))
      in case sl_tail l of
           None \<Rightarrow> finish h1
         | Some a \<Rightarrow> (case nodes h1 a of
             None \<Rightarrow> None
           | Some (v, _) \<Rightarrow> finish (h1\<lparr>nodes := (nodes h1)(a := Some (v, Some p))\<rparr>)))"

definition sl_front :: "'a sl_state \<Rightarrow> 'a mem" where
  "sl_front s = Option.bind (sl_head (snd s)) (\<lambda>a. map_option fst (nodes (fst s) a))"

definition sl_pop_front :: "'a sl_state \<Rightarrow> 'a sl_state mem" where
  "sl_pop_front s =
     (let h = fst s; l = snd s
      in case sl_head l of
           None \<Rightarrow> Some s
         | Some a \<Rightarrow> (case nodes h a of
             None \<Rightarrow> None
           | Some (_, p) \<Rightarrow>
               Some (h\<lparr>nodes := (nodes h)(a := None)\<rparr>,
                     l\<lparr>sl_tail := (if sl_tail l = Some a then p else sl_tail l),
                       sl_head := p, sl_count := sl_count l - 1\<rparr>)))"

definition sl_size :: "slist \<Rightarrow> int" where
  "sl_size l = sl_count l"

definition sl_empty :: "slist \<Rightarrow> bool" where
  "sl_empty l \<longleftrightarrow> sl_count l = 0"

text \<open>\<^verbatim>\<open>clear\<close> frees every node of the chain; the fuel bounds the length of the chain
  and is taken from the number of addresses handed out.\<close>

fun free_chain :: "nat \<Rightarrow> addr option \<Rightarrow> 'a node_heap \<Rightarrow> 'a node_heap mem" where
  "free_chain fuel None h = Some h"
| "free_chain 0 (Some a) h = None"
| "free_chain (Suc n) (Some a) h =
     (case nodes h a of
        None \<Rightarrow> None
      | Some (_, p) \<Rightarrow> free_chain n p (h\<lparr>nodes := (nodes h)(a := None)\<rparr>))"

definition sl_clear :: "'a sl_state \<Rightarrow> 'a sl_state mem" where
  "sl_clear s = map_option (\<lambda>h. (h, (snd s)\<lparr>sl_head := None, sl_count := 0\<rparr>))
     (free_chain (next_addr (fst s)) (sl_head (snd s)) (fst s))"

definition sl_destroy :: "'a sl_state \<Rightarrow> 'a sl_state mem" where
  "sl_destroy s = map_option (\<lambda>h. (h, (snd s)\<lparr>sl_count := 0, sl_head := None, sl_tail := None\<rparr>))
     (free_chain (next_addr (fst s)) (sl_head (snd s)) (fst s))"

definition sl_swap :: "slist \<times> slist \<Rightarrow> slist \<times> slist" where
  "sl_swap p = (let l = fst p; r = snd p
     in (l\<lparr>sl_count := sl_count r, sl_head := sl_head r, sl_tail := sl_tail r\<rparr>,
         r\<lparr>sl_count := sl_count l, sl_head := sl_head l, sl_tail := sl_tail l\<rparr>))"

text \<open>\<^verbatim>\<open>join\<close> of two different lists (joining a list with itself returns at once).\<close>

definition sl_join :: "'a node_heap \<Rightarrow> slist \<Rightarrow> slist \<Rightarrow> ('a node_heap \<times> slist \<times> slist) mem" where
  "sl_join h l r =
     (let finish = (\<lambda>h1 l1. Some (h1, l1\<lparr>sl_count := sl_count l1 + sl_count r\<rparr>,
                        r\<lparr>sl_head := None, sl_tail := None, sl_count := 0\<rparr>))
      in case sl_tail l of
           None \<Rightarrow> finish h (l\<lparr>sl_head := sl_head r, sl_tail := sl_tail r\<rparr>)
         | Some a \<Rightarrow> (case nodes h a of
             None \<Rightarrow> None
           | Some (v, _) \<Rightarrow> finish (h\<lparr>nodes := (nodes h)(a := Some (v, sl_head r))\<rparr>)
                                (l\<lparr>sl_tail := sl_tail r\<rparr>)))"

subsection \<open>Chains\<close>

text \<open>\<^term>\<open>seg m p cs q\<close>: following the pointers from \<^term>\<open>p\<close> meets exactly the nodes
  \<^term>\<open>cs\<close> (address and value) and ends in \<^term>\<open>q\<close>.\<close>

primrec seg :: "(addr \<Rightarrow> ('a \<times> addr option) option) \<Rightarrow> addr option \<Rightarrow> (addr \<times> 'a) list
    \<Rightarrow> addr option \<Rightarrow> bool" where
  "seg m p [] q \<longleftrightarrow> p = q"
| "seg m p (c # cs) q \<longleftrightarrow> p = Some (fst c) \<and>
     (case m (fst c) of None \<Rightarrow> False | Some (v, n) \<Rightarrow> v = snd c \<and> seg m n cs q)"

definition sl_rep :: "(addr \<times> 'a) list \<Rightarrow> 'a sl_state \<Rightarrow> bool" where
  "sl_rep cs s \<longleftrightarrow> seg (nodes (fst s)) (sl_head (snd s)) cs None \<and> distinct (map fst cs)
     \<and> (\<forall>a. next_addr (fst s) \<le> a \<longrightarrow> nodes (fst s) a = None)
     \<and> sl_count (snd s) = int (length cs)
     \<and> sl_tail (snd s) = (if cs = [] then None else Some (fst (last cs)))"

lemma seg_append:
  "seg m p (cs @ ds) q \<longleftrightarrow> (\<exists>r. seg m p cs r \<and> seg m r ds q)"
  by (induction cs arbitrary: p) (auto split: option.splits)

lemma seg_frame:
  "a \<notin> fst ` set cs \<Longrightarrow> seg (m(a := x)) p cs q = seg m p cs q"
  by (induction cs arbitrary: p) (auto split: option.splits)

lemma seg_alloc: "seg m p cs q \<Longrightarrow> \<forall>c \<in> set cs. m (fst c) \<noteq> None"
  by (induction cs arbitrary: p) (auto split: option.splits)

lemma sl_rep_new: "sl_rep [] (heap_empty, sl_new)"
  by (simp add: sl_rep_def heap_empty_def sl_new_def)

lemma sl_rep_bound:
  assumes "sl_rep cs s" shows "\<forall>c \<in> set cs. fst c < next_addr (fst s)"
  using assms seg_alloc unfolding sl_rep_def by (metis not_le)

lemma sl_push_back_rep:
  assumes rep: "sl_rep cs s"
  shows "\<exists>s'. sl_push_back t s = Some s' \<and> sl_rep (cs @ [(next_addr (fst s), t)]) s'"
proof -
  let ?p = "next_addr (fst s)"
  have fresh: "?p \<notin> fst ` set cs"
    using sl_rep_bound [OF rep] by force
  show ?thesis
  proof (cases cs rule: rev_cases)
    case Nil
    then show ?thesis using rep by (auto simp: sl_rep_def sl_push_back_def Let_def)
  next
    case (snoc ds d)
    obtain r where r: "seg (nodes (fst s)) (sl_head (snd s)) ds r" "r = Some (fst d)"
        "nodes (fst s) (fst d) = Some (snd d, None)"
      using rep snoc by (auto simp: sl_rep_def seg_append split: option.splits)
    have dn: "fst d \<notin> fst ` set ds" "fst d \<noteq> ?p" "?p \<notin> fst ` set ds"
      using rep fresh snoc by (auto simp: sl_rep_def)
    let ?m = "(nodes (fst s))(?p := Some (t, None), fst d := Some (snd d, Some ?p))"
    have "seg ?m (sl_head (snd s)) ds (Some (fst d))"
      using r dn by (simp add: seg_frame)
    then have "seg ?m (sl_head (snd s)) (cs @ [(?p, t)]) None"
      using snoc dn by (auto simp: seg_append)
    moreover have "sl_head (snd s) \<noteq> None"
      using rep snoc by (cases ds) (auto simp: sl_rep_def split: option.splits)
    ultimately show ?thesis
      using rep snoc r dn fresh by (auto simp: sl_rep_def sl_push_back_def Let_def fun_upd_twist)
  qed
qed

lemma sl_pop_front_rep:
  assumes rep: "sl_rep (c # cs) s"
  shows "sl_front s = Some (snd c) \<and> (\<exists>s'. sl_pop_front s = Some s' \<and> sl_rep cs s')"
proof -
  obtain n where n: "sl_head (snd s) = Some (fst c)" "nodes (fst s) (fst c) = Some (snd c, n)"
      "seg (nodes (fst s)) n cs None"
    using rep by (auto simp: sl_rep_def split: option.splits)
  have d: "fst c \<notin> fst ` set cs" "distinct (map fst cs)"
    using rep by (auto simp: sl_rep_def)
  have tl: "cs \<noteq> [] \<Longrightarrow> fst (last cs) \<noteq> fst c"
    using d by (metis image_eqI last_in_set)
  have "cs = [] \<Longrightarrow> n = None" using n(3) by simp
  then show ?thesis
    using rep n d tl
    by (auto simp: sl_rep_def sl_pop_front_def sl_front_def seg_frame Let_def)
qed

lemma sl_pop_front_empty: "sl_rep [] s \<Longrightarrow> sl_pop_front s = Some s"
  by (simp add: sl_rep_def sl_pop_front_def)

subsection \<open>The queue contract\<close>

text \<open>The list as a queue of values: \<^verbatim>\<open>push_back\<close> always succeeds, \<^verbatim>\<open>front\<close> followed by
  \<^verbatim>\<open>pop_front\<close> removes the oldest value.  The abstraction keeps the chain beside
  the state so that it is a function of it.\<close>

primrec chain :: "nat \<Rightarrow> (addr \<Rightarrow> ('a \<times> addr option) option) \<Rightarrow> addr option \<Rightarrow> (addr \<times> 'a) list" where
  "chain 0 m p = []"
| "chain (Suc n) m p =
     (case p of None \<Rightarrow> []
      | Some a \<Rightarrow> (case m a of None \<Rightarrow> [] | Some (v, q) \<Rightarrow> (a, v) # chain n m q))"

definition sl_chain :: "'a sl_state \<Rightarrow> (addr \<times> 'a) list" where
  "sl_chain s = chain (nat (sl_count (snd s))) (nodes (fst s)) (sl_head (snd s))"

definition sl_ok :: "'a sl_state \<Rightarrow> bool" where
  "sl_ok s \<longleftrightarrow> sl_rep (sl_chain s) s"

definition sl_items :: "'a sl_state \<Rightarrow> 'a list" where
  "sl_items s = map snd (sl_chain s)"

definition sl_enq :: "'a \<Rightarrow> 'a sl_state \<Rightarrow> bool \<times> 'a sl_state" where
  "sl_enq x s = (case sl_push_back x s of None \<Rightarrow> (False, s) | Some s1 \<Rightarrow> (True, s1))"

definition sl_deq :: "'a sl_state \<Rightarrow> ('a \<times> 'a sl_state) option" where
  "sl_deq s = (if sl_empty (snd s) then None
     else Option.bind (sl_front s) (\<lambda>x. map_option (Pair x) (sl_pop_front s)))"

lemma chain_seg: "seg m p cs None \<Longrightarrow> chain (length cs) m p = cs"
  by (induction cs arbitrary: p) (auto split: option.splits)

lemma sl_rep_chain: "sl_rep cs s \<Longrightarrow> sl_chain s = cs"
  by (simp add: sl_chain_def sl_rep_def chain_seg)

lemma sl_okI: "sl_rep cs s \<Longrightarrow> sl_ok s \<and> sl_items s = map snd cs"
  by (simp add: sl_ok_def sl_items_def sl_rep_chain)

interpretation sl: fifo sl_ok sl_items "\<lambda>_. True" sl_enq sl_deq
proof unfold_locales
  fix s :: "'a sl_state" and x xs
  assume ok: "sl_ok s"
  then have rep: "sl_rep (sl_chain s) s" by (simp add: sl_ok_def)
  show "fst (sl_enq x s) \<and> sl_ok (snd (sl_enq x s)) \<and> sl_items (snd (sl_enq x s)) = sl_items s @ [x]"
    using sl_push_back_rep [OF rep, of x] sl_okI
    by (fastforce simp: sl_enq_def sl_items_def sl_rep_chain)
  show "sl_deq s = None" if "sl_items s = []"
    using that rep by (simp add: sl_deq_def sl_items_def sl_rep_def sl_empty_def)
  show "\<exists>s1. sl_deq s = Some (x, s1) \<and> sl_ok s1 \<and> sl_items s1 = xs" if i: "sl_items s = x # xs"
  proof -
    obtain c cs where c: "sl_chain s = c # cs" "x = snd c" "xs = map snd cs"
      using i by (auto simp: sl_items_def)
    have "\<not> sl_empty (snd s)" using rep c by (simp add: sl_empty_def sl_rep_def)
    then show ?thesis
      using sl_pop_front_rep [of c cs s] rep c sl_okI by (fastforce simp: sl_deq_def)
  qed
qed simp

subsection \<open>\<^verbatim>\<open>join\<close>, \<^verbatim>\<open>clear\<close> and destruction\<close>

lemma sl_join_rep:
  assumes l: "sl_rep cs (h, l)" and r: "sl_rep ds (h, r)" and ne: "ds \<noteq> []"
    and dj: "fst ` set cs \<inter> fst ` set ds = {}"
  shows "\<exists>h' l' r'. sl_join h l r = Some (h', l', r') \<and> sl_rep (cs @ ds) (h', l') \<and> sl_rep [] (h', r')"
proof (cases cs rule: rev_cases)
  case Nil
  then show ?thesis using l r ne by (auto simp: sl_rep_def sl_join_def Let_def)
next
  case (snoc es e)
  obtain p where p: "seg (nodes h) (sl_head l) es p" "p = Some (fst e)"
      "nodes h (fst e) = Some (snd e, None)"
    using l snoc by (auto simp: sl_rep_def seg_append split: option.splits)
  have d: "fst e \<notin> fst ` set es" "fst e \<notin> fst ` set ds"
    using l dj snoc by (auto simp: sl_rep_def)
  let ?m = "(nodes h)(fst e := Some (snd e, sl_head r))"
  have "seg ?m (sl_head l) es (Some (fst e))" "seg ?m (sl_head r) ds None"
    using p d r by (simp_all add: seg_frame sl_rep_def)
  then have "seg ?m (sl_head l) (cs @ ds) None"
    using snoc by (auto simp: seg_append)
  moreover have "fst e < next_addr h" using sl_rep_bound [OF l] snoc by auto
  ultimately show ?thesis
    using l r snoc p dj ne by (auto simp: sl_rep_def sl_join_def Let_def Int_commute)
qed

lemma free_chain_seg:
  "\<lbrakk>seg (nodes h) p cs None; distinct (map fst cs); length cs \<le> n\<rbrakk> \<Longrightarrow>
     \<exists>h'. free_chain n p h = Some h' \<and> next_addr h' = next_addr h
       \<and> nodes h' = (\<lambda>a. if a \<in> fst ` set cs then None else nodes h a)"
proof (induction cs arbitrary: p h n)
  case Nil
  then show ?case by simp
next
  case (Cons c cs)
  obtain q k where q: "p = Some (fst c)" "nodes h (fst c) = Some (snd c, q)" "seg (nodes h) q cs None"
      "n = Suc k" "length cs \<le> k"
    using Cons.prems by (cases n) (auto split: option.splits)
  let ?h = "h\<lparr>nodes := (nodes h)(fst c := None)\<rparr>"
  have "seg (nodes ?h) q cs None" using q Cons.prems by (simp add: seg_frame)
  from Cons.IH [OF this _ q(5)] show ?case
    using q Cons.prems by (auto simp: fun_eq_iff)
qed

lemma sl_clear_rep:
  assumes rep: "sl_rep cs s"
  shows "\<exists>h'. sl_clear s = Some (h', (snd s)\<lparr>sl_head := None, sl_count := 0\<rparr>)
    \<and> (\<forall>c \<in> set cs. nodes h' (fst c) = None) \<and> next_addr h' = next_addr (fst s)"
proof -
  have "length cs = card (fst ` set cs)"
    using rep by (metis distinct_card length_map list.set_map sl_rep_def)
  also have "\<dots> \<le> card {..< next_addr (fst s)}"
    using sl_rep_bound [OF rep] by (intro card_mono) auto
  finally have "length cs \<le> next_addr (fst s)" by simp
  moreover have "seg (nodes (fst s)) (sl_head (snd s)) cs None" "distinct (map fst cs)"
    using rep by (auto simp: sl_rep_def)
  ultimately show ?thesis
    using free_chain_seg [of "fst s" "sl_head (snd s)" cs "next_addr (fst s)"]
    by (auto simp: sl_clear_def)
qed

subsection \<open>Properties\<close>

text \<open>Queue behaviour of the linked list.  In every run of insertions and removals on a
  well-formed list the removed values are, in order, exactly the oldest inserted
  ones, no operation follows a dangling pointer, and every insertion is accepted.\<close>

theorem slist_fifo:
  assumes "sl_ok s" "run_queue sl_enq sl_deq ops s = (ins, outs, s1)"
  shows "sl_ok s1 \<and> outs @ sl_items s1 = sl_items s @ ins"
  by (rule sl.run_fifo [OF assms])

theorem slist_fifo_witness:
  "sl_ok (heap_empty :: nat node_heap, sl_new)
   \<and> fst (snd (run_queue sl_enq sl_deq [Enq 7, Enq 8, Deq, Enq (9::nat), Deq] (heap_empty, sl_new))) = [7, 8]"
proof -
  have ok: "sl_ok (heap_empty :: nat node_heap, sl_new)"
    by (rule sl_okI [OF sl_rep_new, THEN conjunct1])
  obtain ins outs s1 where r: "run_queue sl_enq sl_deq [Enq 7, Enq 8, Deq, Enq (9::nat), Deq]
      (heap_empty, sl_new) = (ins, outs, s1)" by (metis prod_cases3)
  have "outs = [7, 8]"
    using r by (simp add: sl_enq_def sl_deq_def sl_push_back_def sl_pop_front_def sl_front_def
        heap_empty_def sl_new_def sl_empty_def Let_def)
  then show ?thesis using slist_fifo [OF ok r] ok r by simp
qed

text \<open>\<^verbatim>\<open>join\<close> of two disjoint lists, the second one not empty, appends the second to the
  first, leaves the second empty, and both stay well-formed.\<close>

theorem slist_join_appends:
  assumes "sl_rep cs (h, l)" "sl_rep ds (h, r)" "ds \<noteq> []" "fst ` set cs \<inter> fst ` set ds = {}"
  shows "\<exists>h' l' r'. sl_join h l r = Some (h', l', r')
     \<and> sl_ok (h', l') \<and> sl_items (h', l') = map snd cs @ map snd ds
     \<and> sl_ok (h', r') \<and> sl_items (h', r') = []"
  using sl_join_rep [OF assms] sl_okI by fastforce

theorem slist_join_appends_witness:
  "\<exists>h' l' r'. sl_join \<lparr>nodes = (\<lambda>_. None)(0 := Some (5::nat, None), 1 := Some (6, None)), next_addr = 2\<rparr>
       \<lparr>sl_count = 1, sl_head = Some 0, sl_tail = Some 0\<rparr>
       \<lparr>sl_count = 1, sl_head = Some 1, sl_tail = Some 1\<rparr> = Some (h', l', r')
     \<and> sl_ok (h', l') \<and> sl_items (h', l') = [5, 6] \<and> sl_ok (h', r') \<and> sl_items (h', r') = []"
  using slist_join_appends [of "[(0, 5)]" "\<lparr>nodes = (\<lambda>_. None)(0 := Some (5::nat, None), 1 := Some (6, None)), next_addr = 2\<rparr>"
      "\<lparr>sl_count = 1, sl_head = Some 0, sl_tail = Some 0\<rparr>" "[(1, 6)]"
      "\<lparr>sl_count = 1, sl_head = Some 1, sl_tail = Some 1\<rparr>"]
  by (simp add: sl_rep_def)

text \<open>\<^verbatim>\<open>clear\<close> does not reset the tail pointer: on a list that was not empty, the next
  \<^verbatim>\<open>push_back\<close> follows the pointer of a freed node.\<close>

theorem slist_clear_dangling:
  assumes rep: "sl_rep cs s" and ne: "cs \<noteq> []"
  shows "sl_clear s \<noteq> None \<and> Option.bind (sl_clear s) (sl_push_back x) = None"
proof -
  obtain h' where h: "sl_clear s = Some (h', (snd s)\<lparr>sl_head := None, sl_count := 0\<rparr>)"
      "\<forall>c \<in> set cs. nodes h' (fst c) = None" "next_addr h' = next_addr (fst s)"
    using sl_clear_rep [OF rep] by blast
  have "fst (last cs) < next_addr (fst s)"
    using sl_rep_bound [OF rep] ne by simp
  moreover have "sl_tail (snd s) = Some (fst (last cs))"
    using rep ne by (simp add: sl_rep_def)
  ultimately show ?thesis
    using h ne by (simp add: sl_push_back_def Let_def)
qed

theorem slist_clear_dangling_witness:
  "\<exists>s. sl_push_back (1::nat) (heap_empty, sl_new) = Some s
     \<and> sl_clear s \<noteq> None \<and> Option.bind (sl_clear s) (sl_push_back 2) = None"
  using sl_push_back_rep [OF sl_rep_new, of "1::nat"]
    slist_clear_dangling [of "[(next_addr (heap_empty :: nat node_heap), 1::nat)]" _ 2]
  by (auto simp del: One_nat_def)

text \<open>Joining an empty list onto a non-empty one clears the tail pointer, so that the
  value inserted next is counted but can never be reached from the head.\<close>

theorem slist_join_empty_loses:
  assumes l: "sl_rep cs (h, l)" and r: "sl_rep [] (h, r)" and ne: "cs \<noteq> []"
  shows "\<exists>h' l' r' h2 l2. sl_join h l r = Some (h', l', r')
     \<and> sl_push_back x (h', l') = Some (h2, l2)
     \<and> sl_size l2 = int (length cs) + 1 \<and> seg (nodes h2) (sl_head l2) cs None"
proof -
  obtain es e where snoc: "cs = es @ [e]" using ne by (cases cs rule: rev_cases) auto
  obtain p where p: "seg (nodes h) (sl_head l) es p" "p = Some (fst e)"
      "nodes h (fst e) = Some (snd e, None)"
    using l snoc by (auto simp: sl_rep_def seg_append split: option.splits)
  have same: "(nodes h)(fst e := Some (snd e, None)) = nodes h"
    using p by (simp add: fun_upd_idem)
  have fr: "next_addr h \<notin> fst ` set cs" using sl_rep_bound [OF l] by force
  have s: "seg ((nodes h)(next_addr h := Some (x, None))) (sl_head l) cs None"
    using l fr by (simp add: seg_frame sl_rep_def)
  have hd: "sl_head l \<noteq> None" using l ne by (cases cs) (auto simp: sl_rep_def)
  show ?thesis
    using l r p s snoc hd
    by (auto simp: sl_join_def sl_push_back_def sl_rep_def sl_size_def Let_def same)
qed

theorem slist_join_empty_loses_witness:
  "\<exists>h' l' r' h2 l2. sl_join \<lparr>nodes = (\<lambda>_. None)(0 := Some (5::nat, None)), next_addr = 1\<rparr>
       \<lparr>sl_count = 1, sl_head = Some 0, sl_tail = Some 0\<rparr> sl_new = Some (h', l', r')
     \<and> sl_push_back 6 (h', l') = Some (h2, l2)
     \<and> sl_size l2 = 2 \<and> seg (nodes h2) (sl_head l2) [(0, 5)] None"
  using slist_join_empty_loses [of "[(0, 5)]" "\<lparr>nodes = (\<lambda>_. None)(0 := Some (5::nat, None)), next_addr = 1\<rparr>"
      "\<lparr>sl_count = 1, sl_head = Some 0, sl_tail = Some 0\<rparr>" sl_new 6]
  by (simp add: sl_rep_def sl_new_def)

end
