(* ===== verification/Packet.thy ===== *)
theory Packet
  imports Interfaces
begin

text \<open>
  The packet layer of \<^verbatim>\<open>slience/netio/packet.hpp\<close> and the receive side of
  \<^verbatim>\<open>slience/netio/tcp_stream_socket.hpp\<close>.  A packet on the wire is an eight byte
  header (magic number, payload size, both in network order) and the payload.
  \<^verbatim>\<open>_CutMsgPack\<close> cuts a received chunk into packets; what does not make a whole
  packet is kept in \<^verbatim>\<open>_reader.msgbuffer\<close> for the next chunk.  The read buffer is
  the block of bytes the socket reads into, of which only the first
  \<^verbatim>\<open>tran_byte\<close> are new; every read outside the block, and every use of a pointer
  into a block that \<^verbatim>\<open>Write\<close> has replaced, is a memory fault.
\<close>

record packet_header =
  timestamp :: u32
  hsize :: u32

definition M_SOCKET_READ_SIZE :: nat where "M_SOCKET_READ_SIZE = 4 * 1024"
definition M_SOCKET_PACK_SIZE :: nat where "M_SOCKET_PACK_SIZE = 400 * 1024"
definition M_PACGET_CODE :: u32 where "M_PACGET_CODE = 0xFCFCFC"

definition hdrlen :: nat where "hdrlen = 8"

text \<open>\<^verbatim>\<open>ntohl\<close> and \<^verbatim>\<open>htonl\<close> on a little-endian host.\<close>

definition ntohl :: "u32 \<Rightarrow> u32" where
  "ntohl w = le_val (rev (le_bytes 4 w))"

definition htonl :: "u32 \<Rightarrow> u32" where
  "htonl w = le_val (rev (le_bytes 4 w))"

definition ph_n2h :: "packet_header \<Rightarrow> packet_header" where
  "ph_n2h h = h\<lparr>timestamp := ntohl (timestamp h), hsize := ntohl (hsize h)\<rparr>"

definition ph_h2n :: "packet_header \<Rightarrow> packet_header" where
  "ph_h2n h = h\<lparr>timestamp := htonl (timestamp h), hsize := htonl (hsize h)\<rparr>"

text \<open>The packed structure in memory.\<close>

definition ph_load :: "byte list \<Rightarrow> packet_header" where
  "ph_load bs = \<lparr>timestamp = le_val (take 4 bs), hsize = le_val (take 4 (drop 4 bs))\<rparr>"

definition ph_bytes :: "packet_header \<Rightarrow> byte list" where
  "ph_bytes h = le_bytes 4 (timestamp h) @ le_bytes 4 (hsize h)"

text \<open>Overwriting the header at index \<^term>\<open>i\<close> of a block.\<close>

definition ph_store :: "nat \<Rightarrow> packet_header \<Rightarrow> byte list \<Rightarrow> byte list" where
  "ph_store i h bs = take i bs @ ph_bytes h @ drop (i + hdrlen) bs"

text \<open>The bytes that \<^verbatim>\<open>SendPacket\<close> queues for a payload.\<close>

definition packet_hdr :: "u32 \<Rightarrow> packet_header" where
  "packet_hdr len = ph_h2n \<lparr>timestamp = M_PACGET_CODE, hsize = len\<rparr>"

definition packet_bytes :: "byte list \<Rightarrow> byte list" where
  "packet_bytes p = ph_bytes (packet_hdr (word_of_nat (length p))) @ p"

subsection \<open>\<^verbatim>\<open>_CutMsgPack\<close>\<close>

record cut_state =
  rbuf :: "byte list"
  rpos :: nat
  tran :: u32
  mbuf :: buffer

datatype cut_result =
    CutBreak cut_state
  | CutFail cut_state
  | CutData "byte list" cut_state

definition mem_read :: "nat \<Rightarrow> nat \<Rightarrow> byte list \<Rightarrow> byte list mem" where
  "mem_read i n m = (if i + n \<le> length m then Some (take n (drop i m)) else None)"

definition reallocates :: "nat \<Rightarrow> buffer \<Rightarrow> bool" where
  "reallocates n b \<longleftrightarrow> bpos b + word_of_nat n > bsize b"

definition buf_set_header :: "packet_header \<Rightarrow> buffer \<Rightarrow> buffer" where
  "buf_set_header h b = b\<lparr>bdata := ph_store (unat (boffset b)) h (bdata b)\<rparr>"

text \<open>The branch for an empty \<^verbatim>\<open>msgbuffer\<close> (lines 88 to 109).\<close>

definition cut_fresh :: "cut_state \<Rightarrow> cut_result mem" where
  "cut_fresh s =
     (if unat (tran s) < hdrlen then
        Option.bind (mem_read (rpos s) (unat (tran s)) (rbuf s)) (\<lambda>d.
          map_option (\<lambda>b. CutBreak (s\<lparr>mbuf := b\<rparr>)) (buf_Write d (mbuf s)))
      else Option.bind (mem_read (rpos s) hdrlen (rbuf s)) (\<lambda>hd.
        let h = ph_n2h (ph_load hd) in
        if tran s - of_nat hdrlen < hsize h then
          Option.bind (mem_read (rpos s) (unat (tran s)) (rbuf s)) (\<lambda>d.
            map_option (\<lambda>b. CutBreak (s\<lparr>mbuf := b\<rparr>)) (buf_Write d (mbuf s)))
        else
          let s1 = s\<lparr>rbuf := ph_store (rpos s) h (rbuf s)\<rparr> in
          if timestamp h \<noteq> M_PACGET_CODE then Some (CutFail s1)
          else Option.bind (mem_read (rpos s + hdrlen) (unat (hsize h)) (rbuf s1)) (\<lambda>d.
            Some (CutData d (s1\<lparr>tran := tran s - (of_nat hdrlen + hsize h),
                                rpos := rpos s + hdrlen + unat (hsize h)\<rparr>)))))"

text \<open>The branch that continues a packet begun in an earlier chunk (lines 110 to 139),
  with \<^verbatim>\<open>tran_byte += buf_len\<close> as the code has it.\<close>

definition cut_header_rest :: "cut_state \<Rightarrow> cut_state mem" where
  "cut_header_rest s =
     (let buf_len = buf_Length (mbuf s) in
      if unat buf_len < hdrlen then
        Option.bind (mem_read (rpos s) (hdrlen - unat buf_len) (rbuf s)) (\<lambda>d.
          map_option (\<lambda>b. s\<lparr>mbuf := b, rpos := rpos s + (hdrlen - unat buf_len),
                            tran := tran s - (of_nat hdrlen - buf_len)\<rparr>) (buf_Write d (mbuf s)))
      else Some s)"

definition cut_resume :: "cut_state \<Rightarrow> cut_result mem" where
  "cut_resume s =
     (if unat (buf_Length (mbuf s) + tran s) < hdrlen then
        Option.bind (mem_read (rpos s) (unat (tran s)) (rbuf s)) (\<lambda>d.
          map_option (\<lambda>b. CutBreak (s\<lparr>mbuf := b\<rparr>)) (buf_Write d (mbuf s)))
      else Option.bind (cut_header_rest s) (\<lambda>s1.
        let h = ph_n2h (ph_load (buf_Data (mbuf s1)));
            buf_len = buf_Length (mbuf s1) - of_nat hdrlen;
            s2 = s1\<lparr>tran := tran s1 + buf_len\<rparr>
        in if hsize h > tran s2 then
             Option.bind (mem_read (rpos s2) (unat (tran s2)) (rbuf s2)) (\<lambda>d.
               map_option (\<lambda>b. CutBreak (s2\<lparr>mbuf := b\<rparr>)) (buf_Write d (mbuf s2)))
           else let s3 = s2\<lparr>mbuf := buf_set_header h (mbuf s2)\<rparr>;
                    need = hsize h - buf_len
           in if timestamp h \<noteq> M_PACGET_CODE then Some (CutFail s3)
              else Option.bind (mem_read (rpos s3) (unat need) (rbuf s3)) (\<lambda>d.
                if reallocates (unat need) (mbuf s3) then None
                else Option.bind (buf_Write d (mbuf s3)) (\<lambda>b.
                  Some (CutData (take (unat (hsize h)) (buf_Data b))
                    (s3\<lparr>mbuf := b, tran := tran s3 - need, rpos := rpos s3 + unat need\<rparr>))))))"

definition cut_step :: "cut_state \<Rightarrow> cut_result mem" where
  "cut_step s = (if buf_Length (mbuf s) = 0 then cut_fresh s else cut_resume s)"

lemma cut_fresh_less:
  assumes "cut_fresh s = Some (CutData d t)"
  shows "unat (tran t) < unat (tran s)"
proof -
  have "\<exists>h :: packet_header. \<not> unat (tran s) < hdrlen \<and> \<not> tran s - of_nat hdrlen < hsize h
      \<and> tran t = tran s - (of_nat hdrlen + hsize h)"
    using assms unfolding cut_fresh_def
    by (auto simp: Let_def bind_eq_Some_conv split: if_splits)
  then obtain h :: packet_header where h: "8 \<le> unat (tran s)" "hsize h \<le> tran s - 8" "tran t = tran s - (8 + hsize h)"
    by (auto simp: hdrlen_def not_less)
  have "(8::u32) \<le> tran s" using h(1) by (simp add: word_le_nat_alt)
  then have d: "unat (tran s - 8) = unat (tran s) - 8" by (simp add: unat_sub)
  have "unat (tran t) = unat (tran s - 8 - hsize h)" using h(3) by (simp add: diff_diff_eq)
  also have "\<dots> = unat (tran s) - 8 - unat (hsize h)" using h(2) d by (simp add: unat_sub)
  finally show ?thesis using h(1) by simp
qed

lemma buf_Length_Clear [simp]: "buf_Length (buf_Clear b) = 0"
  by (simp add: buf_Length_def buf_Clear_def Let_def)

function cut_loop :: "cut_state \<Rightarrow> (bool \<times> byte list list \<times> cut_state) mem" where
  "cut_loop s =
     (case cut_step s of
        None \<Rightarrow> None
      | Some (CutBreak t) \<Rightarrow> Some (True, [], t)
      | Some (CutFail t) \<Rightarrow> Some (False, [], t)
      | Some (CutData d t) \<Rightarrow>
          if length d > M_SOCKET_PACK_SIZE then Some (False, [], t)
          else map_option (\<lambda>r. (fst r, d # fst (snd r), snd (snd r)))
                 (cut_loop (t\<lparr>mbuf := buf_Clear (mbuf t)\<rparr>)))"
  by pat_completeness auto
termination
proof (relation "measures [\<lambda>s. if buf_Length (mbuf s) = 0 then 0 else 1, \<lambda>s. unat (tran s)]")
  fix s r d t
  assume "cut_step s = Some r" "r = CutData d t"
  then show "(t\<lparr>mbuf := buf_Clear (mbuf t)\<rparr>, s)
      \<in> measures [\<lambda>s. if buf_Length (mbuf s) = 0 then 0 else 1, \<lambda>s. unat (tran s)]"
    using cut_fresh_less [of s d t] by (auto simp: cut_step_def)
qed simp

declare cut_loop.simps [simp del]

definition CutMsgPack :: "byte list \<Rightarrow> u32 \<Rightarrow> buffer \<Rightarrow> (bool \<times> byte list list \<times> buffer) mem" where
  "CutMsgPack readbuf tran_byte b =
     map_option (\<lambda>r. (fst r, fst (snd r), mbuf (snd (snd r))))
       (cut_loop \<lparr>rbuf = readbuf, rpos = 0, tran = tran_byte, mbuf = b\<rparr>)"

subsection \<open>The packet codec\<close>

lemma ntohl_htonl [simp]: "ntohl (htonl w) = w"
proof -
  have "le_bytes 4 (le_val (rev (le_bytes 4 w)) :: u32) = rev (le_bytes 4 w)"
    using le_bytes_le_val [where 'a = 32, of "rev (le_bytes 4 w)"] by simp
  then show ?thesis by (simp add: ntohl_def htonl_def)
qed

lemma length_ph_bytes [simp]: "length (ph_bytes h) = hdrlen"
  by (simp add: ph_bytes_def hdrlen_def)

lemma ph_load_bytes [simp]: "ph_load (ph_bytes h @ r) = h"
  by (simp add: ph_load_def ph_bytes_def)

lemma ph_load_bytes0 [simp]: "ph_load (ph_bytes h) = h"
  using ph_load_bytes [of h "[]"] by simp

lemma packet_hdr_n2h [simp]:
  "ph_n2h (packet_hdr n) = \<lparr>timestamp = M_PACGET_CODE, hsize = n\<rparr>"
  by (simp add: packet_hdr_def ph_n2h_def ph_h2n_def)

lemma length_packet_bytes: "length (packet_bytes p) = hdrlen + length p"
  by (simp add: packet_bytes_def)

text \<open>What a receiver reads from a stream that starts with a whole packet.\<close>

definition packet_dec :: "byte list \<Rightarrow> (byte list \<times> byte list) option" where
  "packet_dec bs =
     (let h = ph_n2h (ph_load (take hdrlen bs)) in
      if length bs < hdrlen \<or> timestamp h \<noteq> M_PACGET_CODE
         \<or> length bs < hdrlen + unat (hsize h) then None
      else Some (take (unat (hsize h)) (drop hdrlen bs), drop (hdrlen + unat (hsize h)) bs))"

definition packet_fits :: "byte list \<Rightarrow> bool" where
  "packet_fits p \<longleftrightarrow> length p \<le> M_SOCKET_PACK_SIZE"

lemma unat_packet_size: "packet_fits p \<Longrightarrow> unat (word_of_nat (length p) :: u32) = length p"
  by (simp add: packet_fits_def M_SOCKET_PACK_SIZE_def unat_of_nat_small)

interpretation pkt: codec packet_fits packet_bytes packet_dec
proof unfold_locales
  fix m rest assume "packet_fits m"
  then show "packet_dec (packet_bytes m @ rest) = Some (m, rest)"
    by (simp add: packet_dec_def packet_bytes_def unat_packet_size)
qed

subsection \<open>Cutting whole packets\<close>

lemma length_ph_store: "i + hdrlen \<le> length bs \<Longrightarrow> length (ph_store i h bs) = length bs"
  by (simp add: ph_store_def)

lemma drop_ph_store: "i + hdrlen \<le> length bs \<Longrightarrow> i + hdrlen \<le> n \<Longrightarrow>
    drop n (ph_store i h bs) = drop n bs"
  by (simp add: ph_store_def)

lemma mem_read_prefix:
  "\<lbrakk>drop i m = d @ r; i \<le> length m; length d = n\<rbrakk> \<Longrightarrow> mem_read i n m = Some d"
proof -
  assume a: "drop i m = d @ r" "i \<le> length m" "length d = n"
  have "length m - i = length d + length r" using a(1) by (metis length_append length_drop)
  then show ?thesis using a by (simp add: mem_read_def)
qed

definition fresh_chunk :: "cut_state \<Rightarrow> byte list \<Rightarrow> bool" where
  "fresh_chunk s d \<longleftrightarrow> buf_ok (mbuf s) \<and> buf_Length (mbuf s) = 0 \<and> buf_Size (mbuf s) = 0
     \<and> rpos s \<le> length (rbuf s) \<and> length d = unat (tran s) \<and> (\<exists>r. drop (rpos s) (rbuf s) = d @ r)"

text \<open>A chunk end that is not a whole packet yet.\<close>

definition partial_packet :: "byte list \<Rightarrow> bool" where
  "partial_packet d \<longleftrightarrow> length d < hdrlen \<or>
     length d - hdrlen < unat (hsize (ph_n2h (ph_load (take hdrlen d))))"

lemma partial_packet_take:
  assumes "packet_fits p" "k < length (packet_bytes p)"
  shows "partial_packet (take k (packet_bytes p))"
  using assms
  by (cases "k < hdrlen") (auto simp: partial_packet_def packet_bytes_def unat_packet_size min_def)

lemma unat_hdrlen: "unat (of_nat hdrlen :: u32) = 8"
  by (simp add: hdrlen_def)

lemma cut_fresh_partial:
  assumes c: "fresh_chunk s d" and p: "partial_packet d" and lim: "length d < buf_limit"
  shows "\<exists>b. cut_step s = Some (CutBreak (s\<lparr>mbuf := b\<rparr>)) \<and> buf_ok b \<and> buf_Data b = d
    \<and> unat (buf_Size b) = length d"
proof -
  obtain r where r: "drop (rpos s) (rbuf s) = d @ r" "rpos s \<le> length (rbuf s)"
      "length d = unat (tran s)" "buf_ok (mbuf s)" "buf_Length (mbuf s) = 0" "buf_Size (mbuf s) = 0"
    using c by (auto simp: fresh_chunk_def)
  have dt: "buf_Data (mbuf s) = []"
    using length_buf_Data [OF r(4)] r(5) by simp
  obtain b where b: "buf_Write d (mbuf s) = Some b" "buf_ok b" "buf_Data b = d"
      "unat (buf_Size b) = length d"
    using buf.put_law [of "mbuf s" d] r dt lim by auto
  have m: "mem_read (rpos s) (unat (tran s)) (rbuf s) = Some d"
    using r by (intro mem_read_prefix) auto
  show ?thesis
  proof (cases "unat (tran s) < hdrlen")
    case True
    then show ?thesis using r b m by (intro exI [of _ b]) (simp add: cut_step_def cut_fresh_def)
  next
    case False
    let ?h = "ph_n2h (ph_load (take hdrlen d))"
    have mh: "mem_read (rpos s) hdrlen (rbuf s) = Some (take hdrlen d)"
      using r False by (intro mem_read_prefix [where r = "drop hdrlen d @ r"]) (auto simp: append_assoc [symmetric] simp del: append_assoc)
    have "unat (tran s - of_nat hdrlen) = length d - hdrlen"
      using False r by (subst unat_sub) (auto simp: word_le_nat_alt hdrlen_def)
    then have "tran s - of_nat hdrlen < hsize ?h"
      using p False r by (simp add: partial_packet_def word_less_nat_alt)
    then show ?thesis using r b m mh False
      by (intro exI [of _ b]) (simp add: cut_step_def cut_fresh_def Let_def)
  qed
qed

lemma cut_fresh_whole:
  assumes c: "fresh_chunk s (packet_bytes p @ d)" and p: "packet_fits p"
  shows "\<exists>t. cut_step s = Some (CutData p t) \<and> fresh_chunk (t\<lparr>mbuf := buf_Clear (mbuf t)\<rparr>) d"
proof -
  let ?len = "word_of_nat (length p) :: u32" and ?hd = "ph_bytes (packet_hdr (word_of_nat (length p)))"
  let ?h = "\<lparr>timestamp = M_PACGET_CODE, hsize = word_of_nat (length p)\<rparr> :: packet_header"
  obtain r where r: "drop (rpos s) (rbuf s) = ?hd @ p @ d @ r" "rpos s \<le> length (rbuf s)"
      "unat (tran s) = hdrlen + length p + length d" "buf_ok (mbuf s)" "buf_Length (mbuf s) = 0"
      "buf_Size (mbuf s) = 0"
    using c by (auto simp: fresh_chunk_def packet_bytes_def)
  have ln: "length (rbuf s) = rpos s + hdrlen + length p + length d + length r"
    using arg_cong [OF r(1), of length] r(2) by simp
  have ul: "unat ?len = length p" using p by (rule unat_packet_size)
  let ?rb = "ph_store (rpos s) ?h (rbuf s)"
  have dr: "drop (rpos s + hdrlen) ?rb = p @ d @ r"
    using ln r(1) by (simp add: drop_ph_store) (metis add.commute append_eq_conv_conj drop_drop length_ph_bytes)
  have lr: "length ?rb = length (rbuf s)" using ln by (simp add: length_ph_store)
  have mh: "mem_read (rpos s) hdrlen (rbuf s) = Some ?hd"
    using r by (intro mem_read_prefix) auto
  have mp: "mem_read (rpos s + hdrlen) (length p) ?rb = Some p"
    using dr lr ln by (intro mem_read_prefix) auto
  have t8: "unat (tran s - of_nat hdrlen) = length p + length d"
    using r(3) by (subst unat_sub) (auto simp: word_le_nat_alt hdrlen_def)
  have t: "unat (tran s - (of_nat hdrlen + ?len)) = length d"
  proof -
    have "?len \<le> tran s - of_nat hdrlen" using t8 ul by (simp add: word_le_nat_alt)
    then have "unat (tran s - of_nat hdrlen - ?len) = length d" using t8 ul by (simp add: unat_sub)
    then show ?thesis by (simp add: diff_diff_eq)
  qed
  let ?t = "s\<lparr>rbuf := ?rb, tran := tran s - (of_nat hdrlen + ?len), rpos := rpos s + hdrlen + length p\<rparr>"
  have "\<not> tran s - of_nat hdrlen < ?len" using t8 ul by (simp add: word_less_nat_alt)
  then have "cut_fresh s = Some (CutData p ?t)"
    using r(3) mp ul unfolding cut_fresh_def mh by (simp add: Let_def)
  then have st: "cut_step s = Some (CutData p ?t)"
    using r(5) by (simp add: cut_step_def)
  have "drop (rpos s + hdrlen + length p) ?rb = d @ r"
    using arg_cong [OF dr, of "drop (length p)"] by (simp add: add.commute)
  then have "fresh_chunk (?t\<lparr>mbuf := buf_Clear (mbuf ?t)\<rparr>) d"
    using t lr ln r(4) by (auto simp: fresh_chunk_def buf_ok_Clear)
  then show ?thesis using st by blast
qed

lemma cut_loop_whole:
  assumes "fresh_chunk s (concat (map packet_bytes ps) @ d)" "list_all packet_fits ps"
    and "partial_packet d" "length d < buf_limit"
  shows "\<exists>t. cut_loop s = Some (True, ps, t) \<and> buf_ok (mbuf t) \<and> buf_Data (mbuf t) = d
    \<and> unat (buf_Size (mbuf t)) = length d"
  using assms
proof (induction ps arbitrary: s)
  case Nil
  then show ?case using cut_fresh_partial [of s d] by (auto simp: cut_loop.simps)
next
  case (Cons p ps)
  obtain t where t: "cut_step s = Some (CutData p t)"
      "fresh_chunk (t\<lparr>mbuf := buf_Clear (mbuf t)\<rparr>) (concat (map packet_bytes ps) @ d)"
    using cut_fresh_whole [of s p] Cons.prems by auto
  from Cons.IH [OF t(2)] obtain u where
    "cut_loop (t\<lparr>mbuf := buf_Clear (mbuf t)\<rparr>) = Some (True, ps, u)" "buf_ok (mbuf u)"
    "buf_Data (mbuf u) = d" "unat (buf_Size (mbuf u)) = length d"
    using Cons.prems by auto
  then show ?case
    using t(1) Cons.prems(2) by (subst cut_loop.simps) (auto simp: packet_fits_def)
qed

subsection \<open>A packet split over two chunks\<close>

lemma buf_Data_set_header:
  assumes "buf_ok b" "hdrlen \<le> length (buf_Data b)"
  shows "buf_Data (buf_set_header h b) = ph_bytes h @ drop hdrlen (buf_Data b)"
    and "buf_ok (buf_set_header h b)"
  using assms by (auto simp: buf_Data_def buf_set_header_def ph_store_def buf_ok_def
      word_le_nat_alt add.commute)

lemma buf_set_header_sel [simp]:
  "buf_Size (buf_set_header h b) = buf_Size b" "buf_Length (buf_set_header h b) = buf_Length b"
  "reallocates n (buf_set_header h b) = reallocates n b"
  by (simp_all add: buf_set_header_def buf_Size_def buf_Length_def reallocates_def)

lemma not_reallocates:
  assumes "buf_ok b" "unat (buf_Size b) + n \<le> 512"
  shows "\<not> reallocates n b"
proof -
  have "unat (word_of_nat n :: u32) = n" using assms by (simp add: unat_of_nat_small)
  then have "unat (bpos b + word_of_nat n) = unat (bpos b) + n"
    using assms by (simp add: unat_plus_small buf_Size_def)
  then show ?thesis
    using assms by (auto simp: reallocates_def buf_ok_def buf_default_size_def buf_Size_def
        word_le_nat_alt word_less_nat_alt)
qed

text \<open>The chunk supplies exactly the missing bytes \<^term>\<open>c\<close> of a header that is not complete.\<close>

lemma cut_header_rest_ok:
  assumes ok: "buf_ok (mbuf s)" and sz: "unat (buf_Size (mbuf s)) + length (c @ q) \<le> 512"
    and hh: "buf_Data (mbuf s) @ c = hh" "c \<noteq> [] \<Longrightarrow> length hh = hdrlen"
        "c = [] \<Longrightarrow> hdrlen \<le> length hh"
    and ch: "drop (rpos s) (rbuf s) = c @ q @ r" "rpos s \<le> length (rbuf s)"
    and tr: "unat (tran s) = length c + length q"
  shows "\<exists>t. cut_header_rest s = Some t \<and> buf_ok (mbuf t) \<and> buf_Data (mbuf t) = hh
    \<and> unat (buf_Size (mbuf t)) = unat (buf_Size (mbuf s)) + length c
    \<and> drop (rpos t) (rbuf t) = q @ r \<and> rpos t \<le> length (rbuf t) \<and> unat (tran t) = length q"
proof (cases "c = []")
  case True
  then show ?thesis
    using assms length_buf_Data [OF ok] by (auto simp: cut_header_rest_def Let_def)
next
  case False
  let ?l = "buf_Length (mbuf s)"
  have l: "unat ?l + length c = hdrlen"
    using hh False length_buf_Data [OF ok] by (metis length_append)
  have lt: "unat ?l < hdrlen" using l False by (metis length_greater_0_conv less_add_same_cancel1)
  obtain b where b: "buf_Write c (mbuf s) = Some b" "buf_ok b" "buf_Data b = hh"
      "unat (buf_Size b) = unat (buf_Size (mbuf s)) + length c"
    using buf.put_law [OF ok, of c] sz hh by (auto simp: buf_limit_def)
  have m: "mem_read (rpos s) (hdrlen - unat ?l) (rbuf s) = Some c"
    using ch l by (intro mem_read_prefix [where r = "q @ r"]) auto
  have d: "unat (of_nat hdrlen - ?l) = length c"
    using l lt by (subst unat_sub) (auto simp: word_le_nat_alt unat_hdrlen hdrlen_def)
  have t: "unat (tran s - (of_nat hdrlen - ?l)) = length q"
    using d tr by (subst unat_sub) (auto simp: word_le_nat_alt)
  have len: "length (rbuf s) = rpos s + length c + length q + length r"
    using arg_cong [OF ch(1), of length] ch(2) by simp
  have "drop (rpos s + (hdrlen - unat ?l)) (rbuf s) = q @ r"
    using ch(1) l by (metis add.commute add_diff_cancel_left' append_eq_conv_conj drop_drop)
  then show ?thesis
    using lt b m t l len by (auto simp: cut_header_rest_def Let_def)
qed

lemma cut_step_split:
  assumes k: "0 < k" "k < length (packet_bytes p)" and small: "hdrlen + length p \<le> 512"
    and ok: "buf_ok (mbuf s)" "buf_Data (mbuf s) = take k (packet_bytes p)"
        "unat (buf_Size (mbuf s)) = k"
    and ch: "drop (rpos s) (rbuf s) = drop k (packet_bytes p) @ r" "rpos s \<le> length (rbuf s)"
    and tr: "unat (tran s) = length (packet_bytes p) - k"
  shows "\<exists>t. cut_step s = Some (CutData
      (take (length p) (ph_bytes \<lparr>timestamp = M_PACGET_CODE, hsize = word_of_nat (length p)\<rparr> @ p)) t)
    \<and> unat (tran t) = k - hdrlen"
proof -
  let ?hd = "ph_bytes (packet_hdr (word_of_nat (length p)))"
  let ?h = "\<lparr>timestamp = M_PACGET_CODE, hsize = word_of_nat (length p)\<rparr> :: packet_header"
  let ?c = "drop k ?hd" and ?q = "drop (k - hdrlen) p" and ?d = "take (k - hdrlen) p"
  have fits: "packet_fits p" using small by (simp add: packet_fits_def M_SOCKET_PACK_SIZE_def)
  have ul: "unat (word_of_nat (length p) :: u32) = length p" by (rule unat_packet_size [OF fits])
  have kl: "k < hdrlen + length p" using k by (simp add: length_packet_bytes)
  have lm: "unat (buf_Length (mbuf s)) = k"
    using length_buf_Data [OF ok(1)] ok(2) kl by (simp add: length_packet_bytes)
  have hdd: "buf_Data (mbuf s) @ ?c = ?hd @ ?d"
    using ok(2) by (cases "k \<le> hdrlen") (auto simp: packet_bytes_def)
  have chk: "drop (rpos s) (rbuf s) = ?c @ ?q @ r" using ch(1) by (simp add: packet_bytes_def)
  have trk: "unat (tran s) = length ?c + length ?q"
    using tr kl by (auto simp: length_packet_bytes)
  have szk: "unat (buf_Size (mbuf s)) + length (?c @ ?q) \<le> 512"
    using ok(3) small kl by auto
  have e1: "?c \<noteq> [] \<Longrightarrow> length (?hd @ ?d) = hdrlen" by auto
  have e2: "?c = [] \<Longrightarrow> hdrlen \<le> length (?hd @ ?d)" by simp
  obtain t where t: "cut_header_rest s = Some t" "buf_ok (mbuf t)" "buf_Data (mbuf t) = ?hd @ ?d"
      "unat (buf_Size (mbuf t)) = k + length ?c"
      "drop (rpos t) (rbuf t) = ?q @ r" "rpos t \<le> length (rbuf t)" "unat (tran t) = length ?q"
    using cut_header_rest_ok [OF ok(1) szk hdd e1 e2 chk ch(2) trk] ok(3) by metis
  have lt: "unat (buf_Length (mbuf t)) = hdrlen + length ?d"
    using length_buf_Data [OF t(2)] t(3) by simp
  let ?bl = "buf_Length (mbuf t) - of_nat hdrlen"
  have bl: "unat ?bl = length ?d"
    using lt by (subst unat_sub) (auto simp: word_le_nat_alt unat_hdrlen hdrlen_def)
  have tot: "unat (tran t + ?bl) = length p"
    using t(7) bl small by (subst unat_plus_small) (auto simp: hdrlen_def)
  have need: "unat (word_of_nat (length p) - ?bl) = length ?q"
    using bl ul by (subst unat_sub) (auto simp: word_le_nat_alt)
  have nle: "\<not> word_of_nat (length p) > tran t + ?bl" using tot ul by (simp add: word_less_nat_alt)
  let ?b = "buf_set_header ?h (mbuf t)"
  have b: "buf_ok ?b" "buf_Data ?b = ph_bytes ?h @ ?d"
    using buf_Data_set_header [OF t(2), of ?h] t(3) by auto
  have szt: "unat (buf_Size ?b) + length ?q \<le> 512"
    using t(4) small kl by (auto simp: hdrlen_def)
  obtain b2 where b2: "buf_Write ?q ?b = Some b2" "buf_Data b2 = ph_bytes ?h @ p"
    using buf.put_law [OF b(1), of ?q] szt b(2) by (auto simp: buf_limit_def)
  have m: "mem_read (rpos t) (length ?q) (rbuf t) = Some ?q"
    using t(5,6) by (intro mem_read_prefix) auto
  have nr: "\<not> reallocates (length ?q) (mbuf t)"
    using not_reallocates [OF b(1) szt] by simp
  have big: "\<not> unat (buf_Length (mbuf s) + tran s) < hdrlen"
    using lm tr kl small by (subst unat_plus_small) (auto simp: length_packet_bytes hdrlen_def)
  have ne: "buf_Length (mbuf s) \<noteq> 0" using lm k(1) by auto
  have fin: "unat (tran t + ?bl - (word_of_nat (length p) - ?bl)) = k - hdrlen"
    using tot need kl by (subst unat_sub) (auto simp: word_le_nat_alt)
  have hl: "ph_n2h (ph_load (?hd @ ?d)) = ?h" by simp
  show ?thesis
    using t(1) t(3) nle m nr b2 need fin big ne ul hl
    by (simp add: cut_step_def cut_resume_def Let_def)
qed

subsection \<open>Properties\<close>

lemma buf_empty_Length: "buf_ok b \<Longrightarrow> buf_Size b = 0 \<Longrightarrow> buf_Length b = 0"
  by (auto simp: buf_ok_def buf_Size_def buf_Length_def)

text \<open>C19: framing of whole packets.  A chunk that starts on a packet boundary is cut into
  exactly the packets that \<^verbatim>\<open>SendPacket\<close> put into it, in order and with their payloads
  unchanged; an incomplete packet at the end is kept, byte for byte, for the next
  chunk; the loop terminates without a memory fault.\<close>

theorem CutMsgPack_whole_packets:
  assumes "buf_ok b" "buf_Size b = 0" "list_all packet_fits ps" "partial_packet d"
    and "length (concat (map packet_bytes ps) @ d) \<le> M_SOCKET_READ_SIZE"
  shows "\<exists>c. CutMsgPack (concat (map packet_bytes ps) @ d @ stale)
        (word_of_nat (length (concat (map packet_bytes ps) @ d))) b = Some (True, ps, c)
      \<and> buf_ok c \<and> buf_Data c = d"
proof -
  let ?n = "length (concat (map packet_bytes ps) @ d)"
  let ?s = "\<lparr>rbuf = concat (map packet_bytes ps) @ d @ stale, rpos = 0, tran = word_of_nat ?n, mbuf = b\<rparr>"
  have "unat (word_of_nat ?n :: u32) = ?n"
    using assms(5) by (intro unat_of_nat_small) (simp add: M_SOCKET_READ_SIZE_def)
  then have "fresh_chunk ?s (concat (map packet_bytes ps) @ d)"
    using assms by (simp add: fresh_chunk_def buf_empty_Length)
  from cut_loop_whole [OF this assms(3,4)] show ?thesis
    using assms(5) by (auto simp: CutMsgPack_def M_SOCKET_READ_SIZE_def buf_limit_def)
qed

theorem CutMsgPack_whole_packets_witness:
  "\<exists>c. CutMsgPack (concat (map packet_bytes [[1, 2], [], [3]]) @ [0, 252] @ [9, 9, 9])
        (word_of_nat (length (concat (map packet_bytes [[1, 2], [], [3]]) @ [0, 252]))) buf_new
      = Some (True, [[1, 2], [], [3]], c) \<and> buf_ok c \<and> buf_Data c = [0, 252]"
  by (rule CutMsgPack_whole_packets)
     (simp_all add: packet_fits_def M_SOCKET_PACK_SIZE_def partial_packet_def hdrlen_def
        length_packet_bytes M_SOCKET_READ_SIZE_def)

text \<open>A packet that arrives in two chunks is delivered wrong.  When its bytes are split
  anywhere and the rest arrives as one chunk, \<^verbatim>\<open>_CutMsgPack\<close> hands over the header itself
  followed by the beginning of the payload instead of the payload, and, when the
  split is inside the payload, goes on cutting \<^term>\<open>k - hdrlen\<close> bytes that were never
  received.\<close>

theorem CutMsgPack_split_packet:
  assumes "0 < k" "k < length (packet_bytes p)" "hdrlen + length p \<le> 512"
    and "buf_ok b" "buf_Data b = take k (packet_bytes p)" "unat (buf_Size b) = k"
  shows "\<exists>t. cut_step \<lparr>rbuf = drop k (packet_bytes p) @ stale, rpos = 0,
          tran = word_of_nat (length (drop k (packet_bytes p))), mbuf = b\<rparr>
      = Some (CutData (take (length p)
          (ph_bytes \<lparr>timestamp = M_PACGET_CODE, hsize = word_of_nat (length p)\<rparr> @ p)) t)
    \<and> unat (tran t) = k - hdrlen"
proof -
  have "unat (word_of_nat (length (drop k (packet_bytes p))) :: u32) = length (packet_bytes p) - k"
    using assms(3) by (subst unat_of_nat_small) (auto simp: length_packet_bytes)
  then show ?thesis
    using assms by (intro cut_step_split [where r = stale]) simp_all
qed

theorem CutMsgPack_split_packet_witness:
  "\<exists>b t. buf_Write (take 10 (packet_bytes [1, 2, 3, 4])) buf_new = Some b
    \<and> cut_step \<lparr>rbuf = drop 10 (packet_bytes [1, 2, 3, 4]) @ [9], rpos = 0,
          tran = word_of_nat (length (drop 10 (packet_bytes [1, 2, 3, 4]))), mbuf = b\<rparr>
      = Some (CutData [252, 252, 252, 0] t) \<and> unat (tran t) = 2"
proof -
  obtain b where b: "buf_Write (take 10 (packet_bytes [1, 2, 3, 4])) buf_new = Some b" "buf_ok b"
      "buf_Data b = take 10 (packet_bytes [1, 2, 3, 4])" "unat (buf_Size b) = 10"
    using buf.put_law [of buf_new "take 10 (packet_bytes [1, 2, 3, 4])"]
    by (auto simp: length_packet_bytes hdrlen_def buf_limit_def)
  have "take (length [1, 2, 3, 4 :: byte])
      (ph_bytes \<lparr>timestamp = M_PACGET_CODE, hsize = word_of_nat (length [1, 2, 3, 4 :: byte])\<rparr> @ [1, 2, 3, 4])
      = [252, 252, 252, 0]"
    by code_simp
  moreover have "(0::nat) < 10" "10 < length (packet_bytes [1, 2, 3, 4])"
    "hdrlen + length [1, 2, 3, 4 :: byte] \<le> 512" and two: "10 - hdrlen = 2"
    by (simp_all add: length_packet_bytes hdrlen_def)
  ultimately show ?thesis
    using CutMsgPack_split_packet [of 10 "[1, 2, 3, 4]" b "[9]"] b unfolding two by fastforce
qed

end
