(* ===== verification/Tcp_Socket.thy ===== *)
theory Tcp_Socket
  imports Packet
begin

text \<open>
  The buffered TCP socket of \<^verbatim>\<open>slience/netio/tcp_base_socket.hpp\<close>, the packet socket
  of \<^verbatim>\<open>tcp_stream_socket.hpp\<close> and the two concrete sockets \<^verbatim>\<open>tcp_socket.cpp\<close> (accepted)
  and \<^verbatim>\<open>tcp_connector.cpp\<close> (connecting).  The operating system is the caller of the
  handlers: it reports what it wrote, what it received and whether an
  asynchronous call failed; the calls the socket makes to it and to the
  application are the list of outputs of a step, in order.
\<close>

datatype sock_flag = E_STATE_START | E_STATE_STOP | E_STATE_CLOSE

datatype sock_out =
    AsyncSendSome "byte list"
  | AsyncRecvSome
  | ShutdownRd
  | ShutdownWr
  | SocketClose
  | OnConnected bool
  | OnReceiveData "byte list"
  | OnDisconnected

record tcp_sock =
  t_flag :: sock_flag
  t_writing :: bool
  t_msgbuffer1 :: buffer
  t_msgbuffer2 :: buffer
  t_reader :: buffer
  t_fd :: int
  t_listen_type :: int
  t_listen_num :: int

definition E_MAX_BUFFER_SIZE :: u32 where "E_MAX_BUFFER_SIZE = 1024 * 1024 * 1"

definition ts_new :: tcp_sock where
  "ts_new = \<lparr>t_flag = E_STATE_STOP, t_writing = False, t_msgbuffer1 = buf_new, t_msgbuffer2 = buf_new,
     t_reader = buf_new, t_fd = -1, t_listen_type = -1, t_listen_num = -1\<rparr>"

definition ts_GetFd :: "tcp_sock \<Rightarrow> int" where
  "ts_GetFd s = t_fd s"

definition ts_IsConnected :: "tcp_sock \<Rightarrow> bool" where
  "ts_IsConnected s \<longleftrightarrow> t_flag s = E_STATE_START"

definition ts_SetListenConn :: "int \<Rightarrow> int \<Rightarrow> tcp_sock \<Rightarrow> tcp_sock" where
  "ts_SetListenConn ty num s = s\<lparr>t_listen_type := ty, t_listen_num := num\<rparr>"

definition ts_GetListenConnType :: "tcp_sock \<Rightarrow> int" where
  "ts_GetListenConnType s = t_listen_type s"

definition ts_GetListenConnNum :: "tcp_sock \<Rightarrow> int" where
  "ts_GetListenConnNum s = t_listen_num s"

text \<open>\<^verbatim>\<open>_Close\<close>: postponed while a write is in flight.\<close>

definition ts_DoClose :: "tcp_sock \<Rightarrow> sock_out list \<times> tcp_sock" where
  "ts_DoClose s =
     (if t_flag s \<noteq> E_STATE_CLOSE then
        (if \<not> t_writing s then ([SocketClose], s\<lparr>t_flag := E_STATE_CLOSE\<rparr>)
         else ([], s\<lparr>t_flag := E_STATE_STOP\<rparr>))
      else ([], s))"

definition ts_PostClose :: "tcp_sock \<Rightarrow> sock_out list \<times> tcp_sock" where
  "ts_PostClose s = ts_DoClose s"

definition ts_Close :: "tcp_sock \<Rightarrow> sock_out list \<times> tcp_sock" where
  "ts_Close s = ts_PostClose s"

definition ts_CloseHandler :: "sock_out list" where
  "ts_CloseHandler = [OnDisconnected]"

text \<open>The argument is the \<^verbatim>\<open>int\<close> the caller's length was converted to.\<close>

definition ts_CheckCanSend :: "u32 \<Rightarrow> tcp_sock \<Rightarrow> bool" where
  "ts_CheckCanSend len s =
     (if sint len \<le> 0 then False
      else if sint len > int M_SOCKET_PACK_SIZE then False
      else if t_flag s \<noteq> E_STATE_START then False
      else if buf_Size (t_msgbuffer2 s) + len > E_MAX_BUFFER_SIZE then False
      else True)"

text \<open>Lines 305 to 308: the drained send buffer changes places with the filled one.\<close>

definition ts_SwapBuffers :: "tcp_sock \<Rightarrow> tcp_sock" where
  "ts_SwapBuffers s =
     (if buf_Length (t_msgbuffer1 s) = 0
      then let p = buf_Swap (t_msgbuffer1 s, t_msgbuffer2 s)
           in s\<lparr>t_msgbuffer1 := fst p, t_msgbuffer2 := buf_Clear (snd p)\<rparr>
      else s)"

text \<open>\<^term>\<open>err\<close>: the asynchronous send, if it is issued, fails at once.\<close>

definition ts_TrySendData :: "bool \<Rightarrow> tcp_sock \<Rightarrow> bool \<times> sock_out list \<times> tcp_sock" where
  "ts_TrySendData err s =
     (if t_writing s then (True, [], s)
      else
        let s1 = ts_SwapBuffers s
        in if buf_Length (t_msgbuffer1 s1) > 0 then
             (let o1 = AsyncSendSome (buf_Data (t_msgbuffer1 s1)) in
              if err then (case ts_DoClose s1 of (o2, s2) \<Rightarrow> (False, o1 # o2, s2))
              else (True, [o1], s1\<lparr>t_writing := True\<rparr>))
           else (False, [], s1))"

definition ts_Send :: "byte list \<Rightarrow> bool \<Rightarrow> tcp_sock \<Rightarrow> (bool \<times> sock_out list \<times> tcp_sock) mem" where
  "ts_Send data err s =
     (if \<not> ts_CheckCanSend (word_of_nat (length data)) s then Some (False, [], s)
      else Option.bind (buf_Write data (t_msgbuffer2 s)) (\<lambda>b.
        case ts_TrySendData err (s\<lparr>t_msgbuffer2 := b\<rparr>) of (_, os, s1) \<Rightarrow> Some (True, os, s1)))"

definition ts_SendBuffer :: "buffer \<Rightarrow> bool \<Rightarrow> tcp_sock \<Rightarrow> (bool \<times> sock_out list \<times> tcp_sock) mem" where
  "ts_SendBuffer b err s = ts_Send (take (unat (buf_Size b)) (buf_Raw b)) err s"

definition ts_SendPacket :: "byte list \<Rightarrow> bool \<Rightarrow> tcp_sock \<Rightarrow> (bool \<times> sock_out list \<times> tcp_sock) mem" where
  "ts_SendPacket data err s =
     (if \<not> ts_CheckCanSend (word_of_nat (length data + hdrlen)) s then Some (False, [], s)
      else
        let hdr = ph_h2n \<lparr>timestamp = M_PACGET_CODE, hsize = word_of_nat (length data)\<rparr> in
        Option.bind (buf_Write (ph_bytes hdr) (t_msgbuffer2 s)) (\<lambda>b1.
        Option.bind (buf_Write data b1) (\<lambda>b2.
          case ts_TrySendData err (s\<lparr>t_msgbuffer2 := b2\<rparr>) of (_, os, s1) \<Rightarrow> Some (True, os, s1))))"

definition ts_SendPacketHead :: "byte list \<Rightarrow> byte list \<Rightarrow> bool \<Rightarrow> tcp_sock
    \<Rightarrow> (bool \<times> sock_out list \<times> tcp_sock) mem" where
  "ts_SendPacketHead head data err s =
     (if \<not> ts_CheckCanSend (word_of_nat (length data + hdrlen + length head)) s then Some (False, [], s)
      else
        let hdr = ph_h2n \<lparr>timestamp = M_PACGET_CODE, hsize = word_of_nat (length data + length head)\<rparr> in
        Option.bind (buf_Write (ph_bytes hdr) (t_msgbuffer2 s)) (\<lambda>b1.
        Option.bind (buf_Write head b1) (\<lambda>b2.
        Option.bind (buf_Write data b2) (\<lambda>b3.
          case ts_TrySendData err (s\<lparr>t_msgbuffer2 := b3\<rparr>) of (_, os, s1) \<Rightarrow> Some (True, os, s1)))))"

text \<open>\<^verbatim>\<open>_WriteHandler\<close>; \<^term>\<open>err\<close> is the reported error, \<^term>\<open>err2\<close> the one of the next
  asynchronous send.\<close>

definition ts_WriteHandler :: "u32 \<Rightarrow> bool \<Rightarrow> bool \<Rightarrow> tcp_sock \<Rightarrow> sock_out list \<times> tcp_sock" where
  "ts_WriteHandler tran_byte err err2 s0 =
     (let s = s0\<lparr>t_writing := False\<rparr> in
      if err then ts_DoClose s
      else if tran_byte \<le> 0 then ts_DoClose s
      else
        let s1 = s\<lparr>t_msgbuffer1 := buf_CutData tran_byte (t_msgbuffer1 s)\<rparr> in
        case ts_TrySendData err2 s1 of (sent, o1, s2) \<Rightarrow>
          if \<not> sent \<and> t_flag s2 \<noteq> E_STATE_START then
            (case ts_DoClose s2 of (o2, s3) \<Rightarrow> (o1 @ ShutdownWr # o2, s3))
          else (o1, s2))"

definition ts_TryRecvData :: "bool \<Rightarrow> tcp_sock \<Rightarrow> sock_out list \<times> tcp_sock" where
  "ts_TryRecvData err s =
     (if err then (case ts_PostClose s of (os, s1) \<Rightarrow> (AsyncRecvSome # os, s1))
      else ([AsyncRecvSome], s))"

text \<open>\<^verbatim>\<open>_ReadHandler\<close>; \<^term>\<open>readbuf\<close> is the whole read buffer after the receive.\<close>

definition ts_ReadHandler :: "byte list \<Rightarrow> u32 \<Rightarrow> bool \<Rightarrow> bool \<Rightarrow> tcp_sock
    \<Rightarrow> (sock_out list \<times> tcp_sock) mem" where
  "ts_ReadHandler readbuf tran_byte err err2 s =
     (if err then Some (ts_PostClose s)
      else if tran_byte \<le> 0 then Some (ts_PostClose s)
      else if t_flag s \<noteq> E_STATE_START then Some (ts_PostClose s)
      else map_option (\<lambda>(ok, ds, b).
        let o1 = map OnReceiveData ds; s1 = s\<lparr>t_reader := b\<rparr> in
        if ok then (case ts_TryRecvData err2 s1 of (o2, s2) \<Rightarrow> (o1 @ o2, s2))
        else (case ts_PostClose s1 of (o2, s2) \<Rightarrow> (o1 @ ShutdownRd # o2, s2)))
          (CutMsgPack readbuf tran_byte (t_reader s)))"

text \<open>\<^verbatim>\<open>TcpSocket::Init\<close>: \<^term>\<open>eps\<close> holds when both end points could be read (otherwise the
  exception leaves the socket as it was).\<close>

definition ts_Init :: "bool \<Rightarrow> int \<Rightarrow> bool \<Rightarrow> tcp_sock \<Rightarrow> sock_out list \<times> tcp_sock" where
  "ts_Init eps fd err s =
     (if \<not> eps then ([], s)
      else case ts_TryRecvData err (s\<lparr>t_flag := E_STATE_START, t_fd := fd\<rparr>) of
        (os, s1) \<Rightarrow> (OnConnected True # os, s1))"

text \<open>\<^verbatim>\<open>TcpConnector::_ConnectHandler\<close>: an error is reported to the application; the
  first receive of a connector ignores its error code (it throws).\<close>

definition tc_ConnectHandler :: "bool \<Rightarrow> bool \<Rightarrow> int \<Rightarrow> tcp_sock \<Rightarrow> sock_out list \<times> tcp_sock" where
  "tc_ConnectHandler err eps fd s =
     (if err then ([OnConnected False], s)
      else if \<not> eps then ([], s)
      else ([OnConnected True, AsyncRecvSome], s\<lparr>t_flag := E_STATE_START, t_fd := fd\<rparr>))"

definition tc_Connect :: "bool \<Rightarrow> int \<Rightarrow> tcp_sock \<Rightarrow> bool \<times> sock_out list \<times> tcp_sock" where
  "tc_Connect ok fd s =
     (if ok then (True, [AsyncRecvSome], s\<lparr>t_flag := E_STATE_START, t_fd := fd\<rparr>)
      else (False, [], s))"

subsection \<open>A connected socket and its environment\<close>

text \<open>What the application and the operating system can do to a connected socket.  The
  operating system reports at most the bytes of the send in flight, one report per
  send.  Beside the socket the world records the bytes accepted from the
  application, the bytes the system took, whether any error was reported, and all
  outputs.\<close>

datatype sock_in =
    AppSend "byte list" bool
  | AppSendPacket "byte list" bool
  | AppSendPacketHead "byte list" "byte list" bool
  | AppClose
  | SysWritten nat bool bool
  | SysRead "byte list" nat bool bool

record world =
  w_sock :: tcp_sock
  w_accepted :: "byte list"
  w_sent :: "byte list"
  w_error :: bool
  w_outs :: "sock_out list"

fun enabled :: "sock_in \<Rightarrow> world \<Rightarrow> bool" where
  "enabled (SysWritten n err err2) w \<longleftrightarrow>
     t_writing (w_sock w) \<and> n \<le> length (buf_Data (t_msgbuffer1 (w_sock w)))"
| "enabled (SysRead readbuf n err err2) w \<longleftrightarrow> n \<le> length readbuf \<and> n \<le> M_SOCKET_READ_SIZE"
| "enabled (AppSend d err) w \<longleftrightarrow> length d < 2 ^ 31"
| "enabled (AppSendPacket d err) w \<longleftrightarrow> length d < 2 ^ 31"
| "enabled (AppSendPacketHead h d err) w \<longleftrightarrow> length h + length d < 2 ^ 31 - 8"
| "enabled AppClose w \<longleftrightarrow> True"

fun exec :: "sock_in \<Rightarrow> world \<Rightarrow> world mem" where
  "exec (AppSend d err) w =
     map_option (\<lambda>(ok, os, s). w\<lparr>w_sock := s, w_outs := w_outs w @ os,
         w_accepted := w_accepted w @ (if ok then d else []), w_error := w_error w \<or> err\<rparr>)
       (ts_Send d err (w_sock w))"
| "exec (AppSendPacket d err) w =
     map_option (\<lambda>(ok, os, s). w\<lparr>w_sock := s, w_outs := w_outs w @ os,
         w_accepted := w_accepted w @ (if ok then packet_bytes d else []), w_error := w_error w \<or> err\<rparr>)
       (ts_SendPacket d err (w_sock w))"
| "exec (AppSendPacketHead h d err) w =
     map_option (\<lambda>(ok, os, s). w\<lparr>w_sock := s, w_outs := w_outs w @ os,
         w_accepted := w_accepted w @ (if ok then packet_bytes (h @ d) else []), w_error := w_error w \<or> err\<rparr>)
       (ts_SendPacketHead h d err (w_sock w))"
| "exec AppClose w =
     (case ts_Close (w_sock w) of (os, s) \<Rightarrow> Some (w\<lparr>w_sock := s, w_outs := w_outs w @ os\<rparr>))"
| "exec (SysWritten n err err2) w =
     (case ts_WriteHandler (word_of_nat n) err err2 (w_sock w) of (os, s) \<Rightarrow>
        Some (w\<lparr>w_sock := s, w_outs := w_outs w @ os,
          w_sent := w_sent w @ (if err then [] else take n (buf_Data (t_msgbuffer1 (w_sock w)))),
          w_error := w_error w \<or> err \<or> err2 \<or> n = 0\<rparr>))"
| "exec (SysRead readbuf n err err2) w =
     map_option (\<lambda>(os, s). w\<lparr>w_sock := s, w_outs := w_outs w @ os, w_error := w_error w \<or> err2\<rparr>)
       (ts_ReadHandler readbuf (word_of_nat n) err err2 (w_sock w))"

definition connected_world :: "int \<Rightarrow> world" where
  "connected_world fd =
     (case ts_Init True fd False ts_new of (os, s) \<Rightarrow>
        \<lparr>w_sock = s, w_accepted = [], w_sent = [], w_error = False, w_outs = os\<rparr>)"

inductive sock_reach :: "int \<Rightarrow> world \<Rightarrow> bool" for fd where
  init: "sock_reach fd (connected_world fd)"
| step: "\<lbrakk>sock_reach fd w; enabled i w; exec i w = Some w'\<rbrakk> \<Longrightarrow> sock_reach fd w'"

subsection \<open>The writer's invariant\<close>

definition drained :: "tcp_sock \<Rightarrow> bool" where
  "drained s \<longleftrightarrow> buf_Data (t_msgbuffer1 s) = [] \<and> buf_Data (t_msgbuffer2 s) = []"

definition queued :: "tcp_sock \<Rightarrow> byte list" where
  "queued s = buf_Data (t_msgbuffer1 s) @ buf_Data (t_msgbuffer2 s)"

definition writer_bufs :: "tcp_sock \<Rightarrow> bool" where
  "writer_bufs s \<longleftrightarrow> buf_ok (t_msgbuffer1 s) \<and> buf_ok (t_msgbuffer2 s)
     \<and> unat (buf_Size (t_msgbuffer1 s)) \<le> 2 ^ 20 \<and> unat (buf_Size (t_msgbuffer2 s)) \<le> 2 ^ 20"

definition writer_ok :: "tcp_sock \<Rightarrow> bool" where
  "writer_ok s \<longleftrightarrow> writer_bufs s
     \<and> (t_writing s \<longrightarrow> buf_Data (t_msgbuffer1 s) \<noteq> [] \<and> t_flag s \<noteq> E_STATE_CLOSE)
     \<and> (\<not> t_writing s \<longrightarrow> t_flag s \<noteq> E_STATE_STOP \<and> (t_flag s = E_STATE_START \<longrightarrow> drained s))"

definition closes :: "sock_out list \<Rightarrow> nat" where
  "closes os = length (filter (\<lambda>x. x = SocketClose) os)"

lemma closes_simps [simp]:
  "closes [] = 0" "closes (xs @ ys) = closes xs + closes ys"
  "closes (x # xs) = (if x = SocketClose then 1 else 0) + closes xs"
  by (simp_all add: closes_def)

lemma closes_receive [simp]: "closes (map OnReceiveData ds) = 0"
  by (simp add: closes_def)

lemma Length_0_Data: "buf_ok b \<Longrightarrow> (buf_Length b = 0) = (buf_Data b = [])"
  by (metis length_0_conv length_buf_Data unat_eq_zero)

text \<open>\<^verbatim>\<open>_Close\<close> from a state in which no write is in flight, or with one.\<close>

lemma ts_DoClose_ok:
  assumes "ts_DoClose s = (os, s')" "writer_bufs s"
    "t_writing s \<longrightarrow> buf_Data (t_msgbuffer1 s) \<noteq> [] \<and> t_flag s \<noteq> E_STATE_CLOSE"
  shows "writer_ok s' \<and> queued s' = queued s \<and> (drained s' = drained s)
    \<and> (t_flag s' = E_STATE_CLOSE) = (t_flag s = E_STATE_CLOSE \<or> \<not> t_writing s)
    \<and> closes os = (if t_flag s \<noteq> E_STATE_CLOSE \<and> t_flag s' = E_STATE_CLOSE then 1 else 0)
    \<and> t_writing s' = t_writing s \<and> t_flag s' \<noteq> E_STATE_START \<and> t_fd s' = t_fd s"
  using assms
  by (auto simp: ts_DoClose_def writer_ok_def writer_bufs_def queued_def drained_def split: if_splits)

text \<open>\<^verbatim>\<open>_TrySendData\<close> with no write in flight.\<close>

lemma ts_SwapBuffers_ok:
  assumes "writer_bufs s"
  shows "writer_bufs (ts_SwapBuffers s) \<and> queued (ts_SwapBuffers s) = queued s
    \<and> t_writing (ts_SwapBuffers s) = t_writing s \<and> t_flag (ts_SwapBuffers s) = t_flag s
    \<and> (buf_Data (t_msgbuffer1 (ts_SwapBuffers s)) = [] \<longrightarrow> drained (ts_SwapBuffers s))"
  using assms
  by (auto simp: ts_SwapBuffers_def buf_Swap_def writer_bufs_def queued_def Length_0_Data buf_ok_Clear
      drained_def Let_def)

lemma ts_TrySendData_ok:
  assumes t: "ts_TrySendData err s = (sent, os, s')" and b: "writer_bufs s" and w: "\<not> t_writing s"
    and f: "t_flag s \<noteq> E_STATE_CLOSE"
  shows "queued s' = queued s \<and> writer_bufs s'
    \<and> (sent \<longrightarrow> writer_ok s' \<and> t_flag s' = t_flag s \<and> closes os = 0 \<and> t_writing s')
    \<and> (\<not> sent \<longrightarrow> \<not> t_writing s' \<and> (if t_flag s' = E_STATE_CLOSE then err \<and> closes os = 1
          else t_flag s' = t_flag s \<and> drained s' \<and> closes os = 0))"
proof -
  let ?s1 = "ts_SwapBuffers s"
  note b1 = ts_SwapBuffers_ok [OF b]
  have l: "(buf_Length (t_msgbuffer1 ?s1) > 0) = (buf_Data (t_msgbuffer1 ?s1) \<noteq> [])"
    using b1 Length_0_Data [of "t_msgbuffer1 ?s1"] by (simp add: word_gt_0 writer_bufs_def)
  obtain o2 s2 where c: "ts_DoClose ?s1 = (o2, s2)" by fastforce
  have dc: "writer_ok s2 \<and> queued s2 = queued ?s1 \<and> t_flag s2 = E_STATE_CLOSE \<and> closes o2 = 1
      \<and> \<not> t_writing s2"
    using ts_DoClose_ok [OF c] b1 w f by auto
  show ?thesis
    using t w f b1 l dc c
    by (auto simp: ts_TrySendData_def Let_def writer_ok_def queued_def writer_bufs_def split: if_splits)
qed

subsection \<open>The operations keep the invariant\<close>

lemma ts_CheckCanSend_bounds:
  assumes "ts_CheckCanSend (word_of_nat n) s" "n < 2 ^ 32"
  shows "0 < n \<and> n \<le> M_SOCKET_PACK_SIZE \<and> t_flag s = E_STATE_START
    \<and> (unat (buf_Size (t_msgbuffer2 s)) \<le> 2 ^ 20 \<longrightarrow> unat (buf_Size (t_msgbuffer2 s)) + n \<le> 2 ^ 20)"
proof -
  let ?w = "word_of_nat n :: u32"
  have u: "unat ?w = n" using assms(2) by (simp add: unat_of_nat_small)
  have c: "0 < sint ?w" "sint ?w \<le> int M_SOCKET_PACK_SIZE" "t_flag s = E_STATE_START"
    "buf_Size (t_msgbuffer2 s) + ?w \<le> E_MAX_BUFFER_SIZE"
    using assms(1) by (auto simp: ts_CheckCanSend_def split: if_splits)
  have "sint ?w = uint ?w"
    using c(1,2) by (intro uint_eq_sint [symmetric]) (simp_all add: M_SOCKET_PACK_SIZE_def)
  moreover have "uint ?w = int n" using u by (metis of_nat_unat)
  ultimately have n: "0 < n" "n \<le> M_SOCKET_PACK_SIZE" using c by auto
  have "unat (buf_Size (t_msgbuffer2 s)) \<le> 2 ^ 20 \<Longrightarrow>
      unat (buf_Size (t_msgbuffer2 s) + ?w) = unat (buf_Size (t_msgbuffer2 s)) + n"
    using n u by (simp add: unat_plus_small M_SOCKET_PACK_SIZE_def)
  then show ?thesis
    using c n by (auto simp: E_MAX_BUFFER_SIZE_def word_le_nat_alt)
qed

lemma ts_push_ok:
  assumes w: "writer_ok s" and f: "t_flag s = E_STATE_START"
    and b: "buf_ok b" "buf_Data b = buf_Data (t_msgbuffer2 s) @ d" "d \<noteq> []" "unat (buf_Size b) \<le> 2 ^ 20"
    and t: "ts_TrySendData err (s\<lparr>t_msgbuffer2 := b\<rparr>) = (r, os, s')"
  shows "writer_ok s' \<and> queued s' = queued s @ d
    \<and> closes os = (if t_flag s' = E_STATE_CLOSE then 1 else 0) \<and> (t_flag s' = E_STATE_CLOSE \<longrightarrow> err)"
proof (cases "t_writing s")
  case True
  then have "s' = s\<lparr>t_msgbuffer2 := b\<rparr>" "os = []" using t by (auto simp: ts_TrySendData_def)
  then show ?thesis using w b f True by (simp add: writer_ok_def writer_bufs_def queued_def)
next
  case False
  have wb: "writer_bufs (s\<lparr>t_msgbuffer2 := b\<rparr>)" "queued (s\<lparr>t_msgbuffer2 := b\<rparr>) = queued s @ d"
    using w b by (auto simp: writer_ok_def writer_bufs_def queued_def)
  have ne: "\<not> drained s'" if "queued s' = queued s @ d"
    using that b(3) by (auto simp: drained_def queued_def)
  show ?thesis
    using ts_TrySendData_ok [OF t wb(1)] False f wb(2) ne by (auto simp: writer_ok_def split: if_splits)
qed

text \<open>What every send promises: all of the bytes queued, or none.\<close>

definition send_post :: "tcp_sock \<Rightarrow> byte list \<Rightarrow> bool \<Rightarrow> bool \<Rightarrow> sock_out list \<Rightarrow> tcp_sock \<Rightarrow> bool" where
  "send_post s d err ok os s' \<longleftrightarrow>
     (if ok then writer_ok s' \<and> queued s' = queued s @ d \<and> t_flag s = E_STATE_START
        \<and> closes os = (if t_flag s' = E_STATE_CLOSE then 1 else 0) \<and> (t_flag s' = E_STATE_CLOSE \<longrightarrow> err)
      else s' = s \<and> os = [])"

lemma ts_Send_ok:
  assumes w: "writer_ok s" and l: "length d < 2 ^ 31"
  shows "\<exists>ok os s'. ts_Send d err s = Some (ok, os, s') \<and> send_post s (d) err ok os s'"
proof (cases "ts_CheckCanSend (word_of_nat (length d)) s")
  case False
  then show ?thesis using w by (auto simp: ts_Send_def send_post_def)
next
  case True
  have c: "0 < length d" "t_flag s = E_STATE_START"
      "unat (buf_Size (t_msgbuffer2 s)) + length d \<le> 2 ^ 20"
    using ts_CheckCanSend_bounds [OF True] w l by (auto simp: writer_ok_def writer_bufs_def)
  obtain b where b: "buf_Write d (t_msgbuffer2 s) = Some b" "buf_ok b"
      "buf_Data b = buf_Data (t_msgbuffer2 s) @ d"
      "unat (buf_Size b) = unat (buf_Size (t_msgbuffer2 s)) + length d"
    using buf.put_law [of "t_msgbuffer2 s" d] w c(3)
    by (auto simp: writer_ok_def writer_bufs_def buf_limit_def)
  obtain r os s' where t: "ts_TrySendData err (s\<lparr>t_msgbuffer2 := b\<rparr>) = (r, os, s')"
    by (metis prod_cases3)
  show ?thesis
    using ts_push_ok [OF w c(2) b(2,3) _ _ t] True b c t by (auto simp: ts_Send_def send_post_def)
qed

lemma ts_SendPacket_ok:
  assumes w: "writer_ok s" and l: "length d < 2 ^ 31"
  shows "\<exists>ok os s'. ts_SendPacket d err s = Some (ok, os, s') \<and> send_post s (packet_bytes d) err ok os s'"
proof (cases "ts_CheckCanSend (word_of_nat (length d + hdrlen)) s")
  case False
  then show ?thesis using w by (auto simp: ts_SendPacket_def send_post_def)
next
  case True
  have c: "t_flag s = E_STATE_START" "unat (buf_Size (t_msgbuffer2 s)) + (length d + hdrlen) \<le> 2 ^ 20"
    using ts_CheckCanSend_bounds [OF True] w l
    by (auto simp: writer_ok_def writer_bufs_def hdrlen_def)
  let ?hdr = "ph_bytes (ph_h2n \<lparr>timestamp = M_PACGET_CODE, hsize = word_of_nat (length d)\<rparr>)"
  have pb: "packet_bytes d = ?hdr @ d" by (simp add: packet_bytes_def packet_hdr_def)
  obtain b1 where b1: "buf_Write ?hdr (t_msgbuffer2 s) = Some b1" "buf_ok b1"
      "buf_Data b1 = buf_Data (t_msgbuffer2 s) @ ?hdr"
      "unat (buf_Size b1) = unat (buf_Size (t_msgbuffer2 s)) + hdrlen"
    using buf.put_law [of "t_msgbuffer2 s" ?hdr] w c(2)
    by (auto simp: writer_ok_def writer_bufs_def buf_limit_def)
  obtain b where b: "buf_Write d b1 = Some b" "buf_ok b"
      "buf_Data b = buf_Data (t_msgbuffer2 s) @ packet_bytes d"
      "unat (buf_Size b) = unat (buf_Size (t_msgbuffer2 s)) + hdrlen + length d"
    using buf.put_law [of b1 d] b1 c(2) unfolding pb by (auto simp: buf_limit_def)
  obtain r os s' where t: "ts_TrySendData err (s\<lparr>t_msgbuffer2 := b\<rparr>) = (r, os, s')"
    by (metis prod_cases3)
  have ne: "packet_bytes d \<noteq> []" using length_packet_bytes [of d] by (auto simp: hdrlen_def)
  show ?thesis
    using ts_push_ok [OF w c(1) b(2,3) ne _ t] True b1(1) b c t
    by (auto simp: ts_SendPacket_def Let_def send_post_def)
qed

lemma ts_SendPacketHead_ok:
  assumes w: "writer_ok s" and l: "length h + length d < 2 ^ 31 - 8"
  shows "\<exists>ok os s'. ts_SendPacketHead h d err s = Some (ok, os, s') \<and> send_post s (packet_bytes (h @ d)) err ok os s'"
proof (cases "ts_CheckCanSend (word_of_nat (length d + hdrlen + length h)) s")
  case False
  then show ?thesis using w by (auto simp: ts_SendPacketHead_def send_post_def)
next
  case True
  have c: "t_flag s = E_STATE_START"
      "unat (buf_Size (t_msgbuffer2 s)) + (length d + hdrlen + length h) \<le> 2 ^ 20"
    using ts_CheckCanSend_bounds [OF True] w l
    by (auto simp: writer_ok_def writer_bufs_def hdrlen_def)
  let ?hdr = "ph_bytes (ph_h2n \<lparr>timestamp = M_PACGET_CODE, hsize = word_of_nat (length d + length h)\<rparr>)"
  have pb: "packet_bytes (h @ d) = concat [?hdr, h, d]"
    by (simp add: packet_bytes_def packet_hdr_def add.commute)
  obtain b where b: "buf.put_all [?hdr, h, d] (t_msgbuffer2 s) = Some b" "buf_ok b"
      "buf_Data b = buf_Data (t_msgbuffer2 s) @ packet_bytes (h @ d)"
      "unat (buf_Size b) = unat (buf_Size (t_msgbuffer2 s)) + (hdrlen + (length h + length d))"
    using buf.put_all_law [of "t_msgbuffer2 s" "[?hdr, h, d]"] w c(2) unfolding pb
    by (auto simp: writer_ok_def writer_bufs_def buf_limit_def)
  obtain r os s' where t: "ts_TrySendData err (s\<lparr>t_msgbuffer2 := b\<rparr>) = (r, os, s')"
    by (metis prod_cases3)
  have ne: "packet_bytes (h @ d) \<noteq> []" using length_packet_bytes [of "h @ d"] by (auto simp: hdrlen_def)
  have sz: "unat (buf_Size b) \<le> 2 ^ 20" using b(4) c(2) by simp
  have "ts_SendPacketHead h d err s = Some (True, os, s')"
    using True b(1) t by (auto simp: ts_SendPacketHead_def Let_def bind_eq_Some_conv)
  then show ?thesis using ts_push_ok [OF w c(1) b(2,3) ne sz t] c(1) by (auto simp: send_post_def)
qed

lemma ts_WriteHandler_ok:
  assumes w: "writer_ok s" "t_writing s" and n: "n \<le> length (buf_Data (t_msgbuffer1 s))"
    and r: "ts_WriteHandler (word_of_nat n) err err2 s = (os, s')"
  shows "writer_ok s' \<and> queued s = (if err then [] else take n (buf_Data (t_msgbuffer1 s))) @ queued s'
    \<and> closes os = (if t_flag s' = E_STATE_CLOSE then 1 else 0)
    \<and> (t_flag s' = E_STATE_CLOSE \<and> \<not> err \<and> \<not> err2 \<and> n \<noteq> 0 \<longrightarrow> drained s')
    \<and> (t_flag s = E_STATE_STOP \<longrightarrow> \<not> t_writing s' \<longrightarrow> t_flag s' = E_STATE_CLOSE)"
proof -
  let ?s = "s\<lparr>t_writing := False\<rparr>"
  have f: "t_flag s \<noteq> E_STATE_CLOSE" using w by (simp add: writer_ok_def)
  have wb: "writer_bufs ?s" "queued ?s = queued s" using w by (simp_all add: writer_ok_def writer_bufs_def queued_def)
  have sz: "unat (buf_Size (t_msgbuffer1 s)) \<le> 2 ^ 20" "buf_ok (t_msgbuffer1 s)"
    using w by (simp_all add: writer_ok_def writer_bufs_def)
  then have lim: "unat (buf_Size (t_msgbuffer1 s)) < buf_limit" by (simp add: buf_limit_def)
  have "n < 2 ^ 32" using n buf.bytes_used [OF sz(2)] sz(1) by simp
  then have z: "(word_of_nat n :: u32) \<le> 0 \<longleftrightarrow> n = 0"
    by (simp add: word_le_nat_alt unat_of_nat_small)
  show ?thesis
  proof (cases "err \<or> n = 0")
    case True
    then have c: "ts_DoClose ?s = (os, s')" using r z by (auto simp: ts_WriteHandler_def Let_def split: if_splits)
    show ?thesis using ts_DoClose_ok [OF c wb(1)] wb(2) f True by auto
  next
    case False
    let ?s1 = "?s\<lparr>t_msgbuffer1 := buf_CutData (word_of_nat n) (t_msgbuffer1 s)\<rparr>"
    have cut: "buf_ok (buf_CutData (word_of_nat n) (t_msgbuffer1 s))"
        "buf_Data (buf_CutData (word_of_nat n) (t_msgbuffer1 s)) = drop n (buf_Data (t_msgbuffer1 s))"
      using buf.cut_law [OF sz(2) lim n] by auto
    have wb1: "writer_bufs ?s1" using w cut by (simp add: writer_ok_def writer_bufs_def)
    have q1: "queued s = take n (buf_Data (t_msgbuffer1 s)) @ queued ?s1"
      using cut by (simp add: queued_def)
    obtain sent o1 s2 where t: "ts_TrySendData err2 ?s1 = (sent, o1, s2)" by (metis prod_cases3)
    have ok: "queued s2 = queued ?s1" "writer_bufs s2"
      "sent \<longrightarrow> writer_ok s2 \<and> t_flag s2 = t_flag s \<and> closes o1 = 0 \<and> t_writing s2"
      "\<not> sent \<longrightarrow> \<not> t_writing s2 \<and> (if t_flag s2 = E_STATE_CLOSE then err2 \<and> closes o1 = 1
          else t_flag s2 = t_flag s \<and> drained s2 \<and> closes o1 = 0)"
      using ts_TrySendData_ok [OF t wb1] f by auto
    show ?thesis
    proof (cases "\<not> sent \<and> t_flag s2 \<noteq> E_STATE_START")
      case True
      obtain o2 where c: "ts_DoClose s2 = (o2, s')" and os: "os = o1 @ ShutdownWr # o2"
        using r False z t True by (auto simp: ts_WriteHandler_def Let_def split: prod.splits)
      show ?thesis
        using ts_DoClose_ok [OF c ok(2)] ok True q1 False os by (auto split: if_splits)
    next
      case ns: False
      then have "os = o1" "s' = s2"
        using r False z t by (auto simp: ts_WriteHandler_def Let_def split: if_splits)
      then show ?thesis
        using ns ok q1 False f by (cases sent) (auto simp: writer_ok_def)
    qed
  qed
qed

text \<open>What every operation that sends nothing promises.\<close>

definition quiet_post :: "tcp_sock \<Rightarrow> sock_out list \<Rightarrow> tcp_sock \<Rightarrow> bool" where
  "quiet_post s os s' \<longleftrightarrow> writer_ok s' \<and> queued s' = queued s
     \<and> (if t_flag s = E_STATE_CLOSE then t_flag s' = E_STATE_CLOSE \<and> closes os = 0
        else if t_flag s' = E_STATE_CLOSE then closes os = 1 \<and> drained s'
        else closes os = 0)"

lemma drained_queued: "drained s \<longleftrightarrow> queued s = []"
  by (simp add: drained_def queued_def)

lemma ts_PostClose_ok:
  assumes "writer_ok s" "ts_PostClose s = (os, s')"
  shows "quiet_post s os s'"
proof -
  have w: "writer_bufs s" "t_writing s \<longrightarrow> buf_Data (t_msgbuffer1 s) \<noteq> [] \<and> t_flag s \<noteq> E_STATE_CLOSE"
    using assms(1) by (auto simp: writer_ok_def)
  show ?thesis
    using ts_DoClose_ok [OF assms(2) [unfolded ts_PostClose_def] w] assms(1)
    by (cases "t_flag s") (auto simp: writer_ok_def quiet_post_def)
qed

lemma ts_ReadHandler_ok:
  assumes w: "writer_ok s" and r: "ts_ReadHandler readbuf tb err err2 s = Some (os, s')"
  shows "quiet_post s os s'"
proof (cases "err \<or> tb \<le> 0 \<or> t_flag s \<noteq> E_STATE_START")
  case True
  then have "ts_PostClose s = (os, s')" using r by (auto simp: ts_ReadHandler_def split: if_splits)
  then show ?thesis by (rule ts_PostClose_ok [OF w])
next
  case False
  then obtain ok ds b where c: "CutMsgPack readbuf tb (t_reader s) = Some (ok, ds, b)"
    using r by (auto simp: ts_ReadHandler_def)
  let ?s1 = "s\<lparr>t_reader := b\<rparr>"
  have w1: "writer_ok ?s1" "queued ?s1 = queued s" "t_flag ?s1 = t_flag s"
    using w by (simp_all add: writer_ok_def writer_bufs_def queued_def drained_def)
  obtain o2 s2 where pc: "ts_PostClose ?s1 = (o2, s2)" by fastforce
  note p = ts_PostClose_ok [OF w1(1) pc]
  have "(os, s') = (map OnReceiveData ds @ [AsyncRecvSome], ?s1)
      \<or> (os, s') = (map OnReceiveData ds @ AsyncRecvSome # o2, s2)
      \<or> (os, s') = (map OnReceiveData ds @ ShutdownRd # o2, s2)"
    using r False c pc by (auto simp: ts_ReadHandler_def ts_TryRecvData_def Let_def split: if_splits)
  then show ?thesis using p w1 False by (auto simp: quiet_post_def)
qed

definition world_ok :: "world \<Rightarrow> bool" where
  "world_ok w \<longleftrightarrow> writer_ok (w_sock w) \<and> w_accepted w = w_sent w @ queued (w_sock w)
     \<and> closes (w_outs w) = (if t_flag (w_sock w) = E_STATE_CLOSE then 1 else 0)
     \<and> (t_flag (w_sock w) = E_STATE_CLOSE \<and> \<not> w_error w \<longrightarrow> drained (w_sock w))"

lemma world_ok_init: "world_ok (connected_world fd)"
  by (simp add: world_ok_def connected_world_def ts_Init_def ts_TryRecvData_def ts_new_def
      writer_ok_def writer_bufs_def queued_def drained_def)

lemma world_ok_send:
  assumes "world_ok w" "send_post (w_sock w) d err ok os s'"
  shows "world_ok (w\<lparr>w_sock := s', w_outs := w_outs w @ os,
    w_accepted := w_accepted w @ (if ok then d else []), w_error := w_error w \<or> err\<rparr>)"
  using assms by (cases ok) (auto simp: world_ok_def send_post_def)

lemma world_ok_quiet:
  assumes "world_ok w" "quiet_post (w_sock w) os s'"
  shows "world_ok (w\<lparr>w_sock := s', w_outs := w_outs w @ os, w_error := w_error w \<or> e\<rparr>)"
  using assms by (auto simp: world_ok_def quiet_post_def drained_queued split: if_splits)

lemma world_ok_step:
  assumes w: "world_ok w" and e: "enabled i w" and x: "exec i w = Some w'"
  shows "world_ok w'"
proof (cases i)
  case (AppSend d err)
  obtain ok os s' where r: "ts_Send d err (w_sock w) = Some (ok, os, s')"
      "send_post (w_sock w) d err ok os s'"
    using ts_Send_ok [of "w_sock w" d err] w e AppSend by (auto simp: world_ok_def)
  show ?thesis using world_ok_send [OF w r(2)] x r(1) AppSend by simp
next
  case (AppSendPacket d err)
  obtain ok os s' where r: "ts_SendPacket d err (w_sock w) = Some (ok, os, s')"
      "send_post (w_sock w) (packet_bytes d) err ok os s'"
    using ts_SendPacket_ok [of "w_sock w" d err] w e AppSendPacket by (auto simp: world_ok_def)
  show ?thesis using world_ok_send [OF w r(2)] x r(1) AppSendPacket by simp
next
  case (AppSendPacketHead h d err)
  obtain ok os s' where r: "ts_SendPacketHead h d err (w_sock w) = Some (ok, os, s')"
      "send_post (w_sock w) (packet_bytes (h @ d)) err ok os s'"
    using ts_SendPacketHead_ok [of "w_sock w" h d err] w e AppSendPacketHead by (auto simp: world_ok_def)
  show ?thesis using world_ok_send [OF w r(2)] x r(1) AppSendPacketHead by simp
next
  case AppClose
  obtain os s' where c: "ts_PostClose (w_sock w) = (os, s')" by fastforce
  have "writer_ok (w_sock w)" using w by (simp add: world_ok_def)
  then show ?thesis
    using world_ok_quiet [OF w ts_PostClose_ok [OF _ c], of False] x c AppClose by (simp add: ts_Close_def)
next
  case (SysWritten n err err2)
  obtain os s' where r: "ts_WriteHandler (word_of_nat n) err err2 (w_sock w) = (os, s')" by fastforce
  have ok: "writer_ok (w_sock w)" "t_writing (w_sock w)" "n \<le> length (buf_Data (t_msgbuffer1 (w_sock w)))"
    using w e SysWritten by (auto simp: world_ok_def)
  then have f: "t_flag (w_sock w) \<noteq> E_STATE_CLOSE" by (simp add: writer_ok_def)
  note h = ts_WriteHandler_ok [OF ok r]
  have w': "w' = w\<lparr>w_sock := s', w_outs := w_outs w @ os,
      w_sent := w_sent w @ (if err then [] else take n (buf_Data (t_msgbuffer1 (w_sock w)))),
      w_error := w_error w \<or> err \<or> err2 \<or> n = 0\<rparr>"
    using x r SysWritten by simp
  have "w_accepted w = w_sent w @ queued (w_sock w)" "closes (w_outs w) = 0"
    using w f by (simp_all add: world_ok_def)
  then show ?thesis
    using h unfolding w' world_ok_def by simp
next
  case (SysRead readbuf n err err2)
  then obtain os s' where r: "ts_ReadHandler readbuf (word_of_nat n) err err2 (w_sock w) = Some (os, s')"
    using x by auto
  have "writer_ok (w_sock w)" using w by (simp add: world_ok_def)
  then show ?thesis
    using world_ok_quiet [OF w ts_ReadHandler_ok [OF _ r], of err2] x r SysRead by simp
qed

lemma reach_world_ok: "sock_reach fd w \<Longrightarrow> world_ok w"
  by (induction rule: sock_reach.induct) (auto intro: world_ok_init world_ok_step)

subsection \<open>Properties\<close>

text \<open>C6: integrity of the outgoing stream.  Whatever the application and the operating system
  do, the bytes the system took so far followed by the bytes still queued are
  exactly the bytes of the accepted sends, in order: nothing is lost, duplicated,
  reordered or interleaved; the descriptor is closed at most once; and a socket
  that closed without a reported error has sent everything it accepted.\<close>

theorem tcp_stream_integrity:
  assumes "sock_reach fd w"
  shows "w_accepted w = w_sent w @ queued (w_sock w)
     \<and> closes (w_outs w) \<le> 1
     \<and> (t_flag (w_sock w) = E_STATE_CLOSE \<and> \<not> w_error w \<longrightarrow> w_sent w = w_accepted w)"
  using reach_world_ok [OF assms] by (auto simp: world_ok_def queued_def drained_def)

theorem tcp_stream_integrity_witness:
  "\<exists>w. sock_reach 5 w \<and> w_accepted w = w_sent w @ queued (w_sock w) \<and> closes (w_outs w) \<le> 1"
  using tcp_stream_integrity [OF sock_reach.init [of 5]] sock_reach.init [of 5] by blast

text \<open>C26: no operation of the sending side touches memory outside its buffers, whatever the
  history of the socket: every send, every close and every completion report has a
  defined result.\<close>

theorem tcp_writer_no_fault:
  assumes "sock_reach fd w" "enabled i w" "\<forall>rb n e1 e2. i \<noteq> SysRead rb n e1 e2"
  shows "exec i w \<noteq> None"
proof -
  have w: "writer_ok (w_sock w)" using reach_world_ok [OF assms(1)] by (simp add: world_ok_def)
  show ?thesis
  proof (cases i)
    case (AppSend d err)
    then show ?thesis using assms(2) ts_Send_ok [OF w, of d err] by auto
  next
    case (AppSendPacket d err)
    then show ?thesis using assms(2) ts_SendPacket_ok [OF w, of d err] by auto
  next
    case (AppSendPacketHead h d err)
    then show ?thesis using assms(2) ts_SendPacketHead_ok [OF w, of h d err] by auto
  next
    case AppClose
    then show ?thesis by (simp split: prod.splits)
  next
    case (SysWritten n err err2)
    then show ?thesis by (simp split: prod.splits)
  next
    case (SysRead rb n e1 e2)
    then show ?thesis using assms(3) by simp
  qed
qed

lemma send_123: "\<exists>w. exec (AppSendPacket [1, 2, 3] False) (connected_world 5) = Some w"
  using ts_SendPacket_ok [of "w_sock (connected_world 5)" "[1, 2, 3]" False] world_ok_init [of 5]
  by (auto simp: world_ok_def)

theorem tcp_writer_no_fault_witness:
  "exec (AppSendPacket [1, 2, 3] False) (connected_world 5) \<noteq> None"
  by (rule tcp_writer_no_fault [OF sock_reach.init]) simp_all

text \<open>C27: closing drains.  After \<^verbatim>\<open>Close\<close> with data in flight the socket accepts no more data,
  and every error-free completion report either leaves less data queued or closes
  the socket with everything sent.\<close>

theorem tcp_close_drains:
  assumes "sock_reach fd w" "t_flag (w_sock w) = E_STATE_STOP"
    and "0 < n" "n \<le> length (buf_Data (t_msgbuffer1 (w_sock w)))"
  shows "\<exists>w'. exec (SysWritten n False False) w = Some w'
    \<and> length (queued (w_sock w')) + n = length (queued (w_sock w))
    \<and> (t_writing (w_sock w') \<or> (t_flag (w_sock w') = E_STATE_CLOSE \<and> w_sent w' = w_accepted w'))
    \<and> (\<forall>d. ts_SendPacket d False (w_sock w) = Some (False, [], w_sock w))"
proof -
  have ok: "world_ok w" using reach_world_ok [OF assms(1)] .
  then have w: "writer_ok (w_sock w)" "t_writing (w_sock w)"
    using assms(2) by (auto simp: world_ok_def writer_ok_def)
  obtain os s' where r: "ts_WriteHandler (word_of_nat n) False False (w_sock w) = (os, s')" by fastforce
  note h = ts_WriteHandler_ok [OF w assms(4) r]
  have len: "length (queued s') + n = length (queued (w_sock w))"
    using h assms(4) by auto
  let ?w' = "w\<lparr>w_sock := s', w_outs := w_outs w @ os,
      w_sent := w_sent w @ take n (buf_Data (t_msgbuffer1 (w_sock w))), w_error := w_error w\<rparr>"
  have x: "exec (SysWritten n False False) w = Some ?w'" using r assms(3) by simp
  have "world_ok ?w'"
    using world_ok_step [OF ok _ x] w assms(4) by simp
  moreover have "t_writing s' \<or> t_flag s' = E_STATE_CLOSE" using h assms(2) by blast
  moreover have "t_flag s' = E_STATE_CLOSE \<longrightarrow> drained s'" using h assms(3) by blast
  ultimately have "t_writing s' \<or> (t_flag s' = E_STATE_CLOSE \<and> w_sent ?w' = w_accepted ?w')"
    by (auto simp: world_ok_def drained_def queued_def)
  moreover have "\<forall>d. ts_SendPacket d False (w_sock w) = Some (False, [], w_sock w)"
    using assms(2) by (simp add: ts_SendPacket_def ts_CheckCanSend_def)
  ultimately show ?thesis using x len by (intro exI [of _ ?w']) simp
qed

definition closing_world :: world where
  "closing_world = the (exec AppClose (the (exec (AppSendPacket [1, 2, 3] False) (connected_world 5))))"

lemma closing_world_reach: "sock_reach 5 closing_world"
proof -
  obtain w1 where w1: "exec (AppSendPacket [1, 2, 3] False) (connected_world 5) = Some w1"
    using send_123 by blast
  have "sock_reach 5 w1" by (rule sock_reach.step [OF sock_reach.init _ w1]) simp
  moreover obtain w2 where w2: "exec AppClose w1 = Some w2"
    by (cases "ts_Close (w_sock w1)") auto
  ultimately have "sock_reach 5 w2" by (intro sock_reach.step [OF _ _ w2]) simp_all
  then show ?thesis using w1 w2 by (simp add: closing_world_def del: exec.simps)
qed

theorem tcp_close_drains_witness:
  "t_flag (w_sock closing_world) = E_STATE_STOP \<and> length (queued (w_sock closing_world)) = 11
   \<and> (\<exists>w'. exec (SysWritten 11 False False) closing_world = Some w' \<and> queued (w_sock w') = []
        \<and> (t_writing (w_sock w') \<or> t_flag (w_sock w') = E_STATE_CLOSE))"
proof -
  have s: "t_flag (w_sock closing_world) = E_STATE_STOP"
    "length (buf_Data (t_msgbuffer1 (w_sock closing_world))) = 11"
    "length (queued (w_sock closing_world)) = 11"
    by (simp_all add: closing_world_def connected_world_def ts_Init_def ts_TryRecvData_def ts_new_def
      ts_SendPacket_def ts_CheckCanSend_def buf_new_def buf_Write_def hdrlen_def Let_def
      M_SOCKET_PACK_SIZE_def E_MAX_BUFFER_SIZE_def buf_default_size_def buf_Size_def ts_TrySendData_def
      ts_SwapBuffers_def buf_Swap_def buf_Length_def buf_Clear_def buf_Data_def ts_Close_def ts_PostClose_def
      ts_DoClose_def queued_def)
  then show ?thesis
    using tcp_close_drains [OF closing_world_reach s(1), of 11] by auto
qed

end
