(* ===== verification/Timer_Pool.thy ===== *)
theory Timer_Pool
  imports Prelude "HOL-Library.Signed_Division"
begin

text \<open>
  The timer wheel of \<^verbatim>\<open>slience/base/time_pool.{h,cpp}\<close>: one big bucket per second of the
  day, ten small buckets per second, each a \<^verbatim>\<open>std::map\<close> from the expiry time in
  milliseconds to a node, created on demand and deleted when empty.  Times are the
  64-bit millisecond counts of the code; where the code narrows to \<^verbatim>\<open>int\<close> the
  narrowing is written out, and \<^verbatim>\<open>/\<close> and \<^verbatim>\<open>%\<close> truncate towards zero.  A callback is
  application code: an argument that may change the pool.  An access outside the
  initialised buckets, a remainder by zero and the use of a map that a callback
  has deleted are faults.
\<close>

definition big_bucket_cnt :: int where "big_bucket_cnt = 24 * 3600"
definition small_bucket_cnt :: int where "small_bucket_cnt = 10"

record 'cb time_node =
  tn_id :: u64
  tn_expire :: int
  tn_cb :: 'cb

record 'cb node_map =
  nm_serial :: nat
  nm_nodes :: "'cb time_node list"

record 'cb timer_pool =
  tp_days :: int
  tp_bucket :: "int \<Rightarrow> int \<Rightarrow> 'cb node_map option"
  tp_beg_time :: int
  tp_big :: int
  tp_small :: int
  tp_cur_id :: u32
  tp_serial :: nat

definition tp_new :: "int \<Rightarrow> int \<Rightarrow> 'cb timer_pool" where
  "tp_new max_interval_day now =
     \<lparr>tp_days = (if max_interval_day > 7 \<or> max_interval_day < 0 then 1 else max_interval_day),
      tp_bucket = (\<lambda>_ _. None), tp_beg_time = now, tp_big = 0, tp_small = 0, tp_cur_id = 1,
      tp_serial = 0\<rparr>"

text \<open>The conversion of a 64-bit value to \<^verbatim>\<open>int\<close>.\<close>

definition to_int32 :: "int \<Rightarrow> int" where
  "to_int32 x = sint (word_of_int x :: u32)"

definition tp_CalcBucket :: "'cb timer_pool \<Rightarrow> int \<Rightarrow> int \<Rightarrow> (int \<times> int) mem" where
  "tp_CalcBucket p now interval =
     (let inteval_mil = to_int32 (now - tp_beg_time p + interval);
          interval_sec = inteval_mil sdiv 1000
      in if big_bucket_cnt * tp_days p = 0 then None
         else Some (interval_sec smod (big_bucket_cnt * tp_days p),
                    ((inteval_mil smod 1000) sdiv 100) smod 10))"

text \<open>The constructor initialises the first \<^term>\<open>big_bucket_cnt\<close> big buckets, whatever the
  number of days.\<close>

definition bucket_valid :: "'cb timer_pool \<Rightarrow> int \<Rightarrow> int \<Rightarrow> bool" where
  "bucket_valid p b s \<longleftrightarrow> 0 \<le> b \<and> b < big_bucket_cnt \<and> 0 \<le> s \<and> s < small_bucket_cnt"

definition tp_set :: "int \<Rightarrow> int \<Rightarrow> 'cb node_map option \<Rightarrow> 'cb timer_pool \<Rightarrow> 'cb timer_pool" where
  "tp_set b s m p = p\<lparr>tp_bucket := (tp_bucket p)(b := (tp_bucket p b)(s := m))\<rparr>"

text \<open>\<^verbatim>\<open>std::map::insert\<close>: ordered by key; an existing key keeps its value.\<close>

fun map_insert :: "'cb time_node \<Rightarrow> 'cb time_node list \<Rightarrow> 'cb time_node list" where
  "map_insert n [] = [n]"
| "map_insert n (x # xs) =
     (if tn_expire n < tn_expire x then n # x # xs
      else if tn_expire n = tn_expire x then x # xs
      else x # map_insert n xs)"

definition tp_next_id :: "'cb timer_pool \<Rightarrow> u32" where
  "tp_next_id p = (if tp_cur_id p = 0xFFFFFFFE then 1 else tp_cur_id p)"

definition tp_AddTimer :: "int \<Rightarrow> int \<Rightarrow> 'cb \<Rightarrow> 'cb timer_pool \<Rightarrow> (u64 \<times> 'cb timer_pool) mem" where
  "tp_AddTimer now interval cb p =
     (if interval \<le> 0 then Some (0, p)
      else if interval > big_bucket_cnt * tp_days p * 1000 then Some (0, p)
      else Option.bind (tp_CalcBucket p now interval) (\<lambda>(b, s).
        if \<not> bucket_valid p b s then None
        else
          let m = (case tp_bucket p b s of
                     None \<Rightarrow> \<lparr>nm_serial = tp_serial p, nm_nodes = []\<rparr> | Some m \<Rightarrow> m);
              cur = tp_next_id p;
              timer_id = push_bit 32 (word_of_int (b * 10 + s)) + ucast cur;
              node = \<lparr>tn_id = timer_id, tn_expire = now + interval, tn_cb = cb\<rparr>
          in Some (timer_id,
               (tp_set b s (Some (m\<lparr>nm_nodes := map_insert node (nm_nodes m)\<rparr>)) p)
                 \<lparr>tp_cur_id := cur + 1, tp_serial := tp_serial p + 1\<rparr>)))"

definition tp_CancelTimer :: "u64 \<Rightarrow> 'cb timer_pool \<Rightarrow> (int \<times> 'cb timer_pool) mem" where
  "tp_CancelTimer tid p =
     (let high = sint (ucast (drop_bit 32 tid AND 0xFFFFFFFF) :: u32);
          b = high sdiv 10; s = high smod 10
      in if \<not> bucket_valid p b s then None
         else case tp_bucket p b s of
             None \<Rightarrow> Some (-1, p)
           | Some m \<Rightarrow>
               (case List.extract (\<lambda>n. tn_id n = tid) (nm_nodes m) of
                  None \<Rightarrow> Some (-1, p)
                | Some (xs, _, ys) \<Rightarrow>
                    Some (0, tp_set b s (if xs @ ys = [] then None
                                         else Some (m\<lparr>nm_nodes := xs @ ys\<rparr>)) p)))"

subsection \<open>\<^verbatim>\<open>Update\<close>\<close>

text \<open>The second component of the state is whatever else the callbacks change.\<close>

type_synonym ('cb, 'w) timer_run = "'cb \<Rightarrow> 'cb timer_pool \<times> 'w \<Rightarrow> ('cb timer_pool \<times> 'w) mem"

primrec run_callbacks :: "('cb, 'w) timer_run \<Rightarrow> 'cb time_node list \<Rightarrow> 'cb timer_pool \<times> 'w
    \<Rightarrow> ('cb timer_pool \<times> 'w) mem" where
  "run_callbacks run [] pw = Some pw"
| "run_callbacks run (n # ns) pw = Option.bind (run (tn_cb n) pw) (run_callbacks run ns)"

text \<open>One round of the loop: take the due nodes out of the map, run their callbacks, and
  delete the map if it is empty now; the map must still be the one the loop holds.\<close>

definition tp_visit :: "('cb, 'w) timer_run \<Rightarrow> int \<Rightarrow> int \<Rightarrow> 'cb timer_pool \<times> 'w
    \<Rightarrow> ('cb time_node list \<times> 'cb timer_pool \<times> 'w) mem" where
  "tp_visit run now idx pw =
     (let b = idx sdiv 10; s = idx smod 10; p = fst pw; w = snd pw in
      if \<not> bucket_valid p b s then None
      else case tp_bucket p b s of
          None \<Rightarrow> Some ([], p, w)
        | Some m \<Rightarrow>
            let due = filter (\<lambda>n. tn_expire n \<le> now) (nm_nodes m);
                p1 = tp_set b s (Some (m\<lparr>nm_nodes := filter (\<lambda>n. \<not> tn_expire n \<le> now) (nm_nodes m)\<rparr>)) p
            in Option.bind (run_callbacks run due (p1, w)) (\<lambda>(p2, w2).
                 case tp_bucket p2 b s of
                   None \<Rightarrow> None
                 | Some m2 \<Rightarrow>
                     if nm_serial m2 \<noteq> nm_serial m then None
                     else Some (due, if nm_nodes m2 = [] then tp_set b s None p2 else p2, w2)))"

primrec tp_visits :: "('cb, 'w) timer_run \<Rightarrow> int \<Rightarrow> int list \<Rightarrow> 'cb timer_pool \<times> 'w
    \<Rightarrow> ('cb time_node list \<times> 'cb timer_pool \<times> 'w) mem" where
  "tp_visits run now [] pw = Some ([], pw)"
| "tp_visits run now (i # is) pw =
     Option.bind (tp_visit run now i pw) (\<lambda>(f1, pw1).
       map_option (\<lambda>(f2, pw2). (f1 @ f2, pw2)) (tp_visits run now is pw1))"

definition tp_Update :: "('cb, 'w) timer_run \<Rightarrow> int \<Rightarrow> 'cb timer_pool \<times> 'w
    \<Rightarrow> ('cb time_node list \<times> 'cb timer_pool \<times> 'w) mem" where
  "tp_Update run now pw =
     Option.bind (tp_CalcBucket (fst pw) now 0) (\<lambda>(b, s).
       map_option (\<lambda>(fired, p1, w1). (fired, p1\<lparr>tp_big := b, tp_small := s\<rparr>, w1))
         (tp_visits run now [tp_big (fst pw) * 10 + tp_small (fst pw) .. b * 10 + s] pw))"

subsection \<open>The wheel within one day\<close>

definition day_ms :: int where "day_ms = 86400000"

definition in_day :: "'cb timer_pool \<Rightarrow> int \<Rightarrow> bool" where
  "in_day p t \<longleftrightarrow> 0 \<le> t - tp_beg_time p \<and> t - tp_beg_time p < day_ms"

definition slot :: "'cb timer_pool \<Rightarrow> int \<Rightarrow> int" where
  "slot p t = (t - tp_beg_time p) div 100"

definition nodes_at :: "'cb timer_pool \<Rightarrow> int \<Rightarrow> 'cb time_node list" where
  "nodes_at p i = (case tp_bucket p (i div 10) (i mod 10) of None \<Rightarrow> [] | Some m \<Rightarrow> nm_nodes m)"

definition pending :: "'cb timer_pool \<Rightarrow> 'cb time_node set" where
  "pending p = (\<Union>i. set (nodes_at p i))"

definition slot_valid :: "int \<Rightarrow> bool" where
  "slot_valid i \<longleftrightarrow> 0 \<le> i \<and> i < 864000"

definition last_slot :: "'cb timer_pool \<Rightarrow> int" where
  "last_slot p = tp_big p * 10 + tp_small p"

definition tp_ok :: "'cb timer_pool \<Rightarrow> bool" where
  "tp_ok p \<longleftrightarrow> tp_days p = 1 \<and> 0 \<le> last_slot p
     \<and> (\<forall>b s. tp_bucket p b s \<noteq> None \<longrightarrow> bucket_valid p b s \<and> nm_nodes (the (tp_bucket p b s)) \<noteq> [])
     \<and> (\<forall>i. sorted_wrt (<) (map tn_expire (nodes_at p i)))
     \<and> (\<forall>i. \<forall>n \<in> set (nodes_at p i). in_day p (tn_expire n) \<and> slot p (tn_expire n) = i
          \<and> last_slot p \<le> i \<and> drop_bit 32 (tn_id n) = word_of_int i)"

lemma to_int32_id: "\<lbrakk>- (2 ^ 31) \<le> x; x < 2 ^ 31\<rbrakk> \<Longrightarrow> to_int32 x = x"
  unfolding to_int32_def by transfer (simp add: signed_take_bit_int_eq_self)

lemma sdiv_nonneg: "\<lbrakk>0 \<le> a; 0 < b\<rbrakk> \<Longrightarrow> a sdiv b = a div (b :: int)"
  by (cases "a = 0") (auto simp: signed_divide_int_def sgn_if)

lemma smod_nonneg: "\<lbrakk>0 \<le> a; 0 < b\<rbrakk> \<Longrightarrow> a smod b = a mod (b :: int)"
  by (cases "a = 0") (auto simp: signed_modulo_int_def sgn_if)

lemma ms_split:
  "d div 100 div 10 = d div (1000 :: int)" "d mod 1000 div 100 = d div 100 mod (10 :: int)"
proof -
  show "d div 100 div 10 = d div 1000" using zdiv_zmult2_eq [of 10 d 100] by simp
  have "d mod 1000 = 100 * (d div 100 mod 10) + d mod 100"
    using zmod_zmult2_eq [of 10 d 100] by simp
  moreover have "0 \<le> d mod 100" "d mod 100 < 100" by simp_all
  ultimately show "d mod 1000 div 100 = d div 100 mod 10" by simp
qed

lemma CalcBucket_day:
  assumes "tp_days p = 1" "in_day p (now + interval)"
  shows "tp_CalcBucket p now interval =
    Some (slot p (now + interval) div 10, slot p (now + interval) mod 10)"
proof -
  let ?d = "now + interval - tp_beg_time p"
  have d: "0 \<le> ?d" "?d < 86400000" using assms(2) by (auto simp: in_day_def day_ms_def)
  then have t: "to_int32 (now - tp_beg_time p + interval) = ?d"
    using to_int32_id [of ?d] by (simp add: algebra_simps)
  have q: "?d sdiv 1000 = ?d div 1000" "?d smod 1000 = ?d mod 1000"
    using d by (simp_all add: sdiv_nonneg smod_nonneg)
  have r: "(?d div 1000) smod 86400 = ?d div 1000"
    using d by (simp add: smod_nonneg)
  have u: "(?d mod 1000) sdiv 100 smod 10 = ?d mod 1000 div 100"
    using d by (simp add: sdiv_nonneg smod_nonneg)
  have e: "?d div 100 div 10 = ?d div 1000" "?d mod 1000 div 100 = ?d div 100 mod 10"
    by (rule ms_split)+
  show ?thesis
    using assms(1) t q r u e by (simp add: tp_CalcBucket_def Let_def big_bucket_cnt_def slot_def)
qed

lemma slot_valid_in_day: "in_day p t \<Longrightarrow> slot_valid (slot p t)"
  by (auto simp: in_day_def slot_def slot_valid_def day_ms_def)

lemma bucket_valid_slot: "slot_valid i \<Longrightarrow> bucket_valid p (i div 10) (i mod 10)"
  by (auto simp: slot_valid_def bucket_valid_def big_bucket_cnt_def small_bucket_cnt_def)

lemma slot_mono: "t \<le> u \<Longrightarrow> slot p t \<le> slot p u"
  by (simp add: slot_def zdiv_mono1)

lemma idx_split: "i div 10 * 10 + i mod 10 = (i :: int)"
  by simp

lemma idx_eq: "(i div 10 = j div 10 \<and> i mod 10 = j mod 10) = (i = (j :: int))"
  by (metis idx_split)

lemma nodes_at_set:
  "nodes_at (tp_set (i div 10) (i mod 10) m p) j =
     (if j = i then (case m of None \<Rightarrow> [] | Some x \<Rightarrow> nm_nodes x) else nodes_at p j)"
  using idx_eq [of i j] by (auto simp: nodes_at_def tp_set_def)

lemma tp_set_sel [simp]:
  "tp_days (tp_set b s m p) = tp_days p" "tp_beg_time (tp_set b s m p) = tp_beg_time p"
  "tp_big (tp_set b s m p) = tp_big p" "tp_small (tp_set b s m p) = tp_small p"
  "tp_bucket (tp_set b s m p) b s = m" "bucket_valid (tp_set b s m p) = bucket_valid p"
  "slot (tp_set b s m p) = slot p" "in_day (tp_set b s m p) = in_day p"
  "last_slot (tp_set b s m p) = last_slot p"
  by (auto simp: tp_set_def bucket_valid_def slot_def in_day_def last_slot_def fun_eq_iff)

subsection \<open>Changing one bucket\<close>

definition node_fits :: "'cb timer_pool \<Rightarrow> int \<Rightarrow> 'cb time_node \<Rightarrow> bool" where
  "node_fits p i n \<longleftrightarrow> in_day p (tn_expire n) \<and> slot p (tn_expire n) = i \<and> last_slot p \<le> i
     \<and> drop_bit 32 (tn_id n) = word_of_int i"

lemma tp_ok_alt:
  "tp_ok p \<longleftrightarrow> tp_days p = 1 \<and> 0 \<le> last_slot p
     \<and> (\<forall>b s. tp_bucket p b s \<noteq> None \<longrightarrow> bucket_valid p b s \<and> nm_nodes (the (tp_bucket p b s)) \<noteq> [])
     \<and> (\<forall>i. sorted_wrt (<) (map tn_expire (nodes_at p i)) \<and> (\<forall>n \<in> set (nodes_at p i). node_fits p i n))"
  by (auto simp: tp_ok_def node_fits_def)

lemma node_fits_set [simp]: "node_fits (tp_set b s m p) = node_fits p"
  by (simp add: node_fits_def fun_eq_iff)

lemma tp_ok_set:
  assumes ok: "tp_ok p" and i: "slot_valid i" and m: "\<And>x. m = Some x \<Longrightarrow> nm_nodes x \<noteq> []"
    and ns: "sorted_wrt (<) (map tn_expire (case m of None \<Rightarrow> [] | Some x \<Rightarrow> nm_nodes x))"
      "\<forall>n \<in> set (case m of None \<Rightarrow> [] | Some x \<Rightarrow> nm_nodes x). node_fits p i n"
  shows "tp_ok (tp_set (i div 10) (i mod 10) m p)"
proof -
  let ?q = "tp_set (i div 10) (i mod 10) m p"
  have b: "bucket_valid p b s \<and> nm_nodes (the (tp_bucket ?q b s)) \<noteq> []" if "tp_bucket ?q b s \<noteq> None" for b s
  proof (cases "b = i div 10 \<and> s = i mod 10")
    case True
    then show ?thesis using that m bucket_valid_slot [OF i] by auto
  next
    case False
    then have "tp_bucket ?q b s = tp_bucket p b s" by (auto simp: tp_set_def)
    then show ?thesis using ok that by (simp add: tp_ok_alt)
  qed
  show ?thesis
    using ok b ns by (simp add: tp_ok_alt nodes_at_set)
qed

lemma pending_iff:
  "tp_ok p \<Longrightarrow> n \<in> pending p \<longleftrightarrow> n \<in> set (nodes_at p (slot p (tn_expire n)))"
  by (auto simp: pending_def tp_ok_def)

lemma pending_change:
  assumes "tp_ok p" "tp_ok q" "slot q = slot p"
    and "\<And>j. j \<noteq> i \<Longrightarrow> nodes_at q j = nodes_at p j"
  shows "n \<in> pending q \<longleftrightarrow> (if slot p (tn_expire n) = i then n \<in> set (nodes_at q i) else n \<in> pending p)"
  using assms pending_iff by metis

subsection \<open>\<^verbatim>\<open>AddTimer\<close>\<close>

lemma map_insert_new:
  "tn_expire n \<notin> tn_expire ` set xs \<Longrightarrow> set (map_insert n xs) = insert n (set xs)"
  by (induction xs) auto

lemma map_insert_old:
  "\<lbrakk>tn_expire n \<in> tn_expire ` set xs; sorted_wrt (<) (map tn_expire xs)\<rbrakk> \<Longrightarrow> map_insert n xs = xs"
  by (induction xs) auto

lemma map_insert_sorted:
  "sorted_wrt (<) (map tn_expire xs) \<Longrightarrow> sorted_wrt (<) (map tn_expire (map_insert n xs))"
proof (induction xs)
  case Nil
  then show ?case by simp
next
  case (Cons x xs)
  have "\<forall>y \<in> set (map_insert n xs). y = n \<or> y \<in> set xs" by (induction xs) auto
  then show ?case using Cons by (auto simp: not_less)
qed

lemma map_insert_Nil [simp]: "map_insert n xs \<noteq> []"
  by (cases xs) auto

lemma map_insert_subset: "set (map_insert n xs) \<subseteq> insert n (set xs)"
  by (induction xs) auto

definition timer_id_for :: "int \<Rightarrow> u32 \<Rightarrow> u64" where
  "timer_id_for i cur = push_bit 32 (word_of_int i) + ucast cur"

lemma timer_id_high:
  assumes "slot_valid i"
  shows "drop_bit 32 (timer_id_for i cur) = word_of_int i" "cur \<noteq> 0 \<Longrightarrow> timer_id_for i cur \<noteq> 0"
proof -
  have i: "0 \<le> i" "i < 2 ^ 32" using assms by (auto simp: slot_valid_def)
  have o: "timer_id_for i cur = push_bit 32 (word_of_int i) OR ucast cur"
    unfolding timer_id_for_def
    by (rule disjunctive_add) (auto simp: bit_simps dest: bit_imp_le_length)
  have "bit i n \<Longrightarrow> n < 32" for n
    using i by (metis bit_take_bit_iff take_bit_int_eq_self)
  then show "drop_bit 32 (timer_id_for i cur) = word_of_int i"
    unfolding o by (intro bit_word_eqI) (auto simp: bit_simps dest: bit_imp_le_length)
  have "ucast (timer_id_for i cur) = cur"
    unfolding o by (rule bit_word_eqI) (auto simp: bit_simps)
  then show "cur \<noteq> 0 \<Longrightarrow> timer_id_for i cur \<noteq> 0" by auto
qed

lemma last_slot_upd [simp]:
  "last_slot (p\<lparr>tp_cur_id := c, tp_serial := k\<rparr>) = last_slot p"
  "nodes_at (p\<lparr>tp_cur_id := c, tp_serial := k\<rparr>) = nodes_at p"
  "slot (p\<lparr>tp_cur_id := c, tp_serial := k\<rparr>) = slot p"
  "in_day (p\<lparr>tp_cur_id := c, tp_serial := k\<rparr>) = in_day p"
  "bucket_valid (p\<lparr>tp_cur_id := c, tp_serial := k\<rparr>) = bucket_valid p"
  by (auto simp: last_slot_def nodes_at_def slot_def in_day_def bucket_valid_def fun_eq_iff)

lemma tp_ok_upd [simp]: "tp_ok (p\<lparr>tp_cur_id := c, tp_serial := k\<rparr>) = tp_ok p"
  by (simp add: tp_ok_def)

lemma pending_upd [simp]: "pending (p\<lparr>tp_cur_id := c, tp_serial := k\<rparr>) = pending p"
  by (simp add: pending_def)

lemma slot_bound: "slot_valid i \<Longrightarrow> i \<le> 863999" by (simp add: slot_valid_def)

lemma tp_AddTimer_ok:
  fixes p :: "'cb timer_pool" and cb :: 'cb
  assumes ok: "tp_ok p" and i: "0 < interval" "interval \<le> day_ms" and d: "in_day p (now + interval)"
    and l: "last_slot p \<le> slot p now"
  defines "n \<equiv> \<lparr>tn_id = timer_id_for (slot p (now + interval)) (tp_next_id p),
      tn_expire = now + interval, tn_cb = cb\<rparr>"
  shows "\<exists>q. tp_AddTimer now interval cb p = Some (tn_id n, q) \<and> tp_ok q
    \<and> pending q = (if now + interval \<in> tn_expire ` pending p then pending p else insert n (pending p))
    \<and> last_slot q = last_slot p \<and> tp_beg_time q = tp_beg_time p \<and> tp_cur_id q = tp_next_id p + 1"
proof -
  let ?i = "slot p (now + interval)"
  let ?m = "case tp_bucket p (?i div 10) (?i mod 10) of
      None \<Rightarrow> \<lparr>nm_serial = tp_serial p, nm_nodes = []\<rparr> | Some m \<Rightarrow> m"
  let ?r = "tp_set (?i div 10) (?i mod 10) (Some (?m\<lparr>nm_nodes := map_insert n (nm_nodes ?m)\<rparr>)) p"
  let ?q = "?r\<lparr>tp_cur_id := tp_next_id p + 1, tp_serial := tp_serial p + 1\<rparr>"
  have days: "tp_days p = 1" using ok by (simp add: tp_ok_def)
  have sv: "slot_valid ?i" by (rule slot_valid_in_day [OF d])
  have nm: "nm_nodes ?m = nodes_at p ?i" by (simp add: nodes_at_def split: option.splits)
  have run: "tp_AddTimer now interval cb p = Some (tn_id n, ?q)"
    using i days bucket_valid_slot [OF sv, of p]
    by (simp add: tp_AddTimer_def CalcBucket_day [OF days d] Let_def big_bucket_cnt_def day_ms_def
        n_def timer_id_for_def)
  have li: "last_slot p \<le> ?i" using l slot_mono [of now "now + interval" p] i by simp
  have nf: "node_fits p ?i n"
    using d li timer_id_high(1) [OF sv] by (simp add: node_fits_def n_def)
  have at: "sorted_wrt (<) (map tn_expire (nodes_at p ?i))" "\<forall>x \<in> set (nodes_at p ?i). node_fits p ?i x"
    using ok by (auto simp: tp_ok_alt)
  have q0: "tp_ok ?r"
    using ok sv at nf map_insert_subset [of n "nodes_at p ?i"]
    by (intro tp_ok_set) (auto simp: nm map_insert_sorted)
  have eqn: "tn_expire n = now + interval" by (simp add: n_def)
  have ex: "now + interval \<in> tn_expire ` pending p \<longleftrightarrow> tn_expire n \<in> tn_expire ` set (nodes_at p ?i)"
  proof
    assume "now + interval \<in> tn_expire ` pending p"
    then obtain x where "x \<in> pending p" "tn_expire x = now + interval" by auto
    then have "x \<in> set (nodes_at p ?i)" using pending_iff [OF ok, of x] by simp
    then show "tn_expire n \<in> tn_expire ` set (nodes_at p ?i)"
      using \<open>tn_expire x = _\<close> eqn by (intro image_eqI [of _ _ x]) simp_all
  next
    assume "tn_expire n \<in> tn_expire ` set (nodes_at p ?i)"
    then obtain x where x: "x \<in> set (nodes_at p ?i)" "tn_expire x = now + interval" using eqn by auto
    then have "x \<in> pending p" by (auto simp: pending_def)
    then show "now + interval \<in> tn_expire ` pending p" using x(2) by (intro image_eqI [of _ _ x]) simp_all
  qed
  have pq: "x \<in> pending ?r \<longleftrightarrow> (if slot p (tn_expire x) = ?i then x \<in> set (map_insert n (nodes_at p ?i))
      else x \<in> pending p)" for x
    using pending_change [OF ok q0, of ?i x] by (simp add: nodes_at_set nm)
  have ins: "set (map_insert n (nodes_at p ?i)) =
      (if now + interval \<in> tn_expire ` pending p then set (nodes_at p ?i) else insert n (set (nodes_at p ?i)))"
    using ex map_insert_old [OF _ at(1), of n] map_insert_new [of n "nodes_at p ?i"] by auto
  have "x \<in> pending ?r \<longleftrightarrow> x \<in> (if now + interval \<in> tn_expire ` pending p then pending p else insert n (pending p))" for x
  proof (cases "slot p (tn_expire x) = ?i")
    case True
    then have "x \<in> pending p \<longleftrightarrow> x \<in> set (nodes_at p ?i)" using pending_iff [OF ok, of x] by simp
    then show ?thesis using True pq [of x] ins by simp
  next
    case False
    then have "x \<noteq> n" using eqn by auto
    then show ?thesis using False pq [of x] by simp
  qed
  then have "pending ?r = (if now + interval \<in> tn_expire ` pending p then pending p else insert n (pending p))"
    by (intro set_eqI)
  then show ?thesis using run q0 by simp
qed

subsection \<open>\<^verbatim>\<open>CancelTimer\<close>\<close>

lemma high_slot:
  assumes "slot_valid i" "drop_bit 32 tid = (word_of_int i :: u64)"
  shows "sint (ucast (drop_bit 32 tid AND 0xFFFFFFFF) :: u32) = i"
proof -
  have i: "0 \<le> i" "i < 2 ^ 31" using assms(1) by (auto simp: slot_valid_def)
  have mk: "(0xFFFFFFFF :: u64) = mask 32" by (simp add: mask_eq_exp_minus_1)
  have "(ucast (drop_bit 32 tid AND 0xFFFFFFFF) :: u32) = ucast (drop_bit 32 tid)"
    unfolding mk by (rule bit_word_eqI) (auto simp: bit_simps)
  also have "\<dots> = word_of_int i"
    unfolding assms(2) by (rule bit_word_eqI) (auto simp: bit_simps)
  finally show ?thesis using to_int32_id [of i] i by (simp add: to_int32_def)
qed

lemma tp_CancelTimer_ok:
  assumes ok: "tp_ok p" and n: "n \<in> pending p" and inj: "inj_on tn_id (pending p)"
  shows "\<exists>q. tp_CancelTimer (tn_id n) p = Some (0, q) \<and> tp_ok q \<and> pending q = pending p - {n}
    \<and> last_slot q = last_slot p \<and> tp_beg_time q = tp_beg_time p"
proof -
  let ?i = "slot p (tn_expire n)"
  have mem: "n \<in> set (nodes_at p ?i)" using n pending_iff [OF ok] by blast
  then have nf: "node_fits p ?i n" using ok by (auto simp: tp_ok_alt)
  have sv: "slot_valid ?i" using nf slot_valid_in_day by (auto simp: node_fits_def)
  obtain m where m: "tp_bucket p (?i div 10) (?i mod 10) = Some m" "nm_nodes m = nodes_at p ?i"
    using mem by (cases "tp_bucket p (?i div 10) (?i mod 10)") (auto simp: nodes_at_def)
  have i0: "0 \<le> ?i" using sv by (simp add: slot_valid_def)
  have h: "sint (ucast (drop_bit 32 (tn_id n) AND 0xFFFFFFFF) :: u32) = ?i"
    using nf by (intro high_slot [OF sv]) (simp add: node_fits_def)
  obtain xs y ys where e: "List.extract (\<lambda>x. tn_id x = tn_id n) (nm_nodes m) = Some (xs, y, ys)"
    using mem m(2) by (cases "List.extract (\<lambda>x. tn_id x = tn_id n) (nm_nodes m)")
      (auto simp: extract_None_iff)
  then have sp: "nodes_at p ?i = xs @ y # ys" "tn_id y = tn_id n"
    using m(2) by (auto simp: extract_Some_iff)
  have "y \<in> pending p" using sp(1) by (auto simp: pending_def) (metis in_set_conv_decomp)
  then have yn: "y = n" using inj n sp(2) by (metis inj_onD)
  let ?q = "tp_set (?i div 10) (?i mod 10)
      (if xs @ ys = [] then None else Some (m\<lparr>nm_nodes := xs @ ys\<rparr>)) p"
  have run: "tp_CancelTimer (tn_id n) p = Some (0, ?q)"
    using h e m bucket_valid_slot [OF sv, of p] i0
    by (simp add: tp_CancelTimer_def Let_def sdiv_nonneg smod_nonneg)
  have at: "sorted_wrt (<) (map tn_expire (nodes_at p ?i))" "\<forall>x \<in> set (nodes_at p ?i). node_fits p ?i x"
    using ok by (auto simp: tp_ok_alt)
  have q: "tp_ok ?q"
    using ok sv at sp(1) by (intro tp_ok_set) (auto simp: sorted_wrt_append split: if_splits)
  have "distinct (map tn_expire (nodes_at p ?i))"
    using at(1) by (simp add: strict_sorted_iff)
  then have "set (xs @ ys) = set (nodes_at p ?i) - {n}"
    using sp(1) yn by auto
  moreover have "set (nodes_at ?q ?i) = set (xs @ ys)" by (auto simp: nodes_at_set)
  ultimately have st: "set (nodes_at ?q ?i) = set (nodes_at p ?i) - {n}" by simp
  have "x \<in> pending ?q \<longleftrightarrow> x \<in> pending p - {n}" for x
  proof (cases "slot p (tn_expire x) = ?i")
    case True
    then have "x \<in> pending ?q \<longleftrightarrow> x \<in> set (nodes_at ?q ?i)" "x \<in> pending p \<longleftrightarrow> x \<in> set (nodes_at p ?i)"
      using pending_change [OF ok q, of ?i x] pending_iff [OF ok, of x] by (simp_all add: nodes_at_set)
    then show ?thesis using st by simp
  next
    case False
    then have "x \<noteq> n" by auto
    then show ?thesis using False pending_change [OF ok q, of ?i x] by (simp add: nodes_at_set)
  qed
  then have "pending ?q = pending p - {n}" by blast
  then show ?thesis using run q by simp
qed

subsection \<open>\<^verbatim>\<open>Update\<close> with callbacks that leave the pool alone\<close>

text \<open>A callback that leaves the pool alone is a function on the rest of the world.\<close>

definition quiet :: "('cb \<Rightarrow> 'w \<Rightarrow> 'w) \<Rightarrow> 'cb \<Rightarrow> 'cb timer_pool \<times> 'w \<Rightarrow> ('cb timer_pool \<times> 'w) option" where
  "quiet f cb pw = Some (fst pw, f cb (snd pw))"

lemma run_callbacks_quiet [simp]:
  "run_callbacks (quiet f) ns (p, w) = Some (p, fold (\<lambda>n. f (tn_cb n)) ns w)"
  by (induction ns arbitrary: w) (auto simp: quiet_def)

lemma nodes_at_Some:
  assumes "tp_ok p" "tp_bucket p (i div 10) (i mod 10) = Some m"
  shows "nm_nodes m = nodes_at p i" "nodes_at p i \<noteq> []"
proof -
  show "nm_nodes m = nodes_at p i" using assms by (simp add: nodes_at_def)
  moreover have "\<forall>b s. tp_bucket p b s \<noteq> None \<longrightarrow> nm_nodes (the (tp_bucket p b s)) \<noteq> []"
    using assms(1) by (simp add: tp_ok_def)
  then have "nm_nodes (the (tp_bucket p (i div 10) (i mod 10))) \<noteq> []"
    using assms(2) by fastforce
  ultimately show "nodes_at p i \<noteq> []" using assms by simp
qed

definition due_at :: "int \<Rightarrow> 'cb timer_pool \<Rightarrow> int \<Rightarrow> 'cb time_node list" where
  "due_at now p i = filter (\<lambda>n. tn_expire n \<le> now) (nodes_at p i)"

definition later_at :: "int \<Rightarrow> 'cb timer_pool \<Rightarrow> int \<Rightarrow> 'cb time_node list" where
  "later_at now p i = filter (\<lambda>n. \<not> tn_expire n \<le> now) (nodes_at p i)"

definition same_clock :: "'cb timer_pool \<Rightarrow> 'cb timer_pool \<Rightarrow> bool" where
  "same_clock p q \<longleftrightarrow> tp_days q = tp_days p \<and> tp_beg_time q = tp_beg_time p \<and> tp_big q = tp_big p
     \<and> tp_small q = tp_small p \<and> tp_cur_id q = tp_cur_id p"

lemma same_clock_refl [simp]: "same_clock p p"
  by (simp add: same_clock_def)

lemma same_clock_set [simp]: "same_clock p (tp_set b s m q) = same_clock p q"
  by (simp add: same_clock_def tp_set_def)

lemma tp_set_set: "tp_set b s m (tp_set b s k p) = tp_set b s m p"
  by (simp add: tp_set_def)

lemma tp_visit_quiet:
  assumes ok: "tp_ok p" and i: "slot_valid i"
  shows "\<exists>q. tp_visit (quiet f) now i (p, w)
      = Some (due_at now p i, q, fold (\<lambda>n. f (tn_cb n)) (due_at now p i) w) \<and> tp_ok q \<and> same_clock p q
    \<and> (\<forall>j. nodes_at q j = (if j = i then later_at now p i else nodes_at p j))"
proof -
  have i0: "0 \<le> i" using i by (simp add: slot_valid_def)
  have bi: "i sdiv 10 = i div 10" "i smod 10 = i mod 10"
    using i0 by (simp_all add: sdiv_nonneg smod_nonneg)
  have bv: "bucket_valid p (i div 10) (i mod 10)" by (rule bucket_valid_slot [OF i])
  show ?thesis
  proof (cases "tp_bucket p (i div 10) (i mod 10)")
    case None
    then have "nodes_at p i = []" by (simp add: nodes_at_def)
    then show ?thesis
      using None ok bi bv by (auto simp: tp_visit_def Let_def due_at_def later_at_def)
  next
    case (Some m)
    let ?m = "if later_at now p i = [] then None else Some (m\<lparr>nm_nodes := later_at now p i\<rparr>)"
    let ?q = "tp_set (i div 10) (i mod 10) ?m p"
    have nm: "nm_nodes m = nodes_at p i" by (rule nodes_at_Some [OF ok Some])
    have at: "sorted_wrt (<) (map tn_expire (nodes_at p i))" "\<forall>x \<in> set (nodes_at p i). node_fits p i x"
      using ok by (auto simp: tp_ok_alt)
    have "sorted_wrt (<) (map tn_expire (later_at now p i))" "set (later_at now p i) \<subseteq> set (nodes_at p i)"
      using at(1) by (auto simp: later_at_def sorted_wrt_filter sorted_wrt_map)
    then have "tp_ok ?q"
      using ok i at(2) by (intro tp_ok_set) (auto split: if_splits)
    moreover have "tp_visit (quiet f) now i (p, w)
        = Some (due_at now p i, ?q, fold (\<lambda>n. f (tn_cb n)) (due_at now p i) w)"
      using Some bi bv nm
      by (simp add: tp_visit_def Let_def due_at_def later_at_def tp_set_set)
    moreover have "\<forall>j. nodes_at ?q j = (if j = i then later_at now p i else nodes_at p j)"
      by (simp add: nodes_at_set)
    ultimately show ?thesis by auto
  qed
qed

lemma tp_visits_quiet:
  assumes "tp_ok p" "\<forall>i \<in> set is. slot_valid i" "distinct is"
  shows "\<exists>q. tp_visits (quiet f) now is (p, w) = Some (concat (map (due_at now p) is), q,
        fold (\<lambda>n. f (tn_cb n)) (concat (map (due_at now p) is)) w)
    \<and> tp_ok q \<and> same_clock p q
    \<and> (\<forall>j. nodes_at q j = (if j \<in> set is then later_at now p j else nodes_at p j))"
  using assms
proof (induction "is" arbitrary: p w)
  case Nil
  then show ?case by simp
next
  case (Cons i js)
  let ?w = "fold (\<lambda>n. f (tn_cb n)) (due_at now p i) w"
  obtain p1 where p1: "tp_visit (quiet f) now i (p, w) = Some (due_at now p i, p1, ?w)" "tp_ok p1"
      "same_clock p p1" "\<And>j. nodes_at p1 j = (if j = i then later_at now p i else nodes_at p j)"
    using tp_visit_quiet [of p i f now w] Cons.prems by auto
  obtain q where q: "tp_visits (quiet f) now js (p1, ?w) = Some (concat (map (due_at now p1) js), q,
        fold (\<lambda>n. f (tn_cb n)) (concat (map (due_at now p1) js)) ?w)"
      "tp_ok q" "same_clock p1 q"
      "\<And>j. nodes_at q j = (if j \<in> set js then later_at now p1 j else nodes_at p1 j)"
    using Cons.IH [OF p1(2), of ?w] Cons.prems by auto
  have "map (due_at now p1) js = map (due_at now p) js"
    using p1(4) Cons.prems(3) by (intro map_cong) (auto simp: due_at_def)
  moreover have "nodes_at q j = (if j \<in> set (i # js) then later_at now p j else nodes_at p j)" for j
    using q(4) p1(4) Cons.prems(3) by (auto simp: later_at_def)
  moreover have "same_clock p q" using p1(3) q(3) by (simp add: same_clock_def)
  ultimately show ?case using p1(1) q(1,2) by (intro exI [of _ q]) (simp del: map_eq_conv)
qed

lemma sorted_visits:
  assumes ok: "tp_ok p" and s: "sorted_wrt (<) is"
  shows "sorted_wrt (<) (map tn_expire (concat (map (due_at now p) is)))"
  using s
proof (induction "is")
  case Nil
  then show ?case by simp
next
  case (Cons i js)
  have "sorted_wrt (<) (map tn_expire (due_at now p i))"
    using ok by (simp add: tp_ok_alt due_at_def sorted_wrt_filter sorted_wrt_map)
  moreover have "tn_expire x < tn_expire y" if "x \<in> set (due_at now p i)" "y \<in> set (due_at now p j)" "j \<in> set js"
    for x y j
  proof (rule ccontr)
    assume "\<not> tn_expire x < tn_expire y"
    then have "slot p (tn_expire y) \<le> slot p (tn_expire x)" by (intro slot_mono) simp
    moreover have "slot p (tn_expire x) = i" "slot p (tn_expire y) = j"
      using ok that by (auto simp: tp_ok_def due_at_def)
    ultimately show False using Cons.prems that(3) by auto
  qed
  ultimately show ?case using Cons by (auto simp: sorted_wrt_append)
qed

lemma tp_ok_move:
  assumes "tp_ok p" "0 \<le> b * 10 + s" "\<forall>n \<in> pending p. b * 10 + s \<le> slot p (tn_expire n)"
  shows "tp_ok (p\<lparr>tp_big := b, tp_small := s\<rparr>)"
proof -
  have "nodes_at (p\<lparr>tp_big := b, tp_small := s\<rparr>) = nodes_at p" "slot (p\<lparr>tp_big := b, tp_small := s\<rparr>) = slot p"
    "in_day (p\<lparr>tp_big := b, tp_small := s\<rparr>) = in_day p"
    "bucket_valid (p\<lparr>tp_big := b, tp_small := s\<rparr>) = bucket_valid p"
    by (auto simp: nodes_at_def slot_def in_day_def bucket_valid_def fun_eq_iff)
  then show ?thesis
    using assms unfolding tp_ok_def by (auto simp: last_slot_def pending_def)
qed

lemma pending_move [simp]: "pending (p\<lparr>tp_big := b, tp_small := s\<rparr>) = pending p"
  by (simp add: pending_def nodes_at_def)

subsection \<open>Properties\<close>

text \<open>C39: adding a timer inside the day stores exactly one node, under a nonzero id, with the
  requested expiry, unless a pending timer already expires in the same millisecond:
  then the id is returned but nothing is stored, and the callback will never run.\<close>

theorem timer_add:
  assumes "tp_ok p" "0 < interval" "interval \<le> day_ms" "in_day p (now + interval)"
    and "last_slot p \<le> slot p now" "tp_cur_id p \<noteq> 0"
  shows "\<exists>tid q. tp_AddTimer now interval cb p = Some (tid, q) \<and> tid \<noteq> 0 \<and> tp_ok q
    \<and> (if \<exists>n \<in> pending p. tn_expire n = now + interval then pending q = pending p
       else pending q = insert \<lparr>tn_id = tid, tn_expire = now + interval, tn_cb = cb\<rparr> (pending p))"
proof -
  have "tp_next_id p \<noteq> 0" using assms(6) by (simp add: tp_next_id_def)
  then have "timer_id_for (slot p (now + interval)) (tp_next_id p) \<noteq> 0"
    using timer_id_high(2) slot_valid_in_day assms(4) by blast
  moreover have "now + interval \<in> tn_expire ` pending p \<longleftrightarrow> (\<exists>n \<in> pending p. tn_expire n = now + interval)"
    by force
  moreover obtain q where "tp_AddTimer now interval cb p
      = Some (timer_id_for (slot p (now + interval)) (tp_next_id p), q)" "tp_ok q"
    "pending q = (if now + interval \<in> tn_expire ` pending p then pending p
       else insert \<lparr>tn_id = timer_id_for (slot p (now + interval)) (tp_next_id p),
          tn_expire = now + interval, tn_cb = cb\<rparr> (pending p))"
    using tp_AddTimer_ok [OF assms(1-5), of cb] by auto
  ultimately show ?thesis by (intro exI [of _ q] exI conjI) (assumption | simp)+
qed

theorem timer_add_witness:
  "\<exists>tid q. tp_AddTimer 100 500 True (tp_new 1 0) = Some (tid, q) \<and> tid \<noteq> 0 \<and> tp_ok q
     \<and> pending q = {\<lparr>tn_id = tid, tn_expire = 600, tn_cb = True\<rparr>}"
proof -
  let ?p = "tp_new 1 0 :: bool timer_pool"
  have "tp_ok ?p" "pending ?p = {}" "tp_cur_id ?p \<noteq> 0" "in_day ?p (100 + 500)" "last_slot ?p \<le> slot ?p 100"
    by (simp_all add: tp_ok_def tp_new_def pending_def nodes_at_def last_slot_def in_day_def day_ms_def slot_def)
  then show ?thesis
    using timer_add [of ?p 500 100 True] by (simp add: day_ms_def)
qed

text \<open>C15: \<^verbatim>\<open>Update\<close> within the day really runs the callbacks of exactly the pending timers whose
  time has come, none early and none missed, each once and in the order of their expiry
  (the world after it is the world before it with those callbacks applied in that order,
  whatever they do to it, as long as they leave the pool alone), removes these timers and
  keeps all others.\<close>

theorem timer_update_exact:
  assumes ok: "tp_ok p" and now: "in_day p now" and l: "last_slot p \<le> slot p now"
  shows "\<exists>fired q. tp_Update (\<lambda>cb pw. Some (fst pw, f cb (snd pw))) now (p, w)
        = Some (fired, q, fold f (map tn_cb fired) w)
    \<and> set fired = {n \<in> pending p. tn_expire n \<le> now}
    \<and> sorted_wrt (<) (map tn_expire fired)
    \<and> pending q = {n \<in> pending p. now < tn_expire n} \<and> tp_ok q"
proof -
  let ?is = "[last_slot p .. slot p now]"
  have sv: "\<forall>i \<in> set ?is. slot_valid i"
    using slot_valid_in_day [OF now] ok by (auto simp: slot_valid_def tp_ok_def)
  let ?w = "fold (\<lambda>n. f (tn_cb n)) (concat (map (due_at now p) ?is)) w"
  obtain q where q: "tp_visits (quiet f) now ?is (p, w) = Some (concat (map (due_at now p) ?is), q, ?w)"
      "tp_ok q" "same_clock p q"
      "\<And>j. nodes_at q j = (if j \<in> set ?is then later_at now p j else nodes_at p j)"
    using tp_visits_quiet [OF ok sv, of f now w] by auto
  let ?q = "q\<lparr>tp_big := slot p now div 10, tp_small := slot p now mod 10\<rparr>"
  have days: "tp_days p = 1" using ok by (simp add: tp_ok_def)
  have cb: "tp_CalcBucket p now 0 = Some (slot p now div 10, slot p now mod 10)"
    using CalcBucket_day [OF days, of now 0] now by simp
  have quiet: "quiet f = (\<lambda>cb pw. Some (fst pw, f cb (snd pw)))" by (simp add: quiet_def fun_eq_iff)
  have run: "tp_Update (\<lambda>cb pw. Some (fst pw, f cb (snd pw))) now (p, w) = Some (concat (map (due_at now p) ?is), ?q,
      fold f (map tn_cb (concat (map (due_at now p) ?is))) w)"
    using q(1) unfolding quiet by (simp add: tp_Update_def cb last_slot_def fold_map comp_def)
  have fits: "n \<in> set (nodes_at p i) \<Longrightarrow> slot p (tn_expire n) = i \<and> last_slot p \<le> i" for n i
    using ok by (simp add: tp_ok_def)
  have out: "now < tn_expire n" if "n \<in> set (nodes_at p i)" "i \<notin> set ?is" for n i
  proof (rule ccontr)
    assume "\<not> now < tn_expire n"
    then have "slot p (tn_expire n) \<le> slot p now" by (intro slot_mono) simp
    then show False using fits [OF that(1)] that(2) by simp
  qed
  have "set (concat (map (due_at now p) ?is)) = {n \<in> pending p. tn_expire n \<le> now}"
    using out by (fastforce simp: due_at_def pending_def)
  moreover have pq: "pending q = {n \<in> pending p. now < tn_expire n}"
    using out unfolding pending_def q(4) by (auto simp: later_at_def split: if_splits)
  moreover have "tp_ok ?q"
  proof (rule tp_ok_move [OF q(2)])
    show "0 \<le> slot p now div 10 * 10 + slot p now mod 10"
      using slot_valid_in_day [OF now] by (simp add: slot_valid_def)
    have "slot q = slot p" using q(3) by (simp add: same_clock_def slot_def fun_eq_iff)
    then show "\<forall>n \<in> pending q. slot p now div 10 * 10 + slot p now mod 10 \<le> slot q (tn_expire n)"
      using pq slot_mono [of now _ p] by auto
  qed
  moreover have "sorted_wrt (<) (map tn_expire (concat (map (due_at now p) ?is)))"
    by (rule sorted_visits [OF ok]) (simp add: sorted_wrt_upto)
  ultimately show ?thesis using run by (intro exI conjI) (assumption | simp)+
qed

lemma timer_600:
  "\<exists>tid q. tp_AddTimer 100 500 True (tp_new 1 0) = Some (tid, q) \<and> tp_ok q
     \<and> pending q = {\<lparr>tn_id = tid, tn_expire = 600, tn_cb = True\<rparr>}
     \<and> last_slot q = 0 \<and> tp_beg_time q = 0"
proof -
  let ?p = "tp_new 1 0 :: bool timer_pool"
  have "tp_ok ?p" "pending ?p = {}" "in_day ?p (100 + 500)" "last_slot ?p \<le> slot ?p 100"
    "last_slot ?p = 0" "tp_beg_time ?p = 0"
    by (simp_all add: tp_ok_def tp_new_def pending_def nodes_at_def last_slot_def in_day_def day_ms_def slot_def)
  then show ?thesis
    using tp_AddTimer_ok [of ?p 500 100 True] by (auto simp: day_ms_def)
qed

theorem timer_update_exact_witness:
  "\<exists>tid p fired q. tp_AddTimer 100 500 True (tp_new 1 0) = Some (tid, p)
     \<and> tp_Update (\<lambda>cb pw. Some (fst pw, snd pw @ [cb])) 750 (p, []) = Some (fired, q, [True])
     \<and> fired = [\<lparr>tn_id = tid, tn_expire = 600, tn_cb = True\<rparr>] \<and> pending q = {}"
proof -
  obtain tid p where p: "tp_AddTimer 100 500 True (tp_new 1 0) = Some (tid, p)" "tp_ok p"
      "pending p = {\<lparr>tn_id = tid, tn_expire = 600, tn_cb = True\<rparr>}" "last_slot p = 0" "tp_beg_time p = 0"
    using timer_600 by auto
  have "in_day p 750" "last_slot p \<le> slot p 750"
    using p(4,5) by (simp_all add: in_day_def day_ms_def slot_def)
  then obtain fired q where u: "tp_Update (\<lambda>cb pw. Some (fst pw, snd pw @ [cb])) 750 (p, [])
        = Some (fired, q, fold (\<lambda>cb w. w @ [cb]) (map tn_cb fired) [])"
      "set fired = {n \<in> pending p. tn_expire n \<le> 750}" "sorted_wrt (<) (map tn_expire fired)"
      "pending q = {n \<in> pending p. 750 < tn_expire n}"
    using timer_update_exact [OF p(2), of 750 "\<lambda>cb w. w @ [cb]" "[]"] by blast
  let ?n = "\<lparr>tn_id = tid, tn_expire = 600, tn_cb = True\<rparr>"
  have s: "set fired = {?n}" "pending q = {}"
    unfolding u(2,4) p(3) by auto
  have "distinct fired" using u(3) by (simp add: strict_sorted_iff distinct_map)
  then have "length fired = 1" using distinct_card [of fired] s(1) by simp
  then have "fired = [?n]" using s(1) by (cases fired) auto
  then show ?thesis using p(1) u(1) s(2) by auto
qed

text \<open>Cancelling a pending timer by its id removes that timer and no other.\<close>

theorem timer_cancel:
  assumes "tp_ok p" "n \<in> pending p" "inj_on tn_id (pending p)"
  shows "\<exists>q. tp_CancelTimer (tn_id n) p = Some (0, q) \<and> tp_ok q \<and> pending q = pending p - {n}"
  using tp_CancelTimer_ok [OF assms] by auto

theorem timer_cancel_witness:
  "\<exists>tid p q. tp_AddTimer 100 500 True (tp_new 1 0) = Some (tid, p)
     \<and> tp_CancelTimer tid p = Some (0, q) \<and> pending q = {}"
proof -
  obtain tid p where p: "tp_AddTimer 100 500 True (tp_new 1 0) = Some (tid, p)" "tp_ok p"
      "pending p = {\<lparr>tn_id = tid, tn_expire = 600, tn_cb = True\<rparr>}"
    using timer_600 by auto
  then show ?thesis
    using timer_cancel [OF p(2), of "\<lparr>tn_id = tid, tn_expire = 600, tn_cb = True\<rparr>"] by auto
qed

lemma CalcBucket_later:
  assumes "tp_days p = 1" "0 \<le> now - tp_beg_time p" "now - tp_beg_time p < 2 ^ 31"
  shows "\<exists>b s. tp_CalcBucket p now 0 = Some (b, s) \<and> b * 10 + s = slot p now mod 864000"
proof -
  let ?d = "now - tp_beg_time p"
  have t: "to_int32 ?d = ?d" using assms by (intro to_int32_id) simp_all
  have q: "?d sdiv 1000 = ?d div 1000" "?d smod 1000 = ?d mod 1000"
    "(?d div 1000) smod 86400 = ?d div 1000 mod 86400"
    "(?d mod 1000) sdiv 100 smod 10 = ?d mod 1000 div 100 mod 10"
    using assms by (simp_all add: sdiv_nonneg smod_nonneg pos_imp_zdiv_nonneg_iff)
  have "?d div 100 mod (10 * 86400) = 10 * (?d div 100 div 10 mod 86400) + ?d div 100 mod 10"
    by (rule zmod_zmult2_eq) simp
  then have "?d div 1000 mod 86400 * 10 + ?d mod 1000 div 100 mod 10 = slot p now mod 864000"
    by (simp add: ms_split slot_def)
  then show ?thesis
    using assms(1) t q by (simp add: tp_CalcBucket_def Let_def big_bucket_cnt_def)
qed

text \<open>The wheel does not carry over the end of the day.  When the bucket of the current time
  lies before the bucket of the last update, \<^verbatim>\<open>Update\<close> looks at no bucket at all: it runs
  no callback although timers are due, and moves on past them.\<close>

theorem timer_wrap_missed:
  assumes "tp_days p = 1" "0 \<le> now - tp_beg_time p" "now - tp_beg_time p < 2 ^ 31"
    and "slot p now mod 864000 < last_slot p"
  shows "\<exists>q. tp_Update run now (p, w) = Some ([], q, w) \<and> pending q = pending p
    \<and> last_slot q = slot p now mod 864000"
proof -
  obtain b s where b: "tp_CalcBucket p now 0 = Some (b, s)" "b * 10 + s = slot p now mod 864000"
    using CalcBucket_later [OF assms(1-3)] by blast
  then have "[tp_big p * 10 + tp_small p .. b * 10 + s] = []"
    using assms(4) by (simp add: last_slot_def)
  then show ?thesis using b by (simp add: tp_Update_def last_slot_def)
qed

theorem timer_wrap_missed_witness:
  "\<exists>tid p q. tp_AddTimer 86399000 500 True ((tp_new 1 0)\<lparr>tp_big := 86399\<rparr>) = Some (tid, p)
     \<and> pending p = {\<lparr>tn_id = tid, tn_expire = 86399500, tn_cb = True\<rparr>}
     \<and> tp_Update (\<lambda>_ pw. Some pw) 86400100 (p, ()) = Some ([], q, ()) \<and> pending q = pending p"
proof -
  let ?p = "(tp_new 1 0)\<lparr>tp_big := 86399\<rparr> :: bool timer_pool"
  have "tp_ok ?p" "pending ?p = {}" "in_day ?p (86399000 + 500)" "last_slot ?p \<le> slot ?p 86399000"
    "last_slot ?p = 863990" "tp_beg_time ?p = 0"
    by (simp_all add: tp_ok_def tp_new_def pending_def nodes_at_def last_slot_def in_day_def day_ms_def slot_def)
  then obtain tid p where p: "tp_AddTimer 86399000 500 True ?p = Some (tid, p)" "tp_ok p"
      "pending p = {\<lparr>tn_id = tid, tn_expire = 86399500, tn_cb = True\<rparr>}" "last_slot p = 863990" "tp_beg_time p = 0"
    using tp_AddTimer_ok [of ?p 500 86399000 True] by (auto simp: day_ms_def)
  have "slot p 86400100 mod 864000 < last_slot p" "tp_days p = 1"
    using p by (simp_all add: slot_def tp_ok_def)
  then show ?thesis
    using timer_wrap_missed [of p 86400100 "\<lambda>_ pw. Some pw" "()"] p by fastforce
qed

lemma to_int32_wrap: "\<lbrakk>2 ^ 31 \<le> x; x < 2 ^ 32\<rbrakk> \<Longrightarrow> to_int32 x = x - 2 ^ 32"
proof -
  assume x: "2 ^ 31 \<le> x" "x < 2 ^ 32"
  have "(word_of_int x :: u32) = word_of_int (x - 2 ^ 32)"
    by (rule word_of_int_eq_iff [THEN iffD2]) (simp add: take_bit_eq_mod)
  then have "to_int32 x = to_int32 (x - 2 ^ 32)" by (simp only: to_int32_def)
  also have "\<dots> = x - 2 ^ 32" using x by (intro to_int32_id) simp_all
  finally show ?thesis .
qed

text \<open>Milliseconds since the start are narrowed to \<^verbatim>\<open>int\<close>.  From 2^31 milliseconds (24.8 days)
  on, the bucket index of a new timer is negative except at whole days, and
  \<^verbatim>\<open>AddTimer\<close> leaves the bucket array.\<close>

theorem timer_int_overflow:
  assumes d_def: "d = now + interval - tp_beg_time p"
    and "tp_days p = 1" "0 < interval" "interval \<le> day_ms"
    and "2 ^ 31 \<le> d" "d < 2 ^ 32" "((2 ^ 32 - d) div 1000) mod 86400 \<noteq> 0"
  shows "tp_AddTimer now interval cb p = None"
proof -
  have dd: "now - tp_beg_time p + interval = d" by (simp add: d_def)
  let ?e = "2 ^ 32 - d"
  have t: "to_int32 d = - ?e" "0 < ?e" using assms(5,6) to_int32_wrap by simp_all
  have "(- ?e) sdiv 1000 = - (?e div 1000)"
    using t(2) by (simp add: signed_divide_int_def sgn_if)
  moreover have "0 < ?e div 1000"
    using assms(6,7) t(2) by (smt (verit) mod_0 pos_imp_zdiv_nonneg_iff)
  then have "(- (?e div 1000)) smod 86400 = - (?e div 1000 mod 86400)"
    by (simp add: signed_modulo_int_def sgn_if)
  ultimately have "to_int32 d sdiv 1000 smod 86400 < 0"
    using assms(7) t(1) pos_mod_sign [of 86400 "?e div 1000"] by (simp del: pos_mod_sign)
  then show ?thesis
    using assms(2-4) by (simp add: tp_AddTimer_def tp_CalcBucket_def dd Let_def big_bucket_cnt_def
        bucket_valid_def day_ms_def)
qed

theorem timer_int_overflow_witness:
  "tp_AddTimer (2 ^ 31) 1000 True (tp_new 1 0) = None"
  using timer_int_overflow [where d = "2 ^ 31 + 1000" and now = "2 ^ 31" and interval = 1000
      and p = "tp_new 1 0" and cb = True]
  by (simp add: tp_new_def day_ms_def)

end
