(* ===== verification/Coroutines.thy ===== *)
theory Coroutines
  imports Interfaces
begin

text \<open>
  The stackful coroutines of \<^verbatim>\<open>slience/coroutine/coroutine.{h,cpp}\<close> and
  \<^verbatim>\<open>coroutine_linux.cpp\<close>, and the task layer of \<^verbatim>\<open>courtouine_task.{h,cpp}\<close> on top of
  them.  The code a coroutine runs is the application's: a continuation of type
  \<^verbatim>\<open>'k\<close> and the function \<^verbatim>\<open>run\<close> that runs it on the world \<^verbatim>\<open>'w\<close> up to its next \<^verbatim>\<open>yield\<close>
  (with the continuation that is left) or to its end.  The saved stack of a
  suspended coroutine is that continuation.  All state is thread local in the
  code: a value of \<^verbatim>\<open>'k cos\<close> is the state of one thread.
\<close>

datatype co_status = COROUTINE_READY | COROUTINE_RUNNING | COROUTINE_SUSPEND | COROUTINE_DEAD

definition DEFAULT_COROUTINE :: int where "DEFAULT_COROUTINE = 1024"
definition M_MAIN_COROUTINE_ID :: int where "M_MAIN_COROUTINE_ID = 0"
definition M_MAX_RESERVE_COROUTINE :: nat where "M_MAX_RESERVE_COROUTINE = 20"
definition M_MAX_RESERVE_TASK :: nat where "M_MAX_RESERVE_TASK = 1024"

text \<open>Where a coroutine of the task layer stands: at the head of the loop of
  \<^verbatim>\<open>_co_task_func_\<close> for a wrapper, or inside its task.\<close>

datatype 'k co_cont = AtLoop nat | InTask nat 'k

record 'k coroutine =
  c_id :: int
  c_status :: co_status
  c_cont :: "'k co_cont"

record 'k co_wrapper =
  w_co_id :: int
  w_task :: "'k option"

record 'k cos =
  s_cap :: int
  s_nco :: int
  s_co :: "int \<Rightarrow> 'k coroutine option"
  s_cur :: "int option"
  s_freeid :: "int list"
  ct_wrapper :: "nat \<Rightarrow> 'k co_wrapper option"
  ct_next_wrapper :: nat
  ct_freeco :: "nat list"
  ct_all :: "nat list"
  ct_freetask :: nat
  ct_work :: "'k list"
  ct_resume :: "int \<Rightarrow> int list option"
  ct_dangling :: "int \<Rightarrow> bool"

definition cos_new :: "'k cos" where
  "cos_new = \<lparr>s_cap = 0, s_nco = 0, s_co = (\<lambda>_. None), s_cur = None, s_freeid = [],
     ct_wrapper = (\<lambda>_. None), ct_next_wrapper = 0, ct_freeco = [], ct_all = [], ct_freetask = 0,
     ct_work = [], ct_resume = (\<lambda>_. None), ct_dangling = (\<lambda>_. False)\<rparr>"

subsection \<open>\<^verbatim>\<open>Coroutine\<close>\<close>

definition co_curid :: "'k cos \<Rightarrow> int" where
  "co_curid s = (case s_cur s of Some i \<Rightarrow> i | None \<Rightarrow> M_MAIN_COROUTINE_ID)"

definition co_alloc_schedule :: "'k cos \<Rightarrow> 'k cos" where
  "co_alloc_schedule s =
     (if s_cap s = 0 then
        s\<lparr>s_nco := 0, s_cap := DEFAULT_COROUTINE, s_cur := None, s_co := (\<lambda>_. None), s_freeid := []\<rparr>
      else if s_nco s < s_cap s then s
      else s\<lparr>s_cap := s_cap s * 2\<rparr>)"

text \<open>Slot \<^term>\<open>i\<close> of the model is the array element \<^verbatim>\<open>_co[i - 1]\<close>; the free ids are a stack
  with its top at the head.\<close>

definition co_alloc :: "'k co_cont \<Rightarrow> 'k cos \<Rightarrow> int \<times> 'k cos" where
  "co_alloc k s =
     (case s_freeid s of
        i # ids \<Rightarrow> (i, s\<lparr>s_freeid := ids,
            s_co := (s_co s)(i := Some \<lparr>c_id = i, c_status = COROUTINE_READY, c_cont = k\<rparr>)\<rparr>)
      | [] \<Rightarrow>
          let s1 = (if s_nco s = s_cap s then co_alloc_schedule s else s);
              i = s_nco s1 + 1
          in (i, s1\<lparr>s_nco := i,
                    s_co := (s_co s1)(i := Some \<lparr>c_id = i, c_status = COROUTINE_READY, c_cont = k\<rparr>)\<rparr>))"

definition co_create :: "'k co_cont \<Rightarrow> 'k cos \<Rightarrow> int \<times> 'k cos" where
  "co_create k s = co_alloc k s"

definition co_check_id :: "'k cos \<Rightarrow> int \<Rightarrow> bool" where
  "co_check_id s i =
     (if i \<le> M_MAIN_COROUTINE_ID then False else if i > s_cap s then False else True)"

definition co_check_resume :: "'k cos \<Rightarrow> int \<Rightarrow> bool" where
  "co_check_resume s i = (if s_cur s \<noteq> None then False else co_check_id s i)"

definition co_close :: "'k cos \<Rightarrow> bool \<times> 'k cos" where
  "co_close s =
     (if s_cur s \<noteq> None then (False, s)
      else (True, s\<lparr>s_cap := 0, s_nco := 0, s_cur := None, s_co := (\<lambda>_. None), s_freeid := []\<rparr>))"

definition co_destroy :: "int \<Rightarrow> 'k cos \<Rightarrow> bool \<times> 'k cos" where
  "co_destroy i s =
     (if s_cur s = Some i then (False, s)
      else if \<not> co_check_id s i then (False, s)
      else case s_co s i of
          None \<Rightarrow> (True, s)
        | Some _ \<Rightarrow> (True, s\<lparr>s_co := (s_co s)(i := None), s_freeid := i # s_freeid s\<rparr>))"

text \<open>\<^verbatim>\<open>_recycle_free_task_\<close> and the part of \<^verbatim>\<open>_co_task_func_\<close> after a task has returned:
  \<^term>\<open>None\<close> when the coroutine function returns, else where it yields.\<close>

definition ct_recycle_task :: "'k cos \<Rightarrow> 'k cos" where
  "ct_recycle_task s =
     (if ct_freetask s \<ge> M_MAX_RESERVE_TASK then s else s\<lparr>ct_freetask := ct_freetask s + 1\<rparr>)"

definition ct_leave :: "nat \<Rightarrow> 'k cos \<Rightarrow> 'k cos" where
  "ct_leave a s = s\<lparr>ct_all := remove1 a (ct_all s), ct_wrapper := (ct_wrapper s)(a := None)\<rparr>"

definition ct_after_task :: "nat \<Rightarrow> 'k cos \<Rightarrow> 'k co_cont option \<times> 'k cos" where
  "ct_after_task a s0 =
     (let s = ct_recycle_task s0 in
      if length (ct_all s) \<ge> M_MAX_RESERVE_COROUTINE then (None, ct_leave a s)
      else (Some (AtLoop a),
            s\<lparr>ct_wrapper := (ct_wrapper s)(a := map_option (\<lambda>w. w\<lparr>w_task := None\<rparr>) (ct_wrapper s a)),
              ct_freeco := a # ct_freeco s\<rparr>))"

text \<open>The loop of \<^verbatim>\<open>_co_task_func_\<close>, from where the coroutine stands to its next \<^verbatim>\<open>yield\<close>.\<close>

definition ct_run_task :: "('k, 'w) slice \<Rightarrow> int \<Rightarrow> nat \<Rightarrow> 'k \<Rightarrow> 'k cos \<times> 'w
    \<Rightarrow> ('k co_cont option \<times> 'k cos \<times> 'w) mem" where
  "ct_run_task run i a k sw =
     map_option (\<lambda>(w, r). case r of
         Some k2 \<Rightarrow> (Some (InTask a k2), fst sw, w)
       | None \<Rightarrow> (case ct_after_task a (fst sw) of (c, s) \<Rightarrow> (c, s, w))) (run i k (snd sw))"

definition ct_body :: "('k, 'w) slice \<Rightarrow> int \<Rightarrow> 'k co_cont \<Rightarrow> 'k cos \<times> 'w
    \<Rightarrow> ('k co_cont option \<times> 'k cos \<times> 'w) mem" where
  "ct_body run i c sw =
     (case c of
        InTask a k \<Rightarrow> ct_run_task run i a k sw
      | AtLoop a \<Rightarrow>
          (case ct_wrapper (fst sw) a of
             None \<Rightarrow> None
           | Some wr \<Rightarrow>
               (case w_task wr of
                  None \<Rightarrow> Some (None, ct_leave a (fst sw), snd sw)
                | Some k \<Rightarrow> ct_run_task run i a k sw)))"

text \<open>\<^verbatim>\<open>resume\<close> switches to the coroutine, which ends dead or suspended.\<close>

definition co_resume :: "('k, 'w) slice \<Rightarrow> int \<Rightarrow> 'k cos \<times> 'w \<Rightarrow> ('k cos \<times> 'w) mem" where
  "co_resume run i sw =
     (let s = fst sw in
      if \<not> co_check_resume s i then Some sw
      else case s_co s i of
          None \<Rightarrow> Some sw
        | Some co \<Rightarrow>
            if c_status co = COROUTINE_SUSPEND \<or> c_status co = COROUTINE_READY then
              map_option (\<lambda>(r, s2, w2).
                case r of
                  None \<Rightarrow> (s2\<lparr>s_co := (s_co s2)(i := None), s_freeid := i # s_freeid s2, s_cur := None\<rparr>, w2)
                | Some c \<Rightarrow> (s2\<lparr>s_co := (s_co s2)(i := Some (co\<lparr>c_status := COROUTINE_SUSPEND, c_cont := c\<rparr>)),
                               s_cur := None\<rparr>, w2))
                (ct_body run i (c_cont co)
                   (s\<lparr>s_co := (s_co s)(i := Some (co\<lparr>c_status := COROUTINE_RUNNING\<rparr>)), s_cur := Some i\<rparr>, snd sw))
            else Some sw)"

subsection \<open>\<^verbatim>\<open>CoroutineTask\<close>\<close>

definition ct_get_free_task :: "'k cos \<Rightarrow> 'k cos" where
  "ct_get_free_task s = s\<lparr>ct_freetask := ct_freetask s - 1\<rparr>"

definition ct_addTask :: "'k \<Rightarrow> 'k cos \<Rightarrow> 'k cos" where
  "ct_addTask k s = (let s1 = ct_get_free_task s in s1\<lparr>ct_work := ct_work s1 @ [k]\<rparr>)"

definition ct_get_wrapper :: "'k cos \<Rightarrow> nat \<times> 'k cos" where
  "ct_get_wrapper s =
     (case ct_freeco s of
        a # as \<Rightarrow> (a, s\<lparr>ct_freeco := as,
             ct_wrapper := (ct_wrapper s)(a := map_option (\<lambda>w. w\<lparr>w_task := None\<rparr>) (ct_wrapper s a))\<rparr>)
      | [] \<Rightarrow>
          let a = ct_next_wrapper s;
              r = co_create (AtLoop a) (s\<lparr>ct_next_wrapper := a + 1\<rparr>)
          in (a, (snd r)\<lparr>ct_wrapper := (ct_wrapper (snd r))(a := Some \<lparr>w_co_id = fst r, w_task = None\<rparr>),
                         ct_all := a # ct_all (snd r)\<rparr>))"

text \<open>Give a wrapper the task and switch to its coroutine.\<close>

definition ct_start :: "('k, 'w) slice \<Rightarrow> 'k \<Rightarrow> 'k cos \<times> 'w \<Rightarrow> ('k cos \<times> 'w) mem" where
  "ct_start run k sw =
     (case ct_get_wrapper (fst sw) of (a, s) \<Rightarrow>
        (case ct_wrapper s a of
           None \<Rightarrow> None
         | Some wr \<Rightarrow>
             co_resume run (w_co_id wr)
               (s\<lparr>ct_wrapper := (ct_wrapper s)(a := Some (wr\<lparr>w_task := Some k\<rparr>))\<rparr>, snd sw)))"

definition ct_doTask :: "('k, 'w) slice \<Rightarrow> 'k \<Rightarrow> 'k cos \<times> 'w \<Rightarrow> ('k cos \<times> 'w) mem" where
  "ct_doTask run k sw =
     (if co_curid (fst sw) = M_MAIN_COROUTINE_ID
      then ct_start run k (ct_get_free_task (fst sw), snd sw)
      else Some sw)"

definition ct_doWork :: "('k, 'w) slice \<Rightarrow> 'k cos \<times> 'w \<Rightarrow> (bool \<times> 'k cos \<times> 'w) mem" where
  "ct_doWork run sw =
     (if co_curid (fst sw) = M_MAIN_COROUTINE_ID then
        (case ct_work (fst sw) of
           [] \<Rightarrow> Some (False, sw)
         | k # ks \<Rightarrow> map_option (Pair True) (ct_start run k ((fst sw)\<lparr>ct_work := ks\<rparr>, snd sw)))
      else Some (False, sw))"

definition ct_resumeTask :: "('k, 'w) slice \<Rightarrow> int \<Rightarrow> 'k cos \<times> 'w \<Rightarrow> ('k cos \<times> 'w) mem" where
  "ct_resumeTask run i sw =
     (if co_curid (fst sw) = M_MAIN_COROUTINE_ID then co_resume run i sw else Some sw)"

text \<open>The resume list of a thread is a linked list.  \<^verbatim>\<open>clear\<close> leaves its tail pointer on a
  freed node when it was not empty (\<^term>\<open>ct_dangling\<close>), and the next \<^verbatim>\<open>push_back\<close>
  follows it.\<close>

definition ct_addResume :: "int \<Rightarrow> int \<Rightarrow> 'k cos \<Rightarrow> 'k cos mem" where
  "ct_addResume thr i s =
     (case ct_resume s thr of
        None \<Rightarrow> Some (s\<lparr>ct_resume := (ct_resume s)(thr := Some [i])\<rparr>)
      | Some l \<Rightarrow> if ct_dangling s thr then None
                  else Some (s\<lparr>ct_resume := (ct_resume s)(thr := Some (l @ [i]))\<rparr>))"

primrec co_resume_all :: "('k, 'w) slice \<Rightarrow> int list \<Rightarrow> 'k cos \<times> 'w \<Rightarrow> ('k cos \<times> 'w) mem" where
  "co_resume_all run [] sw = Some sw"
| "co_resume_all run (i # is) sw = Option.bind (co_resume run i sw) (co_resume_all run is)"

definition ct_resumeTasks :: "('k, 'w) slice \<Rightarrow> int \<Rightarrow> 'k cos \<times> 'w \<Rightarrow> ('k cos \<times> 'w) mem" where
  "ct_resumeTasks run thr sw =
     (let s = fst sw in
      if co_curid s \<noteq> M_MAIN_COROUTINE_ID then Some sw
      else case ct_resume s thr of
          None \<Rightarrow> Some sw
        | Some l \<Rightarrow> co_resume_all run l (s\<lparr>ct_resume := (ct_resume s)(thr := Some []), ct_dangling := (ct_dangling s)(thr := False)\<rparr>, snd sw))"

primrec co_destroy_all :: "int list \<Rightarrow> 'k cos \<Rightarrow> 'k cos" where
  "co_destroy_all [] s = s"
| "co_destroy_all (i # is) s = co_destroy_all is (snd (co_destroy i s))"

text \<open>\<^verbatim>\<open>clrTask\<close>: the set of all wrappers is emptied, the stack of idle wrappers is not.\<close>

definition ct_clrTask :: "int \<Rightarrow> 'k cos \<Rightarrow> 'k cos" where
  "ct_clrTask thr s =
     (if co_curid s \<noteq> M_MAIN_COROUTINE_ID then s
      else
        let s1 = co_destroy_all (map (\<lambda>a. w_co_id (the (ct_wrapper s a))) (ct_all s)) s
        in s1\<lparr>ct_all := [], ct_freetask := 0, ct_work := [],
              ct_resume := (case ct_resume s1 thr of None \<Rightarrow> ct_resume s1
                            | Some _ \<Rightarrow> (ct_resume s1)(thr := Some [])),
              ct_dangling := (case ct_resume s1 thr of None \<Rightarrow> ct_dangling s1
                            | Some l \<Rightarrow> (ct_dangling s1)(thr := (l \<noteq> [] \<or> ct_dangling s1 thr)))\<rparr>)"

subsection \<open>The task layer as a map of suspended tasks\<close>

primrec cont_addr :: "'k co_cont \<Rightarrow> nat" where
  "cont_addr (AtLoop a) = a"
| "cont_addr (InTask a k) = a"

primrec cont_task :: "'k co_cont \<Rightarrow> 'k option" where
  "cont_task (AtLoop a) = None"
| "cont_task (InTask a k) = Some k"

definition susp :: "'k cos \<Rightarrow> int \<Rightarrow> 'k option" where
  "susp s i = Option.bind (s_co s i) (\<lambda>c. cont_task (c_cont c))"

definition slot_ok :: "'k cos \<Rightarrow> int \<Rightarrow> 'k coroutine \<Rightarrow> bool" where
  "slot_ok s i c \<longleftrightarrow> 1 \<le> i \<and> i \<le> s_nco s \<and> c_id c = i
     \<and> (c_status c = COROUTINE_READY \<or> c_status c = COROUTINE_SUSPEND)
     \<and> (case ct_wrapper s (cont_addr (c_cont c)) of None \<Rightarrow> False | Some wr \<Rightarrow> w_co_id wr = i)"

definition wrapper_ok :: "'k cos \<Rightarrow> nat \<Rightarrow> 'k co_wrapper \<Rightarrow> bool" where
  "wrapper_ok s a wr \<longleftrightarrow> a < ct_next_wrapper s \<and> a \<in> set (ct_all s)
     \<and> (case s_co s (w_co_id wr) of None \<Rightarrow> False | Some c \<Rightarrow> cont_addr (c_cont c) = a)"

definition idle_ok :: "'k cos \<Rightarrow> nat \<Rightarrow> bool" where
  "idle_ok s a \<longleftrightarrow> (\<exists>wr c. ct_wrapper s a = Some wr \<and> s_co s (w_co_id wr) = Some c \<and> c_cont c = AtLoop a)"

definition cos_ok :: "'k cos \<Rightarrow> bool" where
  "cos_ok s \<longleftrightarrow> s_cur s = None \<and> 0 \<le> s_nco s \<and> s_nco s \<le> s_cap s
     \<and> distinct (s_freeid s) \<and> (\<forall>i \<in> set (s_freeid s). 1 \<le> i \<and> i \<le> s_nco s \<and> s_co s i = None)
     \<and> (\<forall>i c. s_co s i = Some c \<longrightarrow> slot_ok s i c)
     \<and> (\<forall>a wr. ct_wrapper s a = Some wr \<longrightarrow> wrapper_ok s a wr)
     \<and> distinct (ct_all s) \<and> (\<forall>a \<in> set (ct_all s). a < ct_next_wrapper s)
     \<and> distinct (ct_freeco s) \<and> (\<forall>a \<in> set (ct_freeco s). idle_ok s a)"

lemma cos_okI:
  assumes "s_cur s = None" "0 \<le> s_nco s" "s_nco s \<le> s_cap s" "distinct (s_freeid s)"
    "\<And>i. i \<in> set (s_freeid s) \<Longrightarrow> 1 \<le> i \<and> i \<le> s_nco s \<and> s_co s i = None"
    "\<And>i c. s_co s i = Some c \<Longrightarrow> slot_ok s i c"
    "\<And>a wr. ct_wrapper s a = Some wr \<Longrightarrow> wrapper_ok s a wr"
    "distinct (ct_all s)" "\<forall>a \<in> set (ct_all s). a < ct_next_wrapper s"
    "distinct (ct_freeco s)" "\<And>a. a \<in> set (ct_freeco s) \<Longrightarrow> idle_ok s a"
  shows "cos_ok s"
  using assms by (simp add: cos_ok_def)

lemma cos_okD:
  assumes "cos_ok s"
  shows "s_cur s = None" "0 \<le> s_nco s" "s_nco s \<le> s_cap s" "distinct (s_freeid s)"
    "\<And>i. i \<in> set (s_freeid s) \<Longrightarrow> 1 \<le> i \<and> i \<le> s_nco s \<and> s_co s i = None"
    "distinct (ct_all s)" "distinct (ct_freeco s)" "\<forall>a \<in> set (ct_all s). a < ct_next_wrapper s"
  using assms by (simp_all add: cos_ok_def)

lemma cos_ok_freetask [simp]: "cos_ok (s\<lparr>ct_freetask := n\<rparr>) = cos_ok s"
  by (simp add: cos_ok_def slot_ok_def wrapper_ok_def idle_ok_def)

lemma cos_ok_new: "cos_ok cos_new"
  by (simp add: cos_ok_def cos_new_def)

lemma cos_ok_slot: "\<lbrakk>cos_ok s; s_co s i = Some c\<rbrakk> \<Longrightarrow> slot_ok s i c"
  by (simp add: cos_ok_def)

lemma cos_ok_wrapper: "\<lbrakk>cos_ok s; ct_wrapper s a = Some wr\<rbrakk> \<Longrightarrow> wrapper_ok s a wr"
  by (simp add: cos_ok_def)

text \<open>A coroutine and its wrapper determine each other.\<close>

lemma co_wrapper:
  assumes "cos_ok s" "s_co s i = Some co"
  obtains wr where "ct_wrapper s (cont_addr (c_cont co)) = Some wr" "w_co_id wr = i"
  using cos_ok_slot [OF assms] by (auto simp: slot_ok_def split: option.splits)

lemma co_unique:
  assumes "cos_ok s" "s_co s i = Some co" "s_co s j = Some cj" "cont_addr (c_cont co) = cont_addr (c_cont cj)"
  shows "j = i"
  using co_wrapper [OF assms(1,2)] co_wrapper [OF assms(1,3)] assms(4) by (metis option.inject)

lemma wrapper_unique:
  assumes "cos_ok s" "s_co s i = Some co" "ct_wrapper s b = Some wb" "w_co_id wb = i"
  shows "b = cont_addr (c_cont co)"
  using cos_ok_wrapper [OF assms(1,3)] assms(2,4) by (auto simp: wrapper_ok_def)

text \<open>The state after a task, started or resumed on coroutine \<^term>\<open>i\<close> of wrapper \<^term>\<open>a\<close>, has
  yielded or returned.\<close>

definition ct_settle :: "int \<Rightarrow> nat \<Rightarrow> 'k coroutine \<Rightarrow> 'k cos \<Rightarrow> 'k option \<Rightarrow> 'k cos" where
  "ct_settle i a co s r =
     (let s1 = s\<lparr>s_co := (s_co s)(i := Some (co\<lparr>c_status := COROUTINE_RUNNING\<rparr>)), s_cur := Some i\<rparr>
      in case (case r of Some k2 \<Rightarrow> (Some (InTask a k2), s1) | None \<Rightarrow> ct_after_task a s1) of
           (None, s2) \<Rightarrow> s2\<lparr>s_co := (s_co s2)(i := None), s_freeid := i # s_freeid s2, s_cur := None\<rparr>
         | (Some c, s2) \<Rightarrow> s2\<lparr>s_co := (s_co s2)(i := Some (co\<lparr>c_status := COROUTINE_SUSPEND, c_cont := c\<rparr>)),
                              s_cur := None\<rparr>)"

lemma co_resume_settle:
  assumes "cos_ok s" "s_co s i = Some co" "cont_addr (c_cont co) = a"
    and "case c_cont co of InTask b k2 \<Rightarrow> k = k2
         | AtLoop b \<Rightarrow> map_option w_task (ct_wrapper s b) = Some (Some k)"
  shows "co_resume run i (s, w) = map_option (\<lambda>(w2, r). (ct_settle i a co s r, w2)) (run i k w)"
proof -
  have sl: "1 \<le> i" "i \<le> s_cap s" "s_cur s = None"
    "c_status co = COROUTINE_SUSPEND \<or> c_status co = COROUTINE_READY"
    using cos_ok_slot [OF assms(1,2)] assms(1) by (auto simp: cos_ok_def slot_ok_def)
  then have ck: "co_check_resume s i" by (simp add: co_check_resume_def co_check_id_def M_MAIN_COROUTINE_ID_def)
  let ?s1 = "s\<lparr>s_co := (s_co s)(i := Some (co\<lparr>c_status := COROUTINE_RUNNING\<rparr>)), s_cur := Some i\<rparr>"
  have "ct_body run i (c_cont co) (?s1, w) = ct_run_task run i a k (?s1, w)"
    using assms(3,4) by (cases "c_cont co") (auto simp: ct_body_def)
  then show ?thesis
    using sl(4) ck assms(2)
    by (cases "run i k w")
       (auto simp: co_resume_def Let_def ct_run_task_def ct_settle_def split: option.splits prod.splits)
qed

lemma idle_not_here:
  assumes "cos_ok s" "s_co s i = Some co" "cont_addr (c_cont co) \<notin> set (ct_freeco s)" "b \<in> set (ct_freeco s)"
  obtains wb cb where "ct_wrapper s b = Some wb" "s_co s (w_co_id wb) = Some cb" "c_cont cb = AtLoop b"
    "w_co_id wb \<noteq> i"
proof -
  have "idle_ok s b" using assms(1,4) by (simp add: cos_ok_def)
  then obtain wb cb where w: "ct_wrapper s b = Some wb" "s_co s (w_co_id wb) = Some cb" "c_cont cb = AtLoop b"
    by (auto simp: idle_ok_def split: option.splits)
  then have "w_co_id wb \<noteq> i" using wrapper_unique [OF assms(1,2) w(1)] assms(3,4) by auto
  then show thesis using w that by blast
qed

lemma cos_ok_set_slot:
  assumes ok: "cos_ok s" and co: "s_co s i = Some co" and a: "cont_addr (c_cont co) = a" "a \<notin> set (ct_freeco s)"
    and st: "c_id c2 = i" "c_status c2 = COROUTINE_SUSPEND" "cont_addr (c_cont c2) = a"
  shows "cos_ok (s\<lparr>s_co := (s_co s)(i := Some c2), s_cur := None\<rparr>)"
proof -
  let ?s = "s\<lparr>s_co := (s_co s)(i := Some c2), s_cur := None\<rparr>"
  obtain wr where wr: "ct_wrapper s a = Some wr" "w_co_id wr = i"
    using co_wrapper [OF ok co] a(1) by metis
  have so: "slot_ok s i co" by (rule cos_ok_slot [OF ok co])
  show ?thesis
  proof (rule cos_okI)
    fix j c assume j: "s_co ?s j = Some c"
    show "slot_ok ?s j c"
    proof (cases "j = i")
      case True
      then show ?thesis using j st wr so by (simp add: slot_ok_def)
    next
      case False
      then have "slot_ok s j c" using cos_ok_slot [OF ok] j by simp
      then show ?thesis by (simp add: slot_ok_def)
    qed
  next
    fix b wb assume b: "ct_wrapper ?s b = Some wb"
    then have w: "wrapper_ok s b wb" using cos_ok_wrapper [OF ok] by simp
    then show "wrapper_ok ?s b wb"
      using wrapper_unique [OF ok co, of b wb] b st a by (cases "w_co_id wb = i") (simp_all add: wrapper_ok_def)
  next
    fix b assume "b \<in> set (ct_freeco ?s)"
    then obtain wb cb where "ct_wrapper s b = Some wb" "s_co s (w_co_id wb) = Some cb"
        "c_cont cb = AtLoop b" "w_co_id wb \<noteq> i"
      using idle_not_here [OF ok co, of b] a by auto
    then show "idle_ok ?s b" by (simp add: idle_ok_def)
  next
    fix j assume "j \<in> set (s_freeid ?s)"
    then show "1 \<le> j \<and> j \<le> s_nco ?s \<and> s_co ?s j = None"
      using cos_okD(5) [OF ok, of j] co by auto
  qed (use cos_okD [OF ok] in simp_all)
qed

lemma susp_upd: "susp (s\<lparr>s_co := (s_co s)(i := x), s_cur := c\<rparr>) =
    (susp s)(i := Option.bind x (\<lambda>c. cont_task (c_cont c)))"
  by (auto simp: susp_def)

lemma ct_settle_ok:
  assumes ok: "cos_ok s" and co: "s_co s i = Some co" and a: "cont_addr (c_cont co) = a" "a \<notin> set (ct_freeco s)"
  shows "cos_ok (ct_settle i a co s r) \<and> susp (ct_settle i a co s r) = (susp s)(i := r)"
proof (cases r)
  case (Some k2)
  let ?c = "co\<lparr>c_status := COROUTINE_SUSPEND, c_cont := InTask a k2\<rparr>"
  have "ct_settle i a co s r = s\<lparr>s_co := (s_co s)(i := Some ?c), s_cur := None\<rparr>"
    by (simp add: ct_settle_def Some)
  moreover have "c_id ?c = i" using cos_ok_slot [OF ok co] by (simp add: slot_ok_def)
  ultimately show ?thesis
    using cos_ok_set_slot [OF ok co a, of ?c] Some by (simp add: susp_upd)
next
  case None
  let ?n = "ct_recycle_task s"
  have f: "s_co ?n = s_co s" "ct_all ?n = ct_all s" "ct_wrapper ?n = ct_wrapper s" "s_freeid ?n = s_freeid s"
    "ct_freeco ?n = ct_freeco s" "s_nco ?n = s_nco s" "s_cap ?n = s_cap s" "ct_next_wrapper ?n = ct_next_wrapper s"
    "s_cur ?n = s_cur s"
    by (simp_all add: ct_recycle_task_def)
  have okn: "cos_ok ?n" using ok by (simp add: ct_recycle_task_def)
  have con: "s_co ?n i = Some co" "a \<notin> set (ct_freeco ?n)" using co a f by simp_all
  have sn: "susp ?n = susp s" using f by (simp add: susp_def fun_eq_iff)
  obtain wr where wr: "ct_wrapper ?n a = Some wr" "w_co_id wr = i"
    using co_wrapper [OF okn con(1)] a(1) by metis
  have rc: "ct_recycle_task (s\<lparr>s_co := x, s_cur := y\<rparr>) = ?n\<lparr>s_co := x, s_cur := y\<rparr>" for x y
    by (simp add: ct_recycle_task_def)
  show ?thesis
  proof (cases "length (ct_all s) \<ge> M_MAX_RESERVE_COROUTINE")
    case True
    let ?t = "?n\<lparr>s_co := (s_co s)(i := None), s_cur := None, s_freeid := i # s_freeid s,
        ct_all := remove1 a (ct_all s), ct_wrapper := (ct_wrapper s)(a := None)\<rparr>"
    have e: "ct_settle i a co s r = ?t"
      using True f by (simp add: ct_settle_def None ct_after_task_def rc Let_def ct_leave_def)
    have "cos_ok ?t"
    proof (rule cos_okI)
      fix j c assume "s_co ?t j = Some c"
      then have j: "s_co s j = Some c" "j \<noteq> i" by (auto split: if_splits)
      then have "cont_addr (c_cont c) \<noteq> a" using co_unique [OF ok co j(1)] a by auto
      then show "slot_ok ?t j c" using cos_ok_slot [OF ok j(1)] f by (simp add: slot_ok_def)
    next
      fix b wb assume "ct_wrapper ?t b = Some wb"
      then have b: "ct_wrapper s b = Some wb" "b \<noteq> a" by (auto split: if_splits)
      then have "w_co_id wb \<noteq> i" using wrapper_unique [OF ok co b(1)] a by auto
      then show "wrapper_ok ?t b wb" using cos_ok_wrapper [OF ok b(1)] b(2) f by (simp add: wrapper_ok_def)
    next
      fix b assume "b \<in> set (ct_freeco ?t)"
      then have b: "b \<in> set (ct_freeco s)" "b \<noteq> a" using a f by auto
      then obtain wb cb where "ct_wrapper s b = Some wb" "s_co s (w_co_id wb) = Some cb"
          "c_cont cb = AtLoop b" "w_co_id wb \<noteq> i"
        using idle_not_here [OF ok co, of b] a by auto
      then show "idle_ok ?t b" using b(2) by (simp add: idle_ok_def)
    next
      fix j assume "j \<in> set (s_freeid ?t)"
      then show "1 \<le> j \<and> j \<le> s_nco ?t \<and> s_co ?t j = None"
        using cos_okD(5) [OF ok, of j] cos_ok_slot [OF ok co] f by (auto simp: slot_ok_def)
    next
      show "distinct (s_freeid ?t)" using cos_okD(4,5) [OF ok] co by auto
      show "distinct (ct_all ?t)" using cos_okD(6) [OF ok] by simp
      show "\<forall>b \<in> set (ct_all ?t). b < ct_next_wrapper ?t"
        using cos_okD(8) [OF ok] f set_remove1_subset [of a "ct_all s"] by auto
    qed (use cos_okD [OF ok] f in simp_all)
    moreover have "susp ?t = (susp s)(i := r)" using None by (auto simp: susp_def)
    ultimately show ?thesis using e by simp
  next
    case False
    let ?c = "co\<lparr>c_status := COROUTINE_SUSPEND, c_cont := AtLoop a\<rparr>"
    let ?m = "?n\<lparr>s_co := (s_co ?n)(i := Some ?c), s_cur := None\<rparr>"
    let ?t = "?m\<lparr>ct_wrapper := (ct_wrapper s)(a := Some (wr\<lparr>w_task := None\<rparr>)), ct_freeco := a # ct_freeco s\<rparr>"
    have e: "ct_settle i a co s r = ?t"
      using False f wr by (simp add: ct_settle_def None ct_after_task_def rc Let_def)
    have m: "cos_ok ?m"
      using cos_ok_set_slot [OF okn con(1) a(1) con(2), of ?c] cos_ok_slot [OF okn con(1)]
      by (simp add: slot_ok_def)
    have "cos_ok ?t"
    proof (rule cos_okI)
      fix j c assume j: "s_co ?t j = Some c"
      then have "slot_ok ?m j c" using cos_ok_slot [OF m] by simp
      then show "slot_ok ?t j c"
        using wr f by (cases "cont_addr (c_cont c) = a") (simp_all add: slot_ok_def)
    next
      fix b wb assume b: "ct_wrapper ?t b = Some wb"
      show "wrapper_ok ?t b wb"
      proof (cases "b = a")
        case True
        have "wrapper_ok ?m a wr" using cos_ok_wrapper [OF m, of a wr] wr f by simp
        then show ?thesis using True b by (auto simp: wrapper_ok_def)
      next
        case False
        then have "wrapper_ok ?m b wb" using cos_ok_wrapper [OF m, of b wb] b f by simp
        then show ?thesis by (simp add: wrapper_ok_def)
      qed
    next
      fix b assume b: "b \<in> set (ct_freeco ?t)"
      show "idle_ok ?t b"
      proof (cases "b = a")
        case True
        then show ?thesis using wr by (simp add: idle_ok_def)
      next
        case False
        then have "idle_ok ?m b" using m b f by (simp add: cos_ok_def)
        then show ?thesis using False f by (simp add: idle_ok_def)
      qed
    next
      show "distinct (ct_freeco ?t)" using cos_okD(7) [OF ok] a by simp
      fix j assume "j \<in> set (s_freeid ?t)"
      then show "1 \<le> j \<and> j \<le> s_nco ?t \<and> s_co ?t j = None" using cos_okD(5) [OF m, of j] by simp
    qed (use cos_okD [OF m] in simp_all)
    moreover have "susp ?t = (susp s)(i := r)" using None f by (auto simp: susp_def)
    ultimately show ?thesis using e by simp
  qed
qed

lemma co_create_ok:
  assumes ok: "cos_ok s" and r: "co_create k s = (i, t)"
  shows "s_co s i = None \<and> 1 \<le> i \<and> i \<le> s_nco t \<and> s_nco s \<le> s_nco t \<and> s_nco t \<le> s_cap t
    \<and> s_co t = (s_co s)(i := Some \<lparr>c_id = i, c_status = COROUTINE_READY, c_cont = k\<rparr>)
    \<and> s_cur t = None \<and> distinct (s_freeid t) \<and> set (s_freeid t) \<subseteq> set (s_freeid s) - {i}
    \<and> ct_wrapper t = ct_wrapper s \<and> ct_all t = ct_all s \<and> ct_freeco t = ct_freeco s
    \<and> ct_next_wrapper t = ct_next_wrapper s"
proof (cases "s_freeid s")
  case (Cons j js)
  then have "i = j" "t = s\<lparr>s_freeid := js,
      s_co := (s_co s)(j := Some \<lparr>c_id = j, c_status = COROUTINE_READY, c_cont = k\<rparr>)\<rparr>"
    using r by (auto simp: co_create_def co_alloc_def)
  then show ?thesis using cos_okD [OF ok] Cons by auto
next
  case Nil
  have none: "s_co s j = None" if "s_nco s < j" for j
    using cos_ok_slot [OF ok, of j] that by (cases "s_co s j") (auto simp: slot_ok_def)
  have emp: "s_cap s = 0 \<Longrightarrow> s_co s = (\<lambda>_. None) \<and> s_nco s = 0"
  proof -
    assume "s_cap s = 0"
    then have "s_nco s = 0" using cos_okD(2,3) [OF ok] by simp
    moreover have "s_co s j = None" for j
      using cos_ok_slot [OF ok, of j] \<open>s_nco s = 0\<close> by (cases "s_co s j") (auto simp: slot_ok_def)
    ultimately show ?thesis by auto
  qed
  let ?s1 = "if s_nco s = s_cap s then co_alloc_schedule s else s"
  have f: "s_co ?s1 = s_co s" "s_nco ?s1 = s_nco s" "s_nco s < s_cap ?s1" "s_freeid ?s1 = []"
      "s_cur ?s1 = None" "ct_wrapper ?s1 = ct_wrapper s" "ct_all ?s1 = ct_all s" "ct_freeco ?s1 = ct_freeco s"
      "ct_next_wrapper ?s1 = ct_next_wrapper s"
    using cos_okD(1-3) [OF ok] Nil emp by (auto simp: co_alloc_schedule_def DEFAULT_COROUTINE_def)
  have "i = s_nco s + 1" "t = ?s1\<lparr>s_nco := i,
      s_co := (s_co s)(i := Some \<lparr>c_id = i, c_status = COROUTINE_READY, c_cont = k\<rparr>)\<rparr>"
    using r Nil f(1,2) by (auto simp: co_create_def co_alloc_def Let_def)
  then show ?thesis using f none cos_okD(2) [OF ok] by simp
qed

lemma ct_get_wrapper_ok:
  assumes ok: "cos_ok s" and r: "ct_get_wrapper s = (a, t)"
  shows "cos_ok t \<and> a \<notin> set (ct_freeco t) \<and> susp t = susp s
    \<and> (\<exists>wr co. ct_wrapper t a = Some wr \<and> s_co t (w_co_id wr) = Some co \<and> c_cont co = AtLoop a)"
proof (cases "ct_freeco s")
  case (Cons b bs)
  then obtain wr co where w: "ct_wrapper s b = Some wr" "s_co s (w_co_id wr) = Some co" "c_cont co = AtLoop b"
    using ok by (auto simp: cos_ok_def idle_ok_def)
  have t: "a = b" "t = s\<lparr>ct_freeco := bs, ct_wrapper := (ct_wrapper s)(b := Some (wr\<lparr>w_task := None\<rparr>))\<rparr>"
    using r Cons w(1) by (auto simp: ct_get_wrapper_def)
  have "cos_ok t"
  proof (rule cos_okI)
    fix j c assume "s_co t j = Some c"
    then show "slot_ok t j c"
      using cos_ok_slot [OF ok, of j c] w(1) t
      by (cases "cont_addr (c_cont c) = b") (simp_all add: slot_ok_def)
  next
    fix c wc assume "ct_wrapper t c = Some wc"
    then show "wrapper_ok t c wc"
      using cos_ok_wrapper [OF ok, of c] w(1) t by (auto simp: wrapper_ok_def split: if_splits)
  next
    fix c assume c: "c \<in> set (ct_freeco t)"
    then have "idle_ok s c" using ok Cons t by (simp add: cos_ok_def)
    moreover have "c \<noteq> b" using c t Cons cos_okD(7) [OF ok] by auto
    ultimately show "idle_ok t c" using t by (simp add: idle_ok_def)
  next
    fix j assume "j \<in> set (s_freeid t)"
    then show "1 \<le> j \<and> j \<le> s_nco t \<and> s_co t j = None" using cos_okD(5) [OF ok, of j] t by simp
  qed (use cos_okD [OF ok] t Cons in simp_all)
  moreover have "b \<notin> set bs" using cos_okD(7) [OF ok] Cons by simp
  ultimately show ?thesis using t w by (simp add: susp_def fun_eq_iff)
next
  case Nil
  let ?a = "ct_next_wrapper s"
  let ?s1 = "s\<lparr>ct_next_wrapper := ?a + 1\<rparr>"
  obtain i u where c: "co_create (AtLoop ?a) ?s1 = (i, u)" by fastforce
  have t: "a = ?a" "t = u\<lparr>ct_wrapper := (ct_wrapper u)(a := Some \<lparr>w_co_id = i, w_task = None\<rparr>),
      ct_all := a # ct_all u\<rparr>"
    using r Nil c by (auto simp: ct_get_wrapper_def Let_def)
  have new: "ct_wrapper s ?a = None" using cos_ok_wrapper [OF ok, of ?a] by (cases "ct_wrapper s ?a") (auto simp: wrapper_ok_def)
  have ok1: "cos_ok ?s1"
  proof (rule cos_okI)
    fix b wb assume "ct_wrapper ?s1 b = Some wb"
    then show "wrapper_ok ?s1 b wb" using cos_ok_wrapper [OF ok, of b wb] by (simp add: wrapper_ok_def)
  next
    fix j c assume "s_co ?s1 j = Some c"
    then show "slot_ok ?s1 j c" using cos_ok_slot [OF ok, of j c] by (simp add: slot_ok_def)
  next
    show "\<forall>b \<in> set (ct_all ?s1). b < ct_next_wrapper ?s1" using cos_okD(8) [OF ok] by auto
  qed (use cos_okD [OF ok] Nil in simp_all)
  note cr = co_create_ok [OF ok1 c]
  have old: "wrapper_ok s b wb" if "ct_wrapper s b = Some wb" for b wb by (rule cos_ok_wrapper [OF ok that])
  have "cos_ok t"
  proof (rule cos_okI)
    fix j cj assume j: "s_co t j = Some cj"
    show "slot_ok t j cj"
    proof (cases "j = i")
      case True
      then have "cj = \<lparr>c_id = i, c_status = COROUTINE_READY, c_cont = AtLoop ?a\<rparr>" using j cr t by simp
      then show ?thesis using True cr t by (simp add: slot_ok_def)
    next
      case False
      then have "slot_ok s j cj" using j cr t cos_ok_slot [OF ok, of j cj] by simp
      moreover from this have "cont_addr (c_cont cj) \<noteq> ?a" using new by (auto simp: slot_ok_def)
      ultimately show ?thesis using cr t by (simp add: slot_ok_def)
    qed
  next
    fix b wb assume b: "ct_wrapper t b = Some wb"
    show "wrapper_ok t b wb"
    proof (cases "b = ?a")
      case True
      then show ?thesis using b cr t by (auto simp: wrapper_ok_def)
    next
      case False
      then have w: "wrapper_ok s b wb" using b cr t old by simp
      then have "w_co_id wb \<noteq> i" using cr by (auto simp: wrapper_ok_def)
      then show ?thesis using w cr t by (simp add: wrapper_ok_def)
    qed
  next
    fix j assume "j \<in> set (s_freeid t)"
    then have "j \<in> set (s_freeid s)" "j \<noteq> i" using cr t by auto
    then show "1 \<le> j \<and> j \<le> s_nco t \<and> s_co t j = None"
      using cos_okD(5) [OF ok, of j] cr t by auto
  next
    have "?a \<notin> set (ct_all s)" using cos_okD(8) [OF ok] by auto
    then show "distinct (ct_all t)" using cos_okD(6) [OF ok] cr t by simp
    show "\<forall>b \<in> set (ct_all t). b < ct_next_wrapper t" using cos_okD(8) [OF ok] cr t by auto
  qed (use cr t Nil cos_okD [OF ok] in simp_all)
  then show ?thesis using t cr Nil by (auto simp: susp_def)
qed

subsection \<open>The task contract\<close>

lemma ct_start_law:
  assumes ok: "cos_ok s"
  shows "\<exists>i S. 1 \<le> i \<and> susp s i = None \<and> (\<forall>r. cos_ok (S r) \<and> susp (S r) = (susp s)(i := r))
    \<and> (\<forall>run w. ct_doTask run k (s, w) = map_option (\<lambda>(w2, r). (S r, w2)) (run i k w))"
proof -
  let ?s0 = "ct_get_free_task s"
  have ok0: "cos_ok ?s0" and s0: "susp ?s0 = susp s"
    using ok by (simp_all add: ct_get_free_task_def susp_def fun_eq_iff)
  obtain a t where g: "ct_get_wrapper ?s0 = (a, t)" by fastforce
  obtain wr co where t: "cos_ok t" "a \<notin> set (ct_freeco t)" "susp t = susp s" "ct_wrapper t a = Some wr"
      "s_co t (w_co_id wr) = Some co" "c_cont co = AtLoop a"
    using ct_get_wrapper_ok [OF ok0 g] s0 by auto
  let ?i = "w_co_id wr"
  let ?u = "t\<lparr>ct_wrapper := (ct_wrapper t)(a := Some (wr\<lparr>w_task := Some k\<rparr>))\<rparr>"
  have u: "cos_ok ?u"
  proof (rule cos_okI)
    fix j c assume "s_co ?u j = Some c"
    then show "slot_ok ?u j c"
      using cos_ok_slot [OF t(1), of j c] t(4) by (cases "cont_addr (c_cont c) = a") (simp_all add: slot_ok_def)
  next
    fix b wb assume "ct_wrapper ?u b = Some wb"
    then show "wrapper_ok ?u b wb"
      using cos_ok_wrapper [OF t(1), of b] t(4) by (auto simp: wrapper_ok_def split: if_splits)
  next
    fix b assume "b \<in> set (ct_freeco ?u)"
    then have "idle_ok t b" "b \<noteq> a" using t(1,2) by (auto simp: cos_ok_def)
    then show "idle_ok ?u b" by (simp add: idle_ok_def)
  next
    fix j assume "j \<in> set (s_freeid ?u)"
    then show "1 \<le> j \<and> j \<le> s_nco ?u \<and> s_co ?u j = None" using cos_okD(5) [OF t(1), of j] by simp
  qed (use cos_okD [OF t(1)] in simp_all)
  have su: "susp ?u = susp s" using t(3) by (simp add: susp_def fun_eq_iff)
  have cu: "s_co ?u ?i = Some co" "cont_addr (c_cont co) = a" "a \<notin> set (ct_freeco ?u)"
    using t by simp_all
  have "1 \<le> ?i" using cos_ok_slot [OF t(1,5)] by (simp add: slot_ok_def)
  moreover have "susp s ?i = None" using t(5,6) t(3) [symmetric] by (simp add: susp_def)
  moreover have "\<forall>r. cos_ok (ct_settle ?i a co ?u r) \<and> susp (ct_settle ?i a co ?u r) = (susp s)(?i := r)"
    using ct_settle_ok [OF u cu] su by simp
  moreover have "ct_doTask run k (s, w) = map_option (\<lambda>(w2, r). (ct_settle ?i a co ?u r, w2)) (run ?i k w)" for run and w :: 'w
  proof -
    have "co_resume run ?i (?u, w) = map_option (\<lambda>(w2, r). (ct_settle ?i a co ?u r, w2)) (run ?i k w)"
      using t(6) by (intro co_resume_settle [OF u cu(1,2)]) simp
    moreover have "co_curid s = M_MAIN_COROUTINE_ID" using cos_okD(1) [OF ok] by (simp add: co_curid_def)
    ultimately show ?thesis using g t(4) by (simp add: ct_doTask_def ct_start_def)
  qed
  ultimately show ?thesis by blast
qed

lemma ct_resume_law:
  assumes ok: "cos_ok s" and k: "susp s i = Some k"
  shows "\<exists>S. (\<forall>r. cos_ok (S r) \<and> susp (S r) = (susp s)(i := r))
    \<and> (\<forall>run w. ct_resumeTask run i (s, w) = map_option (\<lambda>(w2, r). (S r, w2)) (run i k w))"
proof -
  obtain co a where co: "s_co s i = Some co" "c_cont co = InTask a k"
    using k by (auto simp: susp_def bind_eq_Some_conv) (metis co_cont.exhaust cont_task.simps option.distinct(1) option.inject)
  have "a \<notin> set (ct_freeco s)"
    using idle_not_here [OF ok co(1), of a] co(2) ok
    by (auto simp: cos_ok_def idle_ok_def dest: wrapper_unique [OF ok co(1)]) 
       (metis co(1) co_cont.distinct(1) co_wrapper cont_addr.simps(2) ok option.inject)
  then have "\<forall>r. cos_ok (ct_settle i a co s r) \<and> susp (ct_settle i a co s r) = (susp s)(i := r)"
    using ct_settle_ok [OF ok co(1)] co(2) by simp
  moreover have "ct_resumeTask run i (s, w) = map_option (\<lambda>(w2, r). (ct_settle i a co s r, w2)) (run i k w)" for run and w :: 'w
    using co_resume_settle [OF ok co(1), of a k run w] co(2) cos_okD(1) [OF ok]
    by (simp add: ct_resumeTask_def co_curid_def)
  ultimately show ?thesis by blast
qed

interpretation ct: task_map cos_ok susp ct_doTask ct_resumeTask
  by unfold_locales (erule ct_start_law, erule (1) ct_resume_law)

subsection \<open>Properties\<close>

text \<open>C24: starting a task.  From a well-formed scheduler, \<^verbatim>\<open>doTask\<close> runs the new task at once,
  exactly once, on a coroutine that holds no suspended task; what the task leaves
  (a continuation or nothing) is stored under that id, and every other suspended
  task is as before.\<close>

theorem doTask_isolated:
  assumes "cos_ok s" "ct_doTask run k (s, w) = Some (s2, w2)"
  shows "\<exists>i r. 1 \<le> i \<and> susp s i = None \<and> run i k w = Some (w2, r)
     \<and> cos_ok s2 \<and> susp s2 = (susp s)(i := r)"
  using ct.start_inv [OF assms, of "\<lambda>m v. \<exists>i r. 1 \<le> i \<and> susp s i = None \<and> run i k w = Some (v, r) \<and> m = (susp s)(i := r)"]
  by blast

definition quick :: "(nat, nat list) slice" where
  "quick i k w = Some (w @ [k], None)"

definition idle_cos :: "nat cos" where
  "idle_cos = fst (the (ct_doTask quick 3 (cos_new, [])))"

lemma idle_cos: "ct_doTask quick 3 (cos_new, []) = Some (idle_cos, [3])"
  by (simp add: idle_cos_def quick_def ct_doTask_def co_curid_def cos_new_def M_MAIN_COROUTINE_ID_def
      ct_start_def ct_get_free_task_def ct_get_wrapper_def co_create_def co_alloc_def co_alloc_schedule_def
      co_resume_def co_check_resume_def co_check_id_def DEFAULT_COROUTINE_def ct_body_def ct_run_task_def
      ct_after_task_def ct_recycle_task_def M_MAX_RESERVE_TASK_def M_MAX_RESERVE_COROUTINE_def)

theorem doTask_isolated_witness:
  "cos_ok idle_cos \<and> (\<exists>i r. susp (cos_new :: nat cos) i = None \<and> quick i 3 [] = Some ([3], r))"
  using doTask_isolated [OF cos_ok_new idle_cos] by blast

text \<open>C25: resuming a suspended task continues that task on its own coroutine and touches no
  other.\<close>

theorem resumeTask_isolated:
  assumes "cos_ok s" "susp s i = Some k" "ct_resumeTask run i (s, w) = Some (s2, w2)"
  shows "\<exists>r. run i k w = Some (w2, r) \<and> cos_ok s2 \<and> susp s2 = (susp s)(i := r)"
  using ct.resume_inv [OF assms, of "\<lambda>m v. \<exists>r. run i k w = Some (v, r) \<and> m = (susp s)(i := r)"] by blast

definition twice :: "(nat, nat list) slice" where
  "twice i k w = Some (w @ [k], if k = 0 then None else Some (k - 1))"

theorem resumeTask_isolated_witness:
  "\<exists>s i s2. ct_doTask twice 1 (cos_new, []) = Some (s, [1]) \<and> susp s i = Some 0
     \<and> ct_resumeTask twice i (s, [1]) = Some (s2, [1, 0]) \<and> susp s2 i = None"
proof -
  obtain S where S: "\<exists>i. \<forall>(run :: (nat, nat list) slice) w. ct_doTask run 1 (cos_new, w) =
      map_option (\<lambda>(w2, r). (S r, w2)) (run i 1 w)"
    using ct.start_law [OF cos_ok_new, of "1 :: nat"] by blast
  then obtain s where s: "ct_doTask twice 1 (cos_new, []) = Some (s, [1])"
    by (auto simp: twice_def)
  obtain i r where i: "cos_ok s" "twice i 1 [] = Some ([1], r)" "susp s = (susp cos_new)(i := r)"
    using doTask_isolated [OF cos_ok_new s] by blast
  then have k: "susp s i = Some 0" by (auto simp: twice_def)
  obtain T where "\<forall>(run :: (nat, nat list) slice) w. ct_resumeTask run i (s, w) =
      map_option (\<lambda>(w2, r). (T r, w2)) (run i 0 w)"
    using ct.resume_law [OF i(1) k] by blast
  then obtain s2 where s2: "ct_resumeTask twice i (s, [1]) = Some (s2, [1, 0])"
    by (simp add: twice_def)
  obtain r2 where "twice i 0 [1] = Some ([1, 0], r2)" "susp s2 = (susp s)(i := r2)"
    using resumeTask_isolated [OF i(1) k s2] by blast
  then show ?thesis using s k s2 by (auto simp: twice_def)
qed

lemma destroy_all_none:
  assumes "s_cur s = None" "\<forall>i \<in> set is. co_check_id s i" "j \<in> set is \<or> s_co s j = None"
  shows "s_co (co_destroy_all is s) j = None \<and> s_cur (co_destroy_all is s) = None
    \<and> ct_freeco (co_destroy_all is s) = ct_freeco s \<and> ct_wrapper (co_destroy_all is s) = ct_wrapper s"
  using assms
proof (induction "is" arbitrary: s)
  case Nil
  then show ?case by simp
next
  case (Cons i js)
  have f: "s_cur (snd (co_destroy i s)) = None" "ct_freeco (snd (co_destroy i s)) = ct_freeco s"
    "ct_wrapper (snd (co_destroy i s)) = ct_wrapper s" "s_cap (snd (co_destroy i s)) = s_cap s"
    "s_co (snd (co_destroy i s)) = (s_co s)(i := None)"
    using Cons.prems by (auto simp: co_destroy_def split: option.splits)
  then have "\<forall>k \<in> set js. co_check_id (snd (co_destroy i s)) k"
    using Cons.prems by (auto simp: co_check_id_def split: if_splits)
  then show ?case
    using Cons.IH [of "snd (co_destroy i s)"] f Cons.prems(3) by auto
qed

text \<open>\<^verbatim>\<open>clrTask\<close> loses the next task.  It destroys the coroutines of all wrappers but leaves
  the idle ones on the stack of free wrappers; the next \<^verbatim>\<open>doTask\<close> takes such a wrapper,
  resumes a coroutine that no longer exists, and its task never runs.\<close>

theorem clrTask_loses_task:
  assumes ok: "cos_ok s" and idle: "ct_freeco s = a # as" and all: "set (ct_freeco s) \<subseteq> set (ct_all s)"
    and wr: "\<forall>b \<in> set (ct_all s). ct_wrapper s b \<noteq> None"
  shows "\<exists>s2. ct_doTask run k (ct_clrTask thr s, w) = Some (s2, w)"
proof -
  obtain wr0 co where w: "ct_wrapper s a = Some wr0" "s_co s (w_co_id wr0) = Some co" "c_cont co = AtLoop a"
    using ok idle by (auto simp: cos_ok_def idle_ok_def)
  let ?ids = "map (\<lambda>a. w_co_id (the (ct_wrapper s a))) (ct_all s)"
  have chk: "\<forall>i \<in> set ?ids. co_check_id s i"
  proof
    fix i assume "i \<in> set ?ids"
    then obtain b wb where b: "ct_wrapper s b = Some wb" "i = w_co_id wb" using wr by fastforce
    then obtain c where "s_co s i = Some c"
      using cos_ok_wrapper [OF ok b(1)] by (auto simp: wrapper_ok_def split: option.splits)
    from cos_ok_slot [OF ok this] show "co_check_id s i"
      using cos_okD(3) [OF ok] by (simp add: slot_ok_def co_check_id_def M_MAIN_COROUTINE_ID_def)
  qed
  have mem: "w_co_id wr0 \<in> set ?ids" using w(1) idle all by force
  have cur: "s_cur s = None" by (rule cos_okD(1) [OF ok])
  let ?d = "co_destroy_all ?ids s" and ?t = "ct_clrTask thr s"
  have d: "s_co ?d (w_co_id wr0) = None" "s_cur ?d = None" "ct_freeco ?d = a # as" "ct_wrapper ?d = ct_wrapper s"
    using destroy_all_none [OF cur chk, of "w_co_id wr0"] mem idle by auto
  have t: "s_co ?t (w_co_id wr0) = None" "s_cur ?t = None" "ct_freeco ?t = a # as" "ct_wrapper ?t = ct_wrapper s"
    using d cur by (simp_all add: ct_clrTask_def co_curid_def Let_def)
  then have "co_curid ?t = M_MAIN_COROUTINE_ID" by (simp add: co_curid_def)
  then show ?thesis
    using t w(1)
    by (simp add: ct_doTask_def ct_start_def ct_get_free_task_def ct_get_wrapper_def co_resume_def Let_def)
qed

theorem clrTask_loses_task_witness:
  "\<exists>s2. ct_doTask quick 4 (ct_clrTask 1 idle_cos, [3]) = Some (s2, [3])"
proof (rule clrTask_loses_task)
  show "cos_ok idle_cos" using doTask_isolated [OF cos_ok_new idle_cos] by blast
  show "ct_freeco idle_cos = [0]" "set (ct_freeco idle_cos) \<subseteq> set (ct_all idle_cos)"
    "\<forall>b \<in> set (ct_all idle_cos). ct_wrapper idle_cos b \<noteq> None"
    by (simp_all add: idle_cos_def quick_def ct_doTask_def co_curid_def cos_new_def M_MAIN_COROUTINE_ID_def
      ct_start_def ct_get_free_task_def ct_get_wrapper_def co_create_def co_alloc_def co_alloc_schedule_def
      co_resume_def co_check_resume_def co_check_id_def DEFAULT_COROUTINE_def ct_body_def ct_run_task_def
      ct_after_task_def ct_recycle_task_def M_MAX_RESERVE_TASK_def M_MAX_RESERVE_COROUTINE_def)
qed

text \<open>After \<^verbatim>\<open>clrTask\<close> has cleared a resume list that was not empty, the next \<^verbatim>\<open>addResume\<close> for
  the thread follows the pointer to a freed list node.\<close>

theorem clrTask_addResume_fault:
  assumes "s_cur s = None" "ct_resume s thr = Some l" "l \<noteq> []"
  shows "ct_addResume thr i (ct_clrTask thr s) = None"
proof -
  have "ct_resume (co_destroy_all is s) = ct_resume s" for "is"
  proof (induction "is" arbitrary: s)
    case (Cons i js)
    have "ct_resume (snd (co_destroy i s)) = ct_resume s"
      by (simp add: co_destroy_def split: option.splits)
    then show ?case using Cons by simp
  qed simp
  then show ?thesis
    using assms by (simp add: ct_clrTask_def co_curid_def ct_addResume_def Let_def)
qed

theorem clrTask_addResume_fault_witness:
  "\<exists>s. ct_addResume 7 1 (cos_new :: nat cos) = Some s \<and> ct_addResume 7 2 (ct_clrTask 7 s) = None"
  using clrTask_addResume_fault [of "cos_new\<lparr>ct_resume := (\<lambda>_. None)(7 := Some [1])\<rparr> :: nat cos" 7 "[1]" 2]
  by (simp add: ct_addResume_def cos_new_def)

end
