(* ===== verification/Frame.thy ===== *)
theory Frame
  imports Packet
begin

text \<open>
  The application frame header of \<^verbatim>\<open>commonlib/svr_base/svrbase.h\<close> that precedes every
  protobuf message: thirteen packed fields in network order, 50 bytes, and the
  descriptor flags of the same file.  A socket handle is a 64-bit number: the
  descriptor with bit 34 set for an accepted socket, with bit 33 set for a
  connector.
\<close>

record app_frame =
  is_broadcast :: u16
  src_zone :: u16
  dst_zone :: u16
  src_svr_type :: u32
  dst_svr_type :: u32
  src_inst_id :: u32
  dst_inst_id :: u32
  src_trans_id :: u32
  dst_trans_id :: u32
  cmd :: u32
  cmd_length :: u32
  userid :: u64
  req_random :: u32

definition af_new :: app_frame where
  "af_new = \<lparr>is_broadcast = 0, src_zone = 0, dst_zone = 0, src_svr_type = 0, dst_svr_type = 0,
     src_inst_id = 0, dst_inst_id = 0, src_trans_id = 0, dst_trans_id = 0, cmd = 0, cmd_length = 0,
     userid = 0, req_random = 0\<rparr>"

definition ntohs :: "u16 \<Rightarrow> u16" where
  "ntohs w = le_val (rev (le_bytes 2 w))"

definition htons :: "u16 \<Rightarrow> u16" where
  "htons w = le_val (rev (le_bytes 2 w))"

text \<open>\<^verbatim>\<open>base::ntohll\<close> and \<^verbatim>\<open>base::htonll\<close>, written over \<^verbatim>\<open>htonl\<close> as in \<^verbatim>\<open>slience/base/util.cpp\<close>.\<close>

definition ntohll :: "u64 \<Rightarrow> u64" where
  "ntohll val = (push_bit 32 (ucast (htonl (ucast (drop_bit 32 (push_bit 32 val)))))) OR
     ucast (htonl (ucast (drop_bit 32 val)))"

definition htonll :: "u64 \<Rightarrow> u64" where
  "htonll val = (push_bit 32 (ucast (htonl (ucast (drop_bit 32 (push_bit 32 val)))))) OR
     ucast (htonl (ucast (drop_bit 32 val)))"

definition af_n2h :: "app_frame \<Rightarrow> app_frame" where
  "af_n2h f = f\<lparr>is_broadcast := ntohs (is_broadcast f), src_zone := ntohs (src_zone f),
     dst_zone := ntohs (dst_zone f), src_svr_type := ntohl (src_svr_type f),
     dst_svr_type := ntohl (dst_svr_type f), src_inst_id := ntohl (src_inst_id f),
     dst_inst_id := ntohl (dst_inst_id f), src_trans_id := ntohl (src_trans_id f),
     dst_trans_id := ntohl (dst_trans_id f), cmd := ntohl (cmd f), cmd_length := ntohl (cmd_length f),
     userid := ntohll (userid f), req_random := ntohl (req_random f)\<rparr>"

definition af_h2n :: "app_frame \<Rightarrow> app_frame" where
  "af_h2n f = f\<lparr>is_broadcast := htons (is_broadcast f), src_zone := htons (src_zone f),
     dst_zone := htons (dst_zone f), src_svr_type := htonl (src_svr_type f),
     dst_svr_type := htonl (dst_svr_type f), src_inst_id := htonl (src_inst_id f),
     dst_inst_id := htonl (dst_inst_id f), src_trans_id := htonl (src_trans_id f),
     dst_trans_id := htonl (dst_trans_id f), cmd := htonl (cmd f), cmd_length := htonl (cmd_length f),
     userid := htonll (userid f), req_random := htonl (req_random f)\<rparr>"

text \<open>The packed structure in memory: \<^verbatim>\<open>sizeof(AppHeadFrame)\<close> is 50.\<close>

definition sizeof_app_frame :: nat where "sizeof_app_frame = 50"

definition af_bytes :: "app_frame \<Rightarrow> byte list" where
  "af_bytes f = le_bytes 2 (is_broadcast f) @ le_bytes 2 (src_zone f) @ le_bytes 2 (dst_zone f)
     @ le_bytes 4 (src_svr_type f) @ le_bytes 4 (dst_svr_type f) @ le_bytes 4 (src_inst_id f)
     @ le_bytes 4 (dst_inst_id f) @ le_bytes 4 (src_trans_id f) @ le_bytes 4 (dst_trans_id f)
     @ le_bytes 4 (cmd f) @ le_bytes 4 (cmd_length f) @ le_bytes 8 (userid f) @ le_bytes 4 (req_random f)"

definition af_load :: "byte list \<Rightarrow> app_frame" where
  "af_load bs = \<lparr>is_broadcast = le_val (take 2 bs), src_zone = le_val (take 2 (drop 2 bs)),
     dst_zone = le_val (take 2 (drop 4 bs)), src_svr_type = le_val (take 4 (drop 6 bs)),
     dst_svr_type = le_val (take 4 (drop 10 bs)), src_inst_id = le_val (take 4 (drop 14 bs)),
     dst_inst_id = le_val (take 4 (drop 18 bs)), src_trans_id = le_val (take 4 (drop 22 bs)),
     dst_trans_id = le_val (take 4 (drop 26 bs)), cmd = le_val (take 4 (drop 30 bs)),
     cmd_length = le_val (take 4 (drop 34 bs)), userid = le_val (take 8 (drop 38 bs)),
     req_random = le_val (take 4 (drop 46 bs))\<rparr>"

subsection \<open>Descriptors\<close>

definition M_TCP_CONNECTOR_FD_FLAG :: u64 where "M_TCP_CONNECTOR_FD_FLAG = push_bit 33 1"
definition M_TCP_FD_FLAG :: u64 where "M_TCP_FD_FLAG = push_bit 34 1"

definition M_CHECK_IS_TCP_CONNECTOR_FD :: "u64 \<Rightarrow> bool" where
  "M_CHECK_IS_TCP_CONNECTOR_FD fd \<longleftrightarrow> M_TCP_CONNECTOR_FD_FLAG AND fd \<noteq> 0"

definition M_CHECK_IS_TCP_FD :: "u64 \<Rightarrow> bool" where
  "M_CHECK_IS_TCP_FD fd \<longleftrightarrow> M_TCP_FD_FLAG AND fd \<noteq> 0"

definition M_GET_TCP_FD :: "u64 \<Rightarrow> u32" where
  "M_GET_TCP_FD fd = ucast (fd AND NOT M_TCP_FD_FLAG)"

definition M_GET_TCP_CONNECTOR_FD :: "u64 \<Rightarrow> u32" where
  "M_GET_TCP_CONNECTOR_FD fd = ucast (fd AND NOT M_TCP_CONNECTOR_FD_FLAG)"

subsection \<open>Round trips\<close>

lemma ntohs_htons [simp]: "ntohs (htons w) = w"
proof -
  have "le_bytes 2 (le_val (rev (le_bytes 2 w)) :: u16) = rev (le_bytes 2 w)"
    using le_bytes_le_val [where 'a = 16, of "rev (le_bytes 2 w)"] by simp
  then show ?thesis by (simp add: ntohs_def htons_def)
qed

lemma htonl_htonl [simp]: "htonl (htonl w) = w"
  using ntohl_htonl [of w] by (simp add: ntohl_def htonl_def)

lemma push_drop_32: "(ucast (drop_bit 32 (push_bit 32 (v :: u64))) :: u32) = ucast v"
  by (rule bit_word_eqI) (auto simp: bit_simps)

lemma ntohll_halves:
  "(ucast (ntohll v) :: u32) = htonl (ucast (drop_bit 32 v))"
  "(ucast (drop_bit 32 (ntohll v)) :: u32) = htonl (ucast v)"
  unfolding ntohll_def push_drop_32
  by (rule bit_word_eqI, auto simp: bit_simps dest: bit_imp_le_length)+

lemma u64_halves:
  "\<lbrakk>(ucast a :: u32) = ucast b; (ucast (drop_bit 32 a) :: u32) = ucast (drop_bit 32 b)\<rbrakk> \<Longrightarrow> (a :: u64) = b"
proof (rule bit_word_eqI)
  fix n assume h: "(ucast a :: u32) = ucast b" "(ucast (drop_bit 32 a) :: u32) = ucast (drop_bit 32 b)"
    and n: "n < LENGTH(64)"
  show "bit a n = bit b n"
  proof (cases "n < 32")
    case True
    then show ?thesis using arg_cong [OF h(1), of "\<lambda>x. bit x n"] by (simp add: bit_simps)
  next
    case False
    then have "n - 32 < 32" "32 + (n - 32) = n" using n by simp_all
    then show ?thesis using arg_cong [OF h(2), of "\<lambda>x. bit x (n - 32)"] by (simp add: bit_simps)
  qed
qed

lemma ntohll_htonll [simp]: "ntohll (htonll v) = v"
proof -
  have "htonll = ntohll" by (simp add: htonll_def ntohll_def fun_eq_iff)
  then show ?thesis by (intro u64_halves) (simp_all add: ntohll_halves)
qed

lemma af_n2h_h2n [simp]: "af_n2h (af_h2n f) = f"
  by (simp add: af_n2h_def af_h2n_def)

lemma length_af_bytes [simp]: "length (af_bytes f) = sizeof_app_frame"
  by (simp add: af_bytes_def sizeof_app_frame_def)

lemma af_load_bytes [simp]: "af_load (af_bytes f @ r) = f"
  by (simp add: af_load_def af_bytes_def)

text \<open>A message as it travels in a packet: the frame in network order and the body.\<close>

definition af_msg :: "app_frame \<Rightarrow> byte list \<Rightarrow> byte list" where
  "af_msg f body = af_bytes (af_h2n f) @ body"

definition af_parse :: "byte list \<Rightarrow> app_frame \<times> byte list" where
  "af_parse bs = (af_n2h (af_load bs), drop sizeof_app_frame bs)"

lemma af_parse_msg [simp]: "af_parse (af_msg f body) = (f, body)"
  by (simp add: af_parse_def af_msg_def)

definition frame_dec :: "byte list \<Rightarrow> (app_frame \<times> byte list) option" where
  "frame_dec bs = (if length bs < sizeof_app_frame then None else Some (af_parse bs))"

interpretation frame: codec "\<lambda>_. True" "\<lambda>f. af_bytes (af_h2n f)" frame_dec
  by unfold_locales (simp add: frame_dec_def af_parse_def)

lemma tcp_fd_flags:
  fixes fd :: u32
  shows "M_CHECK_IS_TCP_FD (ucast fd OR M_TCP_FD_FLAG)" "\<not> M_CHECK_IS_TCP_CONNECTOR_FD (ucast fd OR M_TCP_FD_FLAG)"
    "M_GET_TCP_FD (ucast fd OR M_TCP_FD_FLAG) = fd"
    "M_CHECK_IS_TCP_CONNECTOR_FD (ucast fd OR M_TCP_CONNECTOR_FD_FLAG)"
    "\<not> M_CHECK_IS_TCP_FD (ucast fd OR M_TCP_CONNECTOR_FD_FLAG)"
    "M_GET_TCP_CONNECTOR_FD (ucast fd OR M_TCP_CONNECTOR_FD_FLAG) = fd"
proof -
  have m: "bit (M_TCP_FD_FLAG) n = (n = 34)" "bit (M_TCP_CONNECTOR_FD_FLAG) n = (n = 33)" for n
  proof -
    have "possible_bit TYPE(u64) 34" "possible_bit TYPE(u64) 33" by simp_all
    then show "bit (M_TCP_FD_FLAG) n = (n = 34)" "bit (M_TCP_CONNECTOR_FD_FLAG) n = (n = 33)"
      unfolding M_TCP_FD_FLAG_def M_TCP_CONNECTOR_FD_FLAG_def bit_push_bit_iff bit_1_iff by auto
  qed
  have a: "bit (M_TCP_FD_FLAG AND (ucast fd OR M_TCP_FD_FLAG)) 34"
    "bit (M_TCP_CONNECTOR_FD_FLAG AND (ucast fd OR M_TCP_CONNECTOR_FD_FLAG)) 33"
    by (simp_all add: m bit_simps)
  then show "M_CHECK_IS_TCP_FD (ucast fd OR M_TCP_FD_FLAG)"
    "M_CHECK_IS_TCP_CONNECTOR_FD (ucast fd OR M_TCP_CONNECTOR_FD_FLAG)"
    unfolding M_CHECK_IS_TCP_FD_def M_CHECK_IS_TCP_CONNECTOR_FD_def by (metis bit_0_eq bot_apply bot_bool_def)+
  have z: "\<not> bit fd 33" "\<not> bit fd 34" using bit_imp_le_length [of fd] by force+
  have b: "M_TCP_CONNECTOR_FD_FLAG AND (ucast fd OR M_TCP_FD_FLAG) = 0"
    "M_TCP_FD_FLAG AND (ucast fd OR M_TCP_CONNECTOR_FD_FLAG) = 0"
    by (rule bit_word_eqI, use z in \<open>auto simp: m bit_simps\<close>)+
  then show "\<not> M_CHECK_IS_TCP_CONNECTOR_FD (ucast fd OR M_TCP_FD_FLAG)"
    "\<not> M_CHECK_IS_TCP_FD (ucast fd OR M_TCP_CONNECTOR_FD_FLAG)"
    by (simp_all add: M_CHECK_IS_TCP_FD_def M_CHECK_IS_TCP_CONNECTOR_FD_def)
  show "M_GET_TCP_FD (ucast fd OR M_TCP_FD_FLAG) = fd"
    "M_GET_TCP_CONNECTOR_FD (ucast fd OR M_TCP_CONNECTOR_FD_FLAG) = fd"
    unfolding M_GET_TCP_FD_def M_GET_TCP_CONNECTOR_FD_def
    by (rule bit_word_eqI, use z in \<open>auto simp: m bit_simps\<close>)+
qed

end
