(* ===== verification/Random_Gen.thy ===== *)
theory Random_Gen
  imports Prelude "HOL-Library.Signed_Division"
begin

text \<open>
  The generator of \<^verbatim>\<open>slience/base/random.{hpp,cpp}\<close>.  A default-constructed generator
  takes the current second as its seed at every call; the result is scaled in
  single-precision floats.  A float is kept here as the integer it is a multiple of:
  \<^verbatim>\<open>m_seed / 0x7fffffffL\<close> divides by the float 2^31, so values are integers in units of
  2^-31 and every operation is followed by a rounding to 24 significant bits, ties to
  even.  An \<^verbatim>\<open>int\<close> subtraction and a conversion to \<^verbatim>\<open>int\<close> that overflow are undefined:
  \<^term>\<open>None\<close>.
\<close>

fun f32_exp :: "nat \<Rightarrow> nat" where
  "f32_exp n = (if n < 2 ^ 24 then 0 else Suc (f32_exp (n div 2)))"

declare f32_exp.simps [simp del]

definition f32 :: "nat \<Rightarrow> nat" where
  "f32 n = (let u = 2 ^ f32_exp n; q = n div u; r = n mod u
            in (if u < 2 * r \<or> (2 * r = u \<and> odd q) then q + 1 else q) * u)"

definition f32s :: "int \<Rightarrow> int" where
  "f32s z = sgn z * int (f32 (nat \<bar>z\<bar>))"

definition f32_one :: nat where "f32_one = 2 ^ 31"

definition c_int :: "int \<Rightarrow> int option" where
  "c_int z = (if - (2 ^ 31) \<le> z \<and> z < 2 ^ 31 then Some z else None)"

text \<open>\<^verbatim>\<open>(int)\<close> cuts off the fraction.\<close>

definition f32_to_int :: "int \<Rightarrow> int option" where
  "f32_to_int z = c_int (z sdiv int f32_one)"

record rng =
  m_seed :: int
  m_is_rand_seed :: bool

definition random_new :: rng where
  "random_new = \<lparr>m_seed = 0, m_is_rand_seed = True\<rparr>"

definition setSeed :: "int \<Rightarrow> rng \<Rightarrow> rng" where
  "setSeed seed g = g\<lparr>m_seed := seed, m_is_rand_seed := False\<rparr>"

text \<open>\<^verbatim>\<open>rand()\<close>: the float in units of 2^-31, and the new generator.\<close>

definition rand_unit :: "int \<Rightarrow> rng \<Rightarrow> nat \<times> rng" where
  "rand_unit time0 g =
     (let s = ((if m_is_rand_seed g then time0 else m_seed g) * 10807) mod 2 ^ 31
      in (f32 (nat s), g\<lparr>m_seed := s\<rparr>))"

definition rand_max :: "int \<Rightarrow> int \<Rightarrow> rng \<Rightarrow> (int \<times> rng) option" where
  "rand_max time0 mx g =
     (case rand_unit time0 g of (p, g1) \<Rightarrow>
        map_option (\<lambda>r. (if r = mx \<and> 0 < mx then mx - 1 else r, g1)) (f32_to_int (f32s (f32s mx * int p))))"

definition rand_between :: "int \<Rightarrow> int \<Rightarrow> int \<Rightarrow> rng \<Rightarrow> (int \<times> rng) option" where
  "rand_between time0 mn mx g =
     (case rand_unit time0 g of (p, g1) \<Rightarrow>
        Option.bind (c_int (mx - mn)) (\<lambda>d.
          map_option (\<lambda>r0. let r1 = (if r0 = mx \<and> mn < mx then mx - 1 else r0)
                           in (if r1 < mn then mn else r1, g1))
            (f32_to_int (f32s (f32s (f32s d * int p) + f32s mn * int f32_one)))))"

subsection \<open>Rounding\<close>

lemma f32_small: "n < 2 ^ 24 \<Longrightarrow> f32 n = n"
  by (simp add: f32_def f32_exp.simps)

lemma f32_exp_low: "2 ^ 24 \<le> n \<Longrightarrow> 2 ^ (23 + f32_exp n) \<le> n"
proof (induction n rule: f32_exp.induct)
  case (1 n)
  then have e: "f32_exp n = Suc (f32_exp (n div 2))" by (subst f32_exp.simps) simp
  show ?case
  proof (cases "n div 2 < 2 ^ 24")
    case True
    then have "f32_exp (n div 2) = 0" by (simp add: f32_exp.simps)
    then show ?thesis using 1(2) e by simp
  next
    case False
    then have "2 ^ (23 + f32_exp (n div 2)) \<le> n div 2" using 1 by simp
    then have "2 * 2 ^ (23 + f32_exp (n div 2)) \<le> n" by linarith
    also have "2 * 2 ^ (23 + f32_exp (n div 2)) = (2 :: nat) ^ (23 + f32_exp n)"
      by (simp only: e add_Suc_right power_Suc)
    finally show ?thesis .
  qed
qed

text \<open>Rounding does not leave a bound that is itself a float.\<close>

lemma f32_le:
  assumes "n \<le> m * 2 ^ k" "m < 2 ^ 24"
  shows "f32 n \<le> m * 2 ^ k"
proof (cases "n < 2 ^ 24")
  case True
  then show ?thesis using assms(1) by (simp add: f32_small)
next
  case False
  let ?e = "f32_exp n"
  let ?u = "2 ^ ?e :: nat"
  have "?e \<le> k"
  proof (rule ccontr)
    assume "\<not> ?e \<le> k"
    then have "k + 1 \<le> ?e" by simp
    have "m * 2 ^ k < 2 ^ 24 * (2 :: nat) ^ k" using assms(2) by simp
    also have "\<dots> = 2 ^ (23 + (k + 1))" by (simp add: power_add)
    also have "\<dots> \<le> 2 ^ (23 + ?e)" using \<open>k + 1 \<le> ?e\<close> by (intro power_increasing) simp_all
    finally show False using f32_exp_low [of n] False assms(1) by simp
  qed
  then obtain j where j: "k = ?e + j" using le_Suc_ex by blast
  let ?B = "m * 2 ^ j"
  have B: "m * 2 ^ k = ?B * ?u" by (subst j) (simp add: power_add)
  let ?q = "n div ?u" and ?r = "n mod ?u"
  have qB: "?q \<le> ?B"
    using assms(1) B by (metis div_le_mono nonzero_mult_div_cancel_right power_not_zero zero_neq_numeral)
  have "?r \<noteq> 0 \<Longrightarrow> ?q < ?B"
  proof -
    assume "?r \<noteq> 0"
    then have "?q * ?u < n" by (metis div_mult_mod_eq less_add_same_cancel1 bot_nat_0.not_eq_extremum)
    then have "?q * ?u < ?B * ?u" using assms(1) B by linarith
    then show ?thesis by simp
  qed
  then have "(if ?u < 2 * ?r \<or> (2 * ?r = ?u \<and> odd ?q) then ?q + 1 else ?q) \<le> ?B"
    using qB by (cases "?r = 0") auto
  then show ?thesis
    unfolding f32_def Let_def B by (rule mult_le_mono1)
qed

lemma f32_unit: "fst (rand_unit t g) \<le> f32_one"
proof -
  let ?s = "nat ((if m_is_rand_seed g then t else m_seed g) * 10807 mod 2 ^ 31)"
  have "?s \<le> 1 * 2 ^ 31" by (simp add: nat_le_iff)
  from f32_le [OF this] show ?thesis by (simp add: rand_unit_def f32_one_def Let_def)
qed

lemma f32_ge:
  assumes "m * 2 ^ k \<le> n" "m < 2 ^ 24"
  shows "m * 2 ^ k \<le> f32 n"
proof (cases "n < 2 ^ 24")
  case True
  then show ?thesis using assms(1) by (simp add: f32_small)
next
  case False
  let ?e = "f32_exp n"
  let ?u = "2 ^ ?e :: nat"
  have cut: "n div ?u * ?u \<le> f32 n"
    unfolding f32_def Let_def by (rule mult_le_mono1) simp
  show ?thesis
  proof (cases "?e \<le> k")
    case True
    then obtain j where j: "k = ?e + j" using le_Suc_ex by blast
    have B: "m * 2 ^ k = m * 2 ^ j * ?u" by (subst j) (simp add: power_add)
    have "m * 2 ^ j \<le> n div ?u"
      using assms(1) B by (metis div_le_mono nonzero_mult_div_cancel_right power_not_zero zero_neq_numeral)
    then have "m * 2 ^ j * ?u \<le> n div ?u * ?u" by (rule mult_le_mono1)
    then show ?thesis using B cut by linarith
  next
    case False
    then have "k + 1 \<le> ?e" by simp
    have "2 ^ 23 * ?u \<le> n" using f32_exp_low [of n] \<open>\<not> n < 2 ^ 24\<close> by (simp add: power_add)
    then have "2 ^ 23 \<le> n div ?u"
      by (metis div_le_mono nonzero_mult_div_cancel_right power_not_zero zero_neq_numeral)
    then have "2 ^ 23 * ?u \<le> n div ?u * ?u" by (rule mult_le_mono1)
    moreover have "m * 2 ^ k \<le> 2 ^ 23 * ?u"
    proof -
      have "m * 2 ^ k \<le> 2 ^ 24 * (2 :: nat) ^ k" using assms(2) by simp
      also have "\<dots> = 2 ^ 23 * 2 ^ (k + 1)" by simp
      also have "\<dots> \<le> 2 ^ 23 * ?u" using \<open>k + 1 \<le> ?e\<close> by (intro mult_le_mono2 power_increasing) simp_all
      finally show ?thesis .
    qed
    ultimately show ?thesis using cut by linarith
  qed
qed

text \<open>With a sign.\<close>

lemma f32s_small: "\<bar>z\<bar> < 2 ^ 24 \<Longrightarrow> f32s z = z"
proof -
  assume "\<bar>z\<bar> < 2 ^ 24"
  then have "nat \<bar>z\<bar> < 2 ^ 24" by simp
  then show ?thesis by (simp add: f32s_def f32_small sgn_mult_abs)
qed

lemma f32s_nonneg: "0 \<le> z \<Longrightarrow> 0 \<le> f32s z" and f32s_nonpos: "z \<le> 0 \<Longrightarrow> f32s z \<le> 0"
  by (auto simp: f32s_def sgn_if)

lemma nat_scaled: "0 \<le> m \<Longrightarrow> nat (m * 2 ^ k) = nat m * 2 ^ k"
  by (simp add: nat_mult_distrib nat_power_eq)

lemma f32s_le:
  assumes "z \<le> m * 2 ^ k" "\<bar>m\<bar> < 2 ^ 24"
  shows "f32s z \<le> m * 2 ^ k"
proof (cases "0 \<le> m")
  case m: True
  show ?thesis
  proof (cases "0 \<le> z")
    case True
    have "nat z \<le> nat m * 2 ^ k" using assms(1) m True nat_mono [OF assms(1)] by (simp add: nat_scaled)
    moreover have "nat m < 2 ^ 24" using assms(2) m by simp
    ultimately have "f32 (nat z) \<le> nat m * 2 ^ k" by (rule f32_le)
    then have "int (f32 (nat z)) \<le> int (nat m * 2 ^ k)" by (rule of_nat_mono)
    moreover have "int (nat m * 2 ^ k) = m * 2 ^ k" using m by simp
    moreover have "f32s z \<le> int (f32 (nat z))" using True by (simp add: f32s_def sgn_if)
    ultimately show ?thesis by linarith
  next
    case False
    then have "f32s z \<le> 0" by (intro f32s_nonpos) simp
    also have "0 \<le> m * 2 ^ k" using m by simp
    finally show ?thesis .
  qed
next
  case m: False
  then have "m * 2 ^ k < 0" by (simp add: mult_less_0_iff)
  then have z: "z < 0" using assms(1) by simp
  have "- m * 2 ^ k \<le> - z" using assms(1) by simp
  then have "nat (- m) * 2 ^ k \<le> nat (- z)" using m nat_scaled [of "- m" k] by (metis nat_mono linorder_le_cases neg_0_le_iff_le)
  moreover have "nat (- m) < 2 ^ 24" using assms(2) m by simp
  ultimately have "nat (- m) * 2 ^ k \<le> f32 (nat (- z))" by (rule f32_ge)
  then have "int (nat (- m) * 2 ^ k) \<le> int (f32 (nat (- z)))" by (rule of_nat_mono)
  moreover have "int (nat (- m) * 2 ^ k) = - (m * 2 ^ k)" using m by simp
  moreover have "f32s z = - int (f32 (nat (- z)))" using z by (simp add: f32s_def)
  ultimately show ?thesis by linarith
qed

lemma f32s_minus: "f32s (- z) = - f32s z"
  by (simp add: f32s_def sgn_minus)

lemma f32s_ge: "\<lbrakk>m * 2 ^ k \<le> z; \<bar>m\<bar> < 2 ^ 24\<rbrakk> \<Longrightarrow> m * 2 ^ k \<le> f32s z"
  using f32s_le [of "- z" "- m" k] by (simp add: f32s_minus)

lemma sdiv_between:
  fixes z :: int
  assumes "m * c \<le> z" "z \<le> n * c" "0 < c"
  shows "m \<le> z sdiv c \<and> z sdiv c \<le> n"
proof (cases "0 \<le> z")
  case True
  then have "z sdiv c = z div c" using assms(3) by (auto simp: signed_divide_int_def sgn_if)
  moreover have "m * c div c \<le> z div c" "z div c \<le> n * c div c"
    using assms by (intro zdiv_mono1; simp)+
  ultimately show ?thesis using assms(3) by simp
next
  case False
  then have "z sdiv c = - (- z div c)" using assms(3) by (simp add: signed_divide_int_def)
  moreover have "- n * c div c \<le> - z div c" "- z div c \<le> - m * c div c"
    using assms by (intro zdiv_mono1; simp)+
  moreover have "- n * c div c = - n" "- m * c div c = - m"
    using assms(3) by (metis nonzero_mult_div_cancel_right less_irrefl)+
  ultimately show ?thesis by linarith
qed

lemma rand_in_range:
  assumes "mn < mx" "mx - mn < 2 ^ 24" "\<bar>mn\<bar> < 2 ^ 24" "\<bar>mx\<bar> < 2 ^ 24"
  shows "\<exists>r g'. rand_between t mn mx g = Some (r, g') \<and> mn \<le> r \<and> r < mx"
proof -
  obtain p g1 where u: "rand_unit t g = (p, g1)" by fastforce
  have p: "0 \<le> int p" "int p \<le> 2 ^ 31" using f32_unit [of t g] u by (simp_all add: f32_one_def)
  let ?d = "mx - mn"
  have d: "f32s ?d = ?d" "f32s mn = mn" using assms by (auto intro: f32s_small)
  have "?d * int p \<le> ?d * 2 ^ 31" using p assms(1) by (intro mult_left_mono) simp_all
  then have "f32s (?d * int p) \<le> ?d * 2 ^ 31" using assms by (intro f32s_le) simp_all
  moreover have "0 \<le> f32s (?d * int p)" using assms(1) p(1) by (intro f32s_nonneg) simp
  ultimately have P: "f32s (?d * int p) \<le> ?d * 2 ^ 31" "0 \<le> f32s (?d * int p)" by blast+
  let ?z = "f32s (?d * int p) + mn * 2 ^ 31"
  have "mn * 2 ^ 31 \<le> ?z" "?z \<le> mx * 2 ^ 31" using P by (simp_all add: algebra_simps)
  then have "mn * 2 ^ 31 \<le> f32s ?z" "f32s ?z \<le> mx * 2 ^ 31" using assms f32s_le f32s_ge by blast+
  then have r: "mn \<le> f32s ?z sdiv 2 ^ 31" "f32s ?z sdiv 2 ^ 31 \<le> mx" using sdiv_between [of mn "2 ^ 31" "f32s ?z" mx] by simp_all
  have "f32_to_int (f32s ?z) = Some (f32s ?z sdiv 2 ^ 31)" "c_int ?d = Some ?d"
    using r assms by (auto simp: f32_to_int_def c_int_def f32_one_def)
  then show ?thesis
    using assms(1) u d r by (auto simp: rand_between_def Let_def f32_one_def)
qed

text \<open>C37: \<^verbatim>\<open>rand(min, max)\<close> returns a value of the half-open interval, whatever the seed and the
  second and rounding included, for signed bounds of at most 24 bits that are less than 2^24
  apart: no subtraction or conversion overflows.  (Beyond that range it does not:
  \<^verbatim>\<open>rand_beyond_range\<close> below.)\<close>

theorem rand_between_range:
  assumes "mn < mx" "mx - mn < 2 ^ 24" "\<bar>mn\<bar> < 2 ^ 24" "\<bar>mx\<bar> < 2 ^ 24"
  shows "\<exists>r g'. rand_between t mn mx g = Some (r, g') \<and> mn \<le> r \<and> r < mx"
  by (rule rand_in_range [OF assms])

theorem rand_between_range_witness:
  "(\<exists>r g'. rand_between 1700000000 10000 100000 random_new = Some (r, g') \<and> 10000 \<le> r \<and> r < 100000)
   \<and> (\<exists>r g'. rand_between 1700000000 (-50) 7 random_new = Some (r, g') \<and> -50 \<le> r \<and> r < 7)"
  by (intro conjI rand_between_range) simp_all

text \<open>For a larger bound the rounding of the bound itself shows: with the last seed before the float
  1.0, the value is above \<^verbatim>\<open>max\<close>.\<close>

theorem rand_beyond_range:
  "\<exists>seed. map_option fst (rand_between 0 0 16777219 (setSeed seed random_new)) = Some 16777220"
proof -
  have f: "f32 2147483647 = 2147483648" "f32 16777219 = 16777220" "f32 36028805608898560 = 36028805608898560"
    by (simp_all add: f32_def f32_exp.simps [of "numeral w" for w] Let_def)
  have "rand_unit 0 (setSeed 763253881 random_new) = (2147483648, \<lparr>m_seed = 2147483647, m_is_rand_seed = False\<rparr>)"
    using f(1) by (simp add: rand_unit_def setSeed_def random_new_def)
  then have "map_option fst (rand_between 0 0 16777219 (setSeed 763253881 random_new)) = Some 16777220"
    using f(2,3) by (simp add: rand_between_def f32s_def c_int_def f32_to_int_def f32_one_def signed_divide_int_def)
  then show ?thesis by blast
qed

text \<open>A default-constructed generator has no memory: within one second every call gives the same
  number.\<close>

lemma rand_between_same_second:
  assumes "m_is_rand_seed g" "rand_between t mn mx g = Some (r, g')"
  shows "map_option fst (rand_between t mn mx g') = Some r"
  using assms by (auto simp: rand_between_def rand_unit_def Let_def split: prod.splits bind_splits)

text \<open>The number that the requests of the servers carry.\<close>

lemma rand_request: "\<exists>r g'. rand_between t 10000 100000 g = Some (r, g')"
  using rand_in_range [of 10000 100000 t g] by auto

end
