(* ===== verification/Transaction.thy ===== *)
theory Transaction
  imports Timer_Pool Coroutines Frame Random_Gen
begin

text \<open>
  The transactions of \<^verbatim>\<open>commonlib/transaction\<close>.  A transaction object handles one
  request: \<^verbatim>\<open>ProcessFrame\<close> takes an object of the command's bucket, gives it a fresh
  transaction id and runs its \<^verbatim>\<open>InCoroutine\<close> on a coroutine; \<^verbatim>\<open>Wait\<close> yields until a
  response, a database result or a timer resumes it.

  The application code of a transaction is a \<^verbatim>\<open>script\<close>: what it does between two waits,
  in the operations \<^verbatim>\<open>Transaction\<close> offers its subclasses.  A frame, MySQL or Redis
  result that the main loop hands to the manager lives only as long as that call (the
  loop reuses or deletes it afterwards): pointers to it are serial numbers, and
  following one that is not the live one is a fault.
\<close>

datatype trans_state = E_STATE_IDLE | E_STATE_ACTIVE | E_STATE_TIMEOUT

datatype wait_return = E_RETURN_ERROR | E_RETURN_ACTIVE | E_RETURN_TIMEOUT

definition E_WAIT_FIVE_SECOND :: int where "E_WAIT_FIVE_SECOND = 5 * 1000"
definition E_WAIT_MYSQL :: int where "E_WAIT_MYSQL = 120 * 1000"
definition E_WAIT_REDIS :: int where "E_WAIT_REDIS = 120 * 1000"

definition E_MYSQL_SUCCESS :: int where "E_MYSQL_SUCCESS = 0"
definition E_MYSQL_DUP_KEY :: int where "E_MYSQL_DUP_KEY = -1"
definition E_MYSQL_ERROR :: int where "E_MYSQL_ERROR = -2"
definition E_REDIS_ERROR :: int where "E_REDIS_ERROR = -1"

text \<open>A MySQL result set: its number of fields and its rows.\<close>

record mysql_rsp =
  my_trans_id :: u32
  my_err_code :: int
  my_affected_rows :: int
  my_res :: "(nat \<times> string list list) option"
  my_is_dup_entry :: bool

record redis_rsp =
  rd_trans_id :: u32
  rd_err_code :: int
  rd_reply :: string

text \<open>What the main loop is handing over.\<close>

datatype live = LFrame app_frame "byte list" | LMysql mysql_rsp | LRedis redis_rsp

text \<open>A \<^verbatim>\<open>Transaction\<close>; \<^verbatim>\<open>t_class\<close> is the bucket whose \<^verbatim>\<open>TransactionType\<close> it is.\<close>

record trans =
  t_class :: u32
  t_state :: trans_state
  t_timer_id :: u64
  t_trans_id :: u32
  t_cmd :: u32
  t_userid :: u64
  t_co_id :: int
  t_fd :: u64
  t_cur_fd :: u64
  t_self_svr_type :: u32
  t_self_inst_id :: u32
  t_self_svr_zone :: u32
  t_req_random :: u32
  t_cur_frame :: "nat option"
  t_ori_frame :: app_frame
  t_cur_frame_data :: "nat option"
  t_mysql_rsp :: "nat option"
  t_redis_rsp :: "nat option"

definition Construct :: "trans \<Rightarrow> trans" where
  "Construct t = t\<lparr>t_trans_id := 0, t_userid := 0, t_co_id := 0, t_fd := 0, t_cur_fd := 0,
     t_cur_frame := None, t_cur_frame_data := None, t_self_svr_type := 0, t_self_inst_id := 0,
     t_self_svr_zone := 0, t_state := E_STATE_IDLE, t_timer_id := 0, t_req_random := 0,
     t_mysql_rsp := None, t_redis_rsp := None, t_ori_frame := af_new\<rparr>"

definition trans_blank :: trans where
  "trans_blank = Construct \<lparr>t_class = 0, t_state = E_STATE_IDLE, t_timer_id = 0, t_trans_id = 0,
     t_cmd = 0, t_userid = 0, t_co_id = 0, t_fd = 0, t_cur_fd = 0, t_self_svr_type = 0,
     t_self_inst_id = 0, t_self_svr_zone = 0, t_req_random = 0, t_cur_frame = None, t_ori_frame = af_new,
     t_cur_frame_data = None, t_mysql_rsp = None, t_redis_rsp = None\<rparr>"

text \<open>What a transaction asks of the rest of the program; the answer is an \<^verbatim>\<open>int\<close> (0 or 1 for a
  \<^verbatim>\<open>bool\<close>).  The calls after \<^verbatim>\<open>AddRedis\<close> are those of the servers' own transactions.\<close>

datatype out =
    SendFrame (so_cmd: u32) (so_userid: u64) (so_broadcast: bool) (so_dst_zone: u16)
      (so_dst_type: u32) (so_dst_inst: u32) (so_src_trans: u32) (so_dst_trans: u32)
      (so_random: u32) (so_body: "byte list")
  | AddMysql (my_orderid: u64) (my_req_trans: u32) (my_url: string) (my_sql: string)
  | AddRedis (rd_orderid: u16) (rd_req_trans: u32) (rd_url: string) (rd_cmd: "string list")
  | SendByFd (sf_fd: u64) (sf_cmd: u32) (sf_userid: u64) (sf_dst_zone: u16) (sf_dst_type: u32)
      (sf_src_trans: u32) (sf_random: u32) (sf_body: "byte list")
  | SendRaw (sr_fd: u64) (sr_frame: app_frame) (sr_body: "byte list")
  | GetConnector (gc_fd: u64)
  | GetSocket (gs_fd: u64)
  | ConnTypeOf (ct_ptr: nat)
  | LoginLink (ll_ptr: nat) (ll_fd: u64)
  | ExistLink (el_ptr: nat)
  | ConnectLink (rl_ptr: nat)
  | LoginInst (li_type: u32) (li_inst: u32) (li_fd: u64)
  | LogoutInst (lo_fd: u64)
  | LoginZone (lz_zone: u32) (lz_inst: u32) (lz_fd: u64)
  | LogoutLink (lt_fd: u64)
  | UpdateLogin (ul_userid: u64) (ul_zone: u32)

text \<open>How a server answers: from the state of its other components, the state afterwards and the
  answer, or a fault.\<close>

type_synonym 'a call_env = "out \<Rightarrow> 'a \<Rightarrow> ('a \<times> int) mem"

datatype setter = SetRandom u32 | ClearMysql | ClearRedis

text \<open>The code of a transaction: return, assign a member, read the members, follow a pointer
  to what the main loop handed over, draw a random number, call out, wait, or hit an
  assertion or an uncaught exception.\<close>

datatype script =
    SRet int
  | SSet setter script
  | SLook "trans \<Rightarrow> script"
  | SDeref nat "live \<Rightarrow> script"
  | SRand "int \<Rightarrow> script"
  | SCall out "int \<Rightarrow> script"
  | SWait int "wait_return \<Rightarrow> script"
  | SFault

text \<open>\<^verbatim>\<open>TransactionMgrImpl\<close>, the heap of transaction objects, the clock, and the state of the
  rest of the program (\<^verbatim>\<open>m_app\<close>).
  The free objects of a bucket are listed from the back of its vector.\<close>

record 'a tm =
  m_max :: int
  m_gen :: u32
  m_last_check :: int
  m_active :: "u32 \<Rightarrow> nat option"
  m_bucket :: "u32 \<Rightarrow> nat list option"
  m_obj :: "nat \<Rightarrow> trans"
  m_next_obj :: nat
  m_live :: "(nat \<times> live) option"
  m_serial :: nat
  m_now :: int
  m_app :: 'a

definition TransactionMgrImpl :: "int \<Rightarrow> 'a \<Rightarrow> 'a tm" where
  "TransactionMgrImpl now app = \<lparr>m_max = 5000, m_gen = 1, m_last_check = now, m_active = (\<lambda>_. None),
     m_bucket = (\<lambda>_. None), m_obj = (\<lambda>_. trans_blank), m_next_obj = 0, m_live = None, m_serial = 0,
     m_now = now, m_app = app\<rparr>"

definition TM_Init :: "int \<Rightarrow> 'a tm \<Rightarrow> 'a tm" where
  "TM_Init max_concurrent_trans m = m\<lparr>m_max := max_concurrent_trans\<rparr>"

definition trans_set :: "nat \<Rightarrow> (trans \<Rightarrow> trans) \<Rightarrow> 'a tm \<Rightarrow> 'a tm" where
  "trans_set a f m = m\<lparr>m_obj := (m_obj m)(a := f (m_obj m a))\<rparr>"

text \<open>The world of the coroutines, and a coroutine's continuation: about to enter
  \<^verbatim>\<open>CoroutineEnter\<close>, or inside \<^verbatim>\<open>Wait\<close>.\<close>

type_synonym 'a tworld = "u32 timer_pool \<times> 'a tm"

datatype tk = TEnter nat | TWait nat "wait_return \<Rightarrow> script"

type_synonym 'a tstate = "tk cos \<times> 'a tworld"

subsection \<open>\<^verbatim>\<open>TransactionMgrImpl\<close>\<close>

definition TM_RegisterTransaction :: "u32 \<Rightarrow> 'a tm \<Rightarrow> int \<times> 'a tm" where
  "TM_RegisterTransaction c m =
     (case m_bucket m c of
        None \<Rightarrow> (0, m\<lparr>m_bucket := (m_bucket m)(c := Some [])\<rparr>)
      | Some _ \<Rightarrow> (-1, m))"

definition TM_GetActiveTransCnt :: "'a tm \<Rightarrow> int" where
  "TM_GetActiveTransCnt m = int (card (dom (m_active m)))"

definition TM_GetTransaction :: "u32 \<Rightarrow> 'a tm \<Rightarrow> nat option" where
  "TM_GetTransaction i m = m_active m i"

definition TM_GeneratorTransId :: "'a tm \<Rightarrow> u32 \<times> 'a tm" where
  "TM_GeneratorTransId m = (m_gen m, m\<lparr>m_gen := m_gen m + 1\<rparr>)"

text \<open>\<^verbatim>\<open>TransactionBucketImpl::CreateTransaction\<close> and \<^verbatim>\<open>RecycleTransaction\<close>.\<close>

definition bucket_create :: "u32 \<Rightarrow> nat list \<Rightarrow> 'a tm \<Rightarrow> nat \<times> 'a tm" where
  "bucket_create c l m =
     (case l of
        [] \<Rightarrow> (m_next_obj m,
               (trans_set (m_next_obj m) (\<lambda>_. Construct (trans_blank\<lparr>t_class := c, t_cmd := c\<rparr>)) m)\<lparr>m_next_obj := m_next_obj m + 1\<rparr>)
      | a # as \<Rightarrow> (a, (trans_set a Construct m)\<lparr>m_bucket := (m_bucket m)(c := Some as)\<rparr>))"

definition TM_CreateTransaction :: "u32 \<Rightarrow> 'a tm \<Rightarrow> nat option \<times> 'a tm" where
  "TM_CreateTransaction c m =
     (if TM_GetActiveTransCnt m > m_max m then (None, m)
      else case m_bucket m c of
          None \<Rightarrow> (None, m)
        | Some l \<Rightarrow> (case bucket_create c l m of (a, m1) \<Rightarrow> (Some a, m1)))"

definition TM_RecyleTransaction :: "nat \<Rightarrow> 'a tm \<Rightarrow> 'a tm" where
  "TM_RecyleTransaction a m =
     (case m_bucket m (t_cmd (m_obj m a)) of
        None \<Rightarrow> m
      | Some l \<Rightarrow> m\<lparr>m_bucket := (m_bucket m)(t_cmd (m_obj m a) := Some (a # l))\<rparr>)"

definition TM_CancelTimer :: "u64 \<Rightarrow> 'a tworld \<Rightarrow> (int \<times> 'a tworld) mem" where
  "TM_CancelTimer i w = map_option (\<lambda>(r, p). (r, p, snd w)) (tp_CancelTimer i (fst w))"

definition TM_AddTimer :: "int \<Rightarrow> u32 \<Rightarrow> 'a tworld \<Rightarrow> (u64 \<times> 'a tworld) mem" where
  "TM_AddTimer interval tid w =
     map_option (\<lambda>(i, p). (i, p, snd w)) (tp_AddTimer (m_now (snd w)) interval tid (fst w))"

subsection \<open>\<^verbatim>\<open>Transaction\<close> inside its coroutine\<close>

definition T_CancelTimer :: "nat \<Rightarrow> 'a tworld \<Rightarrow> 'a tworld mem" where
  "T_CancelTimer a w =
     (let i = t_timer_id (m_obj (snd w) a) in
      if i \<noteq> 0 then map_option (\<lambda>(_, p, m). (p, trans_set a (t_timer_id_update (\<lambda>_. 0)) m)) (TM_CancelTimer i w)
      else Some w)"

definition T_SetTimer :: "nat \<Rightarrow> int \<Rightarrow> 'a tworld \<Rightarrow> 'a tworld mem" where
  "T_SetTimer a interval w =
     Option.bind (T_CancelTimer a w) (\<lambda>w1.
       map_option snd (TM_AddTimer interval (t_trans_id (m_obj (snd w1) a)) w1))"

primrec run_setter :: "setter \<Rightarrow> trans \<Rightarrow> trans" where
  "run_setter (SetRandom r) t = t\<lparr>t_req_random := r\<rparr>"
| "run_setter ClearMysql t = t\<lparr>t_mysql_rsp := None\<rparr>"
| "run_setter ClearRedis t = t\<lparr>t_redis_rsp := None\<rparr>"

text \<open>From one \<^verbatim>\<open>yield\<close> to the next.  \<^verbatim>\<open>env\<close> answers the calls out.\<close>

primrec run_script :: "'a call_env \<Rightarrow> nat \<Rightarrow> script \<Rightarrow> 'a tworld
    \<Rightarrow> ('a tworld \<times> (wait_return \<Rightarrow> script) option) mem" where
  "run_script env a (SRet r) w = Some (w, None)"
| "run_script env a (SSet f c) w = run_script env a c (fst w, trans_set a (run_setter f) (snd w))"
| "run_script env a (SLook k) w = run_script env a (k (m_obj (snd w) a)) w"
| "run_script env a (SDeref q k) w =
     (case m_live (snd w) of
        None \<Rightarrow> None
      | Some (s, l) \<Rightarrow> if s = q then run_script env a (k l) w else None)"
| "run_script env a (SRand k) w =
     (case rand_between (m_now (snd w) div 1000) 10000 100000 random_new of
        None \<Rightarrow> None
      | Some (r, g) \<Rightarrow> run_script env a (k r) w)"
| "run_script env a (SCall c k) w =
     (case env c (m_app (snd w)) of
        None \<Rightarrow> None
      | Some (x, r) \<Rightarrow> run_script env a (k r) (fst w, (snd w)\<lparr>m_app := x\<rparr>))"
| "run_script env a (SWait interval k) w =
     (if t_co_id (m_obj (snd w) a) \<noteq> 0
      then map_option (\<lambda>w1. (w1, Some k)) (T_SetTimer a interval w)
      else None)"
| "run_script env a SFault w = None"

text \<open>The generator always has a number for them.\<close>

definition rand_for :: "'a tm \<Rightarrow> int" where
  "rand_for m = fst (the (rand_between (m_now m div 1000) 10000 100000 random_new))"

lemma run_SRand [simp]: "run_script env a (SRand k) w = run_script env a (k (rand_for (snd w))) w"
proof -
  obtain r g where "rand_between (m_now (snd w) div 1000) 10000 100000 random_new = Some (r, g)"
    using rand_request [of "m_now (snd w) div 1000" random_new] by blast
  then show ?thesis by (simp add: rand_for_def)
qed

lemma rand_for_obj [simp]: "rand_for (m\<lparr>m_obj := f\<rparr>) = rand_for m"
  by (simp add: rand_for_def)

declare run_script.simps(5) [simp del]

text \<open>The end of \<^verbatim>\<open>CoroutineEnter\<close>.\<close>

definition T_end :: "nat \<Rightarrow> 'a tm \<Rightarrow> 'a tm" where
  "T_end a m = TM_RecyleTransaction a (m\<lparr>m_active := (m_active m)(t_trans_id (m_obj m a) := None)\<rparr>)"

definition T_finish :: "nat \<Rightarrow> 'a tworld \<times> (wait_return \<Rightarrow> script) option \<Rightarrow> 'a tworld \<times> tk option" where
  "T_finish a r =
     (case snd r of
        Some k \<Rightarrow> (fst r, Some (TWait a k))
      | None \<Rightarrow> ((fst (fst r), T_end a (snd (fst r))), None))"

text \<open>\<^verbatim>\<open>CoroutineEnter\<close> up to \<^verbatim>\<open>InCoroutine\<close>; \<^verbatim>\<open>insert\<close> keeps an entry that is already there.\<close>

definition T_enter :: "int \<Rightarrow> nat \<Rightarrow> 'a tm \<Rightarrow> 'a tm" where
  "T_enter co a m0 =
     (let m = trans_set a (t_co_id_update (\<lambda>_. co)) m0; tid = t_trans_id (m_obj m a)
      in if m_active m tid = None then m\<lparr>m_active := (m_active m)(tid \<mapsto> a)\<rparr> else m)"

text \<open>The second half of \<^verbatim>\<open>Wait\<close>.\<close>

definition T_woken :: "trans_state \<Rightarrow> wait_return" where
  "T_woken st = (if st = E_STATE_ACTIVE then E_RETURN_ACTIVE else E_RETURN_TIMEOUT)"

definition trans_slice :: "'a call_env \<Rightarrow> (u32 \<Rightarrow> script) \<Rightarrow> (tk, 'a tworld) slice" where
  "trans_slice env behave co k w =
     (case k of
        TEnter a \<Rightarrow>
          map_option (T_finish a)
            (run_script env a (behave (t_class (m_obj (snd w) a))) (fst w, T_enter co a (snd w)))
      | TWait a c \<Rightarrow>
          map_option (T_finish a)
            (run_script env a (c (T_woken (t_state (m_obj (snd w) a))))
               (fst w, trans_set a (t_state_update (\<lambda>_. E_STATE_IDLE)) (snd w))))"

subsection \<open>What \<^verbatim>\<open>Transaction\<close> offers its subclasses\<close>

text \<open>\<^verbatim>\<open>cur_frame()\<close> and \<^verbatim>\<open>ParseMsg\<close> follow the pointers of the last frame.  \<^verbatim>\<open>parse\<close> is the generated
  \<^verbatim>\<open>ParseFromArray\<close> of the message class; reading more bytes than the frame's data has is a
  fault.\<close>

definition T_cur_frame :: "(app_frame \<Rightarrow> script) \<Rightarrow> script" where
  "T_cur_frame k = SLook (\<lambda>t. case t_cur_frame t of
       None \<Rightarrow> SFault
     | Some q \<Rightarrow> SDeref q (\<lambda>l. case l of LFrame f d \<Rightarrow> k f | _ \<Rightarrow> SFault))"

definition T_ParseMsg :: "(byte list \<Rightarrow> 'm option) \<Rightarrow> ('m option \<Rightarrow> script) \<Rightarrow> script" where
  "T_ParseMsg parse k = SLook (\<lambda>t. case (t_cur_frame_data t, t_cur_frame t) of
       (Some d, Some q) \<Rightarrow> SDeref q (\<lambda>l. case l of
           LFrame f bs \<Rightarrow> if length bs < unat (cmd_length f) then SFault
                          else k (parse (take (unat (cmd_length f)) bs))
         | _ \<Rightarrow> SFault)
     | _ \<Rightarrow> SFault)"

definition SendMsgByServerId_oneway :: "u32 \<Rightarrow> u32 \<Rightarrow> u32 \<Rightarrow> byte list \<Rightarrow> (int \<Rightarrow> script) \<Rightarrow> script" where
  "SendMsgByServerId_oneway c svr_type inst_id request k =
     SRand (\<lambda>r. SSet (SetRandom (of_int r)) (SLook (\<lambda>t.
       SCall (SendFrame c (t_userid t) False 0 svr_type inst_id (t_trans_id t) 0 (t_req_random t) request) k)))"

definition SendMsgByServerType_oneway :: "u32 \<Rightarrow> u32 \<Rightarrow> byte list \<Rightarrow> (int \<Rightarrow> script) \<Rightarrow> script" where
  "SendMsgByServerType_oneway c svr_type request k =
     SRand (\<lambda>r. SSet (SetRandom (of_int r)) (SLook (\<lambda>t.
       SCall (SendFrame c (t_userid t) False 0 svr_type 0 (t_trans_id t) 0 (t_req_random t) request) k)))"

text \<open>After the request: wait, and parse the response.\<close>

definition wait_respond :: "(byte list \<Rightarrow> 'm option) \<Rightarrow> (int \<Rightarrow> 'm option \<Rightarrow> script) \<Rightarrow> script" where
  "wait_respond parse k =
     SWait E_WAIT_FIVE_SECOND (\<lambda>ret.
       if ret = E_RETURN_TIMEOUT then k (-1) None
       else if ret = E_RETURN_ERROR then k (-1) None
       else T_ParseMsg parse (\<lambda>m. if m = None then k (-1) None else k 0 m))"

definition SendMsgByServerType :: "u32 \<Rightarrow> u32 \<Rightarrow> byte list \<Rightarrow> (byte list \<Rightarrow> 'm option)
    \<Rightarrow> (int \<Rightarrow> 'm option \<Rightarrow> script) \<Rightarrow> script" where
  "SendMsgByServerType c svr_type request parse k =
     SendMsgByServerType_oneway c svr_type request (\<lambda>r.
       if r \<noteq> 0 then k (-1) None else wait_respond parse k)"

definition SendMsgByServerId :: "u32 \<Rightarrow> u32 \<Rightarrow> u32 \<Rightarrow> byte list \<Rightarrow> (byte list \<Rightarrow> 'm option)
    \<Rightarrow> (int \<Rightarrow> 'm option \<Rightarrow> script) \<Rightarrow> script" where
  "SendMsgByServerId c svr_type inst_id request parse k =
     SendMsgByServerId_oneway c svr_type inst_id request (\<lambda>r.
       if r \<noteq> 0 then k (-1) None else wait_respond parse k)"

text \<open>\<^verbatim>\<open>MysqlQuery\<close>: the result code, the affected rows, and the calls of \<^verbatim>\<open>func\<close> (its index argument
  is always 0).  \<^verbatim>\<open>mysql_num_fields\<close> needs a result set.\<close>

definition mysql_outcome :: "int \<Rightarrow> mysql_rsp \<Rightarrow> (int \<times> int \<times> (nat \<times> string list) list) option" where
  "mysql_outcome expected_fields rsp =
     (if my_err_code rsp \<noteq> 0 then
        Some (if my_is_dup_entry rsp then E_MYSQL_DUP_KEY else E_MYSQL_ERROR, 0, [])
      else case my_res rsp of
          None \<Rightarrow> None
        | Some (n, rows) \<Rightarrow>
            if expected_fields \<noteq> int n then Some (E_MYSQL_ERROR, 0, [])
            else Some (E_MYSQL_SUCCESS, my_affected_rows rsp, map (Pair 0) rows))"

definition mysql_woken :: "int \<Rightarrow> (int \<Rightarrow> int \<Rightarrow> (nat \<times> string list) list \<Rightarrow> script) \<Rightarrow> wait_return \<Rightarrow> script" where
  "mysql_woken expected_fields k r = SLook (\<lambda>t.
     case t_mysql_rsp t of
       None \<Rightarrow> k E_MYSQL_ERROR 0 []
     | Some q \<Rightarrow> SDeref q (\<lambda>l. case l of
           LMysql rsp \<Rightarrow>
             (case mysql_outcome expected_fields rsp of
                None \<Rightarrow> SFault
              | Some (ret, affected, rows) \<Rightarrow> SSet ClearMysql (k ret affected rows))
         | _ \<Rightarrow> SFault))"

definition MysqlQuery :: "u64 \<Rightarrow> string \<Rightarrow> string \<Rightarrow> int
    \<Rightarrow> (int \<Rightarrow> int \<Rightarrow> (nat \<times> string list) list \<Rightarrow> script) \<Rightarrow> script" where
  "MysqlQuery orderid url sql expected_fields k =
     SLook (\<lambda>t. SCall (AddMysql orderid (t_trans_id t) url sql) (\<lambda>ok.
       if ok = 0 then k E_MYSQL_ERROR 0 []
       else SWait E_WAIT_MYSQL (mysql_woken expected_fields k)))"

text \<open>\<^verbatim>\<open>RedisExecute\<close>: on an error code it returns before \<^verbatim>\<open>_redis_rsp = 0\<close>.\<close>

definition redis_woken :: "(int \<Rightarrow> string option \<Rightarrow> script) \<Rightarrow> wait_return \<Rightarrow> script" where
  "redis_woken k r = SLook (\<lambda>t.
     case t_redis_rsp t of
       None \<Rightarrow> k E_REDIS_ERROR None
     | Some q \<Rightarrow> SDeref q (\<lambda>l. case l of
           LRedis rsp \<Rightarrow>
             if rd_err_code rsp \<noteq> 0 then k E_REDIS_ERROR None
             else SSet ClearRedis (k 0 (Some (rd_reply rsp)))
         | _ \<Rightarrow> SFault))"

definition RedisExecute :: "u16 \<Rightarrow> string \<Rightarrow> string list \<Rightarrow> (int \<Rightarrow> string option \<Rightarrow> script) \<Rightarrow> script" where
  "RedisExecute orderid url rcmd k =
     SLook (\<lambda>t. SCall (AddRedis orderid (t_trans_id t) url rcmd) (\<lambda>ok.
       if ok = 0 then k E_REDIS_ERROR None
       else SWait E_WAIT_REDIS (redis_woken k)))"

text \<open>\<^verbatim>\<open>InCoroutine\<close> of a one-way and of a two-way transaction.\<close>

definition OneWay_InCoroutine :: "(byte list \<Rightarrow> 'm option) \<Rightarrow> ('m \<Rightarrow> (int \<Rightarrow> script) \<Rightarrow> script) \<Rightarrow> script" where
  "OneWay_InCoroutine parse on_request =
     T_ParseMsg parse (\<lambda>r. case r of None \<Rightarrow> SRet (-1) | Some req \<Rightarrow> on_request req (\<lambda>_. SRet 0))"

definition TwoWay_reply :: "byte list \<Rightarrow> (int \<Rightarrow> script) \<Rightarrow> script" where
  "TwoWay_reply respond k =
     T_cur_frame (\<lambda>f. SLook (\<lambda>t.
       SCall (SendFrame (t_cmd t + 1) (t_userid t) False (src_zone (t_ori_frame t))
           (src_svr_type (t_ori_frame t)) (src_inst_id (t_ori_frame t)) (t_trans_id t)
           (src_trans_id (t_ori_frame t)) (req_random f) respond) k))"

definition TwoWay_InCoroutine :: "(byte list \<Rightarrow> 'm option) \<Rightarrow> ('m \<Rightarrow> (int \<Rightarrow> byte list \<Rightarrow> script) \<Rightarrow> script)
    \<Rightarrow> script" where
  "TwoWay_InCoroutine parse on_request =
     T_ParseMsg parse (\<lambda>r. case r of
         None \<Rightarrow> SRet (-1)
       | Some req \<Rightarrow> on_request req (\<lambda>ret respond.
           if ret = 0 then TwoWay_reply respond (\<lambda>_. SRet 0) else SRet 0))"

subsection \<open>\<^verbatim>\<open>Transaction\<close> on the main coroutine\<close>

definition T_OnIdle :: "(tk, 'a tworld) slice \<Rightarrow> nat \<Rightarrow> 'a tstate \<Rightarrow> 'a tstate mem" where
  "T_OnIdle sl a sw =
     (case sw of (s, p, m) \<Rightarrow>
        (case TM_GeneratorTransId m of (i, m1) \<Rightarrow>
           ct_doTask sl (TEnter a) (s, p, trans_set a (t_trans_id_update (\<lambda>_. i)) m1)))"

definition T_OnActive :: "(tk, 'a tworld) slice \<Rightarrow> nat \<Rightarrow> 'a tstate \<Rightarrow> 'a tstate mem" where
  "T_OnActive sl a sw =
     (let co = t_co_id (m_obj (snd (snd sw)) a)
      in if co \<noteq> 0 then ct_resumeTask sl co sw else Some sw)"

definition T_OnTimeOut :: "(tk, 'a tworld) slice \<Rightarrow> nat \<Rightarrow> 'a tstate \<Rightarrow> 'a tstate mem" where
  "T_OnTimeOut sl a sw =
     (case sw of (s, p, m0) \<Rightarrow>
        let m = trans_set a (t_timer_id_update (\<lambda>_. 0)) m0; co = t_co_id (m_obj m a)
        in if co \<noteq> 0 then ct_resumeTask sl co (s, p, trans_set a (t_req_random_update (\<lambda>_. 0)) m)
           else Some (s, p, m))"

definition T_OnState :: "(tk, 'a tworld) slice \<Rightarrow> nat \<Rightarrow> 'a tstate \<Rightarrow> 'a tstate mem" where
  "T_OnState sl a sw =
     Option.bind (T_CancelTimer a (snd sw)) (\<lambda>w.
       case t_state (m_obj (snd w) a) of
         E_STATE_IDLE \<Rightarrow> T_OnIdle sl a (fst sw, w)
       | E_STATE_ACTIVE \<Rightarrow> T_OnActive sl a (fst sw, w)
       | E_STATE_TIMEOUT \<Rightarrow> T_OnTimeOut sl a (fst sw, w))"

text \<open>\<^verbatim>\<open>Process\<close> of the live frame \<^verbatim>\<open>frame\<close>, whose address is \<^verbatim>\<open>q\<close>.\<close>

definition T_Process :: "(tk, 'a tworld) slice \<Rightarrow> nat \<Rightarrow> u64 \<Rightarrow> u32 \<Rightarrow> u32 \<Rightarrow> u32 \<Rightarrow> app_frame \<Rightarrow> nat
    \<Rightarrow> 'a tstate \<Rightarrow> (int \<times> 'a tstate) mem" where
  "T_Process sl a fd svr_type inst zone frame q sw =
     (case sw of (s, p, m) \<Rightarrow>
        let t = m_obj m a in
        if t_req_random t \<noteq> 0 \<and> t_req_random t \<noteq> req_random frame then Some (-1, sw)
        else
          let t1 = (if t_cur_frame_data t = None
                    then t\<lparr>t_userid := userid frame, t_cmd := cmd frame, t_fd := fd, t_self_svr_type := svr_type,
                           t_self_inst_id := inst, t_self_svr_zone := zone, t_ori_frame := frame\<rparr>
                    else t\<lparr>t_state := E_STATE_ACTIVE\<rparr>);
              t2 = t1\<lparr>t_cur_frame_data := Some q, t_cur_frame := Some q, t_cur_fd := fd\<rparr>
          in map_option (Pair 0) (T_OnState sl a (s, p, trans_set a (\<lambda>_. t2) m)))"

definition T_ProcessMysqlRsp :: "(tk, 'a tworld) slice \<Rightarrow> nat \<Rightarrow> nat \<Rightarrow> 'a tstate \<Rightarrow> 'a tstate mem" where
  "T_ProcessMysqlRsp sl a q sw =
     (case sw of (s, p, m) \<Rightarrow>
        T_OnState sl a (s, p, trans_set a (\<lambda>t. t\<lparr>t_mysql_rsp := Some q, t_state := E_STATE_ACTIVE\<rparr>) m))"

definition T_ProcessRedisRsp :: "(tk, 'a tworld) slice \<Rightarrow> nat \<Rightarrow> nat \<Rightarrow> 'a tstate \<Rightarrow> 'a tstate mem" where
  "T_ProcessRedisRsp sl a q sw =
     (case sw of (s, p, m) \<Rightarrow>
        T_OnState sl a (s, p, trans_set a (\<lambda>t. t\<lparr>t_redis_rsp := Some q, t_state := E_STATE_ACTIVE\<rparr>) m))"

subsection \<open>The calls of the main loop\<close>

text \<open>The main loop hands something over: it is live during the call.\<close>

definition hand_over :: "live \<Rightarrow> 'a tstate \<Rightarrow> nat \<times> 'a tstate" where
  "hand_over l sw =
     (case sw of (s, p, m) \<Rightarrow>
        (m_serial m, s, p, m\<lparr>m_live := Some (m_serial m, l), m_serial := m_serial m + 1\<rparr>))"

definition release :: "'a tstate \<Rightarrow> 'a tstate" where
  "release sw = (case sw of (s, p, m) \<Rightarrow> (s, p, m\<lparr>m_live := None\<rparr>))"

definition TM_ProcessFrame :: "(tk, 'a tworld) slice \<Rightarrow> u64 \<Rightarrow> u32 \<Rightarrow> u32 \<Rightarrow> u32 \<Rightarrow> app_frame \<Rightarrow> byte list
    \<Rightarrow> 'a tstate \<Rightarrow> (int \<times> 'a tstate) mem" where
  "TM_ProcessFrame sl fd svr_type inst zone frame data sw0 =
     (case hand_over (LFrame frame data) sw0 of (q, s, p, m) \<Rightarrow>
        map_option (\<lambda>(r, sw). (r, release sw))
          (if dst_trans_id frame > 0 then
             (case TM_GetTransaction (dst_trans_id frame) m of
                Some a \<Rightarrow> map_option (\<lambda>(_, sw). (0, sw)) (T_Process sl a fd svr_type inst zone frame q (s, p, m))
              | None \<Rightarrow> Some (-1, s, p, m))
           else
             (case TM_CreateTransaction (cmd frame) m of
                (Some a, m1) \<Rightarrow> map_option (\<lambda>(_, sw). (0, sw)) (T_Process sl a fd svr_type inst zone frame q (s, p, m1))
              | (None, m1) \<Rightarrow> Some (-1, s, p, m1))))"

definition TM_ProcessMysqlRsp :: "(tk, 'a tworld) slice \<Rightarrow> mysql_rsp \<Rightarrow> 'a tstate \<Rightarrow> 'a tstate mem" where
  "TM_ProcessMysqlRsp sl rsp sw0 =
     (case hand_over (LMysql rsp) sw0 of (q, s, p, m) \<Rightarrow>
        map_option release
          (case TM_GetTransaction (my_trans_id rsp) m of
             Some a \<Rightarrow> T_ProcessMysqlRsp sl a q (s, p, m)
           | None \<Rightarrow> Some (s, p, m)))"

definition TM_ProcessRedisRsp :: "(tk, 'a tworld) slice \<Rightarrow> redis_rsp \<Rightarrow> 'a tstate \<Rightarrow> 'a tstate mem" where
  "TM_ProcessRedisRsp sl rsp sw0 =
     (case hand_over (LRedis rsp) sw0 of (q, s, p, m) \<Rightarrow>
        map_option release
          (case TM_GetTransaction (rd_trans_id rsp) m of
             Some a \<Rightarrow> T_ProcessRedisRsp sl a q (s, p, m)
           | None \<Rightarrow> Some (s, p, m)))"

definition TM_TimerCallback :: "(tk, 'a tworld) slice \<Rightarrow> u32 \<Rightarrow> 'a tstate \<Rightarrow> 'a tstate mem" where
  "TM_TimerCallback sl tid sw =
     (case sw of (s, p, m) \<Rightarrow>
        (case TM_GetTransaction tid m of
           Some a \<Rightarrow> T_OnState sl a (s, p, trans_set a (t_state_update (\<lambda>_. E_STATE_TIMEOUT)) m)
         | None \<Rightarrow> Some sw))"

text \<open>A timer callback on the pool and the rest.\<close>

definition timer_cb :: "(tk, 'a tworld) slice \<Rightarrow> (u32, tk cos \<times> 'a tm) timer_run" where
  "timer_cb sl tid pw =
     (case pw of (p, s, m) \<Rightarrow>
        map_option (\<lambda>(s2, p2, m2). (p2, s2, m2)) (TM_TimerCallback sl tid (s, p, m)))"

definition TM_Update :: "(tk, 'a tworld) slice \<Rightarrow> int \<Rightarrow> 'a tstate \<Rightarrow> 'a tstate mem" where
  "TM_Update sl now sw =
     (case sw of (s, p, m) \<Rightarrow>
        map_option (\<lambda>(_, p2, s2, m2).
            (s2, p2, if now div 1000 - m_last_check m2 div 1000 > 60 then m2\<lparr>m_last_check := now\<rparr> else m2))
          (tp_Update (timer_cb sl) now (p, s, m)))"

text \<open>A run of the main loop: the clock advances and the loop makes its calls.\<close>

datatype tevent =
    EvClock int
  | EvUpdate
  | EvFrame u64 u32 u32 u32 app_frame "byte list"
  | EvMysql mysql_rsp
  | EvRedis redis_rsp

fun tm_step :: "(tk, 'a tworld) slice \<Rightarrow> tevent \<Rightarrow> 'a tstate \<Rightarrow> 'a tstate mem" where
  "tm_step sl (EvClock t) (s, p, m) = Some (s, p, m\<lparr>m_now := t\<rparr>)"
| "tm_step sl EvUpdate (s, p, m) = TM_Update sl (m_now m) (s, p, m)"
| "tm_step sl (EvFrame fd ty inst zone f d) sw = map_option snd (TM_ProcessFrame sl fd ty inst zone f d sw)"
| "tm_step sl (EvMysql r) sw = TM_ProcessMysqlRsp sl r sw"
| "tm_step sl (EvRedis r) sw = TM_ProcessRedisRsp sl r sw"

end
