(* ===== verification/Transaction_Safe.thy ===== *)
theory Transaction_Safe
  imports Transaction
begin

text \<open>
  The invariant of the transaction manager, kept by every call of the main loop, and the
  properties of the waiting operations.  Every active transaction is an object of its
  own, suspended in \<^verbatim>\<open>Wait\<close> on a coroutine of its own, and every suspended coroutine
  belongs to exactly one active transaction; no object is active and free at once.
\<close>

definition act_ok :: "(int \<Rightarrow> tk option) \<Rightarrow> 'a tm \<Rightarrow> u32 \<Rightarrow> nat \<Rightarrow> bool" where
  "act_ok ts m i a \<longleftrightarrow> a < m_next_obj m \<and> t_trans_id (m_obj m a) = i \<and> t_timer_id (m_obj m a) = 0
     \<and> 1 \<le> t_co_id (m_obj m a) \<and> (\<exists>c. ts (t_co_id (m_obj m a)) = Some (TWait a c))
     \<and> t_cmd (m_obj m a) = t_class (m_obj m a) \<and> m_bucket m (t_class (m_obj m a)) \<noteq> None
     \<and> t_cur_frame_data (m_obj m a) \<noteq> None"

definition task_ok :: "'a tm \<Rightarrow> int \<Rightarrow> tk \<Rightarrow> bool" where
  "task_ok m co k \<longleftrightarrow> (\<exists>a c. k = TWait a c \<and> m_active m (t_trans_id (m_obj m a)) = Some a
     \<and> t_co_id (m_obj m a) = co)"

definition free_ok :: "'a tm \<Rightarrow> u32 \<Rightarrow> nat list \<Rightarrow> bool" where
  "free_ok m c l \<longleftrightarrow> distinct l
     \<and> (\<forall>a \<in> set l. a < m_next_obj m \<and> t_class (m_obj m a) = c \<and> a \<notin> ran (m_active m))"

definition trans_inv :: "(int \<Rightarrow> tk option) \<Rightarrow> 'a tm \<Rightarrow> bool" where
  "trans_inv ts m \<longleftrightarrow> (\<forall>i a. m_active m i = Some a \<longrightarrow> act_ok ts m i a)
     \<and> (\<forall>co k. ts co = Some k \<longrightarrow> task_ok m co k)
     \<and> (\<forall>c l. m_bucket m c = Some l \<longrightarrow> free_ok m c l)
     \<and> finite (dom (m_active m)) \<and> TM_GetActiveTransCnt m \<le> m_max m + 1"

definition trans_ok :: "'a tstate \<Rightarrow> bool" where
  "trans_ok sw \<longleftrightarrow> cos_ok (fst sw) \<and> trans_inv (susp (fst sw)) (snd (snd sw))"

text \<open>The members of an object that the invariant speaks about.\<close>

definition core :: "trans \<Rightarrow> u32 \<times> u32 \<times> u32 \<times> int \<times> u64 \<times> bool" where
  "core t = (t_class t, t_trans_id t, t_cmd t, t_co_id t, t_timer_id t, t_cur_frame_data t = None)"

definition same_tm :: "'a tm \<Rightarrow> 'a tm \<Rightarrow> bool" where
  "same_tm m m' \<longleftrightarrow> m_active m' = m_active m \<and> m_bucket m' = m_bucket m \<and> m_next_obj m' = m_next_obj m
     \<and> m_max m' = m_max m \<and> m_gen m' = m_gen m \<and> (\<forall>a. core (m_obj m' a) = core (m_obj m a))"

lemma same_tm_trans: "\<lbrakk>same_tm m m1; same_tm m1 m2\<rbrakk> \<Longrightarrow> same_tm m m2"
  by (simp add: same_tm_def)

lemma same_tm_refl [simp]: "same_tm m m"
  by (simp add: same_tm_def)

lemma same_tm_set [simp]: "same_tm m (trans_set a f m) = (core (f (m_obj m a)) = core (m_obj m a))"
  by (auto simp: same_tm_def trans_set_def)

lemma coreD:
  "core t = core u \<Longrightarrow> t_class t = t_class u \<and> t_trans_id t = t_trans_id u \<and> t_cmd t = t_cmd u
     \<and> t_co_id t = t_co_id u \<and> t_timer_id t = t_timer_id u \<and> (t_cur_frame_data t = None) = (t_cur_frame_data u = None)"
  by (simp add: core_def)

lemma same_tmD:
  assumes "same_tm m m'"
  shows "m_active m' = m_active m" "m_bucket m' = m_bucket m" "m_next_obj m' = m_next_obj m" "m_max m' = m_max m"
    "t_class (m_obj m' a) = t_class (m_obj m a)" "t_trans_id (m_obj m' a) = t_trans_id (m_obj m a)"
    "t_cmd (m_obj m' a) = t_cmd (m_obj m a)" "t_co_id (m_obj m' a) = t_co_id (m_obj m a)"
    "t_timer_id (m_obj m' a) = t_timer_id (m_obj m a)"
    "(t_cur_frame_data (m_obj m' a) = None) = (t_cur_frame_data (m_obj m a) = None)"
  using assms coreD [of "m_obj m' a" "m_obj m a"] by (auto simp: same_tm_def)

lemma trans_inv_same: "same_tm m m' \<Longrightarrow> trans_inv ts m' = trans_inv ts m"
  by (simp add: trans_inv_def act_ok_def task_ok_def free_ok_def TM_GetActiveTransCnt_def same_tmD [of m m'])

lemma trans_invD:
  assumes "trans_inv ts m"
  shows "m_active m i = Some a \<Longrightarrow> act_ok ts m i a" "ts co = Some k \<Longrightarrow> task_ok m co k"
    "m_bucket m c = Some l \<Longrightarrow> free_ok m c l" "finite (dom (m_active m))"
    "TM_GetActiveTransCnt m \<le> m_max m + 1"
  using assms by (simp_all add: trans_inv_def)

subsection \<open>A slice keeps the invariant\<close>

lemma core_setter [simp]: "core (run_setter f t) = core t"
  by (cases f) (simp_all add: core_def)

lemma T_CancelTimer_none: "t_timer_id (m_obj (snd w) a) = 0 \<Longrightarrow> T_CancelTimer a w = Some w"
  by (simp add: T_CancelTimer_def Let_def)

lemma T_SetTimer_same:
  "\<lbrakk>t_timer_id (m_obj (snd w) a) = 0; T_SetTimer a iv w = Some w2\<rbrakk> \<Longrightarrow> snd w2 = snd w"
  by (auto simp: T_SetTimer_def T_CancelTimer_none TM_AddTimer_def)

lemma run_script_same:
  assumes "run_script env a sc w = Some (w2, r)" "t_timer_id (m_obj (snd w) a) = 0"
  shows "same_tm (snd w) (snd w2) \<and> (\<forall>b. b \<noteq> a \<longrightarrow> m_obj (snd w2) b = m_obj (snd w) b)
    \<and> m_live (snd w2) = m_live (snd w) \<and> m_serial (snd w2) = m_serial (snd w)"
  using assms
proof (induction sc arbitrary: w)
  case (SSet f c)
  have "t_timer_id (run_setter f (m_obj (snd w) a)) = 0"
    using coreD [OF core_setter] SSet.prems(2) by metis
  moreover have "same_tm (snd w) (trans_set a (run_setter f) (snd w))" by simp
  ultimately show ?case
    using SSet.IH [of "(fst w, trans_set a (run_setter f) (snd w))"] SSet.prems(1)
      same_tm_trans [of "snd w" "trans_set a (run_setter f) (snd w)" "snd w2"]
    by (auto simp del: same_tm_set simp: trans_set_def [of a])
next
  case (SLook k)
  then show ?case using SLook.IH [OF rangeI] by simp
next
  case (SDeref q k)
  then show ?case using SDeref.IH [OF rangeI] by (auto split: option.splits if_splits prod.splits)
next
  case (SRand k)
  then show ?case using SRand.IH [OF rangeI] by simp
next
  case (SCall c k)
  obtain x r where x: "env c (m_app (snd w)) = Some (x, r)"
    using SCall.prems(1) by (auto split: option.splits)
  let ?w = "(fst w, (snd w)\<lparr>m_app := x\<rparr>)"
  have "same_tm (snd w) (snd ?w)" by (simp add: same_tm_def)
  then show ?case
    using SCall.IH [OF rangeI, of r ?w] SCall.prems x same_tm_trans [of "snd w" "snd ?w" "snd w2"] by simp
next
  case (SWait iv k)
  then have "T_SetTimer a iv w = Some w2" by (auto split: if_splits)
  then have "snd w2 = snd w" by (rule T_SetTimer_same [OF SWait.prems(2)])
  then show ?case by simp
qed simp_all

text \<open>While it runs, a transaction is already active and owns its coroutine.\<close>

lemma T_finish_inv:
  assumes inv: "trans_inv (ts(co := Some (TWait a c0))) m" and act: "m_active m i = Some a"
    and same: "same_tm m m'" and co: "t_co_id (m_obj m a) = co"
    and fin: "T_finish a ((p, m'), r) = ((p2, m2), k)"
  shows "trans_inv (ts(co := k)) m2"
proof (cases r)
  case (Some c)
  have "trans_inv (ts(co := Some (TWait a c))) m"
    using inv co unfolding trans_inv_def act_ok_def task_ok_def by (auto split: if_splits)
  then show ?thesis using fin Some trans_inv_same [OF same] by (auto simp: T_finish_def)
next
  case None
  have inv': "trans_inv (ts(co := Some (TWait a c0))) m'" using inv trans_inv_same [OF same] by simp
  have act': "m_active m' i = Some a" using act same by (simp add: same_tmD)
  have co': "t_co_id (m_obj m' a) = co" using co same by (simp add: same_tmD)
  have ok: "act_ok (ts(co := Some (TWait a c0))) m' i a" by (rule trans_invD(1) [OF inv' act'])
  then obtain l where l: "m_bucket m' (t_class (m_obj m' a)) = Some l" "t_cmd (m_obj m' a) = t_class (m_obj m' a)"
      "t_trans_id (m_obj m' a) = i" "a < m_next_obj m'"
    by (auto simp: act_ok_def)
  have m2: "m2 = m'\<lparr>m_active := (m_active m')(i := None),
      m_bucket := (m_bucket m')(t_class (m_obj m' a) \<mapsto> a # l)\<rparr>" and k: "k = None"
    using fin None l by (auto simp: T_finish_def T_end_def TM_RecyleTransaction_def)
  have only: "m_active m' j = Some a \<Longrightarrow> j = i" for j
    using trans_invD(1) [OF inv', of j a] l(3) by (simp add: act_ok_def)
  have notfree: "a \<notin> set l" using trans_invD(3) [OF inv' l(1)] act' by (auto simp: free_ok_def ran_def)
  show ?thesis
    unfolding k trans_inv_def
  proof (intro conjI allI impI)
    fix j b assume j: "m_active m2 j = Some b"
    then have "m_active m' j = Some b" "j \<noteq> i" using m2 by (auto split: if_splits)
    then have bok: "act_ok (ts(co := Some (TWait a c0))) m' j b" "b \<noteq> a" using trans_invD(1) [OF inv'] only by auto
    then have "t_co_id (m_obj m' b) \<noteq> co" by (auto simp: act_ok_def split: if_splits)
    then show "act_ok (ts(co := None)) m2 j b" using bok m2 by (auto simp: act_ok_def)
  next
    fix co2 k2 assume "(ts(co := None)) co2 = Some k2"
    then have h: "(ts(co := Some (TWait a c0))) co2 = Some k2" "co2 \<noteq> co" by (auto split: if_splits)
    then obtain b c where b: "k2 = TWait b c" "m_active m' (t_trans_id (m_obj m' b)) = Some b" "t_co_id (m_obj m' b) = co2"
      using trans_invD(2) [OF inv' h(1)] by (auto simp: task_ok_def)
    then have "b \<noteq> a" using h(2) co' by auto
    then have "t_trans_id (m_obj m' b) \<noteq> i" using b(2) act' by auto
    then show "task_ok m2 co2 k2" using b m2 by (auto simp: task_ok_def)
  next
    fix c ll assume c: "m_bucket m2 c = Some ll"
    have sub: "ran (m_active m2) \<subseteq> ran (m_active m')" using m2 by (auto simp: ran_def)
    have "a \<notin> ran (m_active m2)" using only m2 by (auto simp: ran_def)
    moreover have "free_ok m' (t_class (m_obj m' a)) l" by (rule trans_invD(3) [OF inv' l(1)])
    ultimately show "free_ok m2 c ll"
      using c sub l(4) notfree m2 trans_invD(3) [OF inv', of c ll]
      by (auto simp: free_ok_def split: if_splits)
  next
    show "finite (dom (m_active m2))" using trans_invD(4) [OF inv'] m2 by simp
    have "card (dom (m_active m2)) \<le> card (dom (m_active m'))"
      using trans_invD(4) [OF inv'] m2 by (intro card_mono) auto
    then show "TM_GetActiveTransCnt m2 \<le> m_max m2 + 1"
      using trans_invD(5) [OF inv'] m2 by (simp add: TM_GetActiveTransCnt_def)
  qed
qed


text \<open>Resuming the transaction of object \<^term>\<open>a\<close>.\<close>

definition only_obj :: "nat \<Rightarrow> 'a tm \<Rightarrow> 'a tm \<Rightarrow> bool" where
  "only_obj a m m2 \<longleftrightarrow> (\<forall>b. b \<noteq> a \<longrightarrow> m_obj m2 b = m_obj m b)
     \<and> (\<forall>i b. b \<noteq> a \<longrightarrow> (m_active m2 i = Some b) = (m_active m i = Some b))"

lemma T_end_only:
  assumes "m_active m i = Some a" "t_trans_id (m_obj m a) = i" "\<forall>b. b \<noteq> a \<longrightarrow> m_obj m b = m_obj m0 b" "m_active m = m_active m0"
  shows "only_obj a m0 (T_end a m)"
  using assms by (auto simp: only_obj_def T_end_def TM_RecyleTransaction_def split: option.splits)

lemma slice_run:
  assumes run: "run_script env a sc (p, m) = Some (w2, r)"
    and fin: "T_finish a (w2, r) = ((p2, m2), k)"
    and inv: "trans_inv (ts(co := Some (TWait a c0))) m" and act: "m_active m i = Some a"
    and co: "t_co_id (m_obj m a) = co"
  shows "trans_inv (ts(co := k)) m2 \<and> only_obj a m m2"
proof -
  have ok: "act_ok (ts(co := Some (TWait a c0))) m i a" by (rule trans_invD(1) [OF inv act])
  then have t0: "t_timer_id (m_obj (snd (p, m)) a) = 0" "t_trans_id (m_obj m a) = i" by (simp_all add: act_ok_def)
  have s: "same_tm m (snd w2)" "\<forall>b. b \<noteq> a \<longrightarrow> m_obj (snd w2) b = m_obj m b"
    using run_script_same [OF run t0(1)] by simp_all
  have "T_finish a ((fst w2, snd w2), r) = ((p2, m2), k)" using fin by simp
  then have "trans_inv (ts(co := k)) m2" by (rule T_finish_inv [OF inv act s(1) co])
  moreover have "only_obj a m m2"
  proof (cases r)
    case None
    then have "m2 = T_end a (snd w2)" using fin by (simp add: T_finish_def)
    moreover have "m_active (snd w2) i = Some a" "t_trans_id (m_obj (snd w2) a) = i" "m_active (snd w2) = m_active m"
      using s(1) act t0(2) by (simp_all add: same_tmD)
    ultimately show ?thesis using T_end_only [of "snd w2" i a m] s(2) by simp
  next
    case (Some c)
    then have "m2 = snd w2" using fin by (auto simp: T_finish_def)
    then show ?thesis using s by (simp add: only_obj_def same_tmD)
  qed
  ultimately show ?thesis ..
qed

lemma slice_wait:
  assumes "trans_slice env behave co (TWait a c) (p, m) = Some ((p2, m2), k)"
    and inv: "trans_inv ts m" and ts: "ts co = Some (TWait a c)"
  shows "trans_inv (ts(co := k)) m2 \<and> only_obj a m m2"
proof -
  let ?m = "trans_set a (t_state_update (\<lambda>_. E_STATE_IDLE)) m"
  have same: "same_tm m ?m" by (simp add: core_def)
  obtain w2 r where r: "run_script env a (c (T_woken (t_state (m_obj m a)))) (p, ?m) = Some (w2, r)"
      "T_finish a (w2, r) = ((p2, m2), k)"
    using assms(1) by (auto simp: trans_slice_def)
  have t: "m_active m (t_trans_id (m_obj m a)) = Some a" "t_co_id (m_obj m a) = co"
    using trans_invD(2) [OF inv ts] by (simp_all add: task_ok_def)
  have "ts(co := Some (TWait a c)) = ts" using ts by auto
  then have "trans_inv (ts(co := Some (TWait a c))) ?m" using inv trans_inv_same [OF same] by simp
  moreover have "m_active ?m (t_trans_id (m_obj m a)) = Some a" "t_co_id (m_obj ?m a) = co"
    using t by (simp_all add: trans_set_def)
  ultimately have "trans_inv (ts(co := k)) m2 \<and> only_obj a ?m m2" using slice_run [OF r] by blast
  moreover have "only_obj a ?m m2 \<Longrightarrow> only_obj a m m2" by (simp add: only_obj_def trans_set_def)
  ultimately show ?thesis by blast
qed

text \<open>A new transaction: its object is neither active nor free, and its id is not in use.\<close>

definition new_obj :: "'a tm \<Rightarrow> nat \<Rightarrow> bool" where
  "new_obj m a \<longleftrightarrow> a < m_next_obj m \<and> a \<notin> ran (m_active m) \<and> (\<forall>c l. m_bucket m c = Some l \<longrightarrow> a \<notin> set l)
     \<and> t_timer_id (m_obj m a) = 0 \<and> t_cmd (m_obj m a) = t_class (m_obj m a) \<and> m_bucket m (t_class (m_obj m a)) \<noteq> None
     \<and> t_cur_frame_data (m_obj m a) \<noteq> None \<and> TM_GetActiveTransCnt m \<le> m_max m"

lemma slice_enter:
  assumes sl: "trans_slice env behave co (TEnter a) (p, m) = Some ((p2, m2), k)"
    and inv: "trans_inv ts m" and new: "new_obj m a" and co: "1 \<le> co" "ts co = None"
    and fresh: "m_active m (t_trans_id (m_obj m a)) = None"
  shows "trans_inv (ts(co := k)) m2 \<and> only_obj a m m2"
proof -
  let ?i = "t_trans_id (m_obj m a)" and ?m = "T_enter co a m"
  have m: "?m = (trans_set a (t_co_id_update (\<lambda>_. co)) m)\<lparr>m_active := (m_active m)(?i \<mapsto> a)\<rparr>"
    using fresh by (simp add: T_enter_def Let_def trans_set_def)
  obtain w2 r where r: "run_script env a (behave (t_class (m_obj m a))) (p, ?m) = Some (w2, r)"
      "T_finish a (w2, r) = ((p2, m2), k)"
    using sl by (auto simp: trans_slice_def)
  have "trans_inv (ts(co := Some (TWait a (\<lambda>_. SFault)))) ?m"
    unfolding trans_inv_def
  proof (intro conjI allI impI)
    fix j b assume j: "m_active ?m j = Some b"
    show "act_ok (ts(co := Some (TWait a (\<lambda>_. SFault)))) ?m j b"
    proof (cases "j = ?i")
      case True
      then have "b = a" using j m by simp
      then show ?thesis using new True co(1) by (simp add: act_ok_def new_obj_def m trans_set_def)
    next
      case False
      then have j: "m_active m j = Some b" using j m by simp
      then have "b \<noteq> a" using new by (auto simp: new_obj_def ran_def)
      moreover have "act_ok ts m j b" by (rule trans_invD(1) [OF inv j])
      ultimately show ?thesis using co(2) by (auto simp: act_ok_def m trans_set_def)
    qed
  next
    fix co2 k2 assume h: "(ts(co := Some (TWait a (\<lambda>_. SFault)))) co2 = Some k2"
    show "task_ok ?m co2 k2"
    proof (cases "co2 = co")
      case True
      then show ?thesis using h by (auto simp: task_ok_def m trans_set_def)
    next
      case False
      then obtain b c where b: "k2 = TWait b c" "m_active m (t_trans_id (m_obj m b)) = Some b" "t_co_id (m_obj m b) = co2"
        using trans_invD(2) [OF inv, of co2 k2] h by (auto simp: task_ok_def)
      then have "b \<noteq> a" "t_trans_id (m_obj m b) \<noteq> ?i" using new fresh by (auto simp: new_obj_def ran_def)
      then show ?thesis using b by (auto simp: task_ok_def m trans_set_def)
    qed
  next
    fix c l assume l: "m_bucket ?m c = Some l"
    then have l: "m_bucket m c = Some l" by (simp add: m trans_set_def)
    then have "a \<notin> set l" using new by (simp add: new_obj_def)
    moreover have "ran (m_active ?m) = insert a (ran (m_active m))" using fresh m by simp
    ultimately show "free_ok ?m c l"
      using trans_invD(3) [OF inv l] by (auto simp: free_ok_def m trans_set_def)
  next
    show "finite (dom (m_active ?m))" using trans_invD(4) [OF inv] m by simp
    have "card (dom (m_active ?m)) = card (dom (m_active m)) + 1"
      using trans_invD(4) [OF inv] fresh m by (simp add: domIff)
    then show "TM_GetActiveTransCnt ?m \<le> m_max ?m + 1"
      using new by (simp add: TM_GetActiveTransCnt_def new_obj_def m trans_set_def)
  qed
  moreover have "m_active ?m ?i = Some a" "t_co_id (m_obj ?m a) = co" by (simp_all add: m trans_set_def)
  ultimately have "trans_inv (ts(co := k)) m2 \<and> only_obj a ?m m2" using slice_run [OF r] by blast
  moreover have "only_obj a ?m m2 \<Longrightarrow> only_obj a m m2"
    using new fresh by (auto simp: only_obj_def m trans_set_def new_obj_def ran_def)
  ultimately show ?thesis by blast
qed


subsection \<open>Every call of the main loop keeps the invariant\<close>

lemma run_callbacks_inv:
  assumes step: "\<And>cb q w q' w'. \<lbrakk>Q w; run cb (q, w) = Some (q', w')\<rbrakk> \<Longrightarrow> Q w'"
    and "Q w" "run_callbacks run ns (p, w) = Some (p2, w2)"
  shows "Q w2"
  using assms(2,3)
proof (induction ns arbitrary: p w)
  case (Cons n ns)
  obtain q v where "run (tn_cb n) (p, w) = Some (q, v)" "run_callbacks run ns (q, v) = Some (p2, w2)"
    using Cons.prems(2) by (auto simp: bind_eq_Some_conv)
  then show ?case using Cons.IH step [OF Cons.prems(1)] by blast
qed simp

lemma tp_visit_inv:
  assumes step: "\<And>cb q w q' w'. \<lbrakk>Q w; run cb (q, w) = Some (q', w')\<rbrakk> \<Longrightarrow> Q w'"
    and "Q w" "tp_visit run now i (p, w) = Some (f, p2, w2)"
  shows "Q w2"
proof (cases "tp_bucket p (i sdiv 10) (i smod 10)")
  case None
  then show ?thesis using assms(2,3) by (simp add: tp_visit_def Let_def split: if_splits)
next
  case (Some m)
  then obtain ns p1 p3 where "run_callbacks run ns (p1, w) = Some (p3, w2)"
    using assms(3) by (auto simp: tp_visit_def Let_def bind_eq_Some_conv split: if_splits option.splits)
  with step assms(2) show ?thesis by (rule run_callbacks_inv)
qed

lemma tp_Update_inv:
  assumes step: "\<And>cb q w q' w'. \<lbrakk>Q w; run cb (q, w) = Some (q', w')\<rbrakk> \<Longrightarrow> Q w'"
    and "Q w" "tp_Update run now (p, w) = Some (f, p2, w2)"
  shows "Q w2"
proof -
  have visits: "\<lbrakk>Q w; tp_visits run now is (p, w) = Some (f, p2, w2)\<rbrakk> \<Longrightarrow> Q w2" for "is" p w f p2 w2
  proof (induction "is" arbitrary: p w f)
    case (Cons i js)
    obtain f1 q v f2 where v: "tp_visit run now i (p, w) = Some (f1, q, v)" "tp_visits run now js (q, v) = Some (f2, p2, w2)"
      using Cons.prems(2) by (auto simp: bind_eq_Some_conv)
    have "Q v" by (rule tp_visit_inv [of Q run, OF step Cons.prems(1) v(1)])
    then show ?case by (rule Cons.IH [OF _ v(2)])
  qed simp
  obtain "is" f1 q where "tp_visits run now is (p, w) = Some (f1, q, w2)"
    using assms(3) by (auto simp: tp_Update_def bind_eq_Some_conv)
  then show ?thesis by (rule visits [OF assms(2)])
qed

lemma T_OnState_active:
  assumes ok: "cos_ok s" "trans_inv (susp s) m" and act: "m_active m i = Some a"
    and st: "t_state (m_obj m a) \<noteq> E_STATE_IDLE"
    and run: "T_OnState (trans_slice env behave) a (s, p, m) = Some (s2, p2, m2)"
  shows "cos_ok s2 \<and> trans_inv (susp s2) m2 \<and> only_obj a m m2"
proof -
  let ?sl = "trans_slice env behave"
  have aok: "act_ok (susp s) m i a" by (rule trans_invD(1) [OF ok(2) act])
  let ?co = "t_co_id (m_obj m a)"
  obtain c where c: "susp s ?co = Some (TWait a c)" "?co \<noteq> 0" "t_timer_id (m_obj m a) = 0"
    using aok by (auto simp: act_ok_def)
  have resume: "cos_ok s2 \<and> trans_inv (susp s2) m2 \<and> only_obj a m m2"
    if same: "same_tm m m1" "\<forall>b. b \<noteq> a \<longrightarrow> m_obj m1 b = m_obj m b"
      and r: "ct_resumeTask ?sl ?co (s, p, m1) = Some (s2, p2, m2)" for m1
  proof -
    have "trans_inv (susp s) m1" using ok(2) trans_inv_same [OF same(1)] by simp
    then have "cos_ok s2 \<and> (\<lambda>ts w. trans_inv ts (snd w) \<and> only_obj a m1 (snd w)) (susp s2) (p2, m2)"
    proof (intro ct.resume_inv [OF ok(1) c(1) r])
      fix w2 k assume "trans_inv (susp s) m1" "?sl ?co (TWait a c) (p, m1) = Some (w2, k)"
      then show "trans_inv ((susp s)(?co := k)) (snd w2) \<and> only_obj a m1 (snd w2)"
        using slice_wait [of env behave ?co a c p m1 "fst w2" "snd w2" k "susp s"] c(1) by simp
    qed
    moreover have "only_obj a m1 m2 \<Longrightarrow> only_obj a m m2"
      using same by (simp add: only_obj_def same_tmD)
    ultimately show ?thesis by simp
  qed
  show ?thesis
  proof (cases "t_state (m_obj m a)")
    case E_STATE_ACTIVE
    then have "ct_resumeTask ?sl ?co (s, p, m) = Some (s2, p2, m2)"
      using run c by (simp add: T_OnState_def T_CancelTimer_none T_OnActive_def Let_def)
    then show ?thesis by (intro resume) simp_all
  next
    case E_STATE_TIMEOUT
    let ?m = "trans_set a (t_req_random_update (\<lambda>_. 0)) (trans_set a (t_timer_id_update (\<lambda>_. 0)) m)"
    have "ct_resumeTask ?sl ?co (s, p, ?m) = Some (s2, p2, m2)"
      using run c E_STATE_TIMEOUT
      by (simp add: T_OnState_def T_CancelTimer_none T_OnTimeOut_def Let_def trans_set_def)
    moreover have "same_tm m ?m" using c(3) by (simp add: same_tm_def trans_set_def core_def)
    ultimately show ?thesis by (intro resume) (simp_all add: trans_set_def)
  qed (use st in simp)
qed

lemma new_obj_same: "\<lbrakk>same_tm m m'; new_obj m a\<rbrakk> \<Longrightarrow> new_obj m' a"
  by (simp add: new_obj_def same_tmD TM_GetActiveTransCnt_def)

lemma T_OnIdle_new:
  assumes ok: "cos_ok s" "trans_inv (susp s) m" and new: "new_obj m a" and fresh: "m_active m (m_gen m) = None"
    and run: "T_OnIdle (trans_slice env behave) a (s, p, m) = Some (s2, p2, m2)"
  shows "cos_ok s2 \<and> trans_inv (susp s2) m2 \<and> only_obj a m m2"
proof -
  let ?sl = "trans_slice env behave"
  let ?m = "trans_set a (t_trans_id_update (\<lambda>_. m_gen m)) (m\<lparr>m_gen := m_gen m + 1\<rparr>)"
  have r: "ct_doTask ?sl (TEnter a) (s, p, ?m) = Some (s2, p2, m2)"
    using run by (simp add: T_OnIdle_def TM_GeneratorTransId_def)
  have na: "a \<notin> ran (m_active m)" "\<And>c l. m_bucket m c = Some l \<Longrightarrow> a \<notin> set l" using new by (auto simp: new_obj_def)
  have inv: "trans_inv (susp s) ?m"
    unfolding trans_inv_def
  proof (intro conjI allI impI)
    fix j b assume "m_active ?m j = Some b"
    then have j: "m_active m j = Some b" by (simp add: trans_set_def)
    then have "b \<noteq> a" using na(1) by (auto simp: ran_def)
    then show "act_ok (susp s) ?m j b" using trans_invD(1) [OF ok(2) j] by (simp add: act_ok_def trans_set_def)
  next
    fix co k assume "susp s co = Some k"
    then have "task_ok m co k" by (rule trans_invD(2) [OF ok(2)])
    then show "task_ok ?m co k" using na(1) by (auto simp: task_ok_def trans_set_def ran_def)
  next
    fix c l assume "m_bucket ?m c = Some l"
    then have "m_bucket m c = Some l" by (simp add: trans_set_def)
    then show "free_ok ?m c l" using trans_invD(3) [OF ok(2)] na(2) by (auto simp: free_ok_def trans_set_def)
  qed (use trans_invD(4,5) [OF ok(2)] in \<open>simp_all add: trans_set_def TM_GetActiveTransCnt_def\<close>)
  have new': "new_obj ?m a" and fresh': "m_active ?m (t_trans_id (m_obj ?m a)) = None"
    using new fresh by (simp_all add: new_obj_def trans_set_def TM_GetActiveTransCnt_def)
  have "cos_ok s2 \<and> (\<lambda>ts w. trans_inv ts (snd w) \<and> only_obj a ?m (snd w)) (susp s2) (p2, m2)"
  proof (rule ct.start_inv [OF ok(1) r])
    fix co w2 k assume "1 \<le> co" "susp s co = None" "?sl co (TEnter a) (p, ?m) = Some (w2, k)"
    then show "trans_inv ((susp s)(co := k)) (snd w2) \<and> only_obj a ?m (snd w2)"
      using slice_enter [of env behave co a p ?m "fst w2" "snd w2" k "susp s"] inv new' fresh' by simp
  qed
  then show ?thesis by (simp add: only_obj_def trans_set_def)
qed


lemma Construct_sel [simp]:
  "t_class (Construct t) = t_class t" "t_cmd (Construct t) = t_cmd t" "t_timer_id (Construct t) = 0"
  "t_state (Construct t) = E_STATE_IDLE" "t_req_random (Construct t) = 0" "t_cur_frame_data (Construct t) = None"
  by (simp_all add: Construct_def)

lemma bucket_create_facts:
  assumes inv: "trans_inv ts m" and l: "m_bucket m c = Some l" "bucket_create c l m = (a, m1)"
  shows "m_active m1 = m_active m \<and> m_gen m1 = m_gen m \<and> m_max m1 = m_max m \<and> m_next_obj m \<le> m_next_obj m1
      \<and> a < m_next_obj m1 \<and> (\<forall>b. b \<noteq> a \<longrightarrow> m_obj m1 b = m_obj m b)
      \<and> a \<notin> ran (m_active m) \<and> (\<exists>k. m_bucket m1 = (m_bucket m)(c \<mapsto> k) \<and> distinct k \<and> set k \<subseteq> set l \<and> a \<notin> set k)
      \<and> t_timer_id (m_obj m1 a) = 0 \<and> t_class (m_obj m1 a) = c \<and> t_state (m_obj m1 a) = E_STATE_IDLE
      \<and> t_req_random (m_obj m1 a) = 0 \<and> t_cur_frame_data (m_obj m1 a) = None"
proof (cases l)
  case Nil
  then have m1: "a = m_next_obj m" "m1 = (trans_set a (\<lambda>_. Construct (trans_blank\<lparr>t_class := c, t_cmd := c\<rparr>)) m)\<lparr>m_next_obj := a + 1\<rparr>"
    using l by (auto simp: bucket_create_def)
  have "a \<notin> ran (m_active m)" using trans_invD(1) [OF inv] m1(1) by (auto simp: ran_def act_ok_def)
  then show ?thesis using m1 l Nil by (auto simp: trans_set_def fun_upd_idem)
next
  case (Cons b k)
  then have "a = b" "m1 = (trans_set a Construct m)\<lparr>m_bucket := (m_bucket m)(c \<mapsto> k)\<rparr>"
    using l by (auto simp: bucket_create_def)
  then show ?thesis using trans_invD(3) [OF inv l(1)] Cons by (auto simp: trans_set_def free_ok_def)
qed

text \<open>The object taken from a bucket, or allocated, is in no bucket any more.\<close>

lemma bucket_create_not_free:
  assumes inv: "trans_inv ts m" and l: "m_bucket m c = Some l" "bucket_create c l m = (a, m1)"
    and d: "m_bucket m1 d = Some k"
  shows "a \<notin> set k"
proof (cases "d = c")
  case True
  then show ?thesis using d bucket_create_facts [OF inv l] by auto
next
  case False
  then have "m_bucket m d = Some k" using d bucket_create_facts [OF inv l] by auto
  then have f: "free_ok m d k" by (rule trans_invD(3) [OF inv])
  show ?thesis
  proof (cases l)
    case Nil
    then show ?thesis using f l by (auto simp: bucket_create_def free_ok_def)
  next
    case (Cons b r)
    then have "a \<in> set l" using l by (auto simp: bucket_create_def)
    then show ?thesis using f trans_invD(3) [OF inv l(1)] False by (auto simp: free_ok_def)
  qed
qed

lemma bucket_create_inv:
  assumes inv: "trans_inv ts m" and l: "m_bucket m c = Some l" "bucket_create c l m = (a, m1)"
  shows "trans_inv ts m1"
proof -
  note c1 = bucket_create_facts [OF inv l]
  then obtain k where k: "m_bucket m1 = (m_bucket m)(c \<mapsto> k)" "distinct k" "set k \<subseteq> set l" "a \<notin> set k" by blast
  have na: "m_active m i = Some b \<Longrightarrow> b \<noteq> a" for i b using c1 by (auto simp: ran_def)
  show ?thesis
    unfolding trans_inv_def
  proof (intro conjI allI impI)
    fix i b assume "m_active m1 i = Some b"
    then have i: "m_active m i = Some b" using c1 by simp
    then have "b \<noteq> a" by (rule na)
    then show "act_ok ts m1 i b" using trans_invD(1) [OF inv i] c1 k by (auto simp: act_ok_def)
  next
    fix co t assume t: "ts co = Some t"
    show "task_ok m1 co t" using trans_invD(2) [OF inv t] c1 na by (auto simp: task_ok_def)
  next
    fix d k' assume d: "m_bucket m1 d = Some k'"
    show "free_ok m1 d k'"
    proof (cases "d = c")
      case True
      then have "k' = k" using d k by simp
      then show ?thesis using trans_invD(3) [OF inv l(1)] k c1 True by (fastforce simp: free_ok_def)
    next
      case False
      then have "free_ok m d k'" using d k trans_invD(3) [OF inv] by simp
      then show ?thesis using bucket_create_not_free [OF inv l d] c1 by (fastforce simp: free_ok_def)
    qed
  qed (use trans_invD(4,5) [OF inv] c1 in \<open>simp_all add: TM_GetActiveTransCnt_def\<close>)
qed

lemma TM_CreateTransaction_ok:
  assumes inv: "trans_inv ts m" and cr: "TM_CreateTransaction c m = (Some a, m1)"
  shows "trans_inv ts m1" "m_active m1 = m_active m" "m_gen m1 = m_gen m" "only_obj a m m1"
    "a < m_next_obj m1" "a \<notin> ran (m_active m1)" "\<And>d l. m_bucket m1 d = Some l \<Longrightarrow> a \<notin> set l"
    "t_timer_id (m_obj m1 a) = 0" "t_class (m_obj m1 a) = c" "m_bucket m1 c \<noteq> None"
    "TM_GetActiveTransCnt m1 \<le> m_max m1" "t_state (m_obj m1 a) = E_STATE_IDLE" "t_req_random (m_obj m1 a) = 0"
    "t_cur_frame_data (m_obj m1 a) = None"
proof -
  obtain l where l: "m_bucket m c = Some l" "TM_GetActiveTransCnt m \<le> m_max m" "bucket_create c l m = (a, m1)"
    using cr by (auto simp: TM_CreateTransaction_def split: if_splits option.splits prod.splits)
  note c1 = bucket_create_facts [OF inv l(1,3)]
  show "trans_inv ts m1" by (rule bucket_create_inv [OF inv l(1,3)])
  show "\<And>d l. m_bucket m1 d = Some l \<Longrightarrow> a \<notin> set l" by (rule bucket_create_not_free [OF inv l(1,3)])
  show "TM_GetActiveTransCnt m1 \<le> m_max m1" using l(2) c1 by (simp add: TM_GetActiveTransCnt_def)
  show "m_active m1 = m_active m" "m_gen m1 = m_gen m" "only_obj a m m1" "a < m_next_obj m1" "a \<notin> ran (m_active m1)"
    "t_timer_id (m_obj m1 a) = 0" "t_class (m_obj m1 a) = c" "m_bucket m1 c \<noteq> None"
    "t_state (m_obj m1 a) = E_STATE_IDLE" "t_req_random (m_obj m1 a) = 0" "t_cur_frame_data (m_obj m1 a) = None"
    using c1 by (auto simp: only_obj_def)
qed

lemma TM_CreateTransaction_none: "TM_CreateTransaction c m = (None, m1) \<Longrightarrow> m1 = m"
  by (auto simp: TM_CreateTransaction_def split: if_splits option.splits prod.splits)


text \<open>\<^verbatim>\<open>Process\<close>, for an active transaction and for a new one.\<close>

lemma T_Process_active:
  assumes ok: "cos_ok s" "trans_inv (susp s) m" and act: "m_active m i = Some a"
    and run: "T_Process (trans_slice env behave) a fd ty inst zone f q (s, p, m) = Some (r, s2, p2, m2)"
  shows "cos_ok s2 \<and> trans_inv (susp s2) m2 \<and> only_obj a m m2"
proof (cases "t_req_random (m_obj m a) \<noteq> 0 \<and> t_req_random (m_obj m a) \<noteq> req_random f")
  case True
  then show ?thesis using run ok by (simp add: T_Process_def Let_def only_obj_def)
next
  case False
  let ?t = "(m_obj m a)\<lparr>t_state := E_STATE_ACTIVE, t_cur_frame_data := Some q, t_cur_frame := Some q, t_cur_fd := fd\<rparr>"
  let ?m = "trans_set a (\<lambda>_. ?t) m"
  have d: "t_cur_frame_data (m_obj m a) \<noteq> None" using trans_invD(1) [OF ok(2) act] by (simp add: act_ok_def)
  then have same: "same_tm m ?m" by (simp add: core_def)
  have "T_OnState (trans_slice env behave) a (s, p, ?m) = Some (s2, p2, m2)"
    using run False d by (auto simp: T_Process_def Let_def)
  moreover have "trans_inv (susp s) ?m" "m_active ?m i = Some a" "t_state (m_obj ?m a) \<noteq> E_STATE_IDLE"
    using ok(2) trans_inv_same [OF same] act by (simp_all add: trans_set_def)
  ultimately have "cos_ok s2 \<and> trans_inv (susp s2) m2 \<and> only_obj a ?m m2"
    using T_OnState_active [OF ok(1)] by blast
  then show ?thesis by (simp add: only_obj_def trans_set_def)
qed

lemma T_Process_new:
  assumes ok: "cos_ok s" "trans_inv (susp s) m" and cr: "TM_CreateTransaction (cmd f) m = (Some a, m1)"
    and fresh: "m_active m (m_gen m) = None"
    and run: "T_Process (trans_slice env behave) a fd ty inst zone f q (s, p, m1) = Some (r, s2, p2, m2)"
  shows "cos_ok s2 \<and> trans_inv (susp s2) m2 \<and> only_obj a m m2"
proof -
  note c = TM_CreateTransaction_ok [OF ok(2) cr]
  obtain t2 where t2: "T_OnState (trans_slice env behave) a (s, p, trans_set a (\<lambda>_. t2) m1) = Some (s2, p2, m2)"
      "t_class t2 = t_class (m_obj m1 a)" "t_cmd t2 = cmd f" "t_timer_id t2 = 0" "t_state t2 = E_STATE_IDLE"
      "t_cur_frame_data t2 = Some q"
    using run c(8,12-14) by (auto simp: T_Process_def Let_def)
  let ?m = "trans_set a (\<lambda>_. t2) m1"
  have idle: "T_OnIdle (trans_slice env behave) a (s, p, ?m) = Some (s2, p2, m2)"
    using t2(1,4,5) by (simp add: T_OnState_def T_CancelTimer_none trans_set_def)
  have inv: "trans_inv (susp s) ?m"
    unfolding trans_inv_def
  proof (intro conjI allI impI)
    fix i b assume "m_active ?m i = Some b"
    then have i: "m_active m1 i = Some b" by (simp add: trans_set_def)
    then have "b \<noteq> a" using c(6) by (auto simp: ran_def)
    then show "act_ok (susp s) ?m i b" using trans_invD(1) [OF c(1) i] by (simp add: act_ok_def trans_set_def)
  next
    fix co k assume k: "susp s co = Some k"
    show "task_ok ?m co k" using trans_invD(2) [OF c(1) k] c(6) by (auto simp: task_ok_def trans_set_def ran_def)
  next
    fix d l assume "m_bucket ?m d = Some l"
    then have d: "m_bucket m1 d = Some l" by (simp add: trans_set_def)
    show "free_ok ?m d l" using trans_invD(3) [OF c(1) d] c(7) [OF d] by (auto simp: free_ok_def trans_set_def)
  qed (use trans_invD(4,5) [OF c(1)] in \<open>simp_all add: TM_GetActiveTransCnt_def trans_set_def\<close>)
  have new: "new_obj ?m a" and g: "m_active ?m (m_gen ?m) = None"
    using c(2,3,5-7,9-11) t2 fresh by (simp_all add: new_obj_def trans_set_def TM_GetActiveTransCnt_def)
  have "cos_ok s2 \<and> trans_inv (susp s2) m2 \<and> only_obj a ?m m2"
    by (rule T_OnIdle_new [OF ok(1) inv new g idle])
  then show ?thesis using c(4) by (auto simp: only_obj_def trans_set_def)
qed

lemma trans_inv_live [simp]: "trans_inv ts (m\<lparr>m_live := x\<rparr>) = trans_inv ts m"
  by (rule trans_inv_same) (simp add: same_tm_def)

lemma trans_inv_hand [simp]: "trans_inv ts (m\<lparr>m_serial := n\<rparr>) = trans_inv ts m"
  by (rule trans_inv_same) (simp add: same_tm_def)

lemma only_obj_live [simp]:
  "only_obj a (m\<lparr>m_live := x\<rparr>) m2 = only_obj a m m2" "only_obj a (m\<lparr>m_serial := n\<rparr>) m2 = only_obj a m m2" "only_obj a m (m2\<lparr>m_live := x\<rparr>) = only_obj a m m2"
  by (simp_all add: only_obj_def)

text \<open>The calls of the main loop.\<close>

lemma TM_ProcessFrame_ok:
  assumes ok: "trans_ok (s, p, m)" and fresh: "dst_trans_id f = 0 \<Longrightarrow> m_active m (m_gen m) = None"
    and run: "TM_ProcessFrame (trans_slice env behave) fd ty inst zone f d (s, p, m) = Some (r, s2, p2, m2)"
  shows "trans_ok (s2, p2, m2) \<and> (\<exists>a. only_obj a m m2 \<and>
    (dst_trans_id f \<noteq> 0 \<longrightarrow> (case m_active m (dst_trans_id f) of Some b \<Rightarrow> a = b | None \<Rightarrow> m_obj m2 = m_obj m \<and> m_active m2 = m_active m)))"
proof -
  let ?m = "m\<lparr>m_live := Some (m_serial m, LFrame f d), m_serial := m_serial m + 1\<rparr>"
  have o: "cos_ok s" "trans_inv (susp s) ?m" using ok by (simp_all add: trans_ok_def)
  show ?thesis
  proof (cases "dst_trans_id f = 0")
    case False
    then have pos: "0 < dst_trans_id f" by (simp add: word_greater_zero_iff)
    show ?thesis
    proof (cases "m_active m (dst_trans_id f)")
      case None
      then have "s2 = s \<and> p2 = p \<and> m2 = ?m\<lparr>m_live := None\<rparr>"
        using run pos by (simp add: TM_ProcessFrame_def hand_over_def release_def TM_GetTransaction_def)
      then show ?thesis using ok None by (auto simp: trans_ok_def only_obj_def)
    next
      case (Some a)
      then obtain r0 m3 where m3: "T_Process (trans_slice env behave) a fd ty inst zone f (m_serial m) (s, p, ?m) = Some (r0, s2, p2, m3)"
          "m2 = m3\<lparr>m_live := None\<rparr>"
        using run pos by (auto simp: TM_ProcessFrame_def hand_over_def release_def TM_GetTransaction_def)
      have "m_active ?m (dst_trans_id f) = Some a" using Some by simp
      then have "cos_ok s2 \<and> trans_inv (susp s2) m3 \<and> only_obj a ?m m3" by (rule T_Process_active [OF o _ m3(1)])
      then show ?thesis using m3(2) Some by (auto simp: trans_ok_def)
    qed
  next
    case True
    obtain oa m1 where cr: "TM_CreateTransaction (cmd f) ?m = (oa, m1)" by fastforce
    show ?thesis
    proof (cases oa)
      case None
      then have "s2 = s \<and> p2 = p \<and> m2 = ?m\<lparr>m_live := None\<rparr>"
        using run True cr TM_CreateTransaction_none [of "cmd f" ?m m1]
        by (simp add: TM_ProcessFrame_def hand_over_def release_def)
      then show ?thesis using ok True by (auto simp: trans_ok_def only_obj_def)
    next
      case (Some a)
      then obtain r0 m3 where m3: "T_Process (trans_slice env behave) a fd ty inst zone f (m_serial m) (s, p, m1) = Some (r0, s2, p2, m3)"
          "m2 = m3\<lparr>m_live := None\<rparr>"
        using run True cr by (auto simp: TM_ProcessFrame_def hand_over_def release_def)
      have "TM_CreateTransaction (cmd f) ?m = (Some a, m1)" "m_active ?m (m_gen ?m) = None"
        using cr Some fresh True by simp_all
      then have "cos_ok s2 \<and> trans_inv (susp s2) m3 \<and> only_obj a ?m m3" by (rule T_Process_new [OF o _ _ m3(1)])
      then show ?thesis using m3(2) True by (auto simp: trans_ok_def)
    qed
  qed
qed


lemma TM_rsp_ok:
  assumes ok: "trans_ok (s, p, m)" and core: "\<And>t. core (g t) = core t" and st: "\<And>t. t_state (g t) \<noteq> E_STATE_IDLE"
    and act: "m_active m i = Some a"
    and run: "T_OnState (trans_slice env behave) a (s, p, trans_set a g m) = Some (s2, p2, m2)"
  shows "trans_ok (s2, p2, m2) \<and> only_obj a m m2"
proof -
  have "same_tm m (trans_set a g m)" using core by simp
  from trans_inv_same [OF this] have "trans_inv (susp s) (trans_set a g m)" using ok by (simp add: trans_ok_def)
  moreover have "t_state (m_obj (trans_set a g m) a) \<noteq> E_STATE_IDLE" "m_active (trans_set a g m) i = Some a" "cos_ok s"
    using st act ok by (simp_all add: trans_set_def trans_ok_def)
  ultimately have "cos_ok s2 \<and> trans_inv (susp s2) m2 \<and> only_obj a (trans_set a g m) m2"
    using T_OnState_active run by blast
  then show ?thesis by (simp add: trans_ok_def only_obj_def trans_set_def)
qed

lemma trans_ok_live [simp]: "trans_ok (s, p, m\<lparr>m_live := x\<rparr>) = trans_ok (s, p, m)"
  "trans_ok (s, p, m\<lparr>m_serial := n\<rparr>) = trans_ok (s, p, m)"
  by (simp_all add: trans_ok_def)

lemma TM_ProcessMysqlRsp_ok:
  assumes ok: "trans_ok (s, p, m)"
    and run: "TM_ProcessMysqlRsp (trans_slice env behave) r (s, p, m) = Some (s2, p2, m2)"
  shows "trans_ok (s2, p2, m2)"
proof (cases "m_active m (my_trans_id r)")
  case None
  then show ?thesis using run ok by (auto simp: TM_ProcessMysqlRsp_def hand_over_def release_def TM_GetTransaction_def)
next
  case (Some a)
  let ?m = "m\<lparr>m_live := Some (m_serial m, LMysql r), m_serial := m_serial m + 1\<rparr>"
  obtain m3 where m3: "T_OnState (trans_slice env behave) a
      (s, p, trans_set a (\<lambda>t. t\<lparr>t_mysql_rsp := Some (m_serial m), t_state := E_STATE_ACTIVE\<rparr>) ?m) = Some (s2, p2, m3)"
      "m2 = m3\<lparr>m_live := None\<rparr>"
    using run Some by (auto simp: TM_ProcessMysqlRsp_def hand_over_def release_def TM_GetTransaction_def T_ProcessMysqlRsp_def)
  have "trans_ok (s, p, ?m)" "m_active ?m (my_trans_id r) = Some a" using ok Some by simp_all
  from TM_rsp_ok [OF this(1) _ _ this(2) m3(1)] m3(2) show ?thesis by (simp add: core_def)
qed

lemma TM_ProcessRedisRsp_ok:
  assumes ok: "trans_ok (s, p, m)"
    and run: "TM_ProcessRedisRsp (trans_slice env behave) r (s, p, m) = Some (s2, p2, m2)"
  shows "trans_ok (s2, p2, m2)"
proof (cases "m_active m (rd_trans_id r)")
  case None
  then show ?thesis using run ok by (auto simp: TM_ProcessRedisRsp_def hand_over_def release_def TM_GetTransaction_def)
next
  case (Some a)
  let ?m = "m\<lparr>m_live := Some (m_serial m, LRedis r), m_serial := m_serial m + 1\<rparr>"
  obtain m3 where m3: "T_OnState (trans_slice env behave) a
      (s, p, trans_set a (\<lambda>t. t\<lparr>t_redis_rsp := Some (m_serial m), t_state := E_STATE_ACTIVE\<rparr>) ?m) = Some (s2, p2, m3)"
      "m2 = m3\<lparr>m_live := None\<rparr>"
    using run Some by (auto simp: TM_ProcessRedisRsp_def hand_over_def release_def TM_GetTransaction_def T_ProcessRedisRsp_def)
  have "trans_ok (s, p, ?m)" "m_active ?m (rd_trans_id r) = Some a" using ok Some by simp_all
  from TM_rsp_ok [OF this(1) _ _ this(2) m3(1)] m3(2) show ?thesis by (simp add: core_def)
qed

lemma TM_TimerCallback_ok:
  assumes ok: "trans_ok (s, p, m)"
    and run: "TM_TimerCallback (trans_slice env behave) tid (s, p, m) = Some (s2, p2, m2)"
  shows "trans_ok (s2, p2, m2)"
proof (cases "m_active m tid")
  case None
  then show ?thesis using run ok by (simp add: TM_TimerCallback_def TM_GetTransaction_def)
next
  case (Some a)
  then have "T_OnState (trans_slice env behave) a
      (s, p, trans_set a (t_state_update (\<lambda>_. E_STATE_TIMEOUT)) m) = Some (s2, p2, m2)"
    using run by (simp add: TM_TimerCallback_def TM_GetTransaction_def)
  from TM_rsp_ok [OF ok _ _ Some this] show ?thesis by (simp add: core_def)
qed

lemma trans_ok_pool: "trans_ok (s, p, m) = trans_ok (s, q, m)"
  by (simp add: trans_ok_def)

lemma TM_Update_ok:
  assumes ok: "trans_ok (s, p, m)" and run: "TM_Update (trans_slice env behave) now (s, p, m) = Some (s2, p2, m2)"
  shows "trans_ok (s2, p2, m2)"
proof -
  obtain f m3 where m3: "tp_Update (timer_cb (trans_slice env behave)) now (p, s, m) = Some (f, p2, s2, m3)"
      "m2 = (if now div 1000 - m_last_check m3 div 1000 > 60 then m3\<lparr>m_last_check := now\<rparr> else m3)"
    using run by (auto simp: TM_Update_def)
  let ?Q = "\<lambda>w. trans_ok (fst w, p, snd w)"
  have "?Q (s2, m3)"
  proof (rule tp_Update_inv [OF _ _ m3(1), where Q = ?Q])
    fix cb q w q' w' assume w: "?Q w" and r: "timer_cb (trans_slice env behave) cb (q, w) = Some (q', w')"
    then have "TM_TimerCallback (trans_slice env behave) cb (fst w, q, snd w) = Some (fst w', q', snd w')"
      by (cases w) (auto simp: timer_cb_def)
    moreover have "trans_ok (fst w, q, snd w)" using w trans_ok_pool by blast
    ultimately have "trans_ok (fst w', q', snd w')" using TM_TimerCallback_ok by blast
    then show "?Q w'" using trans_ok_pool by blast
  qed (simp add: ok)
  then have "trans_ok (s2, p2, m3)" using trans_ok_pool by auto
  moreover have same: "same_tm m3 m2" using m3(2) by (simp add: same_tm_def)
  ultimately show ?thesis using trans_inv_same [OF same] by (simp add: trans_ok_def)
qed

text \<open>A run of the main loop, a new id being free whenever a transaction is created.\<close>

primrec run_events :: "(tk, 'a tworld) slice \<Rightarrow> tevent list \<Rightarrow> 'a tstate \<Rightarrow> 'a tstate mem" where
  "run_events sl [] sw = Some sw"
| "run_events sl (e # es) sw = Option.bind (tm_step sl e sw) (run_events sl es)"

primrec ids_free :: "(tk, 'a tworld) slice \<Rightarrow> tevent list \<Rightarrow> 'a tstate \<Rightarrow> bool" where
  "ids_free sl [] sw = True"
| "ids_free sl (e # es) sw =
     (m_active (snd (snd sw)) (m_gen (snd (snd sw))) = None
      \<and> (case tm_step sl e sw of None \<Rightarrow> True | Some sw2 \<Rightarrow> ids_free sl es sw2))"

lemma tm_step_ok:
  assumes "trans_ok sw" "m_active (snd (snd sw)) (m_gen (snd (snd sw))) = None"
    and "tm_step (trans_slice env behave) e sw = Some sw2"
  shows "trans_ok sw2"
proof -
  obtain s p m where sw: "sw = (s, p, m)" by (metis prod_cases3)
  obtain s2 p2 m2 where sw2: "sw2 = (s2, p2, m2)" by (metis prod_cases3)
  show ?thesis
  proof (cases e)
    case (EvClock t)
    moreover have same: "same_tm m (m\<lparr>m_now := t\<rparr>)" by (simp add: same_tm_def)
    ultimately show ?thesis using assms trans_inv_same [OF same] sw by (auto simp: trans_ok_def)
  next
    case EvUpdate
    then show ?thesis using assms sw sw2 TM_Update_ok [of s p m env behave "m_now m" s2 p2 m2] by simp
  next
    case (EvFrame fd ty inst zone f d)
    then show ?thesis using assms sw sw2 TM_ProcessFrame_ok [of s p m f env behave fd ty inst zone d] by auto
  next
    case (EvMysql r)
    then show ?thesis using assms sw sw2 TM_ProcessMysqlRsp_ok [of s p m env behave r s2 p2 m2] by simp
  next
    case (EvRedis r)
    then show ?thesis using assms sw sw2 TM_ProcessRedisRsp_ok [of s p m env behave r s2 p2 m2] by simp
  qed
qed

text \<open>The manager after \<^verbatim>\<open>Init\<close> and the registration of the commands \<^term>\<open>cs\<close>.\<close>

definition tm_start :: "u32 list \<Rightarrow> int \<Rightarrow> int \<Rightarrow> 'a \<Rightarrow> 'a tstate" where
  "tm_start cs mx now app =
     (cos_new, tp_new 1 now, foldr (\<lambda>c m. snd (TM_RegisterTransaction c m)) cs (TM_Init mx (TransactionMgrImpl now app)))"

lemma tm_start_ok:
  assumes "0 \<le> mx + 1"
  shows "trans_ok (tm_start cs mx now app) \<and> m_active (snd (snd (tm_start cs mx now app))) = (\<lambda>_. None)
    \<and> m_max (snd (snd (tm_start cs mx now app))) = mx"
proof (induction cs)
  case Nil
  then show ?case
    using assms cos_ok_new
    by (simp add: tm_start_def trans_ok_def trans_inv_def TM_Init_def TransactionMgrImpl_def
        susp_def cos_new_def TM_GetActiveTransCnt_def)
next
  case (Cons c cs)
  let ?m = "snd (snd (tm_start cs mx now app))"
  have "snd (snd (tm_start (c # cs) mx now app)) = snd (TM_RegisterTransaction c ?m)"
    "fst (tm_start (c # cs) mx now app) = fst (tm_start cs mx now app)"
    by (simp_all add: tm_start_def)
  then show ?case
    using Cons by (auto simp: trans_ok_def trans_inv_def TM_RegisterTransaction_def free_ok_def act_ok_def
        TM_GetActiveTransCnt_def task_ok_def split: option.splits)
qed

lemma run_events_ok:
  "\<lbrakk>trans_ok sw; ids_free (trans_slice env behave) es sw; run_events (trans_slice env behave) es sw = Some sw2\<rbrakk>
    \<Longrightarrow> trans_ok sw2"
proof (induction es arbitrary: sw)
  case (Cons e es)
  obtain sw1 where sw1: "tm_step (trans_slice env behave) e sw = Some sw1"
      "run_events (trans_slice env behave) es sw1 = Some sw2"
    using Cons.prems(3) by (auto simp only: run_events.simps bind_eq_Some_conv)
  have "m_active (snd (snd sw)) (m_gen (snd (snd sw))) = None" "ids_free (trans_slice env behave) es sw1"
    using Cons.prems(2) sw1(1) by simp_all
  then show ?case using Cons.IH sw1(2) tm_step_ok [OF Cons.prems(1) _ sw1(1)] by blast
qed simp

end
