(* ===== verification/Transaction_Props.thy ===== *)
theory Transaction_Props
  imports Transaction_Safe
begin

text \<open>
  The properties of the transaction manager: what each waiting operation returns to the
  application code, which transaction a message reaches, and where pointers and
  timers outlive their wait.
\<close>

text \<open>An active transaction, its coroutine and what resuming it does.\<close>

lemma resume_active:
  assumes ok: "trans_ok (s, p, m)" and act: "m_active m i = Some a"
  obtains c S where "susp s (t_co_id (m_obj m a)) = Some (TWait a c)" "t_co_id (m_obj m a) \<noteq> 0"
    "t_timer_id (m_obj m a) = 0"
    "\<And>(sl :: (tk, 'a tworld) slice) w. ct_resumeTask sl (t_co_id (m_obj m a)) (s, w) =
       map_option (\<lambda>(w2, r). (S r, w2)) (sl (t_co_id (m_obj m a)) (TWait a c) w)"
proof -
  have aok: "act_ok (susp s) m i a" using ok act by (auto simp: trans_ok_def trans_inv_def)
  then obtain c where c: "susp s (t_co_id (m_obj m a)) = Some (TWait a c)" by (auto simp: act_ok_def)
  have "cos_ok s" using ok by (simp add: trans_ok_def)
  then obtain S where "\<And>(sl :: (tk, 'a tworld) slice) w. ct_resumeTask sl (t_co_id (m_obj m a)) (s, w) =
       map_option (\<lambda>(w2, r). (S r, w2)) (sl (t_co_id (m_obj m a)) (TWait a c) w)"
    using ct.resume_law [OF _ c] by blast
  then show ?thesis using that c aok by (auto simp: act_ok_def)
qed

text \<open>The world in which a transaction that was waiting goes on.\<close>

definition woken_world :: "nat \<Rightarrow> 'a tm \<Rightarrow> 'a tm" where
  "woken_world a m = trans_set a (t_state_update (\<lambda>_. E_STATE_IDLE)) m"

definition timeout_world :: "nat \<Rightarrow> 'a tm \<Rightarrow> 'a tm" where
  "timeout_world a m = trans_set a (\<lambda>t. t\<lparr>t_timer_id := 0, t_req_random := 0, t_state := E_STATE_IDLE\<rparr>) m"

lemma TimerCallback_resumes:
  fixes m :: "'a tm"
  assumes ok: "trans_ok (s, p, m)" and act: "m_active m i = Some a"
    and c: "susp s (t_co_id (m_obj m a)) = Some (TWait a c)"
  shows "\<exists>S. TM_TimerCallback (trans_slice env behave) i (s, p, m) =
     map_option (\<lambda>r. case T_finish a r of (w2, k) \<Rightarrow> (S k, w2)) (run_script env a (c E_RETURN_TIMEOUT) (p, timeout_world a m))"
proof -
  obtain c' S where S: "susp s (t_co_id (m_obj m a)) = Some (TWait a c')" "t_co_id (m_obj m a) \<noteq> 0"
      "t_timer_id (m_obj m a) = 0"
      "\<And>(sl :: (tk, 'a tworld) slice) w. ct_resumeTask sl (t_co_id (m_obj m a)) (s, w) =
         map_option (\<lambda>(w2, r). (S r, w2)) (sl (t_co_id (m_obj m a)) (TWait a c') w)"
    using resume_active [OF ok act] by blast
  have "c' = c" using S(1) c by simp
  then show ?thesis
    using S act
    by (intro exI [of _ S])
      (simp add: TM_TimerCallback_def TM_GetTransaction_def T_OnState_def T_CancelTimer_none trans_set_def
        T_OnTimeOut_def Let_def trans_slice_def T_woken_def timeout_world_def option.map_comp comp_def split_beta)
qed

lemma rsp_resumes:
  fixes m m0 :: "'a tm"
  assumes ok: "trans_ok (s, p, m)" and act: "m_active m i = Some a"
    and c: "susp s (t_co_id (m_obj m a)) = Some (TWait a c)"
    and g: "\<And>t. t_state (g t) = E_STATE_ACTIVE \<and> t_co_id (g t) = t_co_id t \<and> t_timer_id (g t) = t_timer_id t"
    and m0: "m_obj m0 = m_obj m"
  shows "\<exists>S. T_OnState (trans_slice env behave) a (s, p, trans_set a g m0) =
     map_option (\<lambda>r. case T_finish a r of (w2, k) \<Rightarrow> (S k, w2))
       (run_script env a (c E_RETURN_ACTIVE) (p, woken_world a (trans_set a g m0)))"
proof -
  obtain c' S where S: "susp s (t_co_id (m_obj m a)) = Some (TWait a c')" "t_co_id (m_obj m a) \<noteq> 0"
      "t_timer_id (m_obj m a) = 0"
      "\<And>(sl :: (tk, 'a tworld) slice) w. ct_resumeTask sl (t_co_id (m_obj m a)) (s, w) =
         map_option (\<lambda>(w2, r). (S r, w2)) (sl (t_co_id (m_obj m a)) (TWait a c') w)"
    using resume_active [OF ok act] by blast
  have "c' = c" using S(1) c by simp
  then show ?thesis
    using S g m0
    by (intro exI [of _ S])
      (simp add: T_OnState_def T_CancelTimer_none trans_set_def
        T_OnActive_def Let_def trans_slice_def T_woken_def woken_world_def option.map_comp comp_def split_beta)
qed

lemma trans_ok_same: "same_tm m m' \<Longrightarrow> trans_ok (s, p, m') = trans_ok (s, q, m)"
  using trans_inv_same by (auto simp: trans_ok_def)

subsection \<open>A first transaction\<close>

text \<open>The manager with command 7 registered receives a request; used by the instances below.\<close>

definition demo_frame :: app_frame where "demo_frame = af_new\<lparr>cmd := 7, userid := 42\<rparr>"

definition demo_new :: "int \<Rightarrow> out list tm" where
  "demo_new mx =
     (let m = (snd (snd (tm_start [7] mx 0 [])))\<lparr>m_live := Some (0, LFrame demo_frame []), m_serial := 1\<rparr>
      in trans_set 0 (\<lambda>_. (Construct (trans_blank\<lparr>t_class := 7, t_cmd := 7\<rparr>))\<lparr>t_userid := 42, t_cmd := 7, t_fd := 1,
           t_self_svr_type := 2, t_self_inst_id := 3, t_self_svr_zone := 4, t_ori_frame := demo_frame,
           t_cur_frame_data := Some 0, t_cur_frame := Some 0, t_cur_fd := 1, t_trans_id := 1\<rparr>)
           (m\<lparr>m_gen := 2, m_next_obj := 1\<rparr>))"

lemma demo_first:
  fixes m1 :: "int \<Rightarrow> out list tm"
  assumes "0 \<le> mx" and run: "\<And>i. 1 \<le> i \<Longrightarrow> run_script env 0 (behave 7) (tp_new 1 0, T_enter i 0 (demo_new mx)) = Some ((p1, m1 i), Some c)"
  shows "\<exists>s i. 1 \<le> i \<and> tm_step (trans_slice env behave) (EvFrame 1 2 3 4 demo_frame []) (tm_start [7] mx 0 [])
      = Some (s, p1, (m1 i)\<lparr>m_live := None\<rparr>) \<and> susp s i = Some (TWait 0 c)
      \<and> trans_ok (s, p1, (m1 i)\<lparr>m_live := None\<rparr>)"
proof -
  let ?sl = "trans_slice env behave"
  obtain i S where S: "1 \<le> i" "\<And>r. susp (S r) = (susp cos_new)(i := r)"
      "\<And>(sl :: (tk, out list tworld) slice) w. ct_doTask sl (TEnter 0) (cos_new, w) = map_option (\<lambda>(w2, r). (S r, w2)) (sl i (TEnter 0) w)"
    using ct.start_law [OF cos_ok_new, of "TEnter 0"] by blast
  have cls: "t_class (m_obj (demo_new mx) 0) = 7"
    by (simp add: demo_new_def trans_set_def Let_def)
  have sl: "?sl i (TEnter 0) (tp_new 1 0, demo_new mx) = Some ((p1, m1 i), Some (TWait 0 c))"
    using run [OF S(1)] cls by (simp add: trans_slice_def T_finish_def)
  have step: "tm_step ?sl (EvFrame 1 2 3 4 demo_frame []) (tm_start [7] mx 0 [])
      = map_option (\<lambda>x. (fst x, fst (snd x), (snd (snd x))\<lparr>m_live := None\<rparr>)) (ct_doTask ?sl (TEnter 0) (cos_new, tp_new 1 0, demo_new mx))"
    using assms(1)
    by (simp add: tm_start_def TM_Init_def TransactionMgrImpl_def TM_RegisterTransaction_def TM_ProcessFrame_def
        hand_over_def release_def demo_frame_def af_new_def TM_CreateTransaction_def TM_GetActiveTransCnt_def
        bucket_create_def T_Process_def Let_def T_OnState_def T_CancelTimer_def trans_set_def T_OnIdle_def
        TM_GeneratorTransId_def demo_new_def option.map_comp comp_def split_beta)
  have r: "tm_step ?sl (EvFrame 1 2 3 4 demo_frame []) (tm_start [7] mx 0 []) = Some (S (Some (TWait 0 c)), p1, (m1 i)\<lparr>m_live := None\<rparr>)"
    unfolding step S(3) sl by simp
  have "trans_ok (S (Some (TWait 0 c)), p1, (m1 i)\<lparr>m_live := None\<rparr>)"
    using assms(1) tm_start_ok [of mx "[7]" 0 "[] :: out list"] by (intro tm_step_ok [OF _ _ r]) simp_all
  then show ?thesis using S(1,2) r by (intro exI [of _ "S (Some (TWait 0 c))"] exI [of _ i]) simp
qed

text \<open>Its first wait.\<close>

definition demo_pool :: "int \<Rightarrow> u32 timer_pool" where
  "demo_pool iv = snd (the (tp_AddTimer 0 iv 1 (tp_new 1 0)))"

lemma demo_wait:
  assumes "0 < iv" "iv \<le> 120000" "t_timer_id (m_obj m 0) = 0" "t_trans_id (m_obj m 0) = 1"
    "t_co_id (m_obj m 0) \<noteq> 0" "m_now m = 0"
  shows "run_script env 0 (SWait iv c) (tp_new 1 0, m) = Some ((demo_pool iv, m), Some c)"
proof -
  let ?p = "tp_new 1 0 :: u32 timer_pool"
  have "tp_ok ?p" "in_day ?p (0 + iv)" "last_slot ?p \<le> slot ?p 0"
    using assms(1,2) by (simp_all add: tp_ok_def tp_new_def nodes_at_def last_slot_def in_day_def day_ms_def slot_def)
  then obtain i q where "tp_AddTimer 0 iv 1 ?p = Some (i, q)"
    using tp_AddTimer_ok [of ?p iv 0 1] assms(1,2) by (auto simp: day_ms_def)
  then show ?thesis
    using assms by (simp add: T_SetTimer_def T_CancelTimer_none TM_AddTimer_def demo_pool_def)
qed

lemma demo_obj [simp]:
  "t_timer_id (m_obj (T_enter i 0 (demo_new mx)) 0) = 0" "t_trans_id (m_obj (T_enter i 0 (demo_new mx)) 0) = 1"
  "t_co_id (m_obj (T_enter i 0 (demo_new mx)) 0) = i" "m_now (T_enter i 0 (demo_new mx)) = 0"
  "m_active (T_enter i 0 (demo_new mx)) = [1 \<mapsto> 0]" "m_serial (T_enter i 0 (demo_new mx)) = 1"
  "m_max (T_enter i 0 (demo_new mx)) = mx" "t_cur_frame (m_obj (T_enter i 0 (demo_new mx)) 0) = Some 0"
  by (auto simp: T_enter_def demo_new_def trans_set_def Let_def tm_start_def TM_Init_def TransactionMgrImpl_def
      TM_RegisterTransaction_def Construct_def)

definition demo_env :: "out list call_env" where "demo_env c x = Some (x @ [c], 1)"

text \<open>The state after a first wait, and after a first database call.\<close>

lemma demo_waiting:
  assumes "0 \<le> mx" "0 < iv" "iv \<le> 120000"
  shows "\<exists>s m. tm_step (trans_slice demo_env (\<lambda>_. SWait iv c)) (EvFrame 1 2 3 4 demo_frame []) (tm_start [7] mx 0 [])
      = Some (s, demo_pool iv, m) \<and> trans_ok (s, demo_pool iv, m) \<and> m_active m = [1 \<mapsto> 0]
      \<and> susp s (t_co_id (m_obj m 0)) = Some (TWait 0 c) \<and> m_max m = mx \<and> m_live m = None"
proof -
  have run: "run_script demo_env 0 (SWait iv c) (tp_new 1 0, T_enter i 0 (demo_new mx))
      = Some ((demo_pool iv, T_enter i 0 (demo_new mx)), Some c)" if "1 \<le> i" for i
    using assms(2,3) that by (intro demo_wait) simp_all
  show ?thesis
    using demo_first [OF assms(1), of demo_env "\<lambda>_. SWait iv c" "demo_pool iv" "\<lambda>i. T_enter i 0 (demo_new mx)" c] run
    by fastforce
qed

definition after_call :: "out \<Rightarrow> out list tm \<Rightarrow> out list tm" where "after_call x m = m\<lparr>m_app := m_app m @ [x]\<rparr>"

lemma demo_query:
  assumes b: "behave 7 = SLook (\<lambda>t. SCall (g t) (\<lambda>ok. if ok = 0 then k else SWait 120000 c))"
  shows "\<exists>s m. tm_step (trans_slice demo_env behave) (EvFrame 1 2 3 4 demo_frame []) (tm_start [7] 10 0 [])
      = Some (s, demo_pool 120000, m) \<and> trans_ok (s, demo_pool 120000, m) \<and> m_active m = [1 \<mapsto> 0]
      \<and> susp s (t_co_id (m_obj m 0)) = Some (TWait 0 c) \<and> m_live m = None
      \<and> t_cur_frame (m_obj m 0) = Some 0 \<and> m_serial m = 1"
proof -
  let ?m = "\<lambda>i. after_call (g (m_obj (T_enter i 0 (demo_new 10)) 0)) (T_enter i 0 (demo_new 10))"
  have "run_script demo_env 0 (behave 7) (tp_new 1 0, T_enter i 0 (demo_new 10)) = Some ((demo_pool 120000, ?m i), Some c)"
    if "1 \<le> i" for i
    using demo_wait [of 120000 "?m i" demo_env c] that
    by (simp add: b demo_env_def after_call_def del: run_script.simps(7))
  then show ?thesis
    using demo_first [of 10 demo_env behave "demo_pool 120000" ?m c] by (fastforce simp: after_call_def)
qed

lemma demo_mysql:
  "\<exists>s m. tm_step (trans_slice demo_env (\<lambda>_. MysqlQuery oid u q e k)) (EvFrame 1 2 3 4 demo_frame []) (tm_start [7] 10 0 [])
      = Some (s, demo_pool 120000, m) \<and> trans_ok (s, demo_pool 120000, m) \<and> m_active m = [1 \<mapsto> 0]
      \<and> susp s (t_co_id (m_obj m 0)) = Some (TWait 0 (mysql_woken e k)) \<and> m_live m = None
      \<and> t_cur_frame (m_obj m 0) = Some 0 \<and> m_serial m = 1"
  by (rule demo_query [where g = "\<lambda>t. AddMysql oid (t_trans_id t) u q" and k = "k E_MYSQL_ERROR 0 []"])
    (simp add: MysqlQuery_def E_WAIT_MYSQL_def cong: if_cong)

lemma demo_redis:
  "\<exists>s m. tm_step (trans_slice demo_env (\<lambda>_. RedisExecute oid u q k)) (EvFrame 1 2 3 4 demo_frame []) (tm_start [7] 10 0 [])
      = Some (s, demo_pool 120000, m) \<and> trans_ok (s, demo_pool 120000, m) \<and> m_active m = [1 \<mapsto> 0]
      \<and> susp s (t_co_id (m_obj m 0)) = Some (TWait 0 (redis_woken k)) \<and> m_live m = None
      \<and> t_cur_frame (m_obj m 0) = Some 0 \<and> m_serial m = 1"
  by (rule demo_query [where g = "\<lambda>t. AddRedis oid (t_trans_id t) u q" and k = "k E_REDIS_ERROR None"])
    (simp add: RedisExecute_def E_WAIT_REDIS_def cong: if_cong)

subsection \<open>Properties\<close>

text \<open>C1: in every run of the main loop, with any application code and any answers from the rest of
  the program, each active transaction has its own object and its own suspended
  coroutine, every suspended coroutine belongs to an active transaction, free objects
  are never active, and at most \<^verbatim>\<open>_max_concurrent_trans\<close> + 1 transactions are active.\<close>

theorem trans_manager_inv:
  assumes "0 \<le> mx + 1" "run_events (trans_slice env behave) es (tm_start cs mx now app) = Some (s, p, m)"
    and "ids_free (trans_slice env behave) es (tm_start cs mx now app)"
  shows "(\<forall>i a. m_active m i = Some a \<longrightarrow> t_trans_id (m_obj m a) = i
       \<and> (\<exists>c. susp s (t_co_id (m_obj m a)) = Some (TWait a c)))
     \<and> (\<forall>co k. susp s co = Some k \<longrightarrow> (\<exists>a c. k = TWait a c \<and> m_active m (t_trans_id (m_obj m a)) = Some a
         \<and> t_co_id (m_obj m a) = co))
     \<and> (\<forall>c l a. m_bucket m c = Some l \<longrightarrow> a \<in> set l \<longrightarrow> a \<notin> ran (m_active m))
     \<and> TM_GetActiveTransCnt m \<le> m_max m + 1"
proof -
  have "trans_ok (s, p, m)" using run_events_ok [OF _ assms(3,2)] tm_start_ok [OF assms(1), of cs now app] by blast
  then have "trans_inv (susp s) m" by (simp add: trans_ok_def)
  then show ?thesis unfolding trans_inv_def act_ok_def task_ok_def free_ok_def by blast
qed

theorem trans_manager_inv_witness:
  "\<exists>s p m. run_events (trans_slice demo_env (\<lambda>_. SWait 5000 (\<lambda>_. SRet 0))) [EvFrame 1 2 3 4 demo_frame []] (tm_start [7] 0 0 [])
     = Some (s, p, m) \<and> m_active m = [1 \<mapsto> 0] \<and> t_trans_id (m_obj m 0) = 1 \<and> TM_GetActiveTransCnt m = m_max m + 1"
proof -
  let ?sl = "trans_slice demo_env (\<lambda>_. SWait 5000 (\<lambda>_. SRet 0))" and ?e = "EvFrame 1 2 3 4 demo_frame []"
  obtain s and m :: "out list tm" where m: "tm_step ?sl ?e (tm_start [7] 0 0 []) = Some (s, demo_pool 5000, m)" "m_active m = [1 \<mapsto> 0]" "m_max m = 0"
    using demo_waiting [of 0 5000 "\<lambda>_. SRet 0"] by auto
  have run: "run_events ?sl [?e] (tm_start [7] 0 0 []) = Some (s, demo_pool 5000, m)" "ids_free ?sl [?e] (tm_start [7] 0 0 [])"
    using m(1) tm_start_ok [of 0 "[7]" 0 "[] :: out list"] by (simp_all del: tm_step.simps)
  have "t_trans_id (m_obj m 0) = 1" using trans_manager_inv [OF _ run] m(2) by simp
  then show ?thesis using run(1) m(2,3) by (auto simp: TM_GetActiveTransCnt_def)
qed

text \<open>C16: a frame addressed to an active transaction touches no other transaction: no other object,
  no other entry of the active map; and when the transaction waits for another random
  number the frame is dropped without any effect.\<close>

theorem frame_reaches_its_transaction:
  assumes ok: "trans_ok (s, p, m)" and t: "dst_trans_id f \<noteq> 0" "m_active m (dst_trans_id f) = Some a"
    and run: "TM_ProcessFrame (trans_slice env behave) fd ty inst zone f d (s, p, m) = Some (r, s2, p2, m2)"
  shows "trans_ok (s2, p2, m2) \<and> (\<forall>b. b \<noteq> a \<longrightarrow> m_obj m2 b = m_obj m b)
     \<and> (\<forall>i b. b \<noteq> a \<longrightarrow> (m_active m2 i = Some b) = (m_active m i = Some b))
     \<and> (t_req_random (m_obj m a) \<notin> {0, req_random f} \<longrightarrow>
          s2 = s \<and> p2 = p \<and> m2 = m\<lparr>m_serial := m_serial m + 1, m_live := None\<rparr>)"
proof -
  have "trans_ok (s2, p2, m2) \<and> only_obj a m m2"
    using TM_ProcessFrame_ok [OF ok _ run] t by auto
  moreover have "0 < dst_trans_id f" using t(1) by (simp add: word_greater_zero_iff)
  then have "t_req_random (m_obj m a) \<notin> {0, req_random f} \<longrightarrow>
      s2 = s \<and> p2 = p \<and> m2 = m\<lparr>m_serial := m_serial m + 1, m_live := None\<rparr>"
    using run t by (auto simp: TM_ProcessFrame_def hand_over_def release_def TM_GetTransaction_def T_Process_def Let_def)
  ultimately show ?thesis by (simp add: only_obj_def)
qed

theorem frame_reaches_its_transaction_witness:
  "\<exists>s p m r s2 p2 m2. t_req_random (m_obj m 0) = 9
     \<and> TM_ProcessFrame (trans_slice demo_env (\<lambda>_. SWait 5000 (\<lambda>_. SRet 0))) 1 2 3 4 (demo_frame\<lparr>dst_trans_id := 1\<rparr>) [] (s, p, m)
         = Some (r, s2, p2, m2) \<and> s2 = s \<and> trans_ok (s2, p2, m2)"
proof -
  let ?sl = "trans_slice demo_env (\<lambda>_. SWait 5000 (\<lambda>_. SRet 0))" and ?f = "demo_frame\<lparr>dst_trans_id := 1\<rparr>"
  obtain s and m :: "out list tm" where m: "trans_ok (s, demo_pool 5000, m)" "m_active m = [1 \<mapsto> 0]"
    using demo_waiting [of 0 5000 "\<lambda>_. SRet 0"] by auto
  let ?m = "trans_set 0 (t_req_random_update (\<lambda>_. 9)) m"
  have "same_tm m ?m" by (simp add: core_def)
  from trans_ok_same [OF this] have ok: "trans_ok (s, demo_pool 5000, ?m)" using m(1) by blast
  have run: "TM_ProcessFrame ?sl 1 2 3 4 ?f [] (s, demo_pool 5000, ?m) = Some (0, s, demo_pool 5000, ?m\<lparr>m_serial := m_serial ?m + 1, m_live := None\<rparr>)"
    using m(2) by (simp add: TM_ProcessFrame_def hand_over_def release_def TM_GetTransaction_def T_Process_def
        trans_set_def demo_frame_def af_new_def)
  have t: "dst_trans_id ?f \<noteq> 0" "m_active ?m (dst_trans_id ?f) = Some 0" using m(2) by (simp_all add: trans_set_def)
  show ?thesis
    using frame_reaches_its_transaction [OF ok t run] run
    by (intro exI [of _ s] exI [of _ "demo_pool 5000"] exI [of _ ?m]) (simp add: trans_set_def)
qed

text \<open>What a waiting query does with its result, by the outcome that is worked out from it.\<close>

lemma mysql_query_runs:
  assumes ok: "trans_ok (s, p, m)" and act: "m_active m (my_trans_id rsp) = Some a"
    and c: "susp s (t_co_id (m_obj m a)) = Some (TWait a (mysql_woken e k))"
  shows "(case mysql_outcome e rsp of
      None \<Rightarrow> TM_ProcessMysqlRsp (trans_slice env behave) rsp (s, p, m) = None
    | Some (ret, affected, rows) \<Rightarrow>
        \<exists>S. TM_ProcessMysqlRsp (trans_slice env behave) rsp (s, p, m) =
          map_option (\<lambda>r. case T_finish a r of (w2, c2) \<Rightarrow> release (S c2, w2))
            (run_script env a (k ret affected rows)
              (p, trans_set a (\<lambda>t. t\<lparr>t_state := E_STATE_IDLE, t_mysql_rsp := None\<rparr>)
                    (m\<lparr>m_live := Some (m_serial m, LMysql rsp), m_serial := m_serial m + 1\<rparr>))))"
proof -
  let ?m = "m\<lparr>m_live := Some (m_serial m, LMysql rsp), m_serial := m_serial m + 1\<rparr>"
  let ?g = "\<lambda>t. t\<lparr>t_mysql_rsp := Some (m_serial m), t_state := E_STATE_ACTIVE\<rparr>"
  obtain S where S: "T_OnState (trans_slice env behave) a (s, p, trans_set a ?g ?m) =
      map_option (\<lambda>r. case T_finish a r of (w2, k) \<Rightarrow> (S k, w2))
        (run_script env a (mysql_woken e k E_RETURN_ACTIVE) (p, woken_world a (trans_set a ?g ?m)))"
    using rsp_resumes [OF ok act c, of ?g ?m env behave] by auto
  have run: "TM_ProcessMysqlRsp (trans_slice env behave) rsp (s, p, m) =
      map_option release (T_OnState (trans_slice env behave) a (s, p, trans_set a ?g ?m))"
    using act by (simp add: TM_ProcessMysqlRsp_def hand_over_def TM_GetTransaction_def T_ProcessMysqlRsp_def)
  show ?thesis
  proof (cases "mysql_outcome e rsp")
    case None
    then show ?thesis unfolding run S by (simp add: mysql_woken_def woken_world_def trans_set_def)
  next
    case (Some o1)
    then show ?thesis unfolding run S
      by (auto simp: mysql_woken_def woken_world_def trans_set_def option.map_comp comp_def split_beta
          split: prod.splits intro!: exI [of _ S])
  qed
qed

text \<open>C38: the MySQL result of a waiting query, in every case.  An error is reported to the application
  code as \<^verbatim>\<open>E_MYSQL_DUP_KEY\<close> for a duplicate key and as \<^verbatim>\<open>E_MYSQL_ERROR\<close> otherwise, and so is a
  result with another number of fields than expected, each without rows; a result with the
  expected fields is reported as \<^verbatim>\<open>E_MYSQL_SUCCESS\<close> with the affected rows and the rows in their order,
  each under the index 0.  The transaction is idle then, its pointer to the result cleared.
  A successful answer without a result set, as statements that are no queries have it,
  is a fault.\<close>

theorem MysqlQuery_returns:
  assumes ok: "trans_ok (s, p, m)" and act: "m_active m (my_trans_id rsp) = Some a"
    and c: "susp s (t_co_id (m_obj m a)) = Some (TWait a (mysql_woken e k))"
  shows "let run = TM_ProcessMysqlRsp (trans_slice env behave) rsp (s, p, m);
      reports = (\<lambda>ret affected rows. \<exists>S. run =
          map_option (\<lambda>r. case T_finish a r of (w2, c2) \<Rightarrow> release (S c2, w2))
            (run_script env a (k ret affected rows)
              (p, trans_set a (\<lambda>t. t\<lparr>t_state := E_STATE_IDLE, t_mysql_rsp := None\<rparr>)
                    (m\<lparr>m_live := Some (m_serial m, LMysql rsp), m_serial := m_serial m + 1\<rparr>))))
    in (my_err_code rsp \<noteq> 0 \<and> my_is_dup_entry rsp \<longrightarrow> reports E_MYSQL_DUP_KEY 0 [])
     \<and> (my_err_code rsp \<noteq> 0 \<and> \<not> my_is_dup_entry rsp \<longrightarrow> reports E_MYSQL_ERROR 0 [])
     \<and> (my_err_code rsp = 0 \<and> my_res rsp = None \<longrightarrow> run = None)
     \<and> (\<forall>n rows. my_err_code rsp = 0 \<and> my_res rsp = Some (n, rows) \<and> int n \<noteq> e \<longrightarrow> reports E_MYSQL_ERROR 0 [])
     \<and> (\<forall>n rows. my_err_code rsp = 0 \<and> my_res rsp = Some (n, rows) \<and> int n = e \<longrightarrow>
          reports E_MYSQL_SUCCESS (my_affected_rows rsp) (map (\<lambda>row. (0, row)) rows))"
proof -
  note q = mysql_query_runs [OF ok act c, of env behave]
  have r: "mysql_outcome e rsp = Some (ret, affected, rows) \<Longrightarrow> \<exists>S. TM_ProcessMysqlRsp (trans_slice env behave) rsp (s, p, m) =
      map_option (\<lambda>r. case T_finish a r of (w2, c2) \<Rightarrow> release (S c2, w2))
        (run_script env a (k ret affected rows) (p, trans_set a (\<lambda>t. t\<lparr>t_state := E_STATE_IDLE, t_mysql_rsp := None\<rparr>)
          (m\<lparr>m_live := Some (m_serial m, LMysql rsp), m_serial := m_serial m + 1\<rparr>)))" for ret affected rows
    using q by (simp only: option.case prod.case)
  have none: "mysql_outcome e rsp = None \<Longrightarrow> TM_ProcessMysqlRsp (trans_slice env behave) rsp (s, p, m) = None"
    using q by (simp only: option.case)
  show ?thesis
    unfolding Let_def by (intro conjI allI impI r none) (simp_all add: mysql_outcome_def)
qed

definition demo_rsp :: mysql_rsp where
  "demo_rsp = \<lparr>my_trans_id = 1, my_err_code = 0, my_affected_rows = 1, my_res = Some (1, [[''x'']]), my_is_dup_entry = False\<rparr>"

theorem MysqlQuery_returns_witness:
  "\<exists>s p m. susp s (t_co_id (m_obj m 0)) = Some (TWait 0 (mysql_woken 1 (\<lambda>ret _ _. SRet ret)))
     \<and> TM_ProcessMysqlRsp (trans_slice demo_env (\<lambda>_. MysqlQuery 0 ''u'' ''q'' 1 (\<lambda>ret _ _. SRet ret))) demo_rsp (s, p, m) \<noteq> None"
proof -
  let ?b = "\<lambda>_. MysqlQuery 0 ''u'' ''q'' 1 (\<lambda>ret _ _. SRet ret)"
  obtain s and m :: "out list tm" where m: "trans_ok (s, demo_pool 120000, m)" "m_active m = [1 \<mapsto> 0]"
      "susp s (t_co_id (m_obj m 0)) = Some (TWait 0 (mysql_woken 1 (\<lambda>ret _ _. SRet ret)))"
    using demo_mysql by blast
  have act: "m_active m (my_trans_id demo_rsp) = Some 0" using m(2) by (simp add: demo_rsp_def)
  note q = MysqlQuery_returns [OF m(1) act m(3), of demo_env ?b]
  have d: "my_err_code demo_rsp = 0 \<and> my_res demo_rsp = Some (1, [[''x'']]) \<and> int 1 = 1" by (simp add: demo_rsp_def)
  obtain S where "TM_ProcessMysqlRsp (trans_slice demo_env ?b) demo_rsp (s, demo_pool 120000, m) =
      map_option (\<lambda>r. case T_finish 0 r of (w2, c2) \<Rightarrow> release (S c2, w2))
        (run_script demo_env 0 (SRet E_MYSQL_SUCCESS) (demo_pool 120000, trans_set 0 (\<lambda>t. t\<lparr>t_state := E_STATE_IDLE, t_mysql_rsp := None\<rparr>)
          (m\<lparr>m_live := Some (m_serial m, LMysql demo_rsp), m_serial := m_serial m + 1\<rparr>)))"
    using mp [OF spec [OF spec [OF q [unfolded Let_def, THEN conjunct2, THEN conjunct2, THEN conjunct2, THEN conjunct2]]] d] by blast
  then have "TM_ProcessMysqlRsp (trans_slice demo_env ?b) demo_rsp (s, demo_pool 120000, m) \<noteq> None"
    by (simp only: run_script.simps option.map) simp
  then show ?thesis using m(3) by blast
qed

text \<open>No wait cancels its timer.  The timer id is not kept (\<^verbatim>\<open>SetTimer\<close> drops it), so a response
  leaves the timer of the answered wait in the wheel; when it fires it ends whatever
  wait the transaction is in by then, with \<^verbatim>\<open>E_RETURN_TIMEOUT\<close>.\<close>

theorem stale_timer_ends_later_wait:
  assumes ok: "trans_ok (s, p, m)" and act: "m_active m i = Some a"
    and c: "susp s (t_co_id (m_obj m a)) = Some (TWait a c)"
  shows "T_CancelTimer a (p, m) = Some (p, m)
     \<and> (\<exists>S. TM_TimerCallback (trans_slice env behave) i (s, p, m) =
          map_option (\<lambda>r. case T_finish a r of (w2, k) \<Rightarrow> (S k, w2))
            (run_script env a (c E_RETURN_TIMEOUT) (p, timeout_world a m)))"
proof -
  have "act_ok (susp s) m i a" using ok act by (auto simp: trans_ok_def trans_inv_def)
  then have "T_CancelTimer a (p, m) = Some (p, m)" by (simp add: act_ok_def T_CancelTimer_none)
  then show ?thesis using TimerCallback_resumes [OF ok act c] by blast
qed

theorem stale_timer_ends_later_wait_witness:
  "\<exists>s p m. trans_ok (s, p, m) \<and> T_CancelTimer 0 (p, m) = Some (p, m)
     \<and> (\<exists>S. TM_TimerCallback (trans_slice demo_env (\<lambda>_. SWait 5000 (\<lambda>r. if r = E_RETURN_TIMEOUT then SRet 1 else SFault))) 1 (s, p, m)
          = Some (S, p, T_end 0 (timeout_world 0 m)))"
proof -
  let ?c = "\<lambda>r. if r = E_RETURN_TIMEOUT then SRet 1 else SFault"
  obtain s and m :: "out list tm" where m: "trans_ok (s, demo_pool 5000, m)" "m_active m = [1 \<mapsto> 0]"
      "susp s (t_co_id (m_obj m 0)) = Some (TWait 0 ?c)"
    using demo_waiting [of 0 5000 ?c] by auto
  have act: "m_active m 1 = Some 0" using m(2) by simp
  show ?thesis
    using stale_timer_ends_later_wait [OF m(1) act m(3), of demo_env "\<lambda>_. SWait 5000 ?c"] m(1)
    by (intro exI [of _ s] exI [of _ "demo_pool 5000"] exI [of _ m]) (auto simp: T_finish_def)
qed

text \<open>A Redis error leaves \<^verbatim>\<open>_redis_rsp\<close> on the deleted result: the script goes on with the pointer
  still set, and when a later Redis command of the transaction times out it follows it.\<close>

theorem redis_error_leaves_pointer:
  assumes ok: "trans_ok (s, p, m)" and act: "m_active m i = Some a"
    and c: "susp s (t_co_id (m_obj m a)) = Some (TWait a (redis_woken k))"
    and ptr: "t_redis_rsp (m_obj m a) = Some q" and idle: "m_live m = None"
  shows "TM_TimerCallback (trans_slice env behave) i (s, p, m) = None
     \<and> (rd_err_code rsp \<noteq> 0 \<longrightarrow>
          run_script env a (redis_woken k ret) (p, m\<lparr>m_live := Some (q, LRedis rsp)\<rparr>)
            = run_script env a (k E_REDIS_ERROR None) (p, m\<lparr>m_live := Some (q, LRedis rsp)\<rparr>))"
proof -
  obtain S where "TM_TimerCallback (trans_slice env behave) i (s, p, m) =
      map_option (\<lambda>r. case T_finish a r of (w2, k) \<Rightarrow> (S k, w2))
        (run_script env a (redis_woken k E_RETURN_TIMEOUT) (p, timeout_world a m))"
    using TimerCallback_resumes [OF ok act c] by blast
  then show ?thesis using ptr idle by (simp add: redis_woken_def timeout_world_def trans_set_def)
qed

theorem redis_error_leaves_pointer_witness:
  "\<exists>s p m. trans_ok (s, p, m) \<and> t_redis_rsp (m_obj m 0) = Some 5
     \<and> TM_TimerCallback (trans_slice demo_env (\<lambda>_. RedisExecute 0 ''u'' [''GET''] (\<lambda>r _. SRet r))) 1 (s, p, m) = None"
proof -
  let ?k = "\<lambda>r _. SRet r"
  let ?b = "\<lambda>_. RedisExecute 0 ''u'' [''GET''] ?k"
  obtain s and m :: "out list tm" where m: "trans_ok (s, demo_pool 120000, m)" "m_active m = [1 \<mapsto> 0]" "m_live m = None"
      "susp s (t_co_id (m_obj m 0)) = Some (TWait 0 (redis_woken ?k))"
    using demo_redis by blast
  let ?m = "trans_set 0 (t_redis_rsp_update (\<lambda>_. Some 5)) m"
  have "same_tm m ?m" by (simp add: core_def)
  from trans_ok_same [OF this] have ok: "trans_ok (s, demo_pool 120000, ?m)" using m(1) by blast
  have h: "m_active ?m 1 = Some 0" "susp s (t_co_id (m_obj ?m 0)) = Some (TWait 0 (redis_woken ?k))"
    "t_redis_rsp (m_obj ?m 0) = Some 5" "m_live ?m = None"
    using m by (simp_all add: trans_set_def)
  show ?thesis
    using redis_error_leaves_pointer [OF ok h, of demo_env ?b "\<lparr>rd_trans_id = 1, rd_err_code = 0, rd_reply = []\<rparr>" E_RETURN_ACTIVE] ok h(3)
    by (intro exI [of _ s] exI [of _ "demo_pool 120000"] exI [of _ ?m]) simp
qed

text \<open>A two-way transaction that has queried MySQL and then replies follows the pointer to the
  request frame, which the main loop has given up since: the reply is a fault.\<close>

theorem reply_after_mysql_faults:
  assumes ok: "trans_ok (s, p, m)" and act: "m_active m (my_trans_id rsp) = Some a"
    and c: "susp s (t_co_id (m_obj m a)) = Some (TWait a (mysql_woken e (\<lambda>ret _ _. TwoWay_reply body k)))"
    and ptr: "t_cur_frame (m_obj m a) = Some q" "q < m_serial m"
  shows "TM_ProcessMysqlRsp (trans_slice env behave) rsp (s, p, m) = None"
proof (cases "mysql_outcome e rsp")
  case None
  then show ?thesis using mysql_query_runs [OF ok act c, of env behave] by simp
next
  case (Some o1)
  then show ?thesis
    using mysql_query_runs [OF ok act c, of env behave] ptr
    by (auto simp: TwoWay_reply_def T_cur_frame_def trans_set_def split: prod.splits)
qed

theorem reply_after_mysql_faults_witness:
  "\<exists>sw. run_events (trans_slice demo_env (\<lambda>_. MysqlQuery 0 ''u'' ''q'' 1 (\<lambda>_ _ _. TwoWay_reply [] (\<lambda>_. SRet 0))))
       [EvFrame 1 2 3 4 demo_frame []] (tm_start [7] 10 0 []) = Some sw
     \<and> tm_step (trans_slice demo_env (\<lambda>_. MysqlQuery 0 ''u'' ''q'' 1 (\<lambda>_ _ _. TwoWay_reply [] (\<lambda>_. SRet 0)))) (EvMysql demo_rsp) sw = None"
proof -
  let ?k = "\<lambda>_ _ _. TwoWay_reply [] (\<lambda>_. SRet 0)"
  let ?b = "\<lambda>_. MysqlQuery 0 ''u'' ''q'' 1 ?k"
  obtain s and m :: "out list tm" where m: "trans_ok (s, demo_pool 120000, m)" "m_active m = [1 \<mapsto> 0]"
      "susp s (t_co_id (m_obj m 0)) = Some (TWait 0 (mysql_woken 1 ?k))" "t_cur_frame (m_obj m 0) = Some 0" "m_serial m = 1"
      "tm_step (trans_slice demo_env ?b) (EvFrame 1 2 3 4 demo_frame []) (tm_start [7] 10 0 []) = Some (s, demo_pool 120000, m)"
    using demo_mysql by blast
  have act: "m_active m (my_trans_id demo_rsp) = Some 0" using m(2) by (simp add: demo_rsp_def)
  show ?thesis
    using reply_after_mysql_faults [OF m(1) act m(3,4)] m(5,6)
    by (intro exI [of _ "(s, demo_pool 120000, m)"]) (simp del: tm_step.simps(3))
qed

text \<open>The reply of a two-way transaction goes to the sender of its request, to the sender's
  transaction; the random number it carries is that of the frame received last, which
  after a call of the transaction to another server is not the request.\<close>

theorem TwoWay_reply_route:
  assumes "t_cur_frame (m_obj m a) = Some q" "m_live m = Some (q, LFrame f d)"
    and "env (SendFrame (t_cmd (m_obj m a) + 1) (t_userid (m_obj m a)) False
         (src_zone (t_ori_frame (m_obj m a))) (src_svr_type (t_ori_frame (m_obj m a)))
         (src_inst_id (t_ori_frame (m_obj m a))) (t_trans_id (m_obj m a))
         (src_trans_id (t_ori_frame (m_obj m a))) (req_random f) body) (m_app m) = Some (x, r)"
  shows "run_script env a (TwoWay_reply body (\<lambda>_. SRet 0)) (p, m) = Some ((p, m\<lparr>m_app := x\<rparr>), None)"
  using assms by (simp add: TwoWay_reply_def T_cur_frame_def)

definition nested_mgr :: "out list tm" where
  "nested_mgr = (TransactionMgrImpl 0 [])\<lparr>m_live := Some (3, LFrame (af_new\<lparr>req_random := 20000\<rparr>) []),
     m_obj := (\<lambda>_. trans_blank\<lparr>t_cur_frame := Some 3, t_ori_frame := af_new\<lparr>req_random := 10000, src_trans_id := 6\<rparr>\<rparr>)\<rparr>"

theorem TwoWay_reply_route_witness:
  "\<exists>w x. run_script demo_env 0 (TwoWay_reply [] (\<lambda>_. SRet 0)) (tp_new 1 0, nested_mgr) = Some (w, None)
     \<and> m_app (snd w) = [x] \<and> so_dst_trans x = 6 \<and> so_random x = 20000"
  using TwoWay_reply_route [of nested_mgr 0 3 "af_new\<lparr>req_random := 20000\<rparr>" "[]" demo_env "[]"]
  by (simp add: nested_mgr_def TransactionMgrImpl_def demo_env_def)

end
