(* ===== verification/Multi_Index.thy ===== *)
theory Multi_Index
  imports Prelude "HOL-Library.Multiset"
begin

text \<open>
  The ordered, non-unique index of \<^verbatim>\<open>boost::multi_index_container\<close>
  (\<^verbatim>\<open>boost/multi_index/detail/ord_index_impl.hpp\<close>), as the programs use it: a container of
  records with a second, unique key, listed in the order of the index.  An element goes
  behind those with an equal key; \<^verbatim>\<open>modify\<close> leaves an element where it is when the order
  allows it (\<^verbatim>\<open>in_place\<close>) and links it anew otherwise.
\<close>

fun oi_place :: "('a \<Rightarrow> int) \<Rightarrow> 'a \<Rightarrow> 'a list \<Rightarrow> 'a list" where
  "oi_place key c [] = [c]"
| "oi_place key c (x # xs) = (if key c < key x then c # x # xs else x # oi_place key c xs)"

definition oi_in_place :: "('a \<Rightarrow> int) \<Rightarrow> 'a list \<Rightarrow> 'a \<Rightarrow> 'a list \<Rightarrow> bool" where
  "oi_in_place key pre v post \<longleftrightarrow> (pre = [] \<or> \<not> key v < key (last pre)) \<and> (post = [] \<or> \<not> key (hd post) < key v)"

text \<open>\<^verbatim>\<open>modify\<close> of the element that \<^term>\<open>p\<close> finds.\<close>

definition oi_modify :: "('a \<Rightarrow> int) \<Rightarrow> ('a \<Rightarrow> bool) \<Rightarrow> ('a \<Rightarrow> 'a) \<Rightarrow> 'a list \<Rightarrow> 'a list" where
  "oi_modify key p f l =
     (case dropWhile (\<lambda>x. \<not> p x) l of
        [] \<Rightarrow> l
      | x # post \<Rightarrow>
          if oi_in_place key (takeWhile (\<lambda>x. \<not> p x) l) (f x) post
          then takeWhile (\<lambda>x. \<not> p x) l @ f x # post
          else oi_place key (f x) (takeWhile (\<lambda>x. \<not> p x) l @ post))"

definition oi_sorted :: "('a \<Rightarrow> int) \<Rightarrow> 'a list \<Rightarrow> bool" where
  "oi_sorted key l = sorted (map key l)"

lemma mset_oi_place [simp]: "mset (oi_place key c l) = add_mset c (mset l)"
  by (induction key c l rule: oi_place.induct) auto

lemma set_oi_place [simp]: "set (oi_place key c l) = insert c (set l)"
  by (induction key c l rule: oi_place.induct) auto

lemma oi_place_sorted [inv_intros]: "oi_sorted key l \<Longrightarrow> oi_sorted key (oi_place key c l)"
  by (induction key c l rule: oi_place.induct) (auto simp: oi_sorted_def)

text \<open>The element found by \<^term>\<open>p\<close> and its surroundings.\<close>

lemma split_find:
  assumes "\<exists>x \<in> set l. p x"
  obtains pre y post where "l = pre @ y # post" "p y" "\<forall>z \<in> set pre. \<not> p z"
    "takeWhile (\<lambda>x. \<not> p x) l = pre" "dropWhile (\<lambda>x. \<not> p x) l = y # post" "find p l = Some y"
proof -
  obtain pre y post where s: "l = pre @ y # post" "p y" "\<forall>z \<in> set pre. \<not> p z"
    using split_list_first_prop [OF assms] by blast
  have "takeWhile (\<lambda>x. \<not> p x) l = pre" "dropWhile (\<lambda>x. \<not> p x) l = y # post"
    using s by simp_all
  moreover have "find p l = Some y" using s by (induction pre arbitrary: l) auto
  ultimately show ?thesis using that s by blast
qed

lemma oi_modify_none: "\<forall>x \<in> set l. \<not> p x \<Longrightarrow> oi_modify key p f l = l"
proof -
  assume "\<forall>x \<in> set l. \<not> p x"
  then have "dropWhile (\<lambda>x. \<not> p x) l = []" by (simp only: dropWhile_eq_Nil_conv)
  then show ?thesis by (simp only: oi_modify_def list.case)
qed

lemma mset_oi_modify:
  assumes "\<exists>x \<in> set l. p x"
  shows "\<exists>pre y post. l = pre @ y # post \<and> p y \<and> (\<forall>z \<in> set pre. \<not> p z) \<and> find p l = Some y
    \<and> mset (oi_modify key p f l) = add_mset (f y) (mset (pre @ post))"
proof -
  obtain pre y post where s: "l = pre @ y # post" "p y" "\<forall>z \<in> set pre. \<not> p z"
    "takeWhile (\<lambda>x. \<not> p x) l = pre" "dropWhile (\<lambda>x. \<not> p x) l = y # post" "find p l = Some y"
    by (rule split_find [OF assms])
  then show ?thesis
    by (intro exI [of _ pre] exI [of _ y] exI [of _ post]) (simp add: oi_modify_def)
qed

lemma oi_in_place_sorted:
  assumes "oi_sorted key (pre @ post)" "oi_in_place key pre v post"
  shows "oi_sorted key (pre @ v # post)"
proof -
  have s: "sorted (map key pre)" "sorted (map key post)" "\<forall>a \<in> set pre. \<forall>b \<in> set post. key a \<le> key b"
    using assms(1) by (auto simp: oi_sorted_def sorted_append)
  have a: "key a \<le> key v" if "a \<in> set pre" for a
  proof -
    from that obtain as b where pre: "pre = as @ [b]" by (metis append_butlast_last_id empty_iff empty_set)
    then have "key a \<le> key b" using s(1) that by (auto simp: sorted_append)
    then show ?thesis using assms(2) pre by (simp add: oi_in_place_def)
  qed
  have b: "key v \<le> key b" if "b \<in> set post" for b
    using that assms(2) s(2) by (cases post) (auto simp: oi_in_place_def)
  show ?thesis using s a b by (auto simp: oi_sorted_def sorted_append intro: order_trans)
qed

lemma oi_modify_sorted [inv_intros]: "oi_sorted key l \<Longrightarrow> oi_sorted key (oi_modify key p f l)"
proof -
  assume so: "oi_sorted key l"
  show ?thesis
  proof (cases "\<exists>x \<in> set l. p x")
    case True
    then obtain pre y post where s: "l = pre @ y # post"
      "takeWhile (\<lambda>x. \<not> p x) l = pre" "dropWhile (\<lambda>x. \<not> p x) l = y # post"
      by (rule split_find)
    have "oi_sorted key (pre @ post)" using so s(1) by (auto simp: oi_sorted_def sorted_append)
    then show ?thesis
      using s(2,3) by (simp add: oi_modify_def oi_in_place_sorted oi_place_sorted)
  next
    case False
    then show ?thesis using so by (simp add: oi_modify_none)
  qed
qed

text \<open>With a unique second key \<^term>\<open>u\<close>.\<close>

lemma set_oi_modify:
  assumes "distinct (map u l)" "x \<in> set l" "\<And>y. u (f y) = u y"
  shows "set (oi_modify key (\<lambda>y. u y = u x) f l) = insert (f x) {y \<in> set l. u y \<noteq> u x}"
    and "distinct (map u (oi_modify key (\<lambda>y. u y = u x) f l))"
proof -
  obtain pre y post where s: "l = pre @ y # post" "u y = u x"
      "mset (oi_modify key (\<lambda>y. u y = u x) f l) = add_mset (f y) (mset (pre @ post))"
    using mset_oi_modify [of l "\<lambda>y. u y = u x" key f] assms(2) by blast
  have y: "y = x" using s(1,2) assms(1,2) by (metis distinct_map inj_onD in_set_conv_decomp)
  have "set (oi_modify key (\<lambda>y. u y = u x) f l) = insert (f x) (set (pre @ post))"
    using arg_cong [OF s(3), of set_mset] y by simp
  moreover have "set (pre @ post) = {z \<in> set l. u z \<noteq> u x}"
    using s(1) y assms(1) by (auto simp: image_iff)
  ultimately show "set (oi_modify key (\<lambda>y. u y = u x) f l) = insert (f x) {y \<in> set l. u y \<noteq> u x}" by simp
  have "mset (map u (oi_modify key (\<lambda>y. u y = u x) f l)) = mset (map u l)"
    using s(1,3) y assms(3) by simp
  then show "distinct (map u (oi_modify key (\<lambda>y. u y = u x) f l))"
    using assms(1) mset_eq_imp_distinct_iff by blast
qed

lemma keys_oi_modify:
  assumes "\<And>y. u (f y) = u y"
  shows "u ` set (oi_modify key p f l) = u ` set l"
proof (cases "\<exists>x \<in> set l. p x")
  case True
  then obtain pre y post where s: "l = pre @ y # post"
      "mset (oi_modify key p f l) = add_mset (f y) (mset (pre @ post))"
    using mset_oi_modify [of l p key f] by blast
  have "set (oi_modify key p f l) = insert (f y) (set (pre @ post))"
    using arg_cong [OF s(2), of set_mset] by simp
  then show ?thesis using s(1) assms by auto
next
  case False
  then show ?thesis by (simp add: oi_modify_none)
qed

lemma find_key:
  "distinct (map u l) \<Longrightarrow> find (\<lambda>x. u x = k) l = Some x \<longleftrightarrow> x \<in> set l \<and> u x = k"
  by (induction l) auto

lemma find_key_none: "find (\<lambda>x. u x = k) l = None \<longleftrightarrow> k \<notin> u ` set l"
  by (auto simp: find_None_iff)

text \<open>Looking a key up after \<^verbatim>\<open>insert\<close> and \<^verbatim>\<open>modify\<close>.\<close>

lemma find_oi_place:
  assumes "distinct (map u l)" "u c \<notin> u ` set l"
  shows "find (\<lambda>x. u x = k) (oi_place key c l) = (if k = u c then Some c else find (\<lambda>x. u x = k) l)"
    and "distinct (map u (oi_place key c l))"
proof -
  have "mset (map u (oi_place key c l)) = mset (map u (c # l))" by simp
  then show d: "distinct (map u (oi_place key c l))"
    using assms mset_eq_imp_distinct_iff [of "map u (oi_place key c l)" "map u (c # l)"] by simp
  show "find (\<lambda>x. u x = k) (oi_place key c l) = (if k = u c then Some c else find (\<lambda>x. u x = k) l)"
  proof (cases "k = u c")
    case True
    then show ?thesis using find_key [OF d, of k c] by simp
  next
    case False
    show ?thesis
    proof (cases "find (\<lambda>x. u x = k) l")
      case None
      then have "find (\<lambda>x. u x = k) (oi_place key c l) = None" using False by (simp add: find_key_none)
      then show ?thesis using None False by simp
    next
      case (Some x)
      then show ?thesis using False find_key [OF assms(1), of k x] find_key [OF d, of k x] by simp
    qed
  qed
qed

lemma find_oi_modify:
  assumes d: "distinct (map u l)" and u: "\<And>y. u (f y) = u y" and p: "find p l = Some x"
  shows "find (\<lambda>y. u y = k) (oi_modify key p f l) = (if k = u x then Some (f x) else find (\<lambda>y. u y = k) l)"
    and "distinct (map u (oi_modify key p f l))"
proof -
  have px: "x \<in> set l" "p x" using p by (auto simp: find_Some_iff)
  then obtain pre y post where s: "l = pre @ y # post" "find p l = Some y"
      "mset (oi_modify key p f l) = add_mset (f y) (mset (pre @ post))"
    using mset_oi_modify [of l p key f] by blast
  have y: "y = x" using s(2) p by simp
  have "mset (map u (oi_modify key p f l)) = mset (map u l)" using s(1,3) u by simp
  then show d2: "distinct (map u (oi_modify key p f l))" using d mset_eq_imp_distinct_iff by blast
  have set: "set (oi_modify key p f l) = insert (f x) (set (pre @ post))"
    using arg_cong [OF s(3), of set_mset] y by simp
  show "find (\<lambda>y. u y = k) (oi_modify key p f l) = (if k = u x then Some (f x) else find (\<lambda>y. u y = k) l)"
  proof (cases "k = u x")
    case True
    then show ?thesis using find_key [OF d2, of k "f x"] set u by simp
  next
    case False
    have "find (\<lambda>y. u y = k) (oi_modify key p f l) = Some z \<longleftrightarrow> find (\<lambda>y. u y = k) l = Some z" for z
      unfolding find_key [OF d2] find_key [OF d] set using False u s(1) y by auto
    then show ?thesis using False by (metis not_Some_eq)
  qed
qed

end
