(* ===== verification/Net_Handler.thy ===== *)
theory Net_Handler
  imports Frame Multi_Index
begin

text \<open>
  The bridge between the network threads and the main loop,
  \<^verbatim>\<open>commonlib/net_handler/base_net_handler.cpp\<close> and \<^verbatim>\<open>net_handler.cpp\<close>.  The network threads
  queue connect, data and disconnect messages; the main loop takes the whole queue,
  keeps one context per connection and hands each frame to the application.  The code
  has every piece twice, for accepted sockets and for connectors; here a \<^verbatim>\<open>side\<close> says
  which.  What the application's callback does is a parameter.
\<close>

definition M_SOCKET_IN :: u16 where "M_SOCKET_IN = 1"
definition M_SOCKET_OUT :: u16 where "M_SOCKET_OUT = 2"
definition M_SOCKET_DATA :: u16 where "M_SOCKET_DATA = 3"
definition M_MAX_MESSAGE_LIST :: nat where "M_MAX_MESSAGE_LIST = 5000"
definition M_EXPIRE_CHECK_INTERVAL :: int where "M_EXPIRE_CHECK_INTERVAL = 15"
definition M_EXPIRE_INTERVAL :: int where "M_EXPIRE_INTERVAL = 30"

text \<open>The generated command numbers \<^verbatim>\<open>CMD_SOCKET_CLIENT_IN\<close> and \<^verbatim>\<open>CMD_SOCKET_CLIENT_OUT\<close> of
  \<^verbatim>\<open>protolib/proto/cmd.proto\<close>.\<close>

definition CMD_SOCKET_CLIENT_IN :: u32 where "CMD_SOCKET_CLIENT_IN = 1"
definition CMD_SOCKET_CLIENT_OUT :: u32 where "CMD_SOCKET_CLIENT_OUT = 2"

datatype side = TcpSock | TcpConn

text \<open>A socket object as this layer sees it; its descriptor stays the same for its lifetime.\<close>

record sock =
  sk_fd :: u32
  sk_ip :: string
  sk_port :: u16
  sk_conn_type :: int
  sk_conn_num :: int

record net_msg =
  ms_ptr :: nat
  ms_type :: u16
  ms_buf :: "byte list"
  ms_error :: bool

record conn_ctx =
  cx_fd :: u64
  cx_msgcount :: int
  cx_tt :: int
  cx_ptr :: nat

datatype net_out = OSend nat "byte list" | OClose nat | OConnect string u16 int int

text \<open>\<^verbatim>\<open>nh_tcp\<close> and \<^verbatim>\<open>nh_con\<close> are the containers, listed in the order of their activity index.\<close>

record nh =
  nh_now :: int
  nh_sock :: "nat \<Rightarrow> sock"
  nh_connected :: "nat \<Rightarrow> bool"
  nh_tcp :: "conn_ctx list"
  nh_con :: "conn_ctx list"
  nh_tcp_msgs :: "net_msg list"
  nh_con_msgs :: "net_msg list"
  nh_last_check :: "int option"
  nh_out :: "net_out list"

definition nh_cont :: "side \<Rightarrow> nh \<Rightarrow> conn_ctx list" where
  "nh_cont sd h = (case sd of TcpSock \<Rightarrow> nh_tcp h | TcpConn \<Rightarrow> nh_con h)"

definition nh_set :: "side \<Rightarrow> conn_ctx list \<Rightarrow> nh \<Rightarrow> nh" where
  "nh_set sd l h = (case sd of TcpSock \<Rightarrow> h\<lparr>nh_tcp := l\<rparr> | TcpConn \<Rightarrow> h\<lparr>nh_con := l\<rparr>)"

definition nh_msgs :: "side \<Rightarrow> nh \<Rightarrow> net_msg list" where
  "nh_msgs sd h = (case sd of TcpSock \<Rightarrow> nh_tcp_msgs h | TcpConn \<Rightarrow> nh_con_msgs h)"

definition nh_set_msgs :: "side \<Rightarrow> net_msg list \<Rightarrow> nh \<Rightarrow> nh" where
  "nh_set_msgs sd l h = (case sd of TcpSock \<Rightarrow> h\<lparr>nh_tcp_msgs := l\<rparr> | TcpConn \<Rightarrow> h\<lparr>nh_con_msgs := l\<rparr>)"

definition nh_do :: "net_out \<Rightarrow> nh \<Rightarrow> nh" where
  "nh_do x h = h\<lparr>nh_out := nh_out h @ [x]\<rparr>"

text \<open>The handle of a socket: its flag and its descriptor, sign-extended.\<close>

definition side_flag :: "side \<Rightarrow> u64" where
  "side_flag sd = (case sd of TcpSock \<Rightarrow> M_TCP_FD_FLAG | TcpConn \<Rightarrow> M_TCP_CONNECTOR_FD_FLAG)"

definition handle :: "side \<Rightarrow> nat \<Rightarrow> nh \<Rightarrow> u64" where
  "handle sd ptr h = side_flag sd OR scast (sk_fd (nh_sock h ptr))"

subsection \<open>The network threads\<close>

definition nh_push :: "side \<Rightarrow> net_msg \<Rightarrow> nh \<Rightarrow> nh" where
  "nh_push sd msg h = nh_set_msgs sd (nh_msgs sd h @ [msg]) h"

definition OnConnected :: "side \<Rightarrow> nat \<Rightarrow> bool \<Rightarrow> nh \<Rightarrow> nh" where
  "OnConnected sd ptr err h = nh_push sd \<lparr>ms_ptr = ptr, ms_type = M_SOCKET_IN, ms_buf = [], ms_error = err\<rparr> h"

definition OnDisconnected :: "side \<Rightarrow> nat \<Rightarrow> nh \<Rightarrow> nh" where
  "OnDisconnected sd ptr h = nh_push sd \<lparr>ms_ptr = ptr, ms_type = M_SOCKET_OUT, ms_buf = [], ms_error = False\<rparr> h"

definition OnReceiveData :: "side \<Rightarrow> nat \<Rightarrow> byte list \<Rightarrow> nh \<Rightarrow> nh" where
  "OnReceiveData sd ptr data h =
     (if length (nh_msgs sd h) \<ge> M_MAX_MESSAGE_LIST then h
      else nh_push sd \<lparr>ms_ptr = ptr, ms_type = M_SOCKET_DATA, ms_buf = data, ms_error = False\<rparr> h)"

subsection \<open>The containers\<close>

definition ctx_find :: "u64 \<Rightarrow> conn_ctx list \<Rightarrow> conn_ctx option" where
  "ctx_find fd l = find (\<lambda>c. cx_fd c = fd) l"

definition ctx_insert :: "conn_ctx \<Rightarrow> conn_ctx list \<Rightarrow> bool \<times> conn_ctx list" where
  "ctx_insert c l = (if ctx_find (cx_fd c) l = None then (True, oi_place cx_tt c l) else (False, l))"

definition ctx_erase :: "u64 \<Rightarrow> conn_ctx list \<Rightarrow> conn_ctx list" where
  "ctx_erase fd l = filter (\<lambda>c. cx_fd c \<noteq> fd) l"

definition FuncModifySocketContext :: "int \<Rightarrow> int \<Rightarrow> conn_ctx \<Rightarrow> conn_ctx" where
  "FuncModifySocketContext cnt tt c = c\<lparr>cx_msgcount := cnt, cx_tt := tt\<rparr>"

definition ctx_modify :: "u64 \<Rightarrow> int \<Rightarrow> int \<Rightarrow> conn_ctx list \<Rightarrow> conn_ctx list" where
  "ctx_modify fd cnt tt l = oi_modify cx_tt (\<lambda>c. cx_fd c = fd) (FuncModifySocketContext cnt tt) l"

subsection \<open>What the application may call\<close>

text \<open>\<^verbatim>\<open>SendDataByFd\<close> turns the frame at the start of the buffer into network order, sends, and turns
  it back: the result, the caller's buffer afterwards, and the new state.\<close>

definition SendDataByFd :: "u64 \<Rightarrow> byte list \<Rightarrow> nat \<Rightarrow> nh \<Rightarrow> (bool \<times> byte list \<times> nh) mem" where
  "SendDataByFd fd data len h =
     (if length data < sizeof_app_frame then None
      else
        let net = af_bytes (af_h2n (af_load data)) @ drop sizeof_app_frame data;
            back = af_bytes (af_n2h (af_load net)) @ drop sizeof_app_frame net;
            look = (if M_CHECK_IS_TCP_FD fd then ctx_find fd (nh_tcp h)
                    else if M_CHECK_IS_TCP_CONNECTOR_FD fd then ctx_find fd (nh_con h) else None)
        in case look of
             None \<Rightarrow> Some (False, back, h)
           | Some c \<Rightarrow> if length net < len then None
                       else Some (True, back, nh_do (OSend (cx_ptr c) (take len net)) h))"

definition CloseFd :: "u64 \<Rightarrow> nh \<Rightarrow> nh" where
  "CloseFd fd h =
     (case (if M_CHECK_IS_TCP_FD fd then ctx_find fd (nh_tcp h)
            else if M_CHECK_IS_TCP_CONNECTOR_FD fd then ctx_find fd (nh_con h) else None) of
        None \<Rightarrow> h
      | Some c \<Rightarrow> nh_do (OClose (cx_ptr c)) h)"

definition GetConnectorPtr :: "u64 \<Rightarrow> nh \<Rightarrow> nat option" where
  "GetConnectorPtr fd h = map_option cx_ptr (ctx_find fd (nh_con h))"

definition GetSocketPtr :: "u64 \<Rightarrow> nh \<Rightarrow> nat option" where
  "GetSocketPtr fd h = map_option cx_ptr (ctx_find fd (nh_tcp h))"

subsection \<open>The main loop\<close>

text \<open>A call of the application: handle, frame, the bytes behind \<^verbatim>\<open>data\<close>, and \<^verbatim>\<open>data_len\<close>.\<close>

record net_call =
  nc_fd :: u64
  nc_frame :: app_frame
  nc_data :: "byte list"
  nc_len :: u32

type_synonym 'w net_cb = "net_call \<Rightarrow> nh \<times> 'w \<Rightarrow> (nh \<times> 'w) mem"

text \<open>\<^verbatim>\<open>OnConnection\<close>: \<^verbatim>\<open>SocketClientIn\<close> has no fields, its serialization is empty.  A failed connector
  connects again.\<close>

definition OnConnection :: "'w net_cb \<Rightarrow> side \<Rightarrow> nat \<Rightarrow> bool \<Rightarrow> nh \<times> 'w \<Rightarrow> (nh \<times> 'w) mem" where
  "OnConnection cb sd ptr err hw =
     (let h = fst hw; s = nh_sock h ptr in
      if sd = TcpConn \<and> err then
        Some (nh_do (OConnect (sk_ip s) (sk_port s) (sk_conn_type s) (sk_conn_num s)) h, snd hw)
      else
        let fd = handle sd ptr h in
        case ctx_insert \<lparr>cx_fd = fd, cx_msgcount = 0, cx_tt = nh_now h, cx_ptr = ptr\<rparr> (nh_cont sd h) of
          (False, _) \<Rightarrow> Some (nh_do (OClose ptr) h, snd hw)
        | (True, l) \<Rightarrow> cb \<lparr>nc_fd = fd, nc_frame = af_new\<lparr>cmd := CMD_SOCKET_CLIENT_IN\<rparr>, nc_data = [], nc_len = 0\<rparr>
                         (nh_set sd l h, snd hw))"

definition OnDisConnection :: "'w net_cb \<Rightarrow> side \<Rightarrow> nat \<Rightarrow> nh \<times> 'w \<Rightarrow> (nh \<times> 'w) mem" where
  "OnDisConnection cb sd ptr hw =
     (let fd = handle sd ptr (fst hw) in
      case ctx_find fd (nh_cont sd (fst hw)) of
        None \<Rightarrow> Some hw
      | Some _ \<Rightarrow>
          map_option (\<lambda>(h, w). (nh_set sd (ctx_erase fd (nh_cont sd h)) h, w))
            (cb \<lparr>nc_fd = fd, nc_frame = af_new\<lparr>cmd := CMD_SOCKET_CLIENT_OUT\<rparr>, nc_data = [], nc_len = 0\<rparr> hw))"

text \<open>A data message: the frame is read from the buffer whatever the buffer's length.\<close>

definition OnData :: "'w net_cb \<Rightarrow> side \<Rightarrow> net_msg \<Rightarrow> nh \<times> 'w \<Rightarrow> (nh \<times> 'w) mem" where
  "OnData cb sd msg hw =
     (let h = fst hw; fd = handle sd (ms_ptr msg) h in
      case ctx_find fd (nh_cont sd h) of
        None \<Rightarrow> Some hw
      | Some c \<Rightarrow>
          if length (ms_buf msg) < sizeof_app_frame then None
          else
            let f = af_n2h (af_load (ms_buf msg)) in
            cb \<lparr>nc_fd = fd, nc_frame = f, nc_data = drop sizeof_app_frame (ms_buf msg), nc_len = cmd_length f\<rparr>
              (nh_set sd (ctx_modify fd (cx_msgcount c + 1) (nh_now h) (nh_cont sd h)) h, snd hw))"

definition consum_one :: "'w net_cb \<Rightarrow> side \<Rightarrow> net_msg \<Rightarrow> nh \<times> 'w \<Rightarrow> (nh \<times> 'w) mem" where
  "consum_one cb sd msg hw =
     (if ms_type msg = M_SOCKET_DATA then OnData cb sd msg hw
      else if ms_type msg = M_SOCKET_IN then OnConnection cb sd (ms_ptr msg) (ms_error msg) hw
      else if ms_type msg = M_SOCKET_OUT then OnDisConnection cb sd (ms_ptr msg) hw
      else None)"

primrec consum_all :: "'w net_cb \<Rightarrow> side \<Rightarrow> net_msg list \<Rightarrow> nh \<times> 'w \<Rightarrow> (nh \<times> 'w) mem" where
  "consum_all cb sd [] hw = Some hw"
| "consum_all cb sd (x # xs) hw = Option.bind (consum_one cb sd x hw) (consum_all cb sd xs)"

definition consum :: "'w net_cb \<Rightarrow> side \<Rightarrow> nh \<times> 'w \<Rightarrow> (int \<times> nh \<times> 'w) mem" where
  "consum cb sd hw =
     (if nh_msgs sd (fst hw) = [] then Some (-1, hw)
      else map_option (Pair 0) (consum_all cb sd (nh_msgs sd (fst hw)) (nh_set_msgs sd [] (fst hw), snd hw)))"

definition ConsumTcpSocketMsg :: "'w net_cb \<Rightarrow> nh \<times> 'w \<Rightarrow> (int \<times> nh \<times> 'w) mem" where
  "ConsumTcpSocketMsg cb = consum cb TcpSock"

definition ConsumTcpConnectorMsg :: "'w net_cb \<Rightarrow> nh \<times> 'w \<Rightarrow> (int \<times> nh \<times> 'w) mem" where
  "ConsumTcpConnectorMsg cb = consum cb TcpConn"

definition nh_Update :: "'w net_cb \<Rightarrow> nh \<times> 'w \<Rightarrow> (int \<times> nh \<times> 'w) mem" where
  "nh_Update cb hw =
     Option.bind (ConsumTcpConnectorMsg cb hw) (\<lambda>(ret1, hw1).
       Option.bind (ConsumTcpSocketMsg cb hw1) (\<lambda>(ret2, hw2).
         Some (if ret1 \<noteq> 0 \<or> ret2 \<noteq> 0 then 0 else -1, hw2)))"

text \<open>\<^verbatim>\<open>CheckTcpSocketExpire\<close>: its static \<^verbatim>\<open>last_check_time\<close> starts at the first call.  The walk over the
  activity index stops at the first connection that is not both expired and connected.\<close>

fun expire_walk :: "int \<Rightarrow> conn_ctx list \<Rightarrow> nh \<Rightarrow> nh" where
  "expire_walk now [] h = h"
| "expire_walk now (c # cs) h =
     (if now - cx_tt c \<ge> M_EXPIRE_INTERVAL \<and> nh_connected h (cx_ptr c)
      then expire_walk now cs (nh_do (OClose (cx_ptr c)) h)
      else h)"

definition CheckTcpSocketExpire :: "nh \<Rightarrow> nh" where
  "CheckTcpSocketExpire h =
     (let last = (case nh_last_check h of None \<Rightarrow> nh_now h | Some t \<Rightarrow> t) in
      if nh_now h - last < M_EXPIRE_CHECK_INTERVAL then h\<lparr>nh_last_check := Some last\<rparr>
      else expire_walk (nh_now h) (nh_tcp h) (h\<lparr>nh_last_check := Some (nh_now h)\<rparr>))"

end
