(* ===== verification/Net_Handler_Props.thy ===== *)
theory Net_Handler_Props
  imports Net_Handler "HOL-Library.Sublist"
begin

text \<open>
  The properties of the bridge: what reaches the application for each connection and
  in which order, which messages may be lost, and what travels on the wire.
\<close>

subsection \<open>The containers\<close>

lemma ctx_find_None: "ctx_find fd l = None \<longleftrightarrow> fd \<notin> cx_fd ` set l"
  by (auto simp: ctx_find_def find_None_iff)

lemma ctx_find_Some: "ctx_find fd l = Some c \<Longrightarrow> c \<in> set l \<and> cx_fd c = fd"
  by (auto simp: ctx_find_def find_Some_iff)

lemma ctx_find_D: "ctx_find fd l = Some c \<Longrightarrow> fd \<in> cx_fd ` set l"
  using ctx_find_Some by fastforce

lemma fds_erase: "cx_fd ` set (ctx_erase fd l) = cx_fd ` set l - {fd}"
  by (auto simp: ctx_erase_def)

lemma fds_modify [simp]: "cx_fd ` set (ctx_modify fd cnt tt l) = cx_fd ` set l"
  unfolding ctx_modify_def by (rule keys_oi_modify) (simp add: FuncModifySocketContext_def)

lemma ctx_insert_new: "fd \<notin> cx_fd ` set l \<Longrightarrow> cx_fd c = fd \<Longrightarrow> ctx_insert c l = (True, oi_place cx_tt c l)"
  by (simp add: ctx_insert_def ctx_find_None)

lemma ctx_insert_old: "fd \<in> cx_fd ` set l \<Longrightarrow> cx_fd c = fd \<Longrightarrow> ctx_insert c l = (False, l)"
  by (simp add: ctx_insert_def ctx_find_None)

lemma nh_set_sel [simp]:
  "nh_cont sd (nh_set sd l h) = l" "nh_sock (nh_set sd l h) = nh_sock h" "nh_now (nh_set sd l h) = nh_now h"
  by (cases sd; simp add: nh_cont_def nh_set_def)+

lemma handle_set [simp]: "handle sd p (nh_set sd l h) = handle sd p h"
  by (simp add: handle_def)

lemma nh_do_sel [simp]:
  "nh_cont sd (nh_do x h) = nh_cont sd h" "nh_sock (nh_do x h) = nh_sock h" "nh_now (nh_do x h) = nh_now h"
  "handle sd p (nh_do x h) = handle sd p h"
  by (cases sd; simp add: nh_cont_def nh_do_def handle_def)+

subsection \<open>Applications\<close>

text \<open>The interface of an application: its callback sends, closes and keeps its own state, and leaves
  the containers, the sockets and the queues to the bridge.\<close>

definition keeps :: "nh \<Rightarrow> nh \<Rightarrow> bool" where
  "keeps h h2 \<longleftrightarrow> nh_tcp h2 = nh_tcp h \<and> nh_con h2 = nh_con h \<and> nh_sock h2 = nh_sock h \<and> nh_now h2 = nh_now h
     \<and> nh_tcp_msgs h2 = nh_tcp_msgs h \<and> nh_con_msgs h2 = nh_con_msgs h"

lemma keeps_refl [simp]: "keeps h h"
  by (simp add: keeps_def)

lemma keeps_trans: "\<lbrakk>keeps h h1; keeps h1 h2\<rbrakk> \<Longrightarrow> keeps h h2"
  by (simp add: keeps_def)

lemma keeps_do [simp]: "keeps h (nh_do x h)"
  by (simp add: keeps_def nh_do_def)

lemma SendDataByFd_keeps: "SendDataByFd fd data len h = Some (ok, back, h2) \<Longrightarrow> keeps h h2"
  by (auto simp: SendDataByFd_def Let_def split: if_splits option.splits)

lemma CloseFd_keeps [simp]: "keeps h (CloseFd fd h)"
  by (simp add: CloseFd_def split: option.splits)

locale net_app =
  fixes cb :: "'w net_cb"
  assumes cb_keeps: "cb c (h, w) = Some (h2, w2) \<Longrightarrow> keeps h h2"
begin

text \<open>The callback with a record of its calls, each with the kind of message behind it.\<close>

lemma cb_cont: "cb c (h, w) = Some (h2, w2) \<Longrightarrow> nh_cont sd h2 = nh_cont sd h \<and> nh_sock h2 = nh_sock h"
  using cb_keeps by (cases sd) (auto simp: keeps_def nh_cont_def)

end

definition logged :: "'w net_cb \<Rightarrow> ('w \<times> net_call list) net_cb" where
  "logged cb c hw = map_option (\<lambda>(h, w). (h, w, snd (snd hw) @ [c])) (cb c (fst hw, fst (snd hw)))"

text \<open>What one connection's calls look like: in, then data, then out, and again.\<close>

fun session :: "bool \<Rightarrow> u16 list \<Rightarrow> bool option" where
  "session up [] = Some up"
| "session up (k # ks) =
     (if k = M_SOCKET_IN \<and> \<not> up then session True ks
      else if k = M_SOCKET_DATA \<and> up then session up ks
      else if k = M_SOCKET_OUT \<and> up then session False ks
      else None)"

definition is_open :: "side \<Rightarrow> nh \<Rightarrow> u64 \<Rightarrow> bool" where
  "is_open sd h fd \<longleftrightarrow> fd \<in> cx_fd ` set (nh_cont sd h)"

text \<open>What the messages of the network threads mean to the application: the calls it gets, each with the kind of message behind it, and the
  connections that are open behind them.\<close>

definition sock_handle :: "side \<Rightarrow> (nat \<Rightarrow> sock) \<Rightarrow> nat \<Rightarrow> u64" where
  "sock_handle sd sock ptr = (case sd of TcpSock \<Rightarrow> M_TCP_FD_FLAG | TcpConn \<Rightarrow> M_TCP_CONNECTOR_FD_FLAG) OR scast (sk_fd (sock ptr))"

definition call_in :: "u64 \<Rightarrow> net_call" where
  "call_in fd = \<lparr>nc_fd = fd, nc_frame = af_new\<lparr>cmd := 1\<rparr>, nc_data = [], nc_len = 0\<rparr>"

definition call_out :: "u64 \<Rightarrow> net_call" where
  "call_out fd = \<lparr>nc_fd = fd, nc_frame = af_new\<lparr>cmd := 2\<rparr>, nc_data = [], nc_len = 0\<rparr>"

definition call_data :: "u64 \<Rightarrow> byte list \<Rightarrow> net_call" where
  "call_data fd buf = (let f = af_n2h (af_load buf) in \<lparr>nc_fd = fd, nc_frame = f, nc_data = drop 50 buf, nc_len = cmd_length f\<rparr>)"

fun app_calls :: "side \<Rightarrow> (nat \<Rightarrow> sock) \<Rightarrow> u64 set \<Rightarrow> net_msg list \<Rightarrow> (u16 \<times> net_call) list \<times> u64 set" where
  "app_calls sd sock up [] = ([], up)"
| "app_calls sd sock up (m # ms) =
     (let fd = sock_handle sd sock (ms_ptr m) in
      if ms_type m = M_SOCKET_IN \<and> fd \<notin> up \<and> \<not> (sd = TcpConn \<and> ms_error m)
        then apfst (Cons (M_SOCKET_IN, call_in fd)) (app_calls sd sock (insert fd up) ms)
      else if ms_type m = M_SOCKET_DATA \<and> fd \<in> up then apfst (Cons (M_SOCKET_DATA, call_data fd (ms_buf m))) (app_calls sd sock up ms)
      else if ms_type m = M_SOCKET_OUT \<and> fd \<in> up then apfst (Cons (M_SOCKET_OUT, call_out fd)) (app_calls sd sock (up - {fd}) ms)
      else app_calls sd sock up ms)"

definition kinds :: "u64 \<Rightarrow> (u16 \<times> net_call) list \<Rightarrow> u16 list" where
  "kinds fd tr = map fst (filter (\<lambda>(k, c). nc_fd c = fd) tr)"

context net_app begin

lemma consum_one_calls:
  assumes "consum_one (logged cb) sd msg (h, w, tr) = Some (h2, w2, tr2)"
  shows "nh_sock h2 = nh_sock h \<and> tr2 = tr @ map snd (fst (app_calls sd (nh_sock h) (cx_fd ` set (nh_cont sd h)) [msg]))
    \<and> cx_fd ` set (nh_cont sd h2) = snd (app_calls sd (nh_sock h) (cx_fd ` set (nh_cont sd h)) [msg])"
proof -
  let ?fd = "handle sd (ms_ptr msg) h" and ?ptr = "ms_ptr msg"
  have fd: "sock_handle sd (nh_sock h) ?ptr = ?fd" by (simp add: sock_handle_def handle_def side_flag_def)
  consider (data) "ms_type msg = M_SOCKET_DATA" | (conn) "ms_type msg = M_SOCKET_IN" | (disc) "ms_type msg = M_SOCKET_OUT"
    using assms by (auto simp: consum_one_def split: if_splits)
  then show ?thesis
  proof cases
    case data
    then have d: "OnData (logged cb) sd msg (h, w, tr) = Some (h2, w2, tr2)" using assms by (simp add: consum_one_def)
    show ?thesis
    proof (cases "ctx_find ?fd (nh_cont sd h)")
      case None
      then have "?fd \<notin> cx_fd ` set (nh_cont sd h)" by (simp add: ctx_find_None)
      then show ?thesis using d None data fd by (auto simp: OnData_def Let_def M_SOCKET_DATA_def M_SOCKET_IN_def M_SOCKET_OUT_def)
    next
      case (Some c)
      define l where "l = ctx_modify ?fd (cx_msgcount c + 1) (nh_now h) (nh_cont sd h)"
      obtain x where x: "cb x (nh_set sd l h, w) = Some (h2, w2)" "tr2 = tr @ [x]" "x = call_data ?fd (ms_buf msg)"
        using d Some by (auto simp: OnData_def Let_def logged_def l_def call_data_def sizeof_app_frame_def split: if_splits)
      have "cx_fd ` set (nh_cont sd h2) = cx_fd ` set (nh_cont sd h)" "nh_sock h2 = nh_sock h"
        using cb_cont [OF x(1), of sd] by (simp_all add: l_def)
      moreover have "?fd \<in> cx_fd ` set (nh_cont sd h)" using ctx_find_D [OF Some] by auto
      ultimately show ?thesis using x(2,3) data by (simp add: fd Let_def M_SOCKET_DATA_def M_SOCKET_IN_def M_SOCKET_OUT_def)
    qed
  next
    case conn
    then have d: "OnConnection (logged cb) sd ?ptr (ms_error msg) (h, w, tr) = Some (h2, w2, tr2)"
      using assms by (simp add: consum_one_def M_SOCKET_IN_def M_SOCKET_DATA_def)
    show ?thesis
    proof (cases "(sd = TcpConn \<and> ms_error msg) \<or> is_open sd h ?fd")
      case True
      then show ?thesis using d conn
        by (auto simp: OnConnection_def Let_def is_open_def ctx_insert_def ctx_find_None fd M_SOCKET_DATA_def M_SOCKET_IN_def M_SOCKET_OUT_def
            split: if_splits)
    next
      case False
      let ?c = "\<lparr>cx_fd = ?fd, cx_msgcount = 0, cx_tt = nh_now h, cx_ptr = ?ptr\<rparr>"
      obtain x where x: "cb x (nh_set sd (oi_place cx_tt ?c (nh_cont sd h)) h, w) = Some (h2, w2)" "tr2 = tr @ [x]" "x = call_in ?fd"
        using d False by (auto simp: OnConnection_def Let_def logged_def is_open_def ctx_insert_def ctx_find_None call_in_def CMD_SOCKET_CLIENT_IN_def)
      have "cx_fd ` set (nh_cont sd h2) = insert ?fd (cx_fd ` set (nh_cont sd h))" "nh_sock h2 = nh_sock h"
        using cb_cont [OF x(1), of sd] by simp_all
      then show ?thesis using x(2,3) False conn by (simp add: fd is_open_def Let_def)
    qed
  next
    case disc
    then have d: "OnDisConnection (logged cb) sd ?ptr (h, w, tr) = Some (h2, w2, tr2)"
      using assms by (simp add: consum_one_def M_SOCKET_IN_def M_SOCKET_DATA_def M_SOCKET_OUT_def)
    show ?thesis
    proof (cases "ctx_find ?fd (nh_cont sd h)")
      case None
      then have "?fd \<notin> cx_fd ` set (nh_cont sd h)" by (simp add: ctx_find_None)
      then show ?thesis using d None disc fd by (auto simp: OnDisConnection_def Let_def M_SOCKET_DATA_def M_SOCKET_IN_def M_SOCKET_OUT_def)
    next
      case (Some c)
      obtain x h1 where x: "cb x (h, w) = Some (h1, w2)" "tr2 = tr @ [x]" "x = call_out ?fd"
          "h2 = nh_set sd (ctx_erase ?fd (nh_cont sd h1)) h1"
        using d Some by (auto simp: OnDisConnection_def Let_def logged_def call_out_def CMD_SOCKET_CLIENT_OUT_def)
      have "cx_fd ` set (nh_cont sd h2) = cx_fd ` set (nh_cont sd h) - {?fd}" "nh_sock h2 = nh_sock h"
        using cb_cont [OF x(1), of sd] x(4) by (simp_all add: fds_erase)
      moreover have "?fd \<in> cx_fd ` set (nh_cont sd h)" using ctx_find_D [OF Some] by auto
      ultimately show ?thesis using x(2,3) disc by (simp add: fd Let_def M_SOCKET_DATA_def M_SOCKET_IN_def M_SOCKET_OUT_def)
    qed
  qed
qed

lemma app_calls_Cons:
  "app_calls sd sock up (m # ms) =
     (fst (app_calls sd sock up [m]) @ fst (app_calls sd sock (snd (app_calls sd sock up [m])) ms),
      snd (app_calls sd sock (snd (app_calls sd sock up [m])) ms))"
  by (cases sd) (simp_all add: Let_def apfst_def map_prod_def split_beta)

lemma consum_all_calls:
  assumes "consum_all (logged cb) sd msgs (h, w, tr) = Some (h2, w2, tr2)"
  shows "nh_sock h2 = nh_sock h \<and> tr2 = tr @ map snd (fst (app_calls sd (nh_sock h) (cx_fd ` set (nh_cont sd h)) msgs))
    \<and> cx_fd ` set (nh_cont sd h2) = snd (app_calls sd (nh_sock h) (cx_fd ` set (nh_cont sd h)) msgs)"
  using assms
proof (induction msgs arbitrary: h w tr)
  case Nil
  then show ?case by simp
next
  case (Cons x xs)
  obtain h1 w1 tr1 where s1: "consum_one (logged cb) sd x (h, w, tr) = Some (h1, w1, tr1)"
      "consum_all (logged cb) sd xs (h1, w1, tr1) = Some (h2, w2, tr2)"
    using Cons.prems by (auto simp: bind_eq_Some_conv)
  show ?case using consum_one_calls [OF s1(1)] Cons.IH [OF s1(2)]
    unfolding app_calls_Cons [of sd "nh_sock h" _ x xs] by (simp del: app_calls.simps)
qed

end

text \<open>The calls of one connection are sessions.\<close>

lemma app_calls_session:
  "session (fd \<in> up) (kinds fd (fst (app_calls sd sock up msgs))) = Some (fd \<in> snd (app_calls sd sock up msgs))"
proof (induction sd sock up msgs rule: app_calls.induct)
  case (2 sd sock up m ms)
  then show ?case
    by (auto simp: Let_def kinds_def call_in_def call_data_def call_out_def M_SOCKET_DATA_def M_SOCKET_IN_def M_SOCKET_OUT_def)
qed (simp add: kinds_def)

subsection \<open>Properties\<close>

text \<open>C3: sessions.  Whatever the network threads queue, the application is called once for each message that counts, in the order of the
  messages and with the right call: for a connect of a socket that is not open (and, of a connector, did not fail) the
  command 1 (\<^verbatim>\<open>CMD_SOCKET_CLIENT_IN\<close>), for data on an open one the frame in host order with the bytes behind it, for a disconnect of an open one
  the command 2 (\<^verbatim>\<open>CMD_SOCKET_CLIENT_OUT\<close>); for other messages it is not called.  So the calls of each connection are connected, then
  data, then disconnected, and again, and the container holds the open ones.  The application leaves the containers and the queues to the bridge.\<close>

theorem net_sessions:
  assumes app: "\<And>c h w h2 w2. cb c (h, w) = Some (h2, w2) \<Longrightarrow> keeps h h2"
    and run: "consum_all (logged cb) sd msgs (h, w, []) = Some (h2, w2, tr)"
  shows "tr = map snd (fst (app_calls sd (nh_sock h) {fd. is_open sd h fd} msgs))
    \<and> (\<forall>fd. is_open sd h2 fd \<longleftrightarrow> fd \<in> snd (app_calls sd (nh_sock h) {fd. is_open sd h fd} msgs))
    \<and> (\<forall>fd. session (is_open sd h fd) (kinds fd (fst (app_calls sd (nh_sock h) {fd. is_open sd h fd} msgs))) = Some (is_open sd h2 fd))"
proof -
  have u: "{fd. is_open sd h fd} = cx_fd ` set (nh_cont sd h)" by (simp add: is_open_def)
  note c = net_app.consum_all_calls [OF net_app.intro [OF app] run]
  show ?thesis
    using c app_calls_session [of _ "cx_fd ` set (nh_cont sd h)" sd "nh_sock h" msgs] unfolding u by (simp add: is_open_def)
qed

definition silent :: "unit net_cb" where "silent c hw = Some hw"

definition nh_demo :: nh where
  "nh_demo = \<lparr>nh_now = 100, nh_sock = (\<lambda>p. \<lparr>sk_fd = if p = 1 then 5 else of_nat p, sk_ip = ''h'', sk_port = 80, sk_conn_type = 1, sk_conn_num = 1\<rparr>),
     nh_connected = (\<lambda>p. p \<noteq> 3), nh_tcp = [], nh_con = [], nh_tcp_msgs = [], nh_con_msgs = [], nh_last_check = None, nh_out = []\<rparr>"

definition in_msg :: "nat \<Rightarrow> net_msg" where
  "in_msg p = \<lparr>ms_ptr = p, ms_type = M_SOCKET_IN, ms_buf = [], ms_error = False\<rparr>"

definition out_msg :: "nat \<Rightarrow> net_msg" where
  "out_msg p = \<lparr>ms_ptr = p, ms_type = M_SOCKET_OUT, ms_buf = [], ms_error = False\<rparr>"

theorem net_sessions_witness:
  "\<exists>h2. consum_all (logged silent) TcpSock [in_msg 1, out_msg 1] (nh_demo, (), [])
     = Some (h2, (), [call_in (handle TcpSock 1 nh_demo), call_out (handle TcpSock 1 nh_demo)])"
proof -
  obtain h2 tr where r: "consum_all (logged silent) TcpSock [in_msg 1, out_msg 1] (nh_demo, (), []) = Some (h2, (), tr)"
    by (simp add: consum_one_def in_msg_def out_msg_def OnConnection_def OnDisConnection_def Let_def ctx_insert_def
        ctx_find_def logged_def silent_def nh_demo_def nh_cont_def nh_set_def M_SOCKET_IN_def M_SOCKET_OUT_def M_SOCKET_DATA_def handle_def)
  have "tr = map snd (fst (app_calls TcpSock (nh_sock nh_demo) {fd. is_open TcpSock nh_demo fd} [in_msg 1, out_msg 1]))"
    using net_sessions [OF _ r] by (auto simp: silent_def simp del: consum_all.simps app_calls.simps)
  also have "\<dots> = [call_in (handle TcpSock 1 nh_demo), call_out (handle TcpSock 1 nh_demo)]"
    by (simp add: is_open_def nh_demo_def nh_cont_def in_msg_def out_msg_def handle_def side_flag_def sock_handle_def
        M_SOCKET_IN_def M_SOCKET_OUT_def M_SOCKET_DATA_def Let_def)
  finally show ?thesis using r by simp
qed

text \<open>C10: a frame sent by \<^verbatim>\<open>SendDataByFd\<close> goes out in network order, the caller's buffer is as before,
  and the bridge of the receiver, given those bytes on an open connection, hands the
  same frame and body to its application.\<close>

theorem frame_end_to_end:
  assumes fd: "M_CHECK_IS_TCP_FD fd" "ctx_find fd (nh_tcp h) = Some c"
    and rcv: "ctx_find (handle sd q g) (nh_cont sd g) = Some x"
  shows "\<exists>net. SendDataByFd fd (af_bytes f @ body) (50 + length body) h = Some (True, af_bytes f @ body, nh_do (OSend (cx_ptr c) net) h)
    \<and> OnData cb sd \<lparr>ms_ptr = q, ms_type = M_SOCKET_DATA, ms_buf = net, ms_error = False\<rparr> (g, w)
        = cb \<lparr>nc_fd = handle sd q g, nc_frame = f, nc_data = body, nc_len = cmd_length f\<rparr>
             (nh_set sd (ctx_modify (handle sd q g) (cx_msgcount x + 1) (nh_now g) (nh_cont sd g)) g, w)"
  using assms
  by (intro exI [of _ "af_bytes (af_h2n f) @ body"])
    (simp add: SendDataByFd_def OnData_def Let_def sizeof_app_frame_def)

theorem frame_end_to_end_witness:
  "\<exists>net. SendDataByFd (handle TcpSock 1 nh_demo) (af_bytes af_new @ [7]) 51 (nh_demo\<lparr>nh_tcp := [\<lparr>cx_fd = handle TcpSock 1 nh_demo, cx_msgcount = 0, cx_tt = 0, cx_ptr = 1\<rparr>]\<rparr>)
     = Some (True, af_bytes af_new @ [7], nh_do (OSend 1 net) (nh_demo\<lparr>nh_tcp := [\<lparr>cx_fd = handle TcpSock 1 nh_demo, cx_msgcount = 0, cx_tt = 0, cx_ptr = 1\<rparr>]\<rparr>))"
proof -
  let ?fd = "handle TcpSock 1 nh_demo"
  let ?c = "\<lparr>cx_fd = ?fd, cx_msgcount = 0, cx_tt = 0, cx_ptr = 1\<rparr>"
  let ?h = "nh_demo\<lparr>nh_tcp := [?c]\<rparr>"
  have "(scast (5 :: u32) :: u64) = ucast (5 :: u32)" by simp
  then have "M_CHECK_IS_TCP_FD ?fd"
    using tcp_fd_flags(1) [of 5] by (simp add: handle_def nh_demo_def side_flag_def or.commute)
  moreover have "ctx_find ?fd (nh_tcp ?h) = Some ?c" by (simp add: ctx_find_def)
  moreover have "ctx_find (handle TcpSock 1 ?h) (nh_cont TcpSock ?h) = Some ?c" by (simp add: ctx_find_def nh_cont_def handle_def)
  ultimately show ?thesis
    using frame_end_to_end [of ?fd ?h ?c TcpSock 1 ?h ?c af_new "[7]" silent "()"] by auto
qed

lemma consum_one_keeps_msgs:
  assumes cb: "\<And>c g v g2 v2. cb c (g, v) = Some (g2, v2) \<Longrightarrow> nh_tcp_msgs g2 = nh_tcp_msgs g"
    and run: "consum_one cb TcpConn x (h, w) = Some (h2, w2)"
  shows "nh_tcp_msgs h2 = nh_tcp_msgs h"
proof -
  have c: "nh_tcp_msgs (nh_set TcpConn l g) = nh_tcp_msgs g" "nh_tcp_msgs (nh_do y g) = nh_tcp_msgs g" for l g y
    by (simp_all add: nh_set_def nh_do_def)
  show ?thesis
    using run
    by (auto simp: consum_one_def OnData_def OnConnection_def OnDisConnection_def Let_def c dest!: cb
        split: if_splits option.splits prod.splits bool.splits)
qed

lemma consum_all_keeps_msgs:
  assumes cb: "\<And>c g v g2 v2. cb c (g, v) = Some (g2, v2) \<Longrightarrow> nh_tcp_msgs g2 = nh_tcp_msgs g"
    and run: "consum_all cb TcpConn xs (h, w) = Some (h2, w2)"
  shows "nh_tcp_msgs h2 = nh_tcp_msgs h"
  using run
proof (induction xs arbitrary: h w)
  case (Cons x xs)
  then obtain h1 w1 where s1: "consum_one cb TcpConn x (h, w) = Some (h1, w1)" "consum_all cb TcpConn xs (h1, w1) = Some (h2, w2)"
    by (auto simp: bind_eq_Some_conv)
  then show ?case using Cons.IH [OF s1(2)] consum_one_keeps_msgs [OF cb s1(1)] by simp
qed simp

text \<open>\<^verbatim>\<open>Update\<close> answers the wrong way round: with nothing to do it returns 0, which the main loop
  takes for work done, and when both queues had messages it returns -1, idle.\<close>

theorem Update_result_inverted:
  assumes cb: "\<And>c g v g2 v2. cb c (g, v) = Some (g2, v2) \<Longrightarrow> nh_tcp_msgs g2 = nh_tcp_msgs g"
    and run: "nh_Update cb (h, w) = Some (r, h2, w2)"
  shows "(nh_tcp_msgs h = [] \<and> nh_con_msgs h = [] \<longrightarrow> r = 0 \<and> h2 = h)
    \<and> (nh_tcp_msgs h \<noteq> [] \<and> nh_con_msgs h \<noteq> [] \<longrightarrow> r = -1)"
proof (intro conjI impI)
  assume "nh_tcp_msgs h = [] \<and> nh_con_msgs h = []"
  then show "r = 0" "h2 = h" using run
    by (simp_all add: nh_Update_def ConsumTcpConnectorMsg_def ConsumTcpSocketMsg_def consum_def nh_msgs_def)
next
  assume busy: "nh_tcp_msgs h \<noteq> [] \<and> nh_con_msgs h \<noteq> []"
  then obtain h1 w1 where h1: "consum_all cb TcpConn (nh_con_msgs h) (nh_set_msgs TcpConn [] h, w) = Some (h1, w1)"
    using run by (auto simp: nh_Update_def ConsumTcpConnectorMsg_def consum_def nh_msgs_def bind_eq_Some_conv)
  have "nh_tcp_msgs h1 = nh_tcp_msgs h"
    using consum_all_keeps_msgs [OF cb h1] by (simp add: nh_set_msgs_def)
  then show "r = -1"
    using run busy h1 by (auto simp: nh_Update_def ConsumTcpConnectorMsg_def ConsumTcpSocketMsg_def consum_def nh_msgs_def
        bind_eq_Some_conv)
qed

theorem Update_result_inverted_witness:
  "\<exists>h2. nh_Update silent (nh_demo\<lparr>nh_tcp_msgs := [in_msg 1], nh_con_msgs := [in_msg 2]\<rparr>, ()) = Some (-1, h2, ())"
proof -
  let ?h = "nh_demo\<lparr>nh_tcp_msgs := [in_msg 1], nh_con_msgs := [in_msg 2]\<rparr>"
  obtain r h2 where r: "nh_Update silent (?h, ()) = Some (r, h2, ())"
    by (simp add: nh_Update_def ConsumTcpConnectorMsg_def ConsumTcpSocketMsg_def consum_def nh_msgs_def nh_set_msgs_def
        consum_one_def in_msg_def OnConnection_def Let_def ctx_insert_def ctx_find_def silent_def nh_demo_def
        nh_cont_def nh_set_def M_SOCKET_IN_def M_SOCKET_DATA_def)
  have "r = -1" using Update_result_inverted [OF _ r] by (simp add: silent_def)
  then show ?thesis using r by blast
qed

text \<open>The expiry check closes exactly the first connections, in the order of their last activity,
  that are expired and still connected; one that has expired but whose disconnection is
  not yet consumed hides all connections behind it.\<close>

theorem expire_closes_prefix:
  assumes "nh_last_check h = Some t" "M_EXPIRE_CHECK_INTERVAL \<le> nh_now h - t"
  shows "CheckTcpSocketExpire h = h\<lparr>nh_last_check := Some (nh_now h),
     nh_out := nh_out h @ map (\<lambda>c. OClose (cx_ptr c))
       (takeWhile (\<lambda>c. M_EXPIRE_INTERVAL \<le> nh_now h - cx_tt c \<and> nh_connected h (cx_ptr c)) (nh_tcp h))\<rparr>"
proof -
  have "expire_walk now l g = g\<lparr>nh_out := nh_out g @ map (\<lambda>c. OClose (cx_ptr c))
      (takeWhile (\<lambda>c. M_EXPIRE_INTERVAL \<le> now - cx_tt c \<and> nh_connected g (cx_ptr c)) l)\<rparr>" for now l g
    by (induction now l g rule: expire_walk.induct) (simp_all add: nh_do_def)
  then show ?thesis using assms by (simp add: CheckTcpSocketExpire_def Let_def)
qed

theorem expire_closes_prefix_witness:
  "nh_out (CheckTcpSocketExpire (nh_demo\<lparr>nh_last_check := Some 0, nh_tcp :=
     [\<lparr>cx_fd = 1, cx_msgcount = 0, cx_tt = 10, cx_ptr = 1\<rparr>, \<lparr>cx_fd = 3, cx_msgcount = 0, cx_tt = 20, cx_ptr = 3\<rparr>,
      \<lparr>cx_fd = 2, cx_msgcount = 0, cx_tt = 30, cx_ptr = 2\<rparr>]\<rparr>)) = [OClose 1]"
  using expire_closes_prefix [of "nh_demo\<lparr>nh_last_check := Some 0, nh_tcp :=
     [\<lparr>cx_fd = 1, cx_msgcount = 0, cx_tt = 10, cx_ptr = 1\<rparr>, \<lparr>cx_fd = 3, cx_msgcount = 0, cx_tt = 20, cx_ptr = 3\<rparr>,
      \<lparr>cx_fd = 2, cx_msgcount = 0, cx_tt = 30, cx_ptr = 2\<rparr>]\<rparr>" 0]
  by (simp add: nh_demo_def M_EXPIRE_CHECK_INTERVAL_def M_EXPIRE_INTERVAL_def)

text \<open>When the network threads announce a new connection before the disconnection of an old one
  with the same descriptor (the descriptor is free for reuse before the disconnection
  is queued), the new connection is closed at once and ends up without a context.\<close>

theorem fd_reuse_closes_new:
  assumes "sk_fd (nh_sock h new) = sk_fd (nh_sock h old)" "is_open TcpSock h (handle TcpSock old h)"
    and app: "\<And>c g v. \<exists>v2. cb c (g, v) = Some (g, v2)"
  shows "\<exists>h2 w2. consum_all cb TcpSock [in_msg new, out_msg old] (h, w) = Some (h2, w2)
    \<and> nh_out h2 = nh_out h @ [OClose new] \<and> \<not> is_open TcpSock h2 (handle TcpSock new h)"
proof -
  let ?fd = "handle TcpSock new h"
  have same: "handle TcpSock old h = ?fd" using assms(1) by (simp add: handle_def)
  have fd: "?fd \<in> cx_fd ` set (nh_tcp h)" using assms(2) same by (simp add: is_open_def nh_cont_def)
  have a: "consum_one cb TcpSock (in_msg new) (h, w) = Some (nh_do (OClose new) h, w)"
    using fd by (simp add: consum_one_def in_msg_def OnConnection_def Let_def ctx_insert_old nh_cont_def
        M_SOCKET_IN_def M_SOCKET_DATA_def)
  obtain c where c: "ctx_find ?fd (nh_tcp h) = Some c" using fd ctx_find_None by (metis option.exhaust)
  let ?h1 = "nh_do (OClose new) h"
  obtain v2 where "cb \<lparr>nc_fd = ?fd, nc_frame = af_new\<lparr>cmd := CMD_SOCKET_CLIENT_OUT\<rparr>, nc_data = [], nc_len = 0\<rparr> (?h1, w) = Some (?h1, v2)"
    using app by blast
  then have "consum_one cb TcpSock (out_msg old) (?h1, w) = Some (nh_set TcpSock (ctx_erase ?fd (nh_tcp h)) ?h1, v2)"
    using c same by (simp add: consum_one_def out_msg_def OnDisConnection_def Let_def nh_cont_def nh_do_def
        M_SOCKET_IN_def M_SOCKET_DATA_def M_SOCKET_OUT_def handle_def)
  then show ?thesis using a by (simp add: is_open_def fds_erase nh_set_def nh_do_def nh_cont_def)
qed

theorem fd_reuse_closes_new_witness:
  "\<exists>h2. consum_all silent TcpSock [in_msg 1, out_msg 5] (nh_demo\<lparr>nh_tcp := [\<lparr>cx_fd = handle TcpSock 5 nh_demo, cx_msgcount = 0, cx_tt = 0, cx_ptr = 5\<rparr>]\<rparr>, ())
     = Some (h2, ()) \<and> nh_out h2 = [OClose 1]"
  using fd_reuse_closes_new [of "nh_demo\<lparr>nh_tcp := [\<lparr>cx_fd = handle TcpSock 5 nh_demo, cx_msgcount = 0, cx_tt = 0, cx_ptr = 5\<rparr>]\<rparr>" 1 5 silent "()"]
  by (fastforce simp: nh_demo_def is_open_def nh_cont_def handle_def silent_def)

text \<open>A packet shorter than a frame is fatal: on an open connection the bridge reads the frame
  behind the end of the buffer.\<close>

theorem short_packet_faults:
  assumes "is_open sd h (handle sd p h)" "length bytes < 50"
  shows "consum_all cb sd (\<lparr>ms_ptr = p, ms_type = M_SOCKET_DATA, ms_buf = bytes, ms_error = e\<rparr> # msgs) (h, w) = None"
proof -
  obtain c where "ctx_find (handle sd p h) (nh_cont sd h) = Some c"
    using assms(1) ctx_find_None by (metis is_open_def option.exhaust)
  then show ?thesis using assms(2) by (simp add: consum_one_def OnData_def Let_def sizeof_app_frame_def)
qed

theorem short_packet_faults_witness:
  "consum_all silent TcpSock [\<lparr>ms_ptr = 1, ms_type = M_SOCKET_DATA, ms_buf = [1, 2, 3], ms_error = False\<rparr>]
     (nh_demo\<lparr>nh_tcp := [\<lparr>cx_fd = handle TcpSock 1 nh_demo, cx_msgcount = 0, cx_tt = 0, cx_ptr = 1\<rparr>]\<rparr>, ()) = None"
  by (rule short_packet_faults) (simp_all add: is_open_def nh_cont_def handle_def)

datatype net_event = NConn nat bool | NDisc nat | NData nat "byte list"

primrec net_apply :: "side \<Rightarrow> net_event \<Rightarrow> nh \<Rightarrow> nh" where
  "net_apply sd (NConn p e) h = OnConnected sd p e h"
| "net_apply sd (NDisc p) h = OnDisconnected sd p h"
| "net_apply sd (NData p bs) h = OnReceiveData sd p bs h"

primrec event_msg :: "net_event \<Rightarrow> net_msg" where
  "event_msg (NConn p e) = \<lparr>ms_ptr = p, ms_type = M_SOCKET_IN, ms_buf = [], ms_error = e\<rparr>"
| "event_msg (NDisc p) = \<lparr>ms_ptr = p, ms_type = M_SOCKET_OUT, ms_buf = [], ms_error = False\<rparr>"
| "event_msg (NData p bs) = \<lparr>ms_ptr = p, ms_type = M_SOCKET_DATA, ms_buf = bs, ms_error = False\<rparr>"

definition is_data :: "net_msg \<Rightarrow> bool" where "is_data x \<longleftrightarrow> ms_type x = M_SOCKET_DATA"

text \<open>C40: the message queue.  Whatever the network threads do between two rounds of the main loop,
  every connect and disconnect is queued, in order; at most 5000 data messages are, and
  those queued are in the order they came.\<close>

theorem queue_loses_only_data:
  assumes "nh_msgs sd h = []"
  shows "filter (\<lambda>x. \<not> is_data x) (nh_msgs sd (fold (net_apply sd) es h)) = filter (\<lambda>x. \<not> is_data x) (map event_msg es)
    \<and> subseq (nh_msgs sd (fold (net_apply sd) es h)) (map event_msg es)
    \<and> length (filter is_data (nh_msgs sd (fold (net_apply sd) es h))) \<le> 5000"
proof -
  have push: "nh_msgs sd (nh_push sd x g) = nh_msgs sd g @ [x]" for x g
    by (cases sd) (simp_all add: nh_msgs_def nh_push_def nh_set_msgs_def)
  have step: "(nh_msgs sd (net_apply sd e g) = nh_msgs sd g @ [event_msg e]
      \<and> (is_data (event_msg e) \<longrightarrow> length (nh_msgs sd g) < 5000))
      \<or> (nh_msgs sd (net_apply sd e g) = nh_msgs sd g \<and> is_data (event_msg e))" for e g
    by (cases e) (auto simp: OnConnected_def OnDisconnected_def OnReceiveData_def push is_data_def M_MAX_MESSAGE_LIST_def
        M_SOCKET_IN_def M_SOCKET_OUT_def M_SOCKET_DATA_def)
  have "filter (\<lambda>x. \<not> is_data x) (nh_msgs sd (fold (net_apply sd) es h)) = filter (\<lambda>x. \<not> is_data x) (map event_msg es)
    \<and> subseq (nh_msgs sd (fold (net_apply sd) es h)) (map event_msg es)
    \<and> length (filter is_data (nh_msgs sd (fold (net_apply sd) es h))) \<le> 5000"
  proof (induction es rule: rev_induct)
    case Nil
    then show ?case using assms by simp
  next
    case (snoc e es)
    let ?g = "fold (net_apply sd) es h"
    have len: "length (nh_msgs sd ?g) < 5000 \<Longrightarrow> length (filter is_data (nh_msgs sd ?g)) \<le> 4999"
      using length_filter_le [of is_data "nh_msgs sd ?g"] by linarith
    show ?case
      using step [of e ?g] snoc len by (auto intro: list_emb_append_mono)
  qed
  then show ?thesis .
qed

theorem queue_loses_only_data_witness:
  "subseq (nh_msgs TcpSock (fold (net_apply TcpSock) [NConn 1 False, NData 1 [7], NDisc 1] nh_demo))
     (map event_msg [NConn 1 False, NData 1 [7], NDisc 1])"
  using queue_loses_only_data [of TcpSock nh_demo "[NConn 1 False, NData 1 [7], NDisc 1]"]
  by (simp add: nh_msgs_def nh_demo_def)

end
