(* ===== verification/Links.thy ===== *)
theory Links
  imports Net_Handler
begin

text \<open>
  The links of a server to the servers above it: \<^verbatim>\<open>commonlib/net_handler/router_mgr.cpp\<close>
  keeps the routers of the server's own zone, \<^verbatim>\<open>routersvr/transfer_mgr.cpp\<close> a router's
  transfer servers.  Both read a configuration file, connect what is new, close what is
  gone, and pick one link per user; the transfer manager keeps one send buffer for all
  its messages.  Reading the file (\<^verbatim>\<open>ServerCfg::Parse\<close>, protobuf text format) and
  serializing a message are parameters.
\<close>

definition Enum_ConnType_Router :: int where "Enum_ConnType_Router = 1"
definition Enum_ConnType_Transfer :: int where "Enum_ConnType_Transfer = 2"
definition Enum_ConnType_Transfer2 :: int where "Enum_ConnType_Transfer2 = 3"
definition SVR_TYPE_ROUTER :: u32 where "SVR_TYPE_ROUTER = 1"
definition SVR_TYPE_CONN :: u32 where "SVR_TYPE_CONN = 2"
definition SVR_TYPE_TRANSFER :: u32 where "SVR_TYPE_TRANSFER = 3"
definition CMD_SVR_HEATBEAT :: u32 where "CMD_SVR_HEATBEAT = 0x10"
definition CMD_TRANSFER_HEATBEAT :: u32 where "CMD_TRANSFER_HEATBEAT = 0x11"

record link =
  lk_ip :: string
  lk_port :: u16
  lk_inst :: u32
  lk_fd :: u64

text \<open>An item of the generated \<^verbatim>\<open>RouterConfig\<close> and \<^verbatim>\<open>TransferConfig\<close>.\<close>

record cfg_item =
  ci_ip :: string
  ci_port :: u32
  ci_inst :: u32
  ci_zone :: u32

record link_mgr =
  lm_type :: u32
  lm_self_inst :: u32
  lm_zone :: u32
  lm_file :: string
  lm_links :: "link list"

record transfer_mgr = link_mgr +
  tr_buffer :: buffer
  tr_frame :: app_frame

definition RouterMgr :: link_mgr where
  "RouterMgr = \<lparr>lm_type = 0, lm_self_inst = 0, lm_zone = 0, lm_file = [], lm_links = []\<rparr>"

definition TransferMgr :: transfer_mgr where
  "TransferMgr = \<lparr>lm_type = 0, lm_self_inst = 0, lm_zone = 0, lm_file = [], lm_links = [],
     tr_buffer = buf_new, tr_frame = af_new\<rparr>"

subsection \<open>\<^verbatim>\<open>std::map<int, Info>\<close>\<close>

text \<open>In the order of its keys, the instance ids as signed integers.\<close>

fun imap_put :: "link \<Rightarrow> link list \<Rightarrow> link list" where
  "imap_put l [] = [l]"
| "imap_put l (x # xs) =
     (if sint (lk_inst l) < sint (lk_inst x) then l # x # xs
      else if lk_inst l = lk_inst x then l # xs
      else x # imap_put l xs)"

subsection \<open>Connecting\<close>

definition link_is :: "string \<Rightarrow> u32 \<Rightarrow> u32 \<Rightarrow> link \<Rightarrow> bool" where
  "link_is ip port inst l \<longleftrightarrow> ip = lk_ip l \<and> port = ucast (lk_port l) \<and> inst = lk_inst l"

definition ExistRouter :: "string \<Rightarrow> u32 \<Rightarrow> u32 \<Rightarrow> 'a link_mgr_scheme \<Rightarrow> bool" where
  "ExistRouter ip port inst m = list_ex (link_is ip port inst) (lm_links m)"

fun login_links :: "string \<Rightarrow> u32 \<Rightarrow> u32 \<Rightarrow> u64 \<Rightarrow> link list \<Rightarrow> int \<times> link list" where
  "login_links ip port inst fd [] = (-1, [])"
| "login_links ip port inst fd (l # ls) =
     (if link_is ip port inst l then (0, l\<lparr>lk_fd := fd\<rparr> # ls)
      else (case login_links ip port inst fd ls of (r, ms) \<Rightarrow> (r, l # ms)))"

definition LoginRouter :: "string \<Rightarrow> u32 \<Rightarrow> u32 \<Rightarrow> u64 \<Rightarrow> 'a link_mgr_scheme \<Rightarrow> int \<times> 'a link_mgr_scheme" where
  "LoginRouter ip port inst fd m =
     (case login_links ip port inst fd (lm_links m) of (r, ls) \<Rightarrow> (r, m\<lparr>lm_links := ls\<rparr>))"

definition item_link :: "cfg_item \<Rightarrow> link" where
  "item_link c = \<lparr>lk_ip = ci_ip c, lk_port = ucast (ci_port c), lk_inst = ci_inst c, lk_fd = 0\<rparr>"

definition is_item :: "link \<Rightarrow> cfg_item \<Rightarrow> bool" where
  "is_item l c = link_is (ci_ip c) (ci_port c) (ci_inst c) l"

text \<open>The first loop: connect the items of the zone that are no link yet.\<close>

fun connect_new :: "int \<Rightarrow> 'a link_mgr_scheme \<Rightarrow> cfg_item list \<Rightarrow> link list \<times> nh \<Rightarrow> link list \<times> nh" where
  "connect_new ty m [] th = th"
| "connect_new ty m (c # cs) th =
     (if ci_zone c \<noteq> lm_zone m \<or> ExistRouter (ci_ip c) (ci_port c) (ci_inst c) m then connect_new ty m cs th
      else connect_new ty m cs (imap_put (item_link c) (fst th),
             nh_do (OConnect (ci_ip c) (ucast (ci_port c)) ty (sint (ci_inst c))) (snd th)))"

text \<open>The second loop: keep the links that are still in the file, close the others.\<close>

fun close_old :: "cfg_item list \<Rightarrow> link list \<Rightarrow> link list \<times> nh \<Rightarrow> link list \<times> nh" where
  "close_old items [] th = th"
| "close_old items (l # ls) th =
     (if list_ex (is_item l) items then close_old items ls (imap_put l (fst th), snd th)
      else close_old items ls (fst th, CloseFd (lk_fd l) (snd th)))"

definition connect_links :: "int \<Rightarrow> cfg_item list \<Rightarrow> 'a link_mgr_scheme \<Rightarrow> nh \<Rightarrow> 'a link_mgr_scheme \<times> nh" where
  "connect_links ty items m h =
     (case close_old items (lm_links m) (connect_new ty m items ([], h)) of (ls, h1) \<Rightarrow> (m\<lparr>lm_links := ls\<rparr>, h1))"

definition ConnectRouters :: "cfg_item list \<Rightarrow> link_mgr \<Rightarrow> nh \<Rightarrow> link_mgr \<times> nh" where
  "ConnectRouters = connect_links Enum_ConnType_Router"

definition ConnectTransfers :: "cfg_item list \<Rightarrow> transfer_mgr \<Rightarrow> nh \<Rightarrow> transfer_mgr \<times> nh" where
  "ConnectTransfers = connect_links Enum_ConnType_Transfer"

text \<open>The instance ids of the zone may not repeat.\<close>

fun zone_ids_ok :: "u32 \<Rightarrow> u32 set \<Rightarrow> cfg_item list \<Rightarrow> bool" where
  "zone_ids_ok z seen [] = True"
| "zone_ids_ok z seen (c # cs) =
     (if ci_zone c \<noteq> z then zone_ids_ok z seen cs
      else if ci_inst c \<in> seen then False
      else zone_ids_ok z (insert (ci_inst c) seen) cs)"

text \<open>\<^verbatim>\<open>Reload\<close>; \<^verbatim>\<open>parse\<close> reads a file.\<close>

definition reload_with :: "(cfg_item list \<Rightarrow> 'a link_mgr_scheme \<Rightarrow> nh \<Rightarrow> 'a link_mgr_scheme \<times> nh)
    \<Rightarrow> (string \<Rightarrow> cfg_item list option) \<Rightarrow> 'a link_mgr_scheme \<Rightarrow> nh \<Rightarrow> int \<times> 'a link_mgr_scheme \<times> nh" where
  "reload_with connect parse m h =
     (if lm_file m = [] then (0, m, h)
      else case parse (lm_file m) of
          None \<Rightarrow> (-1, m, h)
        | Some items \<Rightarrow> if zone_ids_ok (lm_zone m) {} items then (0, connect items m h) else (-1, m, h))"

definition RM_Reload :: "(string \<Rightarrow> cfg_item list option) \<Rightarrow> link_mgr \<Rightarrow> nh \<Rightarrow> int \<times> link_mgr \<times> nh" where
  "RM_Reload = reload_with ConnectRouters"

definition TR_Reload :: "(string \<Rightarrow> cfg_item list option) \<Rightarrow> transfer_mgr \<Rightarrow> nh \<Rightarrow> int \<times> transfer_mgr \<times> nh" where
  "TR_Reload = reload_with ConnectTransfers"

definition RM_Init :: "(string \<Rightarrow> cfg_item list option) \<Rightarrow> u32 \<Rightarrow> u32 \<Rightarrow> u32 \<Rightarrow> string
    \<Rightarrow> link_mgr \<Rightarrow> nh \<Rightarrow> int \<times> link_mgr \<times> nh" where
  "RM_Init parse ty inst zone file m h =
     RM_Reload parse (m\<lparr>lm_type := ty, lm_self_inst := inst, lm_zone := zone, lm_file := file\<rparr>) h"

definition TR_Init :: "(string \<Rightarrow> cfg_item list option) \<Rightarrow> u32 \<Rightarrow> u32 \<Rightarrow> u32 \<Rightarrow> string
    \<Rightarrow> transfer_mgr \<Rightarrow> nh \<Rightarrow> int \<times> transfer_mgr \<times> nh" where
  "TR_Init parse ty inst zone file m h =
     TR_Reload parse (m\<lparr>lm_type := ty, lm_self_inst := inst, lm_zone := zone, lm_file := file\<rparr>) h"

definition ExistTransfer :: "string \<Rightarrow> u32 \<Rightarrow> u32 \<Rightarrow> transfer_mgr \<Rightarrow> bool" where
  "ExistTransfer = ExistRouter"

definition LoginTransfer :: "string \<Rightarrow> u32 \<Rightarrow> u32 \<Rightarrow> u64 \<Rightarrow> transfer_mgr \<Rightarrow> int \<times> transfer_mgr" where
  "LoginTransfer = LoginRouter"

subsection \<open>Sending\<close>

text \<open>The frame of a message of \<^term>\<open>data\<close>.\<close>

definition mk_frame :: "'a link_mgr_scheme \<Rightarrow> u32 \<Rightarrow> u64 \<Rightarrow> bool \<Rightarrow> u16 \<Rightarrow> u32 \<Rightarrow> u32 \<Rightarrow> u32 \<Rightarrow> u32 \<Rightarrow> u32
    \<Rightarrow> byte list \<Rightarrow> app_frame" where
  "mk_frame m c uid broadcast dzone dtype dinst strans dtrans rnd data =
     \<lparr>is_broadcast = (if broadcast then 1 else 0), src_zone = ucast (lm_zone m), dst_zone = dzone,
      src_svr_type = lm_type m, dst_svr_type = dtype, src_inst_id = lm_self_inst m, dst_inst_id = dinst,
      src_trans_id = strans, dst_trans_id = dtrans, cmd = c, cmd_length = word_of_nat (length data),
      userid = uid, req_random = rnd\<rparr>"

text \<open>Write frame and body behind what the buffer holds and send all of it.  \<^verbatim>\<open>SendDataByFd\<close> works in
  the buffer's own memory.\<close>

definition buf_store :: "byte list \<Rightarrow> buffer \<Rightarrow> buffer" where
  "buf_store bs b = b\<lparr>bdata := take (unat (boffset b)) (bdata b) @ bs\<rparr>"

definition send_frame :: "u64 \<Rightarrow> app_frame \<Rightarrow> byte list \<Rightarrow> buffer \<Rightarrow> nh \<Rightarrow> (int \<times> buffer \<times> nh) mem" where
  "send_frame fd f data b h =
     Option.bind (buf_Write (af_bytes f) b) (\<lambda>b1. Option.bind (buf_Write data b1) (\<lambda>b2.
       map_option (\<lambda>(ok, back, h1). (if ok then 0 else -1, buf_store back b2, h1))
         (SendDataByFd fd (buf_Data b2) (unat (buf_Length b2)) h)))"

definition RM_SendMsgByFd :: "u64 \<Rightarrow> u32 \<Rightarrow> u64 \<Rightarrow> bool \<Rightarrow> u16 \<Rightarrow> u32 \<Rightarrow> u32 \<Rightarrow> u32 \<Rightarrow> u32 \<Rightarrow> u32
    \<Rightarrow> byte list \<Rightarrow> link_mgr \<Rightarrow> nh \<Rightarrow> (int \<times> nh) mem" where
  "RM_SendMsgByFd fd c uid broadcast dzone dtype dinst strans dtrans rnd data m h =
     map_option (\<lambda>(r, _, h1). (r, h1))
       (send_frame fd (mk_frame m c uid broadcast dzone dtype dinst strans dtrans rnd data) data buf_new h)"

definition RM_SendMsg :: "u32 \<Rightarrow> u64 \<Rightarrow> bool \<Rightarrow> u16 \<Rightarrow> u32 \<Rightarrow> u32 \<Rightarrow> u32 \<Rightarrow> u32 \<Rightarrow> u32
    \<Rightarrow> byte list \<Rightarrow> link_mgr \<Rightarrow> nh \<Rightarrow> (int \<times> nh) mem" where
  "RM_SendMsg c uid broadcast dzone dtype dinst strans dtrans rnd data m h =
     (if lm_links m = [] then Some (-1, h)
      else let r = unat uid mod length (lm_links m)
           in RM_SendMsgByFd (lk_fd (lm_links m ! r)) c uid broadcast dzone dtype dinst strans dtrans rnd data m h)"

text \<open>\<^verbatim>\<open>hb\<close> serializes a \<^verbatim>\<open>SvrHeatBeat\<close> of server type and instance id.\<close>

fun RM_tick_links :: "byte list \<Rightarrow> link list \<Rightarrow> link_mgr \<Rightarrow> nh \<Rightarrow> nh mem" where
  "RM_tick_links msg [] m h = Some h"
| "RM_tick_links msg (l # ls) m h =
     Option.bind (RM_SendMsgByFd (lk_fd l) CMD_SVR_HEATBEAT 0 False (ucast (lm_zone m)) SVR_TYPE_ROUTER (lk_inst l)
         0 0 0 msg m h)
       (\<lambda>(_, h1). RM_tick_links msg ls m h1)"

definition RM_Tick :: "(u32 \<Rightarrow> u32 \<Rightarrow> byte list) \<Rightarrow> link_mgr \<Rightarrow> nh \<Rightarrow> nh mem" where
  "RM_Tick hb m h = RM_tick_links (hb (lm_type m) (lm_self_inst m)) (lm_links m) m h"

text \<open>The transfer manager: \<^verbatim>\<open>set_dst_inst_id(dst_trans_id)\<close>, and a buffer that is never cleared.\<close>

definition TR_SendMsgToTransferByFd :: "u64 \<Rightarrow> u32 \<Rightarrow> u64 \<Rightarrow> u16 \<Rightarrow> u32 \<Rightarrow> u32 \<Rightarrow> u32 \<Rightarrow> u32 \<Rightarrow> u32
    \<Rightarrow> byte list \<Rightarrow> transfer_mgr \<Rightarrow> nh \<Rightarrow> (int \<times> transfer_mgr \<times> nh) mem" where
  "TR_SendMsgToTransferByFd fd c uid dzone dtype dinst strans dtrans rnd data m h =
     (let f = mk_frame m c uid False dzone dtype dtrans strans dtrans rnd data
      in map_option (\<lambda>(r, b, h1). (r, m\<lparr>tr_buffer := b, tr_frame := f\<rparr>, h1)) (send_frame fd f data (tr_buffer m) h))"

definition GetTransferInstId :: "u64 \<Rightarrow> u64 list \<Rightarrow> transfer_mgr \<Rightarrow> int \<times> u64 list" where
  "GetTransferInstId uid inst_vec m =
     (if lm_links m = [] then (-1, inst_vec)
      else (0, inst_vec @ [lk_fd (lm_links m ! (unat uid mod length (lm_links m)))]))"

fun TR_tick_links :: "byte list \<Rightarrow> link list \<Rightarrow> transfer_mgr \<Rightarrow> nh \<Rightarrow> (transfer_mgr \<times> nh) mem" where
  "TR_tick_links msg [] m h = Some (m, h)"
| "TR_tick_links msg (l # ls) m h =
     Option.bind (TR_SendMsgToTransferByFd (lk_fd l) CMD_SVR_HEATBEAT 0 (ucast (lm_zone m)) SVR_TYPE_TRANSFER (lk_inst l)
         0 0 0 msg m h)
       (\<lambda>(_, m1, h1). TR_tick_links msg ls m1 h1)"

definition TR_Tick :: "(u32 \<Rightarrow> u32 \<Rightarrow> byte list) \<Rightarrow> transfer_mgr \<Rightarrow> nh \<Rightarrow> (transfer_mgr \<times> nh) mem" where
  "TR_Tick hb m h = TR_tick_links (hb (lm_type m) (lm_self_inst m)) (lm_links m) m h"

end
