(* ===== verification/Links_Props.thy ===== *)
theory Links_Props
  imports Links Net_Handler_Props
begin

text \<open>
  The properties of a server's links: what a reload connects, keeps and closes, which link
  carries a user's messages, and what the transfer manager's shared buffer sends.
\<close>

subsection \<open>The ordered map\<close>

definition links_ok :: "link list \<Rightarrow> bool" where
  "links_ok ls = sorted_wrt (\<lambda>x y. sint (lk_inst x) < sint (lk_inst y)) ls"

lemma links_ok_Cons: "links_ok (x # xs) \<longleftrightarrow> (\<forall>y \<in> set xs. sint (lk_inst x) < sint (lk_inst y)) \<and> links_ok xs"
  by (simp add: links_ok_def)

lemma sint_inst: "sint (a :: u32) = sint b \<longleftrightarrow> a = b"
  using signed_word_eqI by blast

lemma set_imap_put:
  "links_ok ls \<Longrightarrow> set (imap_put l ls) = insert l {x \<in> set ls. lk_inst x \<noteq> lk_inst l}"
proof (induction l ls rule: imap_put.induct)
  case (2 l x xs)
  have h: "\<forall>y \<in> set xs. sint (lk_inst x) < sint (lk_inst y)" "links_ok xs"
    using "2.prems" by (simp_all add: links_ok_Cons)
  consider "sint (lk_inst l) < sint (lk_inst x)" | "lk_inst l = lk_inst x"
    | "\<not> sint (lk_inst l) < sint (lk_inst x)" "lk_inst l \<noteq> lk_inst x" by blast
  then show ?case
  proof cases
    case 1
    have "lk_inst y \<noteq> lk_inst l" if "y \<in> set (x # xs)" for y
      using 1 h(1) that by (metis order.strict_trans order.irrefl set_ConsD)
    then have e: "{y \<in> set (x # xs). lk_inst y \<noteq> lk_inst l} = set (x # xs)" by blast
    have "imap_put l (x # xs) = l # x # xs" using 1 by simp
    then have "set (imap_put l (x # xs)) = insert l (set (x # xs))" by (simp only: list.set)
    then show ?thesis unfolding e .
  next
    case 2
    then have "{y \<in> set (x # xs). lk_inst y \<noteq> lk_inst l} = set xs" using h(1) by fastforce
    then show ?thesis using 2 by simp
  next
    case 3
    have e: "set (imap_put l xs) = insert l {y \<in> set xs. lk_inst y \<noteq> lk_inst l}"
      using "2.IH" [OF 3 h(2)] .
    have "imap_put l (x # xs) = x # imap_put l xs" using 3 by simp
    then have "set (imap_put l (x # xs)) = insert x (set (imap_put l xs))" by (simp only: list.set)
    then show ?thesis unfolding e using 3(2) by auto
  qed
qed simp

lemma imap_put_ok [inv_intros]: "links_ok ls \<Longrightarrow> links_ok (imap_put l ls)"
proof (induction l ls rule: imap_put.induct)
  case (2 l x xs)
  have h: "\<forall>y \<in> set xs. sint (lk_inst x) < sint (lk_inst y)" "links_ok xs"
    using "2.prems" by (simp_all add: links_ok_Cons)
  consider "sint (lk_inst l) < sint (lk_inst x)" | "lk_inst l = lk_inst x"
    | "sint (lk_inst x) < sint (lk_inst l)" "lk_inst l \<noteq> lk_inst x"
    using sint_inst by (meson linorder_less_linear)
  then show ?case
  proof cases
    case 1
    then show ?thesis using h by (fastforce simp: links_ok_Cons)
  next
    case 2
    then show ?thesis using h by (simp add: links_ok_Cons)
  next
    case 3
    then show ?thesis using "2.IH" h by (auto simp: links_ok_Cons set_imap_put)
  qed
qed (simp add: links_ok_def)

lemma links_ok_eq: "\<lbrakk>links_ok ls; x \<in> set ls; y \<in> set ls; lk_inst x = lk_inst y\<rbrakk> \<Longrightarrow> x = y"
  by (induction ls) (auto simp: links_ok_Cons)

lemma links_ok_unique: "\<lbrakk>links_ok xs; links_ok ys; set xs = set ys\<rbrakk> \<Longrightarrow> xs = ys"
proof (induction xs arbitrary: ys)
  case (Cons x xs)
  then obtain y zs where ys: "ys = y # zs" by (cases ys) auto
  have "x = y"
    using Cons.prems ys by (metis links_ok_Cons list.set_intros(1) order_less_asym set_ConsD)
  moreover have "x \<notin> set xs" "y \<notin> set zs" using Cons.prems ys by (auto simp: links_ok_Cons)
  ultimately show ?case using Cons ys by (metis insert_ident links_ok_Cons list.simps(15))
qed simp

subsection \<open>Reload\<close>

text \<open>The items to connect, the links to keep and to close.\<close>

definition new_items :: "'a link_mgr_scheme \<Rightarrow> cfg_item list \<Rightarrow> cfg_item list" where
  "new_items m items =
     filter (\<lambda>c. ci_zone c = lm_zone m \<and> \<not> ExistRouter (ci_ip c) (ci_port c) (ci_inst c) m) items"

definition in_cfg :: "cfg_item list \<Rightarrow> link \<Rightarrow> bool" where
  "in_cfg items l = list_ex (is_item l) items"

definition connect_one :: "int \<Rightarrow> cfg_item \<Rightarrow> nh \<Rightarrow> nh" where
  "connect_one ty c = nh_do (OConnect (ci_ip c) (ucast (ci_port c)) ty (sint (ci_inst c)))"

lemma connect_new_fold:
  "connect_new ty m items (t, h)
     = (fold imap_put (map item_link (new_items m items)) t, fold (connect_one ty) (new_items m items) h)"
  by (induction ty m items "(t, h)" arbitrary: t h rule: connect_new.induct)
    (auto simp: new_items_def connect_one_def)

lemma close_old_fold:
  "close_old items ls (t, h)
     = (fold imap_put (filter (in_cfg items) ls) t,
        fold (\<lambda>l. CloseFd (lk_fd l)) (filter (\<lambda>l. \<not> in_cfg items l) ls) h)"
  by (induction items ls "(t, h)" arbitrary: t h rule: close_old.induct) (auto simp: in_cfg_def)

lemma fold_imap_put:
  assumes "links_ok t" "distinct (map lk_inst ls)"
  shows "links_ok (fold imap_put ls t)"
    and "set (fold imap_put ls t) = set ls \<union> {x \<in> set t. lk_inst x \<notin> lk_inst ` set ls}"
  using assms
proof (induction ls arbitrary: t)
  case (Cons l ls)
  { case 1 then show ?case using Cons.IH(1) by (simp add: imap_put_ok) next
    case 2 then show ?case using Cons.IH(2) [of "imap_put l t"] by (auto simp: imap_put_ok set_imap_put) }
qed auto

lemma zone_ids_distinct:
  "zone_ids_ok z seen items \<Longrightarrow> distinct (map ci_inst (filter (\<lambda>c. ci_zone c = z) items))
     \<and> (\<forall>c \<in> set items. ci_zone c = z \<longrightarrow> ci_inst c \<notin> seen)"
proof (induction items arbitrary: seen)
  case (Cons c cs)
  show ?case
  proof (cases "ci_zone c = z")
    case True
    then have "zone_ids_ok z (insert (ci_inst c) seen) cs" "ci_inst c \<notin> seen"
      using Cons.prems by (simp_all split: if_splits)
    then show ?thesis using Cons.IH True by fastforce
  next
    case False
    then show ?thesis using Cons by simp
  qed
qed simp

lemma distinct_filter2: "distinct (map f (filter P xs)) \<Longrightarrow> distinct (map f (filter (\<lambda>x. P x \<and> Q x) xs))"
proof -
  assume "distinct (map f (filter P xs))"
  then have "distinct (map f (filter Q (filter P xs)))" by (rule distinct_map_filter)
  then show ?thesis by (simp add: conj_commute)
qed

lemma item_inst [simp]: "lk_inst (item_link c) = ci_inst c"
  by (simp add: item_link_def)

lemma links_ok_distinct: "links_ok ls \<Longrightarrow> distinct (map lk_inst ls)"
  by (induction ls) (auto simp: links_ok_Cons)

lemma links_ok_filter: "links_ok ls \<Longrightarrow> links_ok (filter P ls)"
  by (simp add: links_ok_def sorted_wrt_filter)

lemma connect_links_spec:
  assumes ok: "links_ok (lm_links m)" and ids: "zone_ids_ok (lm_zone m) {} items"
    and run: "connect_links ty items m h = (m', h')"
  shows "links_ok (lm_links m')"
    and "set (lm_links m') = {l \<in> set (lm_links m). in_cfg items l}
      \<union> {item_link c |c. c \<in> set (new_items m items)
          \<and> (\<forall>l \<in> set (lm_links m). in_cfg items l \<longrightarrow> lk_inst l \<noteq> ci_inst c)}"
    and "h' = fold (\<lambda>l. CloseFd (lk_fd l)) (filter (\<lambda>l. \<not> in_cfg items l) (lm_links m))
           (fold (connect_one ty) (new_items m items) h)"
    and "m' = m\<lparr>lm_links := lm_links m'\<rparr>"
proof -
  let ?n = "map item_link (new_items m items)" and ?k = "filter (in_cfg items) (lm_links m)"
  have n: "distinct (map lk_inst ?n)"
    using zone_ids_distinct [OF ids] distinct_filter2 [of ci_inst "\<lambda>c. ci_zone c = lm_zone m" items]
    by (simp add: new_items_def comp_def)
  have k: "distinct (map lk_inst ?k)" by (intro links_ok_distinct links_ok_filter ok)
  have e: "links_ok []" by (simp add: links_ok_def)
  have m': "m' = m\<lparr>lm_links := fold imap_put ?k (fold imap_put ?n [])\<rparr>"
    and h': "h' = fold (\<lambda>l. CloseFd (lk_fd l)) (filter (\<lambda>l. \<not> in_cfg items l) (lm_links m))
           (fold (connect_one ty) (new_items m items) h)"
    using run by (simp_all add: connect_links_def connect_new_fold close_old_fold)
  note f1 = fold_imap_put [OF e n] and f2 = fold_imap_put [OF fold_imap_put(1) [OF e n] k]
  show "links_ok (lm_links m')" using f2(1) m' by simp
  show "h' = fold (\<lambda>l. CloseFd (lk_fd l)) (filter (\<lambda>l. \<not> in_cfg items l) (lm_links m))
           (fold (connect_one ty) (new_items m items) h)" by (rule h')
  show "m' = m\<lparr>lm_links := lm_links m'\<rparr>" using m' by simp
  show "set (lm_links m') = {l \<in> set (lm_links m). in_cfg items l}
      \<union> {item_link c |c. c \<in> set (new_items m items)
          \<and> (\<forall>l \<in> set (lm_links m). in_cfg items l \<longrightarrow> lk_inst l \<noteq> ci_inst c)}"
  proof -
    have "set (lm_links m') = set ?k \<union> {x \<in> set ?n. lk_inst x \<notin> lk_inst ` set ?k}"
      using f1(2) f2(2) m' by simp
    then show ?thesis by (auto simp: image_iff) metis+
  qed
qed

subsection \<open>Sending\<close>

text \<open>The connection behind a handle.\<close>

definition fd_ctx :: "u64 \<Rightarrow> nh \<Rightarrow> conn_ctx option" where
  "fd_ctx fd h = (if M_CHECK_IS_TCP_FD fd then ctx_find fd (nh_tcp h)
     else if M_CHECK_IS_TCP_CONNECTOR_FD fd then ctx_find fd (nh_con h) else None)"

definition packet_to :: "u64 \<Rightarrow> byte list \<Rightarrow> nh \<Rightarrow> int \<times> nh" where
  "packet_to fd bs h = (case fd_ctx fd h of None \<Rightarrow> (-1, h) | Some c \<Rightarrow> (0, nh_do (OSend (cx_ptr c) bs) h))"

lemma SendDataByFd_msg:
  "SendDataByFd fd (af_bytes f @ body) (50 + length body) h
     = Some (fd_ctx fd h \<noteq> None, af_bytes f @ body, snd (packet_to fd (af_msg f body) h))"
  by (auto simp: SendDataByFd_def Let_def fd_ctx_def packet_to_def af_msg_def sizeof_app_frame_def split: option.splits)

text \<open>A buffer that holds \<^term>\<open>af_bytes f0 @ rest\<close> once the new frame is behind it sends
  that, with only its first frame in network order.\<close>

lemma send_frame_spec:
  assumes b: "buf_ok b" "unat (buf_Size b) + 50 + length data < buf_limit"
    and d: "buf_Data b @ af_bytes f = af_bytes f0 @ rest"
  shows "\<exists>b'. send_frame fd f data b h
      = Some (fst (packet_to fd (af_msg f0 (rest @ data)) h), b', snd (packet_to fd (af_msg f0 (rest @ data)) h))
    \<and> buf_ok b' \<and> buf_Data b' = af_bytes f0 @ rest @ data
    \<and> unat (buf_Size b') = unat (buf_Size b) + 50 + length data"
proof -
  have "unat (buf_Size b) + length (af_bytes f) < buf_limit" using b(2) by (simp add: sizeof_app_frame_def)
  then obtain b1 where b1: "buf_Write (af_bytes f) b = Some b1" "buf_ok b1" "buf_Data b1 = buf_Data b @ af_bytes f"
      "unat (buf_Size b1) = unat (buf_Size b) + length (af_bytes f)"
    using buf_Write_ok [OF b(1)] by blast
  moreover have "unat (buf_Size b1) + length data < buf_limit" using b(2) b1(4) by (simp add: sizeof_app_frame_def)
  ultimately obtain b2 where b2: "buf_Write data b1 = Some b2" "buf_ok b2" "buf_Data b2 = af_bytes f0 @ rest @ data"
      "unat (buf_Size b2) = unat (buf_Size b) + 50 + length data"
    using buf_Write_ok [of b1 data] d by (auto simp: sizeof_app_frame_def)
  have "unat (buf_Length b2) = 50 + length (rest @ data)"
    using length_buf_Data [OF b2(2)] b2(3) by (simp add: sizeof_app_frame_def)
  then have run: "SendDataByFd fd (buf_Data b2) (unat (buf_Length b2)) h
      = Some (fd_ctx fd h \<noteq> None, buf_Data b2, snd (packet_to fd (af_msg f0 (rest @ data)) h))"
    using SendDataByFd_msg [of fd f0 "rest @ data" h] b2(3) by simp
  have "buf_store (buf_Data b2) b2 = b2" by (simp add: buf_store_def buf_Data_def)
  then show ?thesis
    using b1(1) b2 run by (intro exI [of _ b2]) (simp add: send_frame_def packet_to_def split: option.splits)
qed

lemma RM_SendMsgByFd_spec:
  assumes "50 + length data < buf_limit"
  shows "RM_SendMsgByFd fd c uid bc dz dt di st tr rnd data m h
    = Some (packet_to fd (af_msg (mk_frame m c uid bc dz dt di st tr rnd data) data) h)"
proof -
  let ?f = "mk_frame m c uid bc dz dt di st tr rnd data"
  have "buf_Data buf_new @ af_bytes ?f = af_bytes ?f @ []" by simp
  moreover have "unat (buf_Size buf_new) + 50 + length data < buf_limit" using assms by simp
  ultimately obtain b' where "send_frame fd ?f data buf_new h
      = Some (fst (packet_to fd (af_msg ?f ([] @ data)) h), b', snd (packet_to fd (af_msg ?f ([] @ data)) h))"
    using send_frame_spec [OF buf_ok_new] by blast
  then show ?thesis by (simp add: RM_SendMsgByFd_def)
qed

lemma fd_ctx_demo [simp]: "fd_ctx fd nh_demo = None"
  by (simp add: fd_ctx_def ctx_find_def nh_demo_def)

lemma ucast_port: "p < 65536 \<Longrightarrow> ucast (ucast (p :: u32) :: u16) = p"
proof -
  assume "p < 65536"
  then have "unat p < 2 ^ 16" by (simp add: word_less_nat_alt)
  then have "unat (ucast (ucast p :: u16) :: u32) = unat p"
    by (simp add: unsigned_ucast_eq take_bit_nat_eq_self unsigned_take_bit_eq)
  then show ?thesis by (simp only: word_unat_eq_iff)
qed

subsection \<open>Properties\<close>

text \<open>C20: a reload of the routers connects exactly the items of the server's zone that are no link yet,
  closes exactly the links that the file no longer lists, keeps the others with their handles,
  and leaves one link per instance id, in ascending order.\<close>

theorem Reload_diff:
  assumes ok: "links_ok (lm_links m)" and lf: "lm_file m \<noteq> []" "parse (lm_file m) = Some items"
    and run: "RM_Reload parse m h = (0, m', h')"
  shows "links_ok (lm_links m')
    \<and> set (lm_links m') = {l \<in> set (lm_links m). in_cfg items l}
      \<union> {item_link c |c. c \<in> set (new_items m items)
          \<and> (\<forall>l \<in> set (lm_links m). in_cfg items l \<longrightarrow> lk_inst l \<noteq> ci_inst c)}
    \<and> h' = fold (\<lambda>l. CloseFd (lk_fd l)) (filter (\<lambda>l. \<not> in_cfg items l) (lm_links m))
           (fold (connect_one Enum_ConnType_Router) (new_items m items) h)"
proof -
  have "zone_ids_ok (lm_zone m) {} items" "connect_links Enum_ConnType_Router items m h = (m', h')"
    using run lf by (auto simp: RM_Reload_def reload_with_def ConnectRouters_def split: if_splits)
  from connect_links_spec [OF ok this] show ?thesis by blast
qed

definition demo_items :: "cfg_item list" where
  "demo_items = [\<lparr>ci_ip = ''a'', ci_port = 1, ci_inst = 2, ci_zone = 7\<rparr>, \<lparr>ci_ip = ''b'', ci_port = 1, ci_inst = 1, ci_zone = 7\<rparr>,
     \<lparr>ci_ip = ''c'', ci_port = 1, ci_inst = 2, ci_zone = 8\<rparr>]"

definition demo_links :: link_mgr where
  "demo_links = \<lparr>lm_type = 2, lm_self_inst = 1, lm_zone = 7, lm_file = ''f'',
     lm_links = [\<lparr>lk_ip = ''b'', lk_port = 1, lk_inst = 1, lk_fd = 9\<rparr>, \<lparr>lk_ip = ''d'', lk_port = 1, lk_inst = 3, lk_fd = 0\<rparr>]\<rparr>"

theorem Reload_diff_witness:
  "\<exists>m' h'. RM_Reload (\<lambda>_. Some demo_items) demo_links nh_demo = (0, m', h')
     \<and> set (lm_links m') = {\<lparr>lk_ip = ''b'', lk_port = 1, lk_inst = 1, lk_fd = 9\<rparr>, \<lparr>lk_ip = ''a'', lk_port = 1, lk_inst = 2, lk_fd = 0\<rparr>}"
proof -
  obtain m' h' where c: "ConnectRouters demo_items demo_links nh_demo = (m', h')" by fastforce
  have "zone_ids_ok (lm_zone demo_links) {} demo_items" "lm_file demo_links \<noteq> []"
    by (simp_all add: demo_items_def demo_links_def)
  then have run: "RM_Reload (\<lambda>_. Some demo_items) demo_links nh_demo = (0, m', h')"
    using c by (simp add: RM_Reload_def reload_with_def)
  have ok: "links_ok (lm_links demo_links)" "lm_file demo_links \<noteq> []" by (simp_all add: demo_links_def links_ok_def)
  have n: "new_items demo_links demo_items = [\<lparr>ci_ip = ''a'', ci_port = 1, ci_inst = 2, ci_zone = 7\<rparr>]"
    "filter (in_cfg demo_items) (lm_links demo_links) = [\<lparr>lk_ip = ''b'', lk_port = 1, lk_inst = 1, lk_fd = 9\<rparr>]"
    by (simp_all add: new_items_def in_cfg_def demo_items_def demo_links_def ExistRouter_def link_is_def is_item_def)
  have k: "{l \<in> set (lm_links demo_links). in_cfg demo_items l} = {\<lparr>lk_ip = ''b'', lk_port = 1, lk_inst = 1, lk_fd = 9\<rparr>}"
    using arg_cong [OF n(2), of set] by simp
  have "set (lm_links m') = {l \<in> set (lm_links demo_links). in_cfg demo_items l}
      \<union> {item_link c |c. c \<in> set (new_items demo_links demo_items)
          \<and> (\<forall>l \<in> set (lm_links demo_links). in_cfg demo_items l \<longrightarrow> lk_inst l \<noteq> ci_inst c)}"
    using Reload_diff [OF ok _ run] by blast
  moreover have "{item_link c |c. c \<in> set (new_items demo_links demo_items)
      \<and> (\<forall>l \<in> set (lm_links demo_links). in_cfg demo_items l \<longrightarrow> lk_inst l \<noteq> ci_inst c)}
    = {\<lparr>lk_ip = ''a'', lk_port = 1, lk_inst = 2, lk_fd = 0\<rparr>}"
  proof -
    have "\<forall>l \<in> set (lm_links demo_links). in_cfg demo_items l \<longrightarrow> lk_inst l \<noteq> 2"
    proof (intro ballI impI)
      fix l assume "l \<in> set (lm_links demo_links)" "in_cfg demo_items l"
      then have "l \<in> {\<lparr>lk_ip = ''b'', lk_port = 1, lk_inst = 1, lk_fd = 9\<rparr>}" unfolding k [symmetric] by simp
      then show "lk_inst l \<noteq> 2" by simp
    qed
    then show ?thesis unfolding n(1) by (auto simp: item_link_def)
  qed
  ultimately have "set (lm_links m') = {\<lparr>lk_ip = ''b'', lk_port = 1, lk_inst = 1, lk_fd = 9\<rparr>, \<lparr>lk_ip = ''a'', lk_port = 1, lk_inst = 2, lk_fd = 0\<rparr>}"
    unfolding k by (simp only: insert_is_Un [symmetric])
  then show ?thesis using run by blast
qed

text \<open>Reading an unchanged transfer file again changes nothing: no connection is opened or closed and
  every link keeps its handle, when the file lists servers of the zone with 16-bit ports.\<close>

theorem Reload_stable:
  assumes ok: "links_ok (lm_links m)" and lf: "lm_file m \<noteq> []" "parse (lm_file m) = Some items"
    and zone: "\<forall>c \<in> set items. ci_zone c = lm_zone m \<and> ci_port c < 65536"
    and run: "TR_Reload parse m h = (0, m', h')"
  shows "TR_Reload parse m' h2 = (0, m', h2)"
proof -
  have ids: "zone_ids_ok (lm_zone m) {} items" and c: "connect_links Enum_ConnType_Transfer items m h = (m', h')"
    using run lf by (auto simp: TR_Reload_def reload_with_def ConnectTransfers_def split: if_splits)
  note sp = connect_links_spec [OF ok ids c]
  have m': "lm_zone m' = lm_zone m" "lm_file m' = lm_file m" by (subst sp(4), simp)+
  have port: "ci_port c < 65536 \<Longrightarrow> is_item (item_link c) c" for c
    by (simp add: is_item_def link_is_def item_link_def ucast_port)
  have in': "in_cfg items l" if l': "l \<in> set (lm_links m')" for l
  proof -
    consider "in_cfg items l" | c where "c \<in> set items" "l = item_link c"
      using l' unfolding sp(2) new_items_def by auto
    then show ?thesis
    proof cases
      case 2
      then show ?thesis using port zone by (auto simp: in_cfg_def list_ex_iff)
    qed
  qed
  have ex: "ExistRouter (ci_ip c) (ci_port c) (ci_inst c) m'" if c: "c \<in> set items" for c
  proof (cases "ExistRouter (ci_ip c) (ci_port c) (ci_inst c) m")
    case True
    then obtain l where l: "l \<in> set (lm_links m)" "is_item l c" by (auto simp: ExistRouter_def list_ex_iff is_item_def)
    then have "l \<in> set (lm_links m')" using sp(2) c by (auto simp: in_cfg_def list_ex_iff)
    then show ?thesis using l(2) by (auto simp: ExistRouter_def list_ex_iff is_item_def)
  next
    case False
    have "lk_inst l \<noteq> ci_inst c" if l: "l \<in> set (lm_links m)" "in_cfg items l" for l
    proof
      assume eq: "lk_inst l = ci_inst c"
      obtain d where d: "d \<in> set items" "is_item l d" using l(2) by (auto simp: in_cfg_def list_ex_iff)
      have "ci_inst d = ci_inst c" using d(2) eq by (simp add: is_item_def link_is_def)
      moreover have "filter (\<lambda>c. ci_zone c = lm_zone m) items = items" using zone by (simp add: filter_id_conv)
      then have "distinct (map ci_inst items)" using zone_ids_distinct [OF ids] by simp
      ultimately have "d = c" using d(1) c by (auto simp: distinct_map inj_on_def)
      then show False using False d(2) l(1) by (auto simp: ExistRouter_def list_ex_iff is_item_def)
    qed
    then have "item_link c \<in> set (lm_links m')" using sp(2) c False zone by (auto simp: new_items_def)
    moreover have "is_item (item_link c) c" using port zone c by blast
    ultimately show ?thesis by (auto simp: ExistRouter_def list_ex_iff is_item_def)
  qed
  have n: "new_items m' items = []" using ex by (simp add: new_items_def filter_empty_conv)
  have o: "filter (\<lambda>l. \<not> in_cfg items l) (lm_links m') = []" using in' by (simp add: filter_empty_conv)
  obtain m2 h3 where c2: "connect_links Enum_ConnType_Transfer items m' h2 = (m2, h3)" by fastforce
  have ids': "zone_ids_ok (lm_zone m') {} items" using ids m'(1) by simp
  note s2 = connect_links_spec [OF sp(1) ids' c2]
  have "set (lm_links m2) = set (lm_links m')" using s2(2) n in' by auto
  then have "lm_links m2 = lm_links m'" by (rule links_ok_unique [OF s2(1) sp(1)])
  then have "m2 = m'" using s2(4) by simp
  moreover have "h3 = h2" using s2(3) n o by simp
  ultimately show ?thesis using c2 ids' lf m' by (simp add: TR_Reload_def reload_with_def ConnectTransfers_def)
qed

definition demo_transfers :: transfer_mgr where
  "demo_transfers = TransferMgr\<lparr>lm_zone := 7, lm_file := ''f''\<rparr>"

theorem Reload_stable_witness:
  "\<exists>m' h'. TR_Reload (\<lambda>_. Some (take 2 demo_items)) demo_transfers nh_demo = (0, m', h')
     \<and> TR_Reload (\<lambda>_. Some (take 2 demo_items)) m' nh_demo = (0, m', nh_demo)"
proof -
  obtain m' h' where c: "ConnectTransfers (take 2 demo_items) demo_transfers nh_demo = (m', h')" by fastforce
  have h: "zone_ids_ok (lm_zone demo_transfers) {} (take 2 demo_items)" "lm_file demo_transfers \<noteq> []"
    "links_ok (lm_links demo_transfers)"
    "\<forall>c \<in> set (take 2 demo_items). ci_zone c = lm_zone demo_transfers \<and> ci_port c < 65536"
    by (simp_all add: demo_items_def demo_transfers_def TransferMgr_def links_ok_def)
  then have run: "TR_Reload (\<lambda>_. Some (take 2 demo_items)) demo_transfers nh_demo = (0, m', h')"
    using c by (simp add: TR_Reload_def reload_with_def)
  show ?thesis using Reload_stable [OF h(3,2) _ h(4) run] run by blast
qed

text \<open>A message for a user goes to one router, number \<^verbatim>\<open>userid\<close> modulo the number of configured routers,
  whether that router is connected or not: when its handle is dead the message is lost,
  whatever other routers are connected.\<close>

theorem SendMsg_one_router:
  assumes "lm_links m \<noteq> []" "50 + length data < buf_limit"
  shows "RM_SendMsg c uid bc dz dt di st tr rnd data m h
    = Some (case fd_ctx (lk_fd (lm_links m ! (unat uid mod length (lm_links m)))) h of
        None \<Rightarrow> (-1, h)
      | Some x \<Rightarrow> (0, nh_do (OSend (cx_ptr x) (af_msg (mk_frame m c uid bc dz dt di st tr rnd data) data)) h))"
  using assms by (simp add: RM_SendMsg_def Let_def RM_SendMsgByFd_spec packet_to_def)

theorem SendMsg_one_router_witness:
  "RM_SendMsg 100 5 False 7 4 0 0 0 0 [1] demo_links nh_demo = Some (-1, nh_demo)"
proof -
  have "lm_links demo_links \<noteq> []" "50 + length [1 :: byte] < buf_limit"
    by (simp_all add: demo_links_def buf_limit_def)
  from SendMsg_one_router [OF this, of 100 5 False 7 4 0 0 0 0 nh_demo] show ?thesis
    by (simp only: fd_ctx_demo option.case)
qed

text \<open>The transfer manager's buffer is never cleared: once it holds a message, whose frame is
  \<^term>\<open>f0\<close>, every later message, for whatever handle and with whatever frame, is sent behind all
  earlier ones in one packet, and the receiver reads the first frame again.\<close>

theorem transfer_repeats_first_frame:
  assumes b: "buf_ok (tr_buffer m)" "unat (buf_Size (tr_buffer m)) + 50 + length data < buf_limit"
    and first: "buf_Data (tr_buffer m) = af_bytes f0 @ rest"
    and f: "f = mk_frame m c uid False dz dt tr st tr rnd data"
  shows "\<exists>b'. TR_SendMsgToTransferByFd fd c uid dz dt di st tr rnd data m h
      = (case packet_to fd (af_msg f0 (rest @ af_bytes f @ data)) h of
           (r, h') \<Rightarrow> Some (r, m\<lparr>tr_buffer := b', tr_frame := f\<rparr>, h'))
    \<and> af_parse (af_msg f0 (rest @ af_bytes f @ data)) = (f0, rest @ af_bytes f @ data)
    \<and> buf_ok b' \<and> buf_Data b' = af_bytes f0 @ rest @ af_bytes f @ data"
proof -
  have "buf_Data (tr_buffer m) @ af_bytes f = af_bytes f0 @ (rest @ af_bytes f)" using first by simp
  from send_frame_spec [OF b this, of fd h] obtain b' where "send_frame fd f data (tr_buffer m) h
      = Some (fst (packet_to fd (af_msg f0 ((rest @ af_bytes f) @ data)) h), b',
          snd (packet_to fd (af_msg f0 ((rest @ af_bytes f) @ data)) h))"
      "buf_ok b'" "buf_Data b' = af_bytes f0 @ (rest @ af_bytes f) @ data"
    by blast
  then show ?thesis using f by (intro exI [of _ b']) (simp add: TR_SendMsgToTransferByFd_def Let_def split_beta)
qed

definition demo_frame1 :: app_frame where
  "demo_frame1 = mk_frame TransferMgr 3 0 False 0 3 0 0 0 0 []"

theorem transfer_repeats_first_frame_witness:
  "\<exists>m1. TR_SendMsgToTransferByFd 0 3 0 0 3 0 0 0 0 [] TransferMgr nh_demo = Some (-1, m1, nh_demo)
     \<and> buf_Data (tr_buffer m1) = af_bytes demo_frame1
     \<and> (\<exists>m2. TR_SendMsgToTransferByFd 0 16 0 0 3 0 0 0 0 [7] m1 nh_demo = Some (-1, m2, nh_demo)
          \<and> buf_Data (tr_buffer m2) = af_bytes demo_frame1 @ af_bytes (mk_frame m1 16 0 False 0 3 0 0 0 0 [7]) @ [7])"
proof -
  have b0: "buf_ok (tr_buffer TransferMgr)" "buf_Data (tr_buffer TransferMgr) = []"
    "unat (buf_Size (tr_buffer TransferMgr)) = 0" by (simp_all add: TransferMgr_def)
  have l0: "unat (buf_Size (tr_buffer TransferMgr)) + 50 + length ([] :: byte list) < buf_limit"
    "buf_Data (tr_buffer TransferMgr) @ af_bytes demo_frame1 = af_bytes demo_frame1 @ []"
    using b0 by (simp_all add: buf_limit_def)
  obtain b1 where b1: "send_frame 0 demo_frame1 [] (tr_buffer TransferMgr) nh_demo = Some (-1, b1, nh_demo)"
      "buf_ok b1" "buf_Data b1 = af_bytes demo_frame1" "unat (buf_Size b1) = 50"
    using send_frame_spec [OF b0(1) l0, of 0 nh_demo] b0(3) by (auto simp: packet_to_def)
  let ?m1 = "TransferMgr\<lparr>tr_buffer := b1, tr_frame := demo_frame1\<rparr>"
  have r1: "TR_SendMsgToTransferByFd 0 3 0 0 3 0 0 0 0 [] TransferMgr nh_demo = Some (-1, ?m1, nh_demo)"
    using b1(1) by (simp add: TR_SendMsgToTransferByFd_def Let_def demo_frame1_def)
  have h: "buf_ok (tr_buffer ?m1)" "unat (buf_Size (tr_buffer ?m1)) + 50 + length [7 :: byte] < buf_limit"
    "buf_Data (tr_buffer ?m1) = af_bytes demo_frame1 @ []"
    using b1 by (simp_all add: buf_limit_def)
  obtain m2 where "TR_SendMsgToTransferByFd 0 16 0 0 3 0 0 0 0 [7] ?m1 nh_demo = Some (-1, m2, nh_demo)"
      "buf_Data (tr_buffer m2) = af_bytes demo_frame1 @ af_bytes (mk_frame ?m1 16 0 False 0 3 0 0 0 0 [7]) @ [7]"
    using transfer_repeats_first_frame [OF h refl, of 0 16 0 0 3 0 0 0 0 nh_demo] by (auto simp: packet_to_def)
  moreover have "buf_Data (tr_buffer ?m1) = af_bytes demo_frame1" using b1(3) by simp
  ultimately show ?thesis using r1 by blast
qed

end
