(* ===== verification/Instances.thy ===== *)
theory Instances
  imports Links Multi_Index
begin

text \<open>
  The registries of a routing server: \<^verbatim>\<open>routersvr/server_instance_mgr.cpp\<close> with
  \<^verbatim>\<open>server_instance_info.h\<close> (which connection serves which server type and instance),
  \<^verbatim>\<open>transfersvr/router_inst_mgr.cpp\<close> (the routers connected to a transfer server) and
  \<^verbatim>\<open>transfersvr/user_login_mgr.cpp\<close> (the zone of each user).  All three are
  \<^verbatim>\<open>boost::multi_index\<close> containers, listed in the order of their non-unique index.
\<close>

subsection \<open>\<^verbatim>\<open>SeverInstanceMgr\<close>\<close>

definition POLICY_ROUTER :: u32 where "POLICY_ROUTER = 0"
definition POLICY_RANDOM :: u32 where "POLICY_RANDOM = 1"
definition POLICY_MOD :: u32 where "POLICY_MOD = 2"
definition POLICY_BROADCAST :: u32 where "POLICY_BROADCAST = 3"

text \<open>\<^verbatim>\<open>InstContainer\<close>; its set of ids in ascending order.\<close>

record inst_cont =
  ic_svr_type :: u32
  ic_policy :: u32
  ic_set :: "u32 list"

text \<open>\<^verbatim>\<open>SvrInstInfo\<close>; \<^verbatim>\<open>si_info\<close> is the shared pointer to the container of its type.\<close>

record inst =
  si_type_inst :: u32
  si_fd :: u64
  si_inst :: u32
  si_online :: bool
  si_info :: nat

text \<open>The configuration: server types and their policies.\<close>

record inst_mgr =
  im_config :: "(u32 \<times> u32) list option"
  im_list :: "inst list"
  im_info :: "nat \<Rightarrow> inst_cont"
  im_next :: nat

definition SeverInstanceMgr :: inst_mgr where
  "SeverInstanceMgr = \<lparr>im_config = None, im_list = [],
     im_info = (\<lambda>_. \<lparr>ic_svr_type = 0, ic_policy = 0, ic_set = []\<rparr>), im_next = 0\<rparr>"

definition IM_Init :: "(u32 \<times> u32) list option \<Rightarrow> inst_mgr \<Rightarrow> int \<times> inst_mgr" where
  "IM_Init conf m = (case conf of None \<Rightarrow> (-1, m) | Some _ \<Rightarrow> (0, m\<lparr>im_config := conf\<rparr>))"

definition CalcTypeId :: "u32 \<Rightarrow> u32 \<Rightarrow> u32" where
  "CalcTypeId ty i = push_bit 10 ty + i"

fun iset_insert :: "u32 \<Rightarrow> u32 list \<Rightarrow> u32 list" where
  "iset_insert i [] = [i]"
| "iset_insert i (x # xs) =
     (if sint i < sint x then i # x # xs else if i = x then x # xs else x # iset_insert i xs)"

definition GetPolicy :: "u32 \<Rightarrow> inst_mgr \<Rightarrow> u32 option" where
  "GetPolicy ty m =
     (case im_config m of None \<Rightarrow> None | Some ps \<Rightarrow> map_option snd (find (\<lambda>p. fst p = ty) ps))"

definition inst_key :: "inst \<Rightarrow> int" where "inst_key x = sint (si_fd x)"

definition inst_find :: "u32 \<Rightarrow> inst_mgr \<Rightarrow> inst option" where
  "inst_find k m = find (\<lambda>x. si_type_inst x = k) (im_list m)"

definition inst_insert :: "inst \<Rightarrow> inst_mgr \<Rightarrow> inst_mgr" where
  "inst_insert x m = m\<lparr>im_list := oi_place inst_key x (im_list m)\<rparr>"

definition FuncModifySvrInstInfo :: "u64 \<Rightarrow> bool \<Rightarrow> inst \<Rightarrow> inst" where
  "FuncModifySvrInstInfo fd online x = x\<lparr>si_fd := fd, si_online := online\<rparr>"

text \<open>The first half of \<^verbatim>\<open>LoginInstance\<close>: the element with instance 0 that holds the type's container.\<close>

definition ensure_basic :: "u32 \<Rightarrow> u32 \<Rightarrow> inst_mgr \<Rightarrow> inst \<times> inst_mgr" where
  "ensure_basic ty policy m =
     (let basic_id = CalcTypeId ty 0 in
      case inst_find basic_id m of
        Some b \<Rightarrow> (b, m)
      | None \<Rightarrow>
          let info = \<lparr>si_type_inst = basic_id, si_fd = 0, si_inst = 0, si_online = False, si_info = im_next m\<rparr>
          in (info, inst_insert info (m\<lparr>
                im_info := (im_info m)(im_next m := \<lparr>ic_svr_type = ty, ic_policy = policy, ic_set = []\<rparr>),
                im_next := im_next m + 1\<rparr>)))"

definition set_add :: "nat \<Rightarrow> u32 \<Rightarrow> inst_mgr \<Rightarrow> inst_mgr" where
  "set_add p i m = m\<lparr>im_info := (im_info m)(p := (im_info m p)\<lparr>ic_set := iset_insert i (ic_set (im_info m p))\<rparr>)\<rparr>"

text \<open>Its second half: the element of the instance itself.\<close>

definition login_inst :: "u32 \<Rightarrow> u32 \<Rightarrow> u64 \<Rightarrow> nat \<Rightarrow> inst_mgr \<Rightarrow> inst_mgr" where
  "login_inst ty i fd p m =
     (let k = CalcTypeId ty i in
      case inst_find k m of
        None \<Rightarrow> inst_insert \<lparr>si_type_inst = k, si_fd = fd, si_inst = i, si_online = True, si_info = p\<rparr> (set_add p i m)
      | Some _ \<Rightarrow> m\<lparr>im_list := oi_modify inst_key (\<lambda>x. si_type_inst x = k) (FuncModifySvrInstInfo fd True) (im_list m)\<rparr>)"

definition IM_LoginInstance :: "u32 \<Rightarrow> u32 \<Rightarrow> u64 \<Rightarrow> inst_mgr \<Rightarrow> int \<times> inst_mgr" where
  "IM_LoginInstance ty i fd m =
     (if GetPolicy ty m = None \<or> i = 0 then (-1, m)
      else let bm = ensure_basic ty (the (GetPolicy ty m)) m
           in (0, login_inst ty i fd (si_info (fst bm)) (snd bm)))"

definition IM_LogoutInstance :: "u64 \<Rightarrow> inst_mgr \<Rightarrow> inst_mgr" where
  "IM_LogoutInstance fd m =
     (if fd = 0 then m
      else m\<lparr>im_list := oi_modify inst_key (\<lambda>x. si_fd x = fd) (FuncModifySvrInstInfo 0 False) (im_list m)\<rparr>)"

definition GetFdByTypeId :: "u32 \<Rightarrow> u32 \<Rightarrow> inst_mgr \<Rightarrow> u64" where
  "GetFdByTypeId ty i m = (case inst_find (CalcTypeId ty i) m of None \<Rightarrow> 0 | Some x \<Rightarrow> si_fd x)"

text \<open>\<^verbatim>\<open>RouterPolicy\<close> appends to \<^verbatim>\<open>inst_vec\<close>, or swaps with it.\<close>

definition RouterPolicy :: "u64 \<Rightarrow> u32 \<Rightarrow> bool \<Rightarrow> u32 list \<Rightarrow> inst_mgr \<Rightarrow> u32 list" where
  "RouterPolicy uid ty broadcast inst_vec m =
     (case inst_find (CalcTypeId ty 0) m of
        None \<Rightarrow> inst_vec
      | Some b \<Rightarrow>
          let all = ic_set (im_info m (si_info b)); policy = ic_policy (im_info m (si_info b)) in
          if all = [] then inst_vec
          else if broadcast then all
          else if policy = POLICY_RANDOM then inst_vec @ [hd all]
          else if policy = POLICY_MOD then inst_vec @ [all ! (unat uid mod length all)]
          else if policy = POLICY_BROADCAST then all
          else inst_vec)"

subsection \<open>\<^verbatim>\<open>RouterInstanceMgr\<close> of a transfer server\<close>

text \<open>\<^verbatim>\<open>online\<close> of a new element is not initialised: \<^term>\<open>None\<close>.\<close>

record rinst =
  ri_fd :: u64
  ri_inst :: u32
  ri_online :: "bool option"

definition rinst_key :: "rinst \<Rightarrow> int" where "rinst_key x = sint (ri_fd x)"

definition FuncModifyRouterInstInfo :: "u64 \<Rightarrow> bool \<Rightarrow> rinst \<Rightarrow> rinst" where
  "FuncModifyRouterInstInfo fd online x = x\<lparr>ri_fd := fd, ri_online := Some online\<rparr>"

definition RI_LoginInstance :: "u32 \<Rightarrow> u32 \<Rightarrow> u64 \<Rightarrow> rinst list \<Rightarrow> int \<times> rinst list" where
  "RI_LoginInstance ty i fd l =
     (if ty \<noteq> SVR_TYPE_ROUTER then (-1, l)
      else case find (\<lambda>x. ri_inst x = i) l of
          None \<Rightarrow> (0, oi_place rinst_key \<lparr>ri_fd = fd, ri_inst = i, ri_online = None\<rparr> l)
        | Some _ \<Rightarrow> (0, oi_modify rinst_key (\<lambda>x. ri_inst x = i) (FuncModifyRouterInstInfo fd True) l))"

definition RI_LogoutInstance :: "u64 \<Rightarrow> rinst list \<Rightarrow> rinst list" where
  "RI_LogoutInstance fd l =
     (if fd = 0 then l else oi_modify rinst_key (\<lambda>x. ri_fd x = fd) (FuncModifyRouterInstInfo 0 False) l)"

text \<open>\<^verbatim>\<open>GetRouterFd\<close> walks the index of instance ids.\<close>

definition GetRouterFd :: "u64 \<Rightarrow> rinst list \<Rightarrow> u64" where
  "GetRouterFd uid l =
     (let fd_vec = map ri_fd (sort_key (\<lambda>x. sint (ri_inst x)) l)
      in if fd_vec = [] then 0 else fd_vec ! (unat uid mod length fd_vec))"

subsection \<open>\<^verbatim>\<open>UserLoginMgr\<close>\<close>

record login_info =
  lg_userid :: u64
  lg_tt :: u32
  lg_zone :: u32

definition login_key :: "login_info \<Rightarrow> int" where "login_key x = int (unat (lg_tt x))"

definition GetLoginZone :: "u64 \<Rightarrow> login_info list \<Rightarrow> u32" where
  "GetLoginZone uid l = (case find (\<lambda>x. lg_userid x = uid) l of None \<Rightarrow> 0 | Some x \<Rightarrow> lg_zone x)"

definition FuncModifyLogininfo :: "u32 \<Rightarrow> u32 \<Rightarrow> login_info \<Rightarrow> login_info" where
  "FuncModifyLogininfo tt zone x = x\<lparr>lg_tt := tt, lg_zone := zone\<rparr>"

definition UpdateLoginInfo :: "u64 \<Rightarrow> u32 \<Rightarrow> u32 \<Rightarrow> login_info list \<Rightarrow> u32 \<times> login_info list" where
  "UpdateLoginInfo uid zone tt l =
     (case find (\<lambda>x. lg_userid x = uid) l of
        None \<Rightarrow> (0, oi_place login_key \<lparr>lg_userid = uid, lg_tt = tt, lg_zone = zone\<rparr> l)
      | Some x \<Rightarrow> (lg_zone x, oi_modify login_key (\<lambda>y. lg_userid y = uid) (FuncModifyLogininfo tt zone) l))"

text \<open>\<^verbatim>\<open>Tick\<close> walks the index by time.  Both branches of its body advance the iterator and so does the
  loop header: every second element is skipped, and behind the last element the header
  advances the end iterator, which is undefined.\<close>

definition login_expired :: "int \<Rightarrow> login_info \<Rightarrow> bool" where
  "login_expired now x \<longleftrightarrow> now - int (unat (lg_tt x)) > 30"

fun UL_Tick :: "int \<Rightarrow> login_info list \<Rightarrow> login_info list mem" where
  "UL_Tick now [] = Some []"
| "UL_Tick now [x] = None"
| "UL_Tick now (x # y # l) =
     map_option (\<lambda>r. if login_expired now x then y # r else x # y # r) (UL_Tick now l)"

end
