(* ===== verification/Instances_Props.thy ===== *)
theory Instances_Props
  imports Instances
begin

text \<open>
  The properties of the registries: logging in and out against the map from type and
  instance to connection that they implement, what the routing policies choose from, and
  the collisions of the packed type-and-instance id.
\<close>

definition insts_ok :: "inst_mgr \<Rightarrow> bool" where
  "insts_ok m \<longleftrightarrow> distinct (map si_type_inst (im_list m)) \<and> oi_sorted inst_key (im_list m)
     \<and> (\<forall>x \<in> set (im_list m). si_info x < im_next m)
     \<and> (\<forall>p. sorted_wrt (\<lambda>a b. sint a < sint b) (ic_set (im_info m p)))"

text \<open>The abstract registry: the connection of a packed id, 0 for none.\<close>

definition fd_of :: "inst_mgr \<Rightarrow> u32 \<Rightarrow> u64" where
  "fd_of m k = (case inst_find k m of None \<Rightarrow> 0 | Some x \<Rightarrow> si_fd x)"

definition members :: "u32 \<Rightarrow> inst_mgr \<Rightarrow> u32 set" where
  "members ty m = (case inst_find (CalcTypeId ty 0) m of None \<Rightarrow> {} | Some b \<Rightarrow> set (ic_set (im_info m (si_info b))))"

definition policy_of :: "u32 \<Rightarrow> inst_mgr \<Rightarrow> u32" where
  "policy_of ty m = (case inst_find (CalcTypeId ty 0) m of None \<Rightarrow> 0 | Some b \<Rightarrow> ic_policy (im_info m (si_info b)))"

text \<open>What a policy has to choose, said over the ascending list of a type's instances (ids are signed):
  all of them for a broadcast or the policy 3, the smallest id for the policy 1, the one the user id
  falls on for the policy 2, and none otherwise.\<close>

definition ascending :: "u32 set \<Rightarrow> u32 list" where
  "ascending S = map word_of_int (sorted_list_of_set (sint ` S))"

definition chosen :: "u32 \<Rightarrow> u64 \<Rightarrow> bool \<Rightarrow> u32 list \<Rightarrow> u32 list" where
  "chosen policy uid broadcast ids =
     (if ids = [] then [] else if broadcast \<or> policy = 3 then ids
      else if policy = 1 then [hd ids]
      else if policy = 2 then [ids ! (unat uid mod length ids)]
      else [])"

lemma CalcTypeId_mult: "CalcTypeId ty i = ty * 1024 + i"
  by (simp add: CalcTypeId_def push_bit_eq_mult)

lemma ascending_set:
  assumes "sorted_wrt (\<lambda>a b. sint a < sint b) l"
  shows "ascending (set l) = l"
proof -
  have "sorted_wrt (<) (map sint l)" using assms by (simp add: sorted_wrt_map)
  then have "sorted_list_of_set (set (map sint l)) = map sint l"
    by (metis strict_sorted_iff sorted_list_of_set.idem_if_sorted_distinct)
  then show ?thesis by (simp add: ascending_def comp_def)
qed

lemma RouterPolicy_chosen:
  assumes "insts_ok m"
  shows "RouterPolicy uid ty bc [] m = chosen (policy_of ty m) uid bc (ascending (members ty m))"
proof (cases "inst_find (CalcTypeId ty 0) m")
  case None
  then show ?thesis by (simp add: RouterPolicy_def chosen_def members_def ascending_def)
next
  case (Some b)
  have "ascending (members ty m) = ic_set (im_info m (si_info b))"
    using Some assms by (simp add: members_def insts_ok_def ascending_set)
  then show ?thesis
    using Some by (simp add: RouterPolicy_def chosen_def policy_of_def Let_def POLICY_RANDOM_def
        POLICY_MOD_def POLICY_BROADCAST_def)
qed

lemma iset_insert_sorted:
  "sorted_wrt (\<lambda>a b. sint a < sint b) l \<Longrightarrow> sorted_wrt (\<lambda>a b. sint a < sint b) (iset_insert i l)"
proof (induction l)
  case (Cons x l)
  have "set (iset_insert i l) = insert i (set l)" by (induction i l rule: iset_insert.induct) auto
  moreover have "sint i \<noteq> sint x" if "i \<noteq> x" using that signed_word_eqI [of i x] by blast
  ultimately show ?case using Cons by (auto simp: not_less)
qed simp

lemma set_add_ok: "insts_ok m \<Longrightarrow> insts_ok (set_add p i m)"
  by (auto simp: insts_ok_def set_add_def iset_insert_sorted)

lemma GetFd_fd_of: "GetFdByTypeId ty i m = fd_of m (CalcTypeId ty i)"
  by (simp add: GetFdByTypeId_def fd_of_def)

lemma set_iset_insert [simp]: "set (iset_insert i l) = insert i (set l)"
  by (induction i l rule: iset_insert.induct) auto

lemma inst_find_sel [simp]:
  "inst_find k (m\<lparr>im_info := f\<rparr>) = inst_find k m" "inst_find k (m\<lparr>im_next := n\<rparr>) = inst_find k m"
  "inst_find k (set_add p i m) = inst_find k m"
  by (simp_all add: inst_find_def set_add_def)

lemma inst_find_mem: "inst_find k m = Some x \<Longrightarrow> x \<in> set (im_list m) \<and> si_type_inst x = k"
  by (auto simp: inst_find_def find_Some_iff)

lemma inst_insert_find:
  assumes "insts_ok m" "inst_find (si_type_inst x) m = None" "si_info x < im_next m"
  shows "inst_find k (inst_insert x m) = (if k = si_type_inst x then Some x else inst_find k m)"
    and "insts_ok (inst_insert x m)"
proof -
  have d: "distinct (map si_type_inst (im_list m))" "si_type_inst x \<notin> si_type_inst ` set (im_list m)"
    using assms(1,2) by (simp_all add: insts_ok_def inst_find_def find_key_none)
  show "inst_find k (inst_insert x m) = (if k = si_type_inst x then Some x else inst_find k m)"
    using find_oi_place(1) [OF d] by (simp add: inst_find_def inst_insert_def)
  show "insts_ok (inst_insert x m)"
    using find_oi_place(2) [OF d] assms by (auto simp: insts_ok_def inst_insert_def oi_place_sorted)
qed

lemma inst_modify_find:
  assumes ok: "insts_ok m" and p: "find p (im_list m) = Some x"
  shows "inst_find k (m\<lparr>im_list := oi_modify inst_key p (FuncModifySvrInstInfo fd on) (im_list m)\<rparr>)
      = (if k = si_type_inst x then Some (FuncModifySvrInstInfo fd on x) else inst_find k m)"
    and "insts_ok (m\<lparr>im_list := oi_modify inst_key p (FuncModifySvrInstInfo fd on) (im_list m)\<rparr>)"
proof -
  have d: "distinct (map si_type_inst (im_list m))" using ok by (simp add: insts_ok_def)
  have u: "si_type_inst (FuncModifySvrInstInfo fd on y) = si_type_inst y" for y
    by (simp add: FuncModifySvrInstInfo_def)
  show "inst_find k (m\<lparr>im_list := oi_modify inst_key p (FuncModifySvrInstInfo fd on) (im_list m)\<rparr>)
      = (if k = si_type_inst x then Some (FuncModifySvrInstInfo fd on x) else inst_find k m)"
    using find_oi_modify(1) [where u = si_type_inst, OF d u p] by (simp add: inst_find_def)
  have "si_info ` set (oi_modify inst_key p (FuncModifySvrInstInfo fd on) (im_list m)) = si_info ` set (im_list m)"
    by (rule keys_oi_modify) (simp add: FuncModifySvrInstInfo_def)
  then have "\<forall>y \<in> set (oi_modify inst_key p (FuncModifySvrInstInfo fd on) (im_list m)). si_info y < im_next m"
    using ok by (metis (no_types, lifting) image_iff insts_ok_def)
  then show "insts_ok (m\<lparr>im_list := oi_modify inst_key p (FuncModifySvrInstInfo fd on) (im_list m)\<rparr>)"
    using ok find_oi_modify(2) [where u = si_type_inst, OF d u p] by (simp add: insts_ok_def oi_modify_sorted)
qed

text \<open>The first half of a login.\<close>

lemma ensure_basic_spec:
  assumes ok: "insts_ok m" and run: "ensure_basic ty p m = (b, m1)"
  shows "insts_ok m1 \<and> inst_find (CalcTypeId ty 0) m1 = Some b
    \<and> (\<forall>k. k \<noteq> CalcTypeId ty 0 \<longrightarrow> inst_find k m1 = inst_find k m)
    \<and> (\<forall>k. fd_of m1 k = fd_of m k) \<and> set (ic_set (im_info m1 (si_info b))) = members ty m
    \<and> (\<forall>q < im_next m. im_info m1 q = im_info m q) \<and> im_next m \<le> im_next m1 \<and> im_config m1 = im_config m
    \<and> (inst_find (CalcTypeId ty 0) m = None \<longrightarrow> ic_policy (im_info m1 (si_info b)) = p \<and> im_next m \<le> si_info b)"
proof (cases "inst_find (CalcTypeId ty 0) m")
  case (Some c)
  then show ?thesis using ok run by (auto simp: ensure_basic_def Let_def members_def)
next
  case None
  let ?x = "\<lparr>si_type_inst = CalcTypeId ty 0, si_fd = 0, si_inst = 0, si_online = False, si_info = im_next m\<rparr>"
  let ?m = "m\<lparr>im_info := (im_info m)(im_next m := \<lparr>ic_svr_type = ty, ic_policy = p, ic_set = []\<rparr>), im_next := im_next m + 1\<rparr>"
  have h: "insts_ok ?m" "inst_find (si_type_inst ?x) ?m = None" "si_info ?x < im_next ?m"
    using ok None by (auto simp: insts_ok_def less_Suc_eq)
  have bm: "b = ?x" "m1 = inst_insert ?x ?m" using run None by (auto simp: ensure_basic_def Let_def)
  note f = inst_insert_find [OF h]
  have i: "im_info m1 = im_info ?m" "im_next m1 = im_next m + 1" "im_config m1 = im_config m"
    using bm(2) by (simp_all add: inst_insert_def)
  show ?thesis
    using None f(2) f(1) i bm by (auto simp: fd_of_def members_def)
qed

lemma login_inst_spec:
  assumes ok: "insts_ok m" and p: "p < im_next m"
  shows "insts_ok (login_inst ty i fd p m)
    \<and> (\<forall>k. fd_of (login_inst ty i fd p m) k = ((fd_of m)(CalcTypeId ty i := fd)) k)
    \<and> (\<forall>k x. inst_find k m = Some x \<longrightarrow> (\<exists>y. inst_find k (login_inst ty i fd p m) = Some y \<and> si_info y = si_info x))
    \<and> (\<forall>k. k \<noteq> CalcTypeId ty i \<longrightarrow> inst_find k (login_inst ty i fd p m) = inst_find k m)
    \<and> (case inst_find (CalcTypeId ty i) m of
        Some _ \<Rightarrow> im_info (login_inst ty i fd p m) = im_info m
      | None \<Rightarrow> login_inst ty i fd p m = inst_insert \<lparr>si_type_inst = CalcTypeId ty i, si_fd = fd, si_inst = i,
                  si_online = True, si_info = p\<rparr> (set_add p i m))"
proof (cases "inst_find (CalcTypeId ty i) m")
  case None
  let ?x = "\<lparr>si_type_inst = CalcTypeId ty i, si_fd = fd, si_inst = i, si_online = True, si_info = p\<rparr>"
  have l: "login_inst ty i fd p m = inst_insert ?x (set_add p i m)"
    using None by (simp add: login_inst_def Let_def)
  have h: "insts_ok (set_add p i m)" "inst_find (si_type_inst ?x) (set_add p i m) = None" "si_info ?x < im_next (set_add p i m)"
    using set_add_ok [OF ok] None p by (simp_all add: set_add_def inst_find_def)
  show ?thesis unfolding l using inst_insert_find [OF h] None by (auto simp: fd_of_def)
next
  case (Some x)
  let ?p = "\<lambda>y. si_type_inst y = CalcTypeId ty i"
  have l: "login_inst ty i fd p m = m\<lparr>im_list := oi_modify inst_key ?p (FuncModifySvrInstInfo fd True) (im_list m)\<rparr>"
    using Some by (simp add: login_inst_def Let_def)
  have f: "find ?p (im_list m) = Some x" using Some by (simp add: inst_find_def)
  have k: "si_type_inst x = CalcTypeId ty i" using inst_find_mem [OF Some] by simp
  show ?thesis
    unfolding l using inst_modify_find [OF ok f] Some k by (auto simp: fd_of_def FuncModifySvrInstInfo_def)
qed

lemma login_members:
  assumes ok: "insts_ok m" and pol: "GetPolicy ty m \<noteq> None" and i: "i \<noteq> 0"
    and new: "inst_find (CalcTypeId ty i) m = None" and run: "IM_LoginInstance ty i fd m = (r, m')"
  shows "\<exists>b. inst_find (CalcTypeId ty 0) m' = Some b \<and> inst_find (CalcTypeId ty i) m'
        = Some \<lparr>si_type_inst = CalcTypeId ty i, si_fd = fd, si_inst = i, si_online = True, si_info = si_info b\<rparr>
      \<and> set (ic_set (im_info m' (si_info b))) = insert i (members ty m)"
proof -
  obtain b m1 where e: "ensure_basic ty (the (GetPolicy ty m)) m = (b, m1)" by fastforce
  have m': "m' = login_inst ty i fd (si_info b) m1" using run pol i e by (simp add: IM_LoginInstance_def Let_def)
  note b = ensure_basic_spec [OF ok e]
  have "si_info b < im_next m1" using b inst_find_mem [of "CalcTypeId ty 0" m1 b] by (simp add: insts_ok_def)
  note l = login_inst_spec [OF conjunct1 [OF b] this, of ty i fd]
  have ne: "CalcTypeId ty 0 \<noteq> CalcTypeId ty i" using i by (simp add: CalcTypeId_def)
  have none: "inst_find (CalcTypeId ty i) m1 = None" using b new ne by metis
  let ?x = "\<lparr>si_type_inst = CalcTypeId ty i, si_fd = fd, si_inst = i, si_online = True, si_info = si_info b\<rparr>"
  have ins: "m' = inst_insert ?x (set_add (si_info b) i m1)" using l none m' by simp
  have h: "insts_ok (set_add (si_info b) i m1)" "inst_find (si_type_inst ?x) (set_add (si_info b) i m1) = None"
    "si_info ?x < im_next (set_add (si_info b) i m1)"
    using b none \<open>si_info b < im_next m1\<close> set_add_ok [of m1] by (simp_all add: set_add_def)
  have "inst_find (CalcTypeId ty 0) m' = Some b" "inst_find (CalcTypeId ty i) m' = Some ?x"
    using b ne inst_insert_find(1) [OF h] unfolding ins by simp_all
  moreover have "ic_set (im_info m' (si_info b)) = iset_insert i (ic_set (im_info m1 (si_info b)))"
    unfolding ins by (simp add: inst_insert_def set_add_def)
  ultimately show ?thesis using b by simp
qed

lemma login_registers:
  assumes ok: "insts_ok m" and run: "IM_LoginInstance ty i fd m = (r, m')"
  shows "(if GetPolicy ty m = None \<or> i = 0 then r = -1 \<and> m' = m
     else r = 0 \<and> insts_ok m'
       \<and> (\<forall>ty2 i2. GetFdByTypeId ty2 i2 m'
            = (if CalcTypeId ty2 i2 = CalcTypeId ty i then fd else GetFdByTypeId ty2 i2 m))
       \<and> (inst_find (CalcTypeId ty i) m = None \<longrightarrow> members ty m' = insert i (members ty m)))"
proof (cases "GetPolicy ty m = None \<or> i = 0")
  case True
  then show ?thesis using run by (simp add: IM_LoginInstance_def)
next
  case False
  obtain b m1 where e: "ensure_basic ty (the (GetPolicy ty m)) m = (b, m1)" by fastforce
  have m': "m' = login_inst ty i fd (si_info b) m1" "r = 0" using run False e by (simp_all add: IM_LoginInstance_def Let_def)
  note b = ensure_basic_spec [OF ok e]
  have "si_info b < im_next m1" using b inst_find_mem [of "CalcTypeId ty 0" m1 b] by (simp add: insts_ok_def)
  note l = login_inst_spec [OF conjunct1 [OF b] this, of ty i fd]
  have "members ty m' = insert i (members ty m)" if new: "inst_find (CalcTypeId ty i) m = None"
  proof -
    have "GetPolicy ty m \<noteq> None" "i \<noteq> 0" using False by simp_all
    from login_members [OF ok this new run] obtain c where "inst_find (CalcTypeId ty 0) m' = Some c"
      "set (ic_set (im_info m' (si_info c))) = insert i (members ty m)" by blast
    then show ?thesis by (simp add: members_def [of ty m'])
  qed
  moreover have "GetFdByTypeId ty2 i2 m' = (if CalcTypeId ty2 i2 = CalcTypeId ty i then fd else GetFdByTypeId ty2 i2 m)"
    for ty2 i2 using l b m'(1) by (simp add: GetFd_fd_of)
  moreover have "insts_ok m'" using l m'(1) by blast
  ultimately show ?thesis using False m'(2) by simp
qed

lemma login_policy:
  assumes ok: "insts_ok m" and run: "IM_LoginInstance ty i fd m = (r, m')" and new: "GetPolicy ty m \<noteq> None" "i \<noteq> 0"
  shows "policy_of ty m' = (if inst_find (CalcTypeId ty 0) m = None then the (GetPolicy ty m) else policy_of ty m)"
proof -
  obtain b m1 where e: "ensure_basic ty (the (GetPolicy ty m)) m = (b, m1)" by fastforce
  have m': "m' = login_inst ty i fd (si_info b) m1" using run new e by (simp add: IM_LoginInstance_def Let_def)
  note b = ensure_basic_spec [OF ok e]
  have "si_info b < im_next m1" using b inst_find_mem [of "CalcTypeId ty 0" m1 b] by (simp add: insts_ok_def)
  note l = login_inst_spec [OF conjunct1 [OF b] this, of ty i fd]
  have "CalcTypeId ty 0 \<noteq> CalcTypeId ty i" using new by (simp add: CalcTypeId_def)
  then have f: "inst_find (CalcTypeId ty 0) m' = Some b" using l b m' by metis
  have "ic_policy (im_info m' q) = ic_policy (im_info m1 q)" for q
    using l m' by (cases "inst_find (CalcTypeId ty i) m1") (auto simp: inst_insert_def set_add_def)
  then have p: "policy_of ty m' = ic_policy (im_info m1 (si_info b))" using f by (simp add: policy_of_def)
  show ?thesis
  proof (cases "inst_find (CalcTypeId ty 0) m")
    case None
    then show ?thesis using p b by simp
  next
    case (Some c)
    then have "c = b" "m1 = m" using e by (auto simp: ensure_basic_def Let_def)
    then show ?thesis using p Some by (simp add: policy_of_def [of ty m])
  qed
qed

lemma login_other:
  assumes ok: "insts_ok m" and run: "IM_LoginInstance ty i fd m = (r, m')" and k: "k \<noteq> CalcTypeId ty 0" "k \<noteq> CalcTypeId ty i"
  shows "inst_find k m' = inst_find k m"
proof (cases "GetPolicy ty m = None \<or> i = 0")
  case True
  then show ?thesis using run by (auto simp: IM_LoginInstance_def)
next
  case False
  obtain b m1 where e: "ensure_basic ty (the (GetPolicy ty m)) m = (b, m1)" by fastforce
  have m': "m' = login_inst ty i fd (si_info b) m1" using run False e by (simp add: IM_LoginInstance_def Let_def)
  note b = ensure_basic_spec [OF ok e]
  have "si_info b < im_next m1" using b inst_find_mem [of "CalcTypeId ty 0" m1 b] by (simp add: insts_ok_def)
  note l = login_inst_spec [OF conjunct1 [OF b] this, of ty i fd]
  show ?thesis using l b k m' by simp
qed

lemma packed_collision: "CalcTypeId t 1024 = CalcTypeId (t + 1) 0"
proof -
  have "push_bit 10 (t + 1) = push_bit 10 t + push_bit 10 1" by (simp add: push_bit_add)
  then show ?thesis by (simp add: CalcTypeId_def)
qed

lemma IM_LoginInstance_config: "IM_LoginInstance ty i fd m = (r, m') \<Longrightarrow> im_config m' = im_config m"
  by (auto simp: IM_LoginInstance_def ensure_basic_def login_inst_def inst_insert_def set_add_def Let_def
      split: if_splits option.splits)

subsection \<open>Properties\<close>

text \<open>C21: a login succeeds exactly for a configured type and a non-zero instance, and changes nothing
  otherwise.  It sets the connection of that packed id, \<^verbatim>\<open>type * 1024 + instance\<close>, and of no other.
  A new instance joins the members of its type; the type has the configured policy when
  this is its first instance, and keeps its policy otherwise.  From then on the instances chosen
  for a message are those that policy names in the ascending list, without duplicates, of
  all members: every one for a broadcast or the policy 3, the smallest for the policy 1,
  the one at the user id modulo their number for the policy 2, none for any other.\<close>

theorem LoginInstance_registers:
  assumes ok: "insts_ok m" and run: "IM_LoginInstance ty i fd m = (r, m')"
  shows "(if GetPolicy ty m = None \<or> i = 0 then r = -1 \<and> m' = m
     else r = 0 \<and> insts_ok m'
       \<and> (\<forall>ty2 i2. GetFdByTypeId ty2 i2 m'
            = (if ty2 * 1024 + i2 = ty * 1024 + i then fd else GetFdByTypeId ty2 i2 m))
       \<and> (inst_find (ty * 1024 + i) m = None \<longrightarrow> members ty m' = insert i (members ty m))
       \<and> policy_of ty m' = (if inst_find (ty * 1024) m = None then the (GetPolicy ty m) else policy_of ty m)
       \<and> (\<forall>uid bc. RouterPolicy uid ty bc [] m' = chosen (policy_of ty m') uid bc (ascending (members ty m')))
       \<and> sorted_wrt (\<lambda>a b. sint a < sint b) (RouterPolicy 0 ty True [] m')
       \<and> set (RouterPolicy 0 ty True [] m') = members ty m')"
proof (cases "GetPolicy ty m = None \<or> i = 0")
  case True
  then show ?thesis using login_registers [OF ok run] by simp
next
  case False
  note l = login_registers [OF ok run] and p = login_policy [OF ok run]
  have ok': "insts_ok m'" using l False by simp
  have t: "CalcTypeId ty 0 = ty * 1024" by (simp add: CalcTypeId_mult)
  have "sorted_wrt (\<lambda>a b. sint a < sint b) (RouterPolicy 0 ty True [] m') \<and> set (RouterPolicy 0 ty True [] m') = members ty m'"
    using ok' by (auto simp: RouterPolicy_def members_def insts_ok_def Let_def split: option.splits)
  then show ?thesis
    using l p False RouterPolicy_chosen [OF ok'] unfolding t by (simp add: CalcTypeId_mult)
qed

definition demo_insts :: inst_mgr where
  "demo_insts = SeverInstanceMgr\<lparr>im_config := Some [(4, 2), (5, 2)]\<rparr>"

lemma demo_insts_ok: "insts_ok demo_insts"
  by (simp add: demo_insts_def SeverInstanceMgr_def insts_ok_def oi_sorted_def)

theorem LoginInstance_registers_witness:
  "\<exists>m'. IM_LoginInstance 4 1 9 demo_insts = (0, m') \<and> GetFdByTypeId 4 1 m' = 9 \<and> members 4 m' = {1}
     \<and> RouterPolicy 77 4 False [] m' = [1]"
proof -
  obtain r m' where run: "IM_LoginInstance 4 1 9 demo_insts = (r, m')" by fastforce
  have "GetPolicy 4 demo_insts = Some 2" "inst_find k demo_insts = None" "members 4 demo_insts = {}" for k
    by (simp_all add: demo_insts_def SeverInstanceMgr_def GetPolicy_def inst_find_def members_def)
  note l = LoginInstance_registers [OF demo_insts_ok run, unfolded this]
  have "r = 0" "GetFdByTypeId 4 1 m' = 9" "members 4 m' = {1}" "policy_of 4 m' = 2"
    "RouterPolicy 77 4 False [] m' = chosen (policy_of 4 m') 77 False (ascending (members 4 m'))"
    using l by simp_all
  then show ?thesis using run by (auto simp: chosen_def ascending_def)
qed

text \<open>A logout clears the connection of one instance and changes no routing decision: the
  policies go on choosing the instance that has gone, and \<^verbatim>\<open>GetFdByTypeId\<close> answers 0 for it.\<close>

theorem LogoutInstance_keeps_share:
  assumes ok: "insts_ok m" and fd: "fd \<noteq> 0" "find (\<lambda>y. si_fd y = fd) (im_list m) = Some x"
  shows "insts_ok (IM_LogoutInstance fd m)
     \<and> (\<forall>ty i. GetFdByTypeId ty i (IM_LogoutInstance fd m)
          = (if CalcTypeId ty i = si_type_inst x then 0 else GetFdByTypeId ty i m))
     \<and> (\<forall>uid ty bc v. RouterPolicy uid ty bc v (IM_LogoutInstance fd m) = RouterPolicy uid ty bc v m)"
proof -
  let ?m = "m\<lparr>im_list := oi_modify inst_key (\<lambda>y. si_fd y = fd) (FuncModifySvrInstInfo 0 False) (im_list m)\<rparr>"
  have m': "IM_LogoutInstance fd m = ?m" using fd(1) by (simp add: IM_LogoutInstance_def)
  note f = inst_modify_find [OF ok fd(2), where fd = 0 and on = False]
  have "find (\<lambda>y. si_type_inst y = si_type_inst x) (im_list m) = Some x"
    using ok fd(2) find_key [of si_type_inst "im_list m" "si_type_inst x" x]
    by (auto simp: insts_ok_def find_Some_iff)
  then have x: "inst_find (si_type_inst x) m = Some x" by (simp add: inst_find_def)
  have "RouterPolicy uid ty bc v ?m = RouterPolicy uid ty bc v m" for uid ty bc v
    using f(1) [of "CalcTypeId ty 0"] x by (auto simp: RouterPolicy_def FuncModifySvrInstInfo_def Let_def split: option.splits)
  then show ?thesis unfolding m' using f by (auto simp: GetFd_fd_of fd_of_def FuncModifySvrInstInfo_def)
qed

theorem LogoutInstance_keeps_share_witness:
  "\<exists>m. GetFdByTypeId 4 1 m = 9 \<and> GetFdByTypeId 4 1 (IM_LogoutInstance 9 m) = 0
     \<and> RouterPolicy 77 4 False [] (IM_LogoutInstance 9 m) = [1]"
proof -
  let ?m = "snd (IM_LoginInstance 4 1 9 demo_insts)"
  have e: "?m = \<lparr>im_config = Some [(4, 2), (5, 2)],
      im_list = [\<lparr>si_type_inst = 4096, si_fd = 0, si_inst = 0, si_online = False, si_info = 0\<rparr>,
                 \<lparr>si_type_inst = 4097, si_fd = 9, si_inst = 1, si_online = True, si_info = 0\<rparr>],
      im_info = (\<lambda>_. \<lparr>ic_svr_type = 0, ic_policy = 0, ic_set = []\<rparr>)(0 := \<lparr>ic_svr_type = 4, ic_policy = 2, ic_set = [1]\<rparr>),
      im_next = 1\<rparr>"
    by (simp add: IM_LoginInstance_def demo_insts_def SeverInstanceMgr_def GetPolicy_def ensure_basic_def inst_find_def
        CalcTypeId_def inst_insert_def inst_key_def login_inst_def set_add_def Let_def)
  have "insts_ok ?m" using login_registers [OF demo_insts_ok, of 4 1 9 "fst (IM_LoginInstance 4 1 9 demo_insts)" ?m]
    by (simp add: GetPolicy_def demo_insts_def SeverInstanceMgr_def)
  moreover have "find (\<lambda>y. si_fd y = 9) (im_list ?m)
      = Some \<lparr>si_type_inst = 4097, si_fd = 9, si_inst = 1, si_online = True, si_info = 0\<rparr>"
    unfolding e by simp
  ultimately have l: "GetFdByTypeId 4 1 (IM_LogoutInstance 9 ?m) = (if CalcTypeId 4 1 = 4097 then 0 else GetFdByTypeId 4 1 ?m)"
    "RouterPolicy 77 4 False [] (IM_LogoutInstance 9 ?m) = RouterPolicy 77 4 False [] ?m"
    using LogoutInstance_keeps_share [of ?m 9] by simp_all
  have "GetFdByTypeId 4 1 ?m = 9" "RouterPolicy 77 4 False [] ?m = [1]" "CalcTypeId 4 1 = 4097"
    unfolding e by (simp_all add: GetFdByTypeId_def inst_find_def CalcTypeId_def RouterPolicy_def POLICY_MOD_def POLICY_RANDOM_def)
  then show ?thesis using l by auto
qed

text \<open>The packed id of instance 1024 of a type is the id under which the next type keeps its
  container.  When that instance logs in first, an instance of the next type joins the
  members of the first type instead, where no connection is found for it.\<close>

theorem LoginInstance_collision:
  assumes ok: "insts_ok m" and pol: "GetPolicy t m \<noteq> None" "GetPolicy (t + 1) m \<noteq> None" and i: "i \<noteq> 0"
    and new: "inst_find (CalcTypeId t 1024) m = None" "inst_find (CalcTypeId (t + 1) i) m = None"
    and ne: "CalcTypeId (t + 1) i \<noteq> CalcTypeId t 0"
    and m1: "IM_LoginInstance t 1024 fa m = (r1, m1)" and m2: "IM_LoginInstance (t + 1) i fb m1 = (r2, m2)"
  shows "members t m2 = insert i (insert 1024 (members t m)) \<and> GetFdByTypeId (t + 1) i m2 = fb
    \<and> (CalcTypeId t i \<notin> {CalcTypeId t 1024, CalcTypeId (t + 1) i} \<longrightarrow> GetFdByTypeId t i m2 = GetFdByTypeId t i m)"
proof -
  have n: "CalcTypeId (t + 1) i \<noteq> CalcTypeId (t + 1) 0" using i by (simp add: CalcTypeId_def)
  let ?x = "\<lambda>b. \<lparr>si_type_inst = CalcTypeId t 1024, si_fd = fa, si_inst = 1024, si_online = True, si_info = si_info b\<rparr>"
  obtain b where b: "inst_find (CalcTypeId t 0) m1 = Some b" "inst_find (CalcTypeId (t + 1) 0) m1 = Some (?x b)"
      "set (ic_set (im_info m1 (si_info b))) = insert 1024 (members t m)"
    using login_members [OF ok pol(1) _ new(1) m1] by (auto simp: packed_collision)
  note g1 = login_registers [OF ok m1]
  have ok1: "insts_ok m1" using g1 pol(1) by simp
  have pol1: "GetPolicy (t + 1) m1 \<noteq> None"
    using pol(2) IM_LoginInstance_config [OF m1] by (simp add: GetPolicy_def)
  note g2 = login_registers [OF ok1 m2]
  have m2': "m2 = login_inst (t + 1) i fb (si_info b) m1"
    using m2 pol1 i b(2) by (simp add: IM_LoginInstance_def ensure_basic_def Let_def)
  have none: "inst_find (CalcTypeId (t + 1) i) m1 = None"
    using login_other [OF ok m1, of "CalcTypeId (t + 1) i"] new(2) ne n by (simp add: packed_collision)
  have p: "si_info b < im_next m1" using ok1 inst_find_mem [OF b(1)] by (simp add: insts_ok_def)
  note l = login_inst_spec [OF ok1 p, of "t + 1" i fb]
  have "inst_find (CalcTypeId t 0) m2 = Some b" using l b(1) ne m2' by metis
  moreover have "ic_set (im_info m2 (si_info b)) = iset_insert i (ic_set (im_info m1 (si_info b)))"
    using l none unfolding m2' by (auto simp: inst_insert_def set_add_def)
  ultimately have "members t m2 = insert i (insert 1024 (members t m))" using b(3) by (simp add: members_def [of t m2])
  then show ?thesis using g1 g2 pol(1) pol1 i by simp
qed

theorem LoginInstance_collision_witness:
  "\<exists>m1 m2. IM_LoginInstance 4 1024 8 demo_insts = (0, m1) \<and> IM_LoginInstance 5 3 9 m1 = (0, m2)
     \<and> members 4 m2 = {3, 1024} \<and> GetFdByTypeId 5 3 m2 = 9 \<and> GetFdByTypeId 4 3 m2 = 0"
proof -
  obtain r1 m1 where m1: "IM_LoginInstance 4 1024 8 demo_insts = (r1, m1)" by fastforce
  obtain r2 m2 where m2: "IM_LoginInstance (4 + 1) 3 9 m1 = (r2, m2)" by fastforce
  have h: "GetPolicy 4 demo_insts \<noteq> None" "GetPolicy (4 + 1) demo_insts \<noteq> None" "(3 :: u32) \<noteq> 0"
    "inst_find (CalcTypeId 4 1024) demo_insts = None" "inst_find (CalcTypeId (4 + 1) 3) demo_insts = None"
    "CalcTypeId (4 + 1) 3 \<noteq> CalcTypeId 4 0"
    by (simp_all add: demo_insts_def SeverInstanceMgr_def GetPolicy_def inst_find_def CalcTypeId_def)
  have "members 4 demo_insts = {}" "GetFdByTypeId 4 3 demo_insts = 0" "CalcTypeId 4 3 \<notin> {CalcTypeId 4 1024, CalcTypeId (4 + 1) 3}"
    by (simp_all add: demo_insts_def SeverInstanceMgr_def inst_find_def members_def GetFdByTypeId_def CalcTypeId_def)
  moreover have "r1 = 0" "r2 = 0"
    using m1 m2 h(1,2) IM_LoginInstance_config [OF m1] by (auto simp: IM_LoginInstance_def GetPolicy_def Let_def split: if_splits)
  ultimately show ?thesis using LoginInstance_collision [OF demo_insts_ok h m1 m2] m1 m2 by auto
qed

text \<open>The expiry of user logins looks at every second entry only, and with an odd number of entries
  it runs over the end of the index.\<close>

theorem UL_Tick_skips:
  "(UL_Tick now l = None \<longleftrightarrow> odd (length l))
   \<and> (\<forall>r. UL_Tick now l = Some r \<longrightarrow> r = nths l {j. odd j \<or> \<not> login_expired now (l ! j)})"
proof (induction now l rule: UL_Tick.induct)
  case (3 now x y l)
  have "nths (x # y # l) {j. odd j \<or> \<not> login_expired now ((x # y # l) ! j)}
      = (if login_expired now x then [] else [x]) @ y # nths l {j. odd j \<or> \<not> login_expired now (l ! j)}"
    by (auto simp: nths_Cons)
  then show ?case using 3 by auto
qed (auto simp: nths_def)

theorem UL_Tick_skips_witness:
  "UL_Tick 100 [\<lparr>lg_userid = 1, lg_tt = 10, lg_zone = 1\<rparr>, \<lparr>lg_userid = 2, lg_tt = 20, lg_zone = 1\<rparr>]
     = Some [\<lparr>lg_userid = 2, lg_tt = 20, lg_zone = 1\<rparr>]"
proof -
  let ?l = "[\<lparr>lg_userid = 1, lg_tt = 10, lg_zone = 1\<rparr>, \<lparr>lg_userid = 2, lg_tt = 20, lg_zone = 1\<rparr>]"
  obtain r where r: "UL_Tick 100 ?l = Some r" using UL_Tick_skips [of 100 ?l] by auto
  then have "r = nths ?l {j. odd j \<or> \<not> login_expired 100 (?l ! j)}" using UL_Tick_skips [of 100 ?l] by blast
  then show ?thesis using r by (simp add: nths_Cons login_expired_def)
qed

end
