(* ===== verification/Transaction_App.thy ===== *)
theory Transaction_App
  imports Transaction_Safe
begin

text \<open>
  What the transactions of a server may do to the rest of it.  A relation between states
  of the rest of the program that every answer of the environment keeps is kept by every
  call of the transaction manager, whatever its transactions do.
\<close>

subsection \<open>A task runs its slice at most once\<close>

lemma co_resume_world:
  assumes "co_resume run i (s, w) = Some (s2, w2)" "\<And>i k w w2 r. run i k w = Some (w2, r) \<Longrightarrow> R w w2" "R w w"
  shows "R w w2"
  using assms
  by (auto simp: co_resume_def ct_body_def ct_run_task_def Let_def split_beta
      split: if_splits option.splits co_cont.splits)

lemma ct_start_world:
  assumes "ct_start run k (s, w) = Some (s2, w2)" "\<And>i k w w2 r. run i k w = Some (w2, r) \<Longrightarrow> R w w2" "R w w"
  shows "R w w2"
proof -
  obtain a s1 where a: "ct_get_wrapper s = (a, s1)" by fastforce
  obtain j s3 where "co_resume run j (s3, w) = Some (s2, w2)"
    using assms(1) a by (auto simp: ct_start_def split: option.splits)
  then show ?thesis using assms(2,3) by (rule co_resume_world)
qed

lemma ct_doTask_world:
  assumes "ct_doTask run k (s, w) = Some (s2, w2)" "\<And>i k w w2 r. run i k w = Some (w2, r) \<Longrightarrow> R w w2" "R w w"
  shows "R w w2"
proof (cases "co_curid s = M_MAIN_COROUTINE_ID")
  case True
  then have "ct_start run k (ct_get_free_task s, w) = Some (s2, w2)" using assms(1) by (simp add: ct_doTask_def)
  then show ?thesis using assms(2,3) by (rule ct_start_world)
qed (use assms in \<open>simp add: ct_doTask_def\<close>)

lemma ct_resumeTask_world:
  assumes "ct_resumeTask run i (s, w) = Some (s2, w2)" "\<And>i k w w2 r. run i k w = Some (w2, r) \<Longrightarrow> R w w2" "R w w"
  shows "R w w2"
proof (cases "co_curid s = M_MAIN_COROUTINE_ID")
  case True
  then have "co_resume run i (s, w) = Some (s2, w2)" using assms(1) by (simp add: ct_resumeTask_def)
  then show ?thesis using assms(2,3) by (rule co_resume_world)
qed (use assms in \<open>simp add: ct_resumeTask_def\<close>)

subsection \<open>Operations that leave the rest of the program alone\<close>

lemma trans_set_app [simp]: "m_app (trans_set a f m) = m_app m"
  by (simp add: trans_set_def)

lemma T_CancelTimer_app: "T_CancelTimer a w = Some w2 \<Longrightarrow> m_app (snd w2) = m_app (snd w)"
  by (auto simp: T_CancelTimer_def TM_CancelTimer_def Let_def split: if_splits)

lemma T_SetTimer_app: "T_SetTimer a iv w = Some w2 \<Longrightarrow> m_app (snd w2) = m_app (snd w)"
  by (auto simp: T_SetTimer_def TM_AddTimer_def bind_eq_Some_conv dest!: T_CancelTimer_app)

lemma T_end_app [simp]: "m_app (T_end a m) = m_app m"
  by (simp add: T_end_def TM_RecyleTransaction_def split: option.splits)

lemma T_enter_app [simp]: "m_app (T_enter co a m) = m_app m"
  by (simp add: T_enter_def Let_def)

lemma T_finish_app: "T_finish a (w, r) = (w2, k) \<Longrightarrow> m_app (snd w2) = m_app (snd w)"
  by (cases r) (auto simp: T_finish_def)

lemma TM_CreateTransaction_app: "TM_CreateTransaction c m = (r, m2) \<Longrightarrow> m_app m2 = m_app m"
  by (auto simp: TM_CreateTransaction_def bucket_create_def split: if_splits option.splits list.splits)

locale app_rel =
  fixes env :: "'a call_env" and Q :: "'a \<Rightarrow> 'a \<Rightarrow> bool"
  assumes refl: "Q x x"
    and trans: "Q x y \<Longrightarrow> Q y z \<Longrightarrow> Q x z"
    and call: "env c x = Some (y, r) \<Longrightarrow> Q x y"
begin

lemma run_script_app: "run_script env a sc w = Some (w2, r) \<Longrightarrow> Q (m_app (snd w)) (m_app (snd w2))"
proof (induction sc arbitrary: w)
  case (SRet x)
  then show ?case by (simp add: refl)
next
  case (SSet f c)
  then show ?case using SSet.IH [of "(fst w, trans_set a (run_setter f) (snd w))"] by simp
next
  case (SLook k)
  then show ?case using SLook.IH [OF rangeI] by simp
next
  case (SDeref q k)
  then show ?case using SDeref.IH [OF rangeI] by (auto split: option.splits if_splits prod.splits)
next
  case (SRand k)
  then show ?case using SRand.IH [OF rangeI] by simp
next
  case (SCall c k)
  obtain x r where x: "env c (m_app (snd w)) = Some (x, r)"
    using SCall.prems(1) by (auto split: option.splits)
  then show ?case
    using SCall.IH [OF rangeI, of r "(fst w, (snd w)\<lparr>m_app := x\<rparr>)"] SCall.prems call [OF x] trans by auto
next
  case (SWait iv k)
  then show ?case using T_SetTimer_app [of a iv w w2] by (auto simp: refl split: if_splits)
qed simp

definition QW :: "'a tworld \<Rightarrow> 'a tworld \<Rightarrow> bool" where
  "QW w w2 \<longleftrightarrow> Q (m_app (snd w)) (m_app (snd w2))"

lemma QW_refl: "QW w w" by (simp add: QW_def refl)

lemma finish_app: "run_script env a sc w = Some wr \<Longrightarrow> QW w (fst (T_finish a wr))"
  using run_script_app [of a sc w "fst wr" "snd wr"] T_finish_app [of a "fst wr" "snd wr"]
  by (cases "T_finish a wr") (simp add: QW_def)

lemma slice_app: "trans_slice env behave co k w = Some (w2, r) \<Longrightarrow> QW w w2"
proof -
  assume run: "trans_slice env behave co k w = Some (w2, r)"
  obtain a sc w1 wr where "run_script env a sc w1 = Some wr" "T_finish a wr = (w2, r)" "m_app (snd w1) = m_app (snd w)"
    using run by (cases k) (force simp: trans_slice_def)+
  then show ?thesis using finish_app [of a sc w1 wr] by (simp add: QW_def)
qed

lemma doTask_app: "ct_doTask (trans_slice env behave) k (s, w) = Some (s2, w2) \<Longrightarrow> QW w w2"
  by (rule ct_doTask_world [OF _ slice_app QW_refl])

lemma resumeTask_app: "ct_resumeTask (trans_slice env behave) i (s, w) = Some (s2, w2) \<Longrightarrow> QW w w2"
  by (rule ct_resumeTask_world [OF _ slice_app QW_refl])

definition QS :: "'a tstate \<Rightarrow> 'a tstate \<Rightarrow> bool" where
  "QS sw sw2 \<longleftrightarrow> Q (m_app (snd (snd sw))) (m_app (snd (snd sw2)))"

lemma OnState_app: "T_OnState (trans_slice env behave) a sw = Some sw2 \<Longrightarrow> QS sw sw2"
proof -
  assume run: "T_OnState (trans_slice env behave) a sw = Some sw2"
  obtain w where w: "T_CancelTimer a (snd sw) = Some w"
      "(case t_state (m_obj (snd w) a) of E_STATE_IDLE \<Rightarrow> T_OnIdle (trans_slice env behave) a (fst sw, w)
        | E_STATE_ACTIVE \<Rightarrow> T_OnActive (trans_slice env behave) a (fst sw, w)
        | E_STATE_TIMEOUT \<Rightarrow> T_OnTimeOut (trans_slice env behave) a (fst sw, w)) = Some sw2"
    using run by (auto simp: T_OnState_def bind_eq_Some_conv)
  obtain s2 w2 where sw2: "sw2 = (s2, w2)" by (cases sw2)
  obtain p m where pm: "w = (p, m)" by (cases w)
  have "Q (m_app m) (m_app (snd w2))"
  proof (cases "t_state (m_obj m a)")
    case E_STATE_IDLE
    then have "T_OnIdle (trans_slice env behave) a (fst sw, p, m) = Some (s2, w2)" using w(2) pm sw2 by simp
    then obtain m1 where "ct_doTask (trans_slice env behave) (TEnter a) (fst sw, p, m1) = Some (s2, w2)" "m_app m1 = m_app m"
      by (auto simp: T_OnIdle_def TM_GeneratorTransId_def)
    then show ?thesis using doTask_app [of behave "TEnter a" "fst sw" "(p, m1)" s2 w2] by (simp add: QW_def)
  next
    case E_STATE_ACTIVE
    then have "T_OnActive (trans_slice env behave) a (fst sw, p, m) = Some (s2, w2)" using w(2) pm sw2 by simp
    then show ?thesis
      using resumeTask_app [of behave _ "fst sw" "(p, m)" s2 w2]
      by (auto simp: T_OnActive_def Let_def QW_def refl split: if_splits)
  next
    case E_STATE_TIMEOUT
    then have "T_OnTimeOut (trans_slice env behave) a (fst sw, p, m) = Some (s2, w2)" using w(2) pm sw2 by simp
    then have "w2 = (p, trans_set a (t_timer_id_update (\<lambda>_. 0)) m) \<or> (\<exists>i m1. m_app m1 = m_app m
        \<and> ct_resumeTask (trans_slice env behave) i (fst sw, p, m1) = Some (s2, w2))"
      unfolding T_OnTimeOut_def Let_def by (auto split: if_splits)
    then show ?thesis
    proof (elim disjE exE conjE)
      fix i m1 assume "m_app m1 = m_app m" "ct_resumeTask (trans_slice env behave) i (fst sw, p, m1) = Some (s2, w2)"
      then show ?thesis using resumeTask_app [of behave i "fst sw" "(p, m1)" s2 w2] by (simp add: QW_def)
    qed (simp add: refl)
  qed
  moreover have "m_app m = m_app (snd (snd sw))" using T_CancelTimer_app [OF w(1)] pm by simp
  ultimately show ?thesis using sw2 by (simp add: QS_def)
qed

lemma Process_app:
  assumes "T_Process (trans_slice env behave) a fd ty inst zone f q (s, p, m) = Some (r, sw2)"
  shows "QS (s, p, m) sw2"
proof -
  have "sw2 = (s, p, m) \<or> (\<exists>t. T_OnState (trans_slice env behave) a (s, p, trans_set a (\<lambda>_. t) m) = Some sw2)"
    using assms by (auto simp: T_Process_def Let_def split: if_splits)
  then show ?thesis using OnState_app [of behave a "(s, p, trans_set a _ m)" sw2] by (auto simp: QS_def refl)
qed

lemma release_app [simp]: "m_app (snd (snd (release sw))) = m_app (snd (snd sw))"
  by (cases sw) (simp add: release_def)

lemma ProcessFrame_app:
  assumes "TM_ProcessFrame (trans_slice env behave) fd ty inst zone f d (s, p, m) = Some (r, sw2)"
  shows "QS (s, p, m) sw2"
proof -
  let ?m = "m\<lparr>m_live := Some (m_serial m, LFrame f d), m_serial := m_serial m + 1\<rparr>"
  obtain m1 sw3 where m1: "m_app m1 = m_app m" "m_app (snd (snd sw2)) = m_app (snd (snd sw3))"
      "sw3 = (s, p, m1) \<or> (\<exists>a q r0. T_Process (trans_slice env behave) a fd ty inst zone f q (s, p, m1) = Some (r0, sw3))"
  proof (cases "dst_trans_id f > 0")
    case True
    show ?thesis
    proof (cases "TM_GetTransaction (dst_trans_id f) ?m")
      case None
      then show ?thesis using assms True by (intro that [of ?m "(s, p, ?m)"]) (auto simp: TM_ProcessFrame_def hand_over_def)
    next
      case (Some a)
      then obtain r0 sw3 where "T_Process (trans_slice env behave) a fd ty inst zone f (m_serial m) (s, p, ?m) = Some (r0, sw3)"
          "sw2 = release sw3"
        using assms True by (auto simp: TM_ProcessFrame_def hand_over_def)
      then show ?thesis by (intro that [of ?m sw3]) auto
    qed
  next
    case False
    obtain oa m1 where cr: "TM_CreateTransaction (cmd f) ?m = (oa, m1)" by fastforce
    have app: "m_app m1 = m_app m" using TM_CreateTransaction_app [OF cr] by simp
    show ?thesis
    proof (cases oa)
      case None
      then show ?thesis using assms False cr app by (intro that [of m1 "(s, p, m1)"]) (auto simp: TM_ProcessFrame_def hand_over_def)
    next
      case (Some a)
      then obtain r0 sw3 where "T_Process (trans_slice env behave) a fd ty inst zone f (m_serial m) (s, p, m1) = Some (r0, sw3)"
          "sw2 = release sw3"
        using assms False cr by (auto simp: TM_ProcessFrame_def hand_over_def)
      then show ?thesis using app by (intro that [of m1 sw3]) auto
    qed
  qed
  then show ?thesis using Process_app [of behave _ fd ty inst zone f _ s p m1 _ sw3] by (auto simp: QS_def refl)
qed

lemma TimerCallback_app: "TM_TimerCallback (trans_slice env behave) tid sw = Some sw2 \<Longrightarrow> QS sw sw2"
proof -
  assume run: "TM_TimerCallback (trans_slice env behave) tid sw = Some sw2"
  obtain s p m where sw: "sw = (s, p, m)" by (metis prod_cases3)
  show ?thesis
  proof (cases "TM_GetTransaction tid m")
    case None
    then show ?thesis using run sw by (simp add: TM_TimerCallback_def QS_def refl)
  next
    case (Some a)
    then have "T_OnState (trans_slice env behave) a (s, p, trans_set a (t_state_update (\<lambda>_. E_STATE_TIMEOUT)) m) = Some sw2"
      using run sw by (simp add: TM_TimerCallback_def)
    then show ?thesis using OnState_app sw by (fastforce simp: QS_def)
  qed
qed

lemma Update_app:
  assumes "TM_Update (trans_slice env behave) now (s, p, m) = Some (s2, p2, m2)"
  shows "Q (m_app m) (m_app m2)"
proof -
  obtain f m3 where m3: "tp_Update (timer_cb (trans_slice env behave)) now (p, s, m) = Some (f, p2, s2, m3)" "m_app m2 = m_app m3"
    using assms by (auto simp: TM_Update_def)
  have "Q (m_app m) (m_app (snd (s2, m3)))"
  proof (rule tp_Update_inv [OF _ _ m3(1), where Q = "\<lambda>w. Q (m_app m) (m_app (snd w))"])
    fix cb q w q' w'
    assume q: "Q (m_app m) (m_app (snd w))" and run: "timer_cb (trans_slice env behave) cb (q, w) = Some (q', w')"
    obtain v n where w: "w = (v, n)" by (cases w)
    obtain v' n' where w': "w' = (v', n')" by (cases w')
    have "TM_TimerCallback (trans_slice env behave) cb (v, q, n) = Some (v', q', n')" using run w w' by (auto simp: timer_cb_def)
    then have "QS (v, q, n) (v', q', n')" by (rule TimerCallback_app)
    then show "Q (m_app m) (m_app (snd w'))" using q w w' trans [of "m_app m" "m_app n" "m_app n'"] by (simp add: QS_def)
  qed (simp add: refl)
  then show ?thesis using m3(2) by simp
qed

end

end
