(* ===== verification/Transaction_Ids.thy ===== *)
theory Transaction_Ids
  imports Transaction_App
begin

text \<open>
  Transaction ids.  Ids are handed out in order, so before the counter wraps around the
  next one is free: an account of how far the counter has come replaces the assumption
  that new ids are free.
\<close>

definition same_ids :: "'a tm \<Rightarrow> 'a tm \<Rightarrow> bool" where
  "same_ids m m2 \<longleftrightarrow> m_gen m2 = m_gen m \<and> (\<forall>a. t_trans_id (m_obj m2 a) = t_trans_id (m_obj m a))"

definition gen_ok :: "nat \<Rightarrow> 'a tm \<Rightarrow> bool" where
  "gen_ok k m \<longleftrightarrow> (\<forall>a. unat (t_trans_id (m_obj m a)) < unat (m_gen m)) \<and> unat (m_gen m) \<le> k"

lemma gen_ok_same: "same_ids m m2 \<Longrightarrow> gen_ok k m2 = gen_ok k m"
  by (simp add: same_ids_def gen_ok_def)

lemma same_ids_refl [simp]: "same_ids m m"
  by (simp add: same_ids_def)

lemma same_ids_trans: "\<lbrakk>same_ids m m1; same_ids m1 m2\<rbrakk> \<Longrightarrow> same_ids m m2"
  by (simp add: same_ids_def)

lemma same_ids_set: "(\<And>t. t_trans_id (f t) = t_trans_id t) \<Longrightarrow> same_ids m (trans_set a f m)"
  by (simp add: same_ids_def trans_set_def)

lemma same_ids_fields [simp]:
  "same_ids m (m\<lparr>m_app := x\<rparr>)" "same_ids m (m\<lparr>m_live := l\<rparr>)" "same_ids m (m\<lparr>m_serial := n\<rparr>)" "same_ids m (m\<lparr>m_now := t\<rparr>)"
  "same_ids m (m\<lparr>m_active := ac\<rparr>)" "same_ids m (m\<lparr>m_bucket := bu\<rparr>)" "same_ids m (m\<lparr>m_last_check := t\<rparr>)"
  by (simp_all add: same_ids_def)

lemma gen_ok_fields [simp]:
  "gen_ok k (m\<lparr>m_app := x\<rparr>) = gen_ok k m" "gen_ok k (m\<lparr>m_live := l\<rparr>) = gen_ok k m"
  "gen_ok k (m\<lparr>m_serial := n\<rparr>) = gen_ok k m" "gen_ok k (m\<lparr>m_now := t\<rparr>) = gen_ok k m"
  by (simp_all add: gen_ok_def)

lemma gen_ok_mono: "\<lbrakk>gen_ok k m; k \<le> l\<rbrakk> \<Longrightarrow> gen_ok l m"
  by (auto simp: gen_ok_def)

subsection \<open>A slice hands out no id\<close>

lemma T_CancelTimer_ids: "T_CancelTimer a w = Some w2 \<Longrightarrow> same_ids (snd w) (snd w2)"
  by (auto simp: T_CancelTimer_def TM_CancelTimer_def Let_def intro!: same_ids_set split: if_splits)

lemma T_SetTimer_ids: "T_SetTimer a iv w = Some w2 \<Longrightarrow> same_ids (snd w) (snd w2)"
  by (auto simp: T_SetTimer_def TM_AddTimer_def bind_eq_Some_conv dest!: T_CancelTimer_ids)

lemma setter_id [simp]: "t_trans_id (run_setter f t) = t_trans_id t"
  using coreD [OF core_setter] by blast

lemma run_script_ids: "run_script env a sc w = Some (w2, r) \<Longrightarrow> same_ids (snd w) (snd w2)"
proof (induction sc arbitrary: w)
  case (SSet f c)
  have "same_ids (snd w) (trans_set a (run_setter f) (snd w))" by (rule same_ids_set) simp
  then show ?case
    using SSet.IH [of "(fst w, trans_set a (run_setter f) (snd w))"] SSet.prems same_ids_trans by auto
next
  case (SLook k)
  then show ?case using SLook.IH [OF rangeI] by simp
next
  case (SDeref q k)
  then show ?case using SDeref.IH [OF rangeI] by (auto split: option.splits if_splits prod.splits)
next
  case (SRand k)
  then show ?case using SRand.IH [OF rangeI] by simp
next
  case (SCall c k)
  obtain x r where x: "env c (m_app (snd w)) = Some (x, r)"
    using SCall.prems(1) by (auto split: option.splits)
  have "same_ids (snd w) ((snd w)\<lparr>m_app := x\<rparr>)" by simp
  then show ?case
    using SCall.IH [OF rangeI, of r "(fst w, (snd w)\<lparr>m_app := x\<rparr>)"] SCall.prems x same_ids_trans [of "snd w" "(snd w)\<lparr>m_app := x\<rparr>" "snd w2"] by simp
next
  case (SWait iv k)
  then show ?case using T_SetTimer_ids [of a iv w w2] by (auto split: if_splits)
qed simp_all

lemma T_end_ids: "same_ids m (T_end a m)"
  by (simp add: T_end_def TM_RecyleTransaction_def same_ids_def split: option.splits)

lemma T_finish_ids: "same_ids (snd (fst r)) (snd (fst (T_finish a r)))"
  by (simp add: T_finish_def T_end_ids split: option.splits)

lemma T_enter_ids: "same_ids m (T_enter co a m)"
  by (simp add: T_enter_def Let_def same_ids_def trans_set_def)

lemma slice_ids: "trans_slice env behave co k w = Some (w2, r) \<Longrightarrow> same_ids (snd w) (snd w2)"
proof -
  assume run: "trans_slice env behave co k w = Some (w2, r)"
  have wait: "same_ids (snd w) (trans_set a (t_state_update (\<lambda>_. E_STATE_IDLE)) (snd w))" for a
    by (rule same_ids_set) simp
  obtain a sc m1 wr where s: "run_script env a sc (fst w, m1) = Some wr" "T_finish a wr = (w2, r)" "same_ids (snd w) m1"
  proof (cases k)
    case (TEnter a)
    then show ?thesis using run T_enter_ids [of "snd w" co a] by (auto simp: trans_slice_def intro: that)
  next
    case (TWait a c)
    then show ?thesis using run wait [of a] by (auto simp: trans_slice_def intro: that)
  qed
  have "same_ids m1 (snd (fst wr))" using run_script_ids [of env a sc "(fst w, m1)" "fst wr" "snd wr"] s(1) by simp
  moreover have "same_ids (snd (fst wr)) (snd w2)" using T_finish_ids [of wr a] s(2) by simp
  ultimately show ?thesis using s(3) same_ids_trans by blast
qed

lemma doTask_ids: "ct_doTask (trans_slice env behave) k (s, p, m) = Some (s2, p2, m2) \<Longrightarrow> same_ids m m2"
  using ct_doTask_world [of "trans_slice env behave" k s "(p, m)" s2 "(p2, m2)" "\<lambda>w w2. same_ids (snd w) (snd w2)"]
    slice_ids by fastforce

lemma resumeTask_ids: "ct_resumeTask (trans_slice env behave) i (s, p, m) = Some (s2, p2, m2) \<Longrightarrow> same_ids m m2"
  using ct_resumeTask_world [of "trans_slice env behave" i s "(p, m)" s2 "(p2, m2)" "\<lambda>w w2. same_ids (snd w) (snd w2)"]
    slice_ids by fastforce

subsection \<open>Only a new transaction takes an id\<close>

lemma T_OnIdle_gen:
  assumes run: "T_OnIdle (trans_slice env behave) a (s, p, m) = Some (s2, p2, m2)" and ok: "gen_ok k m" "k < 2 ^ 32 - 1"
  shows "gen_ok (k + 1) m2"
proof -
  let ?m = "trans_set a (t_trans_id_update (\<lambda>_. m_gen m)) (m\<lparr>m_gen := m_gen m + 1\<rparr>)"
  have "ct_doTask (trans_slice env behave) (TEnter a) (s, p, ?m) = Some (s2, p2, m2)"
    using run by (simp add: T_OnIdle_def TM_GeneratorTransId_def)
  then have "same_ids ?m m2" by (rule doTask_ids)
  have g: "unat (m_gen m + 1) = unat (m_gen m) + 1"
    using ok by (subst unat_plus_small) (simp_all add: gen_ok_def)
  have "gen_ok (k + 1) ?m"
    using ok by (auto simp: gen_ok_def trans_set_def g less_Suc_eq)
  then show ?thesis using gen_ok_same [OF \<open>same_ids ?m m2\<close>] by simp
qed

lemma T_OnState_gen:
  assumes run: "T_OnState (trans_slice env behave) a (s, p, m) = Some (s2, p2, m2)" and ok: "gen_ok k m"
  shows "t_state (m_obj m a) \<noteq> E_STATE_IDLE \<Longrightarrow> gen_ok k m2"
    and "k < 2 ^ 32 - 1 \<Longrightarrow> gen_ok (k + 1) m2"
proof -
  obtain p1 m1 where w: "T_CancelTimer a (p, m) = Some (p1, m1)"
      "(case t_state (m_obj m1 a) of E_STATE_IDLE \<Rightarrow> T_OnIdle (trans_slice env behave) a (s, p1, m1)
        | E_STATE_ACTIVE \<Rightarrow> T_OnActive (trans_slice env behave) a (s, p1, m1)
        | E_STATE_TIMEOUT \<Rightarrow> T_OnTimeOut (trans_slice env behave) a (s, p1, m1)) = Some (s2, p2, m2)"
    using run by (auto simp: T_OnState_def bind_eq_Some_conv simp del: split_paired_Ex) (metis fst_conv)
  have ids: "same_ids m m1" using T_CancelTimer_ids [OF w(1)] by simp
  have st: "t_state (m_obj m1 a) = t_state (m_obj m a)"
    using w(1) by (auto simp: T_CancelTimer_def TM_CancelTimer_def Let_def trans_set_def split: if_splits)
  have ok1: "gen_ok k m1" using ok gen_ok_same [OF ids] by simp
  have active: "same_ids m1 m2" if "t_state (m_obj m1 a) \<noteq> E_STATE_IDLE"
  proof (cases "t_state (m_obj m1 a)")
    case E_STATE_ACTIVE
    then show ?thesis using w(2) resumeTask_ids by (auto simp: T_OnActive_def Let_def split: if_splits)
  next
    case E_STATE_TIMEOUT
    let ?m = "trans_set a (t_timer_id_update (\<lambda>_. 0)) m1" and ?n = "\<lambda>m. trans_set a (t_req_random_update (\<lambda>_. 0)) m"
    have s: "same_ids m1 ?m" "same_ids ?m (?n ?m)" by (rule same_ids_set, simp)+
    have "same_ids (?n ?m) m2 \<or> m2 = ?m"
      using w(2) E_STATE_TIMEOUT resumeTask_ids unfolding T_OnTimeOut_def Let_def by (fastforce split: if_splits)
    then show ?thesis using s same_ids_trans by blast
  qed (use that in simp)
  show "gen_ok k m2" if "t_state (m_obj m a) \<noteq> E_STATE_IDLE"
    using active that st gen_ok_same ok1 by metis
  show "gen_ok (k + 1) m2" if k: "k < 2 ^ 32 - 1"
  proof (cases "t_state (m_obj m1 a) = E_STATE_IDLE")
    case True
    then have "T_OnIdle (trans_slice env behave) a (s, p1, m1) = Some (s2, p2, m2)" using w(2) by simp
    then show ?thesis by (rule T_OnIdle_gen [OF _ ok1 k])
  next
    case False
    then have "gen_ok k m2" using active gen_ok_same ok1 by metis
    then show ?thesis by (rule gen_ok_mono) simp
  qed
qed

lemma T_Process_gen:
  assumes "T_Process (trans_slice env behave) a fd ty inst zone f q (s, p, m) = Some (r, s2, p2, m2)"
    and "gen_ok k m" "k < 2 ^ 32 - 1"
  shows "gen_ok (k + 1) m2"
proof (cases "m2 = m")
  case True
  then show ?thesis using assms(2) gen_ok_mono by (metis le_add1)
next
  case False
  then obtain t where t: "T_OnState (trans_slice env behave) a (s, p, trans_set a (\<lambda>_. t) m) = Some (s2, p2, m2)"
      "t_trans_id t = t_trans_id (m_obj m a)"
    using assms(1) by (auto simp: T_Process_def Let_def split: if_splits)
  have "same_ids m (trans_set a (\<lambda>_. t) m)" using t(2) by (simp add: same_ids_def trans_set_def)
  then have "gen_ok k (trans_set a (\<lambda>_. t) m)" using assms(2) gen_ok_same by blast
  then show ?thesis using T_OnState_gen(2) [OF t(1)] assms(3) by blast
qed

lemma TM_CreateTransaction_gen: "\<lbrakk>TM_CreateTransaction c m = (r, m2); gen_ok k m\<rbrakk> \<Longrightarrow> gen_ok k m2"
  by (auto simp: TM_CreateTransaction_def bucket_create_def gen_ok_def trans_set_def Construct_def
      split: if_splits option.splits list.splits intro: le_less_trans)

lemma TM_ProcessFrame_gen:
  assumes run: "TM_ProcessFrame (trans_slice env behave) fd ty inst zone f d (s, p, m) = Some (r, s2, p2, m2)"
    and ok: "gen_ok k m" "k < 2 ^ 32 - 1"
  shows "gen_ok (k + 1) m2"
proof -
  let ?m = "m\<lparr>m_live := Some (m_serial m, LFrame f d), m_serial := m_serial m + 1\<rparr>"
  have ok': "gen_ok k ?m" using ok by simp
  obtain m1 m3 where m1: "gen_ok k m1" "m2 = m3\<lparr>m_live := None\<rparr>"
      "gen_ok k m3 \<or> (\<exists>a q r0. T_Process (trans_slice env behave) a fd ty inst zone f q (s, p, m1) = Some (r0, s2, p2, m3))"
  proof (cases "dst_trans_id f > 0")
    case True
    then show ?thesis
      using run ok' by (cases "TM_GetTransaction (dst_trans_id f) ?m")
        (force simp: TM_ProcessFrame_def hand_over_def release_def intro!: that [of ?m])+
  next
    case False
    obtain oa m1 where cr: "TM_CreateTransaction (cmd f) ?m = (oa, m1)" by fastforce
    show ?thesis
      using run False cr TM_CreateTransaction_gen [OF cr ok']
      by (cases oa) (force simp: TM_ProcessFrame_def hand_over_def release_def intro!: that [of m1])+
  qed
  have "gen_ok (k + 1) m3" using m1(3) T_Process_gen [OF _ m1(1) ok(2)] gen_ok_mono [of k m3 "k + 1"] by auto
  then show ?thesis using m1(2) by simp
qed

lemma OnState_set_gen:
  assumes "T_OnState (trans_slice env behave) a (s, p, trans_set a g m) = Some (s2, p2, m2)"
    and "\<And>t. t_trans_id (g t) = t_trans_id t" "\<And>t. t_state (g t) \<noteq> E_STATE_IDLE" "gen_ok k m"
  shows "gen_ok k m2"
  using T_OnState_gen(1) [OF assms(1), of k] gen_ok_same [OF same_ids_set [of g m a]] assms(2-4)
  by (simp add: trans_set_def)

lemma TM_rsp_gen:
  "\<lbrakk>TM_ProcessMysqlRsp (trans_slice env behave) my (s, p, m) = Some (s2, p2, m2); gen_ok k m\<rbrakk> \<Longrightarrow> gen_ok k m2"
  "\<lbrakk>TM_ProcessRedisRsp (trans_slice env behave) rd (s, p, m) = Some (s2, p2, m2); gen_ok k m\<rbrakk> \<Longrightarrow> gen_ok k m2"
  "\<lbrakk>TM_TimerCallback (trans_slice env behave) tid (s, p, m) = Some (s2, p2, m2); gen_ok k m\<rbrakk> \<Longrightarrow> gen_ok k m2"
  by (auto simp: TM_ProcessMysqlRsp_def TM_ProcessRedisRsp_def TM_TimerCallback_def hand_over_def release_def T_ProcessMysqlRsp_def
      T_ProcessRedisRsp_def split: option.splits dest!: OnState_set_gen [where k = k])

lemma TM_Update_gen:
  assumes run: "TM_Update (trans_slice env behave) now (s, p, m) = Some (s2, p2, m2)" and ok: "gen_ok k m"
  shows "gen_ok k m2"
proof -
  obtain f m3 where m3: "tp_Update (timer_cb (trans_slice env behave)) now (p, s, m) = Some (f, p2, s2, m3)"
      "m2 = (if now div 1000 - m_last_check m3 div 1000 > 60 then m3\<lparr>m_last_check := now\<rparr> else m3)"
    using run by (auto simp: TM_Update_def)
  have "gen_ok k (snd (s2, m3))"
  proof (rule tp_Update_inv [OF _ _ m3(1), where Q = "\<lambda>w. gen_ok k (snd w)"])
    fix cb q w q' w' assume "gen_ok k (snd w)" "timer_cb (trans_slice env behave) cb (q, w) = Some (q', w')"
    then show "gen_ok k (snd w')" using TM_rsp_gen(3) by (cases w) (auto simp: timer_cb_def)
  qed (simp add: ok)
  then show ?thesis using m3(2) by (simp add: gen_ok_def)
qed

subsection \<open>The next id is free\<close>

definition server_ok :: "nat \<Rightarrow> 'a tstate \<Rightarrow> bool" where
  "server_ok k sw \<longleftrightarrow> trans_ok sw \<and> gen_ok k (snd (snd sw))"

lemma gen_free: "\<lbrakk>trans_ok (s, p, m); gen_ok k m\<rbrakk> \<Longrightarrow> m_active m (m_gen m) = None"
proof (rule ccontr)
  assume ok: "trans_ok (s, p, m)" "gen_ok k m" and "m_active m (m_gen m) \<noteq> None"
  then obtain a where "m_active m (m_gen m) = Some a" by blast
  then have "t_trans_id (m_obj m a) = m_gen m" using ok(1) trans_invD(1) by (fastforce simp: trans_ok_def act_ok_def)
  then show False using ok(2) by (metis gen_ok_def less_irrefl)
qed

lemma ProcessFrame_server:
  assumes "server_ok k sw" "TM_ProcessFrame (trans_slice env behave) fd ty inst zone f d sw = Some (r, sw2)" "k < 2 ^ 32 - 1"
  shows "server_ok (k + 1) sw2"
proof -
  obtain s p m s2 p2 m2 where sw: "sw = (s, p, m)" "sw2 = (s2, p2, m2)" by (metis prod_cases3)
  have ok: "trans_ok (s, p, m)" "gen_ok k m" using assms(1) sw by (simp_all add: server_ok_def)
  have run: "TM_ProcessFrame (trans_slice env behave) fd ty inst zone f d (s, p, m) = Some (r, s2, p2, m2)"
    using assms(2) sw by simp
  show ?thesis
    using TM_ProcessFrame_ok [OF ok(1) gen_free [OF ok] run] TM_ProcessFrame_gen [OF run ok(2) assms(3)] sw
    by (simp add: server_ok_def)
qed

lemma rsp_server:
  "\<lbrakk>server_ok k sw; TM_ProcessMysqlRsp (trans_slice env behave) my sw = Some sw2\<rbrakk> \<Longrightarrow> server_ok k sw2"
  "\<lbrakk>server_ok k sw; TM_ProcessRedisRsp (trans_slice env behave) rd sw = Some sw2\<rbrakk> \<Longrightarrow> server_ok k sw2"
  "\<lbrakk>server_ok k sw; TM_Update (trans_slice env behave) now sw = Some sw2\<rbrakk> \<Longrightarrow> server_ok k sw2"
  by (cases sw; cases sw2; force simp: server_ok_def
      dest: TM_ProcessMysqlRsp_ok TM_ProcessRedisRsp_ok TM_Update_ok TM_rsp_gen(1,2) TM_Update_gen)+

lemma server_ok_app [simp]: "server_ok k (s, p, m\<lparr>m_app := x\<rparr>) = server_ok k (s, p, m)"
  "server_ok k (s, p, m\<lparr>m_now := t\<rparr>) = server_ok k (s, p, m)"
proof -
  have "same_tm m (m\<lparr>m_app := x\<rparr>)" "same_tm m (m\<lparr>m_now := t\<rparr>)" by (simp_all add: same_tm_def)
  from trans_inv_same [OF this(1)] trans_inv_same [OF this(2)]
  show "server_ok k (s, p, m\<lparr>m_app := x\<rparr>) = server_ok k (s, p, m)" "server_ok k (s, p, m\<lparr>m_now := t\<rparr>) = server_ok k (s, p, m)"
    by (simp_all add: server_ok_def trans_ok_def)
qed

end
