(* ===== verification/Server_Trans.thy ===== *)
theory Server_Trans
  imports Links Transaction
begin

text \<open>
  The transactions of the servers themselves (\<^verbatim>\<open>routersvr\<close>, \<^verbatim>\<open>connsvr\<close> and
  \<^verbatim>\<open>transfersvr\<close>, each \<^verbatim>\<open>transaction/trans_application.cpp\<close>), as scripts: what a new or
  broken connection does, the registration of a server with the one above it, and the
  answers to registrations.  The generated protobuf classes are parameters.
\<close>

definition CMD_REGISTER_SERVER_REQ :: u32 where "CMD_REGISTER_SERVER_REQ = 3"
definition CMD_REGISTER_SERVER_RSP :: u32 where "CMD_REGISTER_SERVER_RSP = 4"
definition CMD_REGISETR_TRANSFER_REQ :: u32 where "CMD_REGISETR_TRANSFER_REQ = 5"
definition CMD_REGISETR_TRANSFER_RSP :: u32 where "CMD_REGISETR_TRANSFER_RSP = 6"
definition CMD_UPDATE_LOGININFO_TO_T :: u32 where "CMD_UPDATE_LOGININFO_TO_T = 0x12"

definition Enum_ListenType_Transfer :: int where "Enum_ListenType_Transfer = 3"
definition Enum_ListenType_Transfer2 :: int where "Enum_ListenType_Transfer2 = 4"

text \<open>\<^verbatim>\<open>ParseFromArray\<close> and \<^verbatim>\<open>SerializePartialAsString\<close> of the generated classes: a registration is its
  server type, instance id and zone, a response its code.\<close>

record protos =
  p_in :: "byte list \<Rightarrow> unit option"
  p_out :: "byte list \<Rightarrow> unit option"
  p_reg :: "byte list \<Rightarrow> (u32 \<times> u32 \<times> u32) option"
  p_rsp :: "byte list \<Rightarrow> u32 option"
  p_hb :: "byte list \<Rightarrow> unit option"
  p_thb :: "byte list \<Rightarrow> unit option"
  p_login :: "byte list \<Rightarrow> (u64 \<times> u32) option"
  s_reg :: "u32 \<Rightarrow> u32 \<Rightarrow> u32 \<Rightarrow> byte list"
  s_rsp :: "u32 \<Rightarrow> byte list"
  s_hb :: "u32 \<Rightarrow> u32 \<Rightarrow> byte list"
  s_thb :: "u32 \<Rightarrow> u32 \<Rightarrow> byte list"

subsection \<open>Registration with the server above\<close>

text \<open>\<^verbatim>\<open>SendMsgToTransferByFd\<close> and \<^verbatim>\<open>SendMsgToRouterByFd\<close> with a request only, and with a response.\<close>

definition SendMsgByFd_oneway :: "u32 \<Rightarrow> u32 \<Rightarrow> (trans \<Rightarrow> u16) \<Rightarrow> byte list \<Rightarrow> (int \<Rightarrow> script) \<Rightarrow> script" where
  "SendMsgByFd_oneway c svr_type zone request k =
     SRand (\<lambda>r. SSet (SetRandom (of_int r)) (SLook (\<lambda>t.
       SCall (SendByFd (t_fd t) c (t_userid t) (zone t) svr_type (t_trans_id t) (t_req_random t) request) k)))"

definition SendMsgByFd_twoway :: "u32 \<Rightarrow> u32 \<Rightarrow> byte list \<Rightarrow> (byte list \<Rightarrow> u32 option)
    \<Rightarrow> (int \<Rightarrow> u32 option \<Rightarrow> script) \<Rightarrow> script" where
  "SendMsgByFd_twoway c svr_type request parse k =
     SendMsgByFd_oneway c svr_type (\<lambda>t. ucast (t_self_svr_zone t)) request (\<lambda>r.
       if r \<noteq> 0 then k (-1) None else wait_respond parse k)"

text \<open>The transfer server's own version ignores whether the message was sent.\<close>

definition SendMsgByFd_always :: "u32 \<Rightarrow> u32 \<Rightarrow> byte list \<Rightarrow> (byte list \<Rightarrow> u32 option)
    \<Rightarrow> (int \<Rightarrow> u32 option \<Rightarrow> script) \<Rightarrow> script" where
  "SendMsgByFd_always c svr_type request parse k =
     SendMsgByFd_oneway c svr_type (\<lambda>t. 0) request (\<lambda>_. wait_respond parse k)"

text \<open>\<^verbatim>\<open>SendRegistCmd\<close> loops until it is registered: \<^verbatim>\<open>retry_type\<close> 0 sends, -1 waits a second after a
  refusal, any other goes round again at once.  The loop has fuel; \<^term>\<open>z\<close> is where it stands
  when the fuel is gone.\<close>

type_synonym ask = "byte list \<Rightarrow> (byte list \<Rightarrow> u32 option) \<Rightarrow> (int \<Rightarrow> u32 option \<Rightarrow> script) \<Rightarrow> script"

fun SendRegistCmd :: "protos \<Rightarrow> ask \<Rightarrow> script \<Rightarrow> nat \<Rightarrow> int \<Rightarrow> script \<Rightarrow> script" where
  "SendRegistCmd P send z 0 retry_type k = z"
| "SendRegistCmd P send z (Suc n) retry_type k =
     (if retry_type = 0 then
        SLook (\<lambda>t. send (s_reg P (t_self_svr_type t) (t_self_inst_id t) (t_self_svr_zone t)) (p_rsp P) (\<lambda>ret rsp.
          if ret \<noteq> 0 then SendRegistCmd P send z n (-2) k
          else if rsp = Some 0 then k
          else SendRegistCmd P send z n (-1) k))
      else if retry_type = -1 then SWait 1000 (\<lambda>_. SendRegistCmd P send z n 0 k)
      else SendRegistCmd P send z n 0 k)"

subsection \<open>A connection comes up\<close>

text \<open>\<^verbatim>\<open>TransClientIn\<close>: a connector of the right type registers, then its handle is noted.\<close>

definition TransClientIn :: "protos \<Rightarrow> int \<Rightarrow> (script \<Rightarrow> script) \<Rightarrow> script" where
  "TransClientIn P conn_type regist =
     OneWay_InCoroutine (p_in P) (\<lambda>_ k. SLook (\<lambda>t.
       if M_CHECK_IS_TCP_CONNECTOR_FD (t_fd t) then
         SCall (GetConnector (t_fd t)) (\<lambda>ptr.
           if ptr < 0 then k 0
           else SCall (ConnTypeOf (nat ptr)) (\<lambda>ty.
             if ty = conn_type then
               regist (SLook (\<lambda>t2. SCall (LoginLink (nat ptr) (t_fd t2)) (\<lambda>_. k 0)))
             else k 0))
       else k 0))"

definition Router_TransClientIn :: "protos \<Rightarrow> script \<Rightarrow> nat \<Rightarrow> script" where
  "Router_TransClientIn P z n = TransClientIn P Enum_ConnType_Transfer
     (SendRegistCmd P (SendMsgByFd_twoway CMD_REGISTER_SERVER_REQ SVR_TYPE_TRANSFER) z n 0)"

definition Conn_TransClientIn :: "protos \<Rightarrow> script \<Rightarrow> nat \<Rightarrow> script" where
  "Conn_TransClientIn P z n = TransClientIn P Enum_ConnType_Router
     (SendRegistCmd P (SendMsgByFd_twoway CMD_REGISTER_SERVER_REQ SVR_TYPE_ROUTER) z n 0)"

definition Transfer_TransClientIn :: "protos \<Rightarrow> script \<Rightarrow> nat \<Rightarrow> script" where
  "Transfer_TransClientIn P z n = TransClientIn P Enum_ConnType_Transfer2
     (SendRegistCmd P (SendMsgByFd_always CMD_REGISETR_TRANSFER_REQ SVR_TYPE_TRANSFER) z n 0)"

subsection \<open>A connection breaks\<close>

text \<open>Reconnect when the configuration still has the server.\<close>

definition reconnect :: "int \<Rightarrow> int \<Rightarrow> script \<Rightarrow> script" where
  "reconnect ptr conn_type k =
     SCall (ConnTypeOf (nat ptr)) (\<lambda>ty.
       if ty = conn_type then
         SCall (ExistLink (nat ptr)) (\<lambda>ex. if ex \<noteq> 0 then SCall (ConnectLink (nat ptr)) (\<lambda>_. k) else k)
       else k)"

definition Router_TransClientOut :: "protos \<Rightarrow> script" where
  "Router_TransClientOut P =
     OneWay_InCoroutine (p_out P) (\<lambda>_ k. SLook (\<lambda>t.
       if M_CHECK_IS_TCP_CONNECTOR_FD (t_fd t) then
         SCall (GetConnector (t_fd t)) (\<lambda>ptr.
           if ptr < 0 then k 0 else reconnect ptr Enum_ConnType_Transfer (k 0))
       else SCall (LogoutInst (t_fd t)) (\<lambda>_. k 0)))"

definition Conn_TransClientOut :: "protos \<Rightarrow> script" where
  "Conn_TransClientOut P =
     OneWay_InCoroutine (p_out P) (\<lambda>_ k. SLook (\<lambda>t.
       if M_CHECK_IS_TCP_CONNECTOR_FD (t_fd t) then
         SCall (GetConnector (t_fd t)) (\<lambda>ptr.
           if ptr < 0 then k 0 else reconnect ptr Enum_ConnType_Router (k 0))
       else k 0))"

definition Transfer_TransClientOut :: "protos \<Rightarrow> script" where
  "Transfer_TransClientOut P =
     OneWay_InCoroutine (p_out P) (\<lambda>_ k. SLook (\<lambda>t.
       if M_CHECK_IS_TCP_CONNECTOR_FD (t_fd t) then
         SCall (GetConnector (t_fd t)) (\<lambda>ptr.
           if ptr < 0 then k 0
           else SCall (ConnTypeOf (nat ptr)) (\<lambda>ty.
             if ty = Enum_ConnType_Transfer2 then
               SCall (LogoutLink (t_fd t)) (\<lambda>_.
                 SCall (ExistLink (nat ptr)) (\<lambda>ex.
                   if ex \<noteq> 0 then SCall (ConnectLink (nat ptr)) (\<lambda>_. k 0) else k 0))
             else k 0))
       else
         SCall (GetSocket (t_fd t)) (\<lambda>ptr.
           if ptr < 0 then k 0
           else SCall (ConnTypeOf (nat ptr)) (\<lambda>ty.
             if ty = Enum_ListenType_Transfer then SCall (LogoutInst (t_fd t)) (\<lambda>_. k 0)
             else SCall (LogoutLink (t_fd t)) (\<lambda>_. k 0)))))"

subsection \<open>Answering a registration\<close>

text \<open>The response frame goes back over the connection of the request.\<close>

definition reply_frame :: "trans \<Rightarrow> byte list \<Rightarrow> app_frame" where
  "reply_frame t data =
     \<lparr>is_broadcast = 0, src_zone = ucast (t_self_svr_zone t), dst_zone = src_zone (t_ori_frame t),
      src_svr_type = t_self_svr_type t, dst_svr_type = src_svr_type (t_ori_frame t),
      src_inst_id = t_self_inst_id t, dst_inst_id = src_inst_id (t_ori_frame t),
      src_trans_id = t_trans_id t, dst_trans_id = src_trans_id (t_ori_frame t),
      cmd = t_cmd t + 1, cmd_length = word_of_nat (length data), userid = t_userid t,
      req_random = req_random (t_ori_frame t)\<rparr>"

definition send_reply :: "protos \<Rightarrow> u32 \<Rightarrow> (int \<Rightarrow> script) \<Rightarrow> script" where
  "send_reply P code k =
     SLook (\<lambda>t. SCall (SendRaw (t_fd t) (reply_frame t (s_rsp P code)) (s_rsp P code)) (\<lambda>ok. k ok))"

text \<open>\<^verbatim>\<open>TransRegisterServer\<close>, the same in the router and the transfer server.\<close>

definition TransRegisterServer :: "protos \<Rightarrow> script" where
  "TransRegisterServer P =
     OneWay_InCoroutine (p_reg P) (\<lambda>req k. case req of (ty, inst, zone) \<Rightarrow> SLook (\<lambda>t.
       if zone \<noteq> t_self_svr_zone t then send_reply P (-1) k
       else SCall (LoginInst ty inst (t_fd t)) (\<lambda>code. send_reply P (word_of_int code) k)))"

definition TransRegisterTransfer :: "protos \<Rightarrow> script" where
  "TransRegisterTransfer P =
     OneWay_InCoroutine (p_reg P) (\<lambda>req k. case req of (ty, inst, zone) \<Rightarrow> SLook (\<lambda>t.
       SCall (LoginZone zone inst (t_fd t)) (\<lambda>code. send_reply P (word_of_int code) k)))"

definition TransSvrHeatBeat :: "protos \<Rightarrow> script" where
  "TransSvrHeatBeat P = OneWay_InCoroutine (p_hb P) (\<lambda>_ k. k 0)"

definition TransTransferHeatBeat :: "protos \<Rightarrow> script" where
  "TransTransferHeatBeat P = OneWay_InCoroutine (p_thb P) (\<lambda>_ k. k 0)"

definition TransUpdateLoginInfo :: "protos \<Rightarrow> script" where
  "TransUpdateLoginInfo P =
     OneWay_InCoroutine (p_login P) (\<lambda>req k. SCall (UpdateLogin (fst req) (snd req)) (\<lambda>_. k 0))"

text \<open>What each server runs for a command; the commands are those of its \<^verbatim>\<open>REGISTER_TRANSACTION\<close>.\<close>

definition router_cmds :: "u32 list" where
  "router_cmds = [CMD_SOCKET_CLIENT_IN, CMD_SOCKET_CLIENT_OUT, CMD_REGISTER_SERVER_REQ, CMD_SVR_HEATBEAT]"

definition router_behave :: "protos \<Rightarrow> script \<Rightarrow> nat \<Rightarrow> u32 \<Rightarrow> script" where
  "router_behave P z n c =
     (if c = CMD_SOCKET_CLIENT_IN then Router_TransClientIn P z n
      else if c = CMD_SOCKET_CLIENT_OUT then Router_TransClientOut P
      else if c = CMD_REGISTER_SERVER_REQ then TransRegisterServer P
      else TransSvrHeatBeat P)"

definition conn_cmds :: "u32 list" where
  "conn_cmds = [CMD_SOCKET_CLIENT_IN, CMD_SOCKET_CLIENT_OUT]"

definition conn_behave :: "protos \<Rightarrow> script \<Rightarrow> nat \<Rightarrow> u32 \<Rightarrow> script" where
  "conn_behave P z n c = (if c = CMD_SOCKET_CLIENT_IN then Conn_TransClientIn P z n else Conn_TransClientOut P)"

definition transfer_cmds :: "u32 list" where
  "transfer_cmds = [CMD_SOCKET_CLIENT_IN, CMD_SOCKET_CLIENT_OUT, CMD_REGISTER_SERVER_REQ,
     CMD_REGISETR_TRANSFER_REQ, CMD_SVR_HEATBEAT, CMD_TRANSFER_HEATBEAT]"

definition transfer_behave :: "protos \<Rightarrow> script \<Rightarrow> nat \<Rightarrow> u32 \<Rightarrow> script" where
  "transfer_behave P z n c =
     (if c = CMD_SOCKET_CLIENT_IN then Transfer_TransClientIn P z n
      else if c = CMD_SOCKET_CLIENT_OUT then Transfer_TransClientOut P
      else if c = CMD_REGISTER_SERVER_REQ then TransRegisterServer P
      else if c = CMD_REGISETR_TRANSFER_REQ then TransRegisterTransfer P
      else if c = CMD_SVR_HEATBEAT then TransSvrHeatBeat P
      else TransTransferHeatBeat P)"

end
