(* ===== verification/Router_Svr.thy ===== *)
theory Router_Svr
  imports Server_Trans Instances
begin

text \<open>
  The routing server, \<^verbatim>\<open>routersvr/router_svr.cpp\<close>, and the connection server that hangs
  below it, \<^verbatim>\<open>connsvr/conn_svr.cpp\<close>: what each does with a frame from the network, and
  how the calls of its transactions reach its other components.
\<close>

subsection \<open>The routing server\<close>

text \<open>Everything of the server but its transactions: the network bridge, the registered instances, the
  links to the transfer servers, and the instance id and zone of the configuration.\<close>

record router =
  rt_nh :: nh
  rt_insts :: inst_mgr
  rt_tr :: transfer_mgr
  rt_inst :: u32
  rt_zone :: u32

text \<open>The remote endpoint of a socket and its connect number, as the link managers are asked for it.\<close>

definition sock_args :: "nat \<Rightarrow> nh \<Rightarrow> string \<times> u32 \<times> u32" where
  "sock_args p h = (let s = nh_sock h p in (sk_ip s, ucast (sk_port s), word_of_int (sk_conn_num s)))"

definition ptr_answer :: "nat option \<Rightarrow> int" where
  "ptr_answer q = (case q of None \<Rightarrow> -1 | Some p \<Rightarrow> int p)"

definition connect_again :: "nat \<Rightarrow> nh \<Rightarrow> nh" where
  "connect_again p h = (let s = nh_sock h p in nh_do (OConnect (sk_ip s) (sk_port s) (sk_conn_type s) (sk_conn_num s)) h)"

text \<open>The calls of a transaction.  The process links no router manager of its own (it is never
  initialised), and \<^verbatim>\<open>db\<close> answers the database calls.\<close>

fun router_env :: "(out \<Rightarrow> int) \<Rightarrow> router call_env" where
  "router_env db (SendFrame c uid bc dz dt di st dtr rnd body) x =
     map_option (\<lambda>(r, h). (x\<lparr>rt_nh := h\<rparr>, r)) (RM_SendMsg c uid bc dz dt di st dtr rnd body RouterMgr (rt_nh x))"
| "router_env db (SendByFd fd c uid dz dt st rnd body) x =
     map_option (\<lambda>(r, m, h). (x\<lparr>rt_nh := h, rt_tr := m\<rparr>, r))
       (TR_SendMsgToTransferByFd fd c uid dz dt 0 st 0 rnd body (rt_tr x) (rt_nh x))"
| "router_env db (SendRaw fd f body) x =
     map_option (\<lambda>(r, _, h). (x\<lparr>rt_nh := h\<rparr>, r)) (send_frame fd f body buf_new (rt_nh x))"
| "router_env db (GetConnector fd) x = Some (x, ptr_answer (GetConnectorPtr fd (rt_nh x)))"
| "router_env db (GetSocket fd) x = Some (x, ptr_answer (GetSocketPtr fd (rt_nh x)))"
| "router_env db (ConnTypeOf p) x = Some (x, sk_conn_type (nh_sock (rt_nh x) p))"
| "router_env db (LoginLink p fd) x =
     (case sock_args p (rt_nh x) of (ip, port, num) \<Rightarrow>
        (case LoginTransfer ip port num fd (rt_tr x) of (r, m) \<Rightarrow> Some (x\<lparr>rt_tr := m\<rparr>, r)))"
| "router_env db (ExistLink p) x =
     (case sock_args p (rt_nh x) of (ip, port, num) \<Rightarrow> Some (x, if ExistTransfer ip port num (rt_tr x) then 1 else 0))"
| "router_env db (ConnectLink p) x = Some (x\<lparr>rt_nh := connect_again p (rt_nh x)\<rparr>, 0)"
| "router_env db (LoginInst ty i fd) x =
     (case IM_LoginInstance ty i fd (rt_insts x) of (r, m) \<Rightarrow> Some (x\<lparr>rt_insts := m\<rparr>, r))"
| "router_env db (LogoutInst fd) x = Some (x\<lparr>rt_insts := IM_LogoutInstance fd (rt_insts x)\<rparr>, 0)"
| "router_env db c x = Some (x, db c)"

text \<open>\<^verbatim>\<open>ForwardPkg\<close>: the frame lies in memory right before its data, in host order.\<close>

definition frame_memory :: "net_call \<Rightarrow> byte list" where
  "frame_memory c = af_bytes (nc_frame c) @ nc_data c"

definition frame_len :: "net_call \<Rightarrow> nat" where
  "frame_len c = unat (nc_len c + 50)"

definition ForwardPkg :: "u32 \<Rightarrow> u32 \<Rightarrow> net_call \<Rightarrow> router \<Rightarrow> router mem" where
  "ForwardPkg ty i c x =
     (let fd = GetFdByTypeId ty i (rt_insts x)
      in if fd \<noteq> 0 then
           map_option (\<lambda>(_, _, h). x\<lparr>rt_nh := h\<rparr>) (SendDataByFd fd (frame_memory c) (frame_len c) (rt_nh x))
         else Some x)"

primrec ForwardAll :: "u32 \<Rightarrow> u32 list \<Rightarrow> net_call \<Rightarrow> router \<Rightarrow> router mem" where
  "ForwardAll ty [] c x = Some x"
| "ForwardAll ty (i # is) c x = Option.bind (ForwardPkg ty i c x) (ForwardAll ty is c)"

primrec transfer_all :: "u64 list \<Rightarrow> net_call \<Rightarrow> router \<Rightarrow> router mem" where
  "transfer_all [] c x = Some x"
| "transfer_all (fd # fds) c x =
     Option.bind (SendDataByFd fd (frame_memory c) (frame_len c) (rt_nh x)) (\<lambda>(_, _, h). transfer_all fds c (x\<lparr>rt_nh := h\<rparr>))"

definition ForwarPkgToTransfer :: "net_call \<Rightarrow> router \<Rightarrow> (int \<times> router) mem" where
  "ForwarPkgToTransfer c x =
     (case GetTransferInstId (userid (nc_frame c)) [] (rt_tr x) of (_, fds) \<Rightarrow>
        if fds = [] then Some (-1, x) else map_option (Pair 0) (transfer_all fds c x))"

text \<open>The part of \<^verbatim>\<open>OnProc\<close> behind its switch.\<close>

definition router_forward :: "net_call \<Rightarrow> router \<Rightarrow> router mem" where
  "router_forward c x =
     (let f = nc_frame c in
      if ucast (dst_zone f) = rt_zone x then
        if dst_inst_id f \<noteq> 0 then ForwardPkg (dst_svr_type f) (dst_inst_id f) c x
        else ForwardAll (dst_svr_type f)
               (RouterPolicy (userid f) (dst_svr_type f) (is_broadcast f \<noteq> 0) [] (rt_insts x)) c x
      else map_option snd (ForwarPkgToTransfer c x))"

definition router_own :: "u32 \<Rightarrow> bool" where
  "router_own c \<longleftrightarrow> c = CMD_SOCKET_CLIENT_OUT \<or> c = CMD_SOCKET_CLIENT_IN \<or> c = CMD_REGISTER_SERVER_REQ
     \<or> c = CMD_REGISTER_SERVER_RSP \<or> c = CMD_SVR_HEATBEAT"

text \<open>The transaction manager holds the other components while it runs.\<close>

definition with_app :: "('a \<Rightarrow> 'a mem) \<Rightarrow> 'a tstate \<Rightarrow> 'a tstate mem" where
  "with_app g sw = (case sw of (s, p, m) \<Rightarrow> map_option (\<lambda>x. (s, p, m\<lparr>m_app := x\<rparr>)) (g (m_app m)))"

definition the_app :: "'a tstate \<Rightarrow> 'a" where "the_app sw = m_app (snd (snd sw))"

definition Router_OnProc :: "(tk, router tworld) slice \<Rightarrow> net_call \<Rightarrow> router tstate \<Rightarrow> router tstate mem" where
  "Router_OnProc sl c sw =
     (if router_own (cmd (nc_frame c)) then
        map_option snd (TM_ProcessFrame sl (nc_fd c) SVR_TYPE_ROUTER (rt_inst (the_app sw)) (rt_zone (the_app sw))
          (nc_frame c) (nc_data c) sw)
      else with_app (router_forward c) sw)"

definition router_slice :: "protos \<Rightarrow> (out \<Rightarrow> int) \<Rightarrow> script \<Rightarrow> nat \<Rightarrow> (tk, router tworld) slice" where
  "router_slice P db z n = trans_slice (router_env db) (router_behave P z n)"

text \<open>As the callback of the network bridge: the bridge's state is put back for the call.\<close>

definition router_cb :: "protos \<Rightarrow> (out \<Rightarrow> int) \<Rightarrow> script \<Rightarrow> nat \<Rightarrow> router tstate net_cb" where
  "router_cb P db z n c hw =
     (case hw of (h, s, p, m) \<Rightarrow>
        map_option (\<lambda>sw. (rt_nh (the_app sw), sw))
          (Router_OnProc (router_slice P db z n) c (s, p, m\<lparr>m_app := (m_app m)\<lparr>rt_nh := h\<rparr>\<rparr>)))"

definition Router_UpdateNetWork :: "protos \<Rightarrow> (out \<Rightarrow> int) \<Rightarrow> script \<Rightarrow> nat \<Rightarrow> router tstate \<Rightarrow> (int \<times> router tstate) mem" where
  "Router_UpdateNetWork P db z n sw =
     map_option (\<lambda>(r, h, s, p, m). (r, s, p, m\<lparr>m_app := (m_app m)\<lparr>rt_nh := h\<rparr>\<rparr>))
       (nh_Update (router_cb P db z n) (rt_nh (the_app sw), sw))"

definition Router_OnTick :: "protos \<Rightarrow> nat \<Rightarrow> router \<Rightarrow> router mem" where
  "Router_OnTick P tick_count x =
     (let x1 = x\<lparr>rt_nh := CheckTcpSocketExpire (rt_nh x)\<rparr>
      in if tick_count mod (100 * 20) = 0
         then map_option (\<lambda>(m, h). x1\<lparr>rt_tr := m, rt_nh := h\<rparr>) (TR_Tick (s_hb P) (rt_tr x1) (rt_nh x1))
         else Some x1)"

text \<open>\<^verbatim>\<open>OnInit\<close> behind a successful \<^verbatim>\<open>ListenOne\<close>; the result of the instance manager's \<^verbatim>\<open>Init\<close> is not
  looked at.\<close>

definition Router_OnInit :: "(string \<Rightarrow> cfg_item list option) \<Rightarrow> string \<Rightarrow> (u32 \<times> u32) list \<Rightarrow> router \<Rightarrow> int \<times> router" where
  "Router_OnInit parse transfer_file policies x =
     (case TR_Init parse SVR_TYPE_ROUTER (rt_inst x) (rt_zone x) transfer_file (rt_tr x) (rt_nh x) of (ret, m, h) \<Rightarrow>
        if ret \<noteq> 0 then (-1, x\<lparr>rt_tr := m, rt_nh := h\<rparr>)
        else (0, x\<lparr>rt_tr := m, rt_nh := h, rt_insts := snd (IM_Init (Some policies) (rt_insts x))\<rparr>))"

text \<open>\<^verbatim>\<open>OnReload\<close>: \<^verbatim>\<open>conf\<close> is whether the configuration parses, and what parsing leaves in it; the
  instance manager holds a pointer to it.\<close>

definition Router_OnReload :: "(string \<Rightarrow> cfg_item list option) \<Rightarrow> bool \<times> u32 \<times> u32 \<times> (u32 \<times> u32) list
    \<Rightarrow> router \<Rightarrow> int \<times> router" where
  "Router_OnReload parse conf x =
     (case conf of (ok, inst, zone, policies) \<Rightarrow>
        let x1 = x\<lparr>rt_inst := inst, rt_zone := zone,
                   rt_insts := (rt_insts x)\<lparr>im_config := map_option (\<lambda>_. policies) (im_config (rt_insts x))\<rparr>\<rparr> in
        if \<not> ok then (-1, x1)
        else case TR_Reload parse (rt_tr x1) (rt_nh x1) of (ret, m, h) \<Rightarrow>
          (if ret \<noteq> 0 then -1 else 0, x1\<lparr>rt_tr := m, rt_nh := h\<rparr>))"

subsection \<open>The connection server\<close>

record conn =
  cn_nh :: nh
  cn_rm :: link_mgr
  cn_inst :: u32
  cn_zone :: u32

fun conn_env :: "(out \<Rightarrow> int) \<Rightarrow> conn call_env" where
  "conn_env db (SendFrame c uid bc dz dt di st dtr rnd body) x =
     map_option (\<lambda>(r, h). (x\<lparr>cn_nh := h\<rparr>, r)) (RM_SendMsg c uid bc dz dt di st dtr rnd body (cn_rm x) (cn_nh x))"
| "conn_env db (SendByFd fd c uid dz dt st rnd body) x =
     map_option (\<lambda>(r, h). (x\<lparr>cn_nh := h\<rparr>, r))
       (RM_SendMsgByFd fd c uid False dz dt 0 st 0 rnd body (cn_rm x) (cn_nh x))"
| "conn_env db (GetConnector fd) x = Some (x, ptr_answer (GetConnectorPtr fd (cn_nh x)))"
| "conn_env db (GetSocket fd) x = Some (x, ptr_answer (GetSocketPtr fd (cn_nh x)))"
| "conn_env db (ConnTypeOf p) x = Some (x, sk_conn_type (nh_sock (cn_nh x) p))"
| "conn_env db (LoginLink p fd) x =
     (case sock_args p (cn_nh x) of (ip, port, num) \<Rightarrow>
        (case LoginRouter ip port num fd (cn_rm x) of (r, m) \<Rightarrow> Some (x\<lparr>cn_rm := m\<rparr>, r)))"
| "conn_env db (ExistLink p) x =
     (case sock_args p (cn_nh x) of (ip, port, num) \<Rightarrow> Some (x, if ExistRouter ip port num (cn_rm x) then 1 else 0))"
| "conn_env db (ConnectLink p) x = Some (x\<lparr>cn_nh := connect_again p (cn_nh x)\<rparr>, 0)"
| "conn_env db c x = Some (x, db c)"

definition Conn_OnProc :: "(tk, conn tworld) slice \<Rightarrow> net_call \<Rightarrow> conn tstate \<Rightarrow> conn tstate mem" where
  "Conn_OnProc sl c sw =
     map_option snd (TM_ProcessFrame sl (nc_fd c) SVR_TYPE_CONN (cn_inst (the_app sw)) (cn_zone (the_app sw))
       (nc_frame c) (nc_data c) sw)"

definition conn_slice :: "protos \<Rightarrow> (out \<Rightarrow> int) \<Rightarrow> script \<Rightarrow> nat \<Rightarrow> (tk, conn tworld) slice" where
  "conn_slice P db z n = trans_slice (conn_env db) (conn_behave P z n)"

definition conn_cb :: "protos \<Rightarrow> (out \<Rightarrow> int) \<Rightarrow> script \<Rightarrow> nat \<Rightarrow> conn tstate net_cb" where
  "conn_cb P db z n c hw =
     (case hw of (h, s, p, m) \<Rightarrow>
        map_option (\<lambda>sw. (cn_nh (the_app sw), sw))
          (Conn_OnProc (conn_slice P db z n) c (s, p, m\<lparr>m_app := (m_app m)\<lparr>cn_nh := h\<rparr>\<rparr>)))"

definition Conn_OnTick :: "protos \<Rightarrow> nat \<Rightarrow> conn \<Rightarrow> conn mem" where
  "Conn_OnTick P tick_count x =
     (let x1 = x\<lparr>cn_nh := CheckTcpSocketExpire (cn_nh x)\<rparr>
      in if tick_count mod (100 * 20) = 0
         then map_option (\<lambda>h. x1\<lparr>cn_nh := h\<rparr>) (RM_Tick (s_hb P) (cn_rm x1) (cn_nh x1))
         else Some x1)"

definition Conn_OnInit :: "(string \<Rightarrow> cfg_item list option) \<Rightarrow> string \<Rightarrow> conn \<Rightarrow> int \<times> conn" where
  "Conn_OnInit parse router_file x =
     (case RM_Init parse SVR_TYPE_CONN (cn_inst x) (cn_zone x) router_file (cn_rm x) (cn_nh x) of (ret, m, h) \<Rightarrow>
        (if ret \<noteq> 0 then -1 else 0, x\<lparr>cn_rm := m, cn_nh := h\<rparr>))"

definition Conn_OnReload :: "(string \<Rightarrow> cfg_item list option) \<Rightarrow> bool \<times> u32 \<times> u32 \<Rightarrow> conn \<Rightarrow> int \<times> conn" where
  "Conn_OnReload parse conf x =
     (case conf of (ok, inst, zone) \<Rightarrow>
        let x1 = x\<lparr>cn_inst := inst, cn_zone := zone\<rparr> in
        if \<not> ok then (-1, x1)
        else case RM_Reload parse (cn_rm x1) (cn_nh x1) of (ret, m, h) \<Rightarrow>
          (if ret \<noteq> 0 then -1 else 0, x1\<lparr>cn_rm := m, cn_nh := h\<rparr>))"

end
