(* ===== verification/Router_Props.thy ===== *)
theory Router_Props
  imports Router_Svr Transaction_App Links_Props Instances_Props
begin

text \<open>
  The properties of the routing and the connection server: they satisfy the contract of
  the network bridge, what forwarding a packet sends to whom, and how a server registers
  with the one above it.
\<close>

subsection \<open>The contract of the network bridge\<close>

lemma send_frame_keeps: "send_frame fd f data b h = Some (r, b', h2) \<Longrightarrow> keeps h h2"
  by (auto simp: send_frame_def bind_eq_Some_conv dest!: SendDataByFd_keeps)

lemma RM_SendMsgByFd_keeps: "RM_SendMsgByFd fd c uid bc dz dt di st tr rnd data m h = Some (r, h2) \<Longrightarrow> keeps h h2"
  by (auto simp: RM_SendMsgByFd_def dest: send_frame_keeps)

lemma RM_SendMsg_keeps: "RM_SendMsg c uid bc dz dt di st tr rnd data m h = Some (r, h2) \<Longrightarrow> keeps h h2"
  by (auto simp: RM_SendMsg_def Let_def split: if_splits dest: RM_SendMsgByFd_keeps)

lemma TR_Send_keeps: "TR_SendMsgToTransferByFd fd c uid dz dt di st tr rnd data m h = Some (r, m2, h2) \<Longrightarrow> keeps h h2"
  by (auto simp: TR_SendMsgToTransferByFd_def Let_def dest: send_frame_keeps)

lemma connect_again_keeps [simp]: "keeps h (connect_again p h)"
  by (simp add: connect_again_def Let_def)

definition router_keeps :: "router \<Rightarrow> router \<Rightarrow> bool" where
  "router_keeps x y \<longleftrightarrow> keeps (rt_nh x) (rt_nh y) \<and> rt_inst y = rt_inst x \<and> rt_zone y = rt_zone x"

lemma router_keeps_refl [simp]: "router_keeps x x"
  by (simp add: router_keeps_def)

lemma router_keeps_trans: "\<lbrakk>router_keeps x y; router_keeps y z\<rbrakk> \<Longrightarrow> router_keeps x z"
  using keeps_trans by (auto simp: router_keeps_def)

lemma router_env_keeps: "router_env db c x = Some (y, r) \<Longrightarrow> router_keeps x y"
  by (cases c) (auto simp: router_keeps_def split: prod.splits
      dest: send_frame_keeps RM_SendMsg_keeps TR_Send_keeps)

interpretation router_app: app_rel "router_env db" router_keeps for db
  by unfold_locales (auto intro: router_keeps_trans router_env_keeps)

lemma ForwardPkg_keeps: "ForwardPkg ty i c x = Some y \<Longrightarrow> router_keeps x y"
  by (auto simp: ForwardPkg_def Let_def router_keeps_def split: if_splits dest: SendDataByFd_keeps)

lemma ForwardAll_keeps: "ForwardAll ty is c x = Some y \<Longrightarrow> router_keeps x y"
proof (induction "is" arbitrary: x)
  case (Cons i "is")
  then obtain x1 where "ForwardPkg ty i c x = Some x1" "ForwardAll ty is c x1 = Some y"
    by (auto simp: bind_eq_Some_conv)
  then show ?case using Cons.IH ForwardPkg_keeps router_keeps_trans by blast
qed simp

lemma transfer_all_keeps: "transfer_all fds c x = Some y \<Longrightarrow> router_keeps x y"
proof (induction fds arbitrary: x)
  case (Cons fd fds)
  then obtain ok b h where s: "SendDataByFd fd (frame_memory c) (frame_len c) (rt_nh x) = Some (ok, b, h)"
      "transfer_all fds c (x\<lparr>rt_nh := h\<rparr>) = Some y"
    by (auto simp: bind_eq_Some_conv)
  have "router_keeps x (x\<lparr>rt_nh := h\<rparr>)" using SendDataByFd_keeps [OF s(1)] by (simp add: router_keeps_def)
  then show ?case using Cons.IH [OF s(2)] router_keeps_trans by blast
qed simp

lemma router_forward_keeps: "router_forward c x = Some y \<Longrightarrow> router_keeps x y"
  by (auto simp: router_forward_def Let_def ForwarPkgToTransfer_def split: if_splits prod.splits
      intro: ForwardPkg_keeps ForwardAll_keeps transfer_all_keeps)

lemma Router_OnProc_keeps:
  assumes "Router_OnProc (router_slice P db z n) c sw = Some sw2"
  shows "router_keeps (the_app sw) (the_app sw2)"
proof (cases "router_own (cmd (nc_frame c))")
  case True
  obtain s p m where sw: "sw = (s, p, m)" by (metis prod_cases3)
  obtain r where "TM_ProcessFrame (trans_slice (router_env db) (router_behave P z n)) (nc_fd c) SVR_TYPE_ROUTER
      (rt_inst (m_app m)) (rt_zone (m_app m)) (nc_frame c) (nc_data c) (s, p, m) = Some (r, sw2)"
    using assms True sw by (auto simp: Router_OnProc_def router_slice_def the_app_def)
  then show ?thesis using router_app.ProcessFrame_app sw by (fastforce simp: router_app.QS_def the_app_def)
next
  case False
  obtain s p m where sw: "sw = (s, p, m)" by (metis prod_cases3)
  then obtain y where "router_forward c (m_app m) = Some y" "sw2 = (s, p, m\<lparr>m_app := y\<rparr>)"
    using assms False by (auto simp: Router_OnProc_def with_app_def)
  then show ?thesis using router_forward_keeps sw by (simp add: the_app_def)
qed

lemma router_cb_keeps: "router_cb P db z n c (h, w) = Some (h2, w2) \<Longrightarrow> keeps h h2"
proof -
  assume run: "router_cb P db z n c (h, w) = Some (h2, w2)"
  obtain s p m where w: "w = (s, p, m)" by (metis prod_cases3)
  let ?w = "(s, p, m\<lparr>m_app := (m_app m)\<lparr>rt_nh := h\<rparr>\<rparr>)"
  have "Router_OnProc (router_slice P db z n) c ?w = Some w2" "h2 = rt_nh (the_app w2)"
    using run w by (auto simp: router_cb_def)
  then show ?thesis using Router_OnProc_keeps [of P db z n c ?w w2] by (simp add: router_keeps_def the_app_def)
qed

interpretation router_net: net_app "router_cb P db z n" for P db z n
  by unfold_locales (rule router_cb_keeps)

definition conn_keeps :: "conn \<Rightarrow> conn \<Rightarrow> bool" where
  "conn_keeps x y \<longleftrightarrow> keeps (cn_nh x) (cn_nh y)"

lemma conn_env_keeps: "conn_env db c x = Some (y, r) \<Longrightarrow> conn_keeps x y"
  by (cases c) (auto simp: conn_keeps_def split: prod.splits dest: RM_SendMsgByFd_keeps RM_SendMsg_keeps)

interpretation conn_app: app_rel "conn_env db" conn_keeps for db
  by unfold_locales (auto simp: conn_keeps_def intro: keeps_trans conn_env_keeps [unfolded conn_keeps_def])

lemma conn_cb_keeps: "conn_cb P db z n c (h, w) = Some (h2, w2) \<Longrightarrow> keeps h h2"
proof -
  assume run: "conn_cb P db z n c (h, w) = Some (h2, w2)"
  obtain s p m where w: "w = (s, p, m)" by (metis prod_cases3)
  let ?m = "m\<lparr>m_app := (m_app m)\<lparr>cn_nh := h\<rparr>\<rparr>"
  obtain r where "TM_ProcessFrame (trans_slice (conn_env db) (conn_behave P z n)) (nc_fd c) SVR_TYPE_CONN
      (cn_inst (m_app ?m)) (cn_zone (m_app ?m)) (nc_frame c) (nc_data c) (s, p, ?m) = Some (r, w2)" "h2 = cn_nh (the_app w2)"
    using run w by (auto simp: conn_cb_def Conn_OnProc_def conn_slice_def the_app_def)
  then show ?thesis using conn_app.ProcessFrame_app by (fastforce simp: conn_app.QS_def conn_keeps_def the_app_def)
qed

interpretation conn_net: net_app "conn_cb P db z n" for P db z n
  by unfold_locales (rule conn_cb_keeps)

subsection \<open>Routing\<close>

text \<open>The connections a frame goes to, said over what is registered: those of the named instance, or of
  the instances that the policy of the destination type chooses among its registered ones,
  or, when the zone is another one, the transfer server on which the user id falls.\<close>

definition transfer_fds :: "u64 \<Rightarrow> link list \<Rightarrow> u64 list" where
  "transfer_fds uid links = (if links = [] then [] else [lk_fd (links ! (unat uid mod length links))])"

definition route_fds :: "app_frame \<Rightarrow> router \<Rightarrow> u64 list" where
  "route_fds f x =
     (if ucast (dst_zone f) = rt_zone x then
        map (\<lambda>i. fd_of (rt_insts x) (dst_svr_type f * 1024 + i))
          (if dst_inst_id f \<noteq> 0 then [dst_inst_id f]
           else chosen (policy_of (dst_svr_type f) (rt_insts x)) (userid f) (is_broadcast f \<noteq> 0)
                  (ascending (members (dst_svr_type f) (rt_insts x))))
      else transfer_fds (userid f) (lm_links (rt_tr x)))"

lemma route_fds_code:
  assumes "insts_ok (rt_insts x)"
  shows "route_fds f x =
     (if ucast (dst_zone f) = rt_zone x then
        map (\<lambda>i. GetFdByTypeId (dst_svr_type f) i (rt_insts x))
          (if dst_inst_id f \<noteq> 0 then [dst_inst_id f]
           else RouterPolicy (userid f) (dst_svr_type f) (is_broadcast f \<noteq> 0) [] (rt_insts x))
      else snd (GetTransferInstId (userid f) [] (rt_tr x)))"
  by (simp add: route_fds_def GetFd_fd_of CalcTypeId_mult RouterPolicy_chosen [OF assms] transfer_fds_def
      GetTransferInstId_def)

text \<open>The sending of some bytes over some connections, one after the other; those that are not
  connected are left out.\<close>

definition deliver :: "byte list \<Rightarrow> u64 list \<Rightarrow> nh \<Rightarrow> nh" where
  "deliver bs fds h = fold (\<lambda>fd h. snd (packet_to fd bs h)) fds h"

lemma fd_ctx_zero [simp]: "fd_ctx 0 h = None"
  by (simp add: fd_ctx_def M_CHECK_IS_TCP_FD_def M_CHECK_IS_TCP_CONNECTOR_FD_def)

text \<open>A received frame and its body, sent on with a given length.\<close>

lemma length_af_msg: "length (af_msg f body) = 50 + length body"
  by (simp add: af_msg_def sizeof_app_frame_def)

lemma SendDataByFd_take:
  "SendDataByFd fd (af_bytes f @ body) len h
     = (if fd_ctx fd h \<noteq> None \<and> length (af_msg f body) < len then None
        else Some (fd_ctx fd h \<noteq> None, af_bytes f @ body, snd (packet_to fd (take len (af_msg f body)) h)))"
  by (auto simp: SendDataByFd_def Let_def fd_ctx_def packet_to_def af_msg_def sizeof_app_frame_def split: option.splits)

lemma packet_to_fds [simp]: "fd_ctx fd (snd (packet_to fd2 bs h)) = fd_ctx fd h"
  by (simp add: packet_to_def fd_ctx_def nh_do_def split: option.splits)

text \<open>What a send of the first \<^term>\<open>len\<close> bytes of a message to a list of connections comes to: it reads behind
  the message when that is shorter and one of them is connected.\<close>

definition passed_on :: "nat \<Rightarrow> byte list \<Rightarrow> u64 list \<Rightarrow> nh \<Rightarrow> nh mem" where
  "passed_on len bs fds h =
     (if length bs < len \<and> (\<exists>fd \<in> set fds. fd_ctx fd h \<noteq> None) then None
      else Some (deliver (take len bs) fds h))"

lemma passed_on_Nil [simp]: "passed_on len bs [] h = Some h"
  by (simp add: passed_on_def deliver_def)

lemma passed_on_Cons:
  "passed_on len bs (fd # fds) h =
     (if length bs < len \<and> fd_ctx fd h \<noteq> None then None
      else passed_on len bs fds (snd (packet_to fd (take len bs) h)))"
  by (auto simp: passed_on_def deliver_def)

lemma passed_on_zero [simp]: "passed_on len bs [0] h = Some h"
  by (simp add: passed_on_Cons packet_to_def)

lemma ForwardPkg_packet:
  "ForwardPkg ty i c x = map_option (\<lambda>h. x\<lparr>rt_nh := h\<rparr>)
     (passed_on (frame_len c) (af_msg (nc_frame c) (nc_data c)) [GetFdByTypeId ty i (rt_insts x)] (rt_nh x))"
  by (auto simp: ForwardPkg_def Let_def frame_memory_def SendDataByFd_take passed_on_Cons packet_to_def)

lemma ForwardAll_packets:
  "ForwardAll ty is c x = map_option (\<lambda>h. x\<lparr>rt_nh := h\<rparr>)
     (passed_on (frame_len c) (af_msg (nc_frame c) (nc_data c)) (map (\<lambda>i. GetFdByTypeId ty i (rt_insts x)) is) (rt_nh x))"
  by (induction "is" arbitrary: x) (auto simp: ForwardPkg_packet passed_on_Cons)

lemma transfer_packets:
  "transfer_all fds c x = map_option (\<lambda>h. x\<lparr>rt_nh := h\<rparr>)
     (passed_on (frame_len c) (af_msg (nc_frame c) (nc_data c)) fds (rt_nh x))"
  by (induction fds arbitrary: x) (auto simp: frame_memory_def SendDataByFd_take passed_on_Cons)

lemma router_forward_packets:
  assumes "insts_ok (rt_insts x)"
  shows "router_forward c x = map_option (\<lambda>h. x\<lparr>rt_nh := h\<rparr>)
     (passed_on (frame_len c) (af_msg (nc_frame c) (nc_data c)) (route_fds (nc_frame c) x) (rt_nh x))"
  by (auto simp: router_forward_def Let_def route_fds_code [OF assms] ForwarPkgToTransfer_def transfer_packets
      ForwardPkg_packet ForwardAll_packets option.map_comp comp_def split_beta)

text \<open>The bridge after it has counted a message of the connection \<^term>\<open>x\<close>.\<close>

definition counted :: "side \<Rightarrow> nat \<Rightarrow> conn_ctx \<Rightarrow> nh \<Rightarrow> nh" where
  "counted sd q x h = nh_set sd (ctx_modify (handle sd q h) (cx_msgcount x + 1) (nh_now h) (nh_cont sd h)) h"

lemma fd_ctx_counted: "fd_ctx fd (counted sd q x h) = None \<longleftrightarrow> fd_ctx fd h = None"
  by (cases sd) (simp_all add: counted_def fd_ctx_def nh_set_def nh_cont_def ctx_find_None)

lemma consum_one_router:
  assumes "ctx_find (handle sd (ms_ptr msg) h) (nh_cont sd h) = Some x" "ms_type msg = M_SOCKET_DATA"
    and "ms_buf msg = af_msg f body" "\<not> router_own (cmd f)"
  shows "consum_one (router_cb P db z n) sd msg (h, s, p, m)
    = map_option (\<lambda>y. (rt_nh y, s, p, m\<lparr>m_app := y\<rparr>))
        (router_forward \<lparr>nc_fd = handle sd (ms_ptr msg) h, nc_frame = f, nc_data = body, nc_len = cmd_length f\<rparr>
          ((m_app m)\<lparr>rt_nh := counted sd (ms_ptr msg) x h\<rparr>))"
proof -
  have "drop sizeof_app_frame (af_msg f body) = body" "af_n2h (af_load (af_msg f body)) = f"
    "\<not> length (af_msg f body) < sizeof_app_frame"
    by (simp_all add: af_msg_def)
  then show ?thesis
    using assms by (simp add: consum_one_def OnData_def Let_def router_cb_def Router_OnProc_def with_app_def
        the_app_def counted_def option.map_comp comp_def)
qed

lemma route_fds_nh [simp]: "route_fds f (x\<lparr>rt_nh := h\<rparr>) = route_fds f x"
  by (simp add: route_fds_def)

lemma router_delivers:
  assumes "ctx_find (handle sd (ms_ptr msg) h) (nh_cont sd h) = Some x" "ms_type msg = M_SOCKET_DATA"
    and "ms_buf msg = af_msg f body" "\<not> router_own (cmd f)" and ok: "insts_ok (rt_insts (m_app m))"
  shows "consum_one (router_cb P db z n) sd msg (h, s, p, m) =
    map_option (\<lambda>h2. (h2, s, p, m\<lparr>m_app := (m_app m)\<lparr>rt_nh := h2\<rparr>\<rparr>))
      (passed_on (unat (cmd_length f + 50)) (ms_buf msg) (route_fds f (m_app m)) (counted sd (ms_ptr msg) x h))"
  unfolding consum_one_router [OF assms(1-4)]
  using ok assms(3) by (simp add: router_forward_packets frame_len_def option.map_comp comp_def)

subsection \<open>Properties\<close>


lemma handle_is_tcp: "M_CHECK_IS_TCP_FD (handle TcpSock q h)"
proof -
  have "M_TCP_FD_FLAG AND (M_TCP_FD_FLAG OR w) = M_TCP_FD_FLAG" for w
    by (rule bit_word_eqI) (auto simp: bit_simps)
  moreover have "M_TCP_FD_FLAG \<noteq> 0" by (simp add: M_TCP_FD_FLAG_def)
  ultimately show ?thesis by (simp add: M_CHECK_IS_TCP_FD_def handle_def side_flag_def)
qed

text \<open>A packing of the messages, for the concrete runs: numbers of fixed width, one behind the other.\<close>

definition demo_protos :: protos where
  "demo_protos = \<lparr>p_in = (\<lambda>_. Some ()), p_out = (\<lambda>_. Some ()),
     p_reg = (\<lambda>b. if length b = 12 then Some (le_val (take 4 b), le_val (take 4 (drop 4 b)), le_val (drop 8 b)) else None),
     p_rsp = (\<lambda>b. if length b = 4 then Some (le_val b) else None),
     p_hb = (\<lambda>_. Some ()), p_thb = (\<lambda>_. Some ()),
     p_login = (\<lambda>b. if length b = 12 then Some (le_val (take 8 b), le_val (drop 8 b)) else None),
     s_reg = (\<lambda>t i z. le_bytes 4 t @ le_bytes 4 i @ le_bytes 4 z), s_rsp = le_bytes 4,
     s_hb = (\<lambda>t i. le_bytes 4 t @ le_bytes 4 i), s_thb = (\<lambda>z i. le_bytes 4 z @ le_bytes 4 i)\<rparr>"

definition demo_router :: router where
  "demo_router = \<lparr>rt_nh = nh_demo\<lparr>nh_tcp := [\<lparr>cx_fd = handle TcpSock 1 nh_demo, cx_msgcount = 0, cx_tt = 0, cx_ptr = 1\<rparr>]\<rparr>,
     rt_insts = snd (IM_LoginInstance 4 1 (handle TcpSock 1 nh_demo) demo_insts), rt_tr = TransferMgr, rt_inst = 1, rt_zone = 0\<rparr>"

definition demo_packet :: "u32 \<Rightarrow> app_frame" where
  "demo_packet len = af_new\<lparr>cmd := 100, dst_svr_type := 4, dst_inst_id := 1, cmd_length := len\<rparr>"

definition demo_data :: "app_frame \<Rightarrow> byte list \<Rightarrow> net_msg" where
  "demo_data f body = \<lparr>ms_ptr = 1, ms_type = M_SOCKET_DATA, ms_buf = af_msg f body, ms_error = False\<rparr>"

lemma demo_ctx:
  "ctx_find (handle TcpSock (ms_ptr (demo_data f body)) (rt_nh demo_router)) (nh_cont TcpSock (rt_nh demo_router))
     = Some \<lparr>cx_fd = handle TcpSock 1 nh_demo, cx_msgcount = 0, cx_tt = 0, cx_ptr = 1\<rparr>"
  by (simp add: ctx_find_def demo_router_def demo_data_def nh_cont_def handle_def)

lemma demo_router_fd: "GetFdByTypeId 4 1 (rt_insts demo_router) = handle TcpSock 1 nh_demo"
proof -
  obtain r m' where run: "IM_LoginInstance 4 1 (handle TcpSock 1 nh_demo) demo_insts = (r, m')" by fastforce
  have "GetPolicy 4 demo_insts \<noteq> None" by (simp add: demo_insts_def SeverInstanceMgr_def GetPolicy_def)
  then show ?thesis using login_registers [OF demo_insts_ok run] run by (simp add: demo_router_def)
qed

lemma demo_not_own: "\<not> router_own (cmd (demo_packet n))"
  by (simp add: router_own_def demo_packet_def CMD_SOCKET_CLIENT_OUT_def CMD_SOCKET_CLIENT_IN_def
      CMD_REGISTER_SERVER_REQ_def CMD_REGISTER_SERVER_RSP_def CMD_SVR_HEATBEAT_def)

lemma demo_router_ok: "insts_ok (rt_insts demo_router)"
proof -
  obtain r m' where run: "IM_LoginInstance 4 1 (handle TcpSock 1 nh_demo) demo_insts = (r, m')" by fastforce
  have "GetPolicy 4 demo_insts \<noteq> None" by (simp add: demo_insts_def SeverInstanceMgr_def GetPolicy_def)
  then show ?thesis using login_registers [OF demo_insts_ok run] run by (simp add: demo_router_def)
qed

lemma demo_route: "route_fds (demo_packet n) demo_router = [handle TcpSock 1 nh_demo]"
  using demo_router_fd
  by (simp add: route_fds_code [OF demo_router_ok]) (simp add: demo_packet_def demo_router_def af_new_def)

lemma demo_connected: "fd_ctx (handle TcpSock 1 nh_demo) (rt_nh demo_router) \<noteq> None"
  using handle_is_tcp by (simp add: fd_ctx_def demo_router_def ctx_find_def)


text \<open>The router trusts the length field of a packet it forwards: when the field is larger than the
  body that came with it, forwarding reads memory behind the packet.\<close>

theorem router_overread:
  assumes "ctx_find (handle sd (ms_ptr msg) h) (nh_cont sd h) = Some x" "ms_type msg = M_SOCKET_DATA"
    and "ms_buf msg = af_msg f body" "\<not> router_own (cmd f)" and "insts_ok (rt_insts (m_app m))"
    and len: "length body < unat (cmd_length f)" "unat (cmd_length f) < 2 ^ 31"
    and dst: "\<exists>fd \<in> set (route_fds f (m_app m)). fd_ctx fd h \<noteq> None"
  shows "consum_one (router_cb P db z n) sd msg (h, s, p, m) = None"
proof -
  have "unat (cmd_length f + 50) = unat (cmd_length f) + 50"
    using len(2) by (subst unat_plus_small) simp_all
  then show ?thesis
    unfolding router_delivers [OF assms(1-5)] using len(1) dst assms(3)
    by (simp add: passed_on_def length_af_msg fd_ctx_counted)
qed

theorem router_overread_witness:
  "consum_one (router_cb demo_protos (\<lambda>_. 0) SFault 0) TcpSock (demo_data (demo_packet 60000) [7]) (rt_nh demo_router, cos_new, tp_new 1 0, TransactionMgrImpl 0 demo_router) = None"
proof -
  let ?m = "TransactionMgrImpl 0 demo_router" and ?f = "demo_packet 60000"
  have d: "ms_type (demo_data ?f [7]) = M_SOCKET_DATA" "ms_buf (demo_data ?f [7]) = af_msg ?f [7]"
    "insts_ok (rt_insts (m_app ?m))" "length [7 :: byte] < unat (cmd_length ?f)" "unat (cmd_length ?f) < 2 ^ 31"
    "\<exists>fd \<in> set (route_fds ?f (m_app ?m)). fd_ctx fd (rt_nh demo_router) \<noteq> None"
    using demo_router_ok demo_connected by (simp_all add: demo_data_def demo_packet_def [of 60000] TransactionMgrImpl_def
        demo_route [unfolded demo_packet_def])
  from router_overread [OF demo_ctx d(1,2) demo_not_own d(3-6)] show ?thesis .
qed

end
