(* ===== verification/Transfer_Inst.thy ===== *)
theory Transfer_Inst
  imports Links
begin

text \<open>
  \<^verbatim>\<open>transfersvr/transfer_inst_mgr.cpp\<close>: what a transfer server knows of the transfer servers of
  all zones.  Of two servers the one with the smaller zone and instance connects; the
  other waits for the connection and its registration.  The map from zones to servers is
  a \<^verbatim>\<open>std::unordered_map\<close>: its iteration order is a parameter.
\<close>

subsection \<open>\<^verbatim>\<open>std::unordered_map\<close>\<close>

text \<open>Key and value pairs in the order of insertion; \<^term>\<open>ord\<close> gives the iteration order of the keys.\<close>

fun um_put :: "'k \<Rightarrow> 'v \<Rightarrow> ('k \<times> 'v) list \<Rightarrow> ('k \<times> 'v) list" where
  "um_put k v [] = [(k, v)]"
| "um_put k v (x # xs) = (if fst x = k then (k, v) # xs else x # um_put k v xs)"

definition um_get :: "'k \<Rightarrow> 'v \<Rightarrow> ('k \<times> 'v) list \<Rightarrow> 'v" where
  "um_get k d m = (case map_of m k of None \<Rightarrow> d | Some v \<Rightarrow> v)"

definition um_iter :: "('k list \<Rightarrow> 'k list) \<Rightarrow> ('k \<times> 'v) list \<Rightarrow> ('k \<times> 'v) list" where
  "um_iter ord m = map (\<lambda>k. (k, the (map_of m k))) (ord (map fst m))"

text \<open>The orders of the zones of the new map, of the instances of each of its zones, and of the zones
  of the manager's map.\<close>

record iter_orders =
  io_zones :: "u32 list \<Rightarrow> u32 list"
  io_insts :: "u32 \<Rightarrow> u32 list \<Rightarrow> u32 list"
  io_map :: "u32 list \<Rightarrow> u32 list"

subsection \<open>State\<close>

text \<open>\<^verbatim>\<open>TransferSvrInfo\<close>.\<close>

record tinfo =
  ti_ip :: string
  ti_port :: u32
  ti_fd :: u64
  ti_zone :: u32
  ti_inst :: u32
  ti_online :: bool
  ti_active :: bool

text \<open>\<^verbatim>\<open>zi_map\<close> is listed in its iteration order.\<close>

record tinst_mgr =
  zi_type :: u32
  zi_inst :: u32
  zi_zone :: u32
  zi_file :: string
  zi_map :: "(u32 \<times> tinfo list) list"
  zi_buffer :: buffer
  zi_frame :: app_frame

definition TransferInstanceMgr :: tinst_mgr where
  "TransferInstanceMgr = \<lparr>zi_type = 0, zi_inst = 0, zi_zone = 0, zi_file = [], zi_map = [],
     zi_buffer = buf_new, zi_frame = af_new\<rparr>"

subsection \<open>Log in and log out\<close>

fun update_first :: "('a \<Rightarrow> bool) \<Rightarrow> ('a \<Rightarrow> 'a) \<Rightarrow> 'a list \<Rightarrow> 'a list" where
  "update_first p f [] = []"
| "update_first p f (x # xs) = (if p x then f x # xs else x # update_first p f xs)"

definition tinfo_is :: "string \<Rightarrow> u32 \<Rightarrow> u32 \<Rightarrow> tinfo \<Rightarrow> bool" where
  "tinfo_is ip port inst x \<longleftrightarrow> ip = ti_ip x \<and> port = ti_port x \<and> inst = ti_inst x"

definition TI_ExistTransfer :: "string \<Rightarrow> u32 \<Rightarrow> u32 \<Rightarrow> tinst_mgr \<Rightarrow> bool" where
  "TI_ExistTransfer ip port inst m = list_ex (\<lambda>z. list_ex (tinfo_is ip port inst) (snd z)) (zi_map m)"

definition tinfo_on :: "u64 \<Rightarrow> tinfo \<Rightarrow> tinfo" where
  "tinfo_on fd x = x\<lparr>ti_online := True, ti_fd := fd\<rparr>"

text \<open>Both \<^verbatim>\<open>LoginTransfer\<close> stop at the first match of each zone and go on with the next zone.\<close>

definition TI_LoginTransfer :: "string \<Rightarrow> u32 \<Rightarrow> u32 \<Rightarrow> u64 \<Rightarrow> tinst_mgr \<Rightarrow> int \<times> tinst_mgr" where
  "TI_LoginTransfer ip port inst fd m =
     (0, m\<lparr>zi_map := map (\<lambda>(z, xs). (z, update_first (tinfo_is ip port inst) (tinfo_on fd) xs)) (zi_map m)\<rparr>)"

definition TI_LoginZone :: "u32 \<Rightarrow> u32 \<Rightarrow> u64 \<Rightarrow> tinst_mgr \<Rightarrow> int \<times> tinst_mgr" where
  "TI_LoginZone zone inst fd m =
     (0, m\<lparr>zi_map := map (\<lambda>(z, xs). (z, update_first (\<lambda>x. ti_zone x = zone \<and> ti_inst x = inst) (tinfo_on fd) xs)) (zi_map m)\<rparr>)"

fun logout_zones :: "u64 \<Rightarrow> (u32 \<times> tinfo list) list \<Rightarrow> int \<times> (u32 \<times> tinfo list) list" where
  "logout_zones fd [] = (-1, [])"
| "logout_zones fd ((z, xs) # zs) =
     (if list_ex (\<lambda>x. ti_fd x = fd) xs
      then (0, (z, update_first (\<lambda>x. ti_fd x = fd) (\<lambda>x. x\<lparr>ti_online := False, ti_fd := 0\<rparr>) xs) # zs)
      else apsnd (Cons (z, xs)) (logout_zones fd zs))"

definition TI_LogoutTransfer :: "u64 \<Rightarrow> tinst_mgr \<Rightarrow> int \<times> tinst_mgr" where
  "TI_LogoutTransfer fd m =
     (if fd = 0 then (-1, m)
      else case logout_zones fd (zi_map m) of (r, zs) \<Rightarrow> (r, m\<lparr>zi_map := zs\<rparr>))"

subsection \<open>Sending\<close>

text \<open>As in the router's \<^verbatim>\<open>TransferMgr\<close>: \<^verbatim>\<open>dst_inst_id\<close> gets \<^verbatim>\<open>dst_trans_id\<close>, the buffer is not cleared.\<close>

definition TI_frame :: "tinst_mgr \<Rightarrow> u32 \<Rightarrow> u64 \<Rightarrow> u16 \<Rightarrow> u32 \<Rightarrow> u32 \<Rightarrow> u32 \<Rightarrow> u32 \<Rightarrow> byte list \<Rightarrow> app_frame" where
  "TI_frame m c uid dzone dtype strans dtrans rnd data =
     \<lparr>is_broadcast = 0, src_zone = ucast (zi_zone m), dst_zone = dzone, src_svr_type = zi_type m, dst_svr_type = dtype,
      src_inst_id = zi_inst m, dst_inst_id = dtrans, src_trans_id = strans, dst_trans_id = dtrans, cmd = c,
      cmd_length = word_of_nat (length data), userid = uid, req_random = rnd\<rparr>"

definition TI_SendMsgToTransferByFd :: "u64 \<Rightarrow> u32 \<Rightarrow> u64 \<Rightarrow> u16 \<Rightarrow> u32 \<Rightarrow> u32 \<Rightarrow> u32 \<Rightarrow> u32 \<Rightarrow> u32
    \<Rightarrow> byte list \<Rightarrow> tinst_mgr \<Rightarrow> nh \<Rightarrow> (int \<times> tinst_mgr \<times> nh) mem" where
  "TI_SendMsgToTransferByFd fd c uid dzone dtype dinst strans dtrans rnd data m h =
     (let f = TI_frame m c uid dzone dtype strans dtrans rnd data
      in map_option (\<lambda>(r, b, h1). (r, m\<lparr>zi_buffer := b, zi_frame := f\<rparr>, h1)) (send_frame fd f data (zi_buffer m) h))"

text \<open>The heartbeat: to the servers that this one did not connect to itself.\<close>

fun TI_tick_infos :: "byte list \<Rightarrow> tinfo list \<Rightarrow> tinst_mgr \<Rightarrow> nh \<Rightarrow> (tinst_mgr \<times> nh) mem" where
  "TI_tick_infos msg [] m h = Some (m, h)"
| "TI_tick_infos msg (x # xs) m h =
     (if \<not> ti_active x then
        Option.bind (TI_SendMsgToTransferByFd (ti_fd x) CMD_TRANSFER_HEATBEAT 0 (ucast (ti_zone x)) SVR_TYPE_TRANSFER
            (ti_inst x) 0 0 0 msg m h)
          (\<lambda>(_, m1, h1). TI_tick_infos msg xs m1 h1)
      else TI_tick_infos msg xs m h)"

definition TI_Tick :: "(u32 \<Rightarrow> u32 \<Rightarrow> byte list) \<Rightarrow> tinst_mgr \<Rightarrow> nh \<Rightarrow> (tinst_mgr \<times> nh) mem" where
  "TI_Tick thb m h = TI_tick_infos (thb (zi_zone m) (zi_inst m)) (concat (map snd (zi_map m))) m h"

subsection \<open>Configuration\<close>

text \<open>Zone and instance may not repeat.  The port of an item is its \<^verbatim>\<open>listen_port2\<close>.\<close>

fun pair_ids_ok :: "(u32 \<times> u32) set \<Rightarrow> cfg_item list \<Rightarrow> bool" where
  "pair_ids_ok seen [] = True"
| "pair_ids_ok seen (c # cs) =
     (if (ci_zone c, ci_inst c) \<in> seen then False
      else pair_ids_ok (insert (ci_zone c, ci_inst c) seen) cs)"

definition ti_seq :: "u32 \<Rightarrow> u32 \<Rightarrow> u32" where
  "ti_seq zone inst = zone * 1000000 + inst"

definition item_tinfo :: "bool \<Rightarrow> cfg_item \<Rightarrow> tinfo" where
  "item_tinfo active c = \<lparr>ti_ip = ci_ip c, ti_port = ci_port c, ti_fd = 0, ti_zone = ci_zone c, ti_inst = ci_inst c,
     ti_online = False, ti_active = active\<rparr>"

definition item_dial :: "cfg_item \<Rightarrow> net_out" where
  "item_dial c = OConnect (ci_ip c) (ucast (ci_port c)) Enum_ConnType_Transfer2 (sint (ci_inst c))"

text \<open>\<^verbatim>\<open>tmp[zone][inst] = info\<close>.\<close>

definition zone_put :: "tinfo \<Rightarrow> (u32 \<times> (u32 \<times> tinfo) list) list \<Rightarrow> (u32 \<times> (u32 \<times> tinfo) list) list" where
  "zone_put x tmp = um_put (ti_zone x) (um_put (ti_inst x) x (um_get (ti_zone x) [] tmp)) tmp"

text \<open>The first loop: connect and note the other servers of the file.\<close>

fun ti_new :: "tinst_mgr \<Rightarrow> cfg_item list \<Rightarrow> (u32 \<times> (u32 \<times> tinfo) list) list \<times> nh
    \<Rightarrow> (u32 \<times> (u32 \<times> tinfo) list) list \<times> nh" where
  "ti_new m [] th = th"
| "ti_new m (c # cs) th =
     (if ci_zone c = zi_zone m \<and> ci_inst c = zi_inst m then ti_new m cs th
      else
        let active = (ti_seq (zi_zone m) (zi_inst m) <s ti_seq (ci_zone c) (ci_inst c)
                      \<and> \<not> TI_ExistTransfer (ci_ip c) (ci_port c) (ci_inst c) m)
        in ti_new m cs (zone_put (item_tinfo active c) (fst th), if active then nh_do (item_dial c) (snd th) else snd th))"

text \<open>The second loop: a known server that is still in the file keeps its state, the others are closed.\<close>

fun ti_old :: "cfg_item list \<Rightarrow> tinfo list \<Rightarrow> (u32 \<times> (u32 \<times> tinfo) list) list \<times> nh
    \<Rightarrow> (u32 \<times> (u32 \<times> tinfo) list) list \<times> nh" where
  "ti_old items [] th = th"
| "ti_old items (x # xs) th =
     (if list_ex (\<lambda>c. tinfo_is (ci_ip c) (ci_port c) (ci_inst c) x) items then ti_old items xs (zone_put x (fst th), snd th)
      else ti_old items xs (fst th, CloseFd (ti_fd x) (snd th)))"

text \<open>The third loop: \<^verbatim>\<open>push_back\<close> to the vector of the zone.\<close>

definition zone_push :: "tinfo \<Rightarrow> (u32 \<times> tinfo list) list \<Rightarrow> (u32 \<times> tinfo list) list" where
  "zone_push x zs = um_put (ti_zone x) (um_get (ti_zone x) [] zs @ [x]) zs"

definition TI_ConnectTransfers :: "iter_orders \<Rightarrow> cfg_item list \<Rightarrow> tinst_mgr \<Rightarrow> nh \<Rightarrow> tinst_mgr \<times> nh" where
  "TI_ConnectTransfers ord items m h =
     (case ti_old items (concat (map snd (zi_map m))) (ti_new m items ([], h)) of (tmp, h1) \<Rightarrow>
        let infos = concat (map (\<lambda>(z, is). map snd (um_iter (io_insts ord z) is)) (um_iter (io_zones ord) tmp))
        in (m\<lparr>zi_map := um_iter (io_map ord) (fold zone_push infos [])\<rparr>, h1))"

definition TI_Reload :: "iter_orders \<Rightarrow> (string \<Rightarrow> cfg_item list option) \<Rightarrow> tinst_mgr \<Rightarrow> nh \<Rightarrow> int \<times> tinst_mgr \<times> nh" where
  "TI_Reload ord parse m h =
     (if zi_file m = [] then (0, m, h)
      else case parse (zi_file m) of
          None \<Rightarrow> (-1, m, h)
        | Some items \<Rightarrow> if pair_ids_ok {} items then (0, TI_ConnectTransfers ord items m h) else (-1, m, h))"

definition TI_Init :: "iter_orders \<Rightarrow> (string \<Rightarrow> cfg_item list option) \<Rightarrow> u32 \<Rightarrow> u32 \<Rightarrow> u32 \<Rightarrow> string
    \<Rightarrow> tinst_mgr \<Rightarrow> nh \<Rightarrow> int \<times> tinst_mgr \<times> nh" where
  "TI_Init ord parse ty inst zone name m h =
     TI_Reload ord parse (m\<lparr>zi_type := ty, zi_inst := inst, zi_zone := zone, zi_file := name\<rparr>) h"

end
