(* ===== verification/Transfer_Svr.thy ===== *)
theory Transfer_Svr
  imports Transfer_Inst Router_Svr
begin

text \<open>
  The transfer server, \<^verbatim>\<open>transfersvr/transfersvr.cpp\<close>: it links the zones.  Routers of its own
  zone and transfer servers of the others register with it; its forwarding is not written
  yet.
\<close>

record transfer =
  tf_nh :: nh
  tf_servers :: tinst_mgr
  tf_routers :: "rinst list"
  tf_users :: "login_info list"
  tf_inst :: u32
  tf_zone :: u32

text \<open>The calls of its transactions.\<close>

fun transfer_env :: "(out \<Rightarrow> int) \<Rightarrow> transfer call_env" where
  "transfer_env db (SendFrame c uid bc dz dt di st dtr rnd body) x =
     map_option (\<lambda>(r, h). (x\<lparr>tf_nh := h\<rparr>, r)) (RM_SendMsg c uid bc dz dt di st dtr rnd body RouterMgr (tf_nh x))"
| "transfer_env db (SendByFd fd c uid dz dt st rnd body) x =
     map_option (\<lambda>(r, m, h). (x\<lparr>tf_nh := h, tf_servers := m\<rparr>, r))
       (TI_SendMsgToTransferByFd fd c uid dz dt 0 st 0 rnd body (tf_servers x) (tf_nh x))"
| "transfer_env db (SendRaw fd f body) x =
     map_option (\<lambda>(r, _, h). (x\<lparr>tf_nh := h\<rparr>, r)) (send_frame fd f body buf_new (tf_nh x))"
| "transfer_env db (GetConnector fd) x = Some (x, ptr_answer (GetConnectorPtr fd (tf_nh x)))"
| "transfer_env db (GetSocket fd) x = Some (x, ptr_answer (GetSocketPtr fd (tf_nh x)))"
| "transfer_env db (ConnTypeOf p) x = Some (x, sk_conn_type (nh_sock (tf_nh x) p))"
| "transfer_env db (LoginLink p fd) x =
     (case sock_args p (tf_nh x) of (ip, port, num) \<Rightarrow>
        (case TI_LoginTransfer ip port num fd (tf_servers x) of (r, m) \<Rightarrow> Some (x\<lparr>tf_servers := m\<rparr>, r)))"
| "transfer_env db (ExistLink p) x =
     (case sock_args p (tf_nh x) of (ip, port, num) \<Rightarrow> Some (x, if TI_ExistTransfer ip port num (tf_servers x) then 1 else 0))"
| "transfer_env db (ConnectLink p) x = Some (x\<lparr>tf_nh := connect_again p (tf_nh x)\<rparr>, 0)"
| "transfer_env db (LoginInst ty i fd) x =
     (case RI_LoginInstance ty i fd (tf_routers x) of (r, l) \<Rightarrow> Some (x\<lparr>tf_routers := l\<rparr>, r))"
| "transfer_env db (LogoutInst fd) x = Some (x\<lparr>tf_routers := RI_LogoutInstance fd (tf_routers x)\<rparr>, 0)"
| "transfer_env db (LoginZone zone i fd) x =
     (case TI_LoginZone zone i fd (tf_servers x) of (r, m) \<Rightarrow> Some (x\<lparr>tf_servers := m\<rparr>, r))"
| "transfer_env db (LogoutLink fd) x =
     (case TI_LogoutTransfer fd (tf_servers x) of (r, m) \<Rightarrow> Some (x\<lparr>tf_servers := m\<rparr>, r))"
| "transfer_env db (UpdateLogin uid zone) x =
     (case UpdateLoginInfo uid zone (word_of_int (nh_now (tf_nh x))) (tf_users x) of (_, l) \<Rightarrow> Some (x\<lparr>tf_users := l\<rparr>, 0))"
| "transfer_env db c x = Some (x, db c)"

definition transfer_own :: "u32 \<Rightarrow> bool" where
  "transfer_own c \<longleftrightarrow> c = CMD_SOCKET_CLIENT_OUT \<or> c = CMD_SOCKET_CLIENT_IN \<or> c = CMD_REGISTER_SERVER_REQ
     \<or> c = CMD_REGISTER_SERVER_RSP \<or> c = CMD_SVR_HEATBEAT \<or> c = CMD_TRANSFER_HEATBEAT"

text \<open>\<^verbatim>\<open>OnProc\<close>: both branches behind its switch are empty.\<close>

definition Transfer_OnProc :: "(tk, transfer tworld) slice \<Rightarrow> net_call \<Rightarrow> transfer tstate \<Rightarrow> transfer tstate mem" where
  "Transfer_OnProc sl c sw =
     (if transfer_own (cmd (nc_frame c)) then
        map_option snd (TM_ProcessFrame sl (nc_fd c) SVR_TYPE_TRANSFER (tf_inst (the_app sw)) (tf_zone (the_app sw))
          (nc_frame c) (nc_data c) sw)
      else Some sw)"

definition transfer_slice :: "protos \<Rightarrow> (out \<Rightarrow> int) \<Rightarrow> script \<Rightarrow> nat \<Rightarrow> (tk, transfer tworld) slice" where
  "transfer_slice P db z n = trans_slice (transfer_env db) (transfer_behave P z n)"

definition transfer_cb :: "protos \<Rightarrow> (out \<Rightarrow> int) \<Rightarrow> script \<Rightarrow> nat \<Rightarrow> transfer tstate net_cb" where
  "transfer_cb P db z n c hw =
     (case hw of (h, s, p, m) \<Rightarrow>
        map_option (\<lambda>sw. (tf_nh (the_app sw), sw))
          (Transfer_OnProc (transfer_slice P db z n) c (s, p, m\<lparr>m_app := (m_app m)\<lparr>tf_nh := h\<rparr>\<rparr>)))"

definition Transfer_OnTick :: "protos \<Rightarrow> nat \<Rightarrow> transfer \<Rightarrow> transfer mem" where
  "Transfer_OnTick P tick_count x =
     (let x1 = x\<lparr>tf_nh := CheckTcpSocketExpire (tf_nh x)\<rparr>
      in Option.bind
           (if tick_count mod (100 * 20) = 0
            then map_option (\<lambda>(m, h). x1\<lparr>tf_servers := m, tf_nh := h\<rparr>) (TI_Tick (s_thb P) (tf_servers x1) (tf_nh x1))
            else Some x1)
           (\<lambda>x2. if tick_count mod (100 * 5) = 0
                 then map_option (\<lambda>l. x2\<lparr>tf_users := l\<rparr>) (UL_Tick (nh_now (tf_nh x2)) (tf_users x2))
                 else Some x2))"

text \<open>\<^verbatim>\<open>OnInit\<close> behind two successful \<^verbatim>\<open>ListenOne\<close>, on ports ten apart for each instance.\<close>

definition Transfer_CalcPort :: "u32 \<Rightarrow> u32 \<Rightarrow> int \<Rightarrow> u32" where
  "Transfer_CalcPort port_start inst ty =
     (if ty = Enum_ListenType_Transfer then port_start + inst * 10 + 1 else port_start + inst * 10 + 2)"

definition Transfer_OnInit :: "iter_orders \<Rightarrow> (string \<Rightarrow> cfg_item list option) \<Rightarrow> string \<Rightarrow> transfer \<Rightarrow> int \<times> transfer" where
  "Transfer_OnInit ord parse transfer_file x =
     (case TI_Init ord parse SVR_TYPE_TRANSFER (tf_inst x) (tf_zone x) transfer_file (tf_servers x) (tf_nh x) of (ret, m, h) \<Rightarrow>
        (if ret \<noteq> 0 then -1 else 0, x\<lparr>tf_servers := m, tf_nh := h\<rparr>))"

definition Transfer_OnReload :: "iter_orders \<Rightarrow> (string \<Rightarrow> cfg_item list option) \<Rightarrow> bool \<times> u32 \<times> u32
    \<Rightarrow> transfer \<Rightarrow> int \<times> transfer" where
  "Transfer_OnReload ord parse conf x =
     (case conf of (ok, inst, zone) \<Rightarrow>
        let x1 = x\<lparr>tf_inst := inst, tf_zone := zone\<rparr> in
        if \<not> ok then (-1, x1)
        else case TI_Reload ord parse (tf_servers x1) (tf_nh x1) of (ret, m, h) \<Rightarrow>
          (if ret \<noteq> 0 then -1 else 0, x1\<lparr>tf_servers := m, tf_nh := h\<rparr>))"

end
