(* ===== verification/Transfer_Props.thy ===== *)
theory Transfer_Props
  imports Transfer_Svr Router_Props
begin

text \<open>
  The properties of the transfer server: it satisfies the contract of the network bridge,
  which server of a pair connects, and which frames it drops.
\<close>

subsection \<open>The contract of the network bridge\<close>

lemma TI_Send_keeps: "TI_SendMsgToTransferByFd fd c uid dz dt di st dtr rnd data m h = Some (r, m2, h2) \<Longrightarrow> keeps h h2"
  by (auto simp: TI_SendMsgToTransferByFd_def Let_def dest: send_frame_keeps)

definition transfer_keeps :: "transfer \<Rightarrow> transfer \<Rightarrow> bool" where
  "transfer_keeps x y \<longleftrightarrow> keeps (tf_nh x) (tf_nh y) \<and> tf_inst y = tf_inst x \<and> tf_zone y = tf_zone x"

lemma transfer_keeps_trans: "\<lbrakk>transfer_keeps x y; transfer_keeps y z\<rbrakk> \<Longrightarrow> transfer_keeps x z"
  using keeps_trans by (auto simp: transfer_keeps_def)

lemma transfer_env_keeps: "transfer_env db c x = Some (y, r) \<Longrightarrow> transfer_keeps x y"
  by (cases c) (auto simp: transfer_keeps_def split: prod.splits dest: send_frame_keeps RM_SendMsg_keeps TI_Send_keeps)

interpretation transfer_app: app_rel "transfer_env db" transfer_keeps for db
  by unfold_locales (auto intro: transfer_keeps_trans transfer_env_keeps simp: transfer_keeps_def [of x x for x])

lemma Transfer_OnProc_keeps:
  assumes "Transfer_OnProc (transfer_slice P db z n) c sw = Some sw2"
  shows "transfer_keeps (the_app sw) (the_app sw2)"
proof (cases "transfer_own (cmd (nc_frame c))")
  case True
  obtain s p m where sw: "sw = (s, p, m)" by (metis prod_cases3)
  obtain r where "TM_ProcessFrame (trans_slice (transfer_env db) (transfer_behave P z n)) (nc_fd c) SVR_TYPE_TRANSFER
      (tf_inst (m_app m)) (tf_zone (m_app m)) (nc_frame c) (nc_data c) (s, p, m) = Some (r, sw2)"
    using assms True sw by (auto simp: Transfer_OnProc_def transfer_slice_def the_app_def)
  then show ?thesis using transfer_app.ProcessFrame_app sw by (fastforce simp: transfer_app.QS_def the_app_def)
next
  case False
  then show ?thesis using assms by (simp add: Transfer_OnProc_def transfer_keeps_def)
qed

lemma transfer_cb_keeps: "transfer_cb P db z n c (h, w) = Some (h2, w2) \<Longrightarrow> keeps h h2"
proof -
  assume run: "transfer_cb P db z n c (h, w) = Some (h2, w2)"
  obtain s p m where w: "w = (s, p, m)" by (metis prod_cases3)
  let ?w = "(s, p, m\<lparr>m_app := (m_app m)\<lparr>tf_nh := h\<rparr>\<rparr>)"
  have "Transfer_OnProc (transfer_slice P db z n) c ?w = Some w2" "h2 = tf_nh (the_app w2)"
    using run w by (auto simp: transfer_cb_def)
  then show ?thesis using Transfer_OnProc_keeps [of P db z n c ?w w2] by (simp add: transfer_keeps_def the_app_def)
qed

interpretation transfer_net: net_app "transfer_cb P db z n" for P db z n
  by unfold_locales (rule transfer_cb_keeps)

subsection \<open>The map from zones to servers\<close>

lemma map_of_um_put [simp]: "map_of (um_put k v m) = (map_of m)(k \<mapsto> v)"
  by (induction k v m rule: um_put.induct) auto

lemma um_get_put [simp]: "um_get k d (um_put j v m) = (if k = j then v else um_get k d m)"
  by (simp add: um_get_def)

text \<open>An iteration order runs through the keys, each of them.\<close>

definition iter_ok :: "iter_orders \<Rightarrow> bool" where
  "iter_ok ord \<longleftrightarrow> (\<forall>ks. set (io_zones ord ks) = set ks) \<and> (\<forall>z ks. set (io_insts ord z ks) = set ks)
     \<and> (\<forall>ks. set (io_map ord ks) = set ks)"

lemma set_um_iter:
  assumes "set (ord (map fst m)) = fst ` set m"
  shows "set (um_iter ord m) = {(k, v). map_of m k = Some v}"
proof -
  have "(k, v) \<in> set (um_iter ord m) \<longleftrightarrow> k \<in> fst ` set m \<and> v = the (map_of m k)" for k v
    using assms by (auto simp: um_iter_def)
  moreover have "k \<in> fst ` set m \<longleftrightarrow> map_of m k \<noteq> None" for k by (simp add: map_of_eq_None_iff)
  ultimately show ?thesis by auto
qed

definition tmp_at :: "(u32 \<times> (u32 \<times> tinfo) list) list \<Rightarrow> u32 \<times> u32 \<Rightarrow> tinfo option" where
  "tmp_at tmp zi = map_of (um_get (fst zi) [] tmp) (snd zi)"

definition map_put :: "'k \<Rightarrow> 'v \<Rightarrow> ('k \<rightharpoonup> 'v) \<Rightarrow> ('k \<rightharpoonup> 'v)" where
  "map_put k v f = f(k \<mapsto> v)"

lemma tmp_at_put [simp]: "tmp_at (zone_put x tmp) = map_put (ti_zone x, ti_inst x) x (tmp_at tmp)"
  by (rule ext) (auto simp: tmp_at_def zone_put_def map_put_def)

lemma ran_fold_put:
  "\<lbrakk>distinct (map k cs); k ` set cs \<inter> dom f = {}\<rbrakk> \<Longrightarrow> ran (fold (\<lambda>c. map_put (k c) (g c)) cs f) = ran f \<union> g ` set cs"
proof (induction cs arbitrary: f)
  case (Cons c cs)
  have "k ` set cs \<inter> dom (map_put (k c) (g c) f) = {}" using Cons.prems by (auto simp: map_put_def)
  moreover have "ran (map_put (k c) (g c) f) = insert (g c) (ran f)"
    using Cons.prems(2) unfolding map_put_def by (intro ran_map_upd) auto
  ultimately show ?case using Cons.IH [of "map_put (k c) (g c) f"] Cons.prems(1) by simp
qed simp

lemma tmp_infos:
  assumes "iter_ok ord"
  shows "set (concat (map (\<lambda>(z, is). map snd (um_iter (io_insts ord z) is)) (um_iter (io_zones ord) tmp))) = ran (tmp_at tmp)"
proof -
  have z: "set (um_iter (io_zones ord) tmp) = {(z, is). map_of tmp z = Some is}"
    using assms by (intro set_um_iter) (simp add: iter_ok_def)
  have i: "set (um_iter (io_insts ord z) l) = {(i, x). map_of l i = Some x}" for z and l :: "(u32 \<times> tinfo) list"
    using assms by (intro set_um_iter) (simp add: iter_ok_def)
  have "x \<in> ran (tmp_at tmp) \<longleftrightarrow> (\<exists>z l i. map_of tmp z = Some l \<and> map_of l i = Some x)" for x
  proof
    assume "x \<in> ran (tmp_at tmp)"
    then obtain z i where "map_of (um_get z [] tmp) i = Some x" by (auto simp: ran_def tmp_at_def)
    then show "\<exists>z l i. map_of tmp z = Some l \<and> map_of l i = Some x"
      by (auto simp: um_get_def split: option.splits)
  next
    assume "\<exists>z l i. map_of tmp z = Some l \<and> map_of l i = Some x"
    then obtain z l i where "map_of tmp z = Some l" "map_of l i = Some x" by blast
    then have "tmp_at tmp (z, i) = Some x" by (simp add: tmp_at_def um_get_def)
    then show "x \<in> ran (tmp_at tmp)" by (rule ranI)
  qed
  moreover have "snd ` {(i, x). map_of l i = Some x} = ran (map_of l)" for l :: "(u32 \<times> tinfo) list"
    by (force simp: ran_def)
  then have "set (concat (map (\<lambda>(z, is). map snd (um_iter (io_insts ord z) is)) (um_iter (io_zones ord) tmp)))
      = (\<Union>(z, l) \<in> {(z, l). map_of tmp z = Some l}. ran (map_of l))"
    by (simp add: z i split_beta)
  ultimately show ?thesis by (auto simp: ran_def)
qed

definition push_set :: "(u32 \<times> tinfo list) list \<Rightarrow> tinfo set" where
  "push_set zs = {x. \<exists>z. x \<in> set (um_get z [] zs)}"

lemma push_set_push [simp]: "push_set (zone_push x zs) = insert x (push_set zs)"
  by (auto simp: push_set_def zone_push_def split: if_splits) metis+

lemma push_set_fold: "push_set (fold zone_push xs zs) = set xs \<union> push_set zs"
  by (induction xs arbitrary: zs) auto

lemma map_infos:
  assumes "iter_ok ord"
  shows "set (concat (map snd (um_iter (io_map ord) zs))) = push_set zs"
proof -
  have "set (um_iter (io_map ord) zs) = {(z, l). map_of zs z = Some l}"
    using assms by (intro set_um_iter) (simp add: iter_ok_def)
  then have "x \<in> set (concat (map snd (um_iter (io_map ord) zs))) \<longleftrightarrow> (\<exists>z l. map_of zs z = Some l \<and> x \<in> set l)" for x
    by auto
  moreover have "x \<in> push_set zs \<longleftrightarrow> (\<exists>z l. map_of zs z = Some l \<and> x \<in> set l)" for x
    by (auto simp: push_set_def um_get_def split: option.splits) metis+
  ultimately show ?thesis by blast
qed

text \<open>The servers a transfer server knows.\<close>

definition known :: "tinst_mgr \<Rightarrow> tinfo set" where
  "known m = set (concat (map snd (zi_map m)))"

subsection \<open>Who connects to whom\<close>

definition server_id :: "cfg_item \<Rightarrow> u32 \<times> u32" where
  "server_id c = (ci_zone c, ci_inst c)"

definition self_id :: "tinst_mgr \<Rightarrow> u32 \<times> u32" where
  "self_id m = (zi_zone m, zi_inst m)"

lemma pair_ids_ok_iff: "pair_ids_ok seen cs \<longleftrightarrow> distinct (map server_id cs) \<and> server_id ` set cs \<inter> seen = {}"
  by (induction seen cs rule: pair_ids_ok.induct) (auto simp: server_id_def)

text \<open>Zones before instances: the order that \<^verbatim>\<open>zone * 1000000 + inst\<close> stands for, as long as the
  numbers are in range.\<close>

definition ahead :: "u32 \<times> u32 \<Rightarrow> u32 \<times> u32 \<Rightarrow> bool" where
  "ahead a b \<longleftrightarrow> fst a < fst b \<or> fst a = fst b \<and> snd a < snd b"

definition id_small :: "u32 \<times> u32 \<Rightarrow> bool" where
  "id_small a \<longleftrightarrow> unat (fst a) < 2000 \<and> unat (snd a) < 1000000"

lemma ti_seq_val:
  assumes "id_small (z, i)"
  shows "unat (ti_seq z i) = unat z * 1000000 + unat i" "unat (ti_seq z i) < 2 ^ 31"
proof -
  have s: "unat z < 2000" "unat i < 1000000" using assms by (simp_all add: id_small_def)
  then have "unat (z * 1000000) = unat z * 1000000"
    by (simp add: unat_word_ariths)
  then show "unat (ti_seq z i) = unat z * 1000000 + unat i"
    using s unfolding ti_seq_def by (subst unat_plus_small) simp_all
  then show "unat (ti_seq z i) < 2 ^ 31" using s by simp
qed

lemma lex_less:
  assumes "i < n" "j < (n :: nat)"
  shows "x * n + i < y * n + j \<longleftrightarrow> x < y \<or> x = y \<and> i < j"
proof -
  have below: "x * n + i < y * n + j" if "x < y" "i < n" for x y i j
  proof -
    have "(x + 1) * n \<le> y * n" using that(1) by (intro mult_le_mono1) simp
    then show ?thesis using that(2) by simp
  qed
  show ?thesis
    using below [of x y i j] below [of y x j i] assms by (cases x y rule: linorder_cases) auto
qed

lemma ti_seq_less:
  assumes "id_small a" "id_small b"
  shows "ti_seq (fst a) (snd a) <s ti_seq (fst b) (snd b) \<longleftrightarrow> ahead a b"
proof -
  have s: "sint w = int (unat w)" if "unat w < 2 ^ 31" for w :: u32
  proof -
    have u: "int (unat w) < 2 ^ 31" using that by (simp only: of_nat_less_iff [symmetric, where 'a = int] of_nat_power of_nat_numeral)
    have "sint w = signed_take_bit 31 (int (unat w))" by (simp add: sint_uint)
    also have "\<dots> = int (unat w)" by (rule signed_take_bit_int_eq_self [OF order_trans [of _ 0] u]) (simp, rule of_nat_0_le_iff)
    finally show ?thesis .
  qed
  have "ti_seq (fst a) (snd a) <s ti_seq (fst b) (snd b)
      \<longleftrightarrow> unat (fst a) * 1000000 + unat (snd a) < unat (fst b) * 1000000 + unat (snd b)"
  proof -
    have "id_small (fst a, snd a)" "id_small (fst b, snd b)" using assms by simp_all
    note v = this [THEN ti_seq_val(1)] this [THEN ti_seq_val(2)]
    show ?thesis unfolding word_sless_alt s [OF v(3)] s [OF v(4)] v(1,2) by (simp only: of_nat_less_iff)
  qed
  also have "\<dots> \<longleftrightarrow> unat (fst a) < unat (fst b) \<or> unat (fst a) = unat (fst b) \<and> unat (snd a) < unat (snd b)"
  proof -
    have "unat (snd a) < 1000000" "unat (snd b) < 1000000" using assms by (simp_all add: id_small_def)
    then show ?thesis by (rule lex_less)
  qed
  also have "\<dots> \<longleftrightarrow> ahead a b" by (simp add: ahead_def word_less_nat_alt word_unat_eq_iff)
  finally show ?thesis .
qed

lemma ahead_total: "x \<noteq> y \<Longrightarrow> ahead x y \<longleftrightarrow> \<not> ahead y x"
  unfolding ahead_def prod_eq_iff by (metis less_linear less_asym)

definition dials :: "tinst_mgr \<Rightarrow> cfg_item list \<Rightarrow> cfg_item list" where
  "dials m items = filter (\<lambda>c. ahead (self_id m) (server_id c)) items"

lemma ti_new_step:
  assumes "zi_map m = []" "id_small (self_id m)" "id_small (server_id c)"
  shows "ti_new m (c # cs) th =
    (if server_id c = self_id m then ti_new m cs th
     else ti_new m cs (zone_put (item_tinfo (ahead (self_id m) (server_id c)) c) (fst th),
            if ahead (self_id m) (server_id c) then nh_do (item_dial c) (snd th) else snd th))"
proof -
  have "\<not> TI_ExistTransfer ip port i m" for ip port i using assms(1) by (simp add: TI_ExistTransfer_def)
  moreover have "ti_seq (zi_zone m) (zi_inst m) <s ti_seq (ci_zone c) (ci_inst c) \<longleftrightarrow> ahead (self_id m) (server_id c)"
    using ti_seq_less [OF assms(2,3)] by (simp add: self_id_def server_id_def)
  ultimately show ?thesis by (simp add: Let_def self_id_def server_id_def)
qed

lemma ti_new_fresh:
  assumes "zi_map m = []" "id_small (self_id m)" "\<forall>c \<in> set cs. id_small (server_id c)"
  shows "snd (ti_new m cs th) = fold (\<lambda>c. nh_do (item_dial c)) (dials m cs) (snd th)"
    and "tmp_at (fst (ti_new m cs th)) = fold (\<lambda>c. map_put (server_id c) (item_tinfo (ahead (self_id m) (server_id c)) c))
           (filter (\<lambda>c. server_id c \<noteq> self_id m) cs) (tmp_at (fst th))"
proof -
  have self: "\<not> ahead (self_id m) (self_id m)" by (simp add: ahead_def)
  have id: "(ti_zone (item_tinfo a c), ti_inst (item_tinfo a c)) = server_id c" for a c
    by (simp add: item_tinfo_def server_id_def)
  show "snd (ti_new m cs th) = fold (\<lambda>c. nh_do (item_dial c)) (dials m cs) (snd th)"
    using assms(3)
  proof (induction cs arbitrary: th)
    case (Cons c cs)
    then show ?case using ti_new_step [OF assms(1,2), of c cs th] self by (auto simp: dials_def)
  qed (simp add: dials_def)
  show "tmp_at (fst (ti_new m cs th)) = fold (\<lambda>c. map_put (server_id c) (item_tinfo (ahead (self_id m) (server_id c)) c))
      (filter (\<lambda>c. server_id c \<noteq> self_id m) cs) (tmp_at (fst th))"
    using assms(3)
  proof (induction cs arbitrary: th)
    case (Cons c cs)
    then show ?case using ti_new_step [OF assms(1,2), of c cs th] by (simp add: id)
  qed simp
qed

lemma Connect_fresh:
  assumes m: "zi_map m = []" "id_small (self_id m)" and items: "\<forall>c \<in> set items. id_small (server_id c)"
    "distinct (map server_id items)" and ord: "iter_ok ord"
    and run: "TI_ConnectTransfers ord items m h = (m', h')"
  shows "h' = fold (\<lambda>c. nh_do (item_dial c)) (dials m items) h"
    and "known m' = (\<lambda>c. item_tinfo (ahead (self_id m) (server_id c)) c) ` {c \<in> set items. server_id c \<noteq> self_id m}"
proof -
  note f = ti_new_fresh [OF m items(1), of "([], h)"]
  obtain tmp h1 where t: "ti_new m items ([], h) = (tmp, h1)" by fastforce
  let ?infos = "concat (map (\<lambda>(z, is). map snd (um_iter (io_insts ord z) is)) (um_iter (io_zones ord) tmp))"
  have r: "h' = h1" "m' = m\<lparr>zi_map := um_iter (io_map ord) (fold zone_push ?infos [])\<rparr>"
    using run t m(1) by (simp_all add: TI_ConnectTransfers_def)
  show "h' = fold (\<lambda>c. nh_do (item_dial c)) (dials m items) h" using f(1) t r(1) by simp
  have "known m' = push_set (fold zone_push ?infos [])" using map_infos [OF ord] r(2) by (simp add: known_def)
  also have "\<dots> = set ?infos" by (simp add: push_set_fold push_set_def [of "[]"] um_get_def)
  also have "\<dots> = ran (tmp_at tmp)" by (rule tmp_infos [OF ord])
  also have "\<dots> = (\<lambda>c. item_tinfo (ahead (self_id m) (server_id c)) c) ` {c \<in> set items. server_id c \<noteq> self_id m}"
  proof -
    have e: "tmp_at [] = (\<lambda>_. None)" by (rule ext) (simp add: tmp_at_def um_get_def)
    have "distinct (map server_id (filter (\<lambda>c. server_id c \<noteq> self_id m) items))" using items(2) distinct_map_filter by blast
    from ran_fold_put [OF this, of "\<lambda>_. None"] f(2) t e show ?thesis by (simp add: setcompr_eq_image)
  qed
  finally show "known m' = (\<lambda>c. item_tinfo (ahead (self_id m) (server_id c)) c) ` {c \<in> set items. server_id c \<noteq> self_id m}" .
qed

subsection \<open>Properties\<close>

text \<open>C18: the mesh of transfer servers.  A server that reads the file for the first time connects exactly
  the servers behind it, zones before instances, in the order of the file, and knows
  every server but itself, marked by whether it connected it; so of two servers of the
  file exactly one connects the other, whatever the iteration order of the maps.\<close>

theorem transfer_mesh:
  assumes items: "\<forall>c \<in> set items. id_small (server_id c)" "pair_ids_ok {} items" and ord: "iter_ok ord"
    and a: "a \<in> set items" "zi_map ma = []" "self_id ma = server_id a"
    and b: "b \<in> set items" "zi_map mb = []" "self_id mb = server_id b" and ab: "server_id a \<noteq> server_id b"
    and run: "TI_ConnectTransfers ord items ma h = (ma', h')"
  shows "h' = fold (\<lambda>c. nh_do (item_dial c)) (dials ma items) h
    \<and> known ma' = (\<lambda>c. item_tinfo (c \<in> set (dials ma items)) c) ` {c \<in> set items. server_id c \<noteq> self_id ma}
    \<and> (b \<in> set (dials ma items) \<longleftrightarrow> a \<notin> set (dials mb items))"
proof (intro conjI)
  have d: "distinct (map server_id items)" using items(2) by (simp add: pair_ids_ok_iff)
  have small: "id_small (self_id ma)" using items(1) a by simp
  note c = Connect_fresh [OF a(2) small items(1) d ord run]
  show "h' = fold (\<lambda>c. nh_do (item_dial c)) (dials ma items) h" by (rule c(1))
  show "known ma' = (\<lambda>c. item_tinfo (c \<in> set (dials ma items)) c) ` {c \<in> set items. server_id c \<noteq> self_id ma}"
    unfolding c(2) by (rule image_cong) (simp_all add: dials_def)
  show "b \<in> set (dials ma items) \<longleftrightarrow> a \<notin> set (dials mb items)"
    using a(1) b(1) ahead_total [OF ab] unfolding dials_def a(3) b(3) by simp
qed

definition demo_servers :: "cfg_item list" where
  "demo_servers = [\<lparr>ci_ip = ''a'', ci_port = 1, ci_inst = 2, ci_zone = 1\<rparr>, \<lparr>ci_ip = ''b'', ci_port = 1, ci_inst = 1, ci_zone = 2\<rparr>]"

definition demo_orders :: iter_orders where
  "demo_orders = \<lparr>io_zones = rev, io_insts = (\<lambda>_. rev), io_map = id\<rparr>"

theorem transfer_mesh_witness:
  "\<exists>m' h'. TI_ConnectTransfers demo_orders demo_servers (TransferInstanceMgr\<lparr>zi_zone := 1, zi_inst := 2\<rparr>) nh_demo = (m', h')
     \<and> nh_out h' = [OConnect ''b'' 1 3 1]"
proof -
  let ?a = "TransferInstanceMgr\<lparr>zi_zone := 1, zi_inst := 2\<rparr>" and ?b = "TransferInstanceMgr\<lparr>zi_zone := 2, zi_inst := 1\<rparr>"
  obtain m' h' where run: "TI_ConnectTransfers demo_orders demo_servers ?a nh_demo = (m', h')" by fastforce
  have "\<forall>c \<in> set demo_servers. id_small (server_id c)" "pair_ids_ok {} demo_servers" "iter_ok demo_orders"
    "demo_servers ! 0 \<in> set demo_servers" "zi_map ?a = []" "self_id ?a = server_id (demo_servers ! 0)"
    "demo_servers ! 1 \<in> set demo_servers" "zi_map ?b = []" "self_id ?b = server_id (demo_servers ! 1)"
    "server_id (demo_servers ! 0) \<noteq> server_id (demo_servers ! 1)"
    by (simp_all add: demo_servers_def demo_orders_def id_small_def server_id_def self_id_def iter_ok_def TransferInstanceMgr_def)
  from transfer_mesh [OF this run] have "h' = fold (\<lambda>c. nh_do (item_dial c)) (dials ?a demo_servers) nh_demo" by blast
  then have "nh_out h' = [OConnect ''b'' 1 3 1]"
    by (simp add: dials_def demo_servers_def ahead_def server_id_def self_id_def nh_do_def item_dial_def nh_demo_def Enum_ConnType_Transfer2_def)
  then show ?thesis using run by blast
qed

text \<open>The transfer server drops what transfer servers send each other to register: the requests and
  responses are among no command it processes, so a packet with one is only counted, no
  transaction runs and nothing is sent back.\<close>

theorem transfer_drops_registration:
  assumes "ctx_find (handle sd (ms_ptr msg) h) (nh_cont sd h) = Some x" "ms_type msg = M_SOCKET_DATA"
    and "ms_buf msg = af_msg f body" "cmd f \<in> {CMD_REGISETR_TRANSFER_REQ, CMD_REGISETR_TRANSFER_RSP}"
  shows "consum_one (transfer_cb P db z n) sd msg (h, s, p, m) =
    (let h2 = counted sd (ms_ptr msg) x h in Some (h2, s, p, m\<lparr>m_app := (m_app m)\<lparr>tf_nh := h2\<rparr>\<rparr>))"
proof -
  have "af_n2h (af_load (af_msg f body)) = f" "\<not> length (af_msg f body) < sizeof_app_frame" by (simp_all add: af_msg_def)
  moreover have "\<not> transfer_own (cmd f)"
    using assms(4) by (auto simp: transfer_own_def CMD_SOCKET_CLIENT_OUT_def CMD_SOCKET_CLIENT_IN_def CMD_REGISTER_SERVER_REQ_def
        CMD_REGISTER_SERVER_RSP_def CMD_SVR_HEATBEAT_def CMD_TRANSFER_HEATBEAT_def CMD_REGISETR_TRANSFER_REQ_def
        CMD_REGISETR_TRANSFER_RSP_def)
  ultimately show ?thesis
    using assms(1-3) by (simp add: consum_one_def OnData_def Let_def transfer_cb_def Transfer_OnProc_def the_app_def counted_def)
qed

definition demo_transfer :: transfer where
  "demo_transfer = \<lparr>tf_nh = nh_demo\<lparr>nh_tcp := [\<lparr>cx_fd = handle TcpSock 1 nh_demo, cx_msgcount = 0, cx_tt = 0, cx_ptr = 1\<rparr>]\<rparr>,
     tf_servers = TransferInstanceMgr, tf_routers = [], tf_users = [], tf_inst = 1, tf_zone = 1\<rparr>"

theorem transfer_drops_registration_witness:
  "\<exists>h2 p m2. consum_one (transfer_cb demo_protos (\<lambda>_. 0) SFault 0) TcpSock (demo_data (af_new\<lparr>cmd := 5\<rparr>) [7])
      (tf_nh demo_transfer, cos_new, tp_new 1 0, TransactionMgrImpl 0 demo_transfer) = Some (h2, cos_new, p, m2) \<and> nh_out h2 = []"
proof -
  let ?f = "af_new\<lparr>cmd := 5\<rparr>" and ?h = "tf_nh demo_transfer"
  let ?x = "\<lparr>cx_fd = handle TcpSock 1 nh_demo, cx_msgcount = 0, cx_tt = 0, cx_ptr = 1\<rparr>"
  have h: "ctx_find (handle TcpSock (ms_ptr (demo_data ?f [7])) ?h) (nh_cont TcpSock ?h) = Some ?x"
    by (simp add: ctx_find_def demo_transfer_def demo_data_def nh_cont_def handle_def)
  have d: "ms_type (demo_data ?f [7]) = M_SOCKET_DATA" "ms_buf (demo_data ?f [7]) = af_msg ?f [7]"
    "cmd ?f \<in> {CMD_REGISETR_TRANSFER_REQ, CMD_REGISETR_TRANSFER_RSP}"
    by (simp_all add: demo_data_def CMD_REGISETR_TRANSFER_REQ_def)
  show ?thesis
    using transfer_drops_registration [OF h d]
    by (simp add: Let_def counted_def nh_set_def demo_transfer_def nh_demo_def)
qed

end
