(* ===== verification/App_Loop.thy ===== *)
theory App_Loop
  imports Transfer_Svr
begin

text \<open>
  The main loop of a server, \<^verbatim>\<open>ApplicationBase::Run\<close> of
  \<^verbatim>\<open>commonlib/svr_base/ApplicationBaseExt.cpp\<close>, and the messages a server sends to itself
  (\<^verbatim>\<open>SendMsgToSelf\<close>).  The virtual functions of the server are a record of functions;
  the three servers fill it in.
\<close>

subsection \<open>A server\<close>

text \<open>\<^typ>\<open>'a\<close> is everything of the server but its transactions, \<^typ>\<open>'c\<close> what the configuration files hold
  at a reload.\<close>

record ('a, 'c) app_ops =
  op_nh :: "'a \<Rightarrow> nh"
  op_set_nh :: "nh \<Rightarrow> 'a \<Rightarrow> 'a"
  op_OnTick :: "nat \<Rightarrow> 'a \<Rightarrow> 'a mem"
  op_OnReload :: "'c \<Rightarrow> 'a \<Rightarrow> int \<times> 'a"
  op_UpdateNetWork :: "'a tstate \<Rightarrow> (int \<times> 'a tstate) mem"
  op_slice :: "(tk, 'a tworld) slice"
  op_type :: u32
  op_inst :: "'a \<Rightarrow> u32"
  op_zone :: "'a \<Rightarrow> u32"
  op_UseAsyncMysql :: bool
  op_UseAsyncRedis :: bool

text \<open>The queue of messages to itself holds frames and the bytes behind them; \<^verbatim>\<open>ap_sleeps\<close> counts the
  calls of \<^verbatim>\<open>Sleep(1)\<close>.\<close>

record 'a app =
  ap_tm :: "'a tstate"
  ap_now :: int
  ap_ticks :: nat
  ap_self :: "(app_frame \<times> byte list) list"
  ap_idle :: int
  ap_sleeps :: nat

text \<open>What a round of the loop meets: the clock, what the network threads have done meanwhile, the
  configuration when there is a \<^verbatim>\<open>_reload_\<close> file, and the results of the databases.\<close>

record 'c round =
  rd_now :: int
  rd_net :: "nh \<Rightarrow> nh"
  rd_reload :: "'c option"
  rd_mysql :: "mysql_rsp option"
  rd_redis :: "redis_rsp option"


subsection \<open>\<^verbatim>\<open>SendMsgToSelf\<close>\<close>

text \<open>\<^verbatim>\<open>stale\<close> is what the recycled buffer still holds.  The zones, the destination and the random
  number of its frame stay; a message that does not fit is not written at all, but its
  length is announced.\<close>

definition SelfMsg_len :: nat where "SelfMsg_len = 4 * 1024"

definition SendMsgToSelf :: "u32 \<Rightarrow> u32 \<Rightarrow> u32 \<Rightarrow> u64 \<Rightarrow> byte list \<Rightarrow> app_frame \<times> byte list \<Rightarrow> 'a app \<Rightarrow> 'a app" where
  "SendMsgToSelf ty inst c uid msg stale st =
     (let f = (fst stale)\<lparr>is_broadcast := 0, src_svr_type := ty, dst_svr_type := ty, src_inst_id := inst,
                src_trans_id := 0, dst_trans_id := 0, cmd := c, cmd_length := word_of_nat (length msg), userid := uid\<rparr>;
          body = (if length msg \<le> SelfMsg_len - sizeof_app_frame then msg @ drop (length msg) (snd stale) else snd stale)
      in st\<lparr>ap_self := ap_self st @ [(f, body)]\<rparr>)"

subsection \<open>\<^verbatim>\<open>Run\<close>\<close>

text \<open>Every 10 ms: the clock of the server and of its network bridge, \<^verbatim>\<open>OnTick\<close>, and \<^verbatim>\<open>CheckReload\<close>, which
  looks for the file every three seconds.\<close>

definition CheckReload :: "nat \<Rightarrow> 'c round \<Rightarrow> 'c option" where
  "CheckReload ticks i = (if ticks mod (100 * 3) = 0 then rd_reload i else None)"

definition set_clock :: "('a, 'c) app_ops \<Rightarrow> int \<Rightarrow> 'a \<Rightarrow> 'a" where
  "set_clock ops t x = op_set_nh ops ((op_nh ops x)\<lparr>nh_now := t div 1000\<rparr>) x"

definition app_tick :: "('a, 'c) app_ops \<Rightarrow> 'c round \<Rightarrow> 'a app \<Rightarrow> 'a app mem" where
  "app_tick ops i st =
     (if rd_now i - ap_now st \<ge> 10 then
        let ticks = ap_ticks st + 1;
            onreload = (case CheckReload ticks i of None \<Rightarrow> id | Some c \<Rightarrow> (\<lambda>x. snd (op_OnReload ops c x)))
        in map_option (\<lambda>sw. st\<lparr>ap_tm := sw, ap_now := rd_now i, ap_ticks := ticks\<rparr>)
             (with_app (\<lambda>x. map_option onreload (op_OnTick ops ticks (set_clock ops (rd_now i) x))) (ap_tm st))
      else Some st)"

definition app_mysql :: "('a, 'c) app_ops \<Rightarrow> 'c round \<Rightarrow> 'a tstate \<Rightarrow> 'a tstate mem" where
  "app_mysql ops i sw =
     (if op_UseAsyncMysql ops then (case rd_mysql i of None \<Rightarrow> Some sw | Some r \<Rightarrow> TM_ProcessMysqlRsp (op_slice ops) r sw)
      else Some sw)"

definition app_redis :: "('a, 'c) app_ops \<Rightarrow> 'c round \<Rightarrow> 'a tstate \<Rightarrow> 'a tstate mem" where
  "app_redis ops i sw =
     (if op_UseAsyncRedis ops then (case rd_redis i of None \<Rightarrow> Some sw | Some r \<Rightarrow> TM_ProcessRedisRsp (op_slice ops) r sw)
      else Some sw)"

primrec app_self_loop :: "('a, 'c) app_ops \<Rightarrow> (app_frame \<times> byte list) list \<Rightarrow> 'a tstate \<Rightarrow> 'a tstate mem" where
  "app_self_loop ops [] sw = Some sw"
| "app_self_loop ops (x # xs) sw =
     Option.bind (TM_ProcessFrame (op_slice ops) 0 (op_type ops) (op_inst ops (the_app sw)) (op_zone ops (the_app sw))
         (fst x) (snd x) sw)
       (\<lambda>(_, sw2). app_self_loop ops xs sw2)"

definition app_idle :: "('a, 'c) app_ops \<Rightarrow> 'c round \<Rightarrow> int \<Rightarrow> 'a app \<Rightarrow> bool" where
  "app_idle ops i net st \<longleftrightarrow> net \<noteq> 0 \<and> \<not> (op_UseAsyncMysql ops \<and> rd_mysql i \<noteq> None)
     \<and> \<not> (op_UseAsyncRedis ops \<and> rd_redis i \<noteq> None) \<and> ap_self st = []"

definition app_rest :: "bool \<Rightarrow> 'a app \<Rightarrow> 'a app" where
  "app_rest is_idle st =
     (let n = (if is_idle then ap_idle st + 1 else ap_idle st)
      in if n \<ge> 100 then st\<lparr>ap_idle := 0, ap_sleeps := ap_sleeps st + 1\<rparr> else st\<lparr>ap_idle := n\<rparr>)"

text \<open>One round; the operating system's clock stands still in it.\<close>

definition app_meet :: "('a, 'c) app_ops \<Rightarrow> 'c round \<Rightarrow> 'a app \<Rightarrow> 'a app" where
  "app_meet ops i st =
     (case ap_tm st of (s, p, m) \<Rightarrow>
        st\<lparr>ap_tm := (s, p, m\<lparr>m_now := rd_now i, m_app := op_set_nh ops (rd_net i (op_nh ops (m_app m))) (m_app m)\<rparr>)\<rparr>)"

definition app_round :: "('a, 'c) app_ops \<Rightarrow> 'c round \<Rightarrow> 'a app \<Rightarrow> 'a app mem" where
  "app_round ops i st =
     Option.bind (app_tick ops i (app_meet ops i st)) (\<lambda>st1.
       Option.bind (TM_Update (op_slice ops) (ap_now st1) (ap_tm st1)) (\<lambda>sw2.
         Option.bind (op_UpdateNetWork ops sw2) (\<lambda>(net, sw3).
           Option.bind (app_mysql ops i sw3) (\<lambda>sw4.
             Option.bind (app_redis ops i sw4) (\<lambda>sw5.
               map_option (\<lambda>sw6. app_rest (app_idle ops i net st1) (st1\<lparr>ap_tm := sw6, ap_self := []\<rparr>))
                 (app_self_loop ops (ap_self st1) sw5))))))"

primrec app_run :: "('a, 'c) app_ops \<Rightarrow> 'c round list \<Rightarrow> 'a app \<Rightarrow> 'a app mem" where
  "app_run ops [] st = Some st"
| "app_run ops (i # is) st = Option.bind (app_round ops i st) (app_run ops is)"

subsection \<open>The three servers\<close>

definition router_ops :: "protos \<Rightarrow> (out \<Rightarrow> int) \<Rightarrow> script \<Rightarrow> nat
    \<Rightarrow> (router, (string \<Rightarrow> cfg_item list option) \<times> bool \<times> u32 \<times> u32 \<times> (u32 \<times> u32) list) app_ops" where
  "router_ops P db z n =
     \<lparr>op_nh = rt_nh, op_set_nh = (\<lambda>h x. x\<lparr>rt_nh := h\<rparr>), op_OnTick = Router_OnTick P,
      op_OnReload = (\<lambda>c. Router_OnReload (fst c) (snd c)), op_UpdateNetWork = Router_UpdateNetWork P db z n,
      op_slice = router_slice P db z n, op_type = SVR_TYPE_ROUTER, op_inst = rt_inst, op_zone = rt_zone,
      op_UseAsyncMysql = False, op_UseAsyncRedis = False\<rparr>"

definition Conn_UpdateNetWork :: "protos \<Rightarrow> (out \<Rightarrow> int) \<Rightarrow> script \<Rightarrow> nat \<Rightarrow> conn tstate \<Rightarrow> (int \<times> conn tstate) mem" where
  "Conn_UpdateNetWork P db z n sw =
     map_option (\<lambda>(r, h, s, p, m). (r, s, p, m\<lparr>m_app := (m_app m)\<lparr>cn_nh := h\<rparr>\<rparr>))
       (nh_Update (conn_cb P db z n) (cn_nh (the_app sw), sw))"

definition conn_ops :: "protos \<Rightarrow> (out \<Rightarrow> int) \<Rightarrow> script \<Rightarrow> nat
    \<Rightarrow> (conn, (string \<Rightarrow> cfg_item list option) \<times> bool \<times> u32 \<times> u32) app_ops" where
  "conn_ops P db z n =
     \<lparr>op_nh = cn_nh, op_set_nh = (\<lambda>h x. x\<lparr>cn_nh := h\<rparr>), op_OnTick = Conn_OnTick P,
      op_OnReload = (\<lambda>c. Conn_OnReload (fst c) (snd c)), op_UpdateNetWork = Conn_UpdateNetWork P db z n,
      op_slice = conn_slice P db z n, op_type = SVR_TYPE_CONN, op_inst = cn_inst, op_zone = cn_zone,
      op_UseAsyncMysql = False, op_UseAsyncRedis = False\<rparr>"

definition Transfer_UpdateNetWork :: "protos \<Rightarrow> (out \<Rightarrow> int) \<Rightarrow> script \<Rightarrow> nat \<Rightarrow> transfer tstate
    \<Rightarrow> (int \<times> transfer tstate) mem" where
  "Transfer_UpdateNetWork P db z n sw =
     map_option (\<lambda>(r, h, s, p, m). (r, s, p, m\<lparr>m_app := (m_app m)\<lparr>tf_nh := h\<rparr>\<rparr>))
       (nh_Update (transfer_cb P db z n) (tf_nh (the_app sw), sw))"

definition transfer_ops :: "iter_orders \<Rightarrow> protos \<Rightarrow> (out \<Rightarrow> int) \<Rightarrow> script \<Rightarrow> nat
    \<Rightarrow> (transfer, (string \<Rightarrow> cfg_item list option) \<times> bool \<times> u32 \<times> u32) app_ops" where
  "transfer_ops ord P db z n =
     \<lparr>op_nh = tf_nh, op_set_nh = (\<lambda>h x. x\<lparr>tf_nh := h\<rparr>), op_OnTick = Transfer_OnTick P,
      op_OnReload = (\<lambda>c. Transfer_OnReload ord (fst c) (snd c)), op_UpdateNetWork = Transfer_UpdateNetWork P db z n,
      op_slice = transfer_slice P db z n, op_type = SVR_TYPE_TRANSFER, op_inst = tf_inst, op_zone = tf_zone,
      op_UseAsyncMysql = False, op_UseAsyncRedis = False\<rparr>"

end
