(* ===== verification/App_Props.thy ===== *)
theory App_Props
  imports App_Loop Transfer_Props Transaction_Ids
begin

text \<open>
  The properties of whole servers: the main loop keeps the invariant of the transaction
  manager whatever its peers send, and it never sleeps while nothing happens.
\<close>

subsection \<open>The bridge and the transaction manager\<close>

lemma server_ok_mono: "\<lbrakk>server_ok k sw; k \<le> l\<rbrakk> \<Longrightarrow> server_ok l sw"
  using gen_ok_mono by (auto simp: server_ok_def)

text \<open>An application whose callback runs at most one frame through the manager.\<close>

locale frame_app = net_app cb for cb :: "'a tstate net_cb" +
  assumes cb_server: "\<lbrakk>cb c (h, w) = Some (h2, w2); server_ok k w; k < 2 ^ 32 - 1\<rbrakk> \<Longrightarrow> server_ok (k + 1) w2"
begin

lemma consum_one_server:
  assumes "consum_one cb sd x (h, w) = Some (h2, w2)" "server_ok k w" "k < 2 ^ 32 - 1"
  shows "server_ok (k + 1) w2"
proof -
  have "w2 = w \<or> (\<exists>c g g2. cb c (g, w) = Some (g2, w2))"
    using assms(1)
    by (auto simp: consum_one_def OnData_def OnConnection_def OnDisConnection_def Let_def
        split: if_splits option.splits prod.splits bool.splits)
  then show ?thesis
  proof (elim disjE exE)
    fix c g g2 assume "cb c (g, w) = Some (g2, w2)"
    then show ?thesis by (rule cb_server [OF _ assms(2,3)])
  qed (use server_ok_mono [OF assms(2), of "k + 1"] in simp)
qed

lemma consum_all_server:
  "\<lbrakk>consum_all cb sd xs (h, w) = Some (h2, w2); server_ok k w; k + length xs < 2 ^ 32\<rbrakk> \<Longrightarrow> server_ok (k + length xs) w2"
proof (induction xs arbitrary: h w k)
  case (Cons x xs)
  obtain h1 w1 where s: "consum_one cb sd x (h, w) = Some (h1, w1)" "consum_all cb sd xs (h1, w1) = Some (h2, w2)"
    using Cons.prems(1) by (auto simp: bind_eq_Some_conv)
  have "server_ok (k + 1) w1" using consum_one_server [OF s(1) Cons.prems(2)] Cons.prems(3) by simp
  then show ?case using Cons.IH [OF s(2), of "k + 1"] Cons.prems(3) by simp
qed simp

lemma cb_queue: "cb c (h, w) = Some (h2, w2) \<Longrightarrow> nh_tcp_msgs h2 = nh_tcp_msgs h"
  using cb_keeps by (simp add: keeps_def)

lemma nh_Update_server:
  assumes run: "nh_Update cb (h, w) = Some (r, h2, w2)" and ok: "server_ok k w"
    and room: "k + (length (nh_con_msgs h) + length (nh_tcp_msgs h)) < 2 ^ 32"
  shows "server_ok (k + (length (nh_con_msgs h) + length (nh_tcp_msgs h))) w2"
proof -
  obtain r1 h1 w1 r2 where u: "consum cb TcpConn (h, w) = Some (r1, h1, w1)" "consum cb TcpSock (h1, w1) = Some (r2, h2, w2)"
    using run by (auto simp: nh_Update_def ConsumTcpConnectorMsg_def ConsumTcpSocketMsg_def bind_eq_Some_conv)
  have q: "nh_tcp_msgs h1 = nh_tcp_msgs h"
    using u(1) consum_all_keeps_msgs [of cb, OF cb_queue]
    by (fastforce simp: consum_def nh_set_msgs_def split: if_splits)
  have "server_ok (k + length (nh_con_msgs h)) w1"
    using u(1) consum_all_server [of TcpConn "nh_con_msgs h" _ w h1 w1 k] ok room
    by (auto simp: consum_def nh_msgs_def split: if_splits)
  then show ?thesis
    using u(2) consum_all_server [of TcpSock "nh_tcp_msgs h" _ w1 h2 w2 "k + length (nh_con_msgs h)"] room
    by (auto simp: consum_def nh_msgs_def q add.assoc split: if_splits)
qed

end

lemma nh_Update_quiet:
  "\<lbrakk>nh_Update cb (h, w) = Some (r, h2, w2); nh_con_msgs h = []; nh_tcp_msgs h = []\<rbrakk> \<Longrightarrow> r = 0 \<and> h2 = h \<and> w2 = w"
  by (auto simp: nh_Update_def ConsumTcpConnectorMsg_def ConsumTcpSocketMsg_def consum_def nh_msgs_def)

subsection \<open>A server in its main loop\<close>

definition queued :: "nh \<Rightarrow> nat" where
  "queued h = length (nh_con_msgs h) + length (nh_tcp_msgs h)"

lemma queued_keeps: "keeps h h2 \<Longrightarrow> queued h2 = queued h"
  by (simp add: keeps_def queued_def)

text \<open>The messages a round handles, and a run.\<close>

definition round_frames :: "('a, 'c) app_ops \<Rightarrow> 'c round \<Rightarrow> 'a app \<Rightarrow> nat" where
  "round_frames ops i st = queued (rd_net i (op_nh ops (the_app (ap_tm st)))) + length (ap_self st)"

primrec run_frames :: "('a, 'c) app_ops \<Rightarrow> 'c round list \<Rightarrow> 'a app \<Rightarrow> nat" where
  "run_frames ops [] st = 0"
| "run_frames ops (i # is) st =
     round_frames ops i st + (case app_round ops i st of None \<Rightarrow> 0 | Some st2 \<Rightarrow> run_frames ops is st2)"

locale server =
  fixes ops :: "('a, 'c) app_ops" and env :: "'a call_env" and behave :: "u32 \<Rightarrow> script"
  assumes slice: "op_slice ops = trans_slice env behave"
    and get_set: "op_nh ops (op_set_nh ops h x) = h"
    and calls: "env c x = Some (y, r) \<Longrightarrow> queued (op_nh ops y) = queued (op_nh ops x)"
    and tick: "op_OnTick ops n x = Some y \<Longrightarrow> queued (op_nh ops y) = queued (op_nh ops x)"
    and reload: "op_OnReload ops conf x = (ret, y) \<Longrightarrow> queued (op_nh ops y) = queued (op_nh ops x)"
    and update: "\<lbrakk>op_UpdateNetWork ops sw = Some (ret, sw2); server_ok k sw; k + queued (op_nh ops (the_app sw)) < 2 ^ 32\<rbrakk>
      \<Longrightarrow> server_ok (k + queued (op_nh ops (the_app sw))) sw2"
    and update_quiet: "\<lbrakk>op_UpdateNetWork ops sw = Some (ret, sw2); queued (op_nh ops (the_app sw)) = 0\<rbrakk>
      \<Longrightarrow> ret = 0 \<and> queued (op_nh ops (the_app sw2)) = 0"

sublocale server \<subseteq> app_rel env "\<lambda>x y. queued (op_nh ops y) = queued (op_nh ops x)"
  by unfold_locales (auto simp: calls)

context server
begin

lemma tick_ok:
  assumes "app_tick ops i st = Some st1" "server_ok k (ap_tm st)"
  shows "server_ok k (ap_tm st1)" "queued (op_nh ops (the_app (ap_tm st1))) = queued (op_nh ops (the_app (ap_tm st)))"
    "ap_self st1 = ap_self st" "ap_idle st1 = ap_idle st" "ap_sleeps st1 = ap_sleeps st"
proof -
  obtain s p m where sw: "ap_tm st = (s, p, m)" by (metis prod_cases3)
  have q: "queued (op_nh ops (set_clock ops t x)) = queued (op_nh ops x)" for t x
    by (simp add: set_clock_def get_set queued_def)
  have rl: "queued (op_nh ops ((case CheckReload n i of None \<Rightarrow> id | Some c \<Rightarrow> \<lambda>x. snd (op_OnReload ops c x)) x)) = queued (op_nh ops x)" for n x
    using reload [OF prod.collapse [symmetric]] by (simp split: option.splits)
  show "server_ok k (ap_tm st1)" "queued (op_nh ops (the_app (ap_tm st1))) = queued (op_nh ops (the_app (ap_tm st)))"
    "ap_self st1 = ap_self st" "ap_idle st1 = ap_idle st" "ap_sleeps st1 = ap_sleeps st"
    using assms sw
    by (auto simp: app_tick_def Let_def with_app_def the_app_def rl q dest!: tick split: if_splits)
qed

lemma self_loop_ok:
  assumes "app_self_loop ops xs sw = Some sw2" "server_ok k sw" "k + length xs < 2 ^ 32"
  shows "server_ok (k + length xs) sw2 \<and> queued (op_nh ops (the_app sw2)) = queued (op_nh ops (the_app sw))"
  using assms
proof (induction xs arbitrary: sw k)
  case (Cons x xs)
  obtain r sw1 where s: "TM_ProcessFrame (trans_slice env behave) 0 (op_type ops) (op_inst ops (the_app sw)) (op_zone ops (the_app sw))
      (fst x) (snd x) sw = Some (r, sw1)" "app_self_loop ops xs sw1 = Some sw2"
    using Cons.prems(1) by (auto simp: bind_eq_Some_conv slice)
  have "server_ok (k + 1) sw1" using ProcessFrame_server [OF Cons.prems(2) s(1)] Cons.prems(3) by simp
  moreover have "queued (op_nh ops (the_app sw1)) = queued (op_nh ops (the_app sw))"
    using ProcessFrame_app s(1) by (cases sw) (fastforce simp: QS_def the_app_def)
  ultimately show ?case using Cons.IH [OF s(2), of "k + 1"] Cons.prems(3) by simp
qed simp

lemma dbs_ok:
  "\<lbrakk>app_mysql ops i sw = Some sw2; server_ok k sw\<rbrakk> \<Longrightarrow> server_ok k sw2"
  "\<lbrakk>app_redis ops i sw = Some sw2; server_ok k sw\<rbrakk> \<Longrightarrow> server_ok k sw2"
  by (auto simp: app_mysql_def app_redis_def slice split: if_splits option.splits intro: rsp_server(1,2))

lemma meet_ok:
  "server_ok k (ap_tm (app_meet ops i st)) = server_ok k (ap_tm st)"
  "queued (op_nh ops (the_app (ap_tm (app_meet ops i st)))) = queued (rd_net i (op_nh ops (the_app (ap_tm st))))"
  "ap_self (app_meet ops i st) = ap_self st" "ap_idle (app_meet ops i st) = ap_idle st"
  "ap_sleeps (app_meet ops i st) = ap_sleeps st"
proof -
  obtain s p m where sw: "ap_tm st = (s, p, m)" by (metis prod_cases3)
  have "server_ok k (s, p, m\<lparr>m_now := t, m_app := x\<rparr>) = server_ok k (s, p, m)" for t x
    by simp
  then show "server_ok k (ap_tm (app_meet ops i st)) = server_ok k (ap_tm st)"
    "queued (op_nh ops (the_app (ap_tm (app_meet ops i st)))) = queued (rd_net i (op_nh ops (the_app (ap_tm st))))"
    "ap_self (app_meet ops i st) = ap_self st" "ap_idle (app_meet ops i st) = ap_idle st"
    "ap_sleeps (app_meet ops i st) = ap_sleeps st"
    using sw by (simp_all add: app_meet_def the_app_def get_set)
qed

text \<open>One round, cut into its steps.\<close>

lemma round_steps:
  assumes "app_round ops i st = Some st2" "server_ok k (ap_tm st)" "k + round_frames ops i st < 2 ^ 32"
  shows "server_ok (k + round_frames ops i st) (ap_tm st2) \<and> ap_self st2 = []
    \<and> (round_frames ops i st = 0 \<longrightarrow> ap_idle st < 100 \<longrightarrow> ap_idle st2 = ap_idle st \<and> ap_sleeps st2 = ap_sleeps st)"
proof -
  obtain st1 sw2 net sw3 sw4 sw5 sw6 where s: "app_tick ops i (app_meet ops i st) = Some st1"
      "TM_Update (trans_slice env behave) (ap_now st1) (ap_tm st1) = Some sw2" "op_UpdateNetWork ops sw2 = Some (net, sw3)"
      "app_mysql ops i sw3 = Some sw4" "app_redis ops i sw4 = Some sw5" "app_self_loop ops (ap_self st1) sw5 = Some sw6"
      "st2 = app_rest (app_idle ops i net st1) (st1\<lparr>ap_tm := sw6, ap_self := []\<rparr>)"
    using assms(1) by (auto simp: app_round_def bind_eq_Some_conv slice)
  note t = tick_ok [OF s(1), unfolded meet_ok, OF assms(2)]
  have k2: "server_ok k sw2" by (rule rsp_server(3) [OF t(1) s(2)])
  have q2: "queued (op_nh ops (the_app sw2)) = queued (rd_net i (op_nh ops (the_app (ap_tm st))))"
    using Update_app s(2) t(2) by (cases sw2; cases "ap_tm st1") (fastforce simp: the_app_def)
  have f: "round_frames ops i st = queued (op_nh ops (the_app sw2)) + length (ap_self st1)"
    using q2 t(3) by (simp add: round_frames_def)
  have k3: "server_ok (k + queued (op_nh ops (the_app sw2))) sw3"
    using update [OF s(3) k2] assms(3) f by simp
  have k5: "server_ok (k + queued (op_nh ops (the_app sw2))) sw5" by (rule dbs_ok(2) [OF s(5) dbs_ok(1) [OF s(4) k3]])
  have k6: "server_ok (k + round_frames ops i st) sw6"
    using self_loop_ok [OF s(6) k5] assms(3) f by (simp add: add.assoc)
  moreover have "ap_tm st2 = sw6" "ap_self st2 = []" unfolding s(7) app_rest_def by (simp_all add: Let_def)
  moreover have "ap_idle st2 = ap_idle st \<and> ap_sleeps st2 = ap_sleeps st" if "round_frames ops i st = 0" "ap_idle st < 100"
  proof -
    have "net = 0" using update_quiet [OF s(3)] f that(1) by simp
    then show ?thesis unfolding s(7) app_rest_def app_idle_def using t(4,5) that(2) by (simp add: Let_def)
  qed
  ultimately show ?thesis by simp
qed

lemma run_ok:
  "\<lbrakk>app_run ops is st = Some st2; server_ok k (ap_tm st); k + run_frames ops is st < 2 ^ 32\<rbrakk>
    \<Longrightarrow> server_ok (k + run_frames ops is st) (ap_tm st2)"
proof (induction "is" arbitrary: st k)
  case (Cons i "is")
  obtain st1 where s: "app_round ops i st = Some st1" "app_run ops is st1 = Some st2"
    using Cons.prems(1) by (auto simp: bind_eq_Some_conv)
  have "server_ok (k + round_frames ops i st) (ap_tm st1)"
    using round_steps [OF s(1) Cons.prems(2)] Cons.prems(3) s(1) by simp
  then show ?case using Cons.IH [OF s(2), of "k + round_frames ops i st"] Cons.prems(3) s(1) by (simp add: add.assoc)
qed simp

lemma quiet_run:
  "\<lbrakk>app_run ops is st = Some st2; server_ok k (ap_tm st); k < 2 ^ 32; run_frames ops is st = 0; ap_idle st < 100\<rbrakk>
    \<Longrightarrow> ap_sleeps st2 = ap_sleeps st"
proof (induction "is" arbitrary: st)
  case (Cons i "is")
  obtain st1 where s: "app_round ops i st = Some st1" "app_run ops is st1 = Some st2"
    using Cons.prems(1) by (auto simp: bind_eq_Some_conv)
  have r: "round_frames ops i st = 0" "run_frames ops is st1 = 0" using Cons.prems(4) s(1) by simp_all
  have "server_ok k (ap_tm st1)" "ap_idle st1 = ap_idle st" "ap_sleeps st1 = ap_sleeps st"
    using round_steps [OF s(1) Cons.prems(2)] r(1) Cons.prems(3,5) by simp_all
  then show ?case using Cons.IH [OF s(2)] r(2) Cons.prems(3,5) by simp
qed simp

end

text \<open>A server behind \<^verbatim>\<open>Init\<close>: its transactions are registered, the loop is about to start.\<close>

definition app_start :: "u32 list \<Rightarrow> int \<Rightarrow> int \<Rightarrow> 'a \<Rightarrow> 'a app" where
  "app_start cs mx now x = \<lparr>ap_tm = tm_start cs mx now x, ap_now = now, ap_ticks = 0, ap_self = [], ap_idle = 0, ap_sleeps = 0\<rparr>"

lemma tm_start_server:
  assumes "0 \<le> mx + 1"
  shows "server_ok 1 (tm_start cs mx now x)"
proof -
  have "gen_ok 1 (snd (snd (tm_start cs mx now x)))"
  proof (induction cs)
    case Nil
    then show ?case by (simp add: tm_start_def TM_Init_def TransactionMgrImpl_def gen_ok_def trans_blank_def Construct_def)
  next
    case (Cons c cs)
    then show ?case by (simp add: tm_start_def TM_RegisterTransaction_def gen_ok_def split: option.splits)
  qed
  then show ?thesis using tm_start_ok [OF assms, of cs now x] by (simp add: server_ok_def)
qed

definition trans_consistent :: "'a tstate \<Rightarrow> bool" where
  "trans_consistent sw \<longleftrightarrow> (case sw of (s, p, m) \<Rightarrow>
     (\<forall>i a. m_active m i = Some a \<longrightarrow> t_trans_id (m_obj m a) = i \<and> (\<exists>c. susp s (t_co_id (m_obj m a)) = Some (TWait a c)))
     \<and> (\<forall>co k. susp s co = Some k \<longrightarrow> (\<exists>a c. k = TWait a c \<and> m_active m (t_trans_id (m_obj m a)) = Some a
         \<and> t_co_id (m_obj m a) = co))
     \<and> (\<forall>c l a. m_bucket m c = Some l \<longrightarrow> a \<in> set l \<longrightarrow> a \<notin> ran (m_active m))
     \<and> TM_GetActiveTransCnt m \<le> m_max m + 1)"

lemma server_consistent: "server_ok k sw \<Longrightarrow> trans_consistent sw"
proof -
  obtain s p m where sw: "sw = (s, p, m)" by (metis prod_cases3)
  assume "server_ok k sw"
  then have "trans_inv (susp s) m" using sw by (simp add: server_ok_def trans_ok_def)
  then show ?thesis unfolding sw trans_consistent_def prod.case trans_inv_def act_ok_def task_ok_def free_ok_def by blast
qed

context server
begin

lemma run_start:
  assumes "0 \<le> mx + 1"
  shows "app_run ops is (app_start cs mx now x) = Some st \<and> run_frames ops is (app_start cs mx now x) < 2 ^ 32 - 1
    \<longrightarrow> trans_consistent (ap_tm st)"
proof (intro impI, elim conjE)
  assume "app_run ops is (app_start cs mx now x) = Some st" "run_frames ops is (app_start cs mx now x) < 2 ^ 32 - 1"
  then have "server_ok (1 + run_frames ops is (app_start cs mx now x)) (ap_tm st)"
    using tm_start_server [OF assms, of cs now x] by (intro run_ok) (simp_all add: app_start_def)
  then show "trans_consistent (ap_tm st)" by (rule server_consistent)
qed

lemma quiet_start:
  assumes "0 \<le> mx + 1"
  shows "app_run ops is (app_start cs mx now x) = Some st \<and> run_frames ops is (app_start cs mx now x) = 0
    \<longrightarrow> ap_sleeps st = 0"
  using quiet_run [of "is" "app_start cs mx now x" st 1] tm_start_server [OF assms, of cs now x] by (simp add: app_start_def)

end

subsection \<open>The three servers\<close>

lemma keeps_then [simp]: "keeps h b \<Longrightarrow> keeps h (nh_do x b)" "keeps h b \<Longrightarrow> keeps h (CloseFd fd b)"
  using keeps_trans keeps_do CloseFd_keeps by blast+

lemma connect_new_keeps: "keeps h (snd th) \<Longrightarrow> keeps h (snd (connect_new ty m cs th))"
  by (induction ty m cs th rule: connect_new.induct) simp_all

lemma close_old_keeps: "keeps h (snd th) \<Longrightarrow> keeps h (snd (close_old items ls th))"
  by (induction items ls th rule: close_old.induct) simp_all

lemma connect_links_keeps: "keeps h (snd (connect_links ty items m h))"
  unfolding connect_links_def using close_old_keeps [OF connect_new_keeps [of h "([], h)" ty m items]]
  by (simp add: split_beta)

lemma reload_keeps: "(\<And>items. keeps h (snd (connect items m h))) \<Longrightarrow> keeps h (snd (snd (reload_with connect parse m h)))"
  by (simp add: reload_with_def split: option.splits)

lemma links_reload_keeps: "keeps h (snd (snd (RM_Reload parse rm h)))" "keeps h (snd (snd (TR_Reload parse tr h)))"
  unfolding RM_Reload_def TR_Reload_def ConnectRouters_def ConnectTransfers_def
  by (rule reload_keeps, rule connect_links_keeps)+

lemma ti_new_keeps: "keeps h (snd th) \<Longrightarrow> keeps h (snd (ti_new m cs th))"
  by (induction m cs th rule: ti_new.induct) (simp_all add: Let_def)

lemma ti_old_keeps: "keeps h (snd th) \<Longrightarrow> keeps h (snd (ti_old items xs th))"
  by (induction items xs th rule: ti_old.induct) simp_all

lemma TI_Reload_keeps: "keeps h (snd (snd (TI_Reload ord parse m h)))"
  using ti_old_keeps [OF ti_new_keeps [of h "([], h)" m]]
  by (simp add: TI_Reload_def TI_ConnectTransfers_def Let_def split_beta split: option.splits)

lemma RM_tick_keeps: "RM_tick_links msg ls m h = Some h2 \<Longrightarrow> keeps h h2"
  by (induction msg ls m h rule: RM_tick_links.induct)
    (simp, fastforce simp: bind_eq_Some_conv intro: keeps_trans dest: RM_SendMsgByFd_keeps)

lemma TR_tick_keeps: "TR_tick_links msg ls m h = Some (m2, h2) \<Longrightarrow> keeps h h2"
  by (induction msg ls m h rule: TR_tick_links.induct)
    (simp, fastforce simp: bind_eq_Some_conv intro: keeps_trans dest: TR_Send_keeps)

lemma TI_tick_keeps: "TI_tick_infos msg xs m h = Some (m2, h2) \<Longrightarrow> keeps h h2"
  by (induction msg xs m h rule: TI_tick_infos.induct)
    (simp, fastforce simp: bind_eq_Some_conv intro: keeps_trans dest: TI_Send_keeps split: if_splits)

lemma expire_queued [simp]: "queued (CheckTcpSocketExpire h) = queued h"
proof -
  have "queued (expire_walk now cs g) = queued g" for now cs g
    by (induction now cs g rule: expire_walk.induct) (simp_all add: queued_def nh_do_def)
  then show ?thesis by (simp add: CheckTcpSocketExpire_def Let_def queued_def)
qed

subsubsection \<open>Their callbacks\<close>

lemma own_server:
  assumes "map_option snd (TM_ProcessFrame (trans_slice env behave) fd ty inst zone f d (s, p, m\<lparr>m_app := x\<rparr>)) = Some w2"
    and "server_ok k (s, p, m)" "k < 2 ^ 32 - 1"
  shows "server_ok (k + 1) w2"
  using assms ProcessFrame_server [of k "(s, p, m\<lparr>m_app := x\<rparr>)" env behave fd ty inst zone f d _ w2] by auto

lemma router_cb_server:
  assumes "router_cb P db z n c (h, w) = Some (h2, w2)" "server_ok k w" "k < 2 ^ 32 - 1"
  shows "server_ok (k + 1) w2"
proof -
  obtain s p m where w: "w = (s, p, m)" by (metis prod_cases3)
  let ?x = "(m_app m)\<lparr>rt_nh := h\<rparr>"
  have run: "Router_OnProc (router_slice P db z n) c (s, p, m\<lparr>m_app := ?x\<rparr>) = Some w2"
    using assms(1) w by (auto simp: router_cb_def)
  show ?thesis
  proof (cases "router_own (cmd (nc_frame c))")
    case True
    then show ?thesis using run own_server assms(2,3) w by (simp add: Router_OnProc_def router_slice_def)
  next
    case False
    then have "server_ok k w2" using run assms(2) w by (auto simp: Router_OnProc_def with_app_def)
    then show ?thesis by (rule server_ok_mono) simp
  qed
qed

lemma conn_cb_server:
  assumes "conn_cb P db z n c (h, w) = Some (h2, w2)" "server_ok k w" "k < 2 ^ 32 - 1"
  shows "server_ok (k + 1) w2"
proof -
  obtain s p m where w: "w = (s, p, m)" by (metis prod_cases3)
  have "Conn_OnProc (conn_slice P db z n) c (s, p, m\<lparr>m_app := (m_app m)\<lparr>cn_nh := h\<rparr>\<rparr>) = Some w2"
    using assms(1) w by (auto simp: conn_cb_def)
  then show ?thesis using own_server assms(2,3) w by (simp add: Conn_OnProc_def conn_slice_def)
qed

lemma transfer_cb_server:
  assumes "transfer_cb P db z n c (h, w) = Some (h2, w2)" "server_ok k w" "k < 2 ^ 32 - 1"
  shows "server_ok (k + 1) w2"
proof -
  obtain s p m where w: "w = (s, p, m)" by (metis prod_cases3)
  have run: "Transfer_OnProc (transfer_slice P db z n) c (s, p, m\<lparr>m_app := (m_app m)\<lparr>tf_nh := h\<rparr>\<rparr>) = Some w2"
    using assms(1) w by (auto simp: transfer_cb_def)
  show ?thesis
  proof (cases "transfer_own (cmd (nc_frame c))")
    case True
    then show ?thesis using run own_server assms(2,3) w by (simp add: Transfer_OnProc_def transfer_slice_def)
  next
    case False
    then have "server_ok k w2" using run assms(2) w by (auto simp: Transfer_OnProc_def)
    then show ?thesis by (rule server_ok_mono) simp
  qed
qed

interpretation router_frames: frame_app "router_cb P db z n" for P db z n
  by unfold_locales (rule router_cb_server)

interpretation conn_frames: frame_app "conn_cb P db z n" for P db z n
  by unfold_locales (rule conn_cb_server)

interpretation transfer_frames: frame_app "transfer_cb P db z n" for P db z n
  by unfold_locales (rule transfer_cb_server)

subsubsection \<open>Their main loops\<close>

lemma router_update_server:
  assumes "Router_UpdateNetWork P db z n sw = Some (r, sw2)" "server_ok k sw" "k + queued (rt_nh (the_app sw)) < 2 ^ 32"
  shows "server_ok (k + queued (rt_nh (the_app sw))) sw2"
proof -
  obtain h s p m where u: "nh_Update (router_cb P db z n) (rt_nh (the_app sw), sw) = Some (r, h, s, p, m)"
      "sw2 = (s, p, m\<lparr>m_app := (m_app m)\<lparr>rt_nh := h\<rparr>\<rparr>)"
    using assms(1) by (auto simp: Router_UpdateNetWork_def)
  then show ?thesis using router_frames.nh_Update_server [OF u(1) assms(2)] assms(3) by (simp add: queued_def)
qed

lemma conn_update_server:
  assumes "Conn_UpdateNetWork P db z n sw = Some (r, sw2)" "server_ok k sw" "k + queued (cn_nh (the_app sw)) < 2 ^ 32"
  shows "server_ok (k + queued (cn_nh (the_app sw))) sw2"
proof -
  obtain h s p m where u: "nh_Update (conn_cb P db z n) (cn_nh (the_app sw), sw) = Some (r, h, s, p, m)"
      "sw2 = (s, p, m\<lparr>m_app := (m_app m)\<lparr>cn_nh := h\<rparr>\<rparr>)"
    using assms(1) by (auto simp: Conn_UpdateNetWork_def)
  then show ?thesis using conn_frames.nh_Update_server [OF u(1) assms(2)] assms(3) by (simp add: queued_def)
qed

lemma transfer_update_server:
  assumes "Transfer_UpdateNetWork P db z n sw = Some (r, sw2)" "server_ok k sw" "k + queued (tf_nh (the_app sw)) < 2 ^ 32"
  shows "server_ok (k + queued (tf_nh (the_app sw))) sw2"
proof -
  obtain h s p m where u: "nh_Update (transfer_cb P db z n) (tf_nh (the_app sw), sw) = Some (r, h, s, p, m)"
      "sw2 = (s, p, m\<lparr>m_app := (m_app m)\<lparr>tf_nh := h\<rparr>\<rparr>)"
    using assms(1) by (auto simp: Transfer_UpdateNetWork_def)
  then show ?thesis using transfer_frames.nh_Update_server [OF u(1) assms(2)] assms(3) by (simp add: queued_def)
qed

lemma update_quiet_all:
  "\<lbrakk>Router_UpdateNetWork P db z n rw = Some (r, rw2); queued (rt_nh (the_app rw)) = 0\<rbrakk> \<Longrightarrow> r = 0 \<and> queued (rt_nh (the_app rw2)) = 0"
  "\<lbrakk>Conn_UpdateNetWork P db z n cw = Some (r, cw2); queued (cn_nh (the_app cw)) = 0\<rbrakk> \<Longrightarrow> r = 0 \<and> queued (cn_nh (the_app cw2)) = 0"
  "\<lbrakk>Transfer_UpdateNetWork P db z n tw = Some (r, tw2); queued (tf_nh (the_app tw)) = 0\<rbrakk> \<Longrightarrow> r = 0 \<and> queued (tf_nh (the_app tw2)) = 0"
  by (auto simp: Router_UpdateNetWork_def Conn_UpdateNetWork_def Transfer_UpdateNetWork_def the_app_def queued_def dest!: nh_Update_quiet)

lemma router_tick_queued: "Router_OnTick P n x = Some y \<Longrightarrow> queued (rt_nh y) = queued (rt_nh x)"
  by (auto simp: Router_OnTick_def Let_def TR_Tick_def dest!: TR_tick_keeps queued_keeps split: if_splits)

lemma conn_tick_queued: "Conn_OnTick P n x = Some y \<Longrightarrow> queued (cn_nh y) = queued (cn_nh x)"
  by (auto simp: Conn_OnTick_def Let_def RM_Tick_def dest!: RM_tick_keeps queued_keeps split: if_splits)

lemma transfer_tick_queued: "Transfer_OnTick P n x = Some y \<Longrightarrow> queued (tf_nh y) = queued (tf_nh x)"
  by (auto simp: Transfer_OnTick_def Let_def TI_Tick_def bind_eq_Some_conv dest!: TI_tick_keeps queued_keeps split: if_splits)

lemma reload_queued:
  "queued (rt_nh (snd (Router_OnReload parse rc x))) = queued (rt_nh x)"
  "queued (cn_nh (snd (Conn_OnReload parse cc y))) = queued (cn_nh y)"
  "queued (tf_nh (snd (Transfer_OnReload ord parse cc w))) = queued (tf_nh w)"
  using queued_keeps [OF links_reload_keeps(1)] queued_keeps [OF links_reload_keeps(2)] queued_keeps [OF TI_Reload_keeps]
  by (simp_all add: Router_OnReload_def Conn_OnReload_def Transfer_OnReload_def Let_def split_beta)

interpretation router_server: server "router_ops P db z n" "router_env db" "router_behave P z n" for P db z n
proof unfold_locales
  fix conf x ret y assume "op_OnReload (router_ops P db z n) conf x = (ret, y)"
  then show "queued (op_nh (router_ops P db z n) y) = queued (op_nh (router_ops P db z n) x)"
    using reload_queued(1) [of "fst conf" "snd conf" x] by (simp add: router_ops_def)
qed (auto simp: router_ops_def router_slice_def router_keeps_def dest!: router_env_keeps router_tick_queued queued_keeps
    dest: update_quiet_all(1) intro: router_update_server [simplified])

interpretation conn_server: server "conn_ops P db z n" "conn_env db" "conn_behave P z n" for P db z n
proof unfold_locales
  fix conf x ret y assume "op_OnReload (conn_ops P db z n) conf x = (ret, y)"
  then show "queued (op_nh (conn_ops P db z n) y) = queued (op_nh (conn_ops P db z n) x)"
    using reload_queued(2) [of "fst conf" "snd conf" x] by (simp add: conn_ops_def)
qed (auto simp: conn_ops_def conn_slice_def conn_keeps_def dest!: conn_env_keeps conn_tick_queued queued_keeps
    dest: update_quiet_all(2) intro: conn_update_server [simplified])

interpretation transfer_server: server "transfer_ops ord P db z n" "transfer_env db" "transfer_behave P z n" for ord P db z n
proof unfold_locales
  fix conf x ret y assume "op_OnReload (transfer_ops ord P db z n) conf x = (ret, y)"
  then show "queued (op_nh (transfer_ops ord P db z n) y) = queued (op_nh (transfer_ops ord P db z n) x)"
    using reload_queued(3) [of ord "fst conf" "snd conf" x] by (simp add: transfer_ops_def)
qed (auto simp: transfer_ops_def transfer_slice_def transfer_keeps_def dest!: transfer_env_keeps transfer_tick_queued queued_keeps
    dest: update_quiet_all(3) intro: transfer_update_server [simplified])

subsection \<open>Properties\<close>

text \<open>A routing server that gets one packet for a registered server.\<close>

definition demo_round :: "net_msg list \<Rightarrow> 'c round" where
  "demo_round msgs = \<lparr>rd_now = 5, rd_net = (\<lambda>h. h\<lparr>nh_tcp_msgs := msgs\<rparr>), rd_reload = None, rd_mysql = None, rd_redis = None\<rparr>"

lemma update_nothing: "tp_Update run 0 (tp_new 1 0 :: 'cb timer_pool, w) = Some ([], tp_new 1 0, w)"
proof -
  have "tp_CalcBucket (tp_new 1 0 :: 'cb timer_pool) 0 0 = Some (0, 0)"
    by (simp add: tp_CalcBucket_def tp_new_def to_int32_def big_bucket_cnt_def)
  then show ?thesis
    by (simp add: tp_Update_def tp_new_def tp_visit_def bucket_valid_def big_bucket_cnt_def small_bucket_cnt_def Let_def)
qed

lemma demo_start:
  "snd (snd (tm_start cs 10 0 x)) = m \<Longrightarrow> tm_start cs 10 0 x = (cos_new, tp_new 1 0, m)"
  "m_last_check (snd (snd (tm_start cs 10 0 x))) = 0 \<and> m_app (snd (snd (tm_start cs 10 0 x))) = x"
proof -
  show "snd (snd (tm_start cs 10 0 x)) = m \<Longrightarrow> tm_start cs 10 0 x = (cos_new, tp_new 1 0, m)" by (auto simp: tm_start_def)
  show "m_last_check (snd (snd (tm_start cs 10 0 x))) = 0 \<and> m_app (snd (snd (tm_start cs 10 0 x))) = x"
  proof (induction cs)
    case (Cons c cs)
    then show ?case by (simp add: tm_start_def TM_RegisterTransaction_def split: option.splits)
  qed (simp add: tm_start_def TM_Init_def TransactionMgrImpl_def)
qed

text \<open>A round without a tick and without timers is the handling of its messages.\<close>

lemma demo_round_net:
  assumes get: "\<And>h x. op_nh ops (op_set_nh ops h x) = h" and sl: "op_slice ops = trans_slice env behave"
    and off: "\<not> op_UseAsyncMysql ops" "\<not> op_UseAsyncRedis ops"
    and net: "\<And>m. m_app m = op_set_nh ops ((op_nh ops x)\<lparr>nh_tcp_msgs := msgs\<rparr>) x
      \<Longrightarrow> \<exists>sw. op_UpdateNetWork ops (cos_new, tp_new 1 0, m) = Some (0, sw)"
  shows "\<exists>st. app_run ops [demo_round msgs] (app_start cs 10 0 x) = Some st
    \<and> run_frames ops [demo_round msgs] (app_start cs 10 0 x) = length (nh_con_msgs (op_nh ops x)) + length msgs"
proof -
  define m where "m = snd (snd (tm_start cs 10 0 x))"
  have m: "tm_start cs 10 0 x = (cos_new, tp_new 1 0, m)" "m_last_check m = 0" "m_app m = x"
    using demo_start(1) [OF m_def [symmetric]] demo_start(2) [of cs x] by (simp_all add: m_def)
  let ?m = "m\<lparr>m_now := 5, m_app := op_set_nh ops ((op_nh ops x)\<lparr>nh_tcp_msgs := msgs\<rparr>) x\<rparr>"
  have "m_app ?m = op_set_nh ops ((op_nh ops x)\<lparr>nh_tcp_msgs := msgs\<rparr>) x" by simp
  from net [OF this] obtain sw where sw: "op_UpdateNetWork ops (cos_new, tp_new 1 0, ?m) = Some (0, sw)" by blast
  have "TM_Update (op_slice ops) 0 (cos_new, tp_new 1 0, ?m) = Some (cos_new, tp_new 1 0, ?m)"
    using m(2) by (simp add: TM_Update_def update_nothing)
  then have "app_round ops (demo_round msgs) (app_start cs 10 0 x)
      = Some ((app_start cs 10 0 x)\<lparr>ap_tm := sw\<rparr>)"
    using sw off m by (simp add: app_round_def app_start_def app_meet_def demo_round_def app_tick_def app_mysql_def app_redis_def
        app_idle_def app_rest_def Let_def)
  then show ?thesis using m by (simp add: round_frames_def demo_round_def app_start_def the_app_def queued_def)
qed

text \<open>C2: whole servers.  In every run of the main loop of the routing, the connection and the transfer
  server, with any messages from the network, any reloads and any clock, and until 2^32 - 1
  messages have been handled, active transactions, suspended coroutines and free objects
  correspond as they should: no message makes the server lose or confuse a transaction.\<close>

theorem servers_keep_transactions:
  assumes mx: "0 \<le> mx + 1"
  shows "(app_run (router_ops P db z n) ris (app_start router_cmds mx now rx) = Some rst
      \<and> run_frames (router_ops P db z n) ris (app_start router_cmds mx now rx) < 2 ^ 32 - 1 \<longrightarrow> trans_consistent (ap_tm rst))
    \<and> (app_run (conn_ops P db z n) cis (app_start conn_cmds mx now cx) = Some cst
      \<and> run_frames (conn_ops P db z n) cis (app_start conn_cmds mx now cx) < 2 ^ 32 - 1 \<longrightarrow> trans_consistent (ap_tm cst))
    \<and> (app_run (transfer_ops ord P db z n) tis (app_start transfer_cmds mx now tx) = Some tst
      \<and> run_frames (transfer_ops ord P db z n) tis (app_start transfer_cmds mx now tx) < 2 ^ 32 - 1 \<longrightarrow> trans_consistent (ap_tm tst))"
  by (intro conjI router_server.run_start [OF mx] conn_server.run_start [OF mx] transfer_server.run_start [OF mx])

definition demo_in :: net_msg where
  "demo_in = demo_data (demo_packet 1) [7]"

lemma demo_router_net:
  assumes "m_app m = demo_router\<lparr>rt_nh := (rt_nh demo_router)\<lparr>nh_tcp_msgs := [demo_in]\<rparr>\<rparr>"
  shows "\<exists>sw. Router_UpdateNetWork demo_protos (\<lambda>_. 0) SFault 0 (cos_new, tp_new 1 0, m) = Some (0, sw)"
proof -
  let ?h = "(rt_nh demo_router)\<lparr>nh_tcp_msgs := []\<rparr>"
  have h: "nh_set_msgs TcpSock [] ((rt_nh demo_router)\<lparr>nh_tcp_msgs := [demo_in]\<rparr>) = ?h"
    "nh_con_msgs (rt_nh demo_router) = []" by (simp_all add: nh_set_msgs_def demo_router_def nh_demo_def)
  have "handle TcpSock (ms_ptr demo_in) ?h = handle TcpSock (ms_ptr demo_in) (rt_nh demo_router)"
    "nh_cont TcpSock ?h = nh_cont TcpSock (rt_nh demo_router)" by (simp_all add: handle_def nh_cont_def)
  then have x: "ctx_find (handle TcpSock (ms_ptr demo_in) ?h) (nh_cont TcpSock ?h)
      = Some \<lparr>cx_fd = handle TcpSock 1 nh_demo, cx_msgcount = 0, cx_tt = 0, cx_ptr = 1\<rparr>"
    using demo_ctx by (simp add: demo_in_def)
  have d: "ms_type demo_in = M_SOCKET_DATA" "ms_buf demo_in = af_msg (demo_packet 1) [7]"
    "insts_ok (rt_insts (m_app m))" "unat (cmd_length (demo_packet 1) + 50) = length (af_msg (demo_packet 1) [7])"
    using demo_router_ok assms by (simp_all add: demo_in_def demo_data_def demo_packet_def length_af_msg)
  note c = router_delivers [OF x d(1,2) demo_not_own d(3), of demo_protos "\<lambda>_. 0" SFault 0 cos_new "tp_new 1 0", unfolded d(2,4) passed_on_def]
  show ?thesis
    using h assms c by (simp add: Router_UpdateNetWork_def nh_Update_def ConsumTcpConnectorMsg_def ConsumTcpSocketMsg_def
        consum_def nh_msgs_def the_app_def Let_def)
qed

theorem servers_keep_transactions_witness:
  "\<exists>st. app_run (router_ops demo_protos (\<lambda>_. 0) SFault 0) [demo_round [demo_in]] (app_start router_cmds 10 0 demo_router) = Some st
     \<and> run_frames (router_ops demo_protos (\<lambda>_. 0) SFault 0) [demo_round [demo_in]] (app_start router_cmds 10 0 demo_router) = 1
     \<and> trans_consistent (ap_tm st)"
proof -
  let ?ops = "router_ops demo_protos (\<lambda>_. 0) SFault 0"
  have "\<exists>st. app_run ?ops [demo_round [demo_in]] (app_start router_cmds 10 0 demo_router) = Some st
    \<and> run_frames ?ops [demo_round [demo_in]] (app_start router_cmds 10 0 demo_router)
      = length (nh_con_msgs (op_nh ?ops demo_router)) + length [demo_in]"
    by (rule demo_round_net [OF router_server.get_set router_server.slice])
      (simp_all add: router_ops_def demo_router_net del: split_paired_Ex)
  then obtain st where st: "app_run ?ops [demo_round [demo_in]] (app_start router_cmds 10 0 demo_router) = Some st"
      "run_frames ?ops [demo_round [demo_in]] (app_start router_cmds 10 0 demo_router) = 1"
    by (auto simp: router_ops_def demo_router_def nh_demo_def)
  have "trans_consistent (ap_tm st)"
    using servers_keep_transactions [THEN conjunct1, of 10 demo_protos "\<lambda>_. 0" SFault 0 "[demo_round [demo_in]]" 0 demo_router st] st by simp
  then show ?thesis using st by blast
qed

text \<open>Idle servers spin.  As long as no message arrives, the main loop of none of the three servers
  ever calls \<^verbatim>\<open>Sleep\<close>, however many rounds it makes.\<close>

theorem idle_servers_never_sleep:
  assumes mx: "0 \<le> mx + 1"
  shows "(app_run (router_ops P db z n) ris (app_start router_cmds mx now rx) = Some rst
      \<and> run_frames (router_ops P db z n) ris (app_start router_cmds mx now rx) = 0 \<longrightarrow> ap_sleeps rst = 0)
    \<and> (app_run (conn_ops P db z n) cis (app_start conn_cmds mx now cx) = Some cst
      \<and> run_frames (conn_ops P db z n) cis (app_start conn_cmds mx now cx) = 0 \<longrightarrow> ap_sleeps cst = 0)
    \<and> (app_run (transfer_ops ord P db z n) tis (app_start transfer_cmds mx now tx) = Some tst
      \<and> run_frames (transfer_ops ord P db z n) tis (app_start transfer_cmds mx now tx) = 0 \<longrightarrow> ap_sleeps tst = 0)"
  by (intro conjI router_server.quiet_start [OF mx] conn_server.quiet_start [OF mx] transfer_server.quiet_start [OF mx])

theorem idle_servers_never_sleep_witness:
  "\<exists>st. app_run (router_ops demo_protos (\<lambda>_. 0) SFault 0) [demo_round []] (app_start router_cmds 10 0 demo_router) = Some st
     \<and> ap_sleeps st = 0"
proof -
  let ?ops = "router_ops demo_protos (\<lambda>_. 0) SFault 0"
  have "\<exists>st. app_run ?ops [demo_round []] (app_start router_cmds 10 0 demo_router) = Some st
    \<and> run_frames ?ops [demo_round []] (app_start router_cmds 10 0 demo_router) = length (nh_con_msgs (op_nh ?ops demo_router)) + length ([] :: net_msg list)"
    by (rule demo_round_net [OF router_server.get_set router_server.slice])
      (simp_all add: router_ops_def Router_UpdateNetWork_def nh_Update_def ConsumTcpConnectorMsg_def ConsumTcpSocketMsg_def
        consum_def nh_msgs_def the_app_def demo_router_def nh_demo_def)
  then obtain st where st: "app_run ?ops [demo_round []] (app_start router_cmds 10 0 demo_router) = Some st"
      "run_frames ?ops [demo_round []] (app_start router_cmds 10 0 demo_router) = 0"
    by (auto simp: router_ops_def demo_router_def nh_demo_def)
  have "ap_sleeps st = 0"
    using idle_servers_never_sleep [THEN conjunct1, of 10 demo_protos "\<lambda>_. 0" SFault 0 "[demo_round []]" 0 demo_router st] st by simp
  then show ?thesis using st(1) by blast
qed

end
