(* ===== verification/Register_Props.thy ===== *)
theory Register_Props
  imports Router_Props
begin

text \<open>
  Registration.  What a routing server does with the registration of a server below it,
  and what the server that asks does when its connection is gone.
\<close>

lemma send_fresh:
  assumes "50 + length data < buf_limit"
  shows "\<exists>b. send_frame fd f data buf_new h = Some (fst (packet_to fd (af_msg f data) h), b, snd (packet_to fd (af_msg f data) h))"
proof -
  have r: "unat (buf_Size buf_new) + 50 + length data < buf_limit" using assms by simp
  have d: "buf_Data buf_new @ af_bytes f = af_bytes f @ []" by simp
  show ?thesis using send_frame_spec [OF buf_ok_new r d, of fd h] by auto
qed

subsection \<open>Answering\<close>

text \<open>A transaction that is looking at the live frame parses its request.\<close>

lemma ParseMsg_live:
  assumes "m_live m = Some (q, LFrame f d)" "t_cur_frame (m_obj m a) = Some q" "t_cur_frame_data (m_obj m a) \<noteq> None"
    and "unat (cmd_length f) \<le> length d"
  shows "run_script env a (T_ParseMsg parse k) (p, m) = run_script env a (k (parse (take (unat (cmd_length f)) d))) (p, m)"
  using assms by (auto simp: T_ParseMsg_def)

lemma send_reply_run:
  assumes "50 + length (s_rsp P code) < buf_limit"
  shows "run_script (router_env db) a (send_reply P code (\<lambda>_. SRet 0)) (p, m) =
    (let x = m_app m; t = m_obj m a; body = s_rsp P code
     in Some ((p, m\<lparr>m_app := x\<lparr>rt_nh := snd (packet_to (t_fd t) (af_msg (reply_frame t body) body) (rt_nh x))\<rparr>\<rparr>), None))"
proof -
  obtain b where "send_frame (t_fd (m_obj m a)) (reply_frame (m_obj m a) (s_rsp P code)) (s_rsp P code) buf_new (rt_nh (m_app m))
      = Some (fst (packet_to (t_fd (m_obj m a)) (af_msg (reply_frame (m_obj m a) (s_rsp P code)) (s_rsp P code)) (rt_nh (m_app m))), b,
          snd (packet_to (t_fd (m_obj m a)) (af_msg (reply_frame (m_obj m a) (s_rsp P code)) (s_rsp P code)) (rt_nh (m_app m))))"
    using send_fresh [OF assms] by blast
  then show ?thesis by (simp add: send_reply_def Let_def)
qed

text \<open>C23: a registration at the routing server.  A server of another zone is refused with -1, one of the
  same zone gets the result of \<^verbatim>\<open>LoginInstance\<close> with the connection the request came over; in both
  cases exactly one packet, the response with the request's transaction and random number,
  goes back over that connection, if it is still there, and the transaction ends.\<close>

theorem register_answers:
  assumes live: "m_live m = Some (q, LFrame f d)" "t_cur_frame (m_obj m a) = Some q" "t_cur_frame_data (m_obj m a) \<noteq> None"
    and req: "unat (cmd_length f) \<le> length d" "p_reg P (take (unat (cmd_length f)) d) = Some (ty, inst, zone)"
    and short: "\<And>code. 50 + length (s_rsp P code) < buf_limit"
  shows "run_script (router_env db) a (TransRegisterServer P) (p, m) =
    (let x = m_app m; t = m_obj m a;
         (code, insts) = (if zone \<noteq> t_self_svr_zone t then (-1, rt_insts x) else IM_LoginInstance ty inst (t_fd t) (rt_insts x));
         body = s_rsp P (word_of_int code)
     in Some ((p, m\<lparr>m_app := x\<lparr>rt_insts := insts,
          rt_nh := snd (packet_to (t_fd t) (af_msg (reply_frame t body) body) (rt_nh x))\<rparr>\<rparr>), None))"
proof -
  have "run_script (router_env db) a (TransRegisterServer P) (p, m) =
      run_script (router_env db) a
        (if zone \<noteq> t_self_svr_zone (m_obj m a) then send_reply P (-1) (\<lambda>_. SRet 0)
         else SCall (LoginInst ty inst (t_fd (m_obj m a))) (\<lambda>code. send_reply P (word_of_int code) (\<lambda>_. SRet 0))) (p, m)"
    by (simp add: TransRegisterServer_def OneWay_InCoroutine_def ParseMsg_live [OF live req(1)] req(2))
  then show ?thesis
    by (cases "IM_LoginInstance ty inst (t_fd (m_obj m a)) (rt_insts (m_app m))")
      (simp add: send_reply_run [OF short] Let_def)
qed

definition demo_request :: app_frame where
  "demo_request = af_new\<lparr>cmd := 3, cmd_length := 12\<rparr>"

lemma demo_short: "50 + length (s_rsp demo_protos code) < buf_limit" "50 + length (s_reg demo_protos t i z) < buf_limit"
  by (simp_all add: demo_protos_def buf_limit_def)

theorem register_answers_witness:
  "\<exists>w. run_script (router_env (\<lambda>_. 0)) 0 (TransRegisterServer demo_protos)
      (tp_new 1 0, (TransactionMgrImpl 0 (demo_router\<lparr>rt_insts := demo_insts\<rparr>))\<lparr>
        m_obj := (\<lambda>_. trans_blank\<lparr>t_fd := 9, t_cur_frame := Some 0, t_cur_frame_data := Some 0\<rparr>),
        m_live := Some (0, LFrame demo_request (s_reg demo_protos 4 1 0))\<rparr>) = Some (w, None)
     \<and> GetFdByTypeId 4 1 (rt_insts (m_app (snd w))) = 9"
proof -
  let ?m = "(TransactionMgrImpl 0 (demo_router\<lparr>rt_insts := demo_insts\<rparr>))\<lparr>
        m_obj := (\<lambda>_. trans_blank\<lparr>t_fd := 9, t_cur_frame := Some 0, t_cur_frame_data := Some 0\<rparr>),
        m_live := Some (0, LFrame demo_request (s_reg demo_protos 4 1 0))\<rparr>"
  have h: "m_live ?m = Some (0, LFrame demo_request (s_reg demo_protos 4 1 0))" "t_cur_frame (m_obj ?m 0) = Some 0"
    "t_cur_frame_data (m_obj ?m 0) \<noteq> None" "unat (cmd_length demo_request) \<le> length (s_reg demo_protos 4 1 0)"
    "p_reg demo_protos (take (unat (cmd_length demo_request)) (s_reg demo_protos 4 1 0)) = Some (4, 1, 0)"
    by (simp_all add: demo_request_def demo_protos_def)
  obtain r insts where run: "IM_LoginInstance 4 1 9 demo_insts = (r, insts)" by fastforce
  have "GetPolicy 4 demo_insts \<noteq> None" by (simp add: demo_insts_def SeverInstanceMgr_def GetPolicy_def)
  then have "GetFdByTypeId 4 1 insts = 9" using login_registers [OF demo_insts_ok run] run by simp
  moreover have "t_self_svr_zone (m_obj ?m 0) = 0" "t_fd (m_obj ?m 0) = 9" "rt_insts (m_app ?m) = demo_insts"
    by (simp_all add: trans_blank_def Construct_def TransactionMgrImpl_def)
  ultimately show ?thesis
    using register_answers [where P = demo_protos and db = "\<lambda>_. 0", OF h demo_short(1)] run by (simp add: Let_def)
qed

subsection \<open>Asking\<close>

text \<open>The random number a transaction draws in the world \<^term>\<open>m\<close>.\<close>

abbreviation drawn :: "'a tm \<Rightarrow> u32" where
  "drawn m \<equiv> of_int (rand_for m)"

lemma ask_lost:
  assumes "fd_ctx (t_fd (m_obj m a)) (cn_nh (m_app m)) = None" "50 + length request < buf_limit"
  shows "run_script (conn_env db) a (SendMsgByFd_twoway c ty request parse k) (p, m) =
    run_script (conn_env db) a (k (-1) None)
      (p, trans_set a (t_req_random_update (\<lambda>_. drawn m)) m)"
proof -
  have "fd_ctx (t_fd (m_obj m a)) (cn_nh (m_app m)) = None" by fact
  then show ?thesis
    using RM_SendMsgByFd_spec [OF assms(2)]
    by (simp add: SendMsgByFd_twoway_def SendMsgByFd_oneway_def trans_set_def packet_to_def)
qed

text \<open>A round of \<^verbatim>\<open>SendRegistCmd\<close> whose message cannot be sent.\<close>

lemma regist_round:
  assumes "fd_ctx (t_fd (m_obj m a)) (cn_nh (m_app m)) = None"
    and "\<And>t i z. 50 + length (s_reg P t i z) < buf_limit"
  shows "run_script (conn_env db) a (SendRegistCmd P (SendMsgByFd_twoway c ty) z (Suc (Suc n)) 0 k) (p, m) =
    run_script (conn_env db) a (SendRegistCmd P (SendMsgByFd_twoway c ty) z n 0 k)
      (p, trans_set a (t_req_random_update (\<lambda>_. drawn m)) m)"
  using ask_lost [OF assms] by simp

lemma spin_on:
  assumes "fd_ctx (t_fd (m_obj m a)) (cn_nh (m_app m)) = None"
    and "\<And>t i z. 50 + length (s_reg P t i z) < buf_limit" "trans_set a (t_req_random_update (\<lambda>_. drawn m)) m = m"
  shows "run_script (conn_env db) a (SendRegistCmd P (SendMsgByFd_twoway c ty) z (2 * n) 0 k) (p, m)
    = run_script (conn_env db) a z (p, m)"
proof (induction n)
  case (Suc n)
  have "2 * Suc n = Suc (Suc (2 * n))" by simp
  then show ?case using regist_round [OF assms(1,2), where n = "2 * n"] assms(3) Suc.IH by (simp only:)
qed simp

text \<open>A connection server whose connection to the router is gone never stops trying to register: each
  try fails at once, and the loop neither waits nor returns, whatever fuel it gets; the one
  coroutine that runs keeps the whole server busy.\<close>

theorem register_spins:
  assumes lost: "fd_ctx (t_fd (m_obj m a)) (cn_nh (m_app m)) = None"
    and short: "\<And>t i z. 50 + length (s_reg P t i z) < buf_limit"
  shows "run_script (conn_env db) a (SendRegistCmd P (SendMsgByFd_twoway c ty) z (2 * Suc n) 0 k) (p, m) =
    run_script (conn_env db) a z
      (p, trans_set a (t_req_random_update (\<lambda>_. drawn m)) m)"
proof -
  let ?m = "trans_set a (t_req_random_update (\<lambda>_. drawn m)) m"
  have again: "fd_ctx (t_fd (m_obj ?m a)) (cn_nh (m_app ?m)) = None" "trans_set a (t_req_random_update (\<lambda>_. drawn ?m)) ?m = ?m"
    using lost by (simp_all add: trans_set_def)
  have "2 * Suc n = Suc (Suc (2 * n))" by simp
  then show ?thesis
    using regist_round [OF lost short, where n = "2 * n"] spin_on [OF again(1) short again(2)] by (simp only:)
qed

definition demo_conn :: conn where
  "demo_conn = \<lparr>cn_nh = nh_demo, cn_rm = RouterMgr, cn_inst = 1, cn_zone = 1\<rparr>"

theorem register_spins_witness:
  "run_script (conn_env (\<lambda>_. 0)) 0 (SendRegistCmd demo_protos (SendMsgByFd_twoway 3 1) SFault (2 * Suc 1000) 0 (SRet 0))
     (tp_new 1 0, TransactionMgrImpl 0 demo_conn) = None"
proof -
  have "fd_ctx (t_fd (m_obj (TransactionMgrImpl 0 demo_conn) 0)) (cn_nh (m_app (TransactionMgrImpl 0 demo_conn))) = None"
    by (simp add: TransactionMgrImpl_def demo_conn_def)
  from register_spins [where z = SFault and n = 1000, OF this demo_short(2)] show ?thesis by (simp only: run_script.simps)
qed

end
