(* ===== verification/Login_Props.thy ===== *)
theory Login_Props
  imports Instances
begin

text \<open>
  \<^verbatim>\<open>UserLoginMgr\<close> as a table: the container of logins, ordered by time and modified in
  place or relinked, implements a finite map from users to zones.
\<close>

definition logins_ok :: "login_info list \<Rightarrow> bool" where
  "logins_ok l \<longleftrightarrow> distinct (map lg_userid l) \<and> oi_sorted login_key l"

text \<open>The abstract table, and what a login promises on it: the zone is set and the former zone returned.\<close>

definition login_map :: "login_info list \<Rightarrow> u64 \<rightharpoonup> u32" where
  "login_map l u = map_option lg_zone (find (\<lambda>x. lg_userid x = u) l)"

definition zone_or_0 :: "(u64 \<rightharpoonup> u32) \<Rightarrow> u64 \<Rightarrow> u32" where
  "zone_or_0 m u = (case m u of None \<Rightarrow> 0 | Some z \<Rightarrow> z)"

fun logins_spec :: "(u64 \<times> u32 \<times> u32) list \<Rightarrow> (u64 \<rightharpoonup> u32) \<Rightarrow> u32 list \<times> (u64 \<rightharpoonup> u32)" where
  "logins_spec [] m = ([], m)"
| "logins_spec ((u, z, tt) # ops) m =
     (let (rs, m') = logins_spec ops (m(u \<mapsto> z)) in (zone_or_0 m u # rs, m'))"

text \<open>The code, called with the same logins in the same order.\<close>

fun logins_run :: "(u64 \<times> u32 \<times> u32) list \<Rightarrow> login_info list \<Rightarrow> u32 list \<times> login_info list" where
  "logins_run [] l = ([], l)"
| "logins_run ((u, z, tt) # ops) l =
     (let (r, l') = UpdateLoginInfo u z tt l; (rs, l'') = logins_run ops l' in (r # rs, l''))"

lemma GetLoginZone_map: "GetLoginZone u l = zone_or_0 (login_map l) u"
  by (simp add: GetLoginZone_def zone_or_0_def login_map_def split: option.split)

lemma UpdateLoginInfo_map:
  assumes ok: "logins_ok l"
  shows "logins_ok (snd (UpdateLoginInfo u z tt l))"
    and "login_map (snd (UpdateLoginInfo u z tt l)) = (login_map l)(u \<mapsto> z)"
    and "fst (UpdateLoginInfo u z tt l) = zone_or_0 (login_map l) u"
proof -
  have d: "distinct (map lg_userid l)" and s: "oi_sorted login_key l" using ok by (simp_all add: logins_ok_def)
  have "logins_ok (snd (UpdateLoginInfo u z tt l)) \<and> login_map (snd (UpdateLoginInfo u z tt l)) = (login_map l)(u \<mapsto> z)
      \<and> fst (UpdateLoginInfo u z tt l) = zone_or_0 (login_map l) u"
  proof (cases "find (\<lambda>x. lg_userid x = u) l")
    case None
    let ?c = "\<lparr>lg_userid = u, lg_tt = tt, lg_zone = z\<rparr>"
    have "lg_userid ?c \<notin> lg_userid ` set l" using None by (simp add: find_key_none)
    note p = find_oi_place [OF d this, where key = login_key]
    show ?thesis using None p oi_place_sorted [OF s, of ?c]
      by (auto simp: UpdateLoginInfo_def logins_ok_def login_map_def zone_or_0_def)
  next
    case (Some x)
    have x: "lg_userid x = u" using Some by (auto simp: find_Some_iff)
    have u: "\<And>y. lg_userid (FuncModifyLogininfo tt z y) = lg_userid y" by (simp add: FuncModifyLogininfo_def)
    let ?l = "oi_modify login_key (\<lambda>y. lg_userid y = u) (FuncModifyLogininfo tt z) l"
    note p = find_oi_modify [where key = login_key, OF d u Some]
    have "login_map ?l = (login_map l)(u \<mapsto> z)"
      by (rule ext) (simp add: login_map_def p(1) x FuncModifyLogininfo_def)
    moreover have "logins_ok ?l" using p(2) oi_modify_sorted [OF s] by (simp add: logins_ok_def)
    moreover have "UpdateLoginInfo u z tt l = (lg_zone x, ?l)" using Some by (simp add: UpdateLoginInfo_def)
    ultimately show ?thesis using Some by (simp add: login_map_def zone_or_0_def)
  qed
  then show "logins_ok (snd (UpdateLoginInfo u z tt l))"
    "login_map (snd (UpdateLoginInfo u z tt l)) = (login_map l)(u \<mapsto> z)"
    "fst (UpdateLoginInfo u z tt l) = zone_or_0 (login_map l) u" by blast+
qed

lemma logins_run_spec:
  "logins_ok l \<Longrightarrow> logins_ok (snd (logins_run ops l)) \<and> map_prod id login_map (logins_run ops l) = logins_spec ops (login_map l)"
proof (induction ops l rule: logins_run.induct)
  case (2 u z tt ops l)
  obtain r l' where e: "UpdateLoginInfo u z tt l = (r, l')" by fastforce
  obtain rs l'' where e2: "logins_run ops l' = (rs, l'')" by fastforce
  have m: "logins_ok l'" "login_map l' = (login_map l)(u \<mapsto> z)" "r = zone_or_0 (login_map l) u"
    using UpdateLoginInfo_map [OF 2(2), of u z tt] e by simp_all
  have "logins_ok l'' \<and> (rs, login_map l'') = logins_spec ops (login_map l')"
    using 2(1) [OF e [symmetric] refl m(1)] e2 by (metis map_prod_simp id_apply snd_conv)
  then show ?case using e e2 m(3) unfolding m(2) by (auto simp: Let_def split: prod.splits)
qed simp

lemma logins_empty: "logins_ok []" "login_map [] = Map.empty"
  by (auto simp: logins_ok_def oi_sorted_def login_map_def)

subsection \<open>Properties\<close>

text \<open>C22: a sequence of logins from the start returns, call by call, the zone the user was in before (0
  for none), leaves the container sorted by time with one entry for each user, and \<^verbatim>\<open>GetLoginZone\<close>
  reads from it what the abstract map from users to zones holds.\<close>

theorem logins_refine_map:
  "fst (logins_run ops []) = fst (logins_spec ops Map.empty)
   \<and> login_map (snd (logins_run ops [])) = snd (logins_spec ops Map.empty)
   \<and> logins_ok (snd (logins_run ops []))
   \<and> (\<forall>u. GetLoginZone u (snd (logins_run ops [])) = zone_or_0 (snd (logins_spec ops Map.empty)) u)"
proof -
  have "logins_ok (snd (logins_run ops [])) \<and> map_prod id login_map (logins_run ops []) = logins_spec ops Map.empty"
    using logins_run_spec [OF logins_empty(1), of ops] logins_empty(2) by simp
  then show ?thesis by (cases "logins_run ops []", cases "logins_spec ops Map.empty") (simp add: GetLoginZone_map)
qed

end
