(* ===== verification/Md5.thy ===== *)
theory Md5
  imports Packet
begin

text \<open>
  MD5 as in \<^verbatim>\<open>slience/base/md5.hpp\<close> and \<^verbatim>\<open>md5_helper.ipp\<close>.  The reference is the algorithm of
  RFC 1321: 64 numbered steps over a block, each of which rotates the four registers.
  The code unrolls them with the registers renamed, and feeds its input through a
  buffer of one block.
\<close>

subsection \<open>\<^verbatim>\<open>MD5Helper\<close>\<close>

definition S11 :: nat where "S11 = 7"
definition S12 :: nat where "S12 = 12"
definition S13 :: nat where "S13 = 17"
definition S14 :: nat where "S14 = 22"
definition S21 :: nat where "S21 = 5"
definition S22 :: nat where "S22 = 9"
definition S23 :: nat where "S23 = 14"
definition S24 :: nat where "S24 = 20"
definition S31 :: nat where "S31 = 4"
definition S32 :: nat where "S32 = 11"
definition S33 :: nat where "S33 = 16"
definition S34 :: nat where "S34 = 23"
definition S41 :: nat where "S41 = 6"
definition S42 :: nat where "S42 = 10"
definition S43 :: nat where "S43 = 15"
definition S44 :: nat where "S44 = 21"

text \<open>The macros \<^verbatim>\<open>F\<close>, \<^verbatim>\<open>G\<close>, \<^verbatim>\<open>H\<close>, \<^verbatim>\<open>I\<close> and \<^verbatim>\<open>ROTATE_LEFT\<close>.\<close>

definition md5_F :: "u32 \<Rightarrow> u32 \<Rightarrow> u32 \<Rightarrow> u32" where "md5_F x y z = (x AND y) OR (NOT x AND z)"
definition md5_G :: "u32 \<Rightarrow> u32 \<Rightarrow> u32 \<Rightarrow> u32" where "md5_G x y z = (x AND z) OR (y AND NOT z)"
definition md5_H :: "u32 \<Rightarrow> u32 \<Rightarrow> u32 \<Rightarrow> u32" where "md5_H x y z = x XOR y XOR z"
definition md5_I :: "u32 \<Rightarrow> u32 \<Rightarrow> u32 \<Rightarrow> u32" where "md5_I x y z = y XOR (x OR NOT z)"

definition ROTATE_LEFT :: "u32 \<Rightarrow> nat \<Rightarrow> u32" where
  "ROTATE_LEFT x n = push_bit n x OR drop_bit (32 - n) x"

text \<open>The local variables \<^verbatim>\<open>a\<close> to \<^verbatim>\<open>d\<close>, and one line of \<^verbatim>\<open>MD5Transform\<close>: the macro, its four
  variables, the index into \<^verbatim>\<open>x\<close>, the shift and the constant.\<close>

datatype md5_reg = RA | RB | RC | RD

type_synonym md5_regs = "md5_reg \<Rightarrow> u32"

datatype md5_op =
    FF md5_reg md5_reg md5_reg md5_reg nat nat u32
  | GG md5_reg md5_reg md5_reg md5_reg nat nat u32
  | HH md5_reg md5_reg md5_reg md5_reg nat nat u32
  | II md5_reg md5_reg md5_reg md5_reg nat nat u32

definition md5_apply :: "(u32 \<Rightarrow> u32 \<Rightarrow> u32 \<Rightarrow> u32) \<Rightarrow> md5_reg \<Rightarrow> md5_reg \<Rightarrow> md5_reg \<Rightarrow> md5_reg \<Rightarrow> u32 \<Rightarrow> nat \<Rightarrow> u32
    \<Rightarrow> md5_regs \<Rightarrow> md5_regs" where
  "md5_apply f a b c d x s ac r = r(a := ROTATE_LEFT (r a + (f (r b) (r c) (r d) + x + ac)) s + r b)"

fun md5_exec :: "u32 list \<Rightarrow> md5_op \<Rightarrow> md5_regs \<Rightarrow> md5_regs" where
  "md5_exec x (FF a b c d k s ac) = md5_apply md5_F a b c d (x ! k) s ac"
| "md5_exec x (GG a b c d k s ac) = md5_apply md5_G a b c d (x ! k) s ac"
| "md5_exec x (HH a b c d k s ac) = md5_apply md5_H a b c d (x ! k) s ac"
| "md5_exec x (II a b c d k s ac) = md5_apply md5_I a b c d (x ! k) s ac"

text \<open>The 64 lines of \<^verbatim>\<open>MD5Transform\<close>.\<close>

definition md5_lines :: "md5_op list" where
  "md5_lines = [
   FF RA RB RC RD 0 S11 0xd76aa478, FF RD RA RB RC 1 S12 0xe8c7b756,
   FF RC RD RA RB 2 S13 0x242070db, FF RB RC RD RA 3 S14 0xc1bdceee,
   FF RA RB RC RD 4 S11 0xf57c0faf, FF RD RA RB RC 5 S12 0x4787c62a,
   FF RC RD RA RB 6 S13 0xa8304613, FF RB RC RD RA 7 S14 0xfd469501,
   FF RA RB RC RD 8 S11 0x698098d8, FF RD RA RB RC 9 S12 0x8b44f7af,
   FF RC RD RA RB 10 S13 0xffff5bb1, FF RB RC RD RA 11 S14 0x895cd7be,
   FF RA RB RC RD 12 S11 0x6b901122, FF RD RA RB RC 13 S12 0xfd987193,
   FF RC RD RA RB 14 S13 0xa679438e, FF RB RC RD RA 15 S14 0x49b40821,
   GG RA RB RC RD 1 S21 0xf61e2562, GG RD RA RB RC 6 S22 0xc040b340,
   GG RC RD RA RB 11 S23 0x265e5a51, GG RB RC RD RA 0 S24 0xe9b6c7aa,
   GG RA RB RC RD 5 S21 0xd62f105d, GG RD RA RB RC 10 S22 0x2441453,
   GG RC RD RA RB 15 S23 0xd8a1e681, GG RB RC RD RA 4 S24 0xe7d3fbc8,
   GG RA RB RC RD 9 S21 0x21e1cde6, GG RD RA RB RC 14 S22 0xc33707d6,
   GG RC RD RA RB 3 S23 0xf4d50d87, GG RB RC RD RA 8 S24 0x455a14ed,
   GG RA RB RC RD 13 S21 0xa9e3e905, GG RD RA RB RC 2 S22 0xfcefa3f8,
   GG RC RD RA RB 7 S23 0x676f02d9, GG RB RC RD RA 12 S24 0x8d2a4c8a,
   HH RA RB RC RD 5 S31 0xfffa3942, HH RD RA RB RC 8 S32 0x8771f681,
   HH RC RD RA RB 11 S33 0x6d9d6122, HH RB RC RD RA 14 S34 0xfde5380c,
   HH RA RB RC RD 1 S31 0xa4beea44, HH RD RA RB RC 4 S32 0x4bdecfa9,
   HH RC RD RA RB 7 S33 0xf6bb4b60, HH RB RC RD RA 10 S34 0xbebfbc70,
   HH RA RB RC RD 13 S31 0x289b7ec6, HH RD RA RB RC 0 S32 0xeaa127fa,
   HH RC RD RA RB 3 S33 0xd4ef3085, HH RB RC RD RA 6 S34 0x4881d05,
   HH RA RB RC RD 9 S31 0xd9d4d039, HH RD RA RB RC 12 S32 0xe6db99e5,
   HH RC RD RA RB 15 S33 0x1fa27cf8, HH RB RC RD RA 2 S34 0xc4ac5665,
   II RA RB RC RD 0 S41 0xf4292244, II RD RA RB RC 7 S42 0x432aff97,
   II RC RD RA RB 14 S43 0xab9423a7, II RB RC RD RA 5 S44 0xfc93a039,
   II RA RB RC RD 12 S41 0x655b59c3, II RD RA RB RC 3 S42 0x8f0ccc92,
   II RC RD RA RB 10 S43 0xffeff47d, II RB RC RD RA 1 S44 0x85845dd1,
   II RA RB RC RD 8 S41 0x6fa87e4f, II RD RA RB RC 15 S42 0xfe2ce6e0,
   II RC RD RA RB 6 S43 0xa3014314, II RB RC RD RA 13 S44 0x4e0811a1,
   II RA RB RC RD 4 S41 0xf7537e82, II RD RA RB RC 11 S42 0xbd3af235,
   II RC RD RA RB 2 S43 0x2ad7d2bb, II RB RC RD RA 9 S44 0xeb86d391]"

definition Md5_Encode :: "u32 list \<Rightarrow> byte list" where
  "Md5_Encode input = concat (map (\<lambda>w. [ucast (w AND 0xff), ucast (drop_bit 8 w AND 0xff),
     ucast (drop_bit 16 w AND 0xff), ucast (drop_bit 24 w AND 0xff)]) input)"

fun Md5_Decode :: "byte list \<Rightarrow> u32 list" where
  "Md5_Decode (b0 # b1 # b2 # b3 # bs) =
     (ucast b0 OR push_bit 8 (ucast b1) OR push_bit 16 (ucast b2) OR push_bit 24 (ucast b3)) # Md5_Decode bs"
| "Md5_Decode bs = []"

definition MD5Transform :: "md5_regs \<Rightarrow> byte list \<Rightarrow> md5_regs" where
  "MD5Transform state block =
     (let r = fold (md5_exec (Md5_Decode block)) md5_lines state in (\<lambda>i. state i + r i))"

definition PADDING :: "byte list" where
  "PADDING = 0x80 # replicate 63 0"

subsection \<open>\<^verbatim>\<open>MD5\<close>\<close>

record md5_ctx =
  mc_state :: md5_regs
  mc_count0 :: u32
  mc_count1 :: u32
  mc_buffer :: "byte list"

definition MD5_init :: "md5_ctx \<Rightarrow> md5_ctx" where
  "MD5_init ctx = ctx\<lparr>mc_count0 := 0, mc_count1 := 0,
     mc_state := (\<lambda>i. case i of RA \<Rightarrow> 0x67452301 | RB \<Rightarrow> 0xefcdab89 | RC \<Rightarrow> 0x98badcfe | RD \<Rightarrow> 0x10325476)\<rparr>"

text \<open>\<^verbatim>\<open>memcpy(&dst[i], &src[j], n)\<close>.\<close>

definition mem_copy :: "nat \<Rightarrow> byte list \<Rightarrow> nat \<Rightarrow> nat \<Rightarrow> byte list \<Rightarrow> byte list mem" where
  "mem_copy i src j n dst =
     (if i + n \<le> length dst \<and> j + n \<le> length src then Some (take i dst @ take n (drop j src) @ drop (i + n) dst) else None)"

text \<open>\<^verbatim>\<open>for (i = partLen; i + 63 < inputLen; i += 64)\<close>, on unsigned numbers.\<close>

function md5_blocks :: "byte list \<Rightarrow> u32 \<Rightarrow> nat \<Rightarrow> md5_regs \<Rightarrow> (nat \<times> md5_regs) mem" where
  "md5_blocks input n i state =
     (if word_of_nat (i + 63) < n then
        if length input < i + 64 then None
        else md5_blocks input n (i + 64) (MD5Transform state (take 64 (drop i input)))
      else Some (i, state))"
  by pat_completeness auto
termination by (relation "measure (\<lambda>(input, n, i, state). length input - i)") auto

definition MD5_update :: "byte list \<Rightarrow> u32 \<Rightarrow> md5_ctx \<Rightarrow> md5_ctx mem" where
  "MD5_update input n ctx =
     (let index = unat (drop_bit 3 (mc_count0 ctx) AND 0x3F);
          c0 = mc_count0 ctx + push_bit 3 n;
          c1 = (if c0 < push_bit 3 n then mc_count1 ctx + 1 else mc_count1 ctx) + drop_bit 29 n;
          ctx1 = ctx\<lparr>mc_count0 := c0, mc_count1 := c1\<rparr>;
          partLen = 64 - index
      in if n \<ge> word_of_nat partLen then
           Option.bind (mem_copy index input 0 partLen (mc_buffer ctx)) (\<lambda>b.
             Option.bind (md5_blocks input n partLen (MD5Transform (mc_state ctx) b)) (\<lambda>(i, state).
               map_option (\<lambda>b2. ctx1\<lparr>mc_state := state, mc_buffer := b2\<rparr>) (mem_copy 0 input i (unat n - i) b)))
         else map_option (\<lambda>b. ctx1\<lparr>mc_buffer := b\<rparr>) (mem_copy index input 0 (unat n) (mc_buffer ctx)))"

definition MD5_final :: "md5_ctx \<Rightarrow> byte list mem" where
  "MD5_final ctx =
     (let bits = Md5_Encode [mc_count0 ctx, mc_count1 ctx];
          index = drop_bit 3 (mc_count0 ctx) AND 0x3f;
          padLen = (if index < 56 then 56 - index else 120 - index)
      in Option.bind (MD5_update PADDING padLen ctx) (\<lambda>ctx1.
           map_option (\<lambda>ctx2. Md5_Encode (map (mc_state ctx2) [RA, RB, RC, RD])) (MD5_update bits 8 ctx1)))"

text \<open>\<^verbatim>\<open>strlen\<close>, narrowed to \<^verbatim>\<open>unsigned int\<close> by the call; \<^term>\<open>ctx\<close> is what the object held before.\<close>

definition c_strlen :: "byte list \<Rightarrow> nat mem" where
  "c_strlen m = (if 0 \<in> set m then Some (length (takeWhile (\<lambda>b. b \<noteq> 0) m)) else None)"

definition MD5_encrypt :: "byte list \<Rightarrow> md5_ctx \<Rightarrow> byte list mem" where
  "MD5_encrypt input ctx =
     Option.bind (c_strlen input) (\<lambda>l.
       Option.bind (MD5_update input (word_of_nat l) (MD5_init ctx)) MD5_final)"

definition hex_digits :: string where "hex_digits = ''0123456789ABCDEF''"

definition MD5_toString :: "byte list \<Rightarrow> string" where
  "MD5_toString digest = concat (map (\<lambda>b. [hex_digits ! unat (drop_bit 4 (b AND 0xF0)), hex_digits ! unat (b AND 0x0F)]) digest)"

end
