(* ===== verification/Md5_Props.thy ===== *)
theory Md5_Props
  imports Md5
begin

text \<open>
  The MD5 code computes the algorithm of RFC 1321.
\<close>

subsection \<open>The reference\<close>

definition rfc_K :: "u32 list" where
  "rfc_K = [
   0xd76aa478, 0xe8c7b756, 0x242070db, 0xc1bdceee, 0xf57c0faf, 0x4787c62a, 0xa8304613, 0xfd469501,
   0x698098d8, 0x8b44f7af, 0xffff5bb1, 0x895cd7be, 0x6b901122, 0xfd987193, 0xa679438e, 0x49b40821,
   0xf61e2562, 0xc040b340, 0x265e5a51, 0xe9b6c7aa, 0xd62f105d, 0x2441453, 0xd8a1e681, 0xe7d3fbc8,
   0x21e1cde6, 0xc33707d6, 0xf4d50d87, 0x455a14ed, 0xa9e3e905, 0xfcefa3f8, 0x676f02d9, 0x8d2a4c8a,
   0xfffa3942, 0x8771f681, 0x6d9d6122, 0xfde5380c, 0xa4beea44, 0x4bdecfa9, 0xf6bb4b60, 0xbebfbc70,
   0x289b7ec6, 0xeaa127fa, 0xd4ef3085, 0x4881d05, 0xd9d4d039, 0xe6db99e5, 0x1fa27cf8, 0xc4ac5665,
   0xf4292244, 0x432aff97, 0xab9423a7, 0xfc93a039, 0x655b59c3, 0x8f0ccc92, 0xffeff47d, 0x85845dd1,
   0x6fa87e4f, 0xfe2ce6e0, 0xa3014314, 0x4e0811a1, 0xf7537e82, 0xbd3af235, 0x2ad7d2bb, 0xeb86d391]"

definition rfc_shift :: "nat \<Rightarrow> nat" where
  "rfc_shift i = [[7, 12, 17, 22], [5, 9, 14, 20], [4, 11, 16, 23], [6, 10, 15, 21]] ! (i div 16) ! (i mod 4)"

definition rfc_index :: "nat \<Rightarrow> nat" where
  "rfc_index i = (if i < 16 then i else if i < 32 then (5 * i + 1) mod 16 else if i < 48 then (3 * i + 5) mod 16 else (7 * i) mod 16)"

definition rfc_fun :: "nat \<Rightarrow> u32 \<Rightarrow> u32 \<Rightarrow> u32 \<Rightarrow> u32" where
  "rfc_fun i x y z = (if i < 16 then (x AND y) OR (NOT x AND z) else if i < 32 then (x AND z) OR (y AND NOT z)
     else if i < 48 then x XOR y XOR z else y XOR (x OR NOT z))"

type_synonym rfc_state = "u32 \<times> u32 \<times> u32 \<times> u32"

definition rfc_step :: "u32 list \<Rightarrow> nat \<Rightarrow> rfc_state \<Rightarrow> rfc_state" where
  "rfc_step x i s = (case s of (a, b, c, d) \<Rightarrow>
     (d, word_rotl (rfc_shift i) (a + (rfc_fun i b c d + x ! rfc_index i + rfc_K ! i)) + b, b, c))"

function rfc_words :: "byte list \<Rightarrow> u32 list" where
  "rfc_words bs = (if length bs < 4 then [] else le_val (take 4 bs) # rfc_words (drop 4 bs))"
  by auto
termination by (relation "measure length") auto

definition rfc_block :: "byte list \<Rightarrow> rfc_state \<Rightarrow> rfc_state" where
  "rfc_block bs s = (case (s, fold (rfc_step (rfc_words bs)) [0..<64] s) of
     ((a, b, c, d), (a2, b2, c2, d2)) \<Rightarrow> (a + a2, b + b2, c + c2, d + d2))"

text \<open>The whole blocks of a message, and what is left behind them.\<close>

function rfc_fold :: "rfc_state \<Rightarrow> byte list \<Rightarrow> rfc_state" where
  "rfc_fold s bs = (if length bs < 64 then s else rfc_fold (rfc_block (take 64 bs) s) (drop 64 bs))"
  by auto
termination by (relation "measure (\<lambda>(s, bs). length bs)") auto

definition rfc_pad :: "byte list \<Rightarrow> byte list" where
  "rfc_pad m = m @ 0x80 # replicate ((119 - length m mod 64) mod 64) 0 @ le_bytes 8 (word_of_nat (8 * length m) :: u64)"

definition rfc_md5 :: "byte list \<Rightarrow> byte list" where
  "rfc_md5 m = (case rfc_fold (0x67452301, 0xefcdab89, 0x98badcfe, 0x10325476) (rfc_pad m) of
     (a, b, c, d) \<Rightarrow> le_bytes 4 a @ le_bytes 4 b @ le_bytes 4 c @ le_bytes 4 d)"

declare rfc_words.simps [simp del] rfc_fold.simps [simp del] md5_blocks.simps [simp del]

subsection \<open>The 64 steps\<close>

lemma ROTATE_LEFT_rotl:
  assumes "0 < n" "n < 32"
  shows "ROTATE_LEFT x n = word_rotl n x"
proof (rule bit_word_eqI)
  fix m assume m: "m < LENGTH(32)"
  then show "bit (ROTATE_LEFT x n) m = bit (word_rotl n x) m"
    using assms by (cases "n \<le> m") (auto simp: ROTATE_LEFT_def bit_simps le_mod_geq mod_if add.commute [of 32 m] dest: bit_imp_le_length)
qed

definition roles :: "nat \<Rightarrow> md5_reg \<times> md5_reg \<times> md5_reg \<times> md5_reg" where
  "roles i = [(RA, RB, RC, RD), (RD, RA, RB, RC), (RC, RD, RA, RB), (RB, RC, RD, RA)] ! (i mod 4)"

definition line :: "nat \<Rightarrow> md5_op" where
  "line i = (case roles i of (a, b, c, d) \<Rightarrow>
     (if i < 16 then FF else if i < 32 then GG else if i < 48 then HH else II) a b c d (rfc_index i) (rfc_shift i) (rfc_K ! i))"

lemma md5_lines_are: "md5_lines = map line [0..<64]"
  by (simp add: md5_lines_def line_def roles_def rfc_index_def rfc_shift_def rfc_K_def upt_rec
      S11_def S12_def S13_def S14_def S21_def S22_def S23_def S24_def S31_def S32_def S33_def S34_def S41_def S42_def S43_def S44_def)

definition view :: "nat \<Rightarrow> md5_regs \<Rightarrow> rfc_state" where
  "view i r = (case roles i of (a, b, c, d) \<Rightarrow> (r a, r b, r c, r d))"

lemma shift_range: "i < 64 \<Longrightarrow> 0 < rfc_shift i \<and> rfc_shift i < 32"
proof -
  assume "i < 64"
  then have "i div 16 < 4" "i mod 4 < 4" by auto
  then have "i div 16 \<in> {0, 1, 2, 3}" "i mod 4 \<in> {0, 1, 2, 3}" by auto
  then show ?thesis by (auto simp: rfc_shift_def)
qed

lemma roles_cases:
  obtains "i mod 4 = 0" "Suc i mod 4 = 1" "roles i = (RA, RB, RC, RD)" "roles (Suc i) = (RD, RA, RB, RC)"
  | "i mod 4 = 1" "Suc i mod 4 = 2" "roles i = (RD, RA, RB, RC)" "roles (Suc i) = (RC, RD, RA, RB)"
  | "i mod 4 = 2" "Suc i mod 4 = 3" "roles i = (RC, RD, RA, RB)" "roles (Suc i) = (RB, RC, RD, RA)"
  | "i mod 4 = 3" "Suc i mod 4 = 0" "roles i = (RB, RC, RD, RA)" "roles (Suc i) = (RA, RB, RC, RD)"
proof -
  have "i mod 4 < 4" by simp
  then consider "i mod 4 = 0" | "i mod 4 = 1" | "i mod 4 = 2" | "i mod 4 = 3" by linarith
  then show thesis
  proof cases
    case 1 then have "Suc i mod 4 = 1" by presburger
    with 1 that(1) show ?thesis by (simp add: roles_def)
  next
    case 2 then have "Suc i mod 4 = 2" by presburger
    with 2 that(2) show ?thesis by (simp add: roles_def)
  next
    case 3 then have "Suc i mod 4 = 3" by presburger
    with 3 that(3) show ?thesis by (simp add: roles_def)
  next
    case 4 then have "Suc i mod 4 = 0" by presburger
    with 4 that(4) show ?thesis by (simp add: roles_def)
  qed
qed

lemma exec_line:
  assumes "i < 64" "roles i = (a, b, c, d)"
  shows "md5_exec x (line i) r = r(a := word_rotl (rfc_shift i)
    (r a + (rfc_fun i (r b) (r c) (r d) + x ! rfc_index i + rfc_K ! i)) + r b)"
  using assms shift_range [OF assms(1)]
  by (simp add: line_def md5_apply_def ROTATE_LEFT_rotl rfc_fun_def md5_F_def md5_G_def md5_H_def md5_I_def)

lemma exec_view: "i < 64 \<Longrightarrow> view (Suc i) (md5_exec x (line i) r) = rfc_step x i (view i r)"
  by (rule roles_cases [of i]) (simp_all add: exec_line view_def rfc_step_def)

lemma lines_view: "n \<le> 64 \<Longrightarrow> view n (fold (md5_exec x) (map line [0..<n]) r) = fold (rfc_step x) [0..<n] (view 0 r)"
  by (induction n) (simp_all add: exec_view)

lemma view_0: "view 0 r = (r RA, r RB, r RC, r RD)"
  by (simp add: view_def roles_def)

lemma view_64 [simp]: "view 64 r = view 0 r"
  by (simp add: view_def roles_def)

lemma Decode_words: "4 dvd length bs \<Longrightarrow> Md5_Decode bs = rfc_words bs"
proof (induction bs rule: Md5_Decode.induct)
  case (1 b0 b1 b2 b3 bs)
  then have "4 dvd Suc (Suc (Suc (Suc (length bs))))" by simp
  then have "4 dvd length bs" by presburger
  then show ?case using 1 by (subst rfc_words.simps) (simp add: or.assoc)
qed (auto simp: rfc_words.simps dest: dvd_imp_le)

lemma Transform_view:
  assumes "length block = 64"
  shows "view 0 (MD5Transform r block) = rfc_block block (view 0 r)"
proof -
  have "view 64 (fold (md5_exec (Md5_Decode block)) md5_lines r) = fold (rfc_step (rfc_words block)) [0..<64] (view 0 r)"
    using lines_view [of 64] Decode_words [of block] assms unfolding md5_lines_are by simp
  then show ?thesis by (auto simp: view_0 MD5Transform_def rfc_block_def Let_def split: prod.splits)
qed

subsection \<open>Feeding the message\<close>

lemma rfc_fold_short [simp]: "length bs < 64 \<Longrightarrow> rfc_fold s bs = s"
  by (simp add: rfc_fold.simps)

lemma rfc_fold_block [simp]: "length b = 64 \<Longrightarrow> rfc_fold s (b @ bs) = rfc_fold (rfc_block b s) bs"
  by (subst rfc_fold.simps) simp

definition rest :: "byte list \<Rightarrow> byte list" where
  "rest m = drop (64 * (length m div 64)) m"

lemma length_rest [simp]: "length (rest m) = length m mod 64"
  by (simp add: rest_def modulo_nat_def)

lemma rfc_fold_append: "rfc_fold s (m @ bs) = rfc_fold (rfc_fold s m) (rest m @ bs)"
proof (induction s m rule: rfc_fold.induct)
  case (1 s m)
  show ?case
  proof (cases "length m < 64")
    case True
    then show ?thesis by (simp add: rest_def)
  next
    case False
    have d: "length m div 64 = Suc ((length m - 64) div 64)" using False by (simp add: le_div_geq)
    have m: "m = take 64 m @ drop 64 m" "length (take 64 m) = 64" using False by simp_all
    have "rest m = rest (drop 64 m)" using d by (simp add: rest_def add.commute)
    then show ?thesis using 1 [OF False] m by (metis append_assoc rfc_fold_block)
  qed
qed

lemma rest_append: "rest (m @ bs) = rest (rest m @ bs)"
proof -
  let ?k = "64 * (length m div 64)"
  have m: "?k \<le> length m" by simp
  have "rest m @ bs = drop ?k (m @ bs)" using m by (simp add: rest_def)
  moreover have "length (m @ bs) div 64 = length m div 64 + length (drop ?k (m @ bs)) div 64"
  proof -
    have "length (m @ bs) = ?k + length (drop ?k (m @ bs))" using m by simp
    then show ?thesis by (metis div_mult_self4 zero_neq_numeral)
  qed
  ultimately show ?thesis unfolding rest_def [of "m @ bs"] rest_def [of "rest m @ bs"]
    by (simp only: drop_drop) (simp add: distrib_left add.commute)
qed

text \<open>What the context holds behind the bytes of \<^term>\<open>m\<close>.\<close>

definition init_regs :: md5_regs where
  "init_regs = (\<lambda>i. case i of RA \<Rightarrow> 0x67452301 | RB \<Rightarrow> 0xefcdab89 | RC \<Rightarrow> 0x98badcfe | RD \<Rightarrow> 0x10325476)"

definition absorbed :: "md5_ctx \<Rightarrow> byte list \<Rightarrow> bool" where
  "absorbed ctx m \<longleftrightarrow> length (mc_buffer ctx) = 64 \<and> take (length m mod 64) (mc_buffer ctx) = rest m
     \<and> view 0 (mc_state ctx) = rfc_fold (view 0 init_regs) m
     \<and> mc_count0 ctx = word_of_nat (8 * length m) \<and> mc_count1 ctx = word_of_nat (8 * length m div 2 ^ 32)"

lemma unat_index: "unat (drop_bit 3 w AND 0x3F :: u32) = unat w div 8 mod 64"
proof -
  have "drop_bit 3 w AND 0x3F = take_bit 6 (drop_bit 3 w)" by (simp add: take_bit_eq_mask mask_numeral)
  moreover have "unat (take_bit 6 (drop_bit 3 w)) = unat w div 8 mod 64"
    unfolding unsigned_take_bit_eq unat_drop_bit_eq by (simp add: take_bit_eq_mod drop_bit_eq_div)
  ultimately show ?thesis by simp
qed

lemma index_of_count: "unat (drop_bit 3 (word_of_nat (8 * k) :: u32) AND 0x3F) = k mod 64"
proof -
  have "unat (word_of_nat (8 * k) :: u32) = 8 * k mod 2 ^ 32" by (simp only: unat_of_nat take_bit_eq_mod) simp
  moreover have "8 * k mod 2 ^ 32 = 8 * (k mod 2 ^ 29)" by (simp add: mult_mod_right)
  moreover have "k mod 2 ^ 29 mod 64 = k mod 64" by (rule mod_mod_cancel) simp
  ultimately show ?thesis unfolding unat_index by simp
qed

lemma blocks_fold:
  assumes "unat n \<le> length input" "unat n + 64 < 2 ^ 32" "i \<le> unat n"
  shows "\<exists>r'. md5_blocks input n i r = Some (i + 64 * ((unat n - i) div 64), r')
    \<and> view 0 r' = rfc_fold (view 0 r) (take (unat n - i) (drop i input))"
  using assms
proof (induction input n i r rule: md5_blocks.induct)
  case (1 input n i r)
  have w: "unat (word_of_nat (i + 63) :: u32) = i + 63" using 1(3,4) by (intro unat_of_nat_small) simp
  show ?case
  proof (cases "i + 63 < unat n")
    case False
    then have "\<not> word_of_nat (i + 63) < n" using w by (simp add: word_less_nat_alt)
    then show ?thesis using False 1(2) by (subst md5_blocks.simps) simp
  next
    case True
    then have l: "word_of_nat (i + 63) < n" "\<not> length input < i + 64" using w 1(2) by (simp_all add: word_less_nat_alt)
    let ?b = "take 64 (drop i input)"
    obtain r' where r': "md5_blocks input n (i + 64) (MD5Transform r ?b) = Some (i + 64 + 64 * ((unat n - (i + 64)) div 64), r')"
      "view 0 r' = rfc_fold (view 0 (MD5Transform r ?b)) (take (unat n - (i + 64)) (drop (i + 64) input))"
      using 1(1) [OF l 1(2,3)] True by auto
    have b: "length ?b = 64" using l by simp
    have "take (unat n - i) (drop i input) = ?b @ take (unat n - (i + 64)) (drop (i + 64) input)"
      using True take_add [of 64 "unat n - (i + 64)" "drop i input"] by (simp add: add.commute)
    moreover have "(unat n - i) div 64 = Suc ((unat n - (i + 64)) div 64)" using True by (simp add: le_div_geq)
    ultimately show ?thesis using r' l b by (subst md5_blocks.simps) (simp add: Transform_view [OF b])
  qed
qed

text \<open>The 64-bit count of bits in two words.\<close>

lemma carry:
  fixes a b m :: nat
  assumes "a < m" "b < m"
  shows "((a + b) mod m < b) = (m \<le> a + b)" "(a + b) div m = (if m \<le> a + b then 1 else 0)"
proof -
  consider "a + b < m" | "m \<le> a + b" "a + b - m < m" using assms by linarith
  then show "((a + b) mod m < b) = (m \<le> a + b)" "(a + b) div m = (if m \<le> a + b then 1 else 0)"
    using assms by (cases; auto simp: le_mod_geq le_div_geq)+
qed

lemma count_add:
  fixes n :: u32
  assumes "c0 = word_of_nat (8 * k)" "c1 = word_of_nat (8 * k div 2 ^ 32)"
  shows "c0 + push_bit 3 n = word_of_nat (8 * (k + unat n))"
    and "(if c0 + push_bit 3 n < push_bit 3 n then c1 + 1 else c1) + drop_bit 29 n = word_of_nat (8 * (k + unat n) div 2 ^ 32)"
proof -
  have p: "push_bit 3 n = word_of_nat (8 * unat n)" by (simp add: push_bit_eq_mult)
  then show a: "c0 + push_bit 3 n = word_of_nat (8 * (k + unat n))" using assms(1) by (simp add: algebra_simps)
  let ?x = "8 * k" and ?y = "8 * unat n" and ?M = "2 ^ 32 :: nat"
  have u: "unat (push_bit 3 n) = ?y mod ?M" "unat (c0 + push_bit 3 n) = (?x + ?y) mod ?M"
    by (simp add: p unat_of_nat del: of_nat_mult) (simp add: a unat_of_nat distrib_left del: of_nat_mult of_nat_add)
  have d: "drop_bit 29 n = word_of_nat (?y div ?M)"
  proof (rule word_unat_eq_iff [THEN iffD2])
    have "unat n div 2 ^ 29 < 2 ^ LENGTH(32)" using unat_lt2p [of n] by (intro le_less_trans [OF div_le_dividend])
    note u = unat_of_nat_small [OF this]
    have e: "8 * unat n div 2 ^ 32 = unat n div 2 ^ 29" by simp
    show "unat (drop_bit 29 n) = unat (word_of_nat (?y div ?M) :: u32)"
      unfolding e u by (simp only: unat_drop_bit_eq) (simp only: drop_bit_eq_div)
  qed
  have s: "(?x + ?y) mod ?M = (?x mod ?M + ?y mod ?M) mod ?M" by (simp add: mod_add_eq)
  have l: "?x mod ?M < ?M" "?y mod ?M < ?M" by simp_all
  have q: "8 * (k + unat n) div ?M = ?x div ?M + ?y div ?M + (if ?M \<le> ?x mod ?M + ?y mod ?M then 1 else 0)"
    unfolding distrib_left div_add1_eq [of ?x ?y] carry(2) [OF l] ..
  have c: "(c0 + push_bit 3 n < push_bit 3 n) = (?M \<le> ?x mod ?M + ?y mod ?M)"
    unfolding word_less_nat_alt u s by (rule carry(1) [OF l])
  have gen: "(if b then word_of_nat i + 1 else word_of_nat i) + word_of_nat j = (word_of_nat (i + j + (if b then 1 else 0)) :: u32)"
    for b and i j :: nat by (simp add: algebra_simps)
  show "(if c0 + push_bit 3 n < push_bit 3 n then c1 + 1 else c1) + drop_bit 29 n = word_of_nat (8 * (k + unat n) div 2 ^ 32)"
    unfolding q d c assms(2) by (rule gen)
qed

lemma rest_block: "length b = 64 \<Longrightarrow> rest (b @ ys) = rest ys"
  by (simp add: rest_def div_add_self1 [of 64 "length ys", simplified])

lemma rest_eq_self: "length ys < 64 \<Longrightarrow> rest ys = ys"
  by (simp add: rest_def)

lemma absorbedI:
  assumes "length b = 64" "take (length m mod 64) b = rest m" "view 0 r = rfc_fold (view 0 init_regs) m"
    "c0 = word_of_nat (8 * length m)" "c1 = word_of_nat (8 * length m div 2 ^ 32)"
  shows "absorbed (ctx\<lparr>mc_count0 := c0, mc_count1 := c1, mc_state := r, mc_buffer := b\<rparr>) m"
    and "r = mc_state ctx \<Longrightarrow> absorbed (ctx\<lparr>mc_count0 := c0, mc_count1 := c1, mc_buffer := b\<rparr>) m"
  using assms by (simp_all add: absorbed_def)

lemma update_facts:
  assumes ok: "absorbed ctx m" and n: "unat n \<le> length input"
  shows "length (mc_buffer ctx) = 64" "take (length m mod 64) (mc_buffer ctx) = rest m"
    and "view 0 (mc_state ctx) = rfc_fold (view 0 init_regs) m"
    and "unat (drop_bit 3 (mc_count0 ctx) AND 0x3F) = length m mod 64"
    and "word_of_nat (64 - length m mod 64) \<le> n \<longleftrightarrow> 64 - length m mod 64 \<le> unat n"
    and "mc_count0 ctx + push_bit 3 n = word_of_nat (8 * length (m @ take (unat n) input))"
    and "(if mc_count0 ctx + push_bit 3 n < push_bit 3 n then mc_count1 ctx + 1 else mc_count1 ctx) + drop_bit 29 n
      = word_of_nat (8 * length (m @ take (unat n) input) div 2 ^ 32)"
proof -
  have c: "mc_count0 ctx = word_of_nat (8 * length m)" "mc_count1 ctx = word_of_nat (8 * length m div 2 ^ 32)"
    using ok by (simp_all add: absorbed_def)
  show "unat (drop_bit 3 (mc_count0 ctx) AND 0x3F) = length m mod 64" unfolding c by (rule index_of_count)
  show "word_of_nat (64 - length m mod 64) \<le> n \<longleftrightarrow> 64 - length m mod 64 \<le> unat n"
    by (simp add: word_le_nat_alt unat_of_nat_small del: of_nat_diff)
  show "mc_count0 ctx + push_bit 3 n = word_of_nat (8 * length (m @ take (unat n) input))"
    "(if mc_count0 ctx + push_bit 3 n < push_bit 3 n then mc_count1 ctx + 1 else mc_count1 ctx) + drop_bit 29 n
      = word_of_nat (8 * length (m @ take (unat n) input) div 2 ^ 32)"
    using count_add [OF c, of n] n by simp_all
qed (use ok in \<open>simp_all add: absorbed_def\<close>)

lemma absorbed_update_full:
  assumes ok: "absorbed ctx m" and n: "unat n \<le> length input" "unat n + 64 < 2 ^ 32" and True: "64 - length m mod 64 \<le> unat n"
  shows "\<exists>ctx'. MD5_update input n ctx = Some ctx' \<and> absorbed ctx' (m @ take (unat n) input)"
proof -
  let ?k = "length m mod 64" and ?ins = "take (unat n) input"
  note l = update_facts(1-3) [OF ok n(1)] and ix = update_facts(4) [OF ok n(1)]
    and pl = update_facts(5) [OF ok n(1)] and cs = update_facts(6,7) [OF ok n(1)]
  have k: "?k < 64" by simp
  define p where "p = 64 - ?k"
  define d where "d = unat n - p"
  have pk: "p + ?k = 64" "p \<le> unat n" "unat n = p + d" using k True by (simp_all add: p_def d_def)
  let ?b = "rest m @ take p input" and ?ys = "take d (drop p input)"
  let ?st = "MD5Transform (mc_state ctx) ?b" and ?i = "p + 64 * (d div 64)"
  have lp: "p \<le> length input" "d \<le> length input - p" using n(1) pk by simp_all
  have b: "length ?b = 64" using pk lp by (simp add: add.commute)
  have m1: "mem_copy ?k input 0 p (mc_buffer ctx) = Some ?b"
    using l pk lp by (simp add: mem_copy_def add.commute)
  obtain r' where r': "md5_blocks input n p ?st = Some (?i, r')" "view 0 r' = rfc_fold (view 0 ?st) ?ys"
    using blocks_fold [OF n pk(2)] by (auto simp: d_def)
  have ins: "?ins = take p input @ ?ys" unfolding pk(3) by (rule take_add)
  have ly: "length ?ys = d" using lp by simp
  have dd: "d = 64 * (d div 64) + d mod 64" by simp
  then have i: "unat n = ?i + d mod 64" unfolding pk(3) by linarith
  have rys: "rest ?ys = take (d mod 64) (drop ?i input)"
  proof -
    have "d - 64 * (d div 64) = d mod 64" by (rule minus_mult_div_eq_mod)
    then show ?thesis unfolding rest_def ly by (simp add: drop_take add.commute)
  qed
  have ni: "unat n - ?i = d mod 64" unfolding i by (rule diff_add_inverse)
  have m2: "mem_copy 0 input ?i (unat n - ?i) ?b = Some (rest ?ys @ drop (d mod 64) ?b)"
  proof -
    have "d mod 64 \<le> length ?b" "?i + d mod 64 \<le> length input" using b i n(1) by simp_all
    then show ?thesis unfolding ni rys by (simp add: mem_copy_def)
  qed
  have f: "rest (m @ ?ins) = rest ?ys" "rfc_fold s0 (m @ ?ins) = rfc_fold (rfc_block ?b (rfc_fold s0 m)) ?ys" for s0
    using rest_append [of m ?ins] rest_block [OF b, of ?ys] rfc_fold_append [of s0 m ?ins] rfc_fold_block [OF b, of "rfc_fold s0 m" ?ys]
    unfolding ins by simp_all
  have lr: "length (m @ ?ins) mod 64 = d mod 64" using arg_cong [OF f(1), of length] ly by simp
  let ?ctx = "ctx\<lparr>mc_count0 := mc_count0 ctx + push_bit 3 n,
     mc_count1 := (if mc_count0 ctx + push_bit 3 n < push_bit 3 n then mc_count1 ctx + 1 else mc_count1 ctx) + drop_bit 29 n,
     mc_state := r', mc_buffer := rest ?ys @ drop (d mod 64) ?b\<rparr>"
  have "MD5_update input n ctx = Some ?ctx"
    using m1 m2 r'(1) pl True unfolding p_def by (simp add: MD5_update_def ix Let_def del: of_nat_diff)
  moreover have "absorbed ?ctx (m @ ?ins)"
  proof -
    have lb: "length (rest ?ys @ drop (d mod 64) ?b) = 64"
    proof -
      have "length (rest ?ys) = d mod 64" "d mod 64 \<le> length ?b" using ly b by simp_all
      then show ?thesis using b by (simp only: length_append length_drop)
    qed
    have tb: "take (length (m @ ?ins) mod 64) (rest ?ys @ drop (d mod 64) ?b) = rest (m @ ?ins)"
      unfolding f(1) lr using ly by simp
    have vb: "view 0 r' = rfc_fold (view 0 init_regs) (m @ ?ins)"
      unfolding f(2) r'(2) Transform_view [OF b] l(3) ..
    show ?thesis by (rule absorbedI(1) [OF lb tb vb cs])
  qed
  ultimately show ?thesis by blast
qed

lemma absorbed_update_part:
  assumes ok: "absorbed ctx m" and n: "unat n \<le> length input" "unat n + 64 < 2 ^ 32" and False: "\<not> 64 - length m mod 64 \<le> unat n"
  shows "\<exists>ctx'. MD5_update input n ctx = Some ctx' \<and> absorbed ctx' (m @ take (unat n) input)"
proof -
  let ?k = "length m mod 64" and ?ins = "take (unat n) input"
  note l = update_facts(1-3) [OF ok n(1)] and ix = update_facts(4) [OF ok n(1)]
    and pl = update_facts(5) [OF ok n(1)] and cs = update_facts(6,7) [OF ok n(1)]
  have k: "?k < 64" by simp
  let ?b = "rest m @ ?ins @ drop (?k + unat n) (mc_buffer ctx)"
  have s: "length (rest m @ ?ins) < 64" using False n(1) k by simp
  have lm: "length (m @ ?ins) mod 64 = length (rest m @ ?ins)"
    using arg_cong [OF rest_append [of m ?ins], of length] s by simp
  have m1: "mem_copy ?k input 0 (unat n) (mc_buffer ctx) = Some ?b" using l False n(1) by (simp add: mem_copy_def)
  let ?ctx = "ctx\<lparr>mc_count0 := mc_count0 ctx + push_bit 3 n,
     mc_count1 := (if mc_count0 ctx + push_bit 3 n < push_bit 3 n then mc_count1 ctx + 1 else mc_count1 ctx) + drop_bit 29 n,
     mc_buffer := ?b\<rparr>"
  have "MD5_update input n ctx = Some ?ctx"
    using m1 pl False by (simp add: MD5_update_def ix Let_def del: of_nat_diff)
  moreover have "absorbed ?ctx (m @ ?ins)"
  proof -
    have r: "rest (m @ ?ins) = rest m @ ?ins" using rest_append [of m ?ins] rest_eq_self [OF s] by simp
    have v: "view 0 (mc_state ctx) = rfc_fold (view 0 init_regs) (m @ ?ins)"
      unfolding rfc_fold_append [of _ m ?ins] rfc_fold_short [OF s] by (rule l(3))
    have lb: "length ?b = 64" using s l(1) n(1) False by simp
    have tb: "take (length (m @ ?ins) mod 64) ?b = rest (m @ ?ins)" unfolding lm r using n(1) by simp
    show ?thesis by (rule absorbedI(2) [OF lb tb v cs refl])
  qed
  ultimately show ?thesis by blast
qed

lemma absorbed_update:
  assumes "absorbed ctx m" "unat n \<le> length input" "unat n + 64 < 2 ^ 32"
  shows "\<exists>ctx'. MD5_update input n ctx = Some ctx' \<and> absorbed ctx' (m @ take (unat n) input)"
  using absorbed_update_full [OF assms] absorbed_update_part [OF assms] by blast

subsection \<open>The digest\<close>

lemma Encode_le: "Md5_Encode ws = concat (map (le_bytes 4) ws)"
proof -
  have "[ucast (w AND 0xff), ucast (drop_bit 8 w AND 0xff), ucast (drop_bit 16 w AND 0xff), ucast (drop_bit 24 w AND 0xff)]
      = (le_bytes 4 w :: byte list)" for w :: u32
  proof -
    have m: "(0xff :: u32) = mask 8" by (simp add: mask_numeral)
    have "ucast (v AND 0xff) = (ucast v :: byte)" for v :: u32
      unfolding m by (rule bit_word_eqI) (auto simp: bit_simps)
    then show ?thesis by (simp add: numeral_eq_Suc)
  qed
  then show ?thesis by (simp add: Md5_Encode_def)
qed

lemma le_bytes_two: "le_bytes 8 (w :: u64) = le_bytes 4 (ucast w :: u32) @ le_bytes 4 (ucast (drop_bit 32 w) :: u32)"
proof -
  have d: "(ucast (drop_bit k w) :: byte) = ucast (drop_bit k (ucast w :: u32))" if "k \<le> 24" for k
    using that by (intro bit_word_eqI) (auto simp: bit_simps)
  have e: "(ucast (drop_bit (32 + k) w) :: byte) = ucast (drop_bit k (ucast (drop_bit 32 w) :: u32))" if "k \<le> 24" for k
    using that by (intro bit_word_eqI) (auto simp: bit_simps ac_simps)
  show ?thesis
    using d [of 0] d [of 8] d [of 16] d [of 24] e [of 0] e [of 8] e [of 16] e [of 24]
    by (simp add: numeral_eq_Suc)
qed

lemma absorbed_init: "length (mc_buffer ctx) = 64 \<Longrightarrow> absorbed (MD5_init ctx) []"
  by (simp add: absorbed_def MD5_init_def init_regs_def rest_def)

lemma final_digest:
  assumes ok: "absorbed ctx m"
  shows "MD5_final ctx = Some (case rfc_fold (view 0 init_regs) (rfc_pad m) of
    (a, b, c, d) \<Rightarrow> le_bytes 4 a @ le_bytes 4 b @ le_bytes 4 c @ le_bytes 4 d)"
proof -
  let ?index = "drop_bit 3 (mc_count0 ctx) AND 0x3f" and ?k = "length m mod 64"
  let ?pad = "if ?index < 56 then 56 - ?index else 120 - ?index" and ?n = "Suc ((119 - ?k) mod 64)"
  let ?bits = "Md5_Encode [mc_count0 ctx, mc_count1 ctx]"
  have c: "mc_count0 ctx = word_of_nat (8 * length m)" "mc_count1 ctx = word_of_nat (8 * length m div 2 ^ 32)"
    using ok by (simp_all add: absorbed_def)
  have ix: "unat ?index = ?k" unfolding c by (rule index_of_count)
  have k: "?k < 64" by simp
  have n: "unat ?pad = ?n"
  proof (cases "?k < 56")
    case True
    then have "?index < 56" using ix by (simp add: word_less_nat_alt)
    then have "unat ?pad = 56 - ?k" using ix True by (simp add: unat_sub word_le_nat_alt)
    moreover have "119 - ?k = 64 + (55 - ?k)" "55 - ?k < 64" using True by simp_all
    then have "(119 - ?k) mod 64 = 55 - ?k" by (simp only: mod_add_self1 mod_less)
    ultimately show ?thesis using Suc_diff_le [of ?k 55] True by simp
  next
    case False
    then have "\<not> ?index < 56" using ix by (simp add: word_less_nat_alt)
    then have "unat ?pad = 120 - ?k" using ix k by (simp add: unat_sub word_le_nat_alt)
    moreover have "(119 - ?k) mod 64 = 119 - ?k" using False by (intro mod_less) simp
    ultimately show ?thesis using Suc_diff_le [of ?k 119] k by simp
  qed
  have n64: "?n \<le> 64" by (simp add: Suc_le_eq)
  then have lp: "unat ?pad \<le> length PADDING" "unat ?pad + 64 < 2 ^ 32" unfolding n by (simp_all add: PADDING_def)
  obtain ctx1 where u1: "MD5_update PADDING ?pad ctx = Some ctx1" "absorbed ctx1 (m @ take ?n PADDING)"
    using absorbed_update [OF ok lp] unfolding n by blast
  have lb: "length ?bits = 8" by (simp add: Encode_le)
  then obtain ctx2 where u2: "MD5_update ?bits 8 ctx1 = Some ctx2" "absorbed ctx2 ((m @ take ?n PADDING) @ ?bits)"
    using absorbed_update [OF u1(2), of 8 ?bits] by auto
  have pad: "take ?n PADDING = 0x80 # replicate ((119 - ?k) mod 64) 0"
    using n64 by (simp add: PADDING_def take_replicate min_def)
  have bits: "?bits = le_bytes 8 (word_of_nat (8 * length m) :: u64)"
  proof -
    have a: "ucast (word_of_nat j :: u64) = (word_of_nat j :: u32)" for j by (rule bit_word_eqI) (simp add: bit_simps)
    have b: "ucast (drop_bit 32 (word_of_nat j :: u64)) = (word_of_nat (j div 2 ^ 32) :: u32)" for j
      unfolding drop_bit_eq_div [of 32 j, symmetric] by (rule bit_word_eqI) (simp add: bit_simps)
    show ?thesis unfolding le_bytes_two Encode_le c a b by simp
  qed
  have "(m @ take ?n PADDING) @ ?bits = rfc_pad m" unfolding pad bits rfc_pad_def by simp
  then have v: "rfc_fold (view 0 init_regs) (rfc_pad m) = view 0 (mc_state ctx2)" using u2(2) by (simp add: absorbed_def)
  have "MD5_final ctx = Some (Md5_Encode (map (mc_state ctx2) [RA, RB, RC, RD]))"
    using u1(1) u2(1) by (simp add: MD5_final_def Let_def)
  then show ?thesis unfolding v unfolding view_0 Encode_le by simp
qed

subsection \<open>Properties\<close>

text \<open>C14: for every string of fewer than 2^32 - 64 characters, whatever the object held before,
  \<^verbatim>\<open>encrypt\<close> leaves its memory alone and its digest is the MD5 of RFC 1321.\<close>

theorem MD5_is_rfc1321:
  assumes "0 \<notin> set m" "length m + 64 < 2 ^ 32" "length (mc_buffer ctx) = 64"
  shows "MD5_encrypt (m @ 0 # bs) ctx = Some (rfc_md5 m)"
proof -
  have l: "c_strlen (m @ 0 # bs) = Some (length m)"
    using assms(1) by (auto simp: c_strlen_def takeWhile_append)
  have u: "unat (word_of_nat (length m) :: u32) = length m" using assms(2) by (intro unat_of_nat_small) simp
  obtain ctx1 where c: "MD5_update (m @ 0 # bs) (word_of_nat (length m)) (MD5_init ctx) = Some ctx1" "absorbed ctx1 m"
    using absorbed_update [OF absorbed_init [OF assms(3)], of "word_of_nat (length m)" "m @ 0 # bs"] u assms(2) by auto
  have "view 0 init_regs = (0x67452301, 0xefcdab89, 0x98badcfe, 0x10325476)" by (simp add: view_0 init_regs_def)
  then show ?thesis using l c(1) final_digest [OF c(2)] by (simp add: MD5_encrypt_def rfc_md5_def)
qed

text \<open>The test vector of RFC 1321 for the empty string.\<close>

theorem MD5_is_rfc1321_witness:
  "map_option MD5_toString (MD5_encrypt [0, 7] \<lparr>mc_state = (\<lambda>_. 9), mc_count0 = 5, mc_count1 = 5, mc_buffer = replicate 64 1\<rparr>)
    = Some ''D41D8CD98F00B204E9800998ECF8427E''"
proof -
  let ?ctx = "\<lparr>mc_state = (\<lambda>_. 9), mc_count0 = 5, mc_count1 = 5, mc_buffer = replicate 64 1\<rparr> :: md5_ctx"
  have "MD5_encrypt ([] @ 0 # [7]) ?ctx = Some (rfc_md5 [])" by (rule MD5_is_rfc1321) simp_all
  moreover have "rfc_md5 [] = [0xD4, 0x1D, 0x8C, 0xD9, 0x8F, 0x00, 0xB2, 0x04, 0xE9, 0x80, 0x09, 0x98, 0xEC, 0xF8, 0x42, 0x7E]"
    by code_simp
  ultimately show ?thesis by (simp add: MD5_toString_def hex_digits_def)
qed

end
