(* ===== verification/Http_Msg.thy ===== *)
theory Http_Msg
  imports Prelude
begin

text \<open>
  The HTTP messages of \<^verbatim>\<open>slience/netio/httpmsg.hpp\<close> and their cutting in
  \<^verbatim>\<open>http_base_socket.hpp\<close>.  A message is parsed as its bytes arrive: the bytes go into
  \<^verbatim>\<open>_buffer\<close>, whose content is a list here, and the parts are remembered as positions in it.
  The parsers return how many bytes they took.  \<^term>\<open>None\<close> is an access outside a block.
\<close>

definition SP :: byte where "SP = 32"
definition CR :: byte where "CR = 13"
definition LF :: byte where "LF = 10"

text \<open>String literals of the code as bytes.\<close>

definition lit :: "string \<Rightarrow> byte list" where
  "lit s = map (\<lambda>c. of_char c) s"

subsection \<open>\<^verbatim>\<open>HttpBaseMsg\<close>\<close>

datatype http_flag =
    E_PARSE_METHOD | E_PARSE_URL | E_PARSE_VER | E_PARSE_STATUS_CODE | E_PARSE_STATUS_PHRASE
  | E_PARSE_HEAD | E_PARSE_BODY | E_PARSE_OVER

record strpos =
  sp_beg :: int
  sp_end :: int

definition strpos0 :: strpos where "strpos0 = \<lparr>sp_beg = 0, sp_end = 0\<rparr>"

record http_base =
  hb_buffer :: "byte list"
  hb_header :: strpos
  hb_header2 :: strpos
  hb_body :: strpos
  hb_flag :: http_flag
  hb_assist :: bool
  hb_iter :: nat
  hb_bodysize :: int
  hb_headers :: "strpos list"

definition hb_size :: "'m http_base_scheme \<Rightarrow> int" where
  "hb_size m = int (length (hb_buffer m))"

definition hb_write :: "byte list \<Rightarrow> 'm http_base_scheme \<Rightarrow> 'm http_base_scheme" where
  "hb_write bs m = m\<lparr>hb_buffer := hb_buffer m @ bs\<rparr>"

text \<open>\<^verbatim>\<open>Clear\<close>; it leaves \<^verbatim>\<open>_flag\<close> to the derived class.\<close>

definition hb_Clear :: "'m http_base_scheme \<Rightarrow> 'm http_base_scheme" where
  "hb_Clear m = m\<lparr>hb_buffer := [], hb_header := strpos0, hb_header2 := strpos0, hb_body := strpos0,
     hb_assist := False, hb_iter := 0, hb_bodysize := -1, hb_headers := []\<rparr>"

definition sub_bytes :: "strpos \<Rightarrow> 'm http_base_scheme \<Rightarrow> byte list" where
  "sub_bytes p m = take (nat (sp_end p - sp_beg p)) (drop (nat (sp_beg p)) (hb_buffer m))"

text \<open>The getters: \<^verbatim>\<open>GetHeader\<close>, \<^verbatim>\<open>GetBody\<close>, \<^verbatim>\<open>NextHeader\<close>.\<close>

definition get_part :: "strpos \<Rightarrow> 'm http_base_scheme \<Rightarrow> byte list" where
  "get_part p m = (if sp_end p = 0 then [] else sub_bytes p m)"

definition NextHeader :: "'m http_base_scheme \<Rightarrow> byte list \<times> 'm http_base_scheme" where
  "NextHeader m =
     (if hb_headers m = [] \<or> hb_iter m = length (hb_headers m) then ([], m)
      else let p = hb_headers m ! hb_iter m
           in (sub_bytes (p\<lparr>sp_end := sp_end p - 2\<rparr>) m, m\<lparr>hb_iter := hb_iter m + 1\<rparr>))"

text \<open>\<^verbatim>\<open>_Parse1\<close> and \<^verbatim>\<open>_Parse2\<close>: whether the delimiter was found, and how much to take.\<close>

fun Http_Parse1 :: "byte list \<Rightarrow> byte \<Rightarrow> bool \<times> nat" where
  "Http_Parse1 [] c = (False, 0)"
| "Http_Parse1 (b # bs) c = (if b = c then (True, 1) else (case Http_Parse1 bs c of (hit, n) \<Rightarrow> (hit, n + 1)))"

fun Http_Parse2 :: "byte list \<Rightarrow> byte \<Rightarrow> byte \<Rightarrow> bool \<times> nat" where
  "Http_Parse2 (a # b # bs) c d =
     (if a = c \<and> b = d then (True, 2) else (case Http_Parse2 (b # bs) c d of (hit, n) \<Rightarrow> (hit, n + 1)))"
| "Http_Parse2 bs c d = (False, length bs)"

text \<open>\<^verbatim>\<open>_CheckContentLen\<close>: the comparison with \<^verbatim>\<open>Content-Length: \<close> stops behind the first difference.\<close>

fun con_match :: "byte list \<Rightarrow> byte list \<Rightarrow> byte list \<times> byte list" where
  "con_match (p # ps) (b # bs) =
     (if p = SP then (p # ps, b # bs) else if b \<noteq> p then (ps, bs) else con_match ps bs)"
| "con_match ps bs = (ps, bs)"

text \<open>\<^verbatim>\<open>atoi\<close> on the array of eleven bytes; without a terminator in the array it reads on behind it.
  A value that is not an \<^verbatim>\<open>int\<close> is undefined.\<close>

definition is_digit :: "byte \<Rightarrow> bool" where "is_digit b \<longleftrightarrow> 48 \<le> b \<and> b \<le> 57"

definition is_space :: "byte \<Rightarrow> bool" where "is_space b \<longleftrightarrow> b = 32 \<or> (9 \<le> b \<and> b \<le> 13)"

definition digits_val :: "byte list \<Rightarrow> int" where
  "digits_val ds = foldl (\<lambda>n d. 10 * n + int (unat d - 48)) 0 ds"

definition atoi :: "byte list \<Rightarrow> int mem" where
  "atoi a =
     (let s = dropWhile is_space a;
          sgn = (s \<noteq> [] \<and> hd s = 45);
          t = (if s \<noteq> [] \<and> (hd s = 45 \<or> hd s = 43) then tl s else s);
          v = (if sgn then - digits_val (takeWhile is_digit t) else digits_val (takeWhile is_digit t))
      in if dropWhile is_digit t = [] \<or> v < - (2 ^ 31) \<or> v \<ge> 2 ^ 31 then None else Some v)"

definition content_value :: "byte list \<Rightarrow> int mem" where
  "content_value v = (if length v > 11 then None else atoi (v @ replicate (11 - length v) 0))"

fun check_headers :: "byte list \<Rightarrow> strpos list \<Rightarrow> int mem" where
  "check_headers buf [] = Some 0"
| "check_headers buf (p # ps) =
     (if sp_end p - sp_beg p < 18 then check_headers buf ps
      else case con_match (lit ''Content-Length: '') (drop (nat (sp_beg p)) buf) of
             (psrc, pbeg) \<Rightarrow>
               if psrc \<noteq> [] \<and> hd psrc = SP then content_value (takeWhile (\<lambda>b. b \<noteq> CR) (drop 1 pbeg))
               else check_headers buf ps)"

definition CheckContentLen :: "'m http_base_scheme \<Rightarrow> int mem" where
  "CheckContentLen m = check_headers (hb_buffer m) (hb_headers m)"

text \<open>\<^verbatim>\<open>_ParseBody\<close>; \<^verbatim>\<open>Write\<close> with a negative length reads far behind the chunk.\<close>

definition body_size :: "'m http_base_scheme \<Rightarrow> 'm http_base_scheme mem" where
  "body_size m =
     (if hb_bodysize m = -1 then
        map_option (\<lambda>k. if k = 0 then m\<lparr>hb_bodysize := k, hb_flag := E_PARSE_OVER\<rparr>
                        else m\<lparr>hb_bodysize := k, hb_body := (hb_body m)\<lparr>sp_beg := hb_size m\<rparr>\<rparr>) (CheckContentLen m)
      else Some m)"

definition body_copy :: "byte list \<Rightarrow> 'm http_base_scheme \<Rightarrow> (nat \<times> 'm http_base_scheme) mem" where
  "body_copy bs m =
     (if hb_bodysize m = 0 then Some (0, m)
      else
        let k = hb_bodysize m - (hb_size m - sp_beg (hb_body m)) in
        if k > int (length bs) then Some (length bs, hb_write bs m)
        else if k < 0 then None
        else let m1 = hb_write (take (nat k) bs) (m\<lparr>hb_flag := E_PARSE_OVER\<rparr>)
             in Some (nat k, m1\<lparr>hb_body := (hb_body m1)\<lparr>sp_end := hb_size m1\<rparr>\<rparr>))"

definition Http_ParseBody :: "byte list \<Rightarrow> 'm http_base_scheme \<Rightarrow> (nat \<times> 'm http_base_scheme) mem" where
  "Http_ParseBody bs m = (if bs = [] then Some (0, m) else Option.bind (body_size m) (body_copy bs))"

text \<open>The end of a line, the same code in \<^verbatim>\<open>_ParseHead\<close>, \<^verbatim>\<open>_ParseVer\<close> and \<^verbatim>\<open>_ParseStatusPhrase\<close>:
  \<^verbatim>\<open>_assistflag\<close> remembers a carriage return at the end of the previous chunk.\<close>

definition line_cut :: "byte list \<Rightarrow> 'm http_base_scheme \<Rightarrow> bool \<times> nat \<times> 'm http_base_scheme" where
  "line_cut bs m =
     (case (if hb_assist m then
              if hd bs \<noteq> LF then (Http_Parse2 bs CR LF, m\<lparr>hb_assist := False\<rparr>) else ((True, 1), m)
            else (Http_Parse2 bs CR LF, m)) of
        ((hit, n), m1) \<Rightarrow> (hit, n, hb_write (take n bs) m1))"

definition line_rest :: "'m http_base_scheme \<Rightarrow> 'm http_base_scheme" where
  "line_rest m = (if \<not> hb_assist m \<and> last (hb_buffer m) = CR then m\<lparr>hb_assist := True\<rparr> else m)"

text \<open>\<^verbatim>\<open>_ParseHead\<close>.\<close>

definition head_hit :: "'m http_base_scheme \<Rightarrow> 'm http_base_scheme" where
  "head_hit m =
     (let h = (hb_header2 m)\<lparr>sp_end := hb_size m\<rparr>
      in m\<lparr>hb_assist := False, hb_header2 := h, hb_header := (hb_header m)\<lparr>sp_end := hb_size m\<rparr>,
           hb_headers := hb_headers m @ [h]\<rparr>)"

lemma Parse2_le: "snd (Http_Parse2 bs c d) \<le> length bs"
  by (induction bs c d rule: Http_Parse2.induct) (auto split: prod.splits)

lemma Parse2_pos: "bs \<noteq> [] \<Longrightarrow> 0 < snd (Http_Parse2 bs c d)"
  by (induction bs c d rule: Http_Parse2.induct) (auto split: prod.splits)

lemma line_cut_range: "bs \<noteq> [] \<Longrightarrow> line_cut bs m = (hit, n, m1) \<Longrightarrow> 0 < n \<and> n \<le> length bs"
  using Parse2_le [of bs CR LF] Parse2_pos [of bs CR LF]
  by (cases bs) (auto simp: line_cut_def split: prod.splits if_splits)

function Http_ParseHead :: "byte list \<Rightarrow> 'm http_base_scheme \<Rightarrow> (nat \<times> 'm http_base_scheme) mem" where
  "Http_ParseHead bs m =
     (if bs = [] then Some (0, m)
      else case line_cut bs m of
        (hit, n, m1) \<Rightarrow>
          if hit then
            let m2 = head_hit m1 in
            if sp_beg (hb_header2 m2) + 2 = sp_end (hb_header2 m2)
            then map_option (apfst ((+) n)) (Http_ParseBody (drop n bs) (m2\<lparr>hb_flag := E_PARSE_BODY\<rparr>))
            else map_option (apfst ((+) n)) (Http_ParseHead (drop n bs)
                   (m2\<lparr>hb_flag := E_PARSE_HEAD, hb_header2 := \<lparr>sp_beg = hb_size m2, sp_end = 0\<rparr>\<rparr>))
          else Some (n, line_rest m1))"
  by pat_completeness auto
termination
  by (relation "measure (\<lambda>(bs, m). length bs)") (auto dest!: line_cut_range sym [of "(_, _)" "line_cut _ _"])

declare Http_ParseHead.simps [simp del]

subsection \<open>\<^verbatim>\<open>HttpSvrRecvMsg\<close> and \<^verbatim>\<open>HttpCliRecvMsg\<close>\<close>

record http_svr = http_base +
  sv_method :: strpos
  sv_url :: strpos
  sv_ver :: strpos

record http_cli = http_base +
  cl_version :: strpos
  cl_statuscode :: strpos
  cl_statusphrase :: strpos

text \<open>A word of the first line, up to a blank: \<^term>\<open>upd\<close> notes it, \<^term>\<open>next\<close> goes on.\<close>

definition parse_word :: "(int \<Rightarrow> 'm http_base_scheme \<Rightarrow> 'm http_base_scheme)
    \<Rightarrow> (byte list \<Rightarrow> 'm http_base_scheme \<Rightarrow> (nat \<times> 'm http_base_scheme) mem)
    \<Rightarrow> byte list \<Rightarrow> 'm http_base_scheme \<Rightarrow> (nat \<times> 'm http_base_scheme) mem" where
  "parse_word upd next bs m =
     (case Http_Parse1 bs SP of
        (hit, n) \<Rightarrow>
          let m1 = hb_write (take n bs) m in
          if hit then map_option (apfst ((+) n)) (next (drop n bs) (upd (hb_size m1) m1)) else Some (n, m1))"

text \<open>The rest of the first line.\<close>

definition parse_rest :: "(int \<Rightarrow> 'm http_base_scheme \<Rightarrow> 'm http_base_scheme)
    \<Rightarrow> byte list \<Rightarrow> 'm http_base_scheme \<Rightarrow> (nat \<times> 'm http_base_scheme) mem" where
  "parse_rest upd bs m =
     (if bs = [] then Some (0, m)
      else case line_cut bs m of
        (hit, n, m1) \<Rightarrow>
          if hit then
            let pos = hb_size m1;
                m2 = (upd (pos - 2) m1)\<lparr>hb_flag := E_PARSE_HEAD, hb_header2 := (hb_header2 m1)\<lparr>sp_beg := pos\<rparr>,
                       hb_header := (hb_header m1)\<lparr>sp_beg := pos\<rparr>, hb_assist := False\<rparr>
            in map_option (apfst ((+) n)) (Http_ParseHead (drop n bs) m2)
          else Some (n, line_rest m1))"

definition Svr_ParseVer :: "byte list \<Rightarrow> http_svr \<Rightarrow> (nat \<times> http_svr) mem" where
  "Svr_ParseVer = parse_rest (\<lambda>e m. m\<lparr>sv_ver := (sv_ver m)\<lparr>sp_end := e\<rparr>\<rparr>)"

definition Svr_ParseUrl :: "byte list \<Rightarrow> http_svr \<Rightarrow> (nat \<times> http_svr) mem" where
  "Svr_ParseUrl = parse_word (\<lambda>pos m. m\<lparr>sv_url := (sv_url m)\<lparr>sp_end := pos - 1\<rparr>, hb_flag := E_PARSE_VER,
     sv_ver := (sv_ver m)\<lparr>sp_beg := pos\<rparr>\<rparr>) Svr_ParseVer"

definition Svr_ParseMethod :: "byte list \<Rightarrow> http_svr \<Rightarrow> (nat \<times> http_svr) mem" where
  "Svr_ParseMethod = parse_word (\<lambda>pos m. m\<lparr>sv_method := (sv_method m)\<lparr>sp_end := pos - 1\<rparr>, hb_flag := E_PARSE_URL,
     sv_url := (sv_url m)\<lparr>sp_beg := pos\<rparr>\<rparr>) Svr_ParseUrl"

definition Svr_Clear :: "http_svr \<Rightarrow> http_svr" where
  "Svr_Clear m = (hb_Clear m)\<lparr>sv_method := strpos0, sv_url := strpos0, sv_ver := strpos0, hb_flag := E_PARSE_METHOD\<rparr>"

definition Svr_Parse :: "byte list \<Rightarrow> http_svr \<Rightarrow> (nat \<times> http_svr) mem" where
  "Svr_Parse bs m =
     (case hb_flag m of
        E_PARSE_METHOD \<Rightarrow> Svr_ParseMethod bs m
      | E_PARSE_URL \<Rightarrow> Svr_ParseUrl bs m
      | E_PARSE_VER \<Rightarrow> Svr_ParseVer bs m
      | E_PARSE_HEAD \<Rightarrow> Http_ParseHead bs m
      | E_PARSE_BODY \<Rightarrow> Http_ParseBody bs m
      | _ \<Rightarrow> Some (0, m))"

definition Cli_ParseStatusPhrase :: "byte list \<Rightarrow> http_cli \<Rightarrow> (nat \<times> http_cli) mem" where
  "Cli_ParseStatusPhrase = parse_rest (\<lambda>e m. m\<lparr>cl_statusphrase := (cl_statusphrase m)\<lparr>sp_end := e\<rparr>\<rparr>)"

definition Cli_ParseStatusCode :: "byte list \<Rightarrow> http_cli \<Rightarrow> (nat \<times> http_cli) mem" where
  "Cli_ParseStatusCode = parse_word (\<lambda>pos m. m\<lparr>cl_statuscode := (cl_statuscode m)\<lparr>sp_end := pos - 1\<rparr>,
     hb_flag := E_PARSE_STATUS_PHRASE, cl_statusphrase := (cl_statusphrase m)\<lparr>sp_beg := pos\<rparr>\<rparr>) Cli_ParseStatusPhrase"

definition Cli_ParseVer :: "byte list \<Rightarrow> http_cli \<Rightarrow> (nat \<times> http_cli) mem" where
  "Cli_ParseVer = parse_word (\<lambda>pos m. m\<lparr>cl_version := (cl_version m)\<lparr>sp_end := pos - 1\<rparr>,
     hb_flag := E_PARSE_STATUS_CODE, cl_statuscode := (cl_statuscode m)\<lparr>sp_beg := pos\<rparr>\<rparr>) Cli_ParseStatusCode"

definition Cli_Clear :: "http_cli \<Rightarrow> http_cli" where
  "Cli_Clear m = (hb_Clear m)\<lparr>cl_version := strpos0, cl_statuscode := strpos0, cl_statusphrase := strpos0, hb_flag := E_PARSE_VER\<rparr>"

definition Cli_Parse :: "byte list \<Rightarrow> http_cli \<Rightarrow> (nat \<times> http_cli) mem" where
  "Cli_Parse bs m =
     (case hb_flag m of
        E_PARSE_VER \<Rightarrow> Cli_ParseVer bs m
      | E_PARSE_STATUS_CODE \<Rightarrow> Cli_ParseStatusCode bs m
      | E_PARSE_STATUS_PHRASE \<Rightarrow> Cli_ParseStatusPhrase bs m
      | E_PARSE_HEAD \<Rightarrow> Http_ParseHead bs m
      | E_PARSE_BODY \<Rightarrow> Http_ParseBody bs m
      | _ \<Rightarrow> Some (0, m))"

text \<open>A new object; the base class does not initialise \<^verbatim>\<open>_flag\<close>, \<^verbatim>\<open>Clear\<close> of the derived one does.\<close>

definition HttpSvrRecvMsg :: http_svr where
  "HttpSvrRecvMsg = \<lparr>hb_buffer = [], hb_header = strpos0, hb_header2 = strpos0, hb_body = strpos0, hb_flag = E_PARSE_METHOD,
     hb_assist = False, hb_iter = 0, hb_bodysize = -1, hb_headers = [], sv_method = strpos0, sv_url = strpos0, sv_ver = strpos0\<rparr>"

definition HttpCliRecvMsg :: http_cli where
  "HttpCliRecvMsg = \<lparr>hb_buffer = [], hb_header = strpos0, hb_header2 = strpos0, hb_body = strpos0, hb_flag = E_PARSE_VER,
     hb_assist = False, hb_iter = 0, hb_bodysize = -1, hb_headers = [], cl_version = strpos0, cl_statuscode = strpos0,
     cl_statusphrase = strpos0\<rparr>"

definition GetRequestLine :: "http_svr \<Rightarrow> byte list" where
  "GetRequestLine m = (if sp_end (sv_ver m) = 0 then [] else sub_bytes \<lparr>sp_beg = sp_beg (sv_method m), sp_end = sp_end (sv_ver m)\<rparr> m)"

definition GetRespondLine :: "http_cli \<Rightarrow> byte list" where
  "GetRespondLine m = (if sp_end (cl_statusphrase m) = 0 then []
     else sub_bytes \<lparr>sp_beg = sp_beg (cl_version m), sp_end = sp_end (cl_statusphrase m)\<rparr> m)"

subsection \<open>\<^verbatim>\<open>HttpSvrSendMsg\<close>\<close>

text \<open>\<^verbatim>\<open>_flag\<close> notes the parts written so far.  A setter out of order only fails an assertion, which is
  taken as compiled out, and returns \<^verbatim>\<open>false\<close>.\<close>

record http_send =
  hs_buffer :: "byte list"
  hs_flag :: u32

definition E_VER :: u32 where "E_VER = 1"
definition E_STATUS_CODE :: u32 where "E_STATUS_CODE = 2"
definition E_STATUS_PHRASE :: u32 where "E_STATUS_PHRASE = 4"
definition E_LOCATION :: u32 where "E_LOCATION = 8"
definition E_CONT_CODING :: u32 where "E_CONT_CODING = 16"
definition E_CONT_TYPE :: u32 where "E_CONT_TYPE = 32"
definition E_CONT_LANGUAGE :: u32 where "E_CONT_LANGUAGE = 64"
definition E_DATE :: u32 where "E_DATE = 128"
definition E_SERVER :: u32 where "E_SERVER = 256"
definition E_BODY :: u32 where "E_BODY = 512"

definition HttpSvrSendMsg :: http_send where
  "HttpSvrSendMsg = \<lparr>hs_buffer = [], hs_flag = 0\<rparr>"

definition has :: "u32 \<Rightarrow> http_send \<Rightarrow> bool" where
  "has e s \<longleftrightarrow> hs_flag s AND e \<noteq> 0"

definition put :: "byte list \<Rightarrow> u32 \<Rightarrow> http_send \<Rightarrow> http_send" where
  "put bs e s = \<lparr>hs_buffer = hs_buffer s @ bs, hs_flag = hs_flag s OR e\<rparr>"

definition CRLF :: "byte list" where "CRLF = [CR, LF]"

definition SetHttpVersion :: "byte list \<Rightarrow> http_send \<Rightarrow> bool \<times> http_send" where
  "SetHttpVersion ver s = (if \<not> has E_VER s then (True, put (ver @ [SP]) E_VER s) else (False, s))"

definition SetStatusCode :: "byte list \<Rightarrow> http_send \<Rightarrow> bool \<times> http_send" where
  "SetStatusCode status s =
     (if \<not> has E_STATUS_CODE s \<and> has E_VER s then (True, put (status @ [SP]) E_STATUS_CODE s) else (False, s))"

definition SetStatusPhrase :: "byte list \<Rightarrow> http_send \<Rightarrow> bool \<times> http_send" where
  "SetStatusPhrase phrase s =
     (if \<not> has E_STATUS_PHRASE s \<and> has E_VER s \<and> has E_STATUS_CODE s then (True, put (phrase @ CRLF) E_STATUS_PHRASE s)
      else (False, s))"

definition started :: "http_send \<Rightarrow> bool" where
  "started s \<longleftrightarrow> has E_VER s \<and> has E_STATUS_CODE s \<and> has E_STATUS_PHRASE s"

definition SetLocation :: "byte list \<Rightarrow> http_send \<Rightarrow> bool \<times> http_send" where
  "SetLocation location s =
     (if \<not> has E_LOCATION s \<and> started s then (True, put (lit ''Location: '' @ location @ CRLF) E_LOCATION s) else (False, s))"

definition SetContentEncode :: "byte list \<Rightarrow> http_send \<Rightarrow> bool \<times> http_send" where
  "SetContentEncode encode s =
     (if \<not> has E_CONT_CODING s \<and> started s then (True, put (lit ''Content-Encoding: '' @ encode @ CRLF) E_CONT_CODING s)
      else (False, s))"

definition SetContentType :: "byte list \<Rightarrow> http_send \<Rightarrow> bool \<times> http_send" where
  "SetContentType ty s =
     (if \<not> has E_CONT_TYPE s \<and> started s then (True, put (lit ''Content-Type: '' @ ty @ CRLF) E_CONT_TYPE s) else (False, s))"

definition SetContentLanguage :: "byte list \<Rightarrow> http_send \<Rightarrow> bool \<times> http_send" where
  "SetContentLanguage language s =
     (if \<not> has E_CONT_LANGUAGE s \<and> started s
      then (True, put (lit ''Content-Language: '' @ language @ CRLF) E_CONT_LANGUAGE s) else (False, s))"

text \<open>\<^verbatim>\<open>SetSever\<close> and \<^verbatim>\<open>SetDate\<close> pass the literals to the overload for one object: it writes the eight
  bytes of the pointers, \<^term>\<open>p\<close> and \<^term>\<open>q\<close>.\<close>

definition SetSever :: "u64 \<Rightarrow> u64 \<Rightarrow> byte list \<Rightarrow> http_send \<Rightarrow> bool \<times> http_send" where
  "SetSever p q svr s =
     (if \<not> has E_SERVER s \<and> started s then (True, put (le_bytes 8 p @ svr @ le_bytes 8 q) E_SERVER s) else (False, s))"

definition SetDate :: "u64 \<Rightarrow> u64 \<Rightarrow> byte list \<Rightarrow> http_send \<Rightarrow> bool \<times> http_send" where
  "SetDate p q date s =
     (if \<not> has E_DATE s \<and> started s then (True, put (le_bytes 8 p @ date @ le_bytes 8 q) E_DATE s) else (False, s))"

text \<open>\<^verbatim>\<open>snprintf\<close> with \<^verbatim>\<open>%d\<close> of a length.\<close>

fun dec :: "nat \<Rightarrow> byte list" where
  "dec n = (if n < 10 then [word_of_nat (48 + n)] else dec (n div 10) @ [word_of_nat (48 + n mod 10)])"

definition SetBody :: "byte list \<Rightarrow> http_send \<Rightarrow> bool \<times> http_send" where
  "SetBody body s =
     (if \<not> has E_BODY s then
        let s1 = (if \<not> has E_VER s then snd (SetHttpVersion (lit ''HTTP/1.1'') s) else s);
            s2 = (if \<not> has E_STATUS_CODE s1 then snd (SetStatusCode (lit ''200'') s1) else s1);
            s3 = (if \<not> has E_STATUS_PHRASE s2 then snd (SetStatusPhrase (lit ''OK'') s2) else s2);
            s4 = (if \<not> has E_CONT_TYPE s3 then snd (SetContentType (lit ''text/html;charset=utf-8'') s3) else s3)
        in (True, put (lit ''Content-Length: '' @ dec (length body) @ CRLF @ CRLF @ body) E_BODY s4)
      else (False, s))"

subsection \<open>\<^verbatim>\<open>HttpBaseSocket::_CutMsgPack\<close>\<close>

text \<open>Its condition \<^verbatim>\<open>copy_len == 0 || copy_len <= tran_byte\<close> always holds: after every call of \<^verbatim>\<open>Parse\<close>
  the message is delivered and cleared, complete or not.\<close>

lemma Parse1_pos: "bs \<noteq> [] \<Longrightarrow> 0 < snd (Http_Parse1 bs c)"
  by (cases bs) (auto split: prod.splits)

lemma Svr_Parse_fresh: "bs \<noteq> [] \<Longrightarrow> hb_flag m = E_PARSE_METHOD \<Longrightarrow> Svr_Parse bs m = Some (n, m2) \<Longrightarrow> 0 < n"
  using Parse1_pos [of bs SP]
  by (auto simp: Svr_Parse_def Svr_ParseMethod_def parse_word_def Let_def split: prod.splits if_splits)

function http_cut :: "byte list \<Rightarrow> http_svr \<Rightarrow> (http_svr list \<times> http_svr) mem" where
  "http_cut bs m =
     (case Svr_Parse bs m of
        None \<Rightarrow> None
      | Some (n, m1) \<Rightarrow>
          if n \<ge> length bs then Some ([m1], Svr_Clear m1)
          else map_option (apfst (Cons m1)) (http_cut (drop n bs) (Svr_Clear m1)))"
  by auto
termination
proof (relation "measure (\<lambda>(bs, m). 2 * length bs + (if hb_flag m = E_PARSE_METHOD then 0 else 1))", goal_cases)
  case (2 bs m p n m1)
  show ?case
  proof (cases "hb_flag m = E_PARSE_METHOD")
    case True
    have "bs \<noteq> []" using 2(3) by auto
    then have "0 < n" using Svr_Parse_fresh [OF _ True] 2(1,2) by auto
    then show ?thesis using 2(3) True by (simp add: Svr_Clear_def)
  next
    case False
    then show ?thesis using 2(3) by (simp add: Svr_Clear_def)
  qed
qed simp

declare http_cut.simps [simp del]

text \<open>One chunk after the other.\<close>

fun http_receive :: "byte list list \<Rightarrow> http_svr \<Rightarrow> (http_svr list \<times> http_svr) mem" where
  "http_receive [] m = Some ([], m)"
| "http_receive (c # cs) m =
     Option.bind (http_cut c m) (\<lambda>(ds, m1). map_option (apfst ((@) ds)) (http_receive cs m1))"

end
