(* ===== verification/Http_Props.thy ===== *)
theory Http_Props
  imports Http_Msg
begin

text \<open>
  The parsers do not depend on how the network cuts a message into chunks: parsing a chunk and
  then the next one is parsing both at once.  What the proof needs of the two kinds of messages
  is the locale \<^verbatim>\<open>http_parser\<close>.
\<close>

text \<open>Going on with the next chunk, unless the message is complete.\<close>

definition resume :: "(byte list \<Rightarrow> 'm http_base_scheme \<Rightarrow> (nat \<times> 'm http_base_scheme) mem) \<Rightarrow> byte list
    \<Rightarrow> (nat \<times> 'm http_base_scheme) mem \<Rightarrow> (nat \<times> 'm http_base_scheme) mem" where
  "resume parse ys r = Option.bind r (\<lambda>(n, m).
     if hb_flag m = E_PARSE_OVER then Some (n, m) else map_option (apfst ((+) n)) (parse ys m))"

subsection \<open>Delimiters\<close>

lemma Parse1_hit: "Http_Parse1 xs c = (True, n) \<Longrightarrow> Http_Parse1 (xs @ ys) c = (True, n) \<and> n \<le> length xs"
  by (induction xs arbitrary: n) (auto split: if_splits prod.splits)

lemma Parse1_miss:
  "Http_Parse1 xs c = (False, n) \<Longrightarrow> n = length xs \<and> Http_Parse1 (xs @ ys) c = apsnd ((+) (length xs)) (Http_Parse1 ys c)"
  by (cases "Http_Parse1 ys c"; induction xs arbitrary: n) (auto split: if_splits prod.splits)

lemma Parse1_word: "c \<notin> set xs \<Longrightarrow> Http_Parse1 (xs @ c # ys) c = (True, length xs + 1)"
  by (induction xs) auto

lemma Parse2_hit: "Http_Parse2 xs c d = (True, n) \<Longrightarrow> Http_Parse2 (xs @ ys) c d = (True, n) \<and> n \<le> length xs"
  by (induction xs c d arbitrary: n rule: Http_Parse2.induct) (auto split: if_splits prod.splits)

lemma Parse2_Cons:
  "ys \<noteq> [] \<Longrightarrow> Http_Parse2 (a # ys) c d = (if a = c \<and> hd ys = d then (True, 2) else apsnd Suc (Http_Parse2 ys c d))"
  by (cases ys) (auto split: prod.splits)

lemma Parse2_miss:
  assumes "Http_Parse2 xs c d = (False, n)"
  shows "n = length xs \<and> (ys \<noteq> [] \<longrightarrow> Http_Parse2 (xs @ ys) c d =
    (if xs \<noteq> [] \<and> last xs = c \<and> hd ys = d then (True, length xs + 1) else apsnd ((+) (length xs)) (Http_Parse2 ys c d)))"
  using assms
proof (induction xs arbitrary: n)
  case Nil
  then show ?case by (auto simp: apsnd_def map_prod_def split: prod.splits)
next
  case (Cons a xs)
  show ?case
  proof (cases "xs = []")
    case True
    then show ?thesis using Cons(2) by (auto simp: Parse2_Cons apsnd_def map_prod_def split: prod.splits)
  next
    case False
    then obtain k where k: "Http_Parse2 xs c d = (False, k)" "n = Suc k" "\<not> (a = c \<and> hd xs = d)"
      using Cons(2) by (cases "Http_Parse2 xs c d") (auto simp: Parse2_Cons split: if_splits)
    show ?thesis using Cons(1) [OF k(1)] k(2,3) False
      by (auto simp: Parse2_Cons apsnd_def map_prod_def split: prod.splits)
  qed
qed

lemma Parse2_line:
  assumes "c \<notin> set xs" "c \<noteq> d"
  shows "Http_Parse2 (xs @ c # d # ys) c d = (True, length xs + 2)"
  using assms by (induction xs) (auto simp: Parse2_Cons hd_append)

subsection \<open>Lines\<close>

lemma assist_off [simp]: "\<not> hb_assist m \<Longrightarrow> m\<lparr>hb_assist := False\<rparr> = m"
  by (cases m) simp

lemma hb_write_simps [simp]:
  "hb_write [] m = m" "hb_write ys (hb_write xs m) = hb_write (xs @ ys) m"
  "hb_buffer (hb_write xs m) = hb_buffer m @ xs" "hb_flag (hb_write xs m) = hb_flag m"
  "hb_assist (hb_write xs m) = hb_assist m" "hb_bodysize (hb_write xs m) = hb_bodysize m"
  "hb_headers (hb_write xs m) = hb_headers m" "hb_body (hb_write xs m) = hb_body m"
  "hb_header2 (hb_write xs m) = hb_header2 m"
  "hb_write xs (m\<lparr>hb_flag := f\<rparr>) = (hb_write xs m)\<lparr>hb_flag := f\<rparr>"
  "(hb_write xs m)\<lparr>hb_assist := b\<rparr> = hb_write xs (m\<lparr>hb_assist := b\<rparr>)"
  by (simp_all add: hb_write_def)

lemma line_cut_hit:
  assumes "xs \<noteq> []" "line_cut xs m = (True, n, m1)"
  shows "line_cut (xs @ ys) m = (True, n, m1)" "n \<le> length xs" "0 < n" "hb_flag m1 = hb_flag m"
proof -
  show "n \<le> length xs" "0 < n" using line_cut_range [OF assms] by simp_all
  show "line_cut (xs @ ys) m = (True, n, m1)"
  proof -
    have "take n (xs @ ys) = take n xs" using \<open>n \<le> length xs\<close> by simp
    then show ?thesis using assms Parse2_hit [of xs CR LF n ys]
      by (cases "hb_assist m \<and> hd xs = LF") (auto simp: line_cut_def hd_append split: prod.splits if_splits)
  qed
  show "hb_flag m1 = hb_flag m" using assms(2) by (auto simp: line_cut_def split: prod.splits if_splits)
qed

lemma line_cut_miss:
  assumes "xs \<noteq> []" "line_cut xs m = (False, n, m1)"
  shows "n = length xs" "m1 = hb_write xs (m\<lparr>hb_assist := False\<rparr>)" "\<not> hb_assist m1" "last (hb_buffer m1) = last xs"
    and "ys \<noteq> [] \<Longrightarrow> line_cut (xs @ ys) m =
      (case line_cut ys (line_rest m1) of (hit, k, m2) \<Rightarrow> (hit, length xs + k, m2\<lparr>hb_assist := False\<rparr>))"
proof -
  have p: "Http_Parse2 xs CR LF = (False, n)" and h: "\<not> (hb_assist m \<and> hd xs = LF)"
    and m1: "m1 = hb_write (take n xs) (m\<lparr>hb_assist := False\<rparr>)"
    using assms by (auto simp: line_cut_def split: prod.splits if_splits)
  show n: "n = length xs" using Parse2_miss [OF p] by blast
  show e: "m1 = hb_write xs (m\<lparr>hb_assist := False\<rparr>)" "\<not> hb_assist m1" "last (hb_buffer m1) = last xs"
    using m1 n assms(1) by simp_all
  assume ys: "ys \<noteq> []"
  have "line_cut (xs @ ys) m = (case Http_Parse2 (xs @ ys) CR LF of (hit, k) \<Rightarrow> (hit, k, hb_write (take k (xs @ ys)) (m\<lparr>hb_assist := False\<rparr>)))"
    using h assms(1) by (auto simp: line_cut_def split: prod.splits)
  then show "line_cut (xs @ ys) m =
      (case line_cut ys (line_rest m1) of (hit, k, m2) \<Rightarrow> (hit, length xs + k, m2\<lparr>hb_assist := False\<rparr>))"
    using Parse2_miss [OF p, of ys] ys e assms(1) ys
    by (cases ys) (auto simp: line_cut_def line_rest_def split: prod.splits if_splits)
qed

lemma line_rest_simps [simp]: "hb_flag (line_rest m) = hb_flag m"
  by (simp add: line_rest_def)

lemma line_rest_again:
  "hit = False \<Longrightarrow> ys \<noteq> [] \<Longrightarrow> line_cut ys m = (hit, k, m2) \<Longrightarrow> m2\<lparr>hb_assist := False\<rparr> = m2"
  using line_cut_miss(3) [of ys m k m2] by (cases m2) simp

lemma head_hit_assist [simp]: "head_hit (m\<lparr>hb_assist := b\<rparr>) = head_hit m"
  by (simp add: head_hit_def hb_size_def Let_def)

subsection \<open>The parsers\<close>

text \<open>A parser of the first line is reached through \<^verbatim>\<open>_flag\<close>; the dispatching one goes on with the next chunk.\<close>

definition chunkwise :: "(byte list \<Rightarrow> 'm http_base_scheme \<Rightarrow> (nat \<times> 'm http_base_scheme) mem)
    \<Rightarrow> (byte list \<Rightarrow> 'm http_base_scheme \<Rightarrow> (nat \<times> 'm http_base_scheme) mem) \<Rightarrow> http_flag \<Rightarrow> bool" where
  "chunkwise parse p f \<longleftrightarrow>
     (\<forall>xs ys m. hb_flag m = f \<longrightarrow> p (xs @ ys) m = resume parse ys (p xs m))"

locale http_parser =
  fixes parse :: "byte list \<Rightarrow> 'm http_base_scheme \<Rightarrow> (nat \<times> 'm http_base_scheme) mem"
  assumes parse_Nil: "parse [] m = Some (0, m)"
    and parse_head: "hb_flag m = E_PARSE_HEAD \<Longrightarrow> parse bs m = Http_ParseHead bs m"
    and parse_body: "hb_flag m = E_PARSE_BODY \<Longrightarrow> parse bs m = Http_ParseBody bs m"
begin

lemma resume_Some [simp]:
  "resume parse ys (Some (n, m)) = (if hb_flag m = E_PARSE_OVER then Some (n, m) else map_option (apfst ((+) n)) (parse ys m))"
  "resume parse ys None = None"
  by (simp_all add: resume_def)

lemma resume_add: "resume parse ys (map_option (apfst ((+) n)) r) = map_option (apfst ((+) n)) (resume parse ys r)"
  by (cases r; cases "parse ys (snd (the r))") (auto simp: resume_def)

lemma resume_Nil [simp]: "resume parse [] r = r"
  by (cases r) (auto simp: resume_def parse_Nil split: prod.splits)

lemma apfst_0 [simp]: "map_option (apfst ((+) (0 :: nat))) r = r"
  by (cases r) auto

lemma apfst_add [simp]:
  "map_option (apfst ((+) a)) (map_option (apfst ((+) b)) r) = map_option (apfst ((+) (a + b :: nat))) r"
  by (cases r) auto

lemma body_chunks:
  assumes "hb_flag m = E_PARSE_BODY"
  shows "Http_ParseBody (xs @ ys) m = resume parse ys (Http_ParseBody xs m)"
proof (cases "xs = [] \<or> ys = []")
  case True
  then show ?thesis using assms by (auto simp: Http_ParseBody_def parse_body)
next
  case False
  show ?thesis
  proof (cases "body_size m")
    case None
    then show ?thesis using False by (simp add: Http_ParseBody_def)
  next
    case (Some m1)
    let ?k = "hb_bodysize m1 - (hb_size m1 - sp_beg (hb_body m1))"
    have f: "hb_flag m1 = E_PARSE_BODY \<or> hb_bodysize m1 = 0 \<and> hb_flag m1 = E_PARSE_OVER"
      using Some assms by (auto simp: body_size_def split: if_splits option.splits)
    have r: "hb_bodysize m1 \<noteq> -1 \<or> ?k < 0"
      using Some by (auto simp: body_size_def hb_size_def split: if_splits option.splits)
    have b: "body_copy (xs @ ys) m1 = resume parse ys (body_copy xs m1)"
    proof (cases "hb_bodysize m1 = 0")
      case True
      then show ?thesis using f False
        by (auto simp: body_copy_def parse_body Http_ParseBody_def body_size_def)
    next
      case nz: False
      then have fl: "hb_flag m1 = E_PARSE_BODY" using f by blast
      consider "?k \<le> int (length xs)" | "int (length xs) < ?k" by linarith
      then show ?thesis
      proof cases
        case 1
        then show ?thesis using nz by (auto simp: body_copy_def Let_def)
      next
        case 2
        then have "hb_bodysize m1 \<noteq> -1" using r by simp
        moreover have "hb_size (hb_write xs m1) = hb_size m1 + int (length xs)" by (simp add: hb_size_def)
        moreover have "nat ?k - length xs = nat (?k - int (length xs))" using 2 by linarith
        ultimately show ?thesis using 2 nz fl False
          by (auto simp: body_copy_def Let_def parse_body Http_ParseBody_def body_size_def hb_size_def algebra_simps)
      qed
    qed
    then show ?thesis using Some False by (simp add: Http_ParseBody_def)
  qed
qed

lemma head_chunks:
  assumes "hb_flag m = E_PARSE_HEAD"
  shows "Http_ParseHead (xs @ ys) m = resume parse ys (Http_ParseHead xs m)"
  using assms
proof (induction xs m rule: Http_ParseHead.induct)
  case (1 xs m)
  show ?case
  proof (cases "xs = [] \<or> ys = []")
    case True
    then show ?thesis using 1(2) by (auto simp: Http_ParseHead.simps [of "[]"] parse_head)
  next
    case ne: False
    obtain hit n m1 where l: "line_cut xs m = (hit, n, m1)" by (metis prod_cases3)
    show ?thesis
    proof (cases hit)
      case True
      have "xs \<noteq> []" "line_cut xs m = (True, n, m1)" using ne l True by simp_all
      note h = line_cut_hit(1) [OF this, of ys] line_cut_hit(2-4) [OF this]
      let ?m2 = "head_hit m1"
      have d: "drop n (xs @ ys) = drop n xs @ ys" using h(2) ne by simp
      have b: "Http_ParseBody (drop n xs @ ys) (?m2\<lparr>hb_flag := E_PARSE_BODY\<rparr>)
          = resume parse ys (Http_ParseBody (drop n xs) (?m2\<lparr>hb_flag := E_PARSE_BODY\<rparr>))"
        by (rule body_chunks) simp
      have i: "sp_beg (hb_header2 ?m2) + 2 \<noteq> sp_end (hb_header2 ?m2) \<Longrightarrow>
          Http_ParseHead (drop n xs @ ys) (?m2\<lparr>hb_flag := E_PARSE_HEAD, hb_header2 := \<lparr>sp_beg = hb_size ?m2, sp_end = 0\<rparr>\<rparr>)
          = resume parse ys (Http_ParseHead (drop n xs) (?m2\<lparr>hb_flag := E_PARSE_HEAD, hb_header2 := \<lparr>sp_beg = hb_size ?m2, sp_end = 0\<rparr>\<rparr>))"
        using 1(1) [OF _ l [symmetric] refl True refl] ne by simp
      show ?thesis using ne l True h(1) d b i
        by (simp add: Http_ParseHead.simps [of "xs @ ys"] Http_ParseHead.simps [of xs] Let_def resume_add)
    next
      case False
      have x: "xs \<noteq> []" "ys \<noteq> []" using ne by auto
      have "line_cut xs m = (False, n, m1)" using l False by simp
      note h = line_cut_miss [OF x(1) this]
      have f: "hb_flag (line_rest m1) = E_PARSE_HEAD" using h(2) 1(2) by simp
      obtain hit2 k m2 where l2: "line_cut ys (line_rest m1) = (hit2, k, m2)" by (metis prod_cases3)
      have l3: "line_cut (xs @ ys) m = (hit2, length xs + k, m2\<lparr>hb_assist := False\<rparr>)" using h(5) [OF x(2)] l2 by simp
      show ?thesis using x l False l2 l3 f h(1) line_rest_again [OF _ x(2) l2]
        by (auto simp: Http_ParseHead.simps [of "xs @ ys"] Http_ParseHead.simps [of xs] Http_ParseHead.simps [of ys]
            parse_head Let_def)
    qed
  qed
qed

lemma word_chunks:
  assumes here: "\<And>bs m. hb_flag m = f \<Longrightarrow> parse bs m = parse_word upd go bs m"
    and upd: "\<And>i m. hb_flag (upd i m) = g" and go: "chunkwise parse go g" and f: "f \<noteq> E_PARSE_OVER"
  shows "chunkwise parse (parse_word upd go) f"
proof (unfold chunkwise_def, intro allI impI)
  fix xs ys and m :: "'m http_base_scheme"
  assume m: "hb_flag m = f"
  obtain hit n where p: "Http_Parse1 xs SP = (hit, n)" by fastforce
  show "parse_word upd go (xs @ ys) m = resume parse ys (parse_word upd go xs m)"
  proof (cases hit)
    case True
    have "n \<le> length xs" "Http_Parse1 (xs @ ys) SP = (True, n)" using Parse1_hit [of xs SP n ys] p True by simp_all
    then show ?thesis using p True upd go by (simp add: parse_word_def Let_def resume_add chunkwise_def)
  next
    case False
    then have "n = length xs" "Http_Parse1 (xs @ ys) SP = apsnd ((+) (length xs)) (Http_Parse1 ys SP)"
      using Parse1_miss [of xs SP n ys] p by simp_all
    then show ?thesis using p False m f here by (cases "Http_Parse1 ys SP") (simp add: parse_word_def Let_def)
  qed
qed

lemma assist_last:
  "m\<lparr>hb_assist := c, hb_flag := f, hb_header2 := h, hb_header := k\<rparr> = m\<lparr>hb_flag := f, hb_header2 := h, hb_header := k, hb_assist := c\<rparr>"
  by (cases m) simp

lemma rest_chunks:
  assumes here: "\<And>bs m. hb_flag m = f \<Longrightarrow> parse bs m = parse_rest upd bs m"
    and upd: "\<And>e m b. upd e (m\<lparr>hb_assist := b\<rparr>) = (upd e m)\<lparr>hb_assist := b\<rparr>" and f: "f \<noteq> E_PARSE_OVER"
  shows "chunkwise parse (parse_rest upd) f"
proof (unfold chunkwise_def, intro allI impI)
  fix xs ys and m :: "'m http_base_scheme"
  assume m: "hb_flag m = f"
  show "parse_rest upd (xs @ ys) m = resume parse ys (parse_rest upd xs m)"
  proof (cases "xs = [] \<or> ys = []")
    case True
    then show ?thesis using m f here by (auto simp: parse_rest_def [of _ "[]"])
  next
    case ne: False
    obtain hit n m1 where l: "line_cut xs m = (hit, n, m1)" by (metis prod_cases3)
    show ?thesis
    proof (cases hit)
      case True
      have "xs \<noteq> []" "line_cut xs m = (True, n, m1)" using ne l True by simp_all
      note h = line_cut_hit(1) [OF this, of ys] line_cut_hit(2-4) [OF this]
      show ?thesis using ne l True h(1,2) by (simp add: parse_rest_def Let_def resume_add head_chunks)
    next
      case False
      have x: "xs \<noteq> []" "ys \<noteq> []" using ne by auto
      have "line_cut xs m = (False, n, m1)" using l False by simp
      note h = line_cut_miss [OF x(1) this]
      have g: "hb_flag (line_rest m1) = f" using h(2) m by simp
      obtain hit2 k m2 where l2: "line_cut ys (line_rest m1) = (hit2, k, m2)" by (metis prod_cases3)
      have l3: "line_cut (xs @ ys) m = (hit2, length xs + k, m2\<lparr>hb_assist := False\<rparr>)" using h(5) [OF x(2)] l2 by simp
      show ?thesis using x l False l2 l3 g h(1) f line_rest_again [OF _ x(2) l2]
        by (auto simp: parse_rest_def here upd hb_size_def Let_def assist_last)
    qed
  qed
qed

text \<open>Any number of chunks.\<close>

lemma chunks_all:
  assumes "\<And>xs ys m. parse (xs @ ys) m = resume parse ys (parse xs m)"
  shows "fold (resume parse) cs (parse c m) = parse (c @ concat cs) m"
proof (induction cs arbitrary: c)
  case (Cons d cs)
  then show ?case using Cons [of "c @ d"] by (simp add: assms [of c d])
qed simp

end

subsection \<open>Requests and responses\<close>

lemma svr_laws:
  "Svr_Parse [] m = Some (0, m)"
  "hb_flag m = E_PARSE_HEAD \<Longrightarrow> Svr_Parse bs m = Http_ParseHead bs m"
  "hb_flag m = E_PARSE_BODY \<Longrightarrow> Svr_Parse bs m = Http_ParseBody bs m"
  by (auto simp: Svr_Parse_def Svr_ParseMethod_def Svr_ParseUrl_def Svr_ParseVer_def parse_word_def parse_rest_def
      Http_ParseHead.simps [of "[]"] Http_ParseBody_def split: http_flag.split)

lemma cli_laws:
  "Cli_Parse [] m = Some (0, m)"
  "hb_flag m = E_PARSE_HEAD \<Longrightarrow> Cli_Parse bs m = Http_ParseHead bs m"
  "hb_flag m = E_PARSE_BODY \<Longrightarrow> Cli_Parse bs m = Http_ParseBody bs m"
  by (auto simp: Cli_Parse_def Cli_ParseVer_def Cli_ParseStatusCode_def Cli_ParseStatusPhrase_def parse_word_def parse_rest_def
      Http_ParseHead.simps [of "[]"] Http_ParseBody_def split: http_flag.split)

interpretation svr_http: http_parser Svr_Parse
  by unfold_locales (fact svr_laws)+

interpretation cli_http: http_parser Cli_Parse
  by unfold_locales (fact cli_laws)+

lemma svr_chunks: "Svr_Parse (xs @ ys) m = resume Svr_Parse ys (Svr_Parse xs m)"
proof -
  have v: "chunkwise Svr_Parse Svr_ParseVer E_PARSE_VER"
    unfolding Svr_ParseVer_def by (rule svr_http.rest_chunks) (simp_all add: Svr_Parse_def Svr_ParseVer_def)
  have u: "chunkwise Svr_Parse Svr_ParseUrl E_PARSE_URL"
    unfolding Svr_ParseUrl_def by (rule svr_http.word_chunks [OF _ _ v]) (simp_all add: Svr_Parse_def Svr_ParseUrl_def)
  have w: "chunkwise Svr_Parse Svr_ParseMethod E_PARSE_METHOD"
    unfolding Svr_ParseMethod_def by (rule svr_http.word_chunks [OF _ _ u]) (simp_all add: Svr_Parse_def Svr_ParseMethod_def)
  show ?thesis
    using v u w svr_http.head_chunks [of m xs ys] svr_http.body_chunks [of m xs ys]
    by (cases "hb_flag m") (simp_all add: chunkwise_def Svr_Parse_def [of _ m] del: svr_http.resume_Some, simp_all add: Svr_Parse_def)
qed

lemma cli_chunks: "Cli_Parse (xs @ ys) m = resume Cli_Parse ys (Cli_Parse xs m)"
proof -
  have v: "chunkwise Cli_Parse Cli_ParseStatusPhrase E_PARSE_STATUS_PHRASE"
    unfolding Cli_ParseStatusPhrase_def by (rule cli_http.rest_chunks) (simp_all add: Cli_Parse_def Cli_ParseStatusPhrase_def)
  have u: "chunkwise Cli_Parse Cli_ParseStatusCode E_PARSE_STATUS_CODE"
    unfolding Cli_ParseStatusCode_def by (rule cli_http.word_chunks [OF _ _ v]) (simp_all add: Cli_Parse_def Cli_ParseStatusCode_def)
  have w: "chunkwise Cli_Parse Cli_ParseVer E_PARSE_VER"
    unfolding Cli_ParseVer_def by (rule cli_http.word_chunks [OF _ _ u]) (simp_all add: Cli_Parse_def Cli_ParseVer_def)
  show ?thesis
    using v u w cli_http.head_chunks [of m xs ys] cli_http.body_chunks [of m xs ys]
    by (cases "hb_flag m") (simp_all add: chunkwise_def Cli_Parse_def [of _ m] del: cli_http.resume_Some, simp_all add: Cli_Parse_def)
qed

subsection \<open>Properties\<close>

text \<open>C13: however the network cuts a request or a response into chunks, the parser ends in the state, and
  takes the number of bytes, of parsing the chunks at once.\<close>

theorem http_chunks_equivalent:
  "fold (resume Svr_Parse) cs (Svr_Parse c svr) = Svr_Parse (c @ concat cs) svr
   \<and> fold (resume Cli_Parse) cs (Cli_Parse c cli) = Cli_Parse (c @ concat cs) cli"
  using svr_http.chunks_all [OF svr_chunks] cli_http.chunks_all [OF cli_chunks] by blast

end
