(* ===== verification/Http_Trip.thy ===== *)
theory Http_Trip
  imports Http_Props
begin

text \<open>
  What \<^verbatim>\<open>HttpSvrSendMsg\<close> writes is what \<^verbatim>\<open>HttpCliRecvMsg\<close> reads.
\<close>

subsection \<open>Decimal numbers\<close>

declare dec.simps [simp del]

lemma dec_less [simp]: "n < 10 \<Longrightarrow> dec n = [word_of_nat (48 + n)]"
  by (simp add: dec.simps)

lemma digit_unat: "k < 10 \<Longrightarrow> unat (word_of_nat (48 + k) :: byte) = 48 + k"
  by (rule unat_of_nat_small) simp

lemma digit_is_digit: "k < 10 \<Longrightarrow> is_digit (word_of_nat (48 + k))"
  using digit_unat [of k] by (simp add: is_digit_def word_le_nat_alt del: of_nat_add)

lemma dec_digits: "\<forall>b \<in> set (dec n). is_digit b"
proof (induction n rule: dec.induct)
  case (1 n)
  then show ?case by (subst dec.simps) (simp add: digit_is_digit del: of_nat_add)
qed

lemma dec_nonempty [simp]: "dec n \<noteq> []"
  by (subst dec.simps) simp

lemma dec_value: "digits_val (dec n) = int n"
proof (induction n rule: dec.induct)
  case (1 n)
  show ?case
  proof (cases "n < 10")
    case True
    then show ?thesis using digit_unat [of n] by (simp add: digits_val_def del: of_nat_add)
  next
    case False
    have "digits_val (dec n) = 10 * digits_val (dec (n div 10)) + int (unat (word_of_nat (48 + n mod 10) :: byte) - 48)"
      using False by (subst dec.simps) (simp add: digits_val_def del: of_nat_add)
    also have "\<dots> = 10 * int (n div 10) + int (n mod 10)" using 1 [OF False] digit_unat [of "n mod 10"] by (simp del: of_nat_add)
    finally show ?thesis by presburger
  qed
qed

lemma dec_length: "n < 10 ^ Suc k \<Longrightarrow> length (dec n) \<le> Suc k"
proof (induction k arbitrary: n)
  case (Suc k)
  then have "n div 10 < 10 ^ Suc k" by (simp add: less_mult_imp_div_less mult.commute)
  then show ?case using Suc.IH [of "n div 10"] by (subst dec.simps) simp
qed simp

lemma digit_not_space: "is_digit b \<Longrightarrow> \<not> is_space b \<and> b \<noteq> 45 \<and> b \<noteq> 43 \<and> b \<noteq> CR \<and> b \<noteq> LF \<and> b \<noteq> SP"
  by (auto simp: is_digit_def is_space_def CR_def LF_def SP_def word_le_nat_alt)

lemma content_value_dec:
  assumes "n < 2 ^ 31"
  shows "content_value (dec n) = Some (int n)"
proof -
  have l: "length (dec n) \<le> 10" using dec_length [of n 9] assms by simp
  let ?z = "replicate (11 - length (dec n)) 0 :: byte list"
  have z: "?z \<noteq> []" "\<not> is_digit (hd ?z)" using l by (simp_all add: is_digit_def)
  obtain d ds where d: "dec n = d # ds" by (cases "dec n") simp_all
  have "is_digit d" using dec_digits [of n] d by simp
  note ns = digit_not_space [OF this]
  have s: "dropWhile is_space (dec n @ ?z) = dec n @ ?z" using ns d by simp
  have t: "takeWhile is_digit (dec n @ ?z) = dec n" "dropWhile is_digit (dec n @ ?z) = ?z"
    using dec_digits [of n] z by (cases ?z; simp)+
  have "int n < 2 ^ 31" using assms by simp
  moreover have "\<not> is_digit 0" by (simp add: is_digit_def)
  ultimately show ?thesis using l s t z(1) ns dec_value [of n] d
    by (simp add: content_value_def atoi_def Let_def)
qed

subsection \<open>Header lines\<close>

lemma line_cut_line:
  assumes "CR \<notin> set l" "\<not> hb_assist m"
  shows "line_cut (l @ CR # LF # bs) m = (True, length l + 2, hb_write (l @ [CR, LF]) m)"
proof -
  have "CR \<noteq> LF" by (simp add: CR_def LF_def)
  then show ?thesis using Parse2_line [OF assms(1), of LF bs] assms(2) by (simp add: line_cut_def)
qed

text \<open>The reader behind a line of \<^term>\<open>k\<close> bytes.\<close>

definition line_pos :: "nat \<Rightarrow> 'm http_base_scheme \<Rightarrow> strpos" where
  "line_pos k m = \<lparr>sp_beg = hb_size m, sp_end = hb_size m + int k\<rparr>"

definition line_read :: "byte list \<Rightarrow> 'm http_base_scheme \<Rightarrow> 'm http_base_scheme" where
  "line_read l m = m\<lparr>hb_buffer := hb_buffer m @ l @ [CR, LF],
     hb_header := (hb_header m)\<lparr>sp_end := hb_size m + int (length l + 2)\<rparr>,
     hb_header2 := line_pos (length l + 2) m, hb_assist := False,
     hb_headers := hb_headers m @ [line_pos (length l + 2) m]\<rparr>"

lemma head_hit_line:
  assumes "sp_beg (hb_header2 m) = hb_size m"
  shows "head_hit (hb_write (l @ [CR, LF]) m) = line_read l m"
  using assms
  by (cases m, cases "hb_header2 m")
    (simp add: head_hit_def hb_write_def hb_size_def line_read_def line_pos_def Let_def add_ac)

lemma head_line:
  assumes "CR \<notin> set l" "l \<noteq> []" "\<not> hb_assist m" "sp_beg (hb_header2 m) = hb_size m"
  shows "Http_ParseHead (l @ CR # LF # bs) m = map_option (apfst ((+) (length l + 2)))
    (Http_ParseHead bs ((line_read l m)\<lparr>hb_flag := E_PARSE_HEAD,
       hb_header2 := \<lparr>sp_beg = hb_size (line_read l m), sp_end = 0\<rparr>\<rparr>))"
  using assms line_cut_line [OF assms(1,3), of bs] head_hit_line [OF assms(4), of l]
  by (subst Http_ParseHead.simps) (simp add: line_read_def line_pos_def Let_def)

lemma head_end:
  assumes "\<not> hb_assist m" "sp_beg (hb_header2 m) = hb_size m"
  shows "Http_ParseHead (CR # LF # bs) m = map_option (apfst ((+) 2))
    (Http_ParseBody bs ((line_read [] m)\<lparr>hb_flag := E_PARSE_BODY\<rparr>))"
  using assms line_cut_line [of "[]" m bs] head_hit_line [OF assms(2), of "[]"]
  by (subst Http_ParseHead.simps) (simp add: line_read_def line_pos_def Let_def numeral_2_eq_2)

text \<open>Several lines, with their positions behind \<^term>\<open>b\<close>.\<close>

fun line_bytes :: "byte list list \<Rightarrow> byte list" where
  "line_bytes [] = []"
| "line_bytes (l # ls) = l @ CR # LF # line_bytes ls"

fun line_spans :: "int \<Rightarrow> byte list list \<Rightarrow> strpos list" where
  "line_spans b [] = []"
| "line_spans b (l # ls) = \<lparr>sp_beg = b, sp_end = b + int (length l + 2)\<rparr> # line_spans (b + int (length l + 2)) ls"

lemma head_lines:
  assumes "\<forall>l \<in> set ls. CR \<notin> set l \<and> l \<noteq> []" "\<not> hb_assist m" "sp_beg (hb_header2 m) = hb_size m"
  shows "\<exists>h h2. Http_ParseHead (line_bytes ls @ CR # LF # bs) m = map_option (apfst ((+) (length (line_bytes ls) + 2)))
    (Http_ParseBody bs (m\<lparr>hb_buffer := hb_buffer m @ line_bytes ls @ [CR, LF], hb_header := h, hb_header2 := h2,
       hb_headers := hb_headers m @ line_spans (hb_size m) (ls @ [[]]), hb_flag := E_PARSE_BODY\<rparr>))"
  using assms
proof (induction ls arbitrary: m)
  case Nil
  then show ?case using head_end [of m bs]
    by (rule_tac exI [of _ "(hb_header m)\<lparr>sp_end := hb_size m + 2\<rparr>"], rule_tac exI [of _ "\<lparr>sp_beg = hb_size m, sp_end = hb_size m + 2\<rparr>"])
      (simp add: line_read_def line_pos_def del: add_2_eq_Suc add_2_eq_Suc')
next
  case (Cons l ls)
  let ?m = "(line_read l m)\<lparr>hb_flag := E_PARSE_HEAD, hb_header2 := \<lparr>sp_beg = hb_size (line_read l m), sp_end = 0\<rparr>\<rparr>"
  have sz: "hb_size ?m = hb_size m + int (length l + 2)" by (simp add: hb_size_def line_read_def)
  have "\<exists>h h2. Http_ParseHead (line_bytes ls @ CR # LF # bs) ?m = map_option (apfst ((+) (length (line_bytes ls) + 2)))
    (Http_ParseBody bs (?m\<lparr>hb_buffer := hb_buffer ?m @ line_bytes ls @ [CR, LF], hb_header := h, hb_header2 := h2,
       hb_headers := hb_headers ?m @ line_spans (hb_size ?m) (ls @ [[]]), hb_flag := E_PARSE_BODY\<rparr>))"
    by (rule Cons.IH) (use Cons.prems in \<open>simp_all add: hb_size_def line_read_def\<close>)
  then obtain h h2 where t: "Http_ParseHead (line_bytes ls @ CR # LF # bs) ?m = map_option (apfst ((+) (length (line_bytes ls) + 2)))
    (Http_ParseBody bs (?m\<lparr>hb_buffer := hb_buffer ?m @ line_bytes ls @ [CR, LF], hb_header := h, hb_header2 := h2,
       hb_headers := hb_headers ?m @ line_spans (hb_size ?m) (ls @ [[]]), hb_flag := E_PARSE_BODY\<rparr>))" by blast
  have "Http_ParseHead (line_bytes (l # ls) @ CR # LF # bs) m
      = map_option (apfst ((+) (length l + 2))) (Http_ParseHead (line_bytes ls @ CR # LF # bs) ?m)"
    using head_line [of l m "line_bytes ls @ CR # LF # bs"] Cons.prems by simp
  then show ?case unfolding t sz using Cons.prems
    by (rule_tac exI [of _ h], rule_tac exI [of _ h2])
      (simp add: line_read_def line_pos_def, rule arg_cong [of _ _ "\<lambda>k. map_option (apfst k) _"], simp add: fun_eq_iff)
qed

subsection \<open>The length of the content\<close>

definition no_length :: "byte list \<Rightarrow> bool" where
  "no_length l \<longleftrightarrow> (\<forall>bs. case con_match (lit ''Content-Length: '') (l @ bs) of (p, q) \<Rightarrow> p = [] \<or> hd p \<noteq> SP)"

definition length_line :: "nat \<Rightarrow> byte list" where
  "length_line n = lit ''Content-Length: '' @ dec n"

lemma match_length: "con_match (lit ''Content-Length: '') (lit ''Content-Length: '' @ bs) = ([SP], SP # bs)"
  by (simp add: lit_def SP_def)

lemma check_value:
  assumes "\<forall>l \<in> set ls. no_length l" "CR \<notin> set v"
  shows "check_headers (pre @ line_bytes ls @ lit ''Content-Length: '' @ v @ CR # bs)
      (line_spans (int (length pre)) (ls @ (lit ''Content-Length: '' @ v) # ks)) = content_value v"
  using assms(1)
proof (induction ls arbitrary: pre)
  case Nil
  have t: "takeWhile (\<lambda>b. b \<noteq> CR) (v @ CR # bs) = v"
    using assms(2) by (induction v) auto
  show ?case using match_length [of "v @ CR # bs"] t by (simp add: lit_def)
next
  case (Cons l ls)
  have "no_length l" using Cons.prems by simp
  then have "case con_match (lit ''Content-Length: '') (l @ CR # LF # line_bytes ls @ lit ''Content-Length: '' @ v @ CR # bs) of
      (p, q) \<Rightarrow> p = [] \<or> hd p \<noteq> SP" unfolding no_length_def by (rule spec)
  then show ?case using Cons.IH [of "pre @ l @ [CR, LF]"] Cons.prems by (auto simp: add_ac split: prod.splits)
qed

lemma check_length:
  assumes "n < 2 ^ 31" "\<forall>l \<in> set ls. no_length l"
  shows "check_headers (pre @ line_bytes ls @ length_line n @ CR # bs) (line_spans (int (length pre)) (ls @ length_line n # ks))
    = Some (int n)"
  using check_value [OF assms(2), of "dec n" pre bs ks] content_value_dec [OF assms(1)] dec_digits [of n] digit_not_space
  by (auto simp: length_line_def)

subsection \<open>The body\<close>

lemma body_read:
  assumes "hb_bodysize m = -1" "CheckContentLen m = Some (int (length bs))" "bs \<noteq> []" "hb_flag m = E_PARSE_BODY"
  shows "Http_ParseBody bs m = Some (length bs, m\<lparr>hb_bodysize := int (length bs), hb_flag := E_PARSE_OVER,
    hb_buffer := hb_buffer m @ bs, hb_body := \<lparr>sp_beg = hb_size m, sp_end = hb_size m + int (length bs)\<rparr>\<rparr>)"
  using assms by (simp add: Http_ParseBody_def body_size_def body_copy_def hb_size_def hb_write_def Let_def)

text \<open>The head and the body of a message with a length.\<close>

definition message_tail :: "byte list list \<Rightarrow> byte list \<Rightarrow> byte list" where
  "message_tail ls body = line_bytes (ls @ [length_line (length body)]) @ CR # LF # body"

lemma line_bytes_append: "line_bytes (ls @ ks) = line_bytes ls @ line_bytes ks"
  by (induction ls) auto

lemma length_line_cr: "CR \<notin> set (length_line n) \<and> length_line n \<noteq> []"
  using dec_digits [of n] digit_not_space [of CR] by (auto simp: length_line_def lit_def CR_def)

lemma tail_read:
  assumes "\<forall>l \<in> set ls. CR \<notin> set l \<and> l \<noteq> [] \<and> no_length l" "body \<noteq> []" "length body < 2 ^ 31"
    and "\<not> hb_assist m" "sp_beg (hb_header2 m) = hb_size m" "hb_bodysize m = -1" "hb_headers m = []"
  shows "\<exists>h h2 hs. Http_ParseHead (message_tail ls body) m = Some (length (message_tail ls body),
    m\<lparr>hb_buffer := hb_buffer m @ message_tail ls body, hb_header := h, hb_header2 := h2, hb_headers := hs,
      hb_bodysize := int (length body), hb_flag := E_PARSE_OVER,
      hb_body := \<lparr>sp_beg = hb_size m + int (length (message_tail ls body) - length body),
        sp_end = hb_size m + int (length (message_tail ls body))\<rparr>\<rparr>)"
proof -
  let ?ls = "ls @ [length_line (length body)]"
  have "\<forall>l \<in> set ?ls. CR \<notin> set l \<and> l \<noteq> []" using assms(1) length_line_cr by auto
  from head_lines [OF this assms(4,5), of body] obtain h h2 where
    t: "Http_ParseHead (message_tail ls body) m = map_option (apfst ((+) (length (line_bytes ?ls) + 2)))
      (Http_ParseBody body (m\<lparr>hb_buffer := hb_buffer m @ line_bytes ?ls @ [CR, LF], hb_header := h, hb_header2 := h2,
         hb_headers := hb_headers m @ line_spans (hb_size m) (?ls @ [[]]), hb_flag := E_PARSE_BODY\<rparr>))"
    unfolding message_tail_def by blast
  let ?m = "m\<lparr>hb_buffer := hb_buffer m @ line_bytes ?ls @ [CR, LF], hb_header := h, hb_header2 := h2,
         hb_headers := hb_headers m @ line_spans (hb_size m) (?ls @ [[]]), hb_flag := E_PARSE_BODY\<rparr>"
  have "CheckContentLen ?m = Some (int (length body))"
    using check_length [OF assms(3), of ls "hb_buffer m" "LF # [CR, LF]" "[[]]"] assms(1,7)
    by (simp add: CheckContentLen_def hb_size_def line_bytes_append)
  then have b: "Http_ParseBody body ?m = Some (length body, ?m\<lparr>hb_bodysize := int (length body), hb_flag := E_PARSE_OVER,
    hb_buffer := hb_buffer ?m @ body, hb_body := \<lparr>sp_beg = hb_size ?m, sp_end = hb_size ?m + int (length body)\<rparr>\<rparr>)"
    by (intro body_read) (use assms in simp_all)
  show ?thesis unfolding t b
    by (rule exI [of _ h], rule exI [of _ h2], rule exI [of _ "line_spans (hb_size m) (?ls @ [[]])"])
      (simp add: assms(7) message_tail_def hb_size_def)
qed

subsection \<open>The first line\<close>

lemma word_read:
  assumes "SP \<notin> set w"
  shows "parse_word upd go (w @ SP # bs) m = map_option (apfst ((+) (length w + 1)))
    (go bs (upd (hb_size m + int (length w + 1)) (m\<lparr>hb_buffer := hb_buffer m @ w @ [SP]\<rparr>)))"
  using Parse1_word [OF assms, of bs] by (simp add: parse_word_def hb_size_def hb_write_def Let_def add.commute)

lemma rest_read:
  assumes "CR \<notin> set l" "\<not> hb_assist m"
  shows "parse_rest upd (l @ CR # LF # bs) m = map_option (apfst ((+) (length l + 2)))
    (Http_ParseHead bs ((upd (hb_size m + int (length l)) (m\<lparr>hb_buffer := hb_buffer m @ l @ [CR, LF]\<rparr>))
      \<lparr>hb_flag := E_PARSE_HEAD, hb_header2 := (hb_header2 m)\<lparr>sp_beg := hb_size m + int (length l + 2)\<rparr>,
       hb_header := (hb_header m)\<lparr>sp_beg := hb_size m + int (length l + 2)\<rparr>, hb_assist := False\<rparr>))"
  using line_cut_line [OF assms, of bs] by (simp add: parse_rest_def hb_write_def hb_size_def Let_def add.commute add.left_commute)

definition response :: "byte list \<Rightarrow> byte list \<Rightarrow> byte list \<Rightarrow> byte list list \<Rightarrow> byte list \<Rightarrow> byte list" where
  "response ver code phrase ls body = ver @ SP # code @ SP # phrase @ CR # LF # message_tail ls body"

lemma drop_behind: "k = length xs \<Longrightarrow> drop k (xs @ ys) = ys"
  by simp

lemma response_read:
  assumes "SP \<notin> set ver" "SP \<notin> set code" "CR \<notin> set phrase"
    and "\<forall>l \<in> set ls. CR \<notin> set l \<and> l \<noteq> [] \<and> no_length l" "body \<noteq> []" "length body < 2 ^ 31"
  shows "\<exists>m. Cli_Parse (response ver code phrase ls body) HttpCliRecvMsg = Some (length (response ver code phrase ls body), m)
    \<and> hb_flag m = E_PARSE_OVER \<and> get_part (cl_version m) m = ver \<and> get_part (cl_statuscode m) m = code
    \<and> get_part (cl_statusphrase m) m = phrase \<and> get_part (hb_body m) m = body
    \<and> hb_buffer m = response ver code phrase ls body"
proof -
  let ?v = "length ver + 1" and ?c = "length ver + length code + 2"
  let ?p = "?c + length phrase + 2"
  let ?m = "HttpCliRecvMsg\<lparr>hb_buffer := ver @ SP # code @ SP # phrase @ [CR, LF], hb_flag := E_PARSE_HEAD,
      hb_header2 := \<lparr>sp_beg = int ?p, sp_end = 0\<rparr>, hb_header := \<lparr>sp_beg = int ?p, sp_end = 0\<rparr>,
      cl_version := \<lparr>sp_beg = 0, sp_end = int (length ver)\<rparr>,
      cl_statuscode := \<lparr>sp_beg = int ?v, sp_end = int (?v + length code)\<rparr>,
      cl_statusphrase := \<lparr>sp_beg = int ?c, sp_end = int (?c + length phrase)\<rparr>\<rparr>"
  have first: "Cli_Parse (response ver code phrase ls body) HttpCliRecvMsg
      = map_option (apfst ((+) ?p)) (Http_ParseHead (message_tail ls body) ?m)"
    using assms(1-3)
    by (simp add: Cli_Parse_def Cli_ParseVer_def Cli_ParseStatusCode_def Cli_ParseStatusPhrase_def response_def
        word_read rest_read HttpCliRecvMsg_def strpos0_def hb_size_def add_ac)
  have "\<exists>h h2 hs. Http_ParseHead (message_tail ls body) ?m = Some (length (message_tail ls body),
    ?m\<lparr>hb_buffer := hb_buffer ?m @ message_tail ls body, hb_header := h, hb_header2 := h2, hb_headers := hs,
      hb_bodysize := int (length body), hb_flag := E_PARSE_OVER,
      hb_body := \<lparr>sp_beg = hb_size ?m + int (length (message_tail ls body) - length body),
        sp_end = hb_size ?m + int (length (message_tail ls body))\<rparr>\<rparr>)"
    by (rule tail_read [OF assms(4-6)]) (simp_all add: HttpCliRecvMsg_def hb_size_def)
  then obtain h h2 hs where t: "Http_ParseHead (message_tail ls body) ?m = Some (length (message_tail ls body),
    ?m\<lparr>hb_buffer := hb_buffer ?m @ message_tail ls body, hb_header := h, hb_header2 := h2, hb_headers := hs,
      hb_bodysize := int (length body), hb_flag := E_PARSE_OVER,
      hb_body := \<lparr>sp_beg = hb_size ?m + int (length (message_tail ls body) - length body),
        sp_end = hb_size ?m + int (length (message_tail ls body))\<rparr>\<rparr>)" by blast
  have "drop (6 + (length code + (length phrase + length (line_bytes (ls @ [length_line (length body)])))))
      (SP # code @ SP # phrase @ CR # LF # line_bytes (ls @ [length_line (length body)]) @ CR # LF # body) = body"
    using drop_behind [of "6 + (length code + (length phrase + length (line_bytes (ls @ [length_line (length body)]))))"
        "SP # code @ SP # phrase @ CR # LF # line_bytes (ls @ [length_line (length body)]) @ [CR, LF]" body] by simp
  then show ?thesis unfolding first t
    by (simp add: get_part_def sub_bytes_def hb_size_def response_def message_tail_def nat_add_distrib)
qed

subsection \<open>What the setters write\<close>

lemma no_length_header:
  "no_length (lit ''Location: '' @ x)" "no_length (lit ''Content-Encoding: '' @ x)"
  "no_length (lit ''Content-Type: '' @ x)" "no_length (lit ''Content-Language: '' @ x)"
  by (simp_all add: no_length_def lit_def SP_def)

lemma lit_cr: "CR \<notin> set (lit ''Location: '')" "CR \<notin> set (lit ''Content-Encoding: '')"
  "CR \<notin> set (lit ''Content-Type: '')" "CR \<notin> set (lit ''Content-Language: '')"
  by (simp_all add: lit_def CR_def)

lemmas flag_defs = E_VER_def E_STATUS_CODE_def E_STATUS_PHRASE_def E_LOCATION_def E_CONT_CODING_def E_CONT_TYPE_def
  E_CONT_LANGUAGE_def E_DATE_def E_SERVER_def E_BODY_def

lemma setters_write:
  "hs_buffer (snd (SetBody body (snd (SetContentLanguage lang (snd (SetContentType ty (snd (SetContentEncode enc
     (snd (SetLocation loc (snd (SetStatusPhrase phrase (snd (SetStatusCode code (snd (SetHttpVersion ver HttpSvrSendMsg))))))))))))))))
   = response ver code phrase [lit ''Location: '' @ loc, lit ''Content-Encoding: '' @ enc, lit ''Content-Type: '' @ ty,
       lit ''Content-Language: '' @ lang] body"
  by (simp add: SetHttpVersion_def SetStatusCode_def SetStatusPhrase_def SetLocation_def SetContentEncode_def SetContentType_def
      SetContentLanguage_def SetBody_def started_def has_def put_def HttpSvrSendMsg_def CRLF_def flag_defs response_def
      message_tail_def length_line_def Let_def)

text \<open>C12: a response written with \<^verbatim>\<open>HttpSvrSendMsg\<close>, with every header in the order of its setters and a body that is
  not empty, is read by \<^verbatim>\<open>HttpCliRecvMsg\<close> from any chunks of its bytes: all bytes are taken, the message is over, and
  version, status code, phrase and body are those that were set.\<close>

theorem http_response_roundtrip:
  assumes "SP \<notin> set ver" "SP \<notin> set code" "\<forall>l \<in> {phrase, loc, enc, ty, lang}. CR \<notin> set l" "body \<noteq> []" "length body < 2 ^ 31"
    and "hs_buffer (snd (SetBody body (snd (SetContentLanguage lang (snd (SetContentType ty (snd (SetContentEncode enc
      (snd (SetLocation loc (snd (SetStatusPhrase phrase (snd (SetStatusCode code (snd (SetHttpVersion ver HttpSvrSendMsg))))))))))))))))
      = c @ concat cs"
  shows "\<exists>m. fold (resume Cli_Parse) cs (Cli_Parse c HttpCliRecvMsg) = Some (length (c @ concat cs), m)
    \<and> hb_flag m = E_PARSE_OVER \<and> get_part (cl_version m) m = ver \<and> get_part (cl_statuscode m) m = code
    \<and> get_part (cl_statusphrase m) m = phrase \<and> get_part (hb_body m) m = body"
proof -
  let ?ls = "[lit ''Location: '' @ loc, lit ''Content-Encoding: '' @ enc, lit ''Content-Type: '' @ ty, lit ''Content-Language: '' @ lang]"
  have "\<forall>l \<in> set ?ls. CR \<notin> set l \<and> l \<noteq> [] \<and> no_length l"
    using assms(3) no_length_header lit_cr by (simp add: lit_def)
  moreover have "CR \<notin> set phrase" using assms(3) by simp
  ultimately obtain m where m: "Cli_Parse (response ver code phrase ?ls body) HttpCliRecvMsg
      = Some (length (response ver code phrase ?ls body), m)" "hb_flag m = E_PARSE_OVER" "get_part (cl_version m) m = ver"
    "get_part (cl_statuscode m) m = code" "get_part (cl_statusphrase m) m = phrase" "get_part (hb_body m) m = body"
    using response_read [OF assms(1,2), of phrase ?ls body] assms(4,5) by blast
  have "c @ concat cs = response ver code phrase ?ls body" using assms(6) by (simp only: setters_write)
  then show ?thesis using m cli_http.chunks_all [OF cli_chunks, of cs c HttpCliRecvMsg] by auto
qed

theorem http_response_roundtrip_witness:
  "\<exists>m. fold (resume Cli_Parse) [drop 7 (response (lit ''HTTP/1.1'') (lit ''200'') (lit ''OK'') [lit ''Location: /a'',
       lit ''Content-Encoding: gzip'', lit ''Content-Type: x'', lit ''Content-Language: en''] [1, 13, 10])]
     (Cli_Parse (take 7 (response (lit ''HTTP/1.1'') (lit ''200'') (lit ''OK'') [lit ''Location: /a'',
       lit ''Content-Encoding: gzip'', lit ''Content-Type: x'', lit ''Content-Language: en''] [1, 13, 10])) HttpCliRecvMsg)
     = Some (length (response (lit ''HTTP/1.1'') (lit ''200'') (lit ''OK'') [lit ''Location: /a'',
       lit ''Content-Encoding: gzip'', lit ''Content-Type: x'', lit ''Content-Language: en''] [1, 13, 10]), m)
    \<and> hb_flag m = E_PARSE_OVER \<and> get_part (hb_body m) m = [1, 13, 10]"
proof -
  let ?r = "response (lit ''HTTP/1.1'') (lit ''200'') (lit ''OK'') [lit ''Location: /a'',
       lit ''Content-Encoding: gzip'', lit ''Content-Type: x'', lit ''Content-Language: en''] [1, 13, 10]"
  have l: "lit ''Location: /a'' = lit ''Location: '' @ lit ''/a''"
    "lit ''Content-Encoding: gzip'' = lit ''Content-Encoding: '' @ lit ''gzip''"
    "lit ''Content-Type: x'' = lit ''Content-Type: '' @ lit ''x''"
    "lit ''Content-Language: en'' = lit ''Content-Language: '' @ lit ''en''" by (simp_all add: lit_def)
  have b: "hs_buffer (snd (SetBody [1, 13, 10] (snd (SetContentLanguage (lit ''en'') (snd (SetContentType (lit ''x'')
      (snd (SetContentEncode (lit ''gzip'') (snd (SetLocation (lit ''/a'') (snd (SetStatusPhrase (lit ''OK'')
      (snd (SetStatusCode (lit ''200'') (snd (SetHttpVersion (lit ''HTTP/1.1'') HttpSvrSendMsg))))))))))))))))
      = take 7 ?r @ concat [drop 7 ?r]"
    unfolding setters_write l by simp
  have "\<exists>m. fold (resume Cli_Parse) [drop 7 ?r] (Cli_Parse (take 7 ?r) HttpCliRecvMsg) = Some (length (take 7 ?r @ concat [drop 7 ?r]), m)
    \<and> hb_flag m = E_PARSE_OVER \<and> get_part (cl_version m) m = lit ''HTTP/1.1'' \<and> get_part (cl_statuscode m) m = lit ''200''
    \<and> get_part (cl_statusphrase m) m = lit ''OK'' \<and> get_part (hb_body m) m = [1, 13, 10]"
    by (rule http_response_roundtrip [OF _ _ _ _ _ b]) (simp_all add: lit_def SP_def CR_def)
  moreover have "length (take 7 ?r @ concat [drop 7 ?r]) = length ?r" by simp
  ultimately show ?thesis by (simp only:) blast
qed

end
