(* ===== verification/Http_Cut.thy ===== *)
theory Http_Cut
  imports Http_Trip
begin

text \<open>
  What \<^verbatim>\<open>HttpBaseSocket\<close> hands to the server of the chunks it reads, and what a request does to its memory.
\<close>

subsection \<open>What a parser takes\<close>

definition takes :: "byte list \<Rightarrow> 'm http_base_scheme \<Rightarrow> (nat \<times> 'm http_base_scheme) mem \<Rightarrow> bool" where
  "takes bs m r \<longleftrightarrow> (\<forall>n m1. r = Some (n, m1) \<longrightarrow> n \<le> length bs \<and> hb_buffer m1 = hb_buffer m @ take n bs)"

lemma takes_after:
  assumes k: "k \<le> length bs" "hb_buffer m2 = hb_buffer m @ take k bs" and t: "takes (drop k bs) m3 r" "hb_buffer m3 = hb_buffer m2"
  shows "takes bs m (map_option (apfst ((+) k)) r)"
proof (cases r)
  case (Some p)
  obtain n m1 where p: "p = (n, m1)" by (cases p)
  have "n \<le> length bs - k" "hb_buffer m1 = (hb_buffer m @ take k bs) @ take n (drop k bs)"
    using t Some p k by (auto simp: takes_def)
  then show ?thesis using Some p k(1) by (simp add: takes_def take_add)
qed (simp add: takes_def)

lemma takes_body: "takes bs m (Http_ParseBody bs m)"
proof -
  have s: "hb_buffer m1 = hb_buffer m" if "body_size m = Some m1" for m1
    using that by (cases "CheckContentLen m") (auto simp: body_size_def split: if_splits)
  have c: "takes bs m1 (body_copy bs m1)" for m1
    by (auto simp: takes_def body_copy_def hb_write_def Let_def)
  show ?thesis using s c by (cases "body_size m") (auto simp: Http_ParseBody_def takes_def)
qed

lemma line_cut_takes:
  assumes "line_cut bs m = (hit, n, m1)" "bs \<noteq> []"
  shows "n \<le> length bs" "hb_buffer m1 = hb_buffer m @ take n bs"
  using line_cut_range [OF assms(2,1)] assms(1) by (auto simp: line_cut_def hb_write_def split: prod.splits if_splits)

lemma line_rest_takes [simp]: "hb_buffer (line_rest m) = hb_buffer m"
  by (simp add: line_rest_def)

lemma takes_head: "takes bs m (Http_ParseHead bs m)"
proof (induction bs m rule: Http_ParseHead.induct)
  case (1 bs m)
  show ?case
  proof (cases "bs = []")
    case True
    then show ?thesis by (simp add: Http_ParseHead.simps [of "[]"] takes_def)
  next
    case False
    obtain hit n m1 where l: "line_cut bs m = (hit, n, m1)" by (cases "line_cut bs m")
    note t = line_cut_takes [OF l False]
    have h: "hb_buffer (head_hit m1) = hb_buffer m1" by (simp add: head_hit_def Let_def)
    show ?thesis
    proof (cases hit)
      case hit: True
      show ?thesis
      proof (cases "sp_beg (hb_header2 (head_hit m1)) + 2 = sp_end (hb_header2 (head_hit m1))")
        case True
        then show ?thesis using False l hit t h
          by (subst Http_ParseHead.simps) (simp add: Let_def takes_after [OF t takes_body])
      next
        case n2: False
        note IH = 1 [OF False l [symmetric] refl hit refl n2]
        show ?thesis using False l hit t h n2
          by (subst Http_ParseHead.simps) (simp add: Let_def takes_after [OF t IH])
      qed
    next
      case miss: False
      then show ?thesis using False l t by (subst Http_ParseHead.simps) (simp add: takes_def)
    qed
  qed
qed

lemma takes_word:
  assumes "\<And>pos m. hb_buffer (upd pos m) = hb_buffer m" "\<And>bs m. takes bs m (go bs m)"
  shows "takes bs m (parse_word upd go bs m)"
proof -
  have "snd (Http_Parse1 bs SP) \<le> length bs" by (induction bs) (auto split: prod.splits)
  then show ?thesis using assms
    by (auto simp: parse_word_def hb_write_def Let_def takes_def [of _ _ "Some _"] intro!: takes_after [OF _ _ assms(2)] split: prod.splits)
qed

lemma takes_rest:
  assumes "\<And>pos m. hb_buffer (upd pos m) = hb_buffer m"
  shows "takes bs m (parse_rest upd bs m)"
proof (cases "bs = []")
  case False
  obtain hit n m1 where l: "line_cut bs m = (hit, n, m1)" by (cases "line_cut bs m")
  note t = line_cut_takes [OF l False]
  show ?thesis using False l t assms
    by (auto simp: parse_rest_def Let_def takes_def [of _ _ "Some _"] intro!: takes_after [OF _ _ takes_head])
qed (simp add: parse_rest_def takes_def)

lemma takes_svr: "takes bs m (Svr_Parse bs m)"
proof -
  have v: "takes bs m (Svr_ParseVer bs m)" for bs m unfolding Svr_ParseVer_def by (rule takes_rest) simp
  have u: "takes bs m (Svr_ParseUrl bs m)" for bs m unfolding Svr_ParseUrl_def by (rule takes_word) (simp_all add: v)
  have w: "takes bs m (Svr_ParseMethod bs m)" unfolding Svr_ParseMethod_def by (rule takes_word) (simp_all add: u)
  have z: "takes bs m (Some (0, m))" by (simp add: takes_def)
  show ?thesis by (cases "hb_flag m") (simp_all add: Svr_Parse_def v u w z takes_head takes_body)
qed

lemma Svr_Clear_new [simp]: "Svr_Clear m = HttpSvrRecvMsg"
  by (cases m) (simp add: Svr_Clear_def hb_Clear_def HttpSvrRecvMsg_def)

lemma cut_takes:
  "http_cut bs m = Some (ds, m1) \<Longrightarrow> ds \<noteq> [] \<and> m1 = HttpSvrRecvMsg \<and> concat (map hb_buffer ds) = hb_buffer m @ bs"
proof (induction bs m arbitrary: ds m1 rule: http_cut.induct)
  case (1 bs m)
  obtain n m2 where p: "Svr_Parse bs m = Some (n, m2)"
    using "1.prems" by (subst (asm) http_cut.simps) (auto split: option.splits)
  have t: "n \<le> length bs" "hb_buffer m2 = hb_buffer m @ take n bs" using takes_svr [of bs m] p by (auto simp: takes_def)
  show ?case
  proof (cases "n \<ge> length bs")
    case True
    then show ?thesis using "1.prems" p t by (subst (asm) http_cut.simps) auto
  next
    case False
    then obtain es where e: "http_cut (drop n bs) (Svr_Clear m2) = Some (es, m1)" "ds = m2 # es"
      using "1.prems" p by (subst (asm) http_cut.simps) auto
    have "concat (map hb_buffer es) = drop n bs \<and> m1 = HttpSvrRecvMsg"
      using "1.IH" [OF p refl False e(1)] by (simp add: HttpSvrRecvMsg_def)
    then show ?thesis using e(2) t by simp
  qed
qed

text \<open>C30: the reader keeps nothing from one chunk to the next.  Whatever chunks arrive at a new reader, it hands out of each
  chunk at least one message, complete or not, the bytes of these messages are those of the chunk in their order, and it is new again
  behind the chunk: a request that arrives in two chunks is handed out as two broken ones.\<close>

theorem http_chunks_forgotten:
  assumes "http_receive cs HttpSvrRecvMsg = Some (ds, m)"
  shows "m = HttpSvrRecvMsg \<and> (\<exists>dss. ds = concat dss \<and> list_all2 (\<lambda>c d. http_cut c HttpSvrRecvMsg = Some (d, HttpSvrRecvMsg)
    \<and> d \<noteq> [] \<and> concat (map hb_buffer d) = c) cs dss)"
  using assms
proof (induction cs arbitrary: ds)
  case (Cons c cs)
  then obtain d m1 es where d: "http_cut c HttpSvrRecvMsg = Some (d, m1)" "http_receive cs m1 = Some (es, m)" "ds = d @ es"
    by (auto simp: bind_eq_Some_conv)
  have c: "d \<noteq> []" "m1 = HttpSvrRecvMsg" "concat (map hb_buffer d) = c"
    using cut_takes [OF d(1)] by (simp_all add: HttpSvrRecvMsg_def)
  obtain dss where "m = HttpSvrRecvMsg" "es = concat dss" "list_all2 (\<lambda>c d. http_cut c HttpSvrRecvMsg = Some (d, HttpSvrRecvMsg)
    \<and> d \<noteq> [] \<and> concat (map hb_buffer d) = c) cs dss"
    using Cons.IH [of es] d(2) c(2) by auto
  then show ?case using d(1,3) c by (auto intro!: exI [of _ "d # dss"])
qed simp

theorem http_chunks_forgotten_witness:
  "\<exists>d e m. http_receive [lit ''GET /a'', lit '' HTTP/1.1''] HttpSvrRecvMsg = Some (d @ e, m) \<and> m = HttpSvrRecvMsg
    \<and> concat (map hb_buffer d) = lit ''GET /a'' \<and> d \<noteq> [] \<and> e \<noteq> []"
proof -
  have "\<exists>ds m. http_receive [lit ''GET /a'', lit '' HTTP/1.1''] HttpSvrRecvMsg = Some (ds, m)"
    by (simp add: lit_def HttpSvrRecvMsg_def http_cut.simps Svr_Parse_def Svr_ParseMethod_def Svr_ParseUrl_def Svr_ParseVer_def
        parse_word_def parse_rest_def SP_def CR_def LF_def hb_write_def hb_size_def Let_def strpos0_def)
  then obtain ds m where r: "http_receive [lit ''GET /a'', lit '' HTTP/1.1''] HttpSvrRecvMsg = Some (ds, m)" by blast
  from http_chunks_forgotten [OF r] r show ?thesis by (auto simp: list_all2_Cons1) blast
qed

subsection \<open>The length of the content\<close>

text \<open>C31: a request with a \<^verbatim>\<open>Content-Length\<close> of more than eleven characters, or of eleven digits, makes the reader leave the
  array of eleven bytes it copies the number to, as soon as a byte behind the head is there.\<close>

theorem http_length_overflow:
  assumes "SP \<notin> set method" "SP \<notin> set url" "CR \<notin> set ver" "\<forall>l \<in> set ls. CR \<notin> set l \<and> l \<noteq> [] \<and> no_length l" "CR \<notin> set v"
    and "11 < length v \<or> length v = 11 \<and> (\<forall>b \<in> set v. is_digit b)"
  shows "Svr_Parse (method @ SP # url @ SP # ver @ CR # LF # line_bytes (ls @ [lit ''Content-Length: '' @ v]) @ CR # LF # b # bs)
    HttpSvrRecvMsg = None"
proof -
  let ?ls = "ls @ [lit ''Content-Length: '' @ v]"
  let ?p = "length method + length url + 2 + length ver + 2"
  let ?m = "HttpSvrRecvMsg\<lparr>hb_buffer := method @ SP # url @ SP # ver @ [CR, LF], hb_flag := E_PARSE_HEAD,
      hb_header2 := \<lparr>sp_beg = int ?p, sp_end = 0\<rparr>, hb_header := \<lparr>sp_beg = int ?p, sp_end = 0\<rparr>,
      sv_method := \<lparr>sp_beg = 0, sp_end = int (length method)\<rparr>,
      sv_url := \<lparr>sp_beg = int (length method + 1), sp_end = int (length method + 1 + length url)\<rparr>,
      sv_ver := \<lparr>sp_beg = int (length method + length url + 2), sp_end = int (length method + length url + length ver + 2)\<rparr>\<rparr>"
  have first: "Svr_Parse (method @ SP # url @ SP # ver @ CR # LF # line_bytes ?ls @ CR # LF # b # bs) HttpSvrRecvMsg
      = map_option (apfst ((+) ?p)) (Http_ParseHead (line_bytes ?ls @ CR # LF # b # bs) ?m)"
    using assms(1-3)
    by (simp add: Svr_Parse_def Svr_ParseMethod_def Svr_ParseUrl_def Svr_ParseVer_def
        word_read rest_read HttpSvrRecvMsg_def strpos0_def hb_size_def add_ac)
  have "\<forall>l \<in> set ?ls. CR \<notin> set l \<and> l \<noteq> []" using assms(4,5) by (auto simp: lit_def CR_def)
  moreover have "\<not> hb_assist ?m" "sp_beg (hb_header2 ?m) = hb_size ?m" by (simp_all add: HttpSvrRecvMsg_def hb_size_def)
  ultimately obtain h h2 where h: "Http_ParseHead (line_bytes ?ls @ CR # LF # b # bs) ?m = map_option (apfst ((+) (length (line_bytes ?ls) + 2)))
      (Http_ParseBody (b # bs) (?m\<lparr>hb_buffer := hb_buffer ?m @ line_bytes ?ls @ [CR, LF], hb_header := h, hb_header2 := h2,
         hb_headers := hb_headers ?m @ line_spans (hb_size ?m) (?ls @ [[]]), hb_flag := E_PARSE_BODY\<rparr>))"
    using head_lines [of ?ls ?m "b # bs"] by blast
  have "content_value v = None"
  proof (cases "11 < length v")
    case False
    then have "length v = 11" "\<forall>b \<in> set v. is_digit b" using assms(6) by auto
    moreover from this obtain d ds where d: "v = d # ds" by (cases v) auto
    ultimately show ?thesis using digit_not_space [of d] by (auto simp: content_value_def atoi_def Let_def)
  qed (simp add: content_value_def)
  then have "Http_ParseBody (b # bs) (?m\<lparr>hb_buffer := hb_buffer ?m @ line_bytes ?ls @ [CR, LF], hb_header := h, hb_header2 := h2,
         hb_headers := hb_headers ?m @ line_spans (hb_size ?m) (?ls @ [[]]), hb_flag := E_PARSE_BODY\<rparr>) = None"
    using check_value [of ls v "hb_buffer ?m" "LF # [CR, LF]" "[[]]"] assms(4,5)
    by (simp add: Http_ParseBody_def body_size_def CheckContentLen_def hb_size_def line_bytes_append HttpSvrRecvMsg_def)
  then show ?thesis unfolding first h by simp
qed

theorem http_length_overflow_witness:
  "Svr_Parse (lit ''GET'' @ SP # lit ''/'' @ SP # lit ''HTTP/1.1'' @ CR # LF # line_bytes ([lit ''Host: h''] @ [lit ''Content-Length: '' @
     lit ''00000000001'']) @ CR # LF # 65 # []) HttpSvrRecvMsg = None"
  by (rule http_length_overflow) (simp_all add: lit_def SP_def CR_def is_digit_def no_length_def)

end
