(* ===== verification/Db_Tool.thy ===== *)
theory Db_Tool
  imports Prelude "HOL-Library.List_Lexorder" "HOL-Library.Char_ord" "HOL-Library.Sublist"
begin

text \<open>
  \<^verbatim>\<open>dbtool\<close>: the program that brings the tables of a database to a configuration.  The messages of
  \<^verbatim>\<open>dbtool.proto\<close> are records; a field that the code asks \<^verbatim>\<open>has_...\<close> of is an option.  The SQL text is
  built as in \<^verbatim>\<open>mysql_executor.cpp\<close>; the database is a parameter, a record of what the connection does
  with a text.
\<close>

subsection \<open>\<^verbatim>\<open>dbtool.proto\<close>\<close>

datatype MysqlFieldType =
    E_FieldType_TinyInt | E_FieldType_Int | E_FieldType_UInt | E_FieldType_BigInt | E_FieldType_Double
  | E_FieldType_Varchar | E_FieldType_Blob | E_FieldType_MediumBlob | E_FieldType_Text | E_FieldType_Date
  | E_FieldType_Time | E_FieldType_TimeStamp

datatype MysqlKeyType = E_KeyType_Primary | E_KeyType_Normal | E_KeyType_Unique

record TableField =
  fl_name :: string
  fl_type :: "MysqlFieldType option"
  fl_not_null :: bool
  fl_auto_incr :: "bool option"
  fl_default :: string
  fl_rename_from :: "string option"
  fl_modify_type :: "MysqlFieldType option"
  fl_varchar_len :: u32
  fl_is_delete :: bool

record TableKey =
  ky_name :: string
  ky_type :: "MysqlKeyType option"
  ky_fields :: "string list"

record MysqlTable =
  tb_name :: string
  tb_fields :: "TableField list"
  tb_keys :: "TableKey list"

record MysqlSchema =
  sc_ip :: string
  sc_port :: u32
  sc_user :: string
  sc_passwd :: string
  sc_name :: string
  sc_tables :: "MysqlTable list"

text \<open>An enumeration that is not set reads as its first value.\<close>

definition field_type :: "MysqlFieldType option \<Rightarrow> MysqlFieldType" where
  "field_type t = (case t of Some x \<Rightarrow> x | None \<Rightarrow> E_FieldType_TinyInt)"

definition key_type :: "MysqlKeyType option \<Rightarrow> MysqlKeyType" where
  "key_type t = (case t of Some x \<Rightarrow> x | None \<Rightarrow> E_KeyType_Primary)"

subsection \<open>The connection\<close>

text \<open>What the client library does: a handle, or none; the results of \<^verbatim>\<open>UseDb\<close> and \<^verbatim>\<open>Execute\<close>; the rows of \<^verbatim>\<open>Query\<close>
  that reach the callback, each its first column.\<close>

record 's mysql =
  my_connect :: "string \<Rightarrow> string \<Rightarrow> string \<Rightarrow> u32 \<Rightarrow> 's \<Rightarrow> nat option \<times> 's"
  my_use :: "nat \<Rightarrow> string \<Rightarrow> 's \<Rightarrow> bool \<times> 's"
  my_exec :: "nat \<Rightarrow> string \<Rightarrow> 's \<Rightarrow> int \<times> 's"
  my_query :: "nat \<Rightarrow> string \<Rightarrow> 's \<Rightarrow> (int \<times> string list) \<times> 's"

text \<open>\<^verbatim>\<open>if (0 != f(...)) break;\<close> in a chain of steps.\<close>

definition sql_then :: "('s \<Rightarrow> int \<times> 's) \<Rightarrow> ('s \<Rightarrow> int \<times> 's) \<Rightarrow> 's \<Rightarrow> int \<times> 's" where
  "sql_then f g s = (case f s of (r, s1) \<Rightarrow> if r \<noteq> 0 then (-1, s1) else g s1)"

text \<open>A loop that returns \<^verbatim>\<open>-1\<close> at the first step that fails.\<close>

fun sql_all :: "('a \<Rightarrow> 's \<Rightarrow> int \<times> 's) \<Rightarrow> 'a list \<Rightarrow> 's \<Rightarrow> int \<times> 's" where
  "sql_all f [] s = (0, s)"
| "sql_all f (x # xs) s = sql_then (f x) (sql_all f xs) s"

subsection \<open>Descriptions\<close>

fun show_nat :: "nat \<Rightarrow> string" where
  "show_nat n = (if n < 10 then [char_of (48 + n)] else show_nat (n div 10) @ [char_of (48 + n mod 10)])"

definition GetFieldTypeDesc_of :: "TableField \<Rightarrow> MysqlFieldType \<Rightarrow> string" where
  "GetFieldTypeDesc_of field t =
     (case t of
        E_FieldType_TinyInt \<Rightarrow> ''TINYINT''
      | E_FieldType_Int \<Rightarrow> ''INT''
      | E_FieldType_UInt \<Rightarrow> ''INT UNSIGNED''
      | E_FieldType_BigInt \<Rightarrow> ''BIGINT''
      | E_FieldType_Double \<Rightarrow> ''DOUBLE''
      | E_FieldType_Varchar \<Rightarrow> ''VARCHAR('' @ show_nat (unat (fl_varchar_len field)) @ '')''
      | E_FieldType_Blob \<Rightarrow> ''BLOB''
      | E_FieldType_MediumBlob \<Rightarrow> ''MEDIUMBLOB''
      | E_FieldType_Text \<Rightarrow> ''TEXT''
      | E_FieldType_Date \<Rightarrow> ''DATE''
      | E_FieldType_Time \<Rightarrow> ''TIME''
      | E_FieldType_TimeStamp \<Rightarrow> ''TIMESTAMP'')"

definition GetFieldTypeDesc :: "TableField \<Rightarrow> string" where
  "GetFieldTypeDesc field = GetFieldTypeDesc_of field (field_type (fl_type field))"

definition GetFieldModifyTypeDesc :: "TableField \<Rightarrow> string" where
  "GetFieldModifyTypeDesc field = GetFieldTypeDesc_of field (field_type (fl_modify_type field))"

definition quoted :: "string \<Rightarrow> string" where "quoted n = ''`'' @ n @ ''`''"

definition GetFieldKeyDesc :: "TableKey \<Rightarrow> string" where
  "GetFieldKeyDesc key =
     (case key_type (ky_type key) of
        E_KeyType_Primary \<Rightarrow> ''PRIMARY KEY(''
      | E_KeyType_Normal \<Rightarrow> ''KEY `'' @ ky_name key @ ''`(''
      | E_KeyType_Unique \<Rightarrow> ''UNIQUE KEY `'' @ ky_name key @ ''`('')
     @ concat (map (\<lambda>(i, f). (if i > 0 then '', '' else []) @ quoted f) (enumerate 0 (ky_fields key))) @ '')''"

subsection \<open>Tables and columns\<close>

definition columns_sql :: "string \<Rightarrow> string \<Rightarrow> string" where
  "columns_sql schema tname = ''SELECT DISTINCT COLUMN_NAME FROM information_schema.columns where table_schema=''
     @ [CHR 0x27] @ schema @ [CHR 0x27] @ '' and table_name='' @ [CHR 0x27] @ tname @ [CHR 0x27, CHR '';'']"

definition GetTableFields :: "'s mysql \<Rightarrow> nat \<Rightarrow> string \<Rightarrow> string \<Rightarrow> 's \<Rightarrow> (int \<times> string list) \<times> 's" where
  "GetTableFields M c schema tname = my_query M c (columns_sql schema tname)"

text \<open>The columns of \<^verbatim>\<open>CREATE TABLE\<close>; \<^term>\<open>i\<close> counts those that are written.\<close>

definition field_sql :: "TableField \<Rightarrow> string" where
  "field_sql f = quoted (fl_name f) @ '' '' @ GetFieldTypeDesc f
     @ (if fl_not_null f then '' NOT NULL'' else [])
     @ (if fl_auto_incr f = Some True then '' AUTO_INCREMENT'' else [])
     @ (if fl_default f \<noteq> [] then '' DEFAULT '' @ [CHR 0x27] @ fl_default f @ [CHR 0x27] else [])"

fun fields_sql :: "nat \<Rightarrow> TableField list \<Rightarrow> string" where
  "fields_sql i [] = []"
| "fields_sql i (f # fs) =
     (if fl_is_delete f then fields_sql i fs
      else (if i \<noteq> 0 then '', '' else []) @ field_sql f @ fields_sql (i + 1) fs)"

definition create_sql :: "MysqlTable \<Rightarrow> string" where
  "create_sql t = ''CREATE TABLE '' @ tb_name t @ ''('' @ fields_sql 0 (tb_fields t)
     @ concat (map (\<lambda>k. '', '' @ GetFieldKeyDesc k) (tb_keys t)) @ '') CHARACTER SET utf8 COLLATE utf8_unicode_ci;''"

definition CreateNewTable :: "'s mysql \<Rightarrow> nat \<Rightarrow> MysqlTable \<Rightarrow> 's \<Rightarrow> int \<times> 's" where
  "CreateNewTable M c t = my_exec M c (create_sql t)"

definition DropTable :: "'s mysql \<Rightarrow> nat \<Rightarrow> string \<Rightarrow> 's \<Rightarrow> int \<times> 's" where
  "DropTable M c name s = (0, snd (my_exec M c (''DROP TABLE '' @ name) s))"

definition CopyTable :: "'s mysql \<Rightarrow> nat \<Rightarrow> string \<Rightarrow> string \<Rightarrow> 's \<Rightarrow> int \<times> 's" where
  "CopyTable M c newname oldname s =
     (let s1 = snd (DropTable M c newname s)
      in case my_exec M c (''CREATE TABLE '' @ newname @ '' like '' @ oldname) s1 of
           (r, s2) \<Rightarrow> (if r \<noteq> 0 then -1 else 0, s2))"

text \<open>A \<^verbatim>\<open>std::map\<close> from strings, in its order; an assignment overwrites.\<close>

fun omap_put :: "string \<Rightarrow> 'v \<Rightarrow> (string \<times> 'v) list \<Rightarrow> (string \<times> 'v) list" where
  "omap_put k v [] = [(k, v)]"
| "omap_put k v ((k1, v1) # m) =
     (if k = k1 then (k, v) # m else if k < k1 then (k, v) # (k1, v1) # m else (k1, v1) # omap_put k v m)"

definition RenameTableColumn :: "'s mysql \<Rightarrow> nat \<Rightarrow> string \<Rightarrow> MysqlTable \<Rightarrow> 's \<Rightarrow> int \<times> 's" where
  "RenameTableColumn M c schema t s =
     (case GetTableFields M c schema (tb_name t) s of
        ((r, cols), s1) \<Rightarrow>
          if r \<noteq> 0 then (-1, s1)
          else
            let want = fold (\<lambda>f m. case fl_rename_from f of Some n \<Rightarrow> omap_put n f m | None \<Rightarrow> m) (tb_fields t) [];
                want2 = filter (\<lambda>(n, f). n \<in> set cols) want
            in sql_all (\<lambda>(n, f). my_exec M c (''ALTER TABLE '' @ tb_name t @ '' CHANGE '' @ n @ '' '' @ fl_name f
                 @ '' '' @ GetFieldTypeDesc f @ '';'')) want2 s1)"

definition ModifyTableColumn :: "'s mysql \<Rightarrow> nat \<Rightarrow> string \<Rightarrow> MysqlTable \<Rightarrow> 's \<Rightarrow> int \<times> 's" where
  "ModifyTableColumn M c schema t s =
     (case GetTableFields M c schema (tb_name t) s of
        ((r, cols), s1) \<Rightarrow>
          if r \<noteq> 0 then (-1, s1)
          else
            let want = fold (\<lambda>f m. if fl_modify_type f \<noteq> None then omap_put (fl_name f) f m else m) (tb_fields t) [];
                want2 = filter (\<lambda>(n, f). n \<in> set cols) want
            in sql_all (\<lambda>(n, f). my_exec M c (''ALTER TABLE '' @ tb_name t @ '' MODIFY '' @ n @ '' ''
                 @ GetFieldModifyTypeDesc f @ '';'')) want2 s1)"

definition drop_sql :: "string \<Rightarrow> string list \<Rightarrow> string" where
  "drop_sql tname ds =
     foldl (\<lambda>sql d. (if sql = [] then ''ALTER TABLE '' @ tname else sql @ '', '') @ '' DROP COLUMN '' @ d) [] ds"

definition DeleteTableColumn :: "'s mysql \<Rightarrow> nat \<Rightarrow> string \<Rightarrow> MysqlTable \<Rightarrow> 's \<Rightarrow> int \<times> 's" where
  "DeleteTableColumn M c schema t s =
     (case GetTableFields M c schema (tb_name t) s of
        ((r, cols), s1) \<Rightarrow>
          if r \<noteq> 0 then (-1, s1)
          else
            let want = filter (\<lambda>n. n \<in> set cols) (map fl_name (filter fl_is_delete (tb_fields t)));
                sql = drop_sql (tb_name t) want
            in if sql \<noteq> []
               then case my_exec M c (sql @ '';'') s1 of (r2, s2) \<Rightarrow> (if r2 = 0 then 0 else -1, s2)
               else (0, s1))"

text \<open>The columns of the table merged with the configured ones: the first loop and the two after it.\<close>

fun merge_fields :: "string list \<Rightarrow> string list \<Rightarrow> string list" where
  "merge_fields (x # xs) (y # ys) = y # (if y = x then merge_fields xs ys else merge_fields (x # xs) ys)"
| "merge_fields xs [] = xs"
| "merge_fields [] ys = ys"

definition add_sql :: "string \<Rightarrow> string \<Rightarrow> string \<Rightarrow> string option \<Rightarrow> string" where
  "add_sql tname field ty after =
     ''ALTER TABLE '' @ tname @ '' ADD COLUMN '' @ quoted field @ '' '' @ ty
     @ (case after of None \<Rightarrow> '' FIRST'' | Some g \<Rightarrow> '' AFTER '' @ quoted g) @ '';''"

text \<open>The loop over the merged columns; \<^term>\<open>prev\<close> is the one before.\<close>

fun add_columns :: "'s mysql \<Rightarrow> nat \<Rightarrow> string \<Rightarrow> (string \<Rightarrow> string) \<Rightarrow> string list \<Rightarrow> string option \<Rightarrow> string list \<Rightarrow> 's \<Rightarrow> int \<times> 's" where
  "add_columns M c tname ty old prev [] s = (0, s)"
| "add_columns M c tname ty old prev (f # fs) s =
     (if f \<in> set old then add_columns M c tname ty old (Some f) fs s
      else sql_then (my_exec M c (add_sql tname f (ty f) prev)) (add_columns M c tname ty old (Some f) fs) s)"

definition live_fields :: "MysqlTable \<Rightarrow> TableField list" where
  "live_fields t = filter (\<lambda>f. \<not> fl_is_delete f) (tb_fields t)"

text \<open>\<^verbatim>\<open>*insert_field_map[field]\<close>: the last field of a name.\<close>

definition field_of :: "MysqlTable \<Rightarrow> string \<Rightarrow> TableField" where
  "field_of t n = the (map_of (rev (map (\<lambda>f. (fl_name f, f)) (live_fields t))) n)"

text \<open>\<^verbatim>\<open>return false\<close> for columns out of order is the return value 0.\<close>

definition AddTableColumn :: "'s mysql \<Rightarrow> nat \<Rightarrow> string \<Rightarrow> MysqlTable \<Rightarrow> 's \<Rightarrow> int \<times> 's" where
  "AddTableColumn M c schema t s =
     (case GetTableFields M c schema (tb_name t) s of
        ((r, cols), s1) \<Rightarrow>
          if r \<noteq> 0 then (-1, s1)
          else if \<not> list_all (\<lambda>n. n \<in> set (map fl_name (live_fields t))) cols then (-1, s1)
          else
            let merged = merge_fields cols (map fl_name (live_fields t))
            in if \<not> distinct merged then (0, s1)
               else add_columns M c (tb_name t) (\<lambda>n. GetFieldTypeDesc (field_of t n)) cols None merged s1)"

subsection \<open>Keys\<close>

definition keys_sql :: "string \<Rightarrow> string \<Rightarrow> string" where
  "keys_sql schema tname = ''SELECT DISTINCT INDEX_NAME FROM information_schema.statistics where table_schema=''
     @ [CHR 0x27] @ schema @ [CHR 0x27] @ '' and table_name='' @ [CHR 0x27] @ tname @ [CHR 0x27, CHR '';'']"

definition GetTableKeys :: "'s mysql \<Rightarrow> nat \<Rightarrow> string \<Rightarrow> string \<Rightarrow> 's \<Rightarrow> (int \<times> string list) \<times> 's" where
  "GetTableKeys M c schema tname s =
     (case my_query M c (keys_sql schema tname) s of ((r, rows), s1) \<Rightarrow> ((r, sort (remdups rows)), s1))"

definition ChangeKey :: "'s mysql \<Rightarrow> nat \<Rightarrow> string \<Rightarrow> MysqlTable \<Rightarrow> 's \<Rightarrow> int \<times> 's" where
  "ChangeKey M c schema t s =
     (case GetTableKeys M c schema (tb_name t) s of
        ((r, ks), s1) \<Rightarrow>
          if r \<noteq> 0 then (-1, s1)
          else
            sql_then
              (sql_all (\<lambda>k. my_exec M c (''ALTER TABLE '' @ tb_name t @ '' ADD '' @ GetFieldKeyDesc k))
                 (filter (\<lambda>k. ky_name k \<notin> set ks) (tb_keys t)))
              (sql_all (\<lambda>n. my_exec M c (''ALTER TABLE '' @ tb_name t
                   @ (if n = ''PRIMARY'' then '' DROP PRIMARY KEY'' else '' DROP INDEX '' @ n)))
                 (filter (\<lambda>n. n \<notin> set (map ky_name (tb_keys t))) ks)) s1)"

subsection \<open>The whole configuration\<close>

definition ChangeTable :: "'s mysql \<Rightarrow> nat \<Rightarrow> string \<Rightarrow> MysqlTable \<Rightarrow> 's \<Rightarrow> int \<times> 's" where
  "ChangeTable M c schema t =
     sql_then (DeleteTableColumn M c schema t)
       (sql_then (RenameTableColumn M c schema t)
         (sql_then (ModifyTableColumn M c schema t)
           (sql_then (AddTableColumn M c schema t)
             (sql_then (ChangeKey M c schema t) (\<lambda>s. (0, s))))))"

text \<open>\<^verbatim>\<open>CreateTable\<close>: a table that exists is changed in a copy first.\<close>

definition CreateTable :: "'s mysql \<Rightarrow> nat \<Rightarrow> string \<Rightarrow> MysqlTable \<Rightarrow> 's \<Rightarrow> int \<times> 's" where
  "CreateTable M c schema t s =
     (case GetTableFields M c schema (tb_name t) s of
        ((r, old), s1) \<Rightarrow>
          if r \<noteq> 0 then (-1, s1)
          else if old = [] then sql_then (CreateNewTable M c t) (\<lambda>s2. (0, s2)) s1
          else
            let tmp = tb_name t @ ''_tmp''
            in sql_then (CopyTable M c tmp (tb_name t))
                 (\<lambda>s2. case ChangeTable M c schema (t\<lparr>tb_name := tmp\<rparr>) s2 of
                    (r3, s3) \<Rightarrow>
                      let s4 = snd (DropTable M c tmp s3)
                      in if r3 \<noteq> 0 then (-1, s4) else sql_then (ChangeTable M c schema t) (\<lambda>s5. (0, s5)) s4) s1)"

definition CreateSchema :: "'s mysql \<Rightarrow> nat \<Rightarrow> MysqlSchema \<Rightarrow> 's \<Rightarrow> int \<times> 's" where
  "CreateSchema M c sc = my_exec M c (''CREATE DATABASE IF NOT EXISTS '' @ sc_name sc
     @ '' CHARACTER SET utf8 COLLATE utf8_unicode_ci;'')"

definition execute_schema :: "'s mysql \<Rightarrow> MysqlSchema \<Rightarrow> 's \<Rightarrow> int \<times> 's" where
  "execute_schema M sc s =
     (case my_connect M (sc_ip sc) (sc_user sc) (sc_passwd sc) (sc_port sc) s of
        (None, s1) \<Rightarrow> (-1, s1)
      | (Some c, s1) \<Rightarrow>
          sql_then (CreateSchema M c sc)
            (\<lambda>s2. case my_use M c (sc_name sc) s2 of
               (ok, s3) \<Rightarrow> if \<not> ok then (-1, s3) else sql_all (CreateTable M c (sc_name sc)) (sc_tables sc) s3) s1)"

definition Execute :: "'s mysql \<Rightarrow> MysqlSchema list \<Rightarrow> 's \<Rightarrow> int \<times> 's" where
  "Execute M cfg = sql_all (execute_schema M) cfg"

subsection \<open>\<^verbatim>\<open>CheckMysqlSyntax\<close>\<close>

text \<open>A field, with the names of the fields before it.  An enumeration is always within its range.\<close>

definition check_field :: "string list \<Rightarrow> TableField \<Rightarrow> bool" where
  "check_field before f \<longleftrightarrow>
     fl_name f \<notin> set before
     \<and> \<not> (fl_rename_from f \<noteq> None \<and> fl_modify_type f \<noteq> None)
     \<and> fl_rename_from f \<noteq> Some (fl_name f)
     \<and> fl_type f \<noteq> None
     \<and> (fl_auto_incr f \<noteq> None \<longrightarrow> field_type (fl_type f) \<in> {E_FieldType_TinyInt, E_FieldType_Int, E_FieldType_UInt,
          E_FieldType_BigInt, E_FieldType_Double})"

fun check_fields :: "string list \<Rightarrow> TableField list \<Rightarrow> bool" where
  "check_fields before [] = True"
| "check_fields before (f # fs) = (check_field before f \<and> check_fields (fl_name f # before) fs)"

text \<open>The keys, with the names and the number of primary keys before; a primary key gets the name the database gives it.\<close>

fun check_keys :: "string set \<Rightarrow> string list \<Rightarrow> nat \<Rightarrow> TableKey list \<Rightarrow> TableKey list option" where
  "check_keys names before n [] = Some []"
| "check_keys names before n (k # ks) =
     (if ky_name k \<in> set before \<or> ky_type k = None then None
      else
        let primary = ky_type k = Some E_KeyType_Primary;
            k1 = (if primary then k\<lparr>ky_name := ''PRIMARY''\<rparr> else k);
            n1 = (if primary then n + 1 else n)
        in if n1 > 1 \<or> ky_fields k = [] \<or> \<not> set (ky_fields k) \<subseteq> names \<or> \<not> distinct (ky_fields k) then None
           else map_option (Cons k1) (check_keys names (ky_name k # before) n1 ks))"

definition check_table :: "MysqlTable \<Rightarrow> MysqlTable option" where
  "check_table t =
     (if \<not> check_fields [] (tb_fields t) then None
      else case check_keys (set (map fl_name (tb_fields t))) [] 0 (tb_keys t) of
             None \<Rightarrow> None
           | Some ks \<Rightarrow>
               if list_all (\<lambda>f. fl_auto_incr f \<noteq> None \<longrightarrow> (\<exists>k \<in> set ks. fl_name f \<in> set (ky_fields k))) (tb_fields t)
               then Some (t\<lparr>tb_keys := ks\<rparr>) else None)"

definition CheckMysqlSyntax :: "MysqlSchema list \<Rightarrow> MysqlSchema list option" where
  "CheckMysqlSyntax cfg =
     those (map (\<lambda>sc. map_option (\<lambda>ts. sc\<lparr>sc_tables := ts\<rparr>) (those (map check_table (sc_tables sc)))) cfg)"

text \<open>\<^verbatim>\<open>main\<close>: whether it reports success.  \<^term>\<open>parse\<close> reads a file.\<close>

definition dbtool_main :: "(string \<Rightarrow> MysqlSchema list option) \<Rightarrow> 's mysql \<Rightarrow> string list \<Rightarrow> 's \<Rightarrow> bool \<times> 's" where
  "dbtool_main parse M files s =
     (if files = [] then (False, s)
      else case those (map parse files) of
             None \<Rightarrow> (False, s)
           | Some cfgs \<Rightarrow>
               (case those (map CheckMysqlSyntax cfgs) of
                  None \<Rightarrow> (False, s)
                | Some cfgs2 \<Rightarrow> (case sql_all (Execute M) cfgs2 s of (r, s1) \<Rightarrow> (r = 0, s1))))"

end
