(* ===== verification/Db_Props.thy ===== *)
theory Db_Props
  imports Db_Tool
begin

text \<open>
  What \<^verbatim>\<open>dbtool\<close> does to a database.  The database is seen through \<^term>\<open>view\<close>: the columns and the keys of each
  table.  A server that does what the manual of MySQL says is a hypothesis on the connection; the
  statements it is about are those the program sends.
\<close>

subsection \<open>Merging columns\<close>

lemma merge_Nil [simp]: "merge_fields [] ys = ys" "merge_fields xs [] = xs"
  by (cases ys; simp) (cases xs; simp)

lemma merge_subseq: "subseq xs ys \<Longrightarrow> distinct ys \<Longrightarrow> merge_fields xs ys = ys"
proof (induction xs ys rule: merge_fields.induct)
  case (1 x xs y ys)
  then show ?case by (auto simp: subseq_Cons2_iff split: if_splits)
qed simp_all

lemma set_merge: "set (merge_fields xs ys) = set xs \<union> set ys"
  by (induction xs ys rule: merge_fields.induct) auto

lemma merge_distinct: "distinct (merge_fields xs ys) \<Longrightarrow> set xs \<subseteq> set ys \<Longrightarrow> subseq xs ys"
proof (induction xs ys rule: merge_fields.induct)
  case (1 x xs y ys)
  show ?case
  proof (cases "y = x")
    case True
    then have d: "distinct (merge_fields xs ys)" "x \<notin> set xs" using "1.prems"(1) by (auto simp: set_merge)
    then have "set xs \<subseteq> set ys" using "1.prems"(2) True by auto
    then show ?thesis using "1.IH"(1) True d by simp
  next
    case False
    then have d: "distinct (merge_fields (x # xs) ys)" "y \<notin> set (x # xs)" using "1.prems"(1) by (auto simp: set_merge)
    then have "set (x # xs) \<subseteq> set ys" using "1.prems"(2) by auto
    then show ?thesis using "1.IH"(2) False d by (simp add: subseq_Cons2_neq)
  qed
qed simp_all

lemma merge_iff:
  "distinct ys \<Longrightarrow> set xs \<subseteq> set ys \<Longrightarrow> distinct (merge_fields xs ys) \<longleftrightarrow> subseq xs ys"
  using merge_distinct merge_subseq by metis

subsection \<open>Statements\<close>

definition ident :: "string \<Rightarrow> bool" where
  "ident n \<longleftrightarrow> n \<noteq> [] \<and> (\<forall>c \<in> set n. let k = of_char c :: nat in (48 \<le> k \<and> k \<le> 57) \<or> (65 \<le> k \<and> k \<le> 90) \<or> k = 95 \<or> (97 \<le> k \<and> k \<le> 122))"

datatype ddl =
    CopyLike string string
  | DropTab string
  | AddCol string string string "string option"
  | DropCols string "string list"
  | ChangeCol string string string string
  | ModifyCol string string string
  | AddKey string TableKey
  | DropKey string string

fun ddl_text :: "ddl \<Rightarrow> string" where
  "ddl_text (CopyLike n old) = ''CREATE TABLE '' @ n @ '' like '' @ old"
| "ddl_text (DropTab n) = ''DROP TABLE '' @ n"
| "ddl_text (AddCol t f ty pos) = add_sql t f ty pos"
| "ddl_text (DropCols t ds) = drop_sql t ds @ '';''"
| "ddl_text (ChangeCol t n f ty) = ''ALTER TABLE '' @ t @ '' CHANGE '' @ n @ '' '' @ f @ '' '' @ ty @ '';''"
| "ddl_text (ModifyCol t n ty) = ''ALTER TABLE '' @ t @ '' MODIFY '' @ n @ '' '' @ ty @ '';''"
| "ddl_text (AddKey t k) = ''ALTER TABLE '' @ t @ '' ADD '' @ GetFieldKeyDesc k"
| "ddl_text (DropKey t n) = ''ALTER TABLE '' @ t @ (if n = ''PRIMARY'' then '' DROP PRIMARY KEY'' else '' DROP INDEX '' @ n)"

fun ddl_table :: "ddl \<Rightarrow> string" where
  "ddl_table (CopyLike n old) = n"
| "ddl_table (DropTab n) = n"
| "ddl_table (AddCol t f ty pos) = t"
| "ddl_table (DropCols t ds) = t"
| "ddl_table (ChangeCol t n f ty) = t"
| "ddl_table (ModifyCol t n ty) = t"
| "ddl_table (AddKey t k) = t"
| "ddl_table (DropKey t n) = t"

fun ddl_idents :: "ddl \<Rightarrow> bool" where
  "ddl_idents (CopyLike n old) = (ident n \<and> ident old)"
| "ddl_idents (DropTab n) = ident n"
| "ddl_idents (AddCol t f ty pos) = (ident t \<and> ident f \<and> pred_option ident pos)"
| "ddl_idents (DropCols t ds) = (ident t \<and> list_all ident ds \<and> ds \<noteq> [])"
| "ddl_idents (ChangeCol t n f ty) = (ident t \<and> ident n \<and> ident f)"
| "ddl_idents (ModifyCol t n ty) = (ident t \<and> ident n)"
| "ddl_idents (AddKey t k) = (ident t \<and> ident (ky_name k) \<and> list_all ident (ky_fields k)
     \<and> (key_type (ky_type k) = E_KeyType_Primary \<longrightarrow> ky_name k = ''PRIMARY''))"
| "ddl_idents (DropKey t n) = (ident t \<and> ident n)"

text \<open>A table, and what the statements do to it.  A key loses the columns that are dropped, and goes with its last one.\<close>

record vtable =
  vt_cols :: "string list"
  vt_keys :: "(string \<times> string list) list"

type_synonym view = "string \<Rightarrow> vtable option"

definition drop_cols :: "string list \<Rightarrow> vtable \<Rightarrow> vtable" where
  "drop_cols ds v = \<lparr>vt_cols = filter (\<lambda>x. x \<notin> set ds) (vt_cols v),
     vt_keys = filter (\<lambda>(n, fs). fs \<noteq> []) (map (\<lambda>(n, fs). (n, filter (\<lambda>x. x \<notin> set ds) fs)) (vt_keys v))\<rparr>"

fun insert_after :: "'a \<Rightarrow> 'a \<Rightarrow> 'a list \<Rightarrow> 'a list" where
  "insert_after f g [] = []"
| "insert_after f g (x # xs) = (if x = g then x # f # xs else x # insert_after f g xs)"

fun ddl_valid :: "ddl \<Rightarrow> view \<Rightarrow> bool" where
  "ddl_valid (CopyLike n old) V = (V n = None \<and> V old \<noteq> None)"
| "ddl_valid (AddCol t f ty pos) V =
     (case V t of None \<Rightarrow> False | Some v \<Rightarrow> f \<notin> set (vt_cols v) \<and> pred_option (\<lambda>g. g \<in> set (vt_cols v)) pos)"
| "ddl_valid (DropCols t ds) V =
     (case V t of None \<Rightarrow> False | Some v \<Rightarrow> distinct ds \<and> set ds \<subset> set (vt_cols v))"
| "ddl_valid (AddKey t k) V =
     (case V t of None \<Rightarrow> False | Some v \<Rightarrow> ky_name k \<notin> fst ` set (vt_keys v) \<and> ky_fields k \<noteq> [] \<and> distinct (ky_fields k)
        \<and> set (ky_fields k) \<subseteq> set (vt_cols v))"
| "ddl_valid (DropKey t n) V = (case V t of None \<Rightarrow> False | Some v \<Rightarrow> n \<in> fst ` set (vt_keys v))"
| "ddl_valid _ V = False"

definition upd_table :: "string \<Rightarrow> (vtable \<Rightarrow> vtable) \<Rightarrow> view \<Rightarrow> view" where
  "upd_table t f V = V(t := map_option f (V t))"

fun ddl_effect :: "ddl \<Rightarrow> view \<Rightarrow> view" where
  "ddl_effect (CopyLike n old) V = V(n := V old)"
| "ddl_effect (DropTab n) V = V(n := None)"
| "ddl_effect (AddCol t f ty pos) V =
     upd_table t (\<lambda>v. v\<lparr>vt_cols := (case pos of None \<Rightarrow> f # vt_cols v | Some g \<Rightarrow> insert_after f g (vt_cols v))\<rparr>) V"
| "ddl_effect (DropCols t ds) V = upd_table t (drop_cols ds) V"
| "ddl_effect (AddKey t k) V = upd_table t (\<lambda>v. v\<lparr>vt_keys := vt_keys v @ [(ky_name k, ky_fields k)]\<rparr>) V"
| "ddl_effect (DropKey t n) V = upd_table t (\<lambda>v. v\<lparr>vt_keys := filter (\<lambda>(m, fs). m \<noteq> n) (vt_keys v)\<rparr>) V"
| "ddl_effect _ V = V"

text \<open>A server whose statements touch their table only, and whose queries touch nothing.\<close>

definition mysql_local :: "'s mysql \<Rightarrow> nat \<Rightarrow> ('s \<Rightarrow> view) \<Rightarrow> bool" where
  "mysql_local M c view \<longleftrightarrow>
     (\<forall>d s x. ddl_idents d \<longrightarrow> x \<noteq> ddl_table d \<longrightarrow> view (snd (my_exec M c (ddl_text d) s)) x = view s x)
     \<and> (\<forall>schema t s. ident t \<longrightarrow> view (snd (my_query M c (columns_sql schema t) s)) = view s
          \<and> view (snd (my_query M c (keys_sql schema t) s)) = view s
          \<and> list_all ident (snd (fst (my_query M c (keys_sql schema t) s))))"

text \<open>A server that carries out every valid statement, and lists the columns in their order.\<close>

definition mysql_accepts :: "'s mysql \<Rightarrow> nat \<Rightarrow> string \<Rightarrow> ('s \<Rightarrow> view) \<Rightarrow> bool" where
  "mysql_accepts M c schema view \<longleftrightarrow>
     (\<forall>d s. ddl_idents d \<longrightarrow> ddl_valid d (view s) \<longrightarrow>
        (\<exists>s1. my_exec M c (ddl_text d) s = (0, s1) \<and> view s1 = ddl_effect d (view s)))
     \<and> (\<forall>t s. ident t \<longrightarrow> view (snd (my_exec M c (ddl_text (DropTab t)) s)) = (view s)(t := None))
     \<and> (\<forall>t s. ident t \<longrightarrow>
          my_query M c (columns_sql schema t) s = ((0, case view s t of None \<Rightarrow> [] | Some v \<Rightarrow> vt_cols v), s)
          \<and> (list_all (\<lambda>(n, fs). ident n) (case view s t of None \<Rightarrow> [] | Some v \<Rightarrow> vt_keys v) \<longrightarrow>
               my_query M c (keys_sql schema t) s = ((0, case view s t of None \<Rightarrow> [] | Some v \<Rightarrow> map fst (vt_keys v)), s)))"

subsection \<open>One table at a time\<close>

definition table_idents :: "MysqlTable \<Rightarrow> bool" where
  "table_idents t \<longleftrightarrow> ident (tb_name t)
     \<and> (\<forall>f \<in> set (tb_fields t). ident (fl_name f) \<and> (\<forall>n. fl_rename_from f = Some n \<longrightarrow> ident n))
     \<and> (\<forall>k \<in> set (tb_keys t). ident (ky_name k) \<and> list_all ident (ky_fields k)
          \<and> (key_type (ky_type k) = E_KeyType_Primary \<longrightarrow> ky_name k = ''PRIMARY''))"

definition leaves :: "('s \<Rightarrow> view) \<Rightarrow> string \<Rightarrow> ('s \<Rightarrow> 'r \<times> 's) \<Rightarrow> bool" where
  "leaves view x f \<longleftrightarrow> (\<forall>s. view (snd (f s)) x = view s x)"

lemma leavesD: "leaves view x f \<Longrightarrow> view (snd (f s)) x = view s x"
  by (simp add: leaves_def)

lemma leaves_then: "leaves view x f \<Longrightarrow> leaves view x g \<Longrightarrow> leaves view x (sql_then f g)"
  using leavesD [of view x f] leavesD [of view x g] unfolding leaves_def sql_then_def
  by (auto split: prod.splits) (metis snd_conv)+

lemma leaves_return [simp]: "leaves view x (\<lambda>s. (r, s))"
  by (simp add: leaves_def)

lemma leaves_all: "(\<And>y. y \<in> set ys \<Longrightarrow> leaves view x (f y)) \<Longrightarrow> leaves view x (sql_all f ys)"
proof (induction ys)
  case (Cons y ys)
  have "sql_all f (y # ys) = sql_then (f y) (sql_all f ys)" by (rule ext) simp
  then show ?case using Cons by (simp add: leaves_then)
qed (simp add: leaves_def)

lemma drop_sql_tail:
  "sql \<noteq> [] \<Longrightarrow> foldl (\<lambda>sql d. (if sql = [] then ''ALTER TABLE '' @ t else sql @ '', '') @ '' DROP COLUMN '' @ d) sql ds
     = sql @ concat (map (\<lambda>d. '',  DROP COLUMN '' @ d) ds)"
  by (induction ds arbitrary: sql) simp_all

lemma drop_sql_Cons:
  "drop_sql t (d # ds) = ''ALTER TABLE '' @ t @ '' DROP COLUMN '' @ d @ concat (map (\<lambda>d. '',  DROP COLUMN '' @ d) ds)"
  using drop_sql_tail [of "''ALTER TABLE '' @ t @ '' DROP COLUMN '' @ d" t ds] by (simp add: drop_sql_def)

lemma drop_sql_empty: "drop_sql t ds = [] \<longleftrightarrow> ds = []"
  by (cases ds) (simp add: drop_sql_def, simp add: drop_sql_Cons)

lemma exec_leaves:
  "mysql_local M c view \<Longrightarrow> ddl_idents d \<Longrightarrow> x \<noteq> ddl_table d \<Longrightarrow> ddl_text d = q \<Longrightarrow> leaves view x (my_exec M c q)"
  unfolding mysql_local_def leaves_def by blast

lemma query_leaves:
  "mysql_local M c view \<Longrightarrow> ident t \<Longrightarrow> GetTableFields M c schema t s = (r, s1) \<Longrightarrow> view s1 = view s"
  unfolding mysql_local_def GetTableFields_def by (metis snd_conv)

lemma delete_leaves:
  assumes "mysql_local M c view" "table_idents t" "x \<noteq> tb_name t"
  shows "leaves view x (DeleteTableColumn M c schema t)"
  unfolding leaves_def
proof
  fix s
  obtain r cols s1 where q: "GetTableFields M c schema (tb_name t) s = ((r, cols), s1)" by (metis prod.exhaust)
  have v: "view s1 = view s" using query_leaves [OF assms(1) _ q] assms(2) by (simp add: table_idents_def)
  define want where "want = filter (\<lambda>n. n \<in> set cols) (map fl_name (filter fl_is_delete (tb_fields t)))"
  have e: "view (snd (my_exec M c (drop_sql (tb_name t) want @ '';'') s1)) x = view s x" if "want \<noteq> []"
  proof -
    have "ddl_idents (DropCols (tb_name t) want)"
      using assms(2) that by (auto simp: table_idents_def want_def list_all_iff)
    from leavesD [OF exec_leaves [OF assms(1) this _ refl]] show ?thesis using assms(3) v by simp
  qed
  show "view (snd (DeleteTableColumn M c schema t s)) x = view s x"
    using q v e by (auto simp: DeleteTableColumn_def want_def [symmetric] Let_def drop_sql_empty split: prod.splits)
qed

lemma set_omap_put: "fst ` set (omap_put k v m) = insert k (fst ` set m)"
  by (induction k v m rule: omap_put.induct) auto

lemma set_omap_put_sub: "set (omap_put k v m) \<subseteq> insert (k, v) (set m)"
  by (induction k v m rule: omap_put.induct) auto

text \<open>What the map of wishes of \<^verbatim>\<open>RenameTableColumn\<close> and \<^verbatim>\<open>ModifyTableColumn\<close> holds.\<close>

lemma wishes:
  "(n, f) \<in> set (fold (\<lambda>f m. case key f of Some n \<Rightarrow> omap_put n f m | None \<Rightarrow> m) fs m)
     \<Longrightarrow> (n, f) \<in> set m \<or> f \<in> set fs \<and> key f = Some n"
proof (induction fs arbitrary: m)
  case (Cons g gs)
  show ?case
    using Cons.IH [OF Cons.prems [unfolded fold_Cons comp_apply]] set_omap_put_sub [of _ g m]
    by (auto split: option.splits)
qed simp

lemma rename_leaves:
  assumes "mysql_local M c view" "table_idents t" "x \<noteq> tb_name t"
  shows "leaves view x (RenameTableColumn M c schema t)"
  unfolding leaves_def
proof
  fix s
  obtain r cols s1 where q: "GetTableFields M c schema (tb_name t) s = ((r, cols), s1)" by (metis prod.exhaust)
  have v: "view s1 = view s" using query_leaves [OF assms(1) _ q] assms(2) by (simp add: table_idents_def)
  let ?want = "fold (\<lambda>f m. case fl_rename_from f of Some n \<Rightarrow> omap_put n f m | None \<Rightarrow> m) (tb_fields t) []"
  have "leaves view x (sql_all (\<lambda>(n, f). my_exec M c (''ALTER TABLE '' @ tb_name t @ '' CHANGE '' @ n @ '' '' @ fl_name f
      @ '' '' @ GetFieldTypeDesc f @ '';'')) (filter (\<lambda>(n, f). n \<in> set cols) ?want))"
  proof (rule leaves_all)
    fix y assume "y \<in> set (filter (\<lambda>(n, f). n \<in> set cols) ?want)"
    then have "y \<in> set ?want" by simp
    moreover obtain n f where y1: "y = (n, f)" by (rule prod.exhaust)
    ultimately have y: "y = (n, f)" "(n, f) \<in> set ?want" by simp_all
    have "f \<in> set (tb_fields t) \<and> fl_rename_from f = Some n" using wishes [OF y(2)] by simp
    then have "ddl_idents (ChangeCol (tb_name t) n (fl_name f) (GetFieldTypeDesc f))"
      using assms(2) by (auto simp: table_idents_def)
    from exec_leaves [OF assms(1) this _ refl] show "leaves view x (case y of (n, f) \<Rightarrow> my_exec M c (''ALTER TABLE ''
        @ tb_name t @ '' CHANGE '' @ n @ '' '' @ fl_name f @ '' '' @ GetFieldTypeDesc f @ '';''))"
      using assms(3) y by simp
  qed
  from leavesD [OF this] show "view (snd (RenameTableColumn M c schema t s)) x = view s x"
    using q v by (simp add: RenameTableColumn_def Let_def)
qed

lemma modify_wish: "(if fl_modify_type f \<noteq> None then omap_put (fl_name f) f m else m)
    = (case map_option (\<lambda>_. fl_name f) (fl_modify_type f) of Some n \<Rightarrow> omap_put n f m | None \<Rightarrow> m)"
  by (simp split: option.split)

lemma modify_leaves:
  assumes "mysql_local M c view" "table_idents t" "x \<noteq> tb_name t"
  shows "leaves view x (ModifyTableColumn M c schema t)"
  unfolding leaves_def
proof
  fix s
  obtain r cols s1 where q: "GetTableFields M c schema (tb_name t) s = ((r, cols), s1)" by (metis prod.exhaust)
  have v: "view s1 = view s" using query_leaves [OF assms(1) _ q] assms(2) by (simp add: table_idents_def)
  let ?want = "fold (\<lambda>f m. if fl_modify_type f \<noteq> None then omap_put (fl_name f) f m else m) (tb_fields t) []"
  have "leaves view x (sql_all (\<lambda>(n, f). my_exec M c (''ALTER TABLE '' @ tb_name t @ '' MODIFY '' @ n @ '' ''
      @ GetFieldModifyTypeDesc f @ '';'')) (filter (\<lambda>(n, f). n \<in> set cols) ?want))"
  proof (rule leaves_all)
    fix y assume "y \<in> set (filter (\<lambda>(n, f). n \<in> set cols) ?want)"
    then have "y \<in> set ?want" by simp
    moreover obtain n f where y1: "y = (n, f)" by (rule prod.exhaust)
    ultimately have y: "y = (n, f)" "(n, f) \<in> set ?want" by simp_all
    have "f \<in> set (tb_fields t) \<and> fl_name f = n" using wishes [OF y(2) [unfolded modify_wish]] by auto
    then have "ddl_idents (ModifyCol (tb_name t) n (GetFieldModifyTypeDesc f))"
      using assms(2) by (auto simp: table_idents_def)
    from exec_leaves [OF assms(1) this _ refl] show "leaves view x (case y of (n, f) \<Rightarrow> my_exec M c (''ALTER TABLE ''
        @ tb_name t @ '' MODIFY '' @ n @ '' '' @ GetFieldModifyTypeDesc f @ '';''))"
      using assms(3) y by simp
  qed
  from leavesD [OF this] show "view (snd (ModifyTableColumn M c schema t s)) x = view s x"
    using q v by (simp add: ModifyTableColumn_def Let_def)
qed

lemma add_leaves:
  assumes "mysql_local M c view" "table_idents t" "x \<noteq> tb_name t"
  shows "leaves view x (AddTableColumn M c schema t)"
  unfolding leaves_def
proof
  fix s
  obtain r cols s1 where q: "GetTableFields M c schema (tb_name t) s = ((r, cols), s1)" by (metis prod.exhaust)
  have v: "view s1 = view s" using query_leaves [OF assms(1) _ q] assms(2) by (simp add: table_idents_def)
  have n: "ident n" if "n \<in> set (map fl_name (live_fields t))" for n
    using that assms(2) by (auto simp: table_idents_def live_fields_def)
  have e: "view (snd (add_columns M c (tb_name t) ty old prev fs s)) x = view s x"
    if "\<forall>f \<in> set fs. ident f" "\<forall>g. prev = Some g \<longrightarrow> ident g" for ty old prev fs s
    using that
  proof (induction fs arbitrary: prev s)
    case (Cons f fs)
    have h: "leaves view x (my_exec M c (add_sql (tb_name t) f (ty f) prev))"
      by (rule exec_leaves [OF assms(1), of "AddCol (tb_name t) f (ty f) prev"])
        (use assms(2,3) Cons.prems in \<open>simp_all add: table_idents_def pred_option_def\<close>)
    have i: "leaves view x (add_columns M c (tb_name t) ty old (Some f) fs)"
      unfolding leaves_def using Cons by simp
    show ?case using leavesD [OF leaves_then [OF h i]] leavesD [OF i] by simp
  qed simp
  have m: "\<forall>f \<in> set (merge_fields cols (map fl_name (live_fields t))). ident f"
    if "list_all (\<lambda>n. n \<in> set (map fl_name (live_fields t))) cols"
    using that n by (auto simp: set_merge list_all_iff)
  show "view (snd (AddTableColumn M c schema t s)) x = view s x"
    using q v e [OF m] by (simp add: AddTableColumn_def Let_def)
qed

lemma keys_leaves:
  assumes "mysql_local M c view" "table_idents t" "x \<noteq> tb_name t"
  shows "leaves view x (ChangeKey M c schema t)"
  unfolding leaves_def
proof
  fix s
  obtain r rows s1 where q: "my_query M c (keys_sql schema (tb_name t)) s = ((r, rows), s1)" by (metis prod.exhaust)
  have i: "ident (tb_name t)" using assms(2) by (simp add: table_idents_def)
  have v: "view s1 = view s" "list_all ident rows"
    using assms(1) i q unfolding mysql_local_def by (metis snd_conv, metis fst_conv snd_conv)
  let ?ks = "sort (remdups rows)"
  have a: "leaves view x (sql_all (\<lambda>k. my_exec M c (''ALTER TABLE '' @ tb_name t @ '' ADD '' @ GetFieldKeyDesc k))
      (filter (\<lambda>k. ky_name k \<notin> set ?ks) (tb_keys t)))"
    by (rule leaves_all, rule exec_leaves [OF assms(1), of "AddKey (tb_name t) _"])
      (use assms(2,3) in \<open>auto simp: table_idents_def\<close>)
  have d: "leaves view x (sql_all (\<lambda>n. my_exec M c (''ALTER TABLE '' @ tb_name t
        @ (if n = ''PRIMARY'' then '' DROP PRIMARY KEY'' else '' DROP INDEX '' @ n)))
      (filter (\<lambda>n. n \<notin> set (map ky_name (tb_keys t))) ?ks))"
    by (rule leaves_all, rule exec_leaves [OF assms(1), of "DropKey (tb_name t) _"])
      (use i assms(3) v(2) in \<open>auto simp: list_all_iff\<close>)
  show "view (snd (ChangeKey M c schema t s)) x = view s x"
    using q v(1) leavesD [OF leaves_then [OF a d], of s1] by (simp add: ChangeKey_def GetTableKeys_def)
qed

lemma change_leaves:
  assumes "mysql_local M c view" "table_idents t" "x \<noteq> tb_name t"
  shows "leaves view x (ChangeTable M c schema t)"
  unfolding ChangeTable_def
  by (intro leaves_then leaves_return delete_leaves rename_leaves modify_leaves add_leaves keys_leaves assms)

lemma drop_leaves:
  assumes "mysql_local M c view" "ident n" "x \<noteq> n"
  shows "leaves view x (DropTable M c n)"
  using leavesD [OF exec_leaves [OF assms(1), of "DropTab n" x]] assms(2,3) by (simp add: DropTable_def leaves_def)

lemma copy_leaves:
  assumes "mysql_local M c view" "ident n" "ident old" "x \<noteq> n"
  shows "leaves view x (CopyTable M c n old)"
  using leavesD [OF drop_leaves [OF assms(1,2,4)]] leavesD [OF exec_leaves [OF assms(1), of "CopyLike n old" x]] assms(2-4)
  by (auto simp: CopyTable_def leaves_def Let_def split: prod.splits) (metis snd_conv)+

end
