(* ===== verification/Db_Server.thy ===== *)
theory Db_Server
  imports Db_Props
begin

text \<open>
  A server for the statements of \<^verbatim>\<open>dbtool\<close>: it reads a statement back from its text and carries it out on a view.
  It meets what the theorems assume of MySQL.
\<close>

fun cut_at :: "char \<Rightarrow> string \<Rightarrow> string list" where
  "cut_at c [] = [[]]"
| "cut_at c (x # xs) = (if x = c then [] # cut_at c xs else (case cut_at c xs of [] \<Rightarrow> [] | w # ws \<Rightarrow> (x # w) # ws))"

lemma cut_at_Nil [simp]: "cut_at c xs \<noteq> []"
  by (induction xs) (auto split: list.split)

lemma cut_at_append: "cut_at c (xs @ c # ys) = cut_at c xs @ cut_at c ys"
  by (induction xs) (auto split: list.split)

lemma cut_at_word: "c \<notin> set w \<Longrightarrow> cut_at c w = [w]"
  by (induction w) auto

lemma cut_at_first: "c \<notin> set w \<Longrightarrow> cut_at c (w @ c # ys) = w # cut_at c ys"
  by (simp add: cut_at_append cut_at_word)

lemma ident_chars: "ident n \<Longrightarrow> CHR '' '' \<notin> set n \<and> CHR 0x60 \<notin> set n \<and> CHR 0x27 \<notin> set n \<and> n \<noteq> []"
  by (auto simp: ident_def Let_def)

definition unquote :: "string \<Rightarrow> string" where "unquote w = butlast (tl w)"

fun drop_names :: "string list \<Rightarrow> string list" where
  "drop_names (a # b # x # xs) = butlast x # drop_names (tl xs)"
| "drop_names _ = []"

fun odds :: "'a list \<Rightarrow> 'a list" where
  "odds (a # b # xs) = b # odds xs"
| "odds _ = []"

definition parse_ddl :: "string \<Rightarrow> ddl" where
  "parse_ddl q =
     (let w = cut_at (CHR '' '') q
      in if w ! 0 = ''CREATE'' then CopyLike (w ! 2) (w ! 4)
         else if w ! 0 = ''DROP'' then DropTab (w ! 2)
         else if w ! 3 = ''ADD'' \<and> w ! 4 = ''COLUMN'' then
           AddCol (w ! 2) (unquote (w ! 5)) [] (if last w = ''FIRST;'' then None else Some (unquote (butlast (last w))))
         else if w ! 3 = ''ADD'' then
           let ns = odds (cut_at (CHR 0x60) q)
           in AddKey (w ! 2) (if w ! 4 = ''PRIMARY'' then \<lparr>ky_name = ''PRIMARY'', ky_type = Some E_KeyType_Normal, ky_fields = ns\<rparr>
                else \<lparr>ky_name = hd ns, ky_type = Some E_KeyType_Normal, ky_fields = tl ns\<rparr>)
         else if w ! 3 = ''DROP'' \<and> w ! 4 = ''COLUMN'' then DropCols (w ! 2) (drop_names (drop 3 w))
         else if w ! 3 = ''DROP'' then DropKey (w ! 2) (if w ! 4 = ''PRIMARY'' then ''PRIMARY'' else w ! 5)
         else ModifyCol (w ! 2) [] [])"

fun plain_ddl :: "ddl \<Rightarrow> ddl" where
  "plain_ddl (AddCol t f ty pos) = AddCol t f [] pos"
| "plain_ddl (AddKey t k) = AddKey t \<lparr>ky_name = ky_name k, ky_type = Some E_KeyType_Normal, ky_fields = ky_fields k\<rparr>"
| "plain_ddl (ChangeCol t n f ty) = ModifyCol t [] []"
| "plain_ddl (ModifyCol t n ty) = ModifyCol t [] []"
| "plain_ddl d = d"

lemma plain_same: "ddl_valid (plain_ddl d) V = ddl_valid d V" "ddl_effect (plain_ddl d) V = ddl_effect d V"
    "ddl_table (plain_ddl d) = ddl_table d"
  by (cases d; simp split: option.split)+

lemma last_cut: "c \<notin> set w \<Longrightarrow> last (cut_at c (xs @ c # w)) = w"
  by (simp add: cut_at_append cut_at_word)

lemma text_words:
  "ident t \<Longrightarrow> cut_at (CHR '' '') (''ALTER TABLE '' @ t @ CHR '' '' # r) = [''ALTER'', ''TABLE'', t] @ cut_at (CHR '' '') r"
  using cut_at_first [of "CHR '' ''" t r] ident_chars [of t] by simp

lemma parse_copy: "ident n \<Longrightarrow> ident m \<Longrightarrow> parse_ddl (ddl_text (CopyLike n m)) = CopyLike n m"
proof -
  assume i: "ident n" "ident m"
  have "cut_at (CHR '' '') (ddl_text (CopyLike n m)) = [''CREATE'', ''TABLE'', n, ''like'', m]"
    using cut_at_first [of "CHR '' ''" n "''like '' @ m"] cut_at_word [of "CHR '' ''" m] ident_chars [OF i(1)] ident_chars [OF i(2)]
    by simp
  then show ?thesis by (simp add: parse_ddl_def)
qed

lemma parse_drop_table: "ident n \<Longrightarrow> parse_ddl (ddl_text (DropTab n)) = DropTab n"
proof -
  assume i: "ident n"
  have "cut_at (CHR '' '') (ddl_text (DropTab n)) = [''DROP'', ''TABLE'', n]"
    using cut_at_word [of "CHR '' ''" n] ident_chars [OF i] by simp
  then show ?thesis by (simp add: parse_ddl_def)
qed

lemma parse_words:
  "cut_at (CHR '' '') q = [''ALTER'', ''TABLE'', t, ''ADD'', ''COLUMN'', x] @ r \<Longrightarrow> r \<noteq> [] \<Longrightarrow>
     parse_ddl q = AddCol t (unquote x) [] (if last r = ''FIRST;'' then None else Some (unquote (butlast (last r))))"
  "cut_at (CHR '' '') q = [''ALTER'', ''TABLE'', t, ''ADD'', ''PRIMARY''] @ r \<Longrightarrow>
     parse_ddl q = AddKey t \<lparr>ky_name = ''PRIMARY'', ky_type = Some E_KeyType_Normal, ky_fields = odds (cut_at (CHR 0x60) q)\<rparr>"
  "cut_at (CHR '' '') q = [''ALTER'', ''TABLE'', t, ''ADD'', y] @ r \<Longrightarrow> y \<noteq> ''PRIMARY'' \<Longrightarrow> y \<noteq> ''COLUMN'' \<Longrightarrow>
     parse_ddl q = AddKey t \<lparr>ky_name = hd (odds (cut_at (CHR 0x60) q)), ky_type = Some E_KeyType_Normal,
       ky_fields = tl (odds (cut_at (CHR 0x60) q))\<rparr>"
  "cut_at (CHR '' '') q = [''ALTER'', ''TABLE'', t, ''DROP'', ''COLUMN''] @ r \<Longrightarrow>
     parse_ddl q = DropCols t (drop_names ([''DROP'', ''COLUMN''] @ r))"
  "cut_at (CHR '' '') q = [''ALTER'', ''TABLE'', t, ''DROP'', ''PRIMARY''] @ r \<Longrightarrow> parse_ddl q = DropKey t ''PRIMARY''"
  "cut_at (CHR '' '') q = [''ALTER'', ''TABLE'', t, ''DROP'', ''INDEX'', n] \<Longrightarrow> parse_ddl q = DropKey t n"
  "cut_at (CHR '' '') q = [''ALTER'', ''TABLE'', t, z] @ r \<Longrightarrow> z \<noteq> ''ADD'' \<Longrightarrow> z \<noteq> ''DROP'' \<Longrightarrow> parse_ddl q = ModifyCol t [] []"
  by (simp_all add: parse_ddl_def Let_def)

lemma parse_add_col:
  assumes "ident t" "ident f" "pred_option ident pos"
  shows "parse_ddl (ddl_text (AddCol t f ty pos)) = AddCol t f [] pos"
proof -
  let ?sp = "CHR '' ''"
  let ?tail = "case pos of None \<Rightarrow> ''FIRST;'' | Some g \<Rightarrow> quoted g @ '';''"
  let ?r = "ty @ (case pos of None \<Rightarrow> [] | Some g \<Rightarrow> '' AFTER'') @ ?sp # ?tail"
  have q: "ddl_text (AddCol t f ty pos) = ''ALTER TABLE '' @ t @ ?sp # ''ADD COLUMN '' @ quoted f @ ?sp # ?r"
    by (simp add: add_sql_def split: option.split)
  have f: "?sp \<notin> set (quoted f)" using ident_chars [OF assms(2)] by (simp add: quoted_def)
  have w: "cut_at ?sp (ddl_text (AddCol t f ty pos)) = [''ALTER'', ''TABLE'', t, ''ADD'', ''COLUMN'', quoted f] @ cut_at ?sp ?r"
    unfolding q using text_words [OF assms(1)] cut_at_first [OF f] by simp
  have "?sp \<notin> set ?tail" using assms(3) ident_chars by (auto simp: quoted_def pred_option_def split: option.split)
  from last_cut [OF this, of "ty @ (case pos of None \<Rightarrow> [] | Some g \<Rightarrow> '' AFTER'')"]
  have "last (cut_at ?sp ?r) = ?tail" by simp
  moreover have "?tail = ''FIRST;'' \<longleftrightarrow> pos = None" by (auto simp: quoted_def split: option.split)
  moreover have "\<forall>g. pos = Some g \<longrightarrow> unquote (butlast ?tail) = g" by (simp add: quoted_def unquote_def butlast_append)
  moreover have "unquote (quoted f) = f" by (simp add: quoted_def unquote_def)
  ultimately show ?thesis unfolding parse_words(1) [OF w cut_at_Nil] by (cases pos) simp_all
qed

lemma cut_drops:
  "\<forall>d \<in> set (x # ds). CHR '' '' \<notin> set d \<Longrightarrow>
     drop_names (''DROP'' # ''COLUMN'' # cut_at (CHR '' '') (x @ concat (map (\<lambda>d. '',  DROP COLUMN '' @ d) ds) @ '';'')) = x # ds"
proof (induction ds arbitrary: x)
  case Nil
  then have "CHR '' '' \<notin> set (x @ '';'')" by simp
  then show ?case by (simp add: cut_at_word)
next
  case (Cons d ds)
  then have "CHR '' '' \<notin> set (x @ '','')" by simp
  from cut_at_first [OF this, of "'' DROP COLUMN '' @ d @ concat (map (\<lambda>d. '',  DROP COLUMN '' @ d) ds) @ '';''"]
  show ?case using Cons by (simp add: butlast_append)
qed

lemma parse_drop_cols:
  assumes "ident t" "list_all ident ds" "ds \<noteq> []"
  shows "parse_ddl (ddl_text (DropCols t ds)) = DropCols t ds"
proof -
  obtain x xs where d: "ds = x # xs" using assms(3) by (cases ds) auto
  obtain r where r: "r = x @ concat (map (\<lambda>d. '',  DROP COLUMN '' @ d) xs) @ '';''" by simp
  have q: "ddl_text (DropCols t ds) = ''ALTER TABLE '' @ t @ CHR '' '' # ''DROP COLUMN '' @ r"
    by (simp add: r d drop_sql_Cons)
  have "cut_at (CHR '' '') (ddl_text (DropCols t ds)) = [''ALTER'', ''TABLE'', t, ''DROP'', ''COLUMN''] @ cut_at (CHR '' '') r"
    unfolding q using text_words [OF assms(1)] by simp
  note w = parse_words(4) [OF this]
  have "\<forall>d \<in> set (x # xs). CHR '' '' \<notin> set d" using assms(2) d ident_chars by (auto simp: list_all_iff)
  from cut_drops [OF this, folded r d] show ?thesis unfolding w by (simp del: drop_names.simps)
qed

lemma parse_drop_key:
  assumes "ident t" "ident n"
  shows "parse_ddl (ddl_text (DropKey t n)) = DropKey t n"
proof (cases "n = ''PRIMARY''")
  case True
  have "cut_at (CHR '' '') (ddl_text (DropKey t n)) = [''ALTER'', ''TABLE'', t, ''DROP'', ''PRIMARY''] @ [''KEY'']"
    using text_words [OF assms(1), of "''DROP PRIMARY KEY''"] True by simp
  from parse_words(5) [OF this] show ?thesis using True by simp
next
  case False
  have "cut_at (CHR '' '') (ddl_text (DropKey t n)) = [''ALTER'', ''TABLE'', t, ''DROP'', ''INDEX'', n]"
    using text_words [OF assms(1), of "''DROP INDEX '' @ n"] False ident_chars [OF assms(2)] cut_at_word [of "CHR '' ''" n] by simp
  from parse_words(6) [OF this] show ?thesis .
qed

lemma parse_change:
  assumes "ident t"
  shows "parse_ddl (ddl_text (ChangeCol t n f ty)) = ModifyCol t [] []" "parse_ddl (ddl_text (ModifyCol t n ty)) = ModifyCol t [] []"
proof -
  have "cut_at (CHR '' '') (ddl_text (ChangeCol t n f ty))
      = [''ALTER'', ''TABLE'', t, ''CHANGE''] @ cut_at (CHR '' '') (n @ '' '' @ f @ '' '' @ ty @ '';'')"
    using text_words [OF assms, of "''CHANGE '' @ n @ '' '' @ f @ '' '' @ ty @ '';''"] by simp
  from parse_words(7) [OF this] show "parse_ddl (ddl_text (ChangeCol t n f ty)) = ModifyCol t [] []" by simp
  have "cut_at (CHR '' '') (ddl_text (ModifyCol t n ty)) = [''ALTER'', ''TABLE'', t, ''MODIFY''] @ cut_at (CHR '' '') (n @ '' '' @ ty @ '';'')"
    using text_words [OF assms, of "''MODIFY '' @ n @ '' '' @ ty @ '';''"] by simp
  from parse_words(7) [OF this] show "parse_ddl (ddl_text (ModifyCol t n ty)) = ModifyCol t [] []" by simp
qed

text \<open>The columns of a key, between backquotes.\<close>

lemma odds_fields:
  "CHR 0x60 \<notin> set z \<Longrightarrow> \<forall>f \<in> set fs. CHR 0x60 \<notin> set f \<Longrightarrow>
     odds (cut_at (CHR 0x60) (z @ concat (map (\<lambda>(i, f). (if i > 0 then '', '' else []) @ quoted f) (enumerate k fs)) @ '')'')) = fs"
proof (induction fs arbitrary: z k)
  case Nil
  then have "CHR 0x60 \<notin> set (z @ '')'')" by simp
  then show ?case by (simp add: cut_at_word)
next
  case (Cons f fs)
  let ?s = "if k > 0 then '', '' else []"
  let ?r = "concat (map (\<lambda>(i, f). (if i > 0 then '', '' else []) @ quoted f) (enumerate (Suc k) fs)) @ '')''"
  have "CHR 0x60 \<notin> set (z @ ?s)" using Cons.prems by simp
  from cut_at_first [OF this, of "f @ CHR 0x60 # ?r"] cut_at_first [of "CHR 0x60" f ?r] Cons.prems
  have "cut_at (CHR 0x60) (z @ ?s @ quoted f @ ?r) = [z @ ?s, f] @ cut_at (CHR 0x60) ?r" by (simp add: quoted_def)
  then show ?case using Cons.IH [of "[]" "Suc k"] Cons.prems by simp
qed

lemma parse_add_key:
  assumes "ddl_idents (AddKey t k)"
  shows "parse_ddl (ddl_text (AddKey t k)) = plain_ddl (AddKey t k)"
proof -
  let ?fs = "concat (map (\<lambda>(i, f). (if i > 0 then '', '' else []) @ quoted f) (enumerate 0 (ky_fields k))) @ '')''"
  have i: "ident t" "ident (ky_name k)" "\<forall>f \<in> set (ky_fields k). CHR 0x60 \<notin> set f"
    using assms ident_chars by (auto simp: list_all_iff)
  show ?thesis
  proof (cases "key_type (ky_type k) = E_KeyType_Primary")
    case True
    have q: "ddl_text (AddKey t k) = ''ALTER TABLE '' @ t @ CHR '' '' # ''ADD PRIMARY KEY('' @ ?fs"
      using True by (simp add: GetFieldKeyDesc_def)
    have "cut_at (CHR '' '') (ddl_text (AddKey t k)) = [''ALTER'', ''TABLE'', t, ''ADD'', ''PRIMARY''] @ cut_at (CHR '' '') (''KEY('' @ ?fs)"
      unfolding q using text_words [OF i(1)] by simp
    moreover have "odds (cut_at (CHR 0x60) (ddl_text (AddKey t k))) = ky_fields k"
      using odds_fields [of "''ALTER TABLE '' @ t @ '' ADD PRIMARY KEY(''" "ky_fields k" 0] i(3) ident_chars [OF i(1)] unfolding q by simp
    ultimately show ?thesis using parse_words(2) True assms by simp
  next
    case False
    define y where "y = (if key_type (ky_type k) = E_KeyType_Normal then ''KEY '' else ''UNIQUE KEY '')"
    have q: "ddl_text (AddKey t k) = ''ALTER TABLE '' @ t @ CHR '' '' # ''ADD '' @ y @ CHR 0x60 # ky_name k @ CHR 0x60 # ''('' @ ?fs"
      using False by (cases "key_type (ky_type k)") (simp_all add: GetFieldKeyDesc_def y_def)
    have y: "CHR 0x60 \<notin> set y" "\<exists>z r. cut_at (CHR '' '') (y @ CHR 0x60 # ky_name k @ CHR 0x60 # ''('' @ ?fs) = z # r
        \<and> z \<noteq> ''PRIMARY'' \<and> z \<noteq> ''COLUMN''" by (auto simp: y_def)
    then obtain z r where z: "cut_at (CHR '' '') (y @ CHR 0x60 # ky_name k @ CHR 0x60 # ''('' @ ?fs) = z # r"
      "z \<noteq> ''PRIMARY''" "z \<noteq> ''COLUMN''" by blast
    have w: "cut_at (CHR '' '') (ddl_text (AddKey t k)) = [''ALTER'', ''TABLE'', t, ''ADD'', z] @ r"
      unfolding q using text_words [OF i(1)] z(1) by simp
    have "CHR 0x60 \<notin> set (''ALTER TABLE '' @ t @ '' ADD '' @ y)" using y(1) ident_chars [OF i(1)] by simp
    from cut_at_first [OF this, of "ky_name k @ CHR 0x60 # ''('' @ ?fs"] cut_at_first [of "CHR 0x60" "ky_name k" "''('' @ ?fs"]
    have "cut_at (CHR 0x60) (ddl_text (AddKey t k)) = [''ALTER TABLE '' @ t @ '' ADD '' @ y, ky_name k] @ cut_at (CHR 0x60) (''('' @ ?fs)"
      unfolding q using ident_chars [OF i(2)] by simp
    then have "odds (cut_at (CHR 0x60) (ddl_text (AddKey t k))) = ky_name k # ky_fields k"
      using odds_fields [of "''(''" "ky_fields k" 0] i(3) by simp
    then show ?thesis using parse_words(3) [OF w z(2,3)] by simp
  qed
qed

lemma parse_text: "ddl_idents d \<Longrightarrow> parse_ddl (ddl_text d) = plain_ddl d"
proof (cases d)
  case (AddKey t k)
  then show "ddl_idents d \<Longrightarrow> ?thesis" using parse_add_key by blast
qed (use parse_copy parse_drop_table parse_add_col parse_drop_cols parse_drop_key parse_change in \<open>simp_all del: ddl_text.simps\<close>)

subsection \<open>The server\<close>

definition srv_exec :: "string \<Rightarrow> view \<Rightarrow> int \<times> view" where
  "srv_exec q V =
     (let d = parse_ddl q
      in if (case d of DropTab n \<Rightarrow> V n \<noteq> None | _ \<Rightarrow> ddl_valid d V) then (0, ddl_effect d V) else (1, V))"

definition srv_query :: "string \<Rightarrow> view \<Rightarrow> (int \<times> string list) \<times> view" where
  "srv_query q V =
     (case V (last (butlast (cut_at (CHR 0x27) q))) of
        None \<Rightarrow> ((0, []), V)
      | Some v \<Rightarrow> ((0, if q ! 16 = CHR ''C'' then vt_cols v else filter ident (map fst (vt_keys v))), V))"

definition mysql_server :: "view mysql" where
  "mysql_server = \<lparr>my_connect = (\<lambda>ip user pw port V. (Some 1, V)), my_use = (\<lambda>c db V. (True, V)),
     my_exec = (\<lambda>c. srv_exec), my_query = (\<lambda>c. srv_query)\<rparr>"

lemma effect_local: "x \<noteq> ddl_table d \<Longrightarrow> ddl_effect d V x = V x"
  by (cases d) (auto simp: upd_table_def)

lemma query_table:
  assumes "ident t"
  shows "last (butlast (cut_at (CHR 0x27) (xs @ CHR 0x27 # t @ CHR 0x27 # '';''))) = t"
  using cut_at_append [of "CHR 0x27" xs "t @ CHR 0x27 # '';''"] cut_at_first [of "CHR 0x27" t "'';''"] ident_chars [OF assms]
  by (simp add: butlast_append)

lemma srv_query_sql:
  assumes "ident t"
  shows "srv_query (columns_sql schema t) V = ((0, case V t of None \<Rightarrow> [] | Some v \<Rightarrow> vt_cols v), V)"
    "srv_query (keys_sql schema t) V = ((0, case V t of None \<Rightarrow> [] | Some v \<Rightarrow> filter ident (map fst (vt_keys v))), V)"
proof -
  have "columns_sql schema t = (''SELECT DISTINCT COLUMN_NAME FROM information_schema.columns where table_schema=''
      @ [CHR 0x27] @ schema @ [CHR 0x27] @ '' and table_name='') @ CHR 0x27 # t @ CHR 0x27 # '';''"
    "keys_sql schema t = (''SELECT DISTINCT INDEX_NAME FROM information_schema.statistics where table_schema=''
      @ [CHR 0x27] @ schema @ [CHR 0x27] @ '' and table_name='') @ CHR 0x27 # t @ CHR 0x27 # '';''"
    by (simp_all add: columns_sql_def keys_sql_def)
  then have "last (butlast (cut_at (CHR 0x27) (columns_sql schema t))) = t" "last (butlast (cut_at (CHR 0x27) (keys_sql schema t))) = t"
    using query_table [OF assms] by metis+
  moreover have "columns_sql schema t ! 16 = CHR ''C''" "keys_sql schema t ! 16 = CHR ''I''"
    by (simp_all add: columns_sql_def keys_sql_def)
  ultimately show "srv_query (columns_sql schema t) V = ((0, case V t of None \<Rightarrow> [] | Some v \<Rightarrow> vt_cols v), V)"
    "srv_query (keys_sql schema t) V = ((0, case V t of None \<Rightarrow> [] | Some v \<Rightarrow> filter ident (map fst (vt_keys v))), V)"
    by (simp_all add: srv_query_def split: option.split)
qed

lemma plain_drop: "(case plain_ddl d of DropTab n \<Rightarrow> V n \<noteq> None | _ \<Rightarrow> ddl_valid (plain_ddl d) V)
    = (case d of DropTab n \<Rightarrow> V n \<noteq> None | _ \<Rightarrow> ddl_valid d V)"
  using plain_same(1) [of d V] by (cases d) auto

lemma srv_exec_text:
  "ddl_idents d \<Longrightarrow> srv_exec (ddl_text d) V =
     (if (case d of DropTab n \<Rightarrow> V n \<noteq> None | _ \<Rightarrow> ddl_valid d V) then (0, ddl_effect d V) else (1, V))"
  unfolding srv_exec_def Let_def parse_text unfolding plain_drop unfolding plain_same ..

lemma server_local: "mysql_local mysql_server c (\<lambda>V. V)"
  by (auto simp: mysql_local_def mysql_server_def srv_exec_text effect_local srv_query_sql list_all_iff split: option.split)

lemma server_accepts: "mysql_accepts mysql_server c schema (\<lambda>V. V)"
proof -
  have "srv_exec (ddl_text d) V = (0, ddl_effect d V)" if "ddl_idents d" "ddl_valid d V" for d V
    using that(2) unfolding srv_exec_text [OF that(1)] by (cases d) simp_all
  moreover have "snd (srv_exec (ddl_text (DropTab t)) V) = V(t := None)" if "ident t" for t V
    using srv_exec_text [of "DropTab t" V] that by (auto simp: fun_upd_idem)
  moreover have "filter ident (map fst ks) = map fst ks" if "list_all (\<lambda>(n, fs). ident n) ks" for ks :: "(string \<times> string list) list"
    using that by (induction ks) auto
  ultimately show ?thesis
    by (simp add: mysql_accepts_def mysql_server_def srv_query_sql split: option.split)
qed

end
