(* ===== verification/Db_Migrate.thy ===== *)
theory Db_Migrate
  imports Db_Server
begin

text \<open>
  \<^verbatim>\<open>CreateTable\<close> on a server that carries out valid statements: the columns of the table become those of the
  configuration, in their order, and the keys have the configured names.
\<close>

definition vt_ok :: "vtable \<Rightarrow> bool" where
  "vt_ok v \<longleftrightarrow> vt_cols v \<noteq> [] \<and> distinct (vt_cols v) \<and> distinct (map fst (vt_keys v))
     \<and> (\<forall>(n, fs) \<in> set (vt_keys v). ident n \<and> fs \<noteq> [] \<and> set fs \<subseteq> set (vt_cols v))"

definition dead_names :: "MysqlTable \<Rightarrow> string list" where
  "dead_names t = map fl_name (filter fl_is_delete (tb_fields t))"

definition live_names :: "MysqlTable \<Rightarrow> string list" where
  "live_names t = map fl_name (live_fields t)"

lemma accepts_ddl:
  "mysql_accepts M c schema view \<Longrightarrow> ddl_idents d \<Longrightarrow> ddl_valid d (view s) \<Longrightarrow>
     \<exists>s1. my_exec M c (ddl_text d) s = (0, s1) \<and> view s1 = ddl_effect d (view s)"
  unfolding mysql_accepts_def by blast

lemma accepts_fields:
  "mysql_accepts M c schema view \<Longrightarrow> ident t \<Longrightarrow> view s t = Some v \<Longrightarrow> GetTableFields M c schema t s = ((0, vt_cols v), s)"
  unfolding mysql_accepts_def GetTableFields_def by simp

lemma drop_cols_ok:
  assumes "vt_ok v" "\<exists>x \<in> set (vt_cols v). x \<notin> set ds"
  shows "vt_ok (drop_cols ds v)"
proof -
  have "distinct (map fst (filter P (map (\<lambda>(n, fs). (n, g fs)) ks)))" if "distinct (map fst ks)"
    for P and g :: "string list \<Rightarrow> string list" and ks :: "(string \<times> string list) list"
    using that by (induction ks) (auto simp: image_iff)
  then show ?thesis using assms by (fastforce simp: vt_ok_def drop_cols_def filter_empty_conv)
qed

lemma drop_cols_cong:
  assumes "vt_ok v" "\<And>x. x \<in> set (vt_cols v) \<Longrightarrow> x \<in> set ds \<longleftrightarrow> x \<in> set es"
  shows "drop_cols ds v = drop_cols es v"
proof -
  have "filter (\<lambda>x. x \<notin> set ds) fs = filter (\<lambda>x. x \<notin> set es) fs" if "set fs \<subseteq> set (vt_cols v)" for fs
    using assms(2) that by (intro filter_cong) auto
  moreover have "\<forall>(n, fs) \<in> set (vt_keys v). set fs \<subseteq> set (vt_cols v)" using assms(1) by (auto simp: vt_ok_def)
  ultimately show ?thesis
    by (auto simp: drop_cols_def intro!: arg_cong [where f = "filter _"] map_cong)
qed

lemma drop_cols_none:
  assumes "vt_ok v"
  shows "drop_cols [] v = v"
  using assms by (cases v) (auto simp: vt_ok_def drop_cols_def filter_id_conv)

lemma delete_ok:
  assumes "mysql_accepts M c schema view" "table_idents t" "distinct (map fl_name (tb_fields t))"
    and "view s (tb_name t) = Some v" "vt_ok v" "\<exists>x \<in> set (vt_cols v). x \<notin> set (dead_names t)"
  shows "\<exists>s1. DeleteTableColumn M c schema t s = (0, s1)
    \<and> view s1 = (view s)(tb_name t := Some (drop_cols (dead_names t) v))"
proof -
  define want where "want = filter (\<lambda>n. n \<in> set (vt_cols v)) (dead_names t)"
  have i: "ident (tb_name t)" using assms(2) by (simp add: table_idents_def)
  have e: "drop_cols want v = drop_cols (dead_names t) v"
    by (rule drop_cols_cong [OF assms(5)]) (simp add: want_def)
  have del: "DeleteTableColumn M c schema t s =
    (if want \<noteq> [] then case my_exec M c (drop_sql (tb_name t) want @ '';'') s of (r2, s2) \<Rightarrow> (if r2 = 0 then 0 else -1, s2)
     else (0, s))"
    using accepts_fields [OF assms(1) i assms(4)]
    by (simp add: DeleteTableColumn_def want_def dead_names_def Let_def drop_sql_empty)
  show ?thesis
  proof (cases "want = []")
    case True
    then have "view s = (view s)(tb_name t := Some (drop_cols (dead_names t) v))"
      using e drop_cols_none [OF assms(5)] assms(4) by (simp add: fun_upd_idem)
    then show ?thesis using del True by simp
  next
    case False
    have "distinct want" using assms(3) by (simp add: want_def dead_names_def distinct_map_filter)
    then have "ddl_valid (DropCols (tb_name t) want) (view s)" using assms(4,6) by (auto simp: want_def)
    moreover have "ddl_idents (DropCols (tb_name t) want)"
      using assms(2) False by (auto simp: table_idents_def want_def dead_names_def list_all_iff)
    ultimately obtain s1 where "my_exec M c (ddl_text (DropCols (tb_name t) want)) s = (0, s1)"
      "view s1 = ddl_effect (DropCols (tb_name t) want) (view s)"
      using accepts_ddl [OF assms(1)] by blast
    then show ?thesis using del False assms(4) e by (simp add: upd_table_def)
  qed
qed

lemma no_wish: "(\<And>f n. f \<in> set fs \<Longrightarrow> key f = Some n \<Longrightarrow> n \<notin> C) \<Longrightarrow>
  filter (\<lambda>(n, f). n \<in> C) (fold (\<lambda>f m. case key f of Some n \<Rightarrow> omap_put n f m | None \<Rightarrow> m) fs []) = []"
  using wishes [of _ _ key fs "[]"] by (fastforce simp: filter_empty_conv)

lemma rename_ok:
  assumes "mysql_accepts M c schema view" "table_idents t" "view s (tb_name t) = Some v"
    and "\<And>f n. f \<in> set (tb_fields t) \<Longrightarrow> fl_rename_from f = Some n \<Longrightarrow> n \<notin> set (vt_cols v)"
  shows "RenameTableColumn M c schema t s = (0, s)"
  using accepts_fields [OF assms(1) _ assms(3)] assms(2)
  by (simp add: RenameTableColumn_def Let_def no_wish [OF assms(4)] table_idents_def)

lemma modify_ok:
  assumes "mysql_accepts M c schema view" "table_idents t" "view s (tb_name t) = Some v"
    and "\<And>f. f \<in> set (tb_fields t) \<Longrightarrow> fl_modify_type f = None \<or> fl_name f \<notin> set (vt_cols v)"
  shows "ModifyTableColumn M c schema t s = (0, s)"
proof -
  have "filter (\<lambda>(n, f). n \<in> set (vt_cols v))
      (fold (\<lambda>f m. if fl_modify_type f \<noteq> None then omap_put (fl_name f) f m else m) (tb_fields t) []) = []"
    unfolding modify_wish by (rule no_wish) (use assms(4) in fastforce)
  then show ?thesis using accepts_fields [OF assms(1) _ assms(3)] assms(2)
    by (simp add: ModifyTableColumn_def Let_def table_idents_def)
qed

subsection \<open>New columns\<close>

lemma insert_after_last: "g \<notin> set xs \<Longrightarrow> insert_after f g (xs @ g # ys) = xs @ g # f # ys"
  by (induction xs) auto

lemma add_columns_ok:
  assumes "mysql_accepts M c schema view" "ident t"
  shows "view s t = Some v \<Longrightarrow> vt_cols v = done_cols @ filter (\<lambda>x. x \<in> set old) rest \<Longrightarrow> distinct (done_cols @ rest) \<Longrightarrow>
    \<forall>f \<in> set (done_cols @ rest). ident f \<Longrightarrow>
    \<exists>s1. add_columns M c t ty old (if done_cols = [] then None else Some (last done_cols)) rest s = (0, s1)
      \<and> view s1 = (view s)(t := Some (v\<lparr>vt_cols := done_cols @ rest\<rparr>))"
proof (induction rest arbitrary: s v done_cols)
  case Nil
  then show ?case by (cases v) (auto simp: fun_upd_idem)
next
  case (Cons f fs)
  let ?prev = "if done_cols = [] then None else Some (last done_cols)"
  have d2: "distinct ((done_cols @ [f]) @ fs)" "\<forall>x \<in> set ((done_cols @ [f]) @ fs). ident x" using Cons.prems by auto
  show ?case
  proof (cases "f \<in> set old")
    case True
    then have "vt_cols v = (done_cols @ [f]) @ filter (\<lambda>x. x \<in> set old) fs" using Cons.prems by simp
    from Cons.IH [OF Cons.prems(1) this d2] show ?thesis using True by simp
  next
    case False
    let ?d = "AddCol t f (ty f) ?prev"
    let ?v = "v\<lparr>vt_cols := (done_cols @ [f]) @ filter (\<lambda>x. x \<in> set old) fs\<rparr>"
    have "ddl_idents ?d" using assms(2) Cons.prems(4) by auto
    moreover have "ddl_valid ?d (view s)" using Cons.prems False by auto
    ultimately obtain s1 where s1: "my_exec M c (ddl_text ?d) s = (0, s1)" "view s1 = ddl_effect ?d (view s)"
      using accepts_ddl [OF assms(1)] by blast
    have "insert_after f (last done_cols) (done_cols @ ys) = done_cols @ f # ys" if "done_cols \<noteq> []" for ys
      using that Cons.prems(3) insert_after_last [of "last done_cols" "butlast done_cols" f ys]
        append_butlast_last_id [OF that] distinct_butlast [of done_cols]
      by (metis append.assoc append_Cons append_Nil distinct_append not_distinct_conv_prefix)
    then have v1: "view s1 = (view s)(t := Some ?v)"
      using s1(2) Cons.prems(1,2) False by (auto simp: upd_table_def)
    then have "view s1 t = Some ?v" by simp
    moreover have "vt_cols ?v = (done_cols @ [f]) @ filter (\<lambda>x. x \<in> set old) fs" by simp
    ultimately obtain s2 where "add_columns M c t ty old (if done_cols @ [f] = [] then None else Some (last (done_cols @ [f]))) fs s1
        = (0, s2)" "view s2 = (view s1)(t := Some (?v\<lparr>vt_cols := (done_cols @ [f]) @ fs\<rparr>))"
      using Cons.IH [OF _ _ d2] by blast
    then show ?thesis using False s1(1) v1 by (simp add: sql_then_def) (simp add: fun_eq_iff)
  qed
qed

lemma filter_subseq: "subseq xs ys \<Longrightarrow> distinct ys \<Longrightarrow> filter (\<lambda>y. y \<in> set xs) ys = xs"
proof (induction xs ys rule: list_emb.induct)
  case (list_emb_Cons xs ys y)
  then have "y \<notin> set xs" by (auto dest: list_emb_set)
  then show ?case using list_emb_Cons by simp
next
  case (list_emb_Cons2 x y xs ys)
  then have "filter (\<lambda>z. z = x \<or> z \<in> set xs) ys = filter (\<lambda>z. z \<in> set xs) ys" by (intro filter_cong) auto
  then show ?case using list_emb_Cons2 by simp
qed simp

text \<open>The columns \<^verbatim>\<open>AddTableColumn\<close> leaves of a table with the columns \<^term>\<open>xs\<close>: those of the configuration when \<^term>\<open>xs\<close> is in their
  order; otherwise it adds none.\<close>

definition added_cols :: "MysqlTable \<Rightarrow> string list \<Rightarrow> string list" where
  "added_cols t xs = (if subseq xs (live_names t) then live_names t else xs)"

lemma add_ok:
  assumes "mysql_accepts M c schema view" "table_idents t" "distinct (live_names t)"
    and "view s (tb_name t) = Some v" "set (vt_cols v) \<subseteq> set (live_names t)"
  shows "\<exists>s1. AddTableColumn M c schema t s = (0, s1)
    \<and> view s1 = (view s)(tb_name t := Some (v\<lparr>vt_cols := added_cols t (vt_cols v)\<rparr>))"
proof -
  have i: "ident (tb_name t)" "\<forall>f \<in> set (live_names t). ident f"
    using assms(2) by (auto simp: table_idents_def live_names_def live_fields_def)
  have "list_all (\<lambda>n. n \<in> set (live_names t)) (vt_cols v)" using assms(5) by (auto simp: list_all_iff)
  then have a: "AddTableColumn M c schema t s =
      (if \<not> subseq (vt_cols v) (live_names t) then (0, s)
       else add_columns M c (tb_name t) (\<lambda>n. GetFieldTypeDesc (field_of t n)) (vt_cols v) None (live_names t) s)"
    using accepts_fields [OF assms(1) i(1) assms(4)] merge_iff [OF assms(3,5)] merge_subseq [OF _ assms(3)]
    by (simp add: AddTableColumn_def Let_def live_names_def [symmetric] del: set_map)
  show ?thesis
  proof (cases "subseq (vt_cols v) (live_names t)")
    case True
    then show ?thesis
      using add_columns_ok [OF assms(1) i(1) assms(4), of "[]" "vt_cols v" "live_names t" "\<lambda>n. GetFieldTypeDesc (field_of t n)"]
        filter_subseq [OF True assms(3)] assms(3) i(2) a by (simp add: added_cols_def)
  next
    case False
    then show ?thesis using a assms(4) by (simp add: added_cols_def fun_upd_idem)
  qed
qed

subsection \<open>Keys\<close>

lemma accepts_keys:
  "mysql_accepts M c schema view \<Longrightarrow> ident t \<Longrightarrow> view s t = Some v \<Longrightarrow> vt_ok v \<Longrightarrow>
    GetTableKeys M c schema t s = ((0, sort (remdups (map fst (vt_keys v)))), s)"
proof -
  assume a: "mysql_accepts M c schema view" "ident t" "view s t = Some v" "vt_ok v"
  have "list_all (\<lambda>(n, fs). ident n) (vt_keys v)" using a(4) by (auto simp: vt_ok_def list_all_iff)
  then show ?thesis using a(1-3) by (simp add: mysql_accepts_def GetTableKeys_def)
qed

lemma ChangeKey_ddl:
  "GetTableKeys M c schema (tb_name t) s = ((0, ks), s1) \<Longrightarrow> ChangeKey M c schema t s =
     sql_then (sql_all (\<lambda>k. my_exec M c (ddl_text (AddKey (tb_name t) k))) (filter (\<lambda>k. ky_name k \<notin> set ks) (tb_keys t)))
       (sql_all (\<lambda>n. my_exec M c (ddl_text (DropKey (tb_name t) n))) (filter (\<lambda>n. n \<notin> set (map ky_name (tb_keys t))) ks)) s1"
  by (simp add: ChangeKey_def)

lemma fst_filter: "fst ` set (filter (\<lambda>(m, fs). m \<notin> G) ks) = fst ` set ks - G"
  by force

lemma distinct_fst_filter: "distinct (map fst ks) \<Longrightarrow> distinct (map fst (filter P ks))"
  by (induction ks) auto

lemma add_keys_ok:
  assumes "mysql_accepts M c schema view" "ident t"
  shows "view s t = Some v \<Longrightarrow> (\<forall>k \<in> set ks. ddl_idents (AddKey t k) \<and> ky_fields k \<noteq> [] \<and> distinct (ky_fields k)
      \<and> set (ky_fields k) \<subseteq> set (vt_cols v) \<and> ky_name k \<notin> fst ` set (vt_keys v)) \<Longrightarrow> distinct (map ky_name ks) \<Longrightarrow>
    \<exists>s1. sql_all (\<lambda>k. my_exec M c (ddl_text (AddKey t k))) ks s = (0, s1)
      \<and> view s1 = (view s)(t := Some (v\<lparr>vt_keys := vt_keys v @ map (\<lambda>k. (ky_name k, ky_fields k)) ks\<rparr>))"
proof (induction ks arbitrary: s v)
  case Nil
  then show ?case by (cases v) (auto simp: fun_upd_idem)
next
  case (Cons k ks)
  let ?d = "AddKey t k"
  let ?v = "v\<lparr>vt_keys := vt_keys v @ [(ky_name k, ky_fields k)]\<rparr>"
  have "ddl_idents ?d" "ddl_valid ?d (view s)" using Cons.prems by auto
  then obtain s1 where s1: "my_exec M c (ddl_text ?d) s = (0, s1)" "view s1 = ddl_effect ?d (view s)"
    using accepts_ddl [OF assms(1)] by blast
  have v1: "view s1 = (view s)(t := Some ?v)" using s1(2) Cons.prems(1) by (simp add: upd_table_def)
  then have "view s1 t = Some ?v" by simp
  moreover have "\<forall>k1 \<in> set ks. ddl_idents (AddKey t k1) \<and> ky_fields k1 \<noteq> [] \<and> distinct (ky_fields k1)
      \<and> set (ky_fields k1) \<subseteq> set (vt_cols ?v) \<and> ky_name k1 \<notin> fst ` set (vt_keys ?v)" using Cons.prems(2,3) by (auto simp: image_iff simp del: ddl_idents.simps)
  moreover have "distinct (map ky_name ks)" using Cons.prems(3) by simp
  ultimately obtain s2 where "sql_all (\<lambda>k. my_exec M c (ddl_text (AddKey t k))) ks s1 = (0, s2)"
    "view s2 = (view s1)(t := Some (?v\<lparr>vt_keys := vt_keys ?v @ map (\<lambda>k. (ky_name k, ky_fields k)) ks\<rparr>))"
    using Cons.IH by blast
  then show ?case using s1(1) v1 by (simp add: sql_then_def del: ddl_text.simps) (simp add: fun_eq_iff)
qed

lemma drop_keys_ok:
  assumes "mysql_accepts M c schema view" "ident t"
  shows "view s t = Some v \<Longrightarrow> (\<forall>n \<in> set ns. ident n \<and> n \<in> fst ` set (vt_keys v)) \<Longrightarrow> distinct ns \<Longrightarrow>
    \<exists>s1. sql_all (\<lambda>n. my_exec M c (ddl_text (DropKey t n))) ns s = (0, s1)
      \<and> view s1 = (view s)(t := Some (v\<lparr>vt_keys := filter (\<lambda>(m, fs). m \<notin> set ns) (vt_keys v)\<rparr>))"
proof (induction ns arbitrary: s v)
  case Nil
  then show ?case by (cases v) (auto simp: fun_upd_idem)
next
  case (Cons n ns)
  let ?d = "DropKey t n"
  let ?v = "v\<lparr>vt_keys := filter (\<lambda>(m, fs). m \<noteq> n) (vt_keys v)\<rparr>"
  have "ddl_idents ?d" "ddl_valid ?d (view s)" using Cons.prems assms(2) by auto
  then obtain s1 where s1: "my_exec M c (ddl_text ?d) s = (0, s1)" "view s1 = ddl_effect ?d (view s)"
    using accepts_ddl [OF assms(1)] by blast
  have v1: "view s1 = (view s)(t := Some ?v)" using s1(2) Cons.prems(1) by (simp add: upd_table_def)
  then have "view s1 t = Some ?v" by simp
  moreover have "\<forall>m \<in> set ns. ident m \<and> m \<in> fst ` set (vt_keys ?v)" using Cons.prems(2,3) by (force simp: image_iff)
  moreover have "distinct ns" using Cons.prems(3) by simp
  ultimately obtain s2 where "sql_all (\<lambda>n. my_exec M c (ddl_text (DropKey t n))) ns s1 = (0, s2)"
    "view s2 = (view s1)(t := Some (?v\<lparr>vt_keys := filter (\<lambda>(m, fs). m \<notin> set ns) (vt_keys ?v)\<rparr>))"
    using Cons.IH by blast
  moreover have "filter (\<lambda>(m, fs). m \<notin> set ns) (vt_keys ?v) = filter (\<lambda>(m, fs). m \<notin> set (n # ns)) (vt_keys v)"
    by (auto intro!: filter_cong)
  ultimately show ?case using s1(1) v1 by (simp add: sql_then_def del: ddl_text.simps) (simp add: fun_eq_iff)
qed

text \<open>The keys the configuration asks for, on the columns it leaves.\<close>

definition keys_fit :: "MysqlTable \<Rightarrow> bool" where
  "keys_fit t \<longleftrightarrow> distinct (map ky_name (tb_keys t))
     \<and> (\<forall>k \<in> set (tb_keys t). ky_fields k \<noteq> [] \<and> distinct (ky_fields k))"

lemma keys_ok:
  assumes "mysql_accepts M c schema view" "table_idents t" "keys_fit t"
    and "view s (tb_name t) = Some v" "vt_ok v" "\<forall>k \<in> set (tb_keys t). set (ky_fields k) \<subseteq> set (vt_cols v)"
  shows "\<exists>s1 ks. ChangeKey M c schema t s = (0, s1) \<and> view s1 = (view s)(tb_name t := Some (v\<lparr>vt_keys := ks\<rparr>))
    \<and> fst ` set ks = ky_name ` set (tb_keys t) \<and> vt_ok (v\<lparr>vt_keys := ks\<rparr>)"
proof -
  let ?old = "map fst (vt_keys v)"
  let ?new = "filter (\<lambda>k. ky_name k \<notin> set ?old) (tb_keys t)"
  let ?v = "v\<lparr>vt_keys := vt_keys v @ map (\<lambda>k. (ky_name k, ky_fields k)) ?new\<rparr>"
  let ?gone = "filter (\<lambda>n. n \<notin> set (map ky_name (tb_keys t))) (sort (remdups ?old))"
  let ?ks = "filter (\<lambda>(m, fs). m \<notin> set ?gone) (vt_keys ?v)"
  have i: "ident (tb_name t)" using assms(2) by (simp add: table_idents_def)
  have "\<forall>k \<in> set ?new. ddl_idents (AddKey (tb_name t) k) \<and> ky_fields k \<noteq> [] \<and> distinct (ky_fields k)
      \<and> set (ky_fields k) \<subseteq> set (vt_cols v) \<and> ky_name k \<notin> fst ` set (vt_keys v)"
    using assms(2,3,6) by (auto simp: table_idents_def keys_fit_def)
  moreover have "distinct (map ky_name ?new)" using assms(3) by (simp add: keys_fit_def distinct_map_filter)
  ultimately obtain s1 where s1: "sql_all (\<lambda>k. my_exec M c (ddl_text (AddKey (tb_name t) k))) ?new s = (0, s1)"
    "view s1 = (view s)(tb_name t := Some ?v)"
    using add_keys_ok [OF assms(1) i assms(4)] by blast
  then have "view s1 (tb_name t) = Some ?v" by simp
  moreover have "\<forall>n \<in> set ?gone. ident n \<and> n \<in> fst ` set (vt_keys ?v)" using assms(5) by (auto simp: vt_ok_def)
  moreover have "distinct ?gone" by simp
  ultimately obtain s2 where s2: "sql_all (\<lambda>n. my_exec M c (ddl_text (DropKey (tb_name t) n))) ?gone s1 = (0, s2)"
    "view s2 = (view s1)(tb_name t := Some (?v\<lparr>vt_keys := ?ks\<rparr>))"
    using drop_keys_ok [OF assms(1) i] by blast
  have c: "ChangeKey M c schema t s = (0, s2)"
    using ChangeKey_ddl [OF accepts_keys [OF assms(1) i assms(4,5)]] s1(1) s2(1)
    by (simp add: sql_then_def del: ddl_text.simps)
  have v: "view s2 = (view s)(tb_name t := Some (v\<lparr>vt_keys := ?ks\<rparr>))" using s1(2) s2(2) by simp
  have "fst ` set ?ks = fst ` set (vt_keys ?v) - set ?gone" by (rule fst_filter)
  also have "fst ` set (vt_keys ?v) = set ?old \<union> ky_name ` set ?new" by (simp add: image_Un image_image)
  finally have n: "fst ` set ?ks = ky_name ` set (tb_keys t)" by auto
  have "distinct (map fst (vt_keys ?v))"
    using assms(3,5) by (auto simp: keys_fit_def vt_ok_def comp_def distinct_map_filter) (force simp: image_iff)
  then have "distinct (map fst ?ks)" by (rule distinct_fst_filter)
  moreover have "\<forall>(n, fs) \<in> set (vt_keys ?v). ident n \<and> fs \<noteq> [] \<and> set fs \<subseteq> set (vt_cols v)"
    using assms(2,3,5,6) by (auto simp: keys_fit_def vt_ok_def table_idents_def)
  ultimately have "vt_ok (v\<lparr>vt_keys := ?ks\<rparr>)" using assms(5) by (auto simp: vt_ok_def)
  then show ?thesis using c v n by blast
qed

subsection \<open>A table\<close>

definition kept_cols :: "MysqlTable \<Rightarrow> vtable \<Rightarrow> string list" where
  "kept_cols t v = filter (\<lambda>x. x \<notin> set (dead_names t)) (vt_cols v)"

text \<open>A table that is brought to the configuration without a change of the columns it keeps: none is the source of a renaming or changes
  its type, and the keys of the configuration have their columns.\<close>

definition can_migrate :: "MysqlTable \<Rightarrow> vtable \<Rightarrow> bool" where
  "can_migrate t v \<longleftrightarrow> vt_ok v \<and> kept_cols t v \<noteq> [] \<and> set (kept_cols t v) \<subseteq> set (live_names t)
     \<and> (\<forall>f \<in> set (tb_fields t). (\<forall>n. fl_rename_from f = Some n \<longrightarrow> n \<notin> set (kept_cols t v))
          \<and> (fl_modify_type f = None \<or> fl_name f \<notin> set (kept_cols t v)))
     \<and> (\<forall>k \<in> set (tb_keys t). set (ky_fields k) \<subseteq> set (added_cols t (kept_cols t v)))"

lemma change_ok:
  assumes "mysql_accepts M c schema view" "table_idents t" "distinct (map fl_name (tb_fields t))" "keys_fit t"
    and "view s (tb_name t) = Some v" "can_migrate t v"
  shows "\<exists>s1 w. ChangeTable M c schema t s = (0, s1) \<and> view s1 = (view s)(tb_name t := Some w)
    \<and> vt_cols w = added_cols t (kept_cols t v) \<and> fst ` set (vt_keys w) = ky_name ` set (tb_keys t)"
proof -
  let ?n = "tb_name t"
  let ?v1 = "drop_cols (dead_names t) v"
  let ?v2 = "?v1\<lparr>vt_cols := added_cols t (kept_cols t v)\<rparr>"
  have m: "vt_ok v" "kept_cols t v \<noteq> []" "set (kept_cols t v) \<subseteq> set (live_names t)"
    "\<forall>k \<in> set (tb_keys t). set (ky_fields k) \<subseteq> set (added_cols t (kept_cols t v))" using assms(6) by (auto simp: can_migrate_def)
  have k: "vt_cols ?v1 = kept_cols t v" by (simp add: drop_cols_def kept_cols_def)
  have ex: "\<exists>x \<in> set (vt_cols v). x \<notin> set (dead_names t)" using m(2) by (auto simp: kept_cols_def filter_empty_conv)
  have dl: "distinct (live_names t)" using assms(3) by (simp add: live_names_def live_fields_def distinct_map_filter)
  have o1: "vt_ok ?v1" by (rule drop_cols_ok [OF m(1) ex])
  have "set (kept_cols t v) \<subseteq> set (added_cols t (kept_cols t v))" "added_cols t (kept_cols t v) \<noteq> []" "distinct (added_cols t (kept_cols t v))"
    using m(2,3) dl o1 k by (auto simp: added_cols_def vt_ok_def)
  then have o2: "vt_ok ?v2" using o1 k by (fastforce simp: vt_ok_def)
  obtain s1 where s1: "DeleteTableColumn M c schema t s = (0, s1)" "view s1 = (view s)(?n := Some ?v1)"
    using delete_ok [OF assms(1-3,5) m(1) ex] by blast
  then have v1: "view s1 ?n = Some ?v1" by simp
  have r: "RenameTableColumn M c schema t s1 = (0, s1)" "ModifyTableColumn M c schema t s1 = (0, s1)"
    by (rule rename_ok [OF assms(1,2) v1], use assms(6) k in \<open>auto simp: can_migrate_def\<close>)
      (rule modify_ok [OF assms(1,2) v1], use assms(6) k in \<open>auto simp: can_migrate_def\<close>)
  obtain s2 where s2: "AddTableColumn M c schema t s1 = (0, s2)" "view s2 = (view s1)(?n := Some ?v2)"
    using add_ok [OF assms(1,2) dl v1] k m(3) by auto
  then have v2: "view s2 ?n = Some ?v2" by simp
  obtain s3 ks where s3: "ChangeKey M c schema t s2 = (0, s3)" "view s3 = (view s2)(?n := Some (?v2\<lparr>vt_keys := ks\<rparr>))"
    "fst ` set ks = ky_name ` set (tb_keys t)"
    using keys_ok [OF assms(1,2,4) v2 o2] m(4) by auto
  have "ChangeTable M c schema t s = (0, s3)" using s1(1) r s2(1) s3(1) by (simp add: ChangeTable_def sql_then_def)
  moreover have "view s3 = (view s)(?n := Some (?v2\<lparr>vt_keys := ks\<rparr>))" using s1(2) s2(2) s3(2) by simp
  ultimately show ?thesis using s3(3) by (intro exI [of _ s3] exI [of _ "?v2\<lparr>vt_keys := ks\<rparr>"]) simp
qed

lemma ident_tmp: "ident n \<Longrightarrow> ident (n @ ''_tmp'')"
  by (auto simp: ident_def Let_def)

lemma create_ok:
  assumes "mysql_accepts M c schema view" "table_idents t" "distinct (map fl_name (tb_fields t))" "keys_fit t"
    and "view s (tb_name t) = Some v" "can_migrate t v"
  shows "\<exists>s1 w. CreateTable M c schema t s = (0, s1)
    \<and> view s1 = (view s)(tb_name t @ ''_tmp'' := None, tb_name t := Some w)
    \<and> vt_cols w = added_cols t (kept_cols t v) \<and> fst ` set (vt_keys w) = ky_name ` set (tb_keys t)"
proof -
  let ?n = "tb_name t" and ?m = "tb_name t @ ''_tmp''"
  let ?t = "t\<lparr>tb_name := ?m\<rparr>"
  have i: "ident ?n" "ident ?m" using assms(2) ident_tmp by (auto simp: table_idents_def)
  have e: "live_names ?t = live_names t" "dead_names ?t = dead_names t"
    by (simp_all add: live_names_def live_fields_def dead_names_def)
  then have e2: "kept_cols ?t v = kept_cols t v" "added_cols ?t = added_cols t"
    by (simp_all add: kept_cols_def added_cols_def fun_eq_iff)
  have t: "table_idents ?t" "keys_fit ?t" "can_migrate ?t v"
    using assms(2,4,6) i e e2 by (simp_all add: table_idents_def keys_fit_def can_migrate_def)
  have dt: "\<exists>s1. DropTable M c ?m s0 = (0, s1) \<and> view s1 = (view s0)(?m := None)" for s0
    using assms(1) i(2) by (auto simp: mysql_accepts_def DropTable_def)
  obtain s1 where s1: "DropTable M c ?m s = (0, s1)" "view s1 = (view s)(?m := None)" using dt by blast
  have "ddl_idents (CopyLike ?m ?n)" "ddl_valid (CopyLike ?m ?n) (view s1)" using i s1(2) assms(5) by simp_all
  then obtain s2 where s2: "my_exec M c (ddl_text (CopyLike ?m ?n)) s1 = (0, s2)" "view s2 = ddl_effect (CopyLike ?m ?n) (view s1)"
    using accepts_ddl [OF assms(1)] by blast
  have cp: "CopyTable M c ?m ?n s = (0, s2)" using s1(1) s2(1) by (simp add: CopyTable_def)
  have v2: "view s2 = (view s)(?m := Some v)" using s1(2) s2(2) assms(5) by simp
  then have "view s2 (tb_name ?t) = Some v" by simp
  with t assms(1,3) obtain s3 w where s3: "ChangeTable M c schema ?t s2 = (0, s3)" "view s3 = (view s2)(?m := Some w)"
    using change_ok [of M c schema view ?t s2 v] by auto
  obtain s4 where s4: "DropTable M c ?m s3 = (0, s4)" "view s4 = (view s3)(?m := None)" using dt by blast
  have v4: "view s4 = (view s)(?m := None)" using s4(2) s3(2) v2 by simp
  then have "view s4 ?n = Some v" using assms(5) by simp
  with assms obtain s5 w where s5: "ChangeTable M c schema t s4 = (0, s5)" "view s5 = (view s4)(?n := Some w)"
    "vt_cols w = added_cols t (kept_cols t v)" "fst ` set (vt_keys w) = ky_name ` set (tb_keys t)"
    using change_ok [of M c schema view t s4 v] by auto
  have "vt_cols v \<noteq> []" using assms(6) by (simp add: can_migrate_def vt_ok_def)
  then have "CreateTable M c schema t s = (0, s5)"
    using accepts_fields [OF assms(1) i(1) assms(5)] cp s3(1) s4(1) s5(1) by (simp add: CreateTable_def sql_then_def Let_def)
  then show ?thesis using s5(2-4) v4 by auto
qed

subsection \<open>What the check of the configuration promises\<close>

lemma check_fields_sound:
  "check_fields before fs \<Longrightarrow> distinct (map fl_name fs) \<and> set (map fl_name fs) \<inter> set before = {}
     \<and> (\<forall>f \<in> set fs. fl_type f \<noteq> None \<and> fl_rename_from f \<noteq> Some (fl_name f) \<and> (fl_rename_from f = None \<or> fl_modify_type f = None))"
proof (induction fs arbitrary: before)
  case (Cons f fs)
  then have "check_field before f" "check_fields (fl_name f # before) fs" by simp_all
  then show ?case using Cons.IH [of "fl_name f # before"] unfolding check_field_def by auto
qed simp

lemma check_keys_sound:
  "check_keys names before n ks = Some ks1 \<Longrightarrow> distinct (map ky_name ks) \<and> set (map ky_name ks) \<inter> set before = {}
     \<and> map ky_fields ks1 = map ky_fields ks \<and> map ky_type ks1 = map ky_type ks
     \<and> (\<forall>k \<in> set ks1. ky_type k \<noteq> None \<and> ky_fields k \<noteq> [] \<and> distinct (ky_fields k) \<and> set (ky_fields k) \<subseteq> names
          \<and> (ky_type k = Some E_KeyType_Primary \<longrightarrow> ky_name k = ''PRIMARY''))
     \<and> (n \<le> 1 \<longrightarrow> n + length (filter (\<lambda>k. ky_type k = Some E_KeyType_Primary) ks1) \<le> 1)"
proof (induction ks arbitrary: before n ks1)
  case (Cons k ks)
  then obtain ks2 where k: "ks1 = (if ky_type k = Some E_KeyType_Primary then k\<lparr>ky_name := ''PRIMARY''\<rparr> else k) # ks2"
    "check_keys names (ky_name k # before) (if ky_type k = Some E_KeyType_Primary then n + 1 else n) ks = Some ks2"
    "ky_name k \<notin> set before" "ky_type k \<noteq> None" "ky_fields k \<noteq> []" "distinct (ky_fields k)" "set (ky_fields k) \<subseteq> names"
    "(if ky_type k = Some E_KeyType_Primary then n + 1 else n) \<le> 1"
    by (auto simp: Let_def split: if_splits)
  show ?case using Cons.IH [OF k(2)] k(1,3-8) by (auto split: if_splits)
qed simp

end
