(* ===== verification/Db_Theorems.thy ===== *)
theory Db_Theorems
  imports Db_Migrate
begin

text \<open>
  The properties of \<^verbatim>\<open>dbtool\<close>.
\<close>

subsection \<open>Checked configurations\<close>

definition table_checked :: "MysqlTable \<Rightarrow> bool" where
  "table_checked t \<longleftrightarrow>
     distinct (map fl_name (tb_fields t))
     \<and> (\<forall>f \<in> set (tb_fields t). fl_type f \<noteq> None \<and> fl_rename_from f \<noteq> Some (fl_name f)
          \<and> (fl_rename_from f = None \<or> fl_modify_type f = None)
          \<and> (fl_auto_incr f \<noteq> None \<longrightarrow> (\<exists>k \<in> set (tb_keys t). fl_name f \<in> set (ky_fields k))))
     \<and> (\<forall>k \<in> set (tb_keys t). ky_type k \<noteq> None \<and> ky_fields k \<noteq> [] \<and> distinct (ky_fields k)
          \<and> set (ky_fields k) \<subseteq> set (map fl_name (tb_fields t))
          \<and> (ky_type k = Some E_KeyType_Primary \<longrightarrow> ky_name k = ''PRIMARY''))
     \<and> length (filter (\<lambda>k. ky_type k = Some E_KeyType_Primary) (tb_keys t)) \<le> 1"

text \<open>Two tables that differ in the names of their keys only.\<close>

definition but_key_names :: "MysqlTable \<Rightarrow> MysqlTable \<Rightarrow> bool" where
  "but_key_names t u \<longleftrightarrow> tb_name u = tb_name t \<and> tb_fields u = tb_fields t
     \<and> map ky_fields (tb_keys u) = map ky_fields (tb_keys t) \<and> map ky_type (tb_keys u) = map ky_type (tb_keys t)"

lemma check_table_sound:
  assumes "check_table t = Some u"
  shows "table_checked u \<and> but_key_names t u \<and> distinct (map ky_name (tb_keys t))"
proof -
  obtain ks where k: "check_fields [] (tb_fields t)" "check_keys (set (map fl_name (tb_fields t))) [] 0 (tb_keys t) = Some ks"
    "list_all (\<lambda>f. fl_auto_incr f \<noteq> None \<longrightarrow> (\<exists>k \<in> set ks. fl_name f \<in> set (ky_fields k))) (tb_fields t)" "u = t\<lparr>tb_keys := ks\<rparr>"
    using assms by (auto simp: check_table_def split: if_splits option.splits)
  show ?thesis using check_fields_sound [OF k(1)] check_keys_sound [OF k(2)] k(3,4)
    by (auto simp: table_checked_def but_key_names_def list_all_iff)
qed

lemma those_list: "those xs = Some ys \<longleftrightarrow> xs = map Some ys"
  by (induction xs arbitrary: ys) (auto split: option.splits)

lemma map_Some_all: "map f xs = map Some ys \<Longrightarrow> (\<And>x y. x \<in> set xs \<Longrightarrow> f x = Some y \<Longrightarrow> P x y) \<Longrightarrow> list_all2 P xs ys"
  by (induction xs arbitrary: ys) (auto simp: map_eq_Cons_conv Cons_eq_map_conv)

text \<open>C28: a configuration that \<^verbatim>\<open>CheckMysqlSyntax\<close> lets through is well formed: the fields of a table have distinct names and a type, none is
  renamed from itself or renamed and modified at once, a field that counts up is in a key, every key has a type and some distinct fields of
  the table, and there is at most one primary key, which is called PRIMARY.  Nothing but names of keys has changed.\<close>

theorem dbtool_config_checked:
  assumes "CheckMysqlSyntax cfg = Some cfg1"
  shows "list_all2 (\<lambda>sc sc1. sc1\<lparr>sc_tables := sc_tables sc\<rparr> = sc
    \<and> list_all2 (\<lambda>t u. table_checked u \<and> but_key_names t u) (sc_tables sc) (sc_tables sc1)) cfg cfg1"
proof -
  have "map (\<lambda>sc. map_option (\<lambda>ts. sc\<lparr>sc_tables := ts\<rparr>) (those (map check_table (sc_tables sc)))) cfg = map Some cfg1"
    using assms by (simp add: CheckMysqlSyntax_def those_list)
  then show ?thesis
  proof (rule map_Some_all, goal_cases)
    case (1 sc sc1)
    then obtain ts where ts: "map check_table (sc_tables sc) = map Some ts" "sc1 = sc\<lparr>sc_tables := ts\<rparr>"
      by (auto simp: those_list)
    have "list_all2 (\<lambda>t u. table_checked u \<and> but_key_names t u) (sc_tables sc) ts"
      by (rule map_Some_all [OF ts(1)]) (use check_table_sound in blast)
    then show ?case using ts(2) by simp
  qed
qed

definition demo_field :: "string \<Rightarrow> MysqlFieldType \<Rightarrow> bool \<Rightarrow> TableField" where
  "demo_field n ty del = \<lparr>fl_name = n, fl_type = Some ty, fl_not_null = False, fl_auto_incr = None, fl_default = [], fl_rename_from = None,
     fl_modify_type = None, fl_varchar_len = 255, fl_is_delete = del\<rparr>"

definition demo_table :: "string \<Rightarrow> MysqlTable" where
  "demo_table key = \<lparr>tb_name = ''box'', tb_fields = [demo_field ''id'' E_FieldType_Int False, demo_field ''name'' E_FieldType_Varchar False,
     demo_field ''size'' E_FieldType_UInt False, demo_field ''old'' E_FieldType_Blob True],
     tb_keys = [\<lparr>ky_name = key, ky_type = Some E_KeyType_Primary, ky_fields = [''id'']\<rparr>]\<rparr>"

lemma demo_checked: "check_table (demo_table key) = Some (demo_table ''PRIMARY'')"
  by (simp add: check_table_def demo_table_def demo_field_def check_field_def Let_def)

theorem dbtool_config_checked_witness:
  "table_checked (demo_table ''PRIMARY'')"
proof -
  let ?c = "\<lambda>k. [\<lparr>sc_ip = ''ip'', sc_port = 3306, sc_user = ''u'', sc_passwd = [], sc_name = ''db'', sc_tables = [demo_table k]\<rparr>]"
  have "CheckMysqlSyntax (?c ''key'') = Some (?c ''PRIMARY'')" by (simp add: CheckMysqlSyntax_def demo_checked)
  from dbtool_config_checked [OF this] show ?thesis by simp
qed

subsection \<open>Migration\<close>

definition cfg_idents :: "MysqlTable \<Rightarrow> bool" where
  "cfg_idents t \<longleftrightarrow> ident (tb_name t)
     \<and> (\<forall>f \<in> set (tb_fields t). ident (fl_name f) \<and> (\<forall>n. fl_rename_from f = Some n \<longrightarrow> ident n))
     \<and> (\<forall>k \<in> set (tb_keys t). ident (ky_name k) \<and> list_all ident (ky_fields k))"

lemma checked_idents: "table_checked t \<Longrightarrow> cfg_idents t \<Longrightarrow> table_idents t"
  unfolding table_checked_def cfg_idents_def table_idents_def key_type_def by (auto split: option.splits)



definition demo_view :: "string list \<Rightarrow> view" where
  "demo_view cols = (\<lambda>n. if n = ''box'' then Some \<lparr>vt_cols = cols, vt_keys = [(''PRIMARY'', [''id''])]\<rparr> else None)"

lemma demo_table_facts:
  "cfg_idents (demo_table ''PRIMARY'')" "distinct (map ky_name (tb_keys (demo_table ''PRIMARY'')))" "tb_name (demo_table ''PRIMARY'') = ''box''"
  "live_names (demo_table ''PRIMARY'') = [''id'', ''name'', ''size'']" "dead_names (demo_table ''PRIMARY'') = [''old'']"
  by (simp_all add: demo_table_def demo_field_def cfg_idents_def ident_def live_names_def live_fields_def dead_names_def)





text \<open>C17: whatever the server answers, a change that fails on the copy of a table, or the failing copy itself, makes \<^verbatim>\<open>CreateTable\<close> return -1, and no table
  but the copy has been touched.\<close>

theorem dbtool_trial_protects:
  assumes "mysql_local M c view" "check_table t0 = Some t" "cfg_idents t"
    and "GetTableFields M c schema (tb_name t) s = ((0, old), s1)" "old \<noteq> []"
    and "CopyTable M c (tb_name t @ ''_tmp'') (tb_name t) s1 = (r, s2)"
    and "r \<noteq> 0 \<or> fst (ChangeTable M c schema (t\<lparr>tb_name := tb_name t @ ''_tmp''\<rparr>) s2) \<noteq> 0"
  shows "\<exists>s3. CreateTable M c schema t s = (-1, s3) \<and> (\<forall>x. x \<noteq> tb_name t @ ''_tmp'' \<longrightarrow> view s3 x = view s x)"
proof -
  let ?m = "tb_name t @ ''_tmp''"
  let ?t = "t\<lparr>tb_name := ?m\<rparr>"
  have i: "table_idents t" using checked_idents [OF _ assms(3)] check_table_sound [OF assms(2)] by simp
  then have i2: "ident (tb_name t)" "ident ?m" "table_idents ?t" by (auto simp: table_idents_def intro: ident_tmp)
  have v1: "view s1 = view s" by (rule query_leaves [OF assms(1) i2(1) assms(4)])
  have v2: "view s2 x = view s x" if "x \<noteq> ?m" for x
    using leavesD [OF copy_leaves [OF assms(1) i2(2,1) that], of s1] assms(6) v1 by simp
  show ?thesis
  proof (cases "r = 0")
    case False
    then show ?thesis using assms(4-6) v2 by (simp add: CreateTable_def sql_then_def Let_def)
  next
    case True
    obtain r3 s3 where c: "ChangeTable M c schema ?t s2 = (r3, s3)" by fastforce
    obtain r4 s4 where d: "DropTable M c ?m s3 = (r4, s4)" by fastforce
    have "view s4 x = view s x" if "x \<noteq> ?m" for x
      using leavesD [OF change_leaves [OF assms(1) i2(3)], of x schema s2] leavesD [OF drop_leaves [OF assms(1) i2(2) that], of s3]
        that c d v2 [OF that] by simp
    moreover have "r3 \<noteq> 0" using assms(7) True c by simp
    ultimately show ?thesis using True assms(4-6) c d by (simp add: CreateTable_def sql_then_def Let_def)
  qed
qed

theorem dbtool_trial_protects_witness:
  "\<exists>s3. CreateTable mysql_server 1 ''db'' (demo_table ''PRIMARY'') (demo_view [''id'', ''extra'']) = (-1, s3)
    \<and> s3 ''box'' = demo_view [''id'', ''extra''] ''box''"
proof -
  let ?t = "demo_table ''PRIMARY''"
  let ?V = "demo_view [''id'', ''extra'']"
  have q: "GetTableFields mysql_server 1 ''db'' (tb_name ?t) ?V = ((0, [''id'', ''extra'']), ?V)"
    using srv_query_sql(1) [of "''box''" "''db''" ?V]
    by (simp add: GetTableFields_def mysql_server_def demo_table_facts demo_view_def ident_def)
  have c: "fst (ChangeTable mysql_server 1 ''db'' (?t\<lparr>tb_name := tb_name ?t @ ''_tmp''\<rparr>)
      (snd (CopyTable mysql_server 1 (tb_name ?t @ ''_tmp'') (tb_name ?t) ?V))) \<noteq> 0"
    by code_simp
  show ?thesis
    using dbtool_trial_protects [OF server_local demo_checked demo_table_facts(1) q _ prod.collapse [symmetric]] c
    by (auto simp: demo_table_facts)
qed

end
