(* ===== verification/String_Util.thy ===== *)
theory String_Util
  imports Prelude
begin

text \<open>
  \<^verbatim>\<open>slience/base/string_util\<close> and the times of day of \<^verbatim>\<open>base/util.cpp\<close>.
\<close>

subsection \<open>Paths\<close>

text \<open>The part before and the part behind the last \<^term>\<open>c\<close>.\<close>

definition split_last :: "char \<Rightarrow> string \<Rightarrow> (string \<times> string) option" where
  "split_last c p =
     (if c \<in> set p then Some (rev (tl (dropWhile (\<lambda>x. x \<noteq> c) (rev p))), rev (takeWhile (\<lambda>x. x \<noteq> c) (rev p))) else None)"

definition basename :: "string \<Rightarrow> string" where
  "basename path =
     (case split_last (CHR 0x5C) path of
        Some (_, b) \<Rightarrow> b
      | None \<Rightarrow> (case split_last (CHR ''/'') path of Some (_, b) \<Rightarrow> b | None \<Rightarrow> path))"

definition directory :: "string \<Rightarrow> string" where
  "directory path =
     (case split_last (CHR 0x5C) path of
        Some (d, _) \<Rightarrow> d
      | None \<Rightarrow> (case split_last (CHR ''/'') path of Some (d, _) \<Rightarrow> d | None \<Rightarrow> path))"

text \<open>\<^verbatim>\<open>rfind\<close>: the last position the text stands at.\<close>

definition rfind :: "string \<Rightarrow> string \<Rightarrow> nat option" where
  "rfind tar src = find (\<lambda>i. take (length tar) (drop i src) = tar) (rev [0..<length src + 1])"

definition remove_from_end :: "string \<Rightarrow> string \<Rightarrow> string" where
  "remove_from_end src tar = (case rfind tar src of Some pos \<Rightarrow> take pos src | None \<Rightarrow> src)"

subsection \<open>\<^verbatim>\<open>Split\<close>\<close>

text \<open>An element is \<^term>\<open>None\<close> when it is not initialised: between two separators nothing is read into it, and a stream of blanks
  leaves it as it was.  The separator is a set of characters, but as many are skipped as it has; behind the end \<^verbatim>\<open>substr\<close> throws, and the
  result is \<^term>\<open>None\<close>.\<close>

function Split :: "(string \<Rightarrow> 'a option) \<Rightarrow> string \<Rightarrow> string \<Rightarrow> 'a option list option" where
  "Split rd sep src =
     (let sub = takeWhile (\<lambda>c. c \<notin> set sep) src;
          rest = dropWhile (\<lambda>c. c \<notin> set sep) src
      in if rest = [] then Some (if sub = [] then [] else [rd sub])
         else if length rest < length sep then None
         else map_option (Cons (if sub = [] then None else rd sub)) (Split rd sep (drop (length sep) rest)))"
  by auto
termination
proof (relation "measure (\<lambda>(rd, sep, src). length src)", goal_cases)
  case (2 rd sep src sub rest)
  have "sep \<noteq> []" using 2(1,2,3) by (cases sep) (auto simp: dropWhile_eq_Nil_conv)
  moreover have "length rest \<le> length src" using 2(2) by (simp add: length_dropWhile_le)
  ultimately show ?case using 2(3) by (cases rest) (auto simp: length_greater_0_conv [symmetric] simp del: length_greater_0_conv)
qed simp

declare Split.simps [simp del]

definition c_digit :: "char \<Rightarrow> bool" where "c_digit c \<longleftrightarrow> 48 \<le> (of_char c :: nat) \<and> (of_char c :: nat) \<le> 57"

definition c_space :: "char \<Rightarrow> bool" where
  "c_space c \<longleftrightarrow> (of_char c :: nat) = 32 \<or> (9 \<le> (of_char c :: nat) \<and> (of_char c :: nat) \<le> 13)"

text \<open>\<^verbatim>\<open>iss >> t\<close> for an \<^verbatim>\<open>int\<close>: 0 when there is no number, the nearest value when it is too large.\<close>

definition read_int :: "string \<Rightarrow> int option" where
  "read_int s =
     (let t = dropWhile c_space s;
          neg = (t \<noteq> [] \<and> hd t = CHR ''-'');
          u = (if t \<noteq> [] \<and> (hd t = CHR ''-'' \<or> hd t = CHR ''+'') then tl t else t);
          v = foldl (\<lambda>n c. 10 * n + (int (of_char c) - 48)) 0 (takeWhile c_digit u)
      in if t = [] then None
         else Some (if neg then max (- (2 ^ 31)) (- v) else min (2 ^ 31 - 1) v))"

subsection \<open>Times of day\<close>

text \<open>Products of \<^verbatim>\<open>int\<close>; \<^term>\<open>None\<close> is an overflow or a value that is not initialised.\<close>

definition int_mult :: "int option \<Rightarrow> int \<Rightarrow> int option" where
  "int_mult a k = Option.bind a (\<lambda>n. if - (2 ^ 31) \<le> n * k \<and> n * k < 2 ^ 31 then Some (n * k) else None)"

definition HmsToSecond :: "string \<Rightarrow> int option" where
  "HmsToSecond hms =
     (case Split read_int '':'' hms of
        Some [h, m, s] \<Rightarrow>
          Option.bind (int_mult h 3600) (\<lambda>a. Option.bind (int_mult m 60) (\<lambda>b. map_option (\<lambda>c. a + b + c) s))
      | Some _ \<Rightarrow> Some 0
      | None \<Rightarrow> None)"

text \<open>\<^term>\<open>midnight now\<close> is \<^verbatim>\<open>mktime\<close>, which takes local time, of midnight of the day that \<^verbatim>\<open>gmtime\<close> gives for \<^term>\<open>now\<close>.\<close>

definition CertainTimesOfDay :: "(int \<Rightarrow> int) \<Rightarrow> int \<Rightarrow> string \<Rightarrow> int option" where
  "CertainTimesOfDay midnight now hms = map_option (\<lambda>s. midnight now + s) (HmsToSecond hms)"

partial_function (option) closest_loop :: "int \<Rightarrow> int \<Rightarrow> int \<Rightarrow> int option" where
  "closest_loop now peroid next_time =
     (if now \<ge> next_time then closest_loop now peroid (next_time + peroid) else Some next_time)"

definition ClosestTimeOfDay :: "(int \<Rightarrow> int) \<Rightarrow> int \<Rightarrow> int \<Rightarrow> int option" where
  "ClosestTimeOfDay midnight now peroid =
     Option.bind (CertainTimesOfDay midnight now ''00:00:00'') (closest_loop now peroid)"

subsection \<open>Facts\<close>

lemma split_last_append: "split_last c p = Some (d, b) \<Longrightarrow> p = d @ c # b \<and> c \<notin> set b"
proof -
  assume a: "split_last c p = Some (d, b)"
  then have c: "c \<in> set (rev p)" and d: "d = rev (tl (dropWhile (\<lambda>x. x \<noteq> c) (rev p)))" "b = rev (takeWhile (\<lambda>x. x \<noteq> c) (rev p))"
    by (auto simp: split_last_def split: if_splits)
  have "dropWhile (\<lambda>x. x \<noteq> c) (rev p) \<noteq> []" using c by (auto simp: dropWhile_eq_Nil_conv)
  then have "dropWhile (\<lambda>x. x \<noteq> c) (rev p) = c # tl (dropWhile (\<lambda>x. x \<noteq> c) (rev p))"
    using hd_dropWhile [of "\<lambda>x. x \<noteq> c" "rev p"] by (metis list.collapse)
  then have "rev p = takeWhile (\<lambda>x. x \<noteq> c) (rev p) @ c # tl (dropWhile (\<lambda>x. x \<noteq> c) (rev p))"
    using takeWhile_dropWhile_id [of "\<lambda>x. x \<noteq> c" "rev p"] by metis
  then have "rev (rev p) = rev (takeWhile (\<lambda>x. x \<noteq> c) (rev p) @ c # tl (dropWhile (\<lambda>x. x \<noteq> c) (rev p)))" by (rule arg_cong)
  moreover have "c \<notin> set b" unfolding d(2) by (auto dest: set_takeWhileD)
  ultimately show ?thesis using d by simp
qed

lemma midnight_hms: "HmsToSecond ''00:00:00'' = Some 0"
  by (simp add: HmsToSecond_def Split.simps read_int_def c_space_def c_digit_def int_mult_def Let_def)

lemma closest_step: "0 < p \<Longrightarrow> closest_loop now p t = Some (if now < t then t else t + p * ((now - t) div p + 1))"
proof (induction "nat (now - t + 1)" arbitrary: t rule: less_induct)
  case less
  show ?case
  proof (cases "now < t")
    case True
    then show ?thesis by (subst closest_loop.simps) simp
  next
    case False
    have "closest_loop now p (t + p) = Some (if now < t + p then t + p else t + p + p * ((now - (t + p)) div p + 1))"
      by (rule less.hyps) (use False less.prems in simp_all)
    moreover have "(now - t) div p = (now - (t + p)) div p + 1"
      using less.prems div_add_self2 [of p "now - (t + p)"] by (simp add: algebra_simps)
    moreover have "now < t + p \<Longrightarrow> (now - t) div p = 0" using False by simp
    ultimately have "closest_loop now p (t + p) = Some (t + p * ((now - t) div p + 1))"
      by (cases "now < t + p") (simp_all add: algebra_simps)
    then show ?thesis using False by (subst closest_loop.simps) simp
  qed
qed

text \<open>Without a period the loop goes on for ever.\<close>

lemma closest_hangs: "p \<le> 0 \<Longrightarrow> t \<le> now \<Longrightarrow> closest_loop now p t = None"
proof (rule ccontr)
  assume p: "p \<le> 0" and t: "t \<le> now" and "closest_loop now p t \<noteq> None"
  then obtain r where r: "closest_loop now p t = Some r" by auto
  have "p \<le> 0 \<longrightarrow> now < t"
    by (rule closest_loop.raw_induct [OF _ r, of "\<lambda>now p t r. p \<le> 0 \<longrightarrow> now < t"]) (fastforce split: if_splits)
  then show False using p t by simp
qed

end
