(* ===== verification/Agent.thy ===== *)
theory Agent
  imports Net_Handler Links String_Util
begin

text \<open>
  The server agent, \<^verbatim>\<open>server_agent/server_agent.cpp\<close>: it runs the commands that are sent to it, restarts servers that
  do not answer their check, and runs scripts at given times.  The operating system is a
  parameter over a state of its own.
\<close>

record Instance =
  ai_name :: string
  ai_start_cmd :: string
  ai_stop_cmd :: string
  ai_clean_cmd :: string
  ai_check_cmd :: string
  ai_check_cnt :: u32

datatype ScriptType = E_SCRIPT_TYPE_CERTAIN_TIME | E_SCRIPT_TYPE_PERIOD_TIME

record ScriptInfo =
  sr_type :: ScriptType
  sr_script :: string
  sr_interval :: u32
  sr_certain_time :: string
  sr_next :: "u32 option"
  sr_dir :: string

text \<open>\<^verbatim>\<open>system\<close>, \<^verbatim>\<open>getcwd\<close>, \<^verbatim>\<open>chdir\<close>, the file of the agent, and \<^verbatim>\<open>mktime\<close> of midnight.\<close>

record 's os =
  os_system :: "string \<Rightarrow> 's \<Rightarrow> int \<times> 's"
  os_getcwd :: "'s \<Rightarrow> string"
  os_chdir :: "string \<Rightarrow> 's \<Rightarrow> 's"
  os_load :: "'s \<Rightarrow> int \<times> Instance list"
  os_save :: "Instance list \<Rightarrow> 's \<Rightarrow> 's"
  os_midnight :: "int \<Rightarrow> int"

text \<open>The request as it is parsed, the answer by whether and to what \<^verbatim>\<open>ret\<close> is set.\<close>

record agent_msgs =
  am_parse :: "byte list \<Rightarrow> (Instance \<times> string) option"
  am_answer :: "int option \<Rightarrow> byte list"

record 's agent =
  ag_os :: 's
  ag_nh :: nh
  ag_insts :: "Instance list"
  ag_scripts :: "ScriptInfo list"
  ag_max_pullup :: u32
  ag_next_check :: "int option"

definition CMD_EXECUTE_OMMAND_REQ :: u32 where "CMD_EXECUTE_OMMAND_REQ = 256"
definition CMD_EXECUTE_OMMAND_RSP :: u32 where "CMD_EXECUTE_OMMAND_RSP = 257"

definition System :: "'s os \<Rightarrow> string \<Rightarrow> 's agent \<Rightarrow> int \<times> 's agent" where
  "System P command a = (case os_system P command (ag_os a) of (r, s) \<Rightarrow> (r, a\<lparr>ag_os := s\<rparr>))"

subsection \<open>Instances\<close>

definition GetInstance :: "string \<Rightarrow> 's agent \<Rightarrow> Instance option" where
  "GetInstance name a = find (\<lambda>i. ai_name i = name) (ag_insts a)"

definition SaveAgentDataFile :: "'s os \<Rightarrow> 's agent \<Rightarrow> 's agent" where
  "SaveAgentDataFile P a = a\<lparr>ag_os := os_save P (ag_insts a) (ag_os a)\<rparr>"

text \<open>\<^verbatim>\<open>if (!item) return;\<close>\<close>

definition AddInstance :: "'s os \<Rightarrow> Instance \<Rightarrow> 's agent \<Rightarrow> 's agent" where
  "AddInstance P i a =
     (if GetInstance (ai_name i) a = None then a
      else SaveAgentDataFile P (a\<lparr>ag_insts := ag_insts a @ [i]\<rparr>))"

fun del_first :: "string \<Rightarrow> Instance list \<Rightarrow> Instance list" where
  "del_first name [] = []"
| "del_first name (i # is) = (if ai_name i = name then is else i # del_first name is)"

definition DelInstance :: "string \<Rightarrow> 's agent \<Rightarrow> 's agent" where
  "DelInstance name a = a\<lparr>ag_insts := del_first name (ag_insts a)\<rparr>"

definition LoadAgentDataFile :: "'s os \<Rightarrow> 's agent \<Rightarrow> int \<times> 's agent" where
  "LoadAgentDataFile P a = (case os_load P (ag_os a) of (r, is) \<Rightarrow> (r, if r = -1 then a else a\<lparr>ag_insts := is\<rparr>))"

text \<open>\<^verbatim>\<open>CheckAlive\<close>: the loop is over copies of the instances, so \<^verbatim>\<open>set_check_cnt\<close> changes a copy that is gone afterwards.
  The names to delete, and the state.\<close>

fun check_instances :: "'s os \<Rightarrow> Instance list \<Rightarrow> 's agent \<Rightarrow> string list \<times> 's agent" where
  "check_instances P [] a = ([], a)"
| "check_instances P (i # is) a =
     (if ai_check_cmd i = [] then check_instances P is a
      else case System P (ai_check_cmd i) a of
        (r, a1) \<Rightarrow>
          if r = 0 then check_instances P is a1
          else if ag_max_pullup a1 < ai_check_cnt i then apfst (Cons (ai_name i)) (check_instances P is a1)
          else check_instances P is (snd (System P (ai_start_cmd i) a1)))"

definition CheckAlive :: "'s os \<Rightarrow> 's agent \<Rightarrow> 's agent" where
  "CheckAlive P a = (case check_instances P (ag_insts a) a of (del, a1) \<Rightarrow> fold DelInstance del a1)"

subsection \<open>Scripts\<close>

definition script_time :: "'s os \<Rightarrow> int \<Rightarrow> ScriptInfo \<Rightarrow> int option" where
  "script_time P now sc =
     (case sr_type sc of
        E_SCRIPT_TYPE_CERTAIN_TIME \<Rightarrow>
          map_option (\<lambda>t. if now \<ge> t then t + 24 * 3600 else t) (CertainTimesOfDay (os_midnight P) now (sr_certain_time sc))
      | E_SCRIPT_TYPE_PERIOD_TIME \<Rightarrow> ClosestTimeOfDay (os_midnight P) now (uint (sr_interval sc)))"

definition exec_script :: "'s os \<Rightarrow> int \<Rightarrow> ScriptInfo \<Rightarrow> 's agent \<Rightarrow> (ScriptInfo \<times> 's agent) mem" where
  "exec_script P now sc a =
     Option.bind (script_time P now sc)
       (\<lambda>next_time.
          let due = (case sr_next sc of None \<Rightarrow> word_of_int next_time | Some n \<Rightarrow> n)
          in if now < uint due then Some (sc\<lparr>sr_next := Some due\<rparr>, a)
             else
               let cwd = os_getcwd P (ag_os a);
                   a1 = a\<lparr>ag_os := os_chdir P (sr_dir sc) (ag_os a)\<rparr>;
                   a2 = snd (System P (sr_script sc) a1);
                   a3 = a2\<lparr>ag_os := os_chdir P cwd (ag_os a2)\<rparr>
               in Some (sc\<lparr>sr_next := Some (word_of_int next_time)\<rparr>, a3))"

fun exec_scripts :: "'s os \<Rightarrow> int \<Rightarrow> ScriptInfo list \<Rightarrow> 's agent \<Rightarrow> (ScriptInfo list \<times> 's agent) mem" where
  "exec_scripts P now [] a = Some ([], a)"
| "exec_scripts P now (sc # scs) a =
     Option.bind (exec_script P now sc a) (\<lambda>(sc1, a1). map_option (apfst (Cons sc1)) (exec_scripts P now scs a1))"

definition ExecuteScript :: "'s os \<Rightarrow> int \<Rightarrow> 's agent \<Rightarrow> 's agent mem" where
  "ExecuteScript P now a = map_option (\<lambda>(scs, a1). a1\<lparr>ag_scripts := scs\<rparr>) (exec_scripts P now (ag_scripts a) a)"

subsection \<open>Commands\<close>

text \<open>The results are the answer's \<^verbatim>\<open>ret\<close>, when it is set, and the return value.\<close>

definition OnCmd :: "'s os \<Rightarrow> string \<Rightarrow> 's agent \<Rightarrow> int option \<times> int \<times> 's agent" where
  "OnCmd P command a = (case System P command a of (r, a1) \<Rightarrow> if r \<noteq> 0 then (Some (-1), -1, a1) else (None, 0, a1))"

definition OnStartCmd :: "'s os \<Rightarrow> Instance \<Rightarrow> string \<Rightarrow> 's agent \<Rightarrow> int option \<times> int \<times> 's agent" where
  "OnStartCmd P i command a =
     (case OnCmd P command a of (ret, r, a1) \<Rightarrow> if r = 0 then (ret, 0, AddInstance P i a1) else (ret, -1, a1))"

definition OnStopCmd :: "'s os \<Rightarrow> Instance \<Rightarrow> string \<Rightarrow> 's agent \<Rightarrow> int option \<times> int \<times> 's agent" where
  "OnStopCmd P i command a = (case OnCmd P command a of (ret, r, a1) \<Rightarrow> (ret, r, DelInstance (ai_name i) a1))"

definition OnCleanCmd :: "'s os \<Rightarrow> Instance \<Rightarrow> string \<Rightarrow> 's agent \<Rightarrow> int option \<times> int \<times> 's agent" where
  "OnCleanCmd P i command a = OnCmd P command a"

definition OnCheckCmd :: "'s os \<Rightarrow> Instance \<Rightarrow> string \<Rightarrow> 's agent \<Rightarrow> int option \<times> int \<times> 's agent" where
  "OnCheckCmd P i command a = OnCmd P command a"

definition agent_command :: "'s os \<Rightarrow> Instance \<Rightarrow> string \<Rightarrow> 's agent \<Rightarrow> int option \<times> int \<times> 's agent" where
  "agent_command P i command =
     (if command = ai_start_cmd i then OnStartCmd P i command
      else if command = ai_stop_cmd i then OnStopCmd P i command
      else if command = ai_clean_cmd i then OnCleanCmd P i command
      else if command = ai_check_cmd i then OnCheckCmd P i command
      else OnCmd P command)"

definition Agent_OnProc :: "'s os \<Rightarrow> agent_msgs \<Rightarrow> net_call \<Rightarrow> 's agent \<Rightarrow> (int \<times> 's agent) mem" where
  "Agent_OnProc P Q c a =
     (if cmd (nc_frame c) = CMD_EXECUTE_OMMAND_REQ then
        case am_parse Q (take (unat (nc_len c)) (nc_data c)) of
          None \<Rightarrow> Some (-1, a)
        | Some (i, cm) \<Rightarrow>
            (case agent_command P i cm a of
               (ret, _, a1) \<Rightarrow>
                 let body = am_answer Q ret;
                     f = af_new\<lparr>cmd := CMD_EXECUTE_OMMAND_RSP, cmd_length := word_of_nat (length body)\<rparr>
                 in map_option (\<lambda>(_, _, h). (0, a1\<lparr>ag_nh := h\<rparr>)) (send_frame (nc_fd c) f body buf_new (ag_nh a1)))
      else Some (-1, a))"

subsection \<open>Start and tick\<close>

definition Agent_OnInit :: "'s os \<Rightarrow> bool \<Rightarrow> 's agent \<Rightarrow> int \<times> 's agent" where
  "Agent_OnInit P listening a = (if \<not> listening then (-1, a) else (0, snd (LoadAgentDataFile P a)))"

text \<open>\<^verbatim>\<open>OnReload\<close>: whether the configuration parses, and what parsing leaves in it; the times of the scripts are those of the file.\<close>

definition Agent_OnReload :: "bool \<times> ScriptInfo list \<times> u32 \<Rightarrow> 's agent \<Rightarrow> int \<times> 's agent" where
  "Agent_OnReload conf a = (case conf of (ok, scs, n) \<Rightarrow> (if ok then 0 else -1, a\<lparr>ag_scripts := scs, ag_max_pullup := n\<rparr>))"

text \<open>\<^verbatim>\<open>OnTick\<close>; \<^verbatim>\<open>next_check_alive\<close> is a static variable, set at the first call.\<close>

definition Agent_OnTick :: "'s os \<Rightarrow> int \<Rightarrow> 's agent \<Rightarrow> 's agent mem" where
  "Agent_OnTick P now a =
     Option.bind (ExecuteScript P now (a\<lparr>ag_nh := CheckTcpSocketExpire (ag_nh a)\<rparr>))
       (\<lambda>a1.
          let n = (case ag_next_check a1 of None \<Rightarrow> now | Some n \<Rightarrow> n)
          in if now \<ge> n then Some ((CheckAlive P a1)\<lparr>ag_next_check := Some (now + 10)\<rparr>)
             else Some (a1\<lparr>ag_next_check := Some n\<rparr>))"

end
