(* ===== verification/Agent_Props.thy ===== *)
theory Agent_Props
  imports Agent Links_Props
begin

text \<open>
  What the server agent does with its instances and with its scripts.
\<close>

subsection \<open>Instances\<close>

lemma System_sel [simp]:
  "ag_insts (snd (System P c a)) = ag_insts a" "ag_max_pullup (snd (System P c a)) = ag_max_pullup a"
  "ag_scripts (snd (System P c a)) = ag_scripts a"
  by (simp_all add: System_def split: prod.split)

lemma System_split: "System P c a = (r, a1) \<Longrightarrow> ag_insts a1 = ag_insts a \<and> ag_max_pullup a1 = ag_max_pullup a"
  using System_sel [of P c a] by simp

lemma set_del_first: "set (del_first n is) \<subseteq> set is"
  by (induction "is") auto

lemma DelInstance_names: "set (ag_insts (DelInstance n a)) \<subseteq> set (ag_insts a)"
  by (simp add: DelInstance_def set_del_first)

lemma fold_DelInstance: "set (ag_insts (fold DelInstance ns a)) \<subseteq> set (ag_insts a)"
proof (induction ns arbitrary: a)
  case (Cons n ns)
  then show ?case using DelInstance_names [of n a] by fastforce
qed simp

lemma check_instances_sel: "ag_insts (snd (check_instances P is a)) = ag_insts a"
  by (induction "is" arbitrary: a) (auto split: prod.split dest: System_split)

lemma CheckAlive_names: "set (ag_insts (CheckAlive P a)) \<subseteq> set (ag_insts a)"
proof -
  obtain del b where c: "check_instances P (ag_insts a) a = (del, b)" by (rule prod.exhaust)
  then have "ag_insts b = ag_insts a" using check_instances_sel [of P "ag_insts a" a] by simp
  then show ?thesis using fold_DelInstance [of del b] c by (simp add: CheckAlive_def)
qed

definition names :: "'s agent \<Rightarrow> string set" where
  "names a = ai_name ` set (ag_insts a)"

lemma AddInstance_names: "names (AddInstance P i a) \<subseteq> names a"
  by (auto simp: AddInstance_def SaveAgentDataFile_def GetInstance_def names_def find_None_iff split: if_splits intro: rev_image_eqI)

lemma DelInstance_shrinks: "names (DelInstance n a) \<subseteq> names a"
  using DelInstance_names [of n a] by (auto simp: names_def)

lemma OnCmd_names: "OnCmd P c a = (ret, r, a1) \<Longrightarrow> names a1 = names a"
  by (auto simp: OnCmd_def names_def split: prod.splits if_splits dest!: System_split)

lemma agent_command_names: "agent_command P i c a = (ret, r, a1) \<Longrightarrow> names a1 \<subseteq> names a"
proof -
  obtain t q b where o: "OnCmd P c a = (t, q, b)" by (rule prod_cases3)
  assume "agent_command P i c a = (ret, r, a1)"
  then show ?thesis
    using o OnCmd_names [OF o] AddInstance_names [of P i b] DelInstance_shrinks [of "ai_name i" b]
    by (auto simp: agent_command_def OnStartCmd_def OnStopCmd_def OnCleanCmd_def OnCheckCmd_def split: if_splits)
qed

lemma exec_script_sel: "exec_script P now sc a = Some (sc1, a1) \<Longrightarrow> ag_insts a1 = ag_insts a"
  by (auto simp: exec_script_def bind_eq_Some_conv Let_def split: if_splits)

lemma exec_scripts_sel: "exec_scripts P now scs a = Some (scs1, a1) \<Longrightarrow> ag_insts a1 = ag_insts a"
  by (induction scs arbitrary: a a1 scs1) (auto simp: bind_eq_Some_conv dest!: exec_script_sel)

text \<open>Everything the loop of the agent does behind its start.\<close>

inductive agent_run :: "'s os \<Rightarrow> agent_msgs \<Rightarrow> 's agent \<Rightarrow> 's agent \<Rightarrow> bool" for P Q where
  start: "agent_run P Q a a"
| proc: "agent_run P Q a b \<Longrightarrow> Agent_OnProc P Q c b = Some (r, d) \<Longrightarrow> agent_run P Q a d"
| tick: "agent_run P Q a b \<Longrightarrow> Agent_OnTick P now b = Some d \<Longrightarrow> agent_run P Q a d"
| reload: "agent_run P Q a b \<Longrightarrow> agent_run P Q a (snd (Agent_OnReload conf b))"
| network: "agent_run P Q a b \<Longrightarrow> agent_run P Q a (b\<lparr>ag_nh := h\<rparr>)"

lemma OnProc_names: "Agent_OnProc P Q c b = Some (r, d) \<Longrightarrow> names d \<subseteq> names b"
  by (auto simp: Agent_OnProc_def names_def Let_def split: if_splits option.splits prod.splits dest!: agent_command_names subsetD)

lemma OnTick_names: "Agent_OnTick P now b = Some d \<Longrightarrow> names d \<subseteq> names b"
  using CheckAlive_names
  by (fastforce simp: Agent_OnTick_def ExecuteScript_def bind_eq_Some_conv Let_def names_def split: if_splits dest!: exec_scripts_sel)

text \<open>C33: the agent never watches a server it did not know when it started: whatever commands it gets, every instance in its list has a name
  that was in the list of its file (\<^verbatim>\<open>AddInstance\<close> returns when the instance is not there yet).  With an empty file \<^verbatim>\<open>CheckAlive\<close>
  never does anything.\<close>

theorem agent_never_adds:
  assumes "agent_run P Q a b"
  shows "names b \<subseteq> names a \<and> (ag_insts a = [] \<longrightarrow> CheckAlive P b = b)"
proof -
  have "names b \<subseteq> names a"
    using assms
    by (induction rule: agent_run.induct) (auto simp: names_def Agent_OnReload_def split: prod.split dest!: OnProc_names [unfolded names_def] OnTick_names [unfolded names_def] subsetD)
  moreover have "CheckAlive P b = b" if "names b = {}"
    using that by (simp add: names_def CheckAlive_def)
  ultimately show ?thesis by (auto simp: names_def)
qed

definition demo_os :: "string list os" where
  "demo_os = \<lparr>os_system = (\<lambda>c s. (if c = ''check'' then 1 else 0, s @ [c])), os_getcwd = (\<lambda>s. ''/''), os_chdir = (\<lambda>d s. s),
     os_load = (\<lambda>s. (0, [])), os_save = (\<lambda>is s. s), os_midnight = (\<lambda>now. 86400 * (now div 86400) - 28800)\<rparr>"

definition demo_agent :: "nh \<Rightarrow> string list agent" where
  "demo_agent h = \<lparr>ag_os = [], ag_nh = h, ag_insts = [\<lparr>ai_name = ''conn'', ai_start_cmd = ''start'', ai_stop_cmd = ''stop'', ai_clean_cmd = ''clean'',
     ai_check_cmd = ''check'', ai_check_cnt = 0\<rparr>], ag_scripts = [], ag_max_pullup = 1, ag_next_check = None\<rparr>"

text \<open>Starting a server the agent does not know: the command runs, the answer goes out, and nothing is watched.\<close>

definition start_conn :: "string list agent" where
  "start_conn = (demo_agent nh_demo)\<lparr>ag_insts := []\<rparr>"

definition demo_msgs :: agent_msgs where
  "demo_msgs = \<lparr>am_parse = (\<lambda>b. if b = [1] then Some (hd (ag_insts (demo_agent nh_demo)), ''start'') else None), am_answer = (\<lambda>r. [])\<rparr>"

definition start_call :: net_call where
  "start_call = \<lparr>nc_fd = 0, nc_frame = af_new\<lparr>cmd := 256\<rparr>, nc_data = [1], nc_len = 1\<rparr>"

theorem agent_never_adds_witness:
  "\<exists>d. Agent_OnProc demo_os demo_msgs start_call start_conn = Some (0, d) \<and> ag_os d = [''start''] \<and> names d \<subseteq> names start_conn
     \<and> CheckAlive demo_os d = d"
proof -
  have "unat (buf_Size buf_new) + 50 + length ([] :: byte list) < buf_limit" by (simp add: buf_new_def buf_Size_def buf_limit_def)
  from send_frame_spec [OF buf_ok_new this, of "af_new\<lparr>cmd := 257, cmd_length := 0\<rparr>" "af_new\<lparr>cmd := 257, cmd_length := 0\<rparr>" "[]" 0 nh_demo]
  obtain b' where "send_frame 0 (af_new\<lparr>cmd := 257, cmd_length := 0\<rparr>) [] buf_new nh_demo = Some (-1, b', nh_demo)"
    by (auto simp: packet_to_def fd_ctx_def nh_demo_def ctx_find_def buf_new_def buf_Data_def)
  then have run: "Agent_OnProc demo_os demo_msgs start_call start_conn = Some (0, start_conn\<lparr>ag_os := [''start'']\<rparr>)"
    by (simp add: Agent_OnProc_def demo_msgs_def start_call_def start_conn_def demo_agent_def demo_os_def af_new_def CMD_EXECUTE_OMMAND_REQ_def
        CMD_EXECUTE_OMMAND_RSP_def agent_command_def OnStartCmd_def OnCmd_def System_def AddInstance_def GetInstance_def)
  then have "agent_run demo_os demo_msgs start_conn (start_conn\<lparr>ag_os := [''start'']\<rparr>)"
    by (rule agent_run.proc [OF agent_run.start])
  from agent_never_adds [OF this] run show ?thesis by (simp add: start_conn_def)
qed

text \<open>What a failed check runs.\<close>

definition pull_up :: "'s os \<Rightarrow> Instance \<Rightarrow> 's \<Rightarrow> 's" where
  "pull_up P i s = snd (os_system P (ai_start_cmd i) (snd (os_system P (ai_check_cmd i) s)))"

definition watched :: "'s agent \<Rightarrow> Instance list" where
  "watched a = filter (\<lambda>i. ai_check_cmd i \<noteq> []) (ag_insts a)"

lemma check_instances_down:
  assumes "\<forall>i \<in> set is. (\<forall>s. fst (os_system P (ai_check_cmd i) s) \<noteq> 0) \<and> ai_check_cnt i \<le> ag_max_pullup a"
  shows "check_instances P is a = ([], a\<lparr>ag_os := fold (pull_up P) (filter (\<lambda>i. ai_check_cmd i \<noteq> []) is) (ag_os a)\<rparr>)"
  using assms
proof (induction "is" arbitrary: a)
  case (Cons i "is")
  have "System P c a = (fst (os_system P c (ag_os a)), a\<lparr>ag_os := snd (os_system P c (ag_os a))\<rparr>)" for c and a :: "'a agent"
    by (simp add: System_def split: prod.split)
  then show ?case using Cons by (auto simp: pull_up_def not_less)
qed simp

text \<open>C34: a server that does not come up is started again at every check, for ever: \<^verbatim>\<open>check_cnt\<close> is counted on a copy, so the limit
  \<^verbatim>\<open>max_pullup_server_cnt\<close> is never reached and no instance is given up.\<close>

theorem agent_restarts_forever:
  assumes "\<forall>i \<in> set (ag_insts a). (\<forall>s. fst (os_system P (ai_check_cmd i) s) \<noteq> 0) \<and> ai_check_cnt i \<le> ag_max_pullup a"
  shows "(CheckAlive P ^^ n) a = a\<lparr>ag_os := (fold (pull_up P) (watched a) ^^ n) (ag_os a)\<rparr>"
proof (induction n)
  case (Suc n)
  have "CheckAlive P (a\<lparr>ag_os := s\<rparr>) = a\<lparr>ag_os := fold (pull_up P) (watched a) s\<rparr>" for s
    using check_instances_down [of "ag_insts a" P "a\<lparr>ag_os := s\<rparr>"] assms by (simp add: CheckAlive_def watched_def)
  then show ?case using Suc by simp
qed simp

theorem agent_restarts_forever_witness:
  "ag_os ((CheckAlive demo_os ^^ 3) (demo_agent nh_demo)) = [''check'', ''start'', ''check'', ''start'', ''check'', ''start'']"
proof -
  have "(CheckAlive demo_os ^^ 3) (demo_agent nh_demo)
    = (demo_agent nh_demo)\<lparr>ag_os := (fold (pull_up demo_os) (watched (demo_agent nh_demo)) ^^ 3) (ag_os (demo_agent nh_demo))\<rparr>"
    by (rule agent_restarts_forever) (simp add: demo_agent_def demo_os_def)
  then show ?thesis by (simp add: watched_def demo_agent_def pull_up_def demo_os_def eval_nat_numeral)
qed


subsection \<open>Scripts\<close>

text \<open>One run of a script in its directory.\<close>

definition run_script :: "'s os \<Rightarrow> ScriptInfo \<Rightarrow> 's \<Rightarrow> 's" where
  "run_script P sc s = os_chdir P (os_getcwd P s) (snd (os_system P (sr_script sc) (os_chdir P (sr_dir sc) s)))"

lemma exec_script_due:
  assumes "script_time P now sc = Some t" "sr_next sc = Some due" "uint due \<le> now"
  shows "exec_script P now sc a = Some (sc\<lparr>sr_next := Some (word_of_int t)\<rparr>, a\<lparr>ag_os := run_script P sc (ag_os a)\<rparr>)"
  using assms by (simp add: exec_script_def run_script_def System_def split: prod.split)

text \<open>C29: a script for a certain time of day that is due is run, and its next time lies ahead only when the time of day in UTC is early enough:
  the day is UTC's and its midnight the local one, so with \<^term>\<open>off\<close> seconds east of UTC the script is due again at once, and runs at every
  tick, from the moment \<^term>\<open>sec - off + 86400\<close> of the UTC day to its end.\<close>

theorem agent_script_next:
  assumes "sr_type sc = E_SCRIPT_TYPE_CERTAIN_TIME" "HmsToSecond (sr_certain_time sc) = Some sec"
    and "sr_next sc = Some due" "uint due \<le> now"
    and "os_midnight P now = 86400 * (now div 86400) - off"
    and "0 \<le> sec" "sec < 86400" "0 \<le> off" "off < 86400" "86400 \<le> now" "now < 2 ^ 32 - 2 * 86400"
  shows "\<exists>n. exec_script P now sc a = Some (sc\<lparr>sr_next := Some n\<rparr>, a\<lparr>ag_os := run_script P sc (ag_os a)\<rparr>)
    \<and> (uint n \<le> now \<longleftrightarrow> sec - off + 86400 \<le> now mod 86400)"
proof -
  define t where "t = now - now mod 86400 - off + sec"
  define u where "u = (if now \<ge> t then t + 86400 else t)"
  have m: "0 \<le> now mod 86400" "now mod 86400 < 86400" by simp_all
  have d: "86400 * (now div 86400) = now - now mod 86400" by (simp add: minus_mod_eq_mult_div)
  have st: "script_time P now sc = Some u"
    using assms(1,2,5) d by (simp add: script_time_def CertainTimesOfDay_def u_def t_def)
  have "0 \<le> u" "u < 2 ^ 32" using assms(6-11) m by (auto simp: u_def t_def)
  then have "uint (word_of_int u :: u32) = u" by (simp add: uint_word_of_int)
  moreover have "u \<le> now \<longleftrightarrow> sec - off + 86400 \<le> now mod 86400" using assms(7-9) m by (auto simp: u_def t_def)
  ultimately show ?thesis using exec_script_due [OF st assms(3,4), of a] by auto
qed

definition demo_script :: "ScriptType \<Rightarrow> string \<Rightarrow> ScriptInfo" where
  "demo_script ty at = \<lparr>sr_type = ty, sr_script = ''backup'', sr_interval = 0, sr_certain_time = at, sr_next = Some 1000, sr_dir = ''/''\<rparr>"

lemma hms_one: "HmsToSecond ''01:00:00'' = Some 3600"
  by (simp add: HmsToSecond_def Split.simps read_int_def c_space_def c_digit_def int_mult_def Let_def)

theorem agent_script_next_witness:
  "\<exists>n. exec_script demo_os 1000070000 (demo_script E_SCRIPT_TYPE_CERTAIN_TIME ''01:00:00'') (demo_agent nh_demo)
     = Some ((demo_script E_SCRIPT_TYPE_CERTAIN_TIME ''01:00:00'')\<lparr>sr_next := Some n\<rparr>, (demo_agent nh_demo)\<lparr>ag_os := [''backup'']\<rparr>)
     \<and> (uint n \<le> 1000070000)"
  using agent_script_next [of "demo_script E_SCRIPT_TYPE_CERTAIN_TIME ''01:00:00''" 3600 1000 1000070000 demo_os 28800 "demo_agent nh_demo"]
  by (simp add: demo_script_def hms_one demo_os_def run_script_def demo_agent_def)

text \<open>C35: the time of a periodic script is the first one behind now that is a multiple of its period behind midnight; with the period 0, which
  \<^verbatim>\<open>interval_seconds\<close> has when it is not set, the loop never ends, and the tick does not return.\<close>

theorem agent_period_hangs:
  assumes "sr_type sc = E_SCRIPT_TYPE_PERIOD_TIME" "m = os_midnight P now" "m \<le> now"
  shows "script_time P now sc =
      (if sr_interval sc = 0 then None else Some (m + uint (sr_interval sc) * ((now - m) div uint (sr_interval sc) + 1)))
    \<and> (sr_interval sc = 0 \<longrightarrow> sc \<in> set (ag_scripts a) \<longrightarrow> Agent_OnTick P now a = None)"
proof -
  have st: "script_time P now sc =
      (if sr_interval sc = 0 then None else Some (m + uint (sr_interval sc) * ((now - m) div uint (sr_interval sc) + 1)))"
  proof (cases "sr_interval sc = 0")
    case False
    then have "0 < uint (sr_interval sc)" by (simp add: word_neq_0_conv word_less_def)
    then show ?thesis
      using assms False by (simp add: script_time_def ClosestTimeOfDay_def CertainTimesOfDay_def midnight_hms closest_step)
  qed (use assms in \<open>simp add: script_time_def ClosestTimeOfDay_def CertainTimesOfDay_def midnight_hms closest_hangs\<close>)
  have "exec_scripts P now scs b = None" if "sc \<in> set scs" "sr_interval sc = 0" for scs and b :: "'a agent"
    using that(1)
  proof (induction scs arbitrary: b)
    case (Cons s scs)
    then show ?case
      using st that(2) by (cases "s = sc") (auto simp: exec_script_def split: bind_split)
  qed simp
  then show ?thesis using st by (simp add: Agent_OnTick_def ExecuteScript_def)
qed

theorem agent_period_hangs_witness:
  "script_time demo_os 1000070000 (demo_script E_SCRIPT_TYPE_PERIOD_TIME []) = None
   \<and> Agent_OnTick demo_os 1000070000 ((demo_agent nh_demo)\<lparr>ag_scripts := [demo_script E_SCRIPT_TYPE_PERIOD_TIME []]\<rparr>) = None"
  using agent_period_hangs [of "demo_script E_SCRIPT_TYPE_PERIOD_TIME []" "1000070000 div 86400 * 86400 - 28800" demo_os 1000070000
     "(demo_agent nh_demo)\<lparr>ag_scripts := [demo_script E_SCRIPT_TYPE_PERIOD_TIME []]\<rparr>"]
  by (simp add: demo_script_def demo_os_def)

end
