(* ===== verification/Epoll.thy ===== *)
theory Epoll
  imports Prelude
begin

text \<open>
  The event loop, \<^verbatim>\<open>slience/socket\<close>: the shared core of a socket (\<^verbatim>\<open>linux_epoll.hpp\<close>, \<^verbatim>\<open>ioservice.ipp\<close>), opening and
  closing (\<^verbatim>\<open>ioaccess.ipp\<close>), the asynchronous operations and the loop of a thread (\<^verbatim>\<open>epoll_access.hpp\<close>).  The operating
  system is a record of functions over an environment; what a handler does is a parameter \<^term>\<open>H\<close>, which gets the whole
  state, since handlers start operations and close sockets.  A step that the code makes under one lock is one step here.  A call
  of a handler, or a use of a core, that is not there is \<^term>\<open>None\<close>.
\<close>

subsection \<open>Cores\<close>

text \<open>Sockets are named by the numbers of their cores, \<^typ>\<open>'h\<close> are handlers.\<close>

record 'h accept_op =
  ao_acpt :: "nat option"
  ao_cli :: "nat option"
  ao_handler :: "'h option"

record 'h connect_op =
  ko_impl :: "nat option"
  ko_handler :: "'h option"

record 'h rw_op =
  rw_buf :: nat
  rw_len :: u32
  rw_impl :: "nat option"
  rw_handler :: "'h option"

text \<open>The last field is not the code's: what \<^verbatim>\<open>epoll_ctl\<close> has registered for the descriptor, events and pointer.\<close>

record 'h core =
  sc_epoll :: int
  sc_fd :: int
  sc_state :: u16
  sc_type :: u8
  sc_aop :: "'h accept_op"
  sc_cop :: "'h connect_op"
  sc_wop :: "'h rw_op"
  sc_rop :: "'h rw_op"
  sc_reg :: "(u32 \<times> nat) option"

record 'h io_impl =
  ii_handler :: int
  ii_fdcnt :: u32
  ii_closereqs :: "(nat \<times> 'h option) list"
  ii_closereqs2 :: nat

record ('e, 'u, 'h) rx =
  rx_env :: 'e
  rx_user :: 'u
  rx_core :: "nat \<Rightarrow> 'h core"
  rx_impl :: "nat \<Rightarrow> 'h io_impl"
  rx_implvector :: "nat list"
  rx_implmap :: "int \<rightharpoonup> nat"
  rx_implcnt :: int
  rx_implidx :: u32

datatype ctl = M_EPOLL_CTL_ADD | M_EPOLL_CTL_MOD | M_EPOLL_CTL_DEL

datatype 'h call = CAccept 'h int | CConnect 'h int | CWrite 'h u32 int | CRead 'h u32 int | CClose 'h | CRun

datatype ev = EvFinish | EvSock nat u32

text \<open>System calls.  \<^term>\<open>sy_soerror\<close> has the result of \<^verbatim>\<open>getsockopt\<close> and the value of \<^verbatim>\<open>SO_ERROR\<close>.\<close>

record 'e sys =
  sy_errno :: "'e \<Rightarrow> int"
  sy_ctl :: "int \<Rightarrow> ctl \<Rightarrow> int \<Rightarrow> u32 \<Rightarrow> 'e \<Rightarrow> int \<times> 'e"
  sy_wait :: "int \<Rightarrow> 'e \<Rightarrow> (int \<times> ev list) \<times> 'e"
  sy_create :: "'e \<Rightarrow> int \<times> 'e"
  sy_socket :: "'e \<Rightarrow> int \<times> 'e"
  sy_nonblock :: "int \<Rightarrow> 'e \<Rightarrow> bool \<times> 'e"
  sy_connect :: "int \<Rightarrow> byte list \<Rightarrow> 'e \<Rightarrow> int \<times> 'e"
  sy_accept :: "int \<Rightarrow> 'e \<Rightarrow> int \<times> 'e"
  sy_send :: "int \<Rightarrow> nat \<Rightarrow> u32 \<Rightarrow> 'e \<Rightarrow> int \<times> 'e"
  sy_recv :: "int \<Rightarrow> nat \<Rightarrow> u32 \<Rightarrow> 'e \<Rightarrow> int \<times> 'e"
  sy_soerror :: "int \<Rightarrow> 'e \<Rightarrow> (int \<times> int) \<times> 'e"
  sy_close :: "int \<Rightarrow> 'e \<Rightarrow> int \<times> 'e"

definition M_INVALID_SOCKET :: int where "M_INVALID_SOCKET = -1"
definition M_EPOLLIN :: u32 where "M_EPOLLIN = 1"
definition M_EPOLLOUT :: u32 where "M_EPOLLOUT = 4"
definition M_EPOLLERR :: u32 where "M_EPOLLERR = 8"
definition M_EPOLLHUP :: u32 where "M_EPOLLHUP = 16"
definition M_EPOLLONESHOT :: u32 where "M_EPOLLONESHOT = 2 ^ 30"
definition M_EINTR :: int where "M_EINTR = 4"
definition M_EINPROGRESS :: int where "M_EINPROGRESS = 115"

definition M_ERR_SOCKET_OPEN :: int where "M_ERR_SOCKET_OPEN = -1999"
definition M_ERR_ENDPOINT_INVALID :: int where "M_ERR_ENDPOINT_INVALID = -1998"
definition M_ERR_IOCP_INVALID :: int where "M_ERR_IOCP_INVALID = -1996"
definition M_ERR_ASYNC_CONNECT_FAIL :: int where "M_ERR_ASYNC_CONNECT_FAIL = -1992"
definition M_ERR_POSTED_ACCEPT :: int where "M_ERR_POSTED_ACCEPT = -1991"
definition M_ERR_POSTED_CONNECT :: int where "M_ERR_POSTED_CONNECT = -1990"
definition M_ERR_POSTED_WRITE :: int where "M_ERR_POSTED_WRITE = -1989"
definition M_ERR_POSTED_READ :: int where "M_ERR_POSTED_READ = -1988"
definition M_ERR_ASYNC_ACCEPT_FAIL :: int where "M_ERR_ASYNC_ACCEPT_FAIL = -1987"
definition M_ERR_ASYNC_READ_FAIL :: int where "M_ERR_ASYNC_READ_FAIL = -1986"
definition M_ERR_ASYNC_WRITE_FAIL :: int where "M_ERR_ASYNC_WRITE_FAIL = -1985"
definition M_ERR_BAD_DESCRIPTOR :: int where "M_ERR_BAD_DESCRIPTOR = -1984"
definition M_ERR_NOT_SERVICE :: int where "M_ERR_NOT_SERVICE = -1983"

definition E_ACCEPT_OP :: u8 where "E_ACCEPT_OP = 1"
definition E_CONNECT_OP :: u8 where "E_CONNECT_OP = 2"
definition E_WRITE_OP :: u8 where "E_WRITE_OP = 4"
definition E_READ_OP :: u8 where "E_READ_OP = 8"

subsection \<open>The state of a core\<close>

definition M_Impl_S_V4 :: "'h core \<Rightarrow> 'h core" where "M_Impl_S_V4 c = c\<lparr>sc_state := unset_bit 0 (sc_state c)\<rparr>"
definition M_Impl_S_V6 :: "'h core \<Rightarrow> 'h core" where "M_Impl_S_V6 c = c\<lparr>sc_state := set_bit 0 (sc_state c)\<rparr>"
definition M_Impl_G_V :: "'h core \<Rightarrow> bool" where "M_Impl_G_V c = bit (sc_state c) 0"
definition M_Impl_S_Bind :: "'h core \<Rightarrow> 'h core" where "M_Impl_S_Bind c = c\<lparr>sc_state := set_bit 1 (sc_state c)\<rparr>"
definition M_Impl_S_Unbind :: "'h core \<Rightarrow> 'h core" where "M_Impl_S_Unbind c = c\<lparr>sc_state := unset_bit 1 (sc_state c)\<rparr>"
definition M_Impl_G_Bind :: "'h core \<Rightarrow> bool" where "M_Impl_G_Bind c = bit (sc_state c) 1"
definition M_Impl_S_Block :: "'h core \<Rightarrow> 'h core" where "M_Impl_S_Block c = c\<lparr>sc_state := set_bit 2 (sc_state c)\<rparr>"
definition M_Impl_G_Block :: "'h core \<Rightarrow> bool" where "M_Impl_G_Block c = bit (sc_state c) 2"
definition M_Impl_S_Nonblock :: "'h core \<Rightarrow> 'h core" where "M_Impl_S_Nonblock c = c\<lparr>sc_state := unset_bit 2 (sc_state c)\<rparr>"
definition M_Impl_G_Nonblock :: "'h core \<Rightarrow> bool" where "M_Impl_G_Nonblock c = (\<not> bit (sc_state c) 2)"

definition M_Impl_S_Type :: "u16 \<Rightarrow> 'h core \<Rightarrow> 'h core" where
  "M_Impl_S_Type ty c = c\<lparr>sc_state := (sc_state c AND NOT (push_bit 3 3)) OR push_bit 3 ty\<rparr>"

definition M_Impl_G_Accept_Flag :: "'h core \<Rightarrow> bool" where "M_Impl_G_Accept_Flag c = bit (sc_state c) 5"
definition M_Impl_S_Accept_Flag :: "'h core \<Rightarrow> 'h core" where "M_Impl_S_Accept_Flag c = c\<lparr>sc_state := set_bit 5 (sc_state c)\<rparr>"
definition M_Impl_C_Accept_Flag :: "'h core \<Rightarrow> 'h core" where "M_Impl_C_Accept_Flag c = c\<lparr>sc_state := unset_bit 5 (sc_state c)\<rparr>"
definition M_Impl_G_Connect_Flag :: "'h core \<Rightarrow> bool" where "M_Impl_G_Connect_Flag c = bit (sc_state c) 6"
definition M_Impl_S_Connect_Flag :: "'h core \<Rightarrow> 'h core" where "M_Impl_S_Connect_Flag c = c\<lparr>sc_state := set_bit 6 (sc_state c)\<rparr>"
definition M_Impl_C_Connect_Flag :: "'h core \<Rightarrow> 'h core" where "M_Impl_C_Connect_Flag c = c\<lparr>sc_state := unset_bit 6 (sc_state c)\<rparr>"
definition M_Impl_G_Write_Flag :: "'h core \<Rightarrow> bool" where "M_Impl_G_Write_Flag c = bit (sc_state c) 7"
definition M_Impl_S_Write_Flag :: "'h core \<Rightarrow> 'h core" where "M_Impl_S_Write_Flag c = c\<lparr>sc_state := set_bit 7 (sc_state c)\<rparr>"
definition M_Impl_C_Write_Flag :: "'h core \<Rightarrow> 'h core" where "M_Impl_C_Write_Flag c = c\<lparr>sc_state := unset_bit 7 (sc_state c)\<rparr>"
definition M_Impl_G_Read_Flag :: "'h core \<Rightarrow> bool" where "M_Impl_G_Read_Flag c = bit (sc_state c) 8"
definition M_Impl_S_Read_Flag :: "'h core \<Rightarrow> 'h core" where "M_Impl_S_Read_Flag c = c\<lparr>sc_state := set_bit 8 (sc_state c)\<rparr>"
definition M_Impl_C_Read_Flag :: "'h core \<Rightarrow> 'h core" where "M_Impl_C_Read_Flag c = c\<lparr>sc_state := unset_bit 8 (sc_state c)\<rparr>"
definition M_Impl_G_Close_Flag :: "'h core \<Rightarrow> bool" where "M_Impl_G_Close_Flag c = bit (sc_state c) 9"
definition M_Impl_S_Close_Flag :: "'h core \<Rightarrow> 'h core" where "M_Impl_S_Close_Flag c = c\<lparr>sc_state := set_bit 9 (sc_state c)\<rparr>"

lemmas impl_bits = M_Impl_S_V4_def M_Impl_S_V6_def M_Impl_G_V_def M_Impl_S_Bind_def M_Impl_S_Unbind_def M_Impl_G_Bind_def M_Impl_S_Block_def
  M_Impl_G_Block_def M_Impl_S_Nonblock_def M_Impl_G_Nonblock_def M_Impl_S_Type_def M_Impl_G_Accept_Flag_def M_Impl_S_Accept_Flag_def
  M_Impl_C_Accept_Flag_def M_Impl_G_Connect_Flag_def M_Impl_S_Connect_Flag_def M_Impl_C_Connect_Flag_def M_Impl_G_Write_Flag_def
  M_Impl_S_Write_Flag_def M_Impl_C_Write_Flag_def M_Impl_G_Read_Flag_def M_Impl_S_Read_Flag_def M_Impl_C_Read_Flag_def M_Impl_G_Close_Flag_def
  M_Impl_S_Close_Flag_def

definition Accept_Clear :: "'h core \<Rightarrow> 'h core" where
  "Accept_Clear c = c\<lparr>sc_aop := \<lparr>ao_acpt = None, ao_cli = None, ao_handler = None\<rparr>\<rparr>"

definition Connect_Clear :: "'h core \<Rightarrow> 'h core" where
  "Connect_Clear c = c\<lparr>sc_cop := \<lparr>ko_impl = None, ko_handler = None\<rparr>\<rparr>"

definition Write_Clear :: "'h core \<Rightarrow> 'h core" where
  "Write_Clear c = c\<lparr>sc_wop := \<lparr>rw_buf = 0, rw_len = 0, rw_impl = None, rw_handler = None\<rparr>\<rparr>"

definition Read_Clear :: "'h core \<Rightarrow> 'h core" where
  "Read_Clear c = c\<lparr>sc_rop := \<lparr>rw_buf = 0, rw_len = 0, rw_impl = None, rw_handler = None\<rparr>\<rparr>"

definition core_new :: "'h core" where
  "core_new = \<lparr>sc_epoll = -1, sc_fd = M_INVALID_SOCKET, sc_state = 0, sc_type = 0,
     sc_aop = \<lparr>ao_acpt = None, ao_cli = None, ao_handler = None\<rparr>, sc_cop = \<lparr>ko_impl = None, ko_handler = None\<rparr>,
     sc_wop = \<lparr>rw_buf = 0, rw_len = 0, rw_impl = None, rw_handler = None\<rparr>,
     sc_rop = \<lparr>rw_buf = 0, rw_len = 0, rw_impl = None, rw_handler = None\<rparr>, sc_reg = None\<rparr>"

text \<open>A core in the state.\<close>

definition core_do :: "nat \<Rightarrow> ('h core \<Rightarrow> 'h core) \<Rightarrow> ('e, 'u, 'h) rx \<Rightarrow> ('e, 'u, 'h) rx" where
  "core_do i f x = x\<lparr>rx_core := (rx_core x)(i := f (rx_core x i))\<rparr>"

definition impl_do :: "nat \<Rightarrow> ('h io_impl \<Rightarrow> 'h io_impl) \<Rightarrow> ('e, 'u, 'h) rx \<Rightarrow> ('e, 'u, 'h) rx" where
  "impl_do t f x = x\<lparr>rx_impl := (rx_impl x)(t := f (rx_impl x t))\<rparr>"

subsection \<open>Opening and closing\<close>

definition Io_ConstructImpl :: "bool \<Rightarrow> nat \<Rightarrow> u16 \<Rightarrow> ('e, 'u, 'h) rx \<Rightarrow> ('e, 'u, 'h) rx" where
  "Io_ConstructImpl fresh i ty =
     core_do i (\<lambda>c. M_Impl_S_Type ty (M_Impl_S_Block (M_Impl_S_Unbind (M_Impl_S_V4 (if fresh then core_new else c)))))"

definition Io_DestroyImpl :: "nat \<Rightarrow> ('e, 'u, 'h) rx \<Rightarrow> ('e, 'u, 'h) rx" where
  "Io_DestroyImpl i = Io_ConstructImpl False i 0"

definition Io_IsOpen :: "nat \<Rightarrow> ('e, 'u, 'h) rx \<Rightarrow> bool" where
  "Io_IsOpen i x \<longleftrightarrow> sc_fd (rx_core x i) \<noteq> M_INVALID_SOCKET"

text \<open>Functions with an error take what it is before and return what it is afterwards; 0 is none.\<close>

definition Io_Open :: "'e sys \<Rightarrow> nat \<Rightarrow> bool \<Rightarrow> int \<Rightarrow> ('e, 'u, 'h) rx \<Rightarrow> int \<times> ('e, 'u, 'h) rx" where
  "Io_Open S i v4 err x =
     (if sc_fd (rx_core x i) \<noteq> M_INVALID_SOCKET then (M_ERR_SOCKET_OPEN, x)
      else
        let x1 = core_do i (if v4 then M_Impl_S_V4 else M_Impl_S_V6) x
        in case sy_socket S (rx_env x1) of
             (fd, e) \<Rightarrow>
               let x2 = core_do i (\<lambda>c. c\<lparr>sc_fd := fd\<rparr>) (x1\<lparr>rx_env := e\<rparr>)
               in (if fd = M_INVALID_SOCKET then sy_errno S e else err, x2))"

text \<open>\<^verbatim>\<open>GetOption\<close> for \<^verbatim>\<open>SO_ERROR\<close>: the error, the value, the state.\<close>

definition Io_GetSoError :: "'e sys \<Rightarrow> nat \<Rightarrow> int \<Rightarrow> ('e, 'u, 'h) rx \<Rightarrow> int \<times> int \<times> ('e, 'u, 'h) rx" where
  "Io_GetSoError S i err x =
     (case sy_soerror S (sc_fd (rx_core x i)) (rx_env x) of
        ((ret, v), e) \<Rightarrow> (if ret \<noteq> 0 then sy_errno S e else err, v, x\<lparr>rx_env := e\<rparr>))"

definition GetIoServiceImpl :: "nat \<Rightarrow> ('e, 'u, 'h) rx \<Rightarrow> nat option" where
  "GetIoServiceImpl i x =
     (if sc_epoll (rx_core x i) = 0 then None else rx_implmap x (sc_epoll (rx_core x i)))"

text \<open>A core whose descriptor is closed; what was registered for it goes with the descriptor.\<close>

definition core_closed :: "'h core \<Rightarrow> 'h core" where
  "core_closed c = c\<lparr>sc_fd := M_INVALID_SOCKET, sc_state := 0, sc_reg := None\<rparr>"

definition Io_Close :: "'e sys \<Rightarrow> nat \<Rightarrow> 'h option \<Rightarrow> int \<Rightarrow> ('e, 'u, 'h) rx \<Rightarrow> int \<times> ('e, 'u, 'h) rx" where
  "Io_Close S i handler err x =
     (if sc_fd (rx_core x i) \<noteq> M_INVALID_SOCKET \<and> \<not> M_Impl_G_Close_Flag (rx_core x i) then
        let simpl = GetIoServiceImpl i x;
            x1 = (case simpl of None \<Rightarrow> x | Some t \<Rightarrow> impl_do t (\<lambda>s. s\<lparr>ii_fdcnt := ii_fdcnt s - 1\<rparr>) x);
            (err2, x2) =
              (if M_Impl_G_Block (rx_core x1 i) then
                 case sy_close S (sc_fd (rx_core x1 i)) (rx_env x1) of
                   (r, e) \<Rightarrow> (if r = -1 then sy_errno S e else err,
                      core_do i core_closed (x1\<lparr>rx_env := e\<rparr>))
               else (err, core_do i M_Impl_S_Close_Flag x1))
        in (err2,
            case simpl of
              None \<Rightarrow> x2
            | Some t \<Rightarrow> impl_do t (\<lambda>s. s\<lparr>ii_closereqs2 := ii_closereqs2 s - 1, ii_closereqs := ii_closereqs s @ [(i, handler)]\<rparr>) x2)
      else (err, x))"

text \<open>\<^verbatim>\<open>_DoClose\<close>: the requests are taken from the list at once; what the handlers close meanwhile is for the next time.\<close>

fun close_reqs :: "'e sys \<Rightarrow> ('h call \<Rightarrow> ('e, 'u, 'h) rx \<Rightarrow> ('e, 'u, 'h) rx mem) \<Rightarrow> (nat \<times> 'h option) list \<Rightarrow> ('e, 'u, 'h) rx \<Rightarrow> ('e, 'u, 'h) rx mem" where
  "close_reqs S H [] x = Some x"
| "close_reqs S H ((i, handler) # cs) x =
     (let e = snd (sy_close S (sc_fd (rx_core x i)) (rx_env x));
          x1 = core_do i core_closed (x\<lparr>rx_env := e\<rparr>)
      in Option.bind (case handler of None \<Rightarrow> Some x1 | Some h \<Rightarrow> H (CClose h) x1) (close_reqs S H cs))"

definition Io_DoClose :: "'e sys \<Rightarrow> ('h call \<Rightarrow> ('e, 'u, 'h) rx \<Rightarrow> ('e, 'u, 'h) rx mem) \<Rightarrow> nat \<Rightarrow> ('e, 'u, 'h) rx \<Rightarrow> ('e, 'u, 'h) rx mem" where
  "Io_DoClose S H t x =
     (let cs = ii_closereqs (rx_impl x t)
      in map_option (impl_do t (\<lambda>s. s\<lparr>ii_closereqs2 := ii_closereqs2 s + length cs\<rparr>))
           (close_reqs S H cs (impl_do t (\<lambda>s. s\<lparr>ii_closereqs := []\<rparr>) x)))"

subsection \<open>Starting an operation\<close>

text \<open>A socket is given to the threads in turn, when its descriptor is registered for the first time.\<close>

definition assign_impl :: "nat \<Rightarrow> ('e, 'u, 'h) rx \<Rightarrow> ('e, 'u, 'h) rx" where
  "assign_impl i x =
     (if rx_implvector x = [] then x
      else
        let idx = rx_implidx x + 1;
            t = rx_implvector x ! (unat idx mod length (rx_implvector x))
        in impl_do t (\<lambda>s. s\<lparr>ii_fdcnt := ii_fdcnt s + 1\<rparr>)
             (core_do i (\<lambda>c. c\<lparr>sc_epoll := ii_handler (rx_impl x t)\<rparr>) (x\<lparr>rx_implidx := idx\<rparr>)))"

definition CtlEpoll :: "'e sys \<Rightarrow> nat \<Rightarrow> nat \<Rightarrow> ctl \<Rightarrow> u32 \<Rightarrow> int \<Rightarrow> ('e, 'u, 'h) rx \<Rightarrow> int \<times> ('e, 'u, 'h) rx" where
  "CtlEpoll S i opset flag events err x0 =
     (let x = (if flag = M_EPOLL_CTL_ADD \<and> sc_epoll (rx_core x0 i) = -1 then assign_impl i x0 else x0)
      in if sc_epoll (rx_core x i) = -1 then (M_ERR_NOT_SERVICE, x)
         else
           case sy_ctl S (sc_epoll (rx_core x i)) flag (sc_fd (rx_core x i)) events (rx_env x) of
             (ret, e) \<Rightarrow>
               (if ret \<noteq> 0 then (sy_errno S e, x\<lparr>rx_env := e\<rparr>)
                else (err, core_do i (\<lambda>c. c\<lparr>sc_reg := (if flag = M_EPOLL_CTL_DEL then None else Some (events, opset))\<rparr>) (x\<lparr>rx_env := e\<rparr>))))"

definition Io_Cancel :: "'e sys \<Rightarrow> nat \<Rightarrow> int \<Rightarrow> ('e, 'u, 'h) rx \<Rightarrow> int \<times> ('e, 'u, 'h) rx" where
  "Io_Cancel S i err x =
     (if M_Impl_G_Bind (rx_core x i) then CtlEpoll S i i M_EPOLL_CTL_DEL 0 err x else (err, x))"

definition set_nonblock :: "'e sys \<Rightarrow> nat \<Rightarrow> ('e, 'u, 'h) rx \<Rightarrow> bool \<times> ('e, 'u, 'h) rx" where
  "set_nonblock S i x =
     (if M_Impl_G_Nonblock (rx_core x i) then (True, x)
      else
        case sy_nonblock S (sc_fd (rx_core x i)) (rx_env x) of
          (ok, e) \<Rightarrow> (ok, if ok then core_do i M_Impl_S_Nonblock (x\<lparr>rx_env := e\<rparr>) else x\<lparr>rx_env := e\<rparr>))"

definition Io_AsyncAccept :: "'e sys \<Rightarrow> nat \<Rightarrow> nat \<Rightarrow> 'h \<Rightarrow> int \<Rightarrow> ('e, 'u, 'h) rx \<Rightarrow> int \<times> ('e, 'u, 'h) rx" where
  "Io_AsyncAccept S i cli handler err x =
     (if sc_fd (rx_core x i) = M_INVALID_SOCKET then (M_ERR_BAD_DESCRIPTOR, x)
      else if M_Impl_G_Accept_Flag (rx_core x i) then (M_ERR_POSTED_ACCEPT, x)
      else
        case set_nonblock S i x of
          (False, x1) \<Rightarrow> (sy_errno S (rx_env x1), x1)
        | (True, x1) \<Rightarrow>
            let x2 = core_do i (\<lambda>c. (M_Impl_S_Accept_Flag c)\<lparr>sc_type := E_ACCEPT_OP,
                       sc_aop := \<lparr>ao_acpt = Some i, ao_cli = Some cli, ao_handler = Some handler\<rparr>\<rparr>) x1;
                (err3, x3) =
                  (if \<not> M_Impl_G_Bind (rx_core x2 i)
                   then CtlEpoll S i i M_EPOLL_CTL_ADD M_EPOLLIN err (core_do i M_Impl_S_Bind x2)
                   else (err, x2))
            in if err3 \<noteq> 0 then (err3, core_do i (Accept_Clear \<circ> M_Impl_S_Unbind \<circ> M_Impl_C_Accept_Flag) x3)
               else (err3, x3))"

definition Io_AsyncConnect :: "'e sys \<Rightarrow> nat \<Rightarrow> byte list option \<Rightarrow> 'h \<Rightarrow> int \<Rightarrow> ('e, 'u, 'h) rx \<Rightarrow> int \<times> ('e, 'u, 'h) rx" where
  "Io_AsyncConnect S i ep handler err x =
     (if sc_fd (rx_core x i) = M_INVALID_SOCKET then (M_ERR_BAD_DESCRIPTOR, x)
      else if M_Impl_G_Connect_Flag (rx_core x i) then (M_ERR_POSTED_CONNECT, x)
      else
        case ep of
          None \<Rightarrow> (M_ERR_ENDPOINT_INVALID, x)
        | Some addr \<Rightarrow>
        (case set_nonblock S i x of
          (False, x1) \<Rightarrow> (sy_errno S (rx_env x1), x1)
        | (True, x1) \<Rightarrow>
            (case sy_connect S (sc_fd (rx_core x1 i)) addr (rx_env x1) of
               (ret, e) \<Rightarrow>
                 if ret = -1 \<and> sy_errno S e \<noteq> M_EINPROGRESS then (sy_errno S e, x1\<lparr>rx_env := e\<rparr>)
                 else
                   let x2 = core_do i (\<lambda>c. (M_Impl_S_Connect_Flag c)\<lparr>sc_type := E_CONNECT_OP,
                              sc_cop := \<lparr>ko_impl = Some i, ko_handler = Some handler\<rparr>\<rparr>) (x1\<lparr>rx_env := e\<rparr>);
                       (err3, x3) =
                         (if \<not> M_Impl_G_Bind (rx_core x2 i)
                          then CtlEpoll S i i M_EPOLL_CTL_ADD (M_EPOLLOUT OR M_EPOLLONESHOT) err (core_do i M_Impl_S_Bind x2)
                          else (err, x2))
                   in if err3 \<noteq> 0 then (err3, core_do i (Connect_Clear \<circ> M_Impl_S_Unbind \<circ> M_Impl_C_Connect_Flag) x3)
                      else (err3, x3))))"

text \<open>The flags are set, and what epoll is to watch for is put together.\<close>

definition recv_arm :: "nat \<Rightarrow> ('e, 'u, 'h) rx \<Rightarrow> ctl \<times> u32 \<times> ('e, 'u, 'h) rx" where
  "recv_arm i x1 =
     (let x2 = core_do i (\<lambda>c. (M_Impl_S_Read_Flag c)\<lparr>sc_type := E_READ_OP\<rparr>) x1;
          bound = M_Impl_G_Bind (rx_core x2 i);
          x3 = (if bound then x2 else core_do i M_Impl_S_Bind x2);
          w = M_Impl_G_Write_Flag (rx_core x3 i)
      in (if bound then M_EPOLL_CTL_MOD else M_EPOLL_CTL_ADD,
          if w then M_EPOLLIN OR M_EPOLLOUT else M_EPOLLIN,
          if w then core_do i (\<lambda>c. c\<lparr>sc_type := sc_type c OR E_WRITE_OP\<rparr>) x3 else x3))"

definition send_arm :: "nat \<Rightarrow> ('e, 'u, 'h) rx \<Rightarrow> ctl \<times> u32 \<times> ('e, 'u, 'h) rx" where
  "send_arm i x1 =
     (let x2 = core_do i (\<lambda>c. (M_Impl_S_Write_Flag c)\<lparr>sc_type := E_WRITE_OP\<rparr>) x1;
          bound = M_Impl_G_Bind (rx_core x2 i);
          x3 = (if bound then x2 else core_do i M_Impl_S_Bind x2);
          r = M_Impl_G_Read_Flag (rx_core x3 i)
      in (if bound then M_EPOLL_CTL_MOD else M_EPOLL_CTL_ADD,
          if r then M_EPOLLOUT OR M_EPOLLIN else M_EPOLLOUT,
          if r then core_do i (\<lambda>c. c\<lparr>sc_type := sc_type c OR E_READ_OP\<rparr>) x3 else x3))"

text \<open>The operation is filled in before it is checked whether one is under way.\<close>

definition Io_AsyncRecvSome :: "'e sys \<Rightarrow> nat \<Rightarrow> nat \<Rightarrow> u32 \<Rightarrow> 'h \<Rightarrow> int \<Rightarrow> ('e, 'u, 'h) rx \<Rightarrow> int \<times> ('e, 'u, 'h) rx" where
  "Io_AsyncRecvSome S i data len handler err x0 =
     (let x = core_do i (\<lambda>c. c\<lparr>sc_rop := \<lparr>rw_buf = data, rw_len = len, rw_impl = Some i, rw_handler = Some handler\<rparr>\<rparr>) x0
      in if sc_fd (rx_core x i) = M_INVALID_SOCKET then (M_ERR_BAD_DESCRIPTOR, core_do i Read_Clear x)
         else if M_Impl_G_Read_Flag (rx_core x i) then (M_ERR_POSTED_READ, core_do i Read_Clear x)
         else
           case set_nonblock S i x of
             (False, x1) \<Rightarrow> (sy_errno S (rx_env x1), core_do i Read_Clear x1)
           | (True, x1) \<Rightarrow>
               let (ctl, flag, x4) = recv_arm i x1;
                   (err5, x5) = CtlEpoll S i i ctl flag err x4
               in if err5 \<noteq> 0 then (err5, core_do i (Read_Clear \<circ> M_Impl_S_Unbind \<circ> M_Impl_C_Read_Flag) x5) else (err5, x5))"

definition Io_AsyncSendSome :: "'e sys \<Rightarrow> nat \<Rightarrow> nat \<Rightarrow> u32 \<Rightarrow> 'h \<Rightarrow> int \<Rightarrow> ('e, 'u, 'h) rx \<Rightarrow> int \<times> ('e, 'u, 'h) rx" where
  "Io_AsyncSendSome S i data len handler err x0 =
     (let x = core_do i (\<lambda>c. c\<lparr>sc_wop := \<lparr>rw_buf = data, rw_len = len, rw_impl = Some i, rw_handler = Some handler\<rparr>\<rparr>) x0
      in if sc_fd (rx_core x i) = M_INVALID_SOCKET then (M_ERR_BAD_DESCRIPTOR, core_do i Write_Clear x)
         else if M_Impl_G_Write_Flag (rx_core x i) then (M_ERR_POSTED_WRITE, core_do i Write_Clear x)
         else
           case set_nonblock S i x of
             (False, x1) \<Rightarrow> (sy_errno S (rx_env x1), core_do i Write_Clear x1)
           | (True, x1) \<Rightarrow>
               let (ctl, flag, x4) = send_arm i x1;
                   (err5, x5) = CtlEpoll S i i ctl flag err x4
               in if err5 \<noteq> 0 then (err5, core_do i (Write_Clear \<circ> M_Impl_S_Unbind \<circ> M_Impl_C_Write_Flag) x5) else (err5, x5))"

subsection \<open>Completing an operation\<close>

text \<open>The operation is the one in the core the event is for.\<close>

definition AcceptComplete :: "'e sys \<Rightarrow> ('h call \<Rightarrow> ('e, 'u, 'h) rx \<Rightarrow> ('e, 'u, 'h) rx mem) \<Rightarrow> nat \<Rightarrow> ('e, 'u, 'h) rx \<Rightarrow> ('e, 'u, 'h) rx mem" where
  "AcceptComplete S H i x =
     (case ao_acpt (sc_aop (rx_core x i)) of
        None \<Rightarrow> None
      | Some a \<Rightarrow>
          let x1 = (if sc_fd (rx_core x a) \<noteq> M_INVALID_SOCKET then core_do a M_Impl_C_Accept_Flag x else x)
          in case sy_accept S (sc_fd (rx_core x1 a)) (rx_env x1) of
               (fd, e) \<Rightarrow>
                 Option.bind
                   (if fd < 0 then
                      (case Io_GetSoError S a 0 (x1\<lparr>rx_env := e\<rparr>) of
                         (err, v, x2) \<Rightarrow> Some (if err \<noteq> 0 then M_ERR_ASYNC_ACCEPT_FAIL else v, x2))
                    else
                      map_option (\<lambda>cli. (0, core_do cli (if M_Impl_G_V (rx_core x1 a) then M_Impl_S_V4 else M_Impl_S_V6)
                          (core_do cli (\<lambda>c. c\<lparr>sc_fd := fd\<rparr>) (x1\<lparr>rx_env := e\<rparr>))))
                        (ao_cli (sc_aop (rx_core x1 i))))
                   (\<lambda>(err, x3). Option.bind (ao_handler (sc_aop (rx_core x3 i)))
                      (\<lambda>h. H (CAccept h err) (core_do i Accept_Clear x3))))"

definition ConnectComplete :: "'e sys \<Rightarrow> ('h call \<Rightarrow> ('e, 'u, 'h) rx \<Rightarrow> ('e, 'u, 'h) rx mem) \<Rightarrow> nat \<Rightarrow> ('e, 'u, 'h) rx \<Rightarrow> ('e, 'u, 'h) rx mem" where
  "ConnectComplete S H i x =
     (case ko_impl (sc_cop (rx_core x i)) of
        None \<Rightarrow> None
      | Some j \<Rightarrow>
          let notify = (sc_fd (rx_core x j) \<noteq> M_INVALID_SOCKET);
              x1 = (if notify then core_do j M_Impl_C_Connect_Flag x else x);
              x2 = core_do i (\<lambda>c. c\<lparr>sc_type := sc_type c AND NOT E_CONNECT_OP\<rparr>) x1
          in case Io_GetSoError S j 0 x2 of
               (err, v, x3) \<Rightarrow>
                 let error = (if err \<noteq> 0 then M_ERR_ASYNC_CONNECT_FAIL else v);
                     x4 = core_do i Connect_Clear x3
                 in if notify then Option.bind (ko_handler (sc_cop (rx_core x3 i))) (\<lambda>h. H (CConnect h error) x4) else Some x4)"

text \<open>The locked part: the flag goes, and epoll watches for what is left.  Whether the socket is open, the error, the state.\<close>

definition write_unarm :: "'e sys \<Rightarrow> nat \<Rightarrow> nat \<Rightarrow> ('e, 'u, 'h) rx \<Rightarrow> bool \<times> int \<times> ('e, 'u, 'h) rx" where
  "write_unarm S i j x =
     (let x1 = core_do i (\<lambda>c. c\<lparr>sc_type := sc_type c AND NOT E_WRITE_OP\<rparr>) x
      in if sc_fd (rx_core x1 j) \<noteq> M_INVALID_SOCKET then
           let x2 = core_do j M_Impl_C_Write_Flag x1;
               flag = (if sc_type (rx_core x2 i) AND E_READ_OP \<noteq> 0 then M_EPOLLIN else 0)
           in (True, CtlEpoll S j i M_EPOLL_CTL_MOD flag 0 x2)
         else (False, 0, x1))"

definition read_unarm :: "'e sys \<Rightarrow> nat \<Rightarrow> nat \<Rightarrow> ('e, 'u, 'h) rx \<Rightarrow> bool \<times> int \<times> ('e, 'u, 'h) rx" where
  "read_unarm S i j x =
     (if sc_fd (rx_core x j) \<noteq> M_INVALID_SOCKET then
        let x1 = core_do i (\<lambda>c. c\<lparr>sc_type := sc_type c AND NOT E_READ_OP\<rparr>) (core_do j M_Impl_C_Read_Flag x);
            flag = (if sc_type (rx_core x1 i) AND E_WRITE_OP \<noteq> 0 then M_EPOLLOUT else 0)
        in (True, CtlEpoll S j i M_EPOLL_CTL_MOD flag 0 x1)
      else (False, 0, x))"

definition rw_error :: "'e sys \<Rightarrow> nat \<Rightarrow> int \<Rightarrow> int \<Rightarrow> int \<Rightarrow> ('e, 'u, 'h) rx \<Rightarrow> int \<times> ('e, 'u, 'h) rx" where
  "rw_error S j fail ret err x =
     (if ret \<le> 0 then
        case Io_GetSoError S j err x of (err1, v, x1) \<Rightarrow> (if err1 \<noteq> 0 then fail else v, x1)
      else (err, x))"

definition WriteComplete :: "'e sys \<Rightarrow> ('h call \<Rightarrow> ('e, 'u, 'h) rx \<Rightarrow> ('e, 'u, 'h) rx mem) \<Rightarrow> nat \<Rightarrow> ('e, 'u, 'h) rx \<Rightarrow> ('e, 'u, 'h) rx mem" where
  "WriteComplete S H i x =
     (case rw_impl (sc_wop (rx_core x i)) of
        None \<Rightarrow> None
      | Some j \<Rightarrow>
          (case write_unarm S i j x of
             (notify, err2, x2) \<Rightarrow>
               (case sy_send S (sc_fd (rx_core x2 j)) (rw_buf (sc_wop (rx_core x2 i))) (rw_len (sc_wop (rx_core x2 i))) (rx_env x2) of
                  (ret, e) \<Rightarrow>
                    (case rw_error S j M_ERR_ASYNC_WRITE_FAIL ret err2 (x2\<lparr>rx_env := e\<rparr>) of
                       (error, x4) \<Rightarrow>
                         let x5 = core_do i Write_Clear x4
                         in if notify then
                              Option.bind (rw_handler (sc_wop (rx_core x4 i)))
                                (\<lambda>h. H (CWrite h (if ret < 0 then 0 else word_of_int ret) error) x5)
                            else Some x5))))"

definition ReadComplete :: "'e sys \<Rightarrow> ('h call \<Rightarrow> ('e, 'u, 'h) rx \<Rightarrow> ('e, 'u, 'h) rx mem) \<Rightarrow> nat \<Rightarrow> ('e, 'u, 'h) rx \<Rightarrow> ('e, 'u, 'h) rx mem" where
  "ReadComplete S H i x =
     (case rw_impl (sc_rop (rx_core x i)) of
        None \<Rightarrow> None
      | Some j \<Rightarrow>
          (case read_unarm S i j x of
             (notify, err2, x2) \<Rightarrow>
               (case sy_recv S (sc_fd (rx_core x2 j)) (rw_buf (sc_rop (rx_core x2 i))) (rw_len (sc_rop (rx_core x2 i))) (rx_env x2) of
                  (ret, e) \<Rightarrow>
                    (case rw_error S j M_ERR_ASYNC_READ_FAIL ret err2 (x2\<lparr>rx_env := e\<rparr>) of
                       (error, x4) \<Rightarrow>
                         let x5 = core_do i Read_Clear x4
                         in if notify then
                              Option.bind (rw_handler (sc_rop (rx_core x4 i)))
                                (\<lambda>h. H (CRead h (if ret < 0 then 0 else word_of_int ret) error) x5)
                            else Some x5))))"

definition wants :: "u32 \<Rightarrow> u32 \<Rightarrow> bool" where
  "wants dir events \<longleftrightarrow> events AND dir \<noteq> 0 \<or> events AND M_EPOLLERR \<noteq> 0 \<or> events AND M_EPOLLHUP \<noteq> 0"

text \<open>Whether to write is decided behind the handler of the read.\<close>

definition Io_DoExecOp :: "'e sys \<Rightarrow> ('h call \<Rightarrow> ('e, 'u, 'h) rx \<Rightarrow> ('e, 'u, 'h) rx mem) \<Rightarrow> nat \<Rightarrow> u32 \<Rightarrow> ('e, 'u, 'h) rx \<Rightarrow> ('e, 'u, 'h) rx mem" where
  "Io_DoExecOp S H i events x =
     (if sc_type (rx_core x i) AND E_ACCEPT_OP \<noteq> 0 then AcceptComplete S H i x
      else if sc_type (rx_core x i) AND E_CONNECT_OP \<noteq> 0 then ConnectComplete S H i x
      else
        Option.bind
          (if sc_type (rx_core x i) AND E_READ_OP \<noteq> 0 \<and> wants M_EPOLLIN events then ReadComplete S H i x else Some x)
          (\<lambda>x1. if sc_type (rx_core x1 i) AND E_WRITE_OP \<noteq> 0 \<and> wants M_EPOLLOUT events then WriteComplete S H i x1 else Some x1))"

subsection \<open>The loop of a thread\<close>

fun exec_events :: "'e sys \<Rightarrow> ('h call \<Rightarrow> ('e, 'u, 'h) rx \<Rightarrow> ('e, 'u, 'h) rx mem) \<Rightarrow> ev list \<Rightarrow> ('e, 'u, 'h) rx \<Rightarrow> (bool \<times> ('e, 'u, 'h) rx) mem" where
  "exec_events S H [] x = Some (False, x)"
| "exec_events S H (EvFinish # evs) x = map_option (apfst (\<lambda>_. True)) (exec_events S H evs x)"
| "exec_events S H (EvSock i events # evs) x = Option.bind (Io_DoExecOp S H i events x) (exec_events S H evs)"

datatype round_end = Goes_on | Ends int

text \<open>\<^verbatim>\<open>epoll_wait\<close> reports descriptors that are registered with it.\<close>

definition registered :: "int \<Rightarrow> ('e, 'u, 'h) rx \<Rightarrow> ev \<Rightarrow> bool" where
  "registered ep x v = (case v of EvFinish \<Rightarrow> True
     | EvSock i _ \<Rightarrow> sc_epoll (rx_core x i) = ep \<and> map_option snd (sc_reg (rx_core x i)) = Some i)"

definition epoll_wait :: "'e sys \<Rightarrow> nat \<Rightarrow> ('e, 'u, 'h) rx \<Rightarrow> int \<times> ev list \<times> ('e, 'u, 'h) rx" where
  "epoll_wait S t x =
     (let ep = ii_handler (rx_impl x t)
      in case sy_wait S ep (rx_env x) of
           ((ret, evs), e) \<Rightarrow> (ret, filter (registered ep x) (take (nat ret) evs), x\<lparr>rx_env := e\<rparr>))"

definition Io_Round :: "'e sys \<Rightarrow> ('h call \<Rightarrow> ('e, 'u, 'h) rx \<Rightarrow> ('e, 'u, 'h) rx mem) \<Rightarrow> nat \<Rightarrow> int \<Rightarrow> ('e, 'u, 'h) rx
    \<Rightarrow> (round_end \<times> ('e, 'u, 'h) rx) mem" where
  "Io_Round S H t err x =
     Option.bind (H CRun x) (\<lambda>x1. Option.bind (Io_DoClose S H t x1) (\<lambda>x2.
       case epoll_wait S t x2 of
         (ret, evs, x3) \<Rightarrow>
           if ret = 0 then Some (Goes_on, x3)
           else if ret < 0 \<and> sy_errno S (rx_env x3) \<noteq> M_EINTR then Some (Ends (sy_errno S (rx_env x3)), x3)
           else map_option (apfst (\<lambda>brk. if brk then Ends err else Goes_on)) (exec_events S H evs x3)))"

text \<open>\<^verbatim>\<open>_DoRun\<close>, for at most so many rounds.\<close>

primrec Io_DoRun :: "nat \<Rightarrow> 'e sys \<Rightarrow> ('h call \<Rightarrow> ('e, 'u, 'h) rx \<Rightarrow> ('e, 'u, 'h) rx mem) \<Rightarrow> nat \<Rightarrow> int \<Rightarrow> ('e, 'u, 'h) rx \<Rightarrow> (round_end \<times> ('e, 'u, 'h) rx) mem" where
  "Io_DoRun 0 S H t err x = Some (Goes_on, x)"
| "Io_DoRun (Suc n) S H t err x =
     Option.bind (Io_Round S H t err x)
       (\<lambda>(r, x1). case r of Goes_on \<Rightarrow> Io_DoRun n S H t err x1 | Ends e \<Rightarrow> Some (Ends e, x1))"

definition Io_CreateIoImpl :: "nat \<Rightarrow> int \<Rightarrow> ('e, 'u, 'h) rx \<Rightarrow> int \<times> bool \<times> ('e, 'u, 'h) rx" where
  "Io_CreateIoImpl t err x =
     (if ii_handler (rx_impl x t) = 0 then (M_ERR_IOCP_INVALID, False, x)
      else (err, True, x\<lparr>rx_implmap := (rx_implmap x)(ii_handler (rx_impl x t) \<mapsto> t),
              rx_implvector := rx_implvector x @ [t], rx_implcnt := rx_implcnt x + 1\<rparr>))"

text \<open>The map keeps the thread under the descriptor that is closed here; with that descriptor go its registrations.\<close>

definition Io_ReleaseIoImpl :: "'e sys \<Rightarrow> nat \<Rightarrow> ('e, 'u, 'h) rx \<Rightarrow> ('e, 'u, 'h) rx" where
  "Io_ReleaseIoImpl S t x =
     (let ep = ii_handler (rx_impl x t);
          (fd, e) = sy_create S (snd (sy_close S ep (rx_env x)))
      in impl_do t (\<lambda>s. s\<lparr>ii_closereqs := [], ii_closereqs2 := 0, ii_fdcnt := 0, ii_handler := fd\<rparr>)
           (x\<lparr>rx_env := e, rx_core := (\<lambda>i. let c = rx_core x i in if sc_epoll c = ep then c\<lparr>sc_reg := None\<rparr> else c),
             rx_implvector := remove1 t (rx_implvector x), rx_implcnt := rx_implcnt x - 1\<rparr>))"

definition Io_Run :: "nat \<Rightarrow> 'e sys \<Rightarrow> ('h call \<Rightarrow> ('e, 'u, 'h) rx \<Rightarrow> ('e, 'u, 'h) rx mem) \<Rightarrow> nat \<Rightarrow> int \<Rightarrow> ('e, 'u, 'h) rx \<Rightarrow> (round_end \<times> ('e, 'u, 'h) rx) mem" where
  "Io_Run n S H t err x =
     (case Io_CreateIoImpl t err x of
        (err1, ok, x1) \<Rightarrow>
          if \<not> ok then Some (Ends err1, x1)
          else map_option (\<lambda>(r, x2). (r, case r of Goes_on \<Rightarrow> x2 | Ends _ \<Rightarrow> Io_ReleaseIoImpl S t x2)) (Io_DoRun n S H t err1 x1))"

text \<open>\<^verbatim>\<open>Stop\<close> registers a socket with the finishing operation in every thread.\<close>

definition Io_Stop :: "'e sys \<Rightarrow> int \<Rightarrow> ('e, 'u, 'h) rx \<Rightarrow> int \<times> ('e, 'u, 'h) rx" where
  "Io_Stop S err x =
     fold (\<lambda>t (err, x).
         case sy_socket S (rx_env x) of
           (fd, e1) \<Rightarrow>
             (case sy_ctl S (ii_handler (rx_impl x t)) M_EPOLL_CTL_ADD fd (M_EPOLLERR OR M_EPOLLIN OR M_EPOLLOUT) e1 of
                (ret, e2) \<Rightarrow>
                  if ret \<noteq> 0 then (let e3 = snd (sy_close S fd e2) in (sy_errno S e3, x\<lparr>rx_env := e3\<rparr>))
                  else (err, x\<lparr>rx_env := e2\<rparr>)))
       (rx_implvector x) (err, x)"

definition Io_Stopped :: "('e, 'u, 'h) rx \<Rightarrow> bool" where
  "Io_Stopped x \<longleftrightarrow> rx_implvector x = []"

definition Io_GetServiceCount :: "('e, 'u, 'h) rx \<Rightarrow> u32" where
  "Io_GetServiceCount x = word_of_nat (length (rx_implvector x))"

end
