(* ===== verification/Epoll_Props.thy ===== *)
theory Epoll_Props
  imports Epoll
begin

text \<open>
  What the event loop keeps true of its sockets, and what it asks of handlers for it.
\<close>

subsection \<open>Bits\<close>

lemma op_bits:
  "(w AND E_ACCEPT_OP \<noteq> 0) = bit w 0" "(w AND E_CONNECT_OP \<noteq> 0) = bit w 1" "(w AND E_WRITE_OP \<noteq> 0) = bit w 2"
  "(w AND E_READ_OP \<noteq> 0) = bit w 3"
  using and_exp_eq_0_iff_not_bit [of w 0] and_exp_eq_0_iff_not_bit [of w 1] and_exp_eq_0_iff_not_bit [of w 2]
    and_exp_eq_0_iff_not_bit [of w 3]
  by (simp_all add: E_ACCEPT_OP_def E_CONNECT_OP_def E_WRITE_OP_def E_READ_OP_def)

lemma event_bits:
  "(w AND M_EPOLLIN \<noteq> 0) = bit w 0" "(w AND M_EPOLLOUT \<noteq> 0) = bit w 2" "(w AND M_EPOLLERR \<noteq> 0) = bit w 3"
  "(w AND M_EPOLLHUP \<noteq> 0) = bit w 4"
  using and_exp_eq_0_iff_not_bit [of w 0] and_exp_eq_0_iff_not_bit [of w 2] and_exp_eq_0_iff_not_bit [of w 3]
    and_exp_eq_0_iff_not_bit [of w 4]
  by (simp_all add: M_EPOLLIN_def M_EPOLLOUT_def M_EPOLLERR_def M_EPOLLHUP_def)

lemma type_bits [simp]:
  "bit E_READ_OP n = (n = 3)" "bit E_WRITE_OP n = (n = 2)" "bit E_CONNECT_OP n = (n = 1)" "bit E_ACCEPT_OP n = (n = 0)"
  using bit_exp_iff [where 'a = u8, of 3 n] bit_exp_iff [where 'a = u8, of 2 n] bit_exp_iff [where 'a = u8, of 1 n]
    bit_exp_iff [where 'a = u8, of 0 n]
  by (auto simp: E_READ_OP_def E_WRITE_OP_def E_CONNECT_OP_def E_ACCEPT_OP_def)

lemma mask_bits [simp]:
  "bit M_EPOLLIN n = (n = 0)" "bit M_EPOLLOUT n = (n = 2)" "bit M_EPOLLONESHOT n = (n = 30)"
  using bit_exp_iff [where 'a = u32, of 0 n] bit_exp_iff [where 'a = u32, of 2 n] bit_exp_iff [where 'a = u32, of 30 n]
  by (auto simp: M_EPOLLIN_def M_EPOLLOUT_def M_EPOLLONESHOT_def)

subsection \<open>Invariant\<close>

definition rw_ready :: "nat \<Rightarrow> 'h rw_op \<Rightarrow> bool" where
  "rw_ready i op \<longleftrightarrow> rw_impl op = Some i \<and> rw_handler op \<noteq> None"

text \<open>Of one core: an operation that is under way has its handler, and epoll watches for it.\<close>

definition reg_ok :: "nat \<Rightarrow> 'h core \<Rightarrow> u32 \<Rightarrow> nat \<Rightarrow> bool" where
  "reg_ok i c m p \<longleftrightarrow> sc_fd c \<noteq> M_INVALID_SOCKET \<and> sc_epoll c \<noteq> -1 \<and> p = i
     \<and> bit (sc_type c) 3 = M_Impl_G_Read_Flag c \<and> bit (sc_type c) 2 = M_Impl_G_Write_Flag c
     \<and> (M_Impl_G_Read_Flag c \<longrightarrow> bit m 0) \<and> (M_Impl_G_Write_Flag c \<longrightarrow> bit m 2)
     \<and> (bit (sc_type c) 1 \<longrightarrow> ko_impl (sc_cop c) = Some i \<and> ko_handler (sc_cop c) \<noteq> None)
     \<and> (bit (sc_type c) 0 \<longrightarrow> M_Impl_G_Accept_Flag c \<longrightarrow> ao_acpt (sc_aop c) = Some i \<and> ao_cli (sc_aop c) \<noteq> None \<and> ao_handler (sc_aop c) \<noteq> None)"

definition closing :: "'h core \<Rightarrow> bool" where
  "closing c \<longleftrightarrow> sc_fd c \<noteq> M_INVALID_SOCKET \<and> M_Impl_G_Close_Flag c"

text \<open>The object of a core that is closed may be gone, and with it the mark that the core is registered.\<close>

definition core_ok :: "nat \<Rightarrow> 'h core \<Rightarrow> bool" where
  "core_ok i c \<longleftrightarrow>
     (closing c \<or> M_Impl_G_Bind c = (sc_reg c \<noteq> None)) \<and> (M_Impl_G_Read_Flag c \<or> M_Impl_G_Write_Flag c \<longrightarrow> sc_reg c \<noteq> None)
     \<and> (M_Impl_G_Read_Flag c \<longrightarrow> rw_ready i (sc_rop c)) \<and> (M_Impl_G_Write_Flag c \<longrightarrow> rw_ready i (sc_wop c))
     \<and> (\<forall>r. sc_reg c = Some r \<longrightarrow> reg_ok i c (fst r) (snd r))
     \<and> (M_Impl_G_Block c \<and> sc_fd c \<noteq> M_INVALID_SOCKET \<and> \<not> M_Impl_G_Close_Flag c \<longrightarrow> sc_epoll c = -1)"

definition asked :: "('e, 'u, 'h) rx \<Rightarrow> nat \<Rightarrow> nat set" where
  "asked x t = fst ` set (ii_closereqs (rx_impl x t))"

text \<open>Requests to close: each socket once, and it is still open.\<close>

definition reqs_ok :: "('e, 'u, 'h) rx \<Rightarrow> bool" where
  "reqs_ok x \<longleftrightarrow>
     (\<forall>t. distinct (map fst (ii_closereqs (rx_impl x t))) \<and> (\<forall>i \<in> asked x t. closing (rx_core x i)))
     \<and> (\<forall>t u. t \<noteq> u \<longrightarrow> asked x t \<inter> asked x u = {})
     \<and> rx_implmap x (-1) = None"

definition rx_ok :: "('e, 'u, 'h) rx \<Rightarrow> bool" where
  "rx_ok x \<longleftrightarrow> (\<forall>i. core_ok i (rx_core x i)) \<and> reqs_ok x"

definition keeps_reg :: "('e, 'u, 'h) rx \<Rightarrow> ('e, 'u, 'h) rx \<Rightarrow> bool" where
  "keeps_reg x x' \<longleftrightarrow>
     (\<forall>i. sc_reg (rx_core x i) \<noteq> None \<longrightarrow> sc_reg (rx_core x' i) \<noteq> None)
     \<and> (\<forall>i. closing (rx_core x i) \<longrightarrow> closing (rx_core x' i) \<and> (\<forall>t. i \<in> asked x' t \<longrightarrow> i \<in> asked x t))"

lemma keeps_reg_refl [simp, intro]: "keeps_reg x x"
  by (simp add: keeps_reg_def)

lemma keeps_reg_trans [trans]: "keeps_reg x y \<Longrightarrow> keeps_reg y z \<Longrightarrow> keeps_reg x z"
  unfolding keeps_reg_def by blast

lemma core_do_sel [simp]:
  "rx_core (core_do i f x) j = (if j = i then f (rx_core x i) else rx_core x j)"
  "rx_env (core_do i f x) = rx_env x" "rx_user (core_do i f x) = rx_user x" "rx_impl (core_do i f x) = rx_impl x"
  "rx_implvector (core_do i f x) = rx_implvector x" "rx_implmap (core_do i f x) = rx_implmap x" "asked (core_do i f x) = asked x"
  by (simp_all add: core_do_def asked_def fun_eq_iff)

lemma impl_do_sel [simp]:
  "rx_impl (impl_do t f x) u = (if u = t then f (rx_impl x t) else rx_impl x u)"
  "rx_env (impl_do t f x) = rx_env x" "rx_user (impl_do t f x) = rx_user x" "rx_core (impl_do t f x) = rx_core x"
  "rx_implvector (impl_do t f x) = rx_implvector x" "rx_implmap (impl_do t f x) = rx_implmap x"
  by (simp_all add: impl_do_def)

lemma keeps_reg_core_do:
  assumes "sc_reg (f (rx_core x i)) = sc_reg (rx_core x i)" "closing (f (rx_core x i)) = closing (rx_core x i)"
  shows "keeps_reg (core_do i f x) x' = keeps_reg x x'"
proof -
  have "sc_reg (rx_core (core_do i f x) j) = sc_reg (rx_core x j)" "closing (rx_core (core_do i f x) j) = closing (rx_core x j)" for j
    using assms by simp_all
  then show ?thesis by (simp only: keeps_reg_def core_do_sel)
qed

lemma asked_env [simp]: "asked (x\<lparr>rx_env := e\<rparr>) = asked x" "asked (x\<lparr>rx_user := u\<rparr>) = asked x"
  by (simp_all add: asked_def fun_eq_iff)

lemma core_do_comp [simp]: "core_do i f (core_do i g x) = core_do i (f \<circ> g) x"
  by (simp add: core_do_def)

lemma core_do_env: "core_do i f (x\<lparr>rx_env := e\<rparr>) = (core_do i f x)\<lparr>rx_env := e\<rparr>"
  by (simp add: core_do_def)

lemma rx_ok_env [simp]: "rx_ok (x\<lparr>rx_env := e\<rparr>) = rx_ok x" "rx_ok (x\<lparr>rx_user := u\<rparr>) = rx_ok x"
  by (simp_all add: rx_ok_def reqs_ok_def asked_def)

lemma rx_okD: "rx_ok x \<Longrightarrow> core_ok i (rx_core x i)"
  by (simp add: rx_ok_def)

text \<open>A step that changes one core.\<close>

definition only_core :: "nat \<Rightarrow> ('e, 'u, 'h) rx \<Rightarrow> ('e, 'u, 'h) rx \<Rightarrow> bool" where
  "only_core i x x' \<longleftrightarrow> (\<forall>j. j \<noteq> i \<longrightarrow> rx_core x' j = rx_core x j) \<and> rx_user x' = rx_user x \<and> rx_implmap x' = rx_implmap x
     \<and> (\<forall>t. ii_closereqs (rx_impl x' t) = ii_closereqs (rx_impl x t))"

lemma only_core_simps [simp, intro]: "only_core i x x" "only_core i x (core_do i f x)" "only_core i x (x\<lparr>rx_env := e\<rparr>)"
  by (simp_all add: only_core_def)

lemma only_core_trans: "only_core i x y \<Longrightarrow> only_core i y z \<Longrightarrow> only_core i x z"
  by (simp add: only_core_def)

lemma only_core_ok:
  assumes "rx_ok x" "only_core i x x'" "core_ok i (rx_core x' i)"
    and "closing (rx_core x i) \<Longrightarrow> closing (rx_core x' i)" "sc_reg (rx_core x i) \<noteq> None \<Longrightarrow> sc_reg (rx_core x' i) \<noteq> None"
  shows "rx_ok x' \<and> keeps_reg x x'"
proof -
  have a: "asked x' = asked x" using assms(2) by (simp add: asked_def only_core_def fun_eq_iff)
  have c: "rx_core x' j = rx_core x j" if "j \<noteq> i" for j using assms(2) that by (simp add: only_core_def)
  have "core_ok j (rx_core x' j)" for j using assms(1,3) c [of j] by (cases "j = i") (simp_all add: rx_okD)
  moreover have cl: "closing (rx_core x j) \<Longrightarrow> closing (rx_core x' j)" for j using assms(4) c [of j] by (cases "j = i") simp_all
  moreover have "sc_reg (rx_core x j) \<noteq> None \<Longrightarrow> sc_reg (rx_core x' j) \<noteq> None" for j using assms(5) c [of j] by (cases "j = i") simp_all
  moreover have "reqs_ok x'" using assms(1,2) cl by (auto simp: rx_ok_def reqs_ok_def a only_core_def)
  ultimately show ?thesis by (simp add: rx_ok_def keeps_reg_def a)
qed

subsection \<open>Starting an operation\<close>

lemma assign_impl_only: "only_core i x (assign_impl i x) \<and> (\<exists>ep. rx_core (assign_impl i x) i = (rx_core x i)\<lparr>sc_epoll := ep\<rparr>)"
proof (cases "rx_implvector x = []")
  case True
  then show ?thesis by (auto simp: assign_impl_def intro: exI [of _ "sc_epoll (rx_core x i)"])
qed (auto simp: assign_impl_def only_core_def Let_def)

text \<open>\<^verbatim>\<open>epoll_ctl\<close> sets \<^verbatim>\<open>errno\<close> when it fails, and does not refuse to change what is registered.\<close>

definition ctl_law :: "'e sys \<Rightarrow> bool" where
  "ctl_law S \<longleftrightarrow> (\<forall>e. sy_errno S e \<noteq> 0) \<and> (\<forall>ep fd m e. fst (sy_ctl S ep M_EPOLL_CTL_MOD fd m e) = 0)"

lemma CtlEpoll_cases [consumes 3, case_names ok fail]:
  assumes "CtlEpoll S i i flag m err x = (err', x')" "flag \<noteq> M_EPOLL_CTL_DEL" "\<forall>e. sy_errno S e \<noteq> 0"
  obtains (ok) ep where "only_core i x x'" "err' = err" "ep \<noteq> -1"
      "rx_core x' i = (rx_core x i)\<lparr>sc_epoll := ep, sc_reg := Some (m, i)\<rparr>"
  | (fail) ep where "only_core i x x'" "err' \<noteq> 0" "rx_core x' i = (rx_core x i)\<lparr>sc_epoll := ep\<rparr>"
      "sc_epoll (rx_core x i) \<noteq> -1 \<Longrightarrow> ep = sc_epoll (rx_core x i)"
      "flag = M_EPOLL_CTL_MOD \<Longrightarrow> ctl_law S \<Longrightarrow> sc_epoll (rx_core x i) = -1"
proof -
  define y where "y = (if flag = M_EPOLL_CTL_ADD \<and> sc_epoll (rx_core x i) = -1 then assign_impl i x else x)"
  obtain ep where y: "only_core i x y" "rx_core y i = (rx_core x i)\<lparr>sc_epoll := ep\<rparr>"
    "sc_epoll (rx_core x i) \<noteq> -1 \<Longrightarrow> ep = sc_epoll (rx_core x i)" "flag = M_EPOLL_CTL_MOD \<Longrightarrow> ep = sc_epoll (rx_core x i)"
  proof (cases "flag = M_EPOLL_CTL_ADD \<and> sc_epoll (rx_core x i) = -1")
    case True
    then show ?thesis using that assign_impl_only [of i x] by (auto simp: y_def)
  next
    case False
    then have "y = x" unfolding y_def by (rule if_not_P)
    then show ?thesis using that [of "sc_epoll (rx_core x i)"] by simp
  qed
  obtain ret e where c: "sy_ctl S (sc_epoll (rx_core y i)) flag (sc_fd (rx_core y i)) m (rx_env y) = (ret, e)" by fastforce
  note run = assms(1)[unfolded CtlEpoll_def Let_def, folded y_def]
  show ?thesis
  proof (cases "ep = -1")
    case True
    then have "err' \<noteq> 0" "x' = y" using run y(2) by (auto simp: M_ERR_NOT_SERVICE_def)
    then show ?thesis using y True fail [of ep] by auto
  next
    case False
    show ?thesis
    proof (cases "ret = 0")
      case True
      then have "err' = err" "x' = core_do i (\<lambda>c. c\<lparr>sc_reg := Some (m, i)\<rparr>) (y\<lparr>rx_env := e\<rparr>)"
        using run y(2) False c assms(2) by simp_all
      moreover have "only_core i x x'" using calculation(2) y(1) by (auto simp: only_core_def)
      ultimately show ?thesis using ok [of ep] False y(2) by simp
    next
      case r: False
      then have "err' \<noteq> 0" "x' = y\<lparr>rx_env := e\<rparr>" using run y(2) False c assms(3) by auto
      moreover have "only_core i x x'" using calculation(2) y(1) by (auto simp: only_core_def)
      moreover have "\<not> (flag = M_EPOLL_CTL_MOD \<and> ctl_law S)"
        using c r by (auto simp: ctl_law_def) (metis fst_conv)
      ultimately show ?thesis using fail [of ep] y by auto
    qed
  qed
qed

lemma set_nonblock_cases:
  assumes "set_nonblock S i x = (ok, x')"
  shows "only_core i x x'" "rx_core x' i = (if ok then M_Impl_S_Nonblock (rx_core x i) else rx_core x i)"
proof -
  have u: "\<not> bit w 2 \<Longrightarrow> unset_bit 2 w = w" for w :: u16
    by (rule bit_word_eqI) (auto simp: bit_simps)
  show "only_core i x x'" "rx_core x' i = (if ok then M_Impl_S_Nonblock (rx_core x i) else rx_core x i)"
    using assms
    by (auto simp: set_nonblock_def only_core_def M_Impl_S_Nonblock_def M_Impl_G_Nonblock_def u split: prod.splits if_splits)
qed

lemma S_Bind_id: "M_Impl_G_Bind c \<Longrightarrow> M_Impl_S_Bind c = c"
proof -
  have "bit w 1 \<Longrightarrow> set_bit 1 w = w" for w :: u16
    by (rule bit_word_eqI) (auto simp: bit_simps)
  then show "M_Impl_G_Bind c \<Longrightarrow> M_Impl_S_Bind c = c" by (simp add: M_Impl_G_Bind_def M_Impl_S_Bind_def)
qed

lemma nonblock_flags [simp]:
  "M_Impl_G_Write_Flag (M_Impl_S_Nonblock c) = M_Impl_G_Write_Flag c" "M_Impl_G_Read_Flag (M_Impl_S_Nonblock c) = M_Impl_G_Read_Flag c"
  "M_Impl_G_Bind (M_Impl_S_Nonblock c) = M_Impl_G_Bind c"
  "M_Impl_G_Write_Flag (c\<lparr>sc_rop := r\<rparr>) = M_Impl_G_Write_Flag c" "M_Impl_G_Read_Flag (c\<lparr>sc_wop := r\<rparr>) = M_Impl_G_Read_Flag c"
  "M_Impl_G_Bind (c\<lparr>sc_rop := r\<rparr>) = M_Impl_G_Bind c" "M_Impl_G_Bind (c\<lparr>sc_wop := r\<rparr>) = M_Impl_G_Bind c"
  by (simp_all add: impl_bits bit_simps)

lemma recv_arm_eq:
  "recv_arm i x =
     (if M_Impl_G_Bind (rx_core x i) then M_EPOLL_CTL_MOD else M_EPOLL_CTL_ADD,
      if M_Impl_G_Write_Flag (rx_core x i) then M_EPOLLIN OR M_EPOLLOUT else M_EPOLLIN,
      core_do i (\<lambda>c. (M_Impl_S_Bind (M_Impl_S_Read_Flag c))\<lparr>sc_type := if M_Impl_G_Write_Flag c then E_READ_OP OR E_WRITE_OP else E_READ_OP\<rparr>) x)"
  using S_Bind_id [of "M_Impl_S_Read_Flag (rx_core x i)"]
  by (auto simp: recv_arm_def Let_def core_do_def fun_eq_iff impl_bits bit_simps)

lemma send_arm_eq:
  "send_arm i x =
     (if M_Impl_G_Bind (rx_core x i) then M_EPOLL_CTL_MOD else M_EPOLL_CTL_ADD,
      if M_Impl_G_Read_Flag (rx_core x i) then M_EPOLLOUT OR M_EPOLLIN else M_EPOLLOUT,
      core_do i (\<lambda>c. (M_Impl_S_Bind (M_Impl_S_Write_Flag c))\<lparr>sc_type := if M_Impl_G_Read_Flag c then E_WRITE_OP OR E_READ_OP else E_WRITE_OP\<rparr>) x)"
  using S_Bind_id [of "M_Impl_S_Write_Flag (rx_core x i)"]
  by (auto simp: send_arm_def Let_def core_do_def fun_eq_iff impl_bits bit_simps)

lemma core_ok_bind: "core_ok i c \<Longrightarrow> \<not> closing c \<Longrightarrow> M_Impl_G_Bind c = (sc_reg c \<noteq> None)"
  by (simp add: core_ok_def)

lemma core_ok_reg: "core_ok i c \<Longrightarrow> sc_reg c \<noteq> None \<Longrightarrow> \<exists>m. sc_reg c = Some (m, i) \<and> reg_ok i c m i"
  by (auto simp: core_ok_def closing_def reg_ok_def)

text \<open>What starting a read or a write leaves in the core.\<close>

definition recv_started :: "nat \<Rightarrow> nat \<Rightarrow> u32 \<Rightarrow> 'h \<Rightarrow> 'h core \<Rightarrow> bool" where
  "recv_started i data len h c \<longleftrightarrow> M_Impl_G_Read_Flag c \<and> sc_rop c = \<lparr>rw_buf = data, rw_len = len, rw_impl = Some i, rw_handler = Some h\<rparr>"

definition send_started :: "nat \<Rightarrow> nat \<Rightarrow> u32 \<Rightarrow> 'h \<Rightarrow> 'h core \<Rightarrow> bool" where
  "send_started i data len h c \<longleftrightarrow> M_Impl_G_Write_Flag c \<and> sc_wop c = \<lparr>rw_buf = data, rw_len = len, rw_impl = Some i, rw_handler = Some h\<rparr>"

text \<open>The core of a socket whose read could be started, and of one for which epoll refused it.\<close>

definition recv_core :: "nat \<Rightarrow> nat \<Rightarrow> u32 \<Rightarrow> 'h \<Rightarrow> int \<Rightarrow> 'h core \<Rightarrow> 'h core" where
  "recv_core i data len h ep c =
     (let w = M_Impl_G_Write_Flag c
      in (M_Impl_S_Bind (M_Impl_S_Read_Flag (M_Impl_S_Nonblock
           (c\<lparr>sc_rop := \<lparr>rw_buf = data, rw_len = len, rw_impl = Some i, rw_handler = Some h\<rparr>\<rparr>))))
         \<lparr>sc_type := if w then E_READ_OP OR E_WRITE_OP else E_READ_OP, sc_epoll := ep,
          sc_reg := Some (if w then M_EPOLLIN OR M_EPOLLOUT else M_EPOLLIN, i)\<rparr>)"

definition recv_refused :: "nat \<Rightarrow> nat \<Rightarrow> u32 \<Rightarrow> 'h \<Rightarrow> int \<Rightarrow> 'h core \<Rightarrow> 'h core" where
  "recv_refused i data len h ep c =
     Read_Clear (M_Impl_S_Unbind (M_Impl_C_Read_Flag
       ((M_Impl_S_Bind (M_Impl_S_Read_Flag (M_Impl_S_Nonblock
           (c\<lparr>sc_rop := \<lparr>rw_buf = data, rw_len = len, rw_impl = Some i, rw_handler = Some h\<rparr>\<rparr>))))
         \<lparr>sc_type := if M_Impl_G_Write_Flag c then E_READ_OP OR E_WRITE_OP else E_READ_OP, sc_epoll := ep\<rparr>)))"

lemma recv_core_ok:
  "core_ok i c \<Longrightarrow> sc_fd c \<noteq> M_INVALID_SOCKET \<Longrightarrow> ep \<noteq> -1 \<Longrightarrow> core_ok i (recv_core i data len h ep c)"
  by (auto simp: core_ok_def closing_def reg_ok_def impl_bits bit_simps rw_ready_def recv_core_def Let_def)

lemma recv_refused_ok:
  "core_ok i c \<Longrightarrow> sc_fd c \<noteq> M_INVALID_SOCKET \<Longrightarrow> sc_reg c = None \<Longrightarrow> \<not> closing c \<Longrightarrow> core_ok i (recv_refused i data len h ep c)"
  by (auto simp: core_ok_def closing_def reg_ok_def impl_bits bit_simps rw_ready_def recv_refused_def Read_Clear_def)

lemma recv_cleared_ok: "core_ok i c \<Longrightarrow> \<not> M_Impl_G_Read_Flag c \<Longrightarrow> core_ok i (Read_Clear c)"
  by (auto simp: core_ok_def closing_def reg_ok_def Read_Clear_def impl_bits rw_ready_def)

lemma recv_core_sel:
  "M_Impl_G_Read_Flag (recv_core i data len h ep c)" "M_Impl_G_Write_Flag (recv_core i data len h ep c) = M_Impl_G_Write_Flag c"
  "sc_rop (recv_core i data len h ep c) = \<lparr>rw_buf = data, rw_len = len, rw_impl = Some i, rw_handler = Some h\<rparr>"
  "sc_wop (recv_core i data len h ep c) = sc_wop c" "sc_fd (recv_core i data len h ep c) = sc_fd c"
  "closing (recv_core i data len h ep c) = closing c" "sc_reg (recv_core i data len h ep c) \<noteq> None"
  by (simp_all add: recv_core_def Let_def impl_bits bit_simps closing_def)

lemma recv_refused_sel:
  "\<not> M_Impl_G_Read_Flag (recv_refused i data len h ep c)" "M_Impl_G_Write_Flag (recv_refused i data len h ep c) = M_Impl_G_Write_Flag c"
  "sc_wop (recv_refused i data len h ep c) = sc_wop c" "sc_fd (recv_refused i data len h ep c) = sc_fd c"
  "closing (recv_refused i data len h ep c) = closing c"
  by (simp_all add: recv_refused_def impl_bits bit_simps closing_def Read_Clear_def)

lemma AsyncRecvSome_core:
  assumes ok: "rx_ok x" and free: "\<not> M_Impl_G_Read_Flag (rx_core x i)" "\<not> closing (rx_core x i)" and law: "ctl_law S"
    and run: "Io_AsyncRecvSome S i data len h 0 x = (err, x')"
  shows "only_core i x x' \<and>
    (err = 0 \<and> sc_fd (rx_core x i) \<noteq> M_INVALID_SOCKET \<and> (\<exists>ep. ep \<noteq> -1 \<and> rx_core x' i = recv_core i data len h ep (rx_core x i))
     \<or> err \<noteq> 0 \<and> rx_core x' i = Read_Clear (rx_core x i)
     \<or> err \<noteq> 0 \<and> sc_fd (rx_core x i) \<noteq> M_INVALID_SOCKET \<and> sc_reg (rx_core x i) = None
         \<and> (\<exists>ep. rx_core x' i = recv_refused i data len h ep (rx_core x i)))"
proof -
  let ?c = "rx_core x i"
  have en: "\<forall>e. sy_errno S e \<noteq> 0" using law by (simp add: ctl_law_def)
  define y where "y = core_do i (\<lambda>c. c\<lparr>sc_rop := \<lparr>rw_buf = data, rw_len = len, rw_impl = Some i, rw_handler = Some h\<rparr>\<rparr>) x"
  note run1 = run[unfolded Io_AsyncRecvSome_def Let_def, folded y_def]
  have y: "only_core i x y" "rx_core y i = ?c\<lparr>sc_rop := \<lparr>rw_buf = data, rw_len = len, rw_impl = Some i, rw_handler = Some h\<rparr>\<rparr>"
    by (simp_all add: y_def)
  have nr: "\<not> M_Impl_G_Read_Flag (rx_core y i)" using free by (simp add: y M_Impl_G_Read_Flag_def)
  show ?thesis
  proof (cases "sc_fd ?c = M_INVALID_SOCKET")
    case True
    then have "err \<noteq> 0" "x' = core_do i Read_Clear y" using run1 y by (auto simp: M_ERR_BAD_DESCRIPTOR_def)
    then show ?thesis using y by (simp add: only_core_def Read_Clear_def)
  next
    case live: False
    obtain nb x1 where nb: "set_nonblock S i y = (nb, x1)" by fastforce
    note n = set_nonblock_cases [OF nb]
    show ?thesis
    proof (cases nb)
      case False
      then have "err \<noteq> 0" "x' = core_do i Read_Clear x1" using run1 live y(2) nr nb en by auto
      then show ?thesis using y n False only_core_trans [OF y(1) n(1)] by (simp add: only_core_def Read_Clear_def)
    next
      case True
      obtain ctl flag x4 where arm: "recv_arm i x1 = (ctl, flag, x4)" by (rule prod_cases3)
      have a: "ctl = (if M_Impl_G_Bind (rx_core x1 i) then M_EPOLL_CTL_MOD else M_EPOLL_CTL_ADD)"
        "flag = (if M_Impl_G_Write_Flag (rx_core x1 i) then M_EPOLLIN OR M_EPOLLOUT else M_EPOLLIN)" "only_core i x1 x4"
        "rx_core x4 i = (M_Impl_S_Bind (M_Impl_S_Read_Flag (rx_core x1 i)))
           \<lparr>sc_type := if M_Impl_G_Write_Flag (rx_core x1 i) then E_READ_OP OR E_WRITE_OP else E_READ_OP\<rparr>"
        using arm[unfolded recv_arm_eq] by auto
      obtain err5 x5 where ct: "CtlEpoll S i i ctl flag 0 x4 = (err5, x5)" by fastforce
      have n2: "rx_core x1 i = M_Impl_S_Nonblock (rx_core y i)" using n True by simp
      have w: "M_Impl_G_Write_Flag (rx_core x1 i) = M_Impl_G_Write_Flag ?c" "M_Impl_G_Bind (rx_core x1 i) = M_Impl_G_Bind ?c"
        "sc_epoll (rx_core x4 i) = sc_epoll ?c"
        by (simp_all add: a(4) n2 y impl_bits bit_simps)
      have fx: "err = err5" "x' = (if err5 \<noteq> 0 then core_do i (Read_Clear \<circ> M_Impl_S_Unbind \<circ> M_Impl_C_Read_Flag) x5 else x5)"
        using run1 live y(2) nr nb True arm ct by (simp_all split: if_splits)
      have oc: "only_core i x x4" using only_core_trans [OF y(1) only_core_trans [OF n(1) a(3)]] by simp
      have "ctl \<noteq> M_EPOLL_CTL_DEL" by (simp add: a(1))
      with ct show ?thesis using en
      proof (cases rule: CtlEpoll_cases)
        case (ok ep)
        then have "only_core i x x'" "err = 0" using only_core_trans [OF oc] fx by auto
        moreover have "rx_core x' i = recv_core i data len h ep ?c" using ok(4) fx \<open>err = 0\<close> by (simp add: a(2,4) n2 [unfolded y] Let_def recv_core_def)
        ultimately show ?thesis using ok live by blast
      next
        case (fail ep)
        then have "only_core i x x'" "err \<noteq> 0" using only_core_trans [OF oc] fx by (auto intro: only_core_trans)
        moreover have "rx_core x' i = recv_refused i data len h ep ?c" using fail(3) fx \<open>err \<noteq> 0\<close> by (simp add: a(4) n2 [unfolded y] Let_def recv_refused_def)
        moreover have "sc_reg ?c = None"
        proof (rule ccontr)
          assume r: "sc_reg ?c \<noteq> None"
          then have "M_Impl_G_Bind ?c" using core_ok_bind [OF rx_okD [OF ok] free(2)] by simp
          then have "sc_epoll ?c = -1" using fail(5) law w by (simp add: a(1))
          then show False using core_ok_reg [OF rx_okD [OF ok] r] by (auto simp: reg_ok_def)
        qed
        ultimately show ?thesis using live by blast
      qed
    qed
  qed
qed

theorem AsyncRecvSome_ok:
  assumes ok: "rx_ok x" and free: "\<not> M_Impl_G_Read_Flag (rx_core x i)" "\<not> closing (rx_core x i)" and law: "ctl_law S"
    and run: "Io_AsyncRecvSome S i data len h 0 x = (err, x')"
  shows "rx_ok x' \<and> keeps_reg x x' \<and> only_core i x x'
    \<and> (if err = 0 then recv_started i data len h (rx_core x' i) else \<not> M_Impl_G_Read_Flag (rx_core x' i))
    \<and> M_Impl_G_Write_Flag (rx_core x' i) = M_Impl_G_Write_Flag (rx_core x i) \<and> sc_wop (rx_core x' i) = sc_wop (rx_core x i)
    \<and> sc_fd (rx_core x' i) = sc_fd (rx_core x i) \<and> closing (rx_core x' i) = closing (rx_core x i)"
proof -
  let ?c = "rx_core x i"
  note co = rx_okD [OF ok, of i]
  have oc: "only_core i x x'" and d: "err = 0 \<and> sc_fd ?c \<noteq> M_INVALID_SOCKET \<and> (\<exists>ep. ep \<noteq> -1 \<and> rx_core x' i = recv_core i data len h ep ?c)
     \<or> err \<noteq> 0 \<and> rx_core x' i = Read_Clear ?c
     \<or> err \<noteq> 0 \<and> sc_fd ?c \<noteq> M_INVALID_SOCKET \<and> sc_reg ?c = None \<and> (\<exists>ep. rx_core x' i = recv_refused i data len h ep ?c)"
    using AsyncRecvSome_core [OF assms] by blast+
  note sel = recv_core_sel recv_refused_sel
  have cl: "sc_wop (Read_Clear ?c) = sc_wop ?c" "M_Impl_G_Write_Flag (Read_Clear ?c) = M_Impl_G_Write_Flag ?c"
    "\<not> M_Impl_G_Read_Flag (Read_Clear ?c)" "sc_fd (Read_Clear ?c) = sc_fd ?c" "closing (Read_Clear ?c) = closing ?c" "sc_reg (Read_Clear ?c) = sc_reg ?c"
    using free by (simp_all add: Read_Clear_def impl_bits closing_def)
  have k: "core_ok i (rx_core x' i) \<and> closing (rx_core x' i) = closing ?c \<and> (sc_reg ?c \<noteq> None \<longrightarrow> sc_reg (rx_core x' i) \<noteq> None)"
    using d
  proof (elim disjE conjE exE)
    fix ep assume "rx_core x' i = recv_core i data len h ep ?c" "sc_fd ?c \<noteq> M_INVALID_SOCKET" "ep \<noteq> -1"
    then show ?thesis using recv_core_ok [OF co] by (simp add: sel)
  next
    assume "rx_core x' i = Read_Clear ?c"
    then show ?thesis using recv_cleared_ok [OF co free(1)] cl by simp
  next
    fix ep assume "rx_core x' i = recv_refused i data len h ep ?c" "sc_fd ?c \<noteq> M_INVALID_SOCKET" "sc_reg ?c = None"
    then show ?thesis using recv_refused_ok [OF co] free(2) by (simp add: sel)
  qed
  then have "rx_ok x' \<and> keeps_reg x x'" by (intro only_core_ok [OF ok oc]) auto
  moreover have "(if err = 0 then recv_started i data len h (rx_core x' i) else \<not> M_Impl_G_Read_Flag (rx_core x' i))"
    using d cl by (elim disjE conjE exE) (simp_all add: sel recv_started_def)
  moreover have "M_Impl_G_Write_Flag (rx_core x' i) = M_Impl_G_Write_Flag ?c \<and> sc_wop (rx_core x' i) = sc_wop ?c \<and> sc_fd (rx_core x' i) = sc_fd ?c"
    using d cl by (elim disjE conjE exE) (simp_all add: sel)
  ultimately show ?thesis using oc k by blast
qed

text \<open>The core of a socket whose write could be started, and of one for which epoll refused it.\<close>

definition send_core :: "nat \<Rightarrow> nat \<Rightarrow> u32 \<Rightarrow> 'h \<Rightarrow> int \<Rightarrow> 'h core \<Rightarrow> 'h core" where
  "send_core i data len h ep c =
     (let w = M_Impl_G_Read_Flag c
      in (M_Impl_S_Bind (M_Impl_S_Write_Flag (M_Impl_S_Nonblock
           (c\<lparr>sc_wop := \<lparr>rw_buf = data, rw_len = len, rw_impl = Some i, rw_handler = Some h\<rparr>\<rparr>))))
         \<lparr>sc_type := if w then E_WRITE_OP OR E_READ_OP else E_WRITE_OP, sc_epoll := ep,
          sc_reg := Some (if w then M_EPOLLOUT OR M_EPOLLIN else M_EPOLLOUT, i)\<rparr>)"

definition send_refused :: "nat \<Rightarrow> nat \<Rightarrow> u32 \<Rightarrow> 'h \<Rightarrow> int \<Rightarrow> 'h core \<Rightarrow> 'h core" where
  "send_refused i data len h ep c =
     Write_Clear (M_Impl_S_Unbind (M_Impl_C_Write_Flag
       ((M_Impl_S_Bind (M_Impl_S_Write_Flag (M_Impl_S_Nonblock
           (c\<lparr>sc_wop := \<lparr>rw_buf = data, rw_len = len, rw_impl = Some i, rw_handler = Some h\<rparr>\<rparr>))))
         \<lparr>sc_type := if M_Impl_G_Read_Flag c then E_WRITE_OP OR E_READ_OP else E_WRITE_OP, sc_epoll := ep\<rparr>)))"

lemma send_core_ok:
  "core_ok i c \<Longrightarrow> sc_fd c \<noteq> M_INVALID_SOCKET \<Longrightarrow> ep \<noteq> -1 \<Longrightarrow> core_ok i (send_core i data len h ep c)"
  by (auto simp: core_ok_def closing_def reg_ok_def impl_bits bit_simps rw_ready_def send_core_def Let_def)

lemma send_refused_ok:
  "core_ok i c \<Longrightarrow> sc_fd c \<noteq> M_INVALID_SOCKET \<Longrightarrow> sc_reg c = None \<Longrightarrow> \<not> closing c \<Longrightarrow> core_ok i (send_refused i data len h ep c)"
  by (auto simp: core_ok_def closing_def reg_ok_def impl_bits bit_simps rw_ready_def send_refused_def Write_Clear_def)

lemma send_cleared_ok: "core_ok i c \<Longrightarrow> \<not> M_Impl_G_Write_Flag c \<Longrightarrow> core_ok i (Write_Clear c)"
  by (auto simp: core_ok_def closing_def reg_ok_def Write_Clear_def impl_bits rw_ready_def)

lemma send_core_sel:
  "M_Impl_G_Write_Flag (send_core i data len h ep c)" "M_Impl_G_Read_Flag (send_core i data len h ep c) = M_Impl_G_Read_Flag c"
  "sc_wop (send_core i data len h ep c) = \<lparr>rw_buf = data, rw_len = len, rw_impl = Some i, rw_handler = Some h\<rparr>"
  "sc_rop (send_core i data len h ep c) = sc_rop c" "sc_fd (send_core i data len h ep c) = sc_fd c"
  "closing (send_core i data len h ep c) = closing c" "sc_reg (send_core i data len h ep c) \<noteq> None"
  by (simp_all add: send_core_def Let_def impl_bits bit_simps closing_def)

lemma send_refused_sel:
  "\<not> M_Impl_G_Write_Flag (send_refused i data len h ep c)" "M_Impl_G_Read_Flag (send_refused i data len h ep c) = M_Impl_G_Read_Flag c"
  "sc_rop (send_refused i data len h ep c) = sc_rop c" "sc_fd (send_refused i data len h ep c) = sc_fd c"
  "closing (send_refused i data len h ep c) = closing c"
  by (simp_all add: send_refused_def impl_bits bit_simps closing_def Write_Clear_def)

lemma AsyncSendSome_core:
  assumes ok: "rx_ok x" and free: "\<not> M_Impl_G_Write_Flag (rx_core x i)" "\<not> closing (rx_core x i)" and law: "ctl_law S"
    and run: "Io_AsyncSendSome S i data len h 0 x = (err, x')"
  shows "only_core i x x' \<and>
    (err = 0 \<and> sc_fd (rx_core x i) \<noteq> M_INVALID_SOCKET \<and> (\<exists>ep. ep \<noteq> -1 \<and> rx_core x' i = send_core i data len h ep (rx_core x i))
     \<or> err \<noteq> 0 \<and> rx_core x' i = Write_Clear (rx_core x i)
     \<or> err \<noteq> 0 \<and> sc_fd (rx_core x i) \<noteq> M_INVALID_SOCKET \<and> sc_reg (rx_core x i) = None
         \<and> (\<exists>ep. rx_core x' i = send_refused i data len h ep (rx_core x i)))"
proof -
  let ?c = "rx_core x i"
  have en: "\<forall>e. sy_errno S e \<noteq> 0" using law by (simp add: ctl_law_def)
  define y where "y = core_do i (\<lambda>c. c\<lparr>sc_wop := \<lparr>rw_buf = data, rw_len = len, rw_impl = Some i, rw_handler = Some h\<rparr>\<rparr>) x"
  note run1 = run[unfolded Io_AsyncSendSome_def Let_def, folded y_def]
  have y: "only_core i x y" "rx_core y i = ?c\<lparr>sc_wop := \<lparr>rw_buf = data, rw_len = len, rw_impl = Some i, rw_handler = Some h\<rparr>\<rparr>"
    by (simp_all add: y_def)
  have nr: "\<not> M_Impl_G_Write_Flag (rx_core y i)" using free by (simp add: y M_Impl_G_Write_Flag_def)
  show ?thesis
  proof (cases "sc_fd ?c = M_INVALID_SOCKET")
    case True
    then have "err \<noteq> 0" "x' = core_do i Write_Clear y" using run1 y by (auto simp: M_ERR_BAD_DESCRIPTOR_def)
    then show ?thesis using y by (simp add: only_core_def Write_Clear_def)
  next
    case live: False
    obtain nb x1 where nb: "set_nonblock S i y = (nb, x1)" by fastforce
    note n = set_nonblock_cases [OF nb]
    show ?thesis
    proof (cases nb)
      case False
      then have "err \<noteq> 0" "x' = core_do i Write_Clear x1" using run1 live y(2) nr nb en by auto
      then show ?thesis using y n False only_core_trans [OF y(1) n(1)] by (simp add: only_core_def Write_Clear_def)
    next
      case True
      obtain ctl flag x4 where arm: "send_arm i x1 = (ctl, flag, x4)" by (rule prod_cases3)
      have a: "ctl = (if M_Impl_G_Bind (rx_core x1 i) then M_EPOLL_CTL_MOD else M_EPOLL_CTL_ADD)"
        "flag = (if M_Impl_G_Read_Flag (rx_core x1 i) then M_EPOLLOUT OR M_EPOLLIN else M_EPOLLOUT)" "only_core i x1 x4"
        "rx_core x4 i = (M_Impl_S_Bind (M_Impl_S_Write_Flag (rx_core x1 i)))
           \<lparr>sc_type := if M_Impl_G_Read_Flag (rx_core x1 i) then E_WRITE_OP OR E_READ_OP else E_WRITE_OP\<rparr>"
        using arm[unfolded send_arm_eq] by auto
      obtain err5 x5 where ct: "CtlEpoll S i i ctl flag 0 x4 = (err5, x5)" by fastforce
      have n2: "rx_core x1 i = M_Impl_S_Nonblock (rx_core y i)" using n True by simp
      have w: "M_Impl_G_Read_Flag (rx_core x1 i) = M_Impl_G_Read_Flag ?c" "M_Impl_G_Bind (rx_core x1 i) = M_Impl_G_Bind ?c"
        "sc_epoll (rx_core x4 i) = sc_epoll ?c"
        by (simp_all add: a(4) n2 y impl_bits bit_simps)
      have fx: "err = err5" "x' = (if err5 \<noteq> 0 then core_do i (Write_Clear \<circ> M_Impl_S_Unbind \<circ> M_Impl_C_Write_Flag) x5 else x5)"
        using run1 live y(2) nr nb True arm ct by (simp_all split: if_splits)
      have oc: "only_core i x x4" using only_core_trans [OF y(1) only_core_trans [OF n(1) a(3)]] by simp
      have "ctl \<noteq> M_EPOLL_CTL_DEL" by (simp add: a(1))
      with ct show ?thesis using en
      proof (cases rule: CtlEpoll_cases)
        case (ok ep)
        then have "only_core i x x'" "err = 0" using only_core_trans [OF oc] fx by auto
        moreover have "rx_core x' i = send_core i data len h ep ?c" using ok(4) fx \<open>err = 0\<close> by (simp add: a(2,4) n2 [unfolded y] Let_def send_core_def)
        ultimately show ?thesis using ok live by blast
      next
        case (fail ep)
        then have "only_core i x x'" "err \<noteq> 0" using only_core_trans [OF oc] fx by (auto intro: only_core_trans)
        moreover have "rx_core x' i = send_refused i data len h ep ?c" using fail(3) fx \<open>err \<noteq> 0\<close> by (simp add: a(4) n2 [unfolded y] Let_def send_refused_def)
        moreover have "sc_reg ?c = None"
        proof (rule ccontr)
          assume r: "sc_reg ?c \<noteq> None"
          then have "M_Impl_G_Bind ?c" using core_ok_bind [OF rx_okD [OF ok] free(2)] by simp
          then have "sc_epoll ?c = -1" using fail(5) law w by (simp add: a(1))
          then show False using core_ok_reg [OF rx_okD [OF ok] r] by (auto simp: reg_ok_def)
        qed
        ultimately show ?thesis using live by blast
      qed
    qed
  qed
qed

theorem AsyncSendSome_ok:
  assumes ok: "rx_ok x" and free: "\<not> M_Impl_G_Write_Flag (rx_core x i)" "\<not> closing (rx_core x i)" and law: "ctl_law S"
    and run: "Io_AsyncSendSome S i data len h 0 x = (err, x')"
  shows "rx_ok x' \<and> keeps_reg x x' \<and> only_core i x x'
    \<and> (if err = 0 then send_started i data len h (rx_core x' i) else \<not> M_Impl_G_Write_Flag (rx_core x' i))
    \<and> M_Impl_G_Read_Flag (rx_core x' i) = M_Impl_G_Read_Flag (rx_core x i) \<and> sc_rop (rx_core x' i) = sc_rop (rx_core x i)
    \<and> sc_fd (rx_core x' i) = sc_fd (rx_core x i) \<and> closing (rx_core x' i) = closing (rx_core x i)"
proof -
  let ?c = "rx_core x i"
  note co = rx_okD [OF ok, of i]
  have oc: "only_core i x x'" and d: "err = 0 \<and> sc_fd ?c \<noteq> M_INVALID_SOCKET \<and> (\<exists>ep. ep \<noteq> -1 \<and> rx_core x' i = send_core i data len h ep ?c)
     \<or> err \<noteq> 0 \<and> rx_core x' i = Write_Clear ?c
     \<or> err \<noteq> 0 \<and> sc_fd ?c \<noteq> M_INVALID_SOCKET \<and> sc_reg ?c = None \<and> (\<exists>ep. rx_core x' i = send_refused i data len h ep ?c)"
    using AsyncSendSome_core [OF assms] by blast+
  note sel = send_core_sel send_refused_sel
  have cl: "sc_rop (Write_Clear ?c) = sc_rop ?c" "M_Impl_G_Read_Flag (Write_Clear ?c) = M_Impl_G_Read_Flag ?c"
    "\<not> M_Impl_G_Write_Flag (Write_Clear ?c)" "sc_fd (Write_Clear ?c) = sc_fd ?c" "closing (Write_Clear ?c) = closing ?c" "sc_reg (Write_Clear ?c) = sc_reg ?c"
    using free by (simp_all add: Write_Clear_def impl_bits closing_def)
  have k: "core_ok i (rx_core x' i) \<and> closing (rx_core x' i) = closing ?c \<and> (sc_reg ?c \<noteq> None \<longrightarrow> sc_reg (rx_core x' i) \<noteq> None)"
    using d
  proof (elim disjE conjE exE)
    fix ep assume "rx_core x' i = send_core i data len h ep ?c" "sc_fd ?c \<noteq> M_INVALID_SOCKET" "ep \<noteq> -1"
    then show ?thesis using send_core_ok [OF co] by (simp add: sel)
  next
    assume "rx_core x' i = Write_Clear ?c"
    then show ?thesis using send_cleared_ok [OF co free(1)] cl by simp
  next
    fix ep assume "rx_core x' i = send_refused i data len h ep ?c" "sc_fd ?c \<noteq> M_INVALID_SOCKET" "sc_reg ?c = None"
    then show ?thesis using send_refused_ok [OF co] free(2) by (simp add: sel)
  qed
  then have "rx_ok x' \<and> keeps_reg x x'" by (intro only_core_ok [OF ok oc]) auto
  moreover have "(if err = 0 then send_started i data len h (rx_core x' i) else \<not> M_Impl_G_Write_Flag (rx_core x' i))"
    using d cl by (elim disjE conjE exE) (simp_all add: sel send_started_def)
  moreover have "M_Impl_G_Read_Flag (rx_core x' i) = M_Impl_G_Read_Flag ?c \<and> sc_rop (rx_core x' i) = sc_rop ?c \<and> sc_fd (rx_core x' i) = sc_fd ?c"
    using d cl by (elim disjE conjE exE) (simp_all add: sel)
  ultimately show ?thesis using oc k by blast
qed

subsection \<open>Connecting, accepting, closing\<close>

text \<open>The flags are set for good, epoll is asked when it is the first time, and takes it or refuses.\<close>

definition bound_core :: "nat \<Rightarrow> u32 \<Rightarrow> int \<Rightarrow> 'h core \<Rightarrow> 'h core" where
  "bound_core i m ep c = (if M_Impl_G_Bind c then c else (M_Impl_S_Bind c)\<lparr>sc_epoll := ep, sc_reg := Some (m, i)\<rparr>)"

definition connect_core :: "nat \<Rightarrow> 'h \<Rightarrow> 'h core \<Rightarrow> 'h core" where
  "connect_core i h c = (M_Impl_S_Connect_Flag (M_Impl_S_Nonblock c))\<lparr>sc_type := E_CONNECT_OP, sc_cop := \<lparr>ko_impl = Some i, ko_handler = Some h\<rparr>\<rparr>"

definition accept_core :: "nat \<Rightarrow> nat \<Rightarrow> 'h \<Rightarrow> 'h core \<Rightarrow> 'h core" where
  "accept_core i cli h c = (M_Impl_S_Accept_Flag (M_Impl_S_Nonblock c))
     \<lparr>sc_type := E_ACCEPT_OP, sc_aop := \<lparr>ao_acpt = Some i, ao_cli = Some cli, ao_handler = Some h\<rparr>\<rparr>"

lemma connect_core_ok:
  assumes "core_ok i c" "sc_fd c \<noteq> M_INVALID_SOCKET" "\<not> M_Impl_G_Read_Flag c" "\<not> M_Impl_G_Write_Flag c" "\<not> M_Impl_G_Bind c \<Longrightarrow> ep \<noteq> -1" "\<not> closing c"
  shows "core_ok i (bound_core i m ep (connect_core i h c))"
proof (cases "sc_reg c")
  case None
  have f: "\<not> bit (sc_state c) 1" "\<not> bit (sc_state c) 8" "\<not> bit (sc_state c) 7" using assms core_ok_bind [OF assms(1,6)] None by (simp_all add: impl_bits)
  have b: "\<not> M_Impl_G_Bind (connect_core i h c)" "ep \<noteq> -1" using f assms(5) by (simp_all add: connect_core_def impl_bits bit_simps)
  show ?thesis unfolding bound_core_def if_not_P [OF b(1)]
    using f b(2) assms(2) by (simp add: core_ok_def reg_ok_def connect_core_def impl_bits bit_simps)
next
  case (Some r)
  have f: "bit (sc_state c) 1" "\<not> bit (sc_state c) 8" "\<not> bit (sc_state c) 7" using assms core_ok_bind [OF assms(1,6)] Some by (simp_all add: impl_bits)
  have b: "M_Impl_G_Bind (connect_core i h c)" using f by (simp add: connect_core_def impl_bits bit_simps)
  show ?thesis unfolding bound_core_def if_P [OF b]
    using f Some assms(1,2) by (simp add: core_ok_def reg_ok_def connect_core_def impl_bits bit_simps)
qed

lemma accept_core_ok:
  assumes "core_ok i c" "sc_fd c \<noteq> M_INVALID_SOCKET" "\<not> M_Impl_G_Read_Flag c" "\<not> M_Impl_G_Write_Flag c" "\<not> M_Impl_G_Bind c \<Longrightarrow> ep \<noteq> -1" "\<not> closing c"
  shows "core_ok i (bound_core i m ep (accept_core i cli h c))"
proof (cases "sc_reg c")
  case None
  have f: "\<not> bit (sc_state c) 1" "\<not> bit (sc_state c) 8" "\<not> bit (sc_state c) 7" using assms core_ok_bind [OF assms(1,6)] None by (simp_all add: impl_bits)
  have b: "\<not> M_Impl_G_Bind (accept_core i cli h c)" "ep \<noteq> -1" using f assms(5) by (simp_all add: accept_core_def impl_bits bit_simps)
  show ?thesis unfolding bound_core_def if_not_P [OF b(1)]
    using f b(2) assms(2) by (simp add: core_ok_def reg_ok_def accept_core_def impl_bits bit_simps)
next
  case (Some r)
  have f: "bit (sc_state c) 1" "\<not> bit (sc_state c) 8" "\<not> bit (sc_state c) 7" using assms core_ok_bind [OF assms(1,6)] Some by (simp_all add: impl_bits)
  have b: "M_Impl_G_Bind (accept_core i cli h c)" using f by (simp add: accept_core_def impl_bits bit_simps)
  show ?thesis unfolding bound_core_def if_P [OF b]
    using f Some assms(1,2) by (simp add: core_ok_def reg_ok_def accept_core_def impl_bits bit_simps)
qed

text \<open>A core without registration is fine whatever else is in it, as long as no flag says otherwise.\<close>

lemma idle_core_ok:
  "\<lbrakk>core_ok i c; sc_reg c = None; sc_reg d = None; \<not> M_Impl_G_Bind d; M_Impl_G_Read_Flag d = M_Impl_G_Read_Flag c;
    M_Impl_G_Write_Flag d = M_Impl_G_Write_Flag c; \<not> M_Impl_G_Block d\<rbrakk> \<Longrightarrow> core_ok i d"
  by (auto simp: core_ok_def closing_def)

lemma bind_part:
  assumes "(if \<not> M_Impl_G_Bind (rx_core x i) then CtlEpoll S i i M_EPOLL_CTL_ADD m err (core_do i M_Impl_S_Bind x) else (err, x)) = (err', x')"
    and en: "\<forall>e. sy_errno S e \<noteq> 0"
  obtains (ok) ep where "only_core i x x'" "err' = err" "\<not> M_Impl_G_Bind (rx_core x i) \<Longrightarrow> ep \<noteq> -1" "rx_core x' i = bound_core i m ep (rx_core x i)"
  | (fail) ep where "only_core i x x'" "err' \<noteq> 0" "\<not> M_Impl_G_Bind (rx_core x i)" "rx_core x' i = (M_Impl_S_Bind (rx_core x i))\<lparr>sc_epoll := ep\<rparr>"
proof (cases "M_Impl_G_Bind (rx_core x i)")
  case True
  then have "x' = x" "err' = err" using assms(1) by simp_all
  then show ?thesis using True by (intro ok [of 0]) (simp_all add: bound_core_def)
next
  case False
  then have ct: "CtlEpoll S i i M_EPOLL_CTL_ADD m err (core_do i M_Impl_S_Bind x) = (err', x')" using assms(1) by simp
  have t: "only_core i x x'" if "only_core i (core_do i M_Impl_S_Bind x) x'"
    using only_core_trans [OF only_core_simps(2) that] .
  have "M_EPOLL_CTL_ADD \<noteq> M_EPOLL_CTL_DEL" by simp
  with ct show ?thesis using en
  proof (cases rule: CtlEpoll_cases)
    case (ok ep)
    then show ?thesis using False t by (intro that(1) [of ep]) (simp_all add: bound_core_def)
  next
    case (fail ep)
    then show ?thesis using False t by (intro that(2) [of ep]) simp_all
  qed
qed

lemma AsyncConnect_ok:
  assumes ok: "rx_ok x" and free: "\<not> M_Impl_G_Read_Flag (rx_core x i)" "\<not> M_Impl_G_Write_Flag (rx_core x i)" "\<not> closing (rx_core x i)" and law: "ctl_law S"
    and run: "Io_AsyncConnect S i ep h 0 x = (err, x')"
  shows "rx_ok x' \<and> keeps_reg x x' \<and> only_core i x x' \<and> \<not> M_Impl_G_Read_Flag (rx_core x' i) \<and> \<not> M_Impl_G_Write_Flag (rx_core x' i)
    \<and> closing (rx_core x' i) = closing (rx_core x i) \<and> sc_fd (rx_core x' i) = sc_fd (rx_core x i)
    \<and> (if err = 0 then \<exists>ep. rx_core x' i = bound_core i (M_EPOLLOUT OR M_EPOLLONESHOT) ep (connect_core i h (rx_core x i))
       else sc_reg (rx_core x' i) = sc_reg (rx_core x i))"
proof -
  let ?c = "rx_core x i"
  note co = rx_okD [OF ok, of i]
  have en: "\<forall>e. sy_errno S e \<noteq> 0" using law by (simp add: ctl_law_def)
  have fin: ?thesis if "only_core i x x'" "core_ok i (rx_core x' i)" "closing (rx_core x' i) = closing ?c" "sc_reg ?c \<noteq> None \<Longrightarrow> sc_reg (rx_core x' i) \<noteq> None"
      "\<not> M_Impl_G_Read_Flag (rx_core x' i)" "\<not> M_Impl_G_Write_Flag (rx_core x' i)" "sc_fd (rx_core x' i) = sc_fd ?c"
      "if err = 0 then \<exists>ep. rx_core x' i = bound_core i (M_EPOLLOUT OR M_EPOLLONESHOT) ep (connect_core i h ?c) else sc_reg (rx_core x' i) = sc_reg ?c"
    using that only_core_ok [OF ok that(1,2)] by auto
  have trivial: ?thesis if "rx_core x' i = ?c" "only_core i x x'" "err \<noteq> 0" using that co free by (intro fin) simp_all
  show ?thesis
  proof (cases "sc_fd ?c = M_INVALID_SOCKET \<or> M_Impl_G_Connect_Flag ?c \<or> ep = None")
    case True
    then show ?thesis using run by (intro trivial) (auto simp: Io_AsyncConnect_def M_ERR_BAD_DESCRIPTOR_def M_ERR_POSTED_CONNECT_def M_ERR_ENDPOINT_INVALID_def split: if_splits option.splits)
  next
    case False
    then obtain addr where ep: "ep = Some addr" and live: "sc_fd ?c \<noteq> M_INVALID_SOCKET" "\<not> M_Impl_G_Connect_Flag ?c" by blast
    obtain nb x1 where nb: "set_nonblock S i x = (nb, x1)" by fastforce
    note n = set_nonblock_cases [OF nb]
    obtain ret e where cn: "sy_connect S (sc_fd (rx_core x1 i)) addr (rx_env x1) = (ret, e)" by fastforce
    consider (nonb) "\<not> nb" | (refused) nb "ret = -1 \<and> sy_errno S e \<noteq> M_EINPROGRESS" | (started) nb "\<not> (ret = -1 \<and> sy_errno S e \<noteq> M_EINPROGRESS)" by blast
    then show ?thesis
    proof cases
      case nonb
      then show ?thesis using run live ep nb n en by (intro trivial) (auto simp: Io_AsyncConnect_def)
    next
      case refused
      then have x': "x' = x1\<lparr>rx_env := e\<rparr>" "err \<noteq> 0" using run live ep nb cn en by (auto simp: Io_AsyncConnect_def)
      then have c: "rx_core x' i = M_Impl_S_Nonblock ?c" "only_core i x x'" using n refused by (simp_all add: only_core_def)
      show ?thesis using c free co x'(2) by (intro fin) (auto simp: core_ok_def closing_def reg_ok_def impl_bits bit_simps)
    next
      case started
      define x2 where "x2 = core_do i (\<lambda>c. (M_Impl_S_Connect_Flag c)\<lparr>sc_type := E_CONNECT_OP,
                              sc_cop := \<lparr>ko_impl = Some i, ko_handler = Some h\<rparr>\<rparr>) (x1\<lparr>rx_env := e\<rparr>)"
      have x2: "rx_core x2 i = connect_core i h ?c" "only_core i x x2"
        using n started by (auto simp: x2_def connect_core_def only_core_def)
      obtain e3 x3 where b: "(if \<not> M_Impl_G_Bind (rx_core x2 i) then CtlEpoll S i i M_EPOLL_CTL_ADD (M_EPOLLOUT OR M_EPOLLONESHOT) 0
            (core_do i M_Impl_S_Bind x2) else (0, x2)) = (e3, x3)" by fastforce
      have r: "err = e3 \<and> x' = (if e3 \<noteq> 0 then core_do i (Connect_Clear \<circ> M_Impl_S_Unbind \<circ> M_Impl_C_Connect_Flag) x3 else x3)"
        using run live ep nb cn started b by (auto simp: Io_AsyncConnect_def Let_def x2_def split: if_splits)
      show ?thesis
        using b en
      proof (cases rule: bind_part)
        case (ok ep')
        have "core_ok i (bound_core i (M_EPOLLOUT OR M_EPOLLONESHOT) ep' (connect_core i h ?c))"
          by (rule connect_core_ok) (use co live free ok(3) x2 in \<open>auto simp: connect_core_def impl_bits bit_simps\<close>)
        moreover have "rx_core x' i = bound_core i (M_EPOLLOUT OR M_EPOLLONESHOT) ep' (connect_core i h ?c)" using ok r x2 by simp
        moreover have "only_core i x x'" using only_core_trans [OF x2(2) ok(1)] ok r by simp
        moreover have "err = 0" using ok r by simp
        moreover have "\<not> M_Impl_G_Read_Flag (bound_core i m ep' (connect_core i h ?c))" "\<not> M_Impl_G_Write_Flag (bound_core i m ep' (connect_core i h ?c))"
            "closing (bound_core i m ep' (connect_core i h ?c)) = closing ?c" "sc_fd (bound_core i m ep' (connect_core i h ?c)) = sc_fd ?c"
            "sc_reg ?c \<noteq> None \<Longrightarrow> sc_reg (bound_core i m ep' (connect_core i h ?c)) \<noteq> None" for m
          using free by (auto simp: bound_core_def connect_core_def closing_def impl_bits bit_simps)
        ultimately show ?thesis by (intro fin) auto
      next
        case (fail ep')
        have nreg: "sc_reg ?c = None" using fail(3) x2 core_ok_bind [OF co free(3)]
          by (cases "sc_reg ?c") (simp_all add: connect_core_def impl_bits bit_simps)
        have c: "rx_core x' i = Connect_Clear (M_Impl_S_Unbind (M_Impl_C_Connect_Flag ((M_Impl_S_Bind (connect_core i h ?c))\<lparr>sc_epoll := ep'\<rparr>)))"
          using fail r x2 by simp
        have "only_core i x x'" using only_core_trans [OF x2(2) fail(1)] fail(2) r by (auto intro: only_core_trans)
        moreover have "core_ok i (rx_core x' i)"
          by (rule idle_core_ok [OF co nreg]) (use nreg in \<open>simp_all add: c Connect_Clear_def connect_core_def impl_bits bit_simps\<close>)
        moreover have "err \<noteq> 0" using fail(2) r by simp
        ultimately show ?thesis using free nreg
          by (intro fin) (auto simp: c Connect_Clear_def connect_core_def closing_def impl_bits bit_simps)
      qed
    qed
  qed
qed

lemma AsyncAccept_ok:
  assumes ok: "rx_ok (core_do i (\<lambda>c. c\<lparr>sc_type := 0\<rparr>) x)"
    and free: "\<not> M_Impl_G_Read_Flag (rx_core x i)" "\<not> M_Impl_G_Write_Flag (rx_core x i)" "\<not> closing (rx_core x i)" and law: "ctl_law S"
    and run: "Io_AsyncAccept S i cli h 0 x = (0, x')"
  shows "rx_ok x' \<and> keeps_reg x x' \<and> only_core i x x' \<and> sc_fd (rx_core x' i) = sc_fd (rx_core x i)
    \<and> (\<exists>ep. rx_core x' i = bound_core i M_EPOLLIN ep (accept_core i cli h (rx_core x i)))"
proof -
  let ?c = "rx_core x i" let ?y = "core_do i (\<lambda>c. c\<lparr>sc_type := 0\<rparr>) x"
  note co = rx_okD [OF ok, of i]
  have en: "\<forall>e. sy_errno S e \<noteq> 0" using law by (simp add: ctl_law_def)
  have live: "sc_fd ?c \<noteq> M_INVALID_SOCKET" "\<not> M_Impl_G_Accept_Flag ?c"
    using run by (auto simp: Io_AsyncAccept_def M_ERR_BAD_DESCRIPTOR_def M_ERR_POSTED_ACCEPT_def split: if_splits)
  obtain nb x1 where nb: "set_nonblock S i x = (nb, x1)" by fastforce
  then have nb1: "set_nonblock S i x = (True, x1)" using run live en by (cases nb) (auto simp: Io_AsyncAccept_def)
  note n = set_nonblock_cases [OF nb1, simplified]
  define x2 where "x2 = core_do i (\<lambda>c. (M_Impl_S_Accept_Flag c)\<lparr>sc_type := E_ACCEPT_OP,
                       sc_aop := \<lparr>ao_acpt = Some i, ao_cli = Some cli, ao_handler = Some h\<rparr>\<rparr>) x1"
  have x2: "rx_core x2 i = accept_core i cli h ?c" "only_core i x x2"
    using n only_core_trans [OF n(1)] by (auto simp: x2_def accept_core_def)
  obtain e3 x3 where b: "(if \<not> M_Impl_G_Bind (rx_core x2 i) then CtlEpoll S i i M_EPOLL_CTL_ADD M_EPOLLIN 0
        (core_do i M_Impl_S_Bind x2) else (0, x2)) = (e3, x3)" by fastforce
  have r: "e3 = 0 \<and> x' = x3"
    using run live nb1 b by (auto simp: Io_AsyncAccept_def Let_def x2_def split: if_splits)
  show ?thesis
    using b en
  proof (cases rule: bind_part)
    case (ok ep)
    have e: "accept_core i cli h (rx_core ?y i) = accept_core i cli h ?c" by (simp add: accept_core_def impl_bits)
    have "core_ok i (bound_core i M_EPOLLIN ep (accept_core i cli h (rx_core ?y i)))"
      by (rule accept_core_ok [OF co]) (use live free ok(3) x2 in \<open>auto simp: accept_core_def closing_def impl_bits bit_simps\<close>)
    moreover have c: "rx_core x' i = bound_core i M_EPOLLIN ep (accept_core i cli h ?c)" using ok r x2 by simp
    ultimately have k: "core_ok i (rx_core x' i)" unfolding e c by simp
    have o: "only_core i x x'" using only_core_trans [OF x2(2) ok(1)] r by simp
    then have oy: "only_core i ?y x'" by (simp add: only_core_def)
    have s: "closing (rx_core x' i) = closing ?c" "sc_reg ?c \<noteq> None \<Longrightarrow> sc_reg (rx_core x' i) \<noteq> None"
      "sc_fd (rx_core x' i) = sc_fd ?c" "sc_aop (rx_core x' i) = \<lparr>ao_acpt = Some i, ao_cli = Some cli, ao_handler = Some h\<rparr>"
      "sc_type (rx_core x' i) = E_ACCEPT_OP"
      by (simp_all add: c bound_core_def accept_core_def closing_def impl_bits bit_simps)
    have "rx_ok x' \<and> keeps_reg ?y x'"
      by (rule only_core_ok [OF assms(1) oy k]) (use s in \<open>simp_all add: closing_def impl_bits\<close>)
    moreover have "keeps_reg ?y x' = keeps_reg x x'" by (rule keeps_reg_core_do) (simp_all add: closing_def impl_bits)
    ultimately show ?thesis using o s c by blast
  next
    case (fail ep)
    then show ?thesis using r by simp
  qed
qed

lemma AsyncAccept_refused:
  assumes ok: "rx_ok x" and new: "sc_reg (rx_core x i) = None" "\<not> closing (rx_core x i)" and law: "ctl_law S"
    and run: "Io_AsyncAccept S i cli h 0 x = (err, x')" "err \<noteq> 0"
  shows "only_core i x x' \<and> core_ok i (rx_core x' i) \<and> sc_reg (rx_core x' i) = None \<and> sc_fd (rx_core x' i) = sc_fd (rx_core x i)
    \<and> closing (rx_core x' i) = closing (rx_core x i)"
proof -
  let ?c = "rx_core x i"
  note co = rx_okD [OF ok, of i]
  have en: "\<forall>e. sy_errno S e \<noteq> 0" using law by (simp add: ctl_law_def)
  have b: "\<not> M_Impl_G_Bind ?c" "\<not> M_Impl_G_Read_Flag ?c" "\<not> M_Impl_G_Write_Flag ?c"
    using core_ok_bind [OF co new(2)] co new(1) by (simp_all add: core_ok_def)
  show ?thesis
  proof (cases "sc_fd ?c = M_INVALID_SOCKET \<or> M_Impl_G_Accept_Flag ?c")
    case True
    then show ?thesis using run co new by (auto simp: Io_AsyncAccept_def split: if_splits)
  next
    case live: False
    obtain nb x1 where nb: "set_nonblock S i x = (nb, x1)" by fastforce
    note n = set_nonblock_cases [OF nb]
    show ?thesis
    proof (cases nb)
      case False
      then show ?thesis using run live nb n co new by (auto simp: Io_AsyncAccept_def)
    next
      case True
      define x2 where "x2 = core_do i (\<lambda>c. (M_Impl_S_Accept_Flag c)\<lparr>sc_type := E_ACCEPT_OP,
                       sc_aop := \<lparr>ao_acpt = Some i, ao_cli = Some cli, ao_handler = Some h\<rparr>\<rparr>) x1"
      have x2: "rx_core x2 i = accept_core i cli h ?c" "only_core i x x2"
        using n only_core_trans [OF n(1)] True by (auto simp: x2_def accept_core_def)
      obtain e3 x3 where bd: "(if \<not> M_Impl_G_Bind (rx_core x2 i) then CtlEpoll S i i M_EPOLL_CTL_ADD M_EPOLLIN 0
            (core_do i M_Impl_S_Bind x2) else (0, x2)) = (e3, x3)" by fastforce
      have r: "err = e3 \<and> x' = core_do i (Accept_Clear \<circ> M_Impl_S_Unbind \<circ> M_Impl_C_Accept_Flag) x3"
        using run live nb True bd by (auto simp: Io_AsyncAccept_def Let_def x2_def split: if_splits)
      show ?thesis
        using bd en
      proof (cases rule: bind_part)
        case (ok ep)
        then show ?thesis using r run(2) by simp
      next
        case (fail ep)
        have c: "rx_core x' i = Accept_Clear (M_Impl_S_Unbind (M_Impl_C_Accept_Flag ((M_Impl_S_Bind (accept_core i cli h ?c))\<lparr>sc_epoll := ep\<rparr>)))"
          using fail r x2 by simp
        have "only_core i x x'" using only_core_trans [OF x2(2) fail(1)] r by (auto intro: only_core_trans)
        moreover have "core_ok i (rx_core x' i)"
          by (rule idle_core_ok [OF co new(1)]) (use new b in \<open>simp_all add: c Accept_Clear_def accept_core_def impl_bits bit_simps\<close>)
        ultimately show ?thesis using new by (simp add: c Accept_Clear_def accept_core_def closing_def impl_bits bit_simps)
      qed
    qed
  qed
qed

text \<open>An acceptor that is set up goes on with the next socket.\<close>

lemma AsyncAccept_again:
  assumes "sc_fd (rx_core x i) \<noteq> M_INVALID_SOCKET" "\<not> M_Impl_G_Accept_Flag (rx_core x i)" "M_Impl_G_Nonblock (rx_core x i)" "M_Impl_G_Bind (rx_core x i)"
  shows "Io_AsyncAccept S i cli h 0 x = (0, core_do i (\<lambda>c. (M_Impl_S_Accept_Flag c)\<lparr>sc_type := E_ACCEPT_OP,
                       sc_aop := \<lparr>ao_acpt = Some i, ao_cli = Some cli, ao_handler = Some h\<rparr>\<rparr>) x)"
proof -
  have "M_Impl_G_Bind ((M_Impl_S_Accept_Flag (rx_core x i))\<lparr>sc_type := t, sc_aop := a\<rparr>)" for t a
    using assms(4) by (simp add: impl_bits bit_simps)
  then show ?thesis using assms by (simp add: Io_AsyncAccept_def set_nonblock_def Let_def)
qed

lemma core_closed_ok: "core_ok i (core_closed c)"
  by (simp add: core_ok_def core_closed_def impl_bits)

lemma close_flag_ok: "core_ok i c \<Longrightarrow> core_ok i (M_Impl_S_Close_Flag c)"
  by (auto simp: core_ok_def closing_def reg_ok_def impl_bits bit_simps)

text \<open>\<^verbatim>\<open>Close\<close>: a socket of the loop is marked and asked to be closed by its thread.\<close>

lemma Io_Close_ok:
  assumes ok: "rx_ok x" and run: "Io_Close S i h err x = (err', x')"
  shows "rx_ok x' \<and> keeps_reg x x' \<and> rx_user x' = rx_user x \<and> (\<forall>j. j \<noteq> i \<longrightarrow> rx_core x' j = rx_core x j)
    \<and> (rx_core x' i \<in> {rx_core x i, core_closed (rx_core x i), M_Impl_S_Close_Flag (rx_core x i)})
    \<and> (sc_fd (rx_core x' i) = M_INVALID_SOCKET \<or> closing (rx_core x' i))"
proof (cases "sc_fd (rx_core x i) \<noteq> M_INVALID_SOCKET \<and> \<not> M_Impl_G_Close_Flag (rx_core x i)")
  case False
  then have "x' = x" using run unfolding Io_Close_def if_not_P [OF False] by simp
  then show ?thesis using ok False by (auto simp: closing_def)
next
  case True
  let ?c = "rx_core x i"
  note co = rx_okD [OF ok, of i]
  define sim where "sim = GetIoServiceImpl i x"
  define x1 where "x1 = (case sim of None \<Rightarrow> x | Some t \<Rightarrow> impl_do t (\<lambda>s. s\<lparr>ii_fdcnt := ii_fdcnt s - 1\<rparr>) x)"
  have x1: "rx_core x1 = rx_core x" "rx_user x1 = rx_user x" "rx_implmap x1 = rx_implmap x"
      "ii_closereqs (rx_impl x1 t) = ii_closereqs (rx_impl x t)" for t
    by (auto simp: x1_def split: option.split)
  show ?thesis
  proof (cases "M_Impl_G_Block ?c")
    case True
    then have "sc_epoll ?c = -1" using co \<open>sc_fd ?c \<noteq> _ \<and> _\<close> by (simp add: core_ok_def)
    then have n: "sim = None" "sc_reg ?c = None"
      using ok core_ok_reg [OF co] by (auto simp: sim_def GetIoServiceImpl_def rx_ok_def reqs_ok_def reg_ok_def intro: ccontr)
    then obtain e where x': "x' = core_do i core_closed (x\<lparr>rx_env := e\<rparr>)"
      using run \<open>sc_fd ?c \<noteq> _ \<and> _\<close> True unfolding Io_Close_def if_P [OF \<open>sc_fd ?c \<noteq> _ \<and> _\<close>]
      by (auto simp: sim_def [symmetric] Let_def split: prod.splits)
    have "only_core i x x'" by (simp add: x' only_core_def)
    then have "rx_ok x' \<and> keeps_reg x x'"
      using n \<open>sc_fd ?c \<noteq> _ \<and> _\<close> by (intro only_core_ok [OF ok]) (auto simp: x' core_closed_ok closing_def)
    then show ?thesis by (simp add: x' core_closed_def)
  next
    case False
    define x2 where "x2 = core_do i M_Impl_S_Close_Flag x1"
    have x2: "rx_user x2 = rx_user x" "rx_implmap x2 = rx_implmap x" "j \<noteq> i \<Longrightarrow> rx_core x2 j = rx_core x j"
        "rx_core x2 i = M_Impl_S_Close_Flag ?c" "ii_closereqs (rx_impl x2 t) = ii_closereqs (rx_impl x t)" for t j
      by (simp_all add: x2_def x1)
    have x': "x' = (case sim of None \<Rightarrow> x2
        | Some t \<Rightarrow> impl_do t (\<lambda>s. s\<lparr>ii_closereqs2 := ii_closereqs2 s - 1, ii_closereqs := ii_closereqs s @ [(i, h)]\<rparr>) x2)"
      using run False unfolding Io_Close_def if_P [OF \<open>sc_fd ?c \<noteq> _ \<and> _\<close>]
      by (auto simp: sim_def [symmetric] x1_def [symmetric] x2_def x1 Let_def split: option.split)
    have cl: "closing (M_Impl_S_Close_Flag ?c)" using \<open>sc_fd ?c \<noteq> _ \<and> _\<close> by (simp add: closing_def impl_bits bit_simps)
    have na: "i \<notin> asked x t" for t using ok \<open>sc_fd ?c \<noteq> _ \<and> _\<close> by (auto simp: rx_ok_def reqs_ok_def closing_def)
    have o2: "only_core i x x2" using x2 by (simp add: only_core_def)
    then have k2: "rx_ok x2 \<and> keeps_reg x x2"
      using cl close_flag_ok [OF co] x2 by (intro only_core_ok [OF ok]) (auto simp: impl_bits)
    show ?thesis
    proof (cases sim)
      case None
      then show ?thesis using x' k2 x2 cl by simp
    next
      case (Some t)
      have a: "asked x' u = (if u = t then insert i (asked x u) else asked x u)" "rx_core x' = rx_core x2" "rx_user x' = rx_user x"
          "rx_implmap x' = rx_implmap x" "ii_closereqs (rx_impl x' u) = ii_closereqs (rx_impl x u) @ (if u = t then [(i, h)] else [])" for u
        using x' Some x2 by (auto simp: asked_def)
      have r: "distinct (map fst (ii_closereqs (rx_impl x u)))" "u \<noteq> v \<Longrightarrow> asked x u \<inter> asked x v = {}" "rx_implmap x (-1) = None" "j \<in> asked x u \<Longrightarrow> closing (rx_core x j)" for u v j
        using ok by (simp_all add: rx_ok_def reqs_ok_def)
      have "distinct (map fst (ii_closereqs (rx_impl x' u)))" for u using r(1) [of u] na [of u] by (auto simp: a(5) asked_def)
      moreover have "asked x' u \<inter> asked x' v = {}" if "u \<noteq> v" for u v using r(2) [OF that] na that by (auto simp: a(1))
      moreover have "closing (rx_core x' j)" if "j \<in> asked x' u" for j u
        using r(4) [of j u] that cl x2 by (cases "j = i") (auto simp: a(1,2) split: if_splits)
      ultimately have "reqs_ok x'" using r(3) by (simp add: reqs_ok_def a)
      moreover have "keeps_reg x x'"
        using k2 na \<open>sc_fd ?c \<noteq> _ \<and> _\<close> by (auto simp: keeps_reg_def a closing_def asked_def)
      ultimately show ?thesis using k2 a x2 cl by (auto simp: rx_ok_def)
    qed
  qed
qed

end
