(* ===== verification/Epoll_Loop.thy ===== *)
theory Epoll_Loop
  imports Epoll_Props
begin

text \<open>
  Completions and the loop of a thread.  The locale says what the loop asks of the handlers: in which state each is called, and
  what it must leave.  Its lemmas show that the loop then never runs into a missing handler or core and closes each descriptor once.
\<close>

subsection \<open>What a completion does before it calls the handler\<close>

definition read_done :: "u32 \<times> nat \<Rightarrow> 'h core \<Rightarrow> 'h core" where
  "read_done r c = Read_Clear ((M_Impl_C_Read_Flag c)\<lparr>sc_type := sc_type c AND NOT E_READ_OP, sc_reg := Some r\<rparr>)"

definition write_done :: "u32 \<times> nat \<Rightarrow> 'h core \<Rightarrow> 'h core" where
  "write_done r c = Write_Clear ((M_Impl_C_Write_Flag (c\<lparr>sc_type := sc_type c AND NOT E_WRITE_OP\<rparr>))\<lparr>sc_reg := Some r\<rparr>)"

definition connect_done :: "'h core \<Rightarrow> 'h core" where
  "connect_done c = Connect_Clear ((M_Impl_C_Connect_Flag c)\<lparr>sc_type := sc_type c AND NOT E_CONNECT_OP\<rparr>)"

definition accept_done :: "'h core \<Rightarrow> 'h core" where
  "accept_done c = Accept_Clear (M_Impl_C_Accept_Flag c)"

definition accepted :: "bool \<Rightarrow> int \<Rightarrow> 'h core \<Rightarrow> 'h core" where
  "accepted v fd c = (if v then M_Impl_S_V4 else M_Impl_S_V6) (c\<lparr>sc_fd := fd\<rparr>)"

lemma CtlEpoll_mod:
  assumes run: "CtlEpoll S i i M_EPOLL_CTL_MOD m err x = (err', x')"
  shows "\<exists>e r. x' = core_do i (\<lambda>c. c\<lparr>sc_reg := r\<rparr>) (x\<lparr>rx_env := e\<rparr>) \<and> (r = sc_reg (rx_core x i) \<or> r = Some (m, i))"
proof -
  obtain ret e where c: "sy_ctl S (sc_epoll (rx_core x i)) M_EPOLL_CTL_MOD (sc_fd (rx_core x i)) m (rx_env x) = (ret, e)" by fastforce
  have id: "core_do i (\<lambda>c. c\<lparr>sc_reg := sc_reg (rx_core x i)\<rparr>) y = y" if "rx_core y = rx_core x" for y :: "('a, 'b, 'c) rx"
    using that by (simp add: core_do_def fun_upd_idem)
  consider "sc_epoll (rx_core x i) = -1" | "sc_epoll (rx_core x i) \<noteq> -1" "ret \<noteq> 0" | "sc_epoll (rx_core x i) \<noteq> -1" "ret = 0" by blast
  then show ?thesis
  proof cases
    case 1
    then have "x' = x\<lparr>rx_env := rx_env x\<rparr>" using run by (simp add: CtlEpoll_def)
    then show ?thesis using id [of "x\<lparr>rx_env := rx_env x\<rparr>"] by (intro exI [of _ "rx_env x"] exI [of _ "sc_reg (rx_core x i)"]) simp
  next
    case 2
    then have "x' = x\<lparr>rx_env := e\<rparr>" using run c by (simp add: CtlEpoll_def)
    then show ?thesis using id [of "x\<lparr>rx_env := e\<rparr>"] by (intro exI [of _ e] exI [of _ "sc_reg (rx_core x i)"]) simp
  next
    case 3
    then show ?thesis using run c by (auto simp: CtlEpoll_def)
  qed
qed

lemma GetSoError_env: "\<exists>err' v e. Io_GetSoError S i err x = (err', v, x\<lparr>rx_env := e\<rparr>)"
  by (auto simp: Io_GetSoError_def split: prod.split)

text \<open>\<^verbatim>\<open>recv\<close> and \<^verbatim>\<open>send\<close> return at most what they were given.\<close>

definition rw_law :: "'e sys \<Rightarrow> bool" where
  "rw_law S \<longleftrightarrow> (\<forall>fd b l e. fst (sy_recv S fd b l e) \<le> uint l \<and> fst (sy_send S fd b l e) \<le> uint l)"

text \<open>A connection that could not be accepted leaves no error behind on the listening socket.\<close>

definition accept_law :: "'e sys \<Rightarrow> bool" where
  "accept_law S \<longleftrightarrow> (\<forall>fd e. fst (sy_accept S fd e) < 0 \<longrightarrow> fst (sy_soerror S fd (snd (sy_accept S fd e))) = (0, 0))"

lemma transferred: "ret \<le> uint (l :: u32) \<Longrightarrow> (if ret < 0 then 0 else word_of_int ret) \<le> l"
proof (cases "ret < 0")
  case False
  assume "ret \<le> uint l"
  moreover have "uint l < 2 ^ 32" using uint_bounded [of l] by simp
  ultimately have "uint (word_of_int ret :: u32) = ret" using False by (simp add: uint_word_of_int)
  then show ?thesis using False \<open>ret \<le> uint l\<close> by (simp add: word_le_def)
qed simp

lemma rw_error_env: "\<exists>err' e. rw_error S i fail ret err x = (err', x\<lparr>rx_env := e\<rparr>)"
proof -
  have "x = x\<lparr>rx_env := rx_env x\<rparr>" by simp
  then have "\<exists>e. x = x\<lparr>rx_env := e\<rparr>" by (rule exI)
  then show ?thesis using GetSoError_env [of S i err x] by (auto simp: rw_error_def)
qed

lemma read_unarm_eq:
  assumes ok: "core_ok i (rx_core x i)" and rd: "sc_reg (rx_core x i) \<noteq> None"
  obtains m e err where "read_unarm S i i x
      = (True, err, core_do i (\<lambda>c. (M_Impl_C_Read_Flag c)\<lparr>sc_type := sc_type c AND NOT E_READ_OP, sc_reg := Some (m, i)\<rparr>) (x\<lparr>rx_env := e\<rparr>))"
    "M_Impl_G_Write_Flag (rx_core x i) \<longrightarrow> bit m 2"
proof -
  let ?c = "rx_core x i"
  obtain m0 where r0: "sc_reg ?c = Some (m0, i)" "reg_ok i ?c m0 i" using core_ok_reg [OF ok rd] by blast
  define x1 where "x1 = core_do i (\<lambda>c. (M_Impl_C_Read_Flag c)\<lparr>sc_type := sc_type c AND NOT E_READ_OP\<rparr>) x"
  define m1 where "m1 = (if sc_type (rx_core x1 i) AND E_WRITE_OP \<noteq> 0 then M_EPOLLOUT else 0)"
  obtain err x2 where ct: "CtlEpoll S i i M_EPOLL_CTL_MOD m1 0 x1 = (err, x2)" by fastforce
  have "read_unarm S i i x = (True, CtlEpoll S i i M_EPOLL_CTL_MOD m1 0 x1)"
    using r0 by (simp add: read_unarm_def m1_def x1_def Let_def reg_ok_def comp_def M_Impl_C_Read_Flag_def)
  moreover from CtlEpoll_mod [OF ct] obtain e r where x2: "x2 = core_do i (\<lambda>c. c\<lparr>sc_reg := r\<rparr>) (x1\<lparr>rx_env := e\<rparr>)"
    and r: "r = sc_reg (rx_core x1 i) \<or> r = Some (m1, i)" by blast
  moreover have "\<exists>m. r = Some (m, i) \<and> (M_Impl_G_Write_Flag ?c \<longrightarrow> bit m 2)"
    using r r0 by (auto simp: x1_def M_Impl_C_Read_Flag_def reg_ok_def m1_def op_bits bit_simps)
  ultimately show ?thesis using ct that [of err _ e] by (auto simp: x1_def core_do_def M_Impl_C_Read_Flag_def)
qed

lemma ReadComplete_call:
  assumes ok: "rx_ok x" and rd: "M_Impl_G_Read_Flag (rx_core x i)" and law: "rw_law S"
  obtains h n err m e where "rw_handler (sc_rop (rx_core x i)) = Some h" "n \<le> rw_len (sc_rop (rx_core x i))"
    "M_Impl_G_Write_Flag (rx_core x i) \<longrightarrow> bit m 2"
    "ReadComplete S H i x = H (CRead h n err) (core_do i (read_done (m, i)) (x\<lparr>rx_env := e\<rparr>))"
proof -
  let ?c = "rx_core x i"
  have co: "core_ok i ?c" using ok by (rule rx_okD)
  then obtain h where h: "rw_impl (sc_rop ?c) = Some i" "rw_handler (sc_rop ?c) = Some h" and rg: "sc_reg ?c \<noteq> None"
    using rd by (auto simp: core_ok_def rw_ready_def)
  from read_unarm_eq [OF co rg] obtain m e2 err2 where un: "read_unarm S i i x
      = (True, err2, core_do i (\<lambda>c. (M_Impl_C_Read_Flag c)\<lparr>sc_type := sc_type c AND NOT E_READ_OP, sc_reg := Some (m, i)\<rparr>) (x\<lparr>rx_env := e2\<rparr>))"
    and m: "M_Impl_G_Write_Flag ?c \<longrightarrow> bit m 2" by blast
  define x2 where "x2 = core_do i (\<lambda>c. (M_Impl_C_Read_Flag c)\<lparr>sc_type := sc_type c AND NOT E_READ_OP, sc_reg := Some (m, i)\<rparr>) (x\<lparr>rx_env := e2\<rparr>)"
  have s2: "sc_fd (rx_core x2 i) = sc_fd ?c" "sc_rop (rx_core x2 i) = sc_rop ?c"
    by (simp_all add: x2_def M_Impl_C_Read_Flag_def)
  obtain ret e3 where rc: "sy_recv S (sc_fd ?c) (rw_buf (sc_rop ?c)) (rw_len (sc_rop ?c)) (rx_env x2) = (ret, e3)" by fastforce
  have ret: "ret \<le> uint (rw_len (sc_rop ?c))" using law rc by (metis rw_law_def fst_conv)
  obtain err e4 where so: "rw_error S i M_ERR_ASYNC_READ_FAIL ret err2 (x2\<lparr>rx_env := e3\<rparr>) = (err, x2\<lparr>rx_env := e4\<rparr>)"
    using rw_error_env [of S i M_ERR_ASYNC_READ_FAIL ret err2 "x2\<lparr>rx_env := e3\<rparr>"] by auto
  have run: "ReadComplete S H i x = H (CRead h (if ret < 0 then 0 else word_of_int ret) err) (core_do i Read_Clear (x2\<lparr>rx_env := e4\<rparr>))"
    using h un [folded x2_def] s2 rc so by (simp add: ReadComplete_def Let_def)
  have "core_do i Read_Clear (x2\<lparr>rx_env := e4\<rparr>) = core_do i (read_done (m, i)) (x\<lparr>rx_env := e4\<rparr>)"
    by (simp add: x2_def core_do_def read_done_def Read_Clear_def M_Impl_C_Read_Flag_def)
  then show ?thesis using that [OF h(2) transferred [OF ret] m] run by simp
qed

lemma write_unarm_eq:
  assumes ok: "core_ok i (rx_core x i)" and rd: "sc_reg (rx_core x i) \<noteq> None"
  obtains m e err where "write_unarm S i i x
      = (True, err, core_do i (\<lambda>c. (M_Impl_C_Write_Flag (c\<lparr>sc_type := sc_type c AND NOT E_WRITE_OP\<rparr>))\<lparr>sc_reg := Some (m, i)\<rparr>) (x\<lparr>rx_env := e\<rparr>))"
    "M_Impl_G_Read_Flag (rx_core x i) \<longrightarrow> bit m 0"
proof -
  let ?c = "rx_core x i"
  obtain m0 where r0: "sc_reg ?c = Some (m0, i)" "reg_ok i ?c m0 i" using core_ok_reg [OF ok rd] by blast
  define x1 where "x1 = core_do i (\<lambda>c. M_Impl_C_Write_Flag (c\<lparr>sc_type := sc_type c AND NOT E_WRITE_OP\<rparr>)) x"
  define m1 where "m1 = (if sc_type (rx_core x1 i) AND E_READ_OP \<noteq> 0 then M_EPOLLIN else 0)"
  obtain err x2 where ct: "CtlEpoll S i i M_EPOLL_CTL_MOD m1 0 x1 = (err, x2)" by fastforce
  have "write_unarm S i i x = (True, CtlEpoll S i i M_EPOLL_CTL_MOD m1 0 x1)"
    using r0 by (simp add: write_unarm_def m1_def x1_def Let_def reg_ok_def comp_def M_Impl_C_Write_Flag_def)
  moreover from CtlEpoll_mod [OF ct] obtain e r where x2: "x2 = core_do i (\<lambda>c. c\<lparr>sc_reg := r\<rparr>) (x1\<lparr>rx_env := e\<rparr>)"
    and r: "r = sc_reg (rx_core x1 i) \<or> r = Some (m1, i)" by blast
  moreover have "\<exists>m. r = Some (m, i) \<and> (M_Impl_G_Read_Flag ?c \<longrightarrow> bit m 0)"
    using r r0 by (auto simp: x1_def M_Impl_C_Write_Flag_def reg_ok_def m1_def op_bits bit_simps)
  ultimately show ?thesis using ct that [of err _ e] by (auto simp: x1_def core_do_def M_Impl_C_Write_Flag_def)
qed

lemma WriteComplete_call:
  assumes ok: "rx_ok x" and rd: "M_Impl_G_Write_Flag (rx_core x i)" and law: "rw_law S"
  obtains h n err m e where "rw_handler (sc_wop (rx_core x i)) = Some h" "n \<le> rw_len (sc_wop (rx_core x i))"
    "M_Impl_G_Read_Flag (rx_core x i) \<longrightarrow> bit m 0"
    "WriteComplete S H i x = H (CWrite h n err) (core_do i (write_done (m, i)) (x\<lparr>rx_env := e\<rparr>))"
proof -
  let ?c = "rx_core x i"
  have co: "core_ok i ?c" using ok by (rule rx_okD)
  then obtain h where h: "rw_impl (sc_wop ?c) = Some i" "rw_handler (sc_wop ?c) = Some h" and rg: "sc_reg ?c \<noteq> None"
    using rd by (auto simp: core_ok_def rw_ready_def)
  from write_unarm_eq [OF co rg] obtain m e2 err2 where un: "write_unarm S i i x
      = (True, err2, core_do i (\<lambda>c. (M_Impl_C_Write_Flag (c\<lparr>sc_type := sc_type c AND NOT E_WRITE_OP\<rparr>))\<lparr>sc_reg := Some (m, i)\<rparr>) (x\<lparr>rx_env := e2\<rparr>))"
    and m: "M_Impl_G_Read_Flag ?c \<longrightarrow> bit m 0" by blast
  define x2 where "x2 = core_do i (\<lambda>c. (M_Impl_C_Write_Flag (c\<lparr>sc_type := sc_type c AND NOT E_WRITE_OP\<rparr>))\<lparr>sc_reg := Some (m, i)\<rparr>) (x\<lparr>rx_env := e2\<rparr>)"
  have s2: "sc_fd (rx_core x2 i) = sc_fd ?c" "sc_wop (rx_core x2 i) = sc_wop ?c"
    by (simp_all add: x2_def M_Impl_C_Write_Flag_def)
  obtain ret e3 where rc: "sy_send S (sc_fd ?c) (rw_buf (sc_wop ?c)) (rw_len (sc_wop ?c)) (rx_env x2) = (ret, e3)" by fastforce
  have ret: "ret \<le> uint (rw_len (sc_wop ?c))" using law rc by (metis rw_law_def fst_conv)
  obtain err e4 where so: "rw_error S i M_ERR_ASYNC_WRITE_FAIL ret err2 (x2\<lparr>rx_env := e3\<rparr>) = (err, x2\<lparr>rx_env := e4\<rparr>)"
    using rw_error_env [of S i M_ERR_ASYNC_WRITE_FAIL ret err2 "x2\<lparr>rx_env := e3\<rparr>"] by auto
  have run: "WriteComplete S H i x = H (CWrite h (if ret < 0 then 0 else word_of_int ret) err) (core_do i Write_Clear (x2\<lparr>rx_env := e4\<rparr>))"
    using h un [folded x2_def] s2 rc so by (simp add: WriteComplete_def Let_def)
  have "core_do i Write_Clear (x2\<lparr>rx_env := e4\<rparr>) = core_do i (write_done (m, i)) (x\<lparr>rx_env := e4\<rparr>)"
    by (simp add: x2_def core_do_def write_done_def Write_Clear_def M_Impl_C_Write_Flag_def)
  then show ?thesis using that [OF h(2) transferred [OF ret] m] run by simp
qed

lemma ConnectComplete_call:
  assumes ok: "rx_ok x" and rg: "sc_reg (rx_core x i) \<noteq> None" and ty: "bit (sc_type (rx_core x i)) 1"
  obtains h err e where "ko_handler (sc_cop (rx_core x i)) = Some h"
    "ConnectComplete S H i x = H (CConnect h err) (core_do i connect_done (x\<lparr>rx_env := e\<rparr>))"
proof -
  let ?c = "rx_core x i"
  obtain m where m: "reg_ok i ?c m i" using core_ok_reg [OF rx_okD [OF ok] rg] by blast
  then obtain h where h: "ko_impl (sc_cop ?c) = Some i" "ko_handler (sc_cop ?c) = Some h" using ty by (auto simp: reg_ok_def)
  define x2 where "x2 = core_do i (\<lambda>c. (M_Impl_C_Connect_Flag c)\<lparr>sc_type := sc_type c AND NOT E_CONNECT_OP\<rparr>) x"
  obtain err v e where so: "Io_GetSoError S i 0 x2 = (err, v, x2\<lparr>rx_env := e\<rparr>)" using GetSoError_env [of S i 0 x2] by blast
  have c2: "sc_cop (rx_core x2 i) = sc_cop ?c" by (simp add: x2_def M_Impl_C_Connect_Flag_def)
  have "ConnectComplete S H i x = H (CConnect h (if err \<noteq> 0 then M_ERR_ASYNC_CONNECT_FAIL else v)) (core_do i Connect_Clear (x2\<lparr>rx_env := e\<rparr>))"
    using h m so c2 by (simp add: ConnectComplete_def Let_def reg_ok_def x2_def comp_def M_Impl_C_Connect_Flag_def)
  moreover have "core_do i Connect_Clear (x2\<lparr>rx_env := e\<rparr>) = core_do i connect_done (x\<lparr>rx_env := e\<rparr>)"
    by (simp add: x2_def core_do_def connect_done_def)
  ultimately show ?thesis using that [OF h(2)] by simp
qed

lemma AcceptComplete_call:
  assumes ok: "rx_ok x" and rg: "sc_reg (rx_core x i) \<noteq> None" and ty: "bit (sc_type (rx_core x i)) 0" "M_Impl_G_Accept_Flag (rx_core x i)" and law: "accept_law S"
  obtains (accepted) h j fd e where "ao_handler (sc_aop (rx_core x i)) = Some h" "ao_cli (sc_aop (rx_core x i)) = Some j" "0 \<le> fd"
      "AcceptComplete S H i x = H (CAccept h 0) (core_do i Accept_Clear (core_do j (accepted (M_Impl_G_V (rx_core x i)) fd)
         (core_do i M_Impl_C_Accept_Flag (x\<lparr>rx_env := e\<rparr>))))"
  | (refused) h e where "ao_handler (sc_aop (rx_core x i)) = Some h"
      "AcceptComplete S H i x = H (CAccept h 0) (core_do i accept_done (x\<lparr>rx_env := e\<rparr>))"
proof -
  let ?c = "rx_core x i"
  obtain m where m: "reg_ok i ?c m i" using core_ok_reg [OF rx_okD [OF ok] rg] by blast
  then obtain h j where h: "ao_acpt (sc_aop ?c) = Some i" "ao_handler (sc_aop ?c) = Some h" "ao_cli (sc_aop ?c) = Some j" and fd: "sc_fd ?c \<noteq> M_INVALID_SOCKET"
    using ty by (auto simp: reg_ok_def)
  define x1 where "x1 = core_do i M_Impl_C_Accept_Flag x"
  have s1: "sc_fd (rx_core x1 i) = sc_fd ?c" "sc_aop (rx_core x1 i) = sc_aop ?c" "M_Impl_G_V (rx_core x1 i) = M_Impl_G_V ?c"
    by (simp_all add: x1_def impl_bits bit_simps)
  obtain fd1 e1 where ac: "sy_accept S (sc_fd ?c) (rx_env x1) = (fd1, e1)" by fastforce
  show ?thesis
  proof (cases "fd1 < 0")
    case True
    have "fst (sy_soerror S (sc_fd ?c) e1) = (0, 0)" using law ac True unfolding accept_law_def by (metis fst_conv snd_conv)
    then obtain e where so: "Io_GetSoError S i 0 (x1\<lparr>rx_env := e1\<rparr>) = (0, 0, x1\<lparr>rx_env := e\<rparr>)"
      using s1 by (cases "sy_soerror S (sc_fd ?c) e1") (simp add: Io_GetSoError_def)
    have "AcceptComplete S H i x = H (CAccept h 0) (core_do i Accept_Clear (x1\<lparr>rx_env := e\<rparr>))"
      using h fd ac so s1 True by (simp add: AcceptComplete_def x1_def [symmetric])
    moreover have "core_do i Accept_Clear (x1\<lparr>rx_env := e\<rparr>) = core_do i accept_done (x\<lparr>rx_env := e\<rparr>)"
      by (simp add: x1_def core_do_def accept_done_def)
    ultimately show ?thesis using refused [OF h(2)] by simp
  next
    case False
    define y where "y = core_do j (accepted (M_Impl_G_V ?c) fd1) (x1\<lparr>rx_env := e1\<rparr>)"
    have "sc_aop (accepted v f c) = sc_aop c" for v f and c :: "'c core" by (simp add: accepted_def M_Impl_S_V4_def M_Impl_S_V6_def)
    then have y1: "sc_aop (rx_core y i) = sc_aop ?c" using s1 by (cases "i = j") (simp_all add: y_def)
    have y2: "core_do j (if M_Impl_G_V (rx_core x1 i) then M_Impl_S_V4 else M_Impl_S_V6) (core_do j (\<lambda>c. c\<lparr>sc_fd := fd1\<rparr>) (x1\<lparr>rx_env := e1\<rparr>)) = y"
      by (simp add: s1 core_do_def accepted_def y_def)
    have "ao_cli (sc_aop (rx_core x1 i)) = Some j" using h s1 by simp
    then have "AcceptComplete S H i x = H (CAccept h 0) (core_do i Accept_Clear y)"
      unfolding AcceptComplete_def using h fd ac s1 False y1 y2
      by (simp add: x1_def [symmetric] del: core_do_comp core_do_sel)
    moreover have "x1\<lparr>rx_env := e1\<rparr> = core_do i M_Impl_C_Accept_Flag (x\<lparr>rx_env := e1\<rparr>)" by (simp add: x1_def core_do_def)
    ultimately show ?thesis using accepted [OF h(2,3), of fd1 e1] False by (simp add: y_def del: core_do_comp core_do_sel)
  qed
qed

subsection \<open>The contract of the handlers\<close>

locale reactor =
  fixes S :: "'e sys" and K :: "nat \<Rightarrow> 'h option \<Rightarrow> bool" and H :: "'h call \<Rightarrow> ('e, 'u, 'h) rx \<Rightarrow> ('e, 'u, 'h) rx mem" and I :: "('e, 'u, 'h) rx \<Rightarrow> bool"
  assumes rw: "I x \<Longrightarrow> rw_law S" and acc: "I x \<Longrightarrow> accept_law S"
    and I_ok: "I x \<Longrightarrow> rx_ok x"
    and I_flag: "I x \<Longrightarrow> sc_reg (rx_core x i) \<noteq> None \<Longrightarrow> bit (sc_type (rx_core x i)) 0 \<Longrightarrow> M_Impl_G_Accept_Flag (rx_core x i)"
    and I_env: "I x \<Longrightarrow> I (x\<lparr>rx_env := e\<rparr>)"
    and I_list: "I x \<Longrightarrow> rx_ok (impl_do t f x) \<Longrightarrow> set (ii_closereqs (f (rx_impl x t))) \<subseteq> set (ii_closereqs (rx_impl x t))
      \<Longrightarrow> I (impl_do t f x)"
    and I_req: "I x \<Longrightarrow> (i, r) \<in> set (ii_closereqs (rx_impl x t)) \<Longrightarrow> K i r"
    and H_run: "I x \<Longrightarrow> \<exists>x'. H CRun x = Some x' \<and> I x' \<and> keeps_reg x x'"
    and H_close: "I x \<Longrightarrow> closing (rx_core x i) \<Longrightarrow> \<forall>t. i \<notin> asked x t \<Longrightarrow> K i r
      \<Longrightarrow> \<exists>x'. (case r of None \<Rightarrow> Some (core_do i core_closed x) | Some f \<Rightarrow> H (CClose f) (core_do i core_closed x)) = Some x'
            \<and> I x' \<and> keeps_reg (core_do i core_closed x) x'"
    and H_read: "I x \<Longrightarrow> M_Impl_G_Read_Flag (rx_core x i) \<Longrightarrow> rw_handler (sc_rop (rx_core x i)) = Some h
      \<Longrightarrow> n \<le> rw_len (sc_rop (rx_core x i)) \<Longrightarrow> (M_Impl_G_Write_Flag (rx_core x i) \<longrightarrow> bit m 2)
      \<Longrightarrow> \<exists>x'. H (CRead h n err) (core_do i (read_done (m, i)) x) = Some x' \<and> I x' \<and> keeps_reg x x'"
    and H_write: "I x \<Longrightarrow> M_Impl_G_Write_Flag (rx_core x i) \<Longrightarrow> rw_handler (sc_wop (rx_core x i)) = Some h
      \<Longrightarrow> n \<le> rw_len (sc_wop (rx_core x i)) \<Longrightarrow> (M_Impl_G_Read_Flag (rx_core x i) \<longrightarrow> bit m 0)
      \<Longrightarrow> \<exists>x'. H (CWrite h n err) (core_do i (write_done (m, i)) x) = Some x' \<and> I x' \<and> keeps_reg x x'"
    and H_connect: "I x \<Longrightarrow> sc_reg (rx_core x i) \<noteq> None \<Longrightarrow> bit (sc_type (rx_core x i)) 1 \<Longrightarrow> ko_handler (sc_cop (rx_core x i)) = Some h
      \<Longrightarrow> \<exists>x'. H (CConnect h err) (core_do i connect_done x) = Some x' \<and> I x' \<and> keeps_reg x x'"
    and H_accepted: "I x \<Longrightarrow> sc_reg (rx_core x i) \<noteq> None \<Longrightarrow> bit (sc_type (rx_core x i)) 0 \<Longrightarrow> ao_handler (sc_aop (rx_core x i)) = Some h
      \<Longrightarrow> ao_cli (sc_aop (rx_core x i)) = Some j \<Longrightarrow> 0 \<le> fd
      \<Longrightarrow> \<exists>x'. H (CAccept h 0) (core_do i Accept_Clear (core_do j (accepted v fd) (core_do i M_Impl_C_Accept_Flag x))) = Some x'
            \<and> I x' \<and> keeps_reg x x'"
    and H_refused: "I x \<Longrightarrow> sc_reg (rx_core x i) \<noteq> None \<Longrightarrow> bit (sc_type (rx_core x i)) 0 \<Longrightarrow> ao_handler (sc_aop (rx_core x i)) = Some h
      \<Longrightarrow> \<exists>x'. H (CAccept h 0) (core_do i accept_done x) = Some x' \<and> I x' \<and> keeps_reg x x'"
begin

lemma keeps_env: "keeps_reg (x\<lparr>rx_env := e\<rparr>) x' = keeps_reg x x'"
  by (simp add: keeps_reg_def)

lemma read_ok:
  assumes "I x" "M_Impl_G_Read_Flag (rx_core x i)"
  shows "\<exists>x'. ReadComplete S H i x = Some x' \<and> I x' \<and> keeps_reg x x'"
  using I_ok [OF assms(1)] assms(2) rw [OF assms(1)]
proof (rule ReadComplete_call [where H = H])
  fix h n err m e
  assume "rw_handler (sc_rop (rx_core x i)) = Some h" "n \<le> rw_len (sc_rop (rx_core x i))" "M_Impl_G_Write_Flag (rx_core x i) \<longrightarrow> bit m 2"
    and run: "ReadComplete S H i x = H (CRead h n err) (core_do i (read_done (m, i)) (x\<lparr>rx_env := e\<rparr>))"
  then show ?thesis using H_read [OF I_env [OF assms(1)], where i = i] assms(2) by (simp add: keeps_env)
qed

lemma write_ok:
  assumes "I x" "M_Impl_G_Write_Flag (rx_core x i)"
  shows "\<exists>x'. WriteComplete S H i x = Some x' \<and> I x' \<and> keeps_reg x x'"
  using I_ok [OF assms(1)] assms(2) rw [OF assms(1)]
proof (rule WriteComplete_call [where H = H])
  fix h n err m e
  assume "rw_handler (sc_wop (rx_core x i)) = Some h" "n \<le> rw_len (sc_wop (rx_core x i))" "M_Impl_G_Read_Flag (rx_core x i) \<longrightarrow> bit m 0"
    and run: "WriteComplete S H i x = H (CWrite h n err) (core_do i (write_done (m, i)) (x\<lparr>rx_env := e\<rparr>))"
  then show ?thesis using H_write [OF I_env [OF assms(1)], where i = i] assms(2) by (simp add: keeps_env)
qed

lemma accept_ok:
  assumes "I x" "sc_reg (rx_core x i) \<noteq> None" "bit (sc_type (rx_core x i)) 0"
  shows "\<exists>x'. AcceptComplete S H i x = Some x' \<and> I x' \<and> keeps_reg x x'"
  using I_ok [OF assms(1)] assms(2,3) I_flag [OF assms] acc [OF assms(1)]
proof (cases rule: AcceptComplete_call [where H = H and S = S, consumes 5, case_names accepted refused])
  case (accepted h j fd e)
  then show ?thesis using H_accepted [OF I_env [OF assms(1)], where i = i and h = h and j = j and fd = fd] assms(2,3)
    by (simp add: keeps_env del: core_do_comp)
next
  case (refused h e)
  then show ?thesis using H_refused [OF I_env [OF assms(1)], where i = i and h = h] assms(2,3) by (simp add: keeps_env)
qed

lemma exec_op_ok:
  assumes "I x" and rg: "sc_reg (rx_core x i) \<noteq> None"
  shows "\<exists>x'. Io_DoExecOp S H i ev x = Some x' \<and> I x' \<and> keeps_reg x x'"
proof -
  note ok = I_ok [OF assms(1)]
  consider (acc) "bit (sc_type (rx_core x i)) 0" | (con) "\<not> bit (sc_type (rx_core x i)) 0" "bit (sc_type (rx_core x i)) 1"
    | (rw) "\<not> bit (sc_type (rx_core x i)) 0" "\<not> bit (sc_type (rx_core x i)) 1" by blast
  then show ?thesis
  proof cases
    case acc
    then have "Io_DoExecOp S H i ev x = AcceptComplete S H i x" by (simp add: Io_DoExecOp_def op_bits)
    then show ?thesis using accept_ok [OF assms(1) rg acc] by simp
  next
    case con
    then have "Io_DoExecOp S H i ev x = ConnectComplete S H i x" by (simp add: Io_DoExecOp_def op_bits)
    moreover obtain h err e where "ko_handler (sc_cop (rx_core x i)) = Some h"
        "ConnectComplete S H i x = H (CConnect h err) (core_do i connect_done (x\<lparr>rx_env := e\<rparr>))"
      by (rule ConnectComplete_call [OF ok rg con(2)])
    ultimately show ?thesis using H_connect [OF I_env [OF assms(1)]] rg con by (simp add: keeps_env)
  next
    case rw
    have r: "bit (sc_type (rx_core y i)) 3 = M_Impl_G_Read_Flag (rx_core y i)" "bit (sc_type (rx_core y i)) 2 = M_Impl_G_Write_Flag (rx_core y i)"
      if "I y" "sc_reg (rx_core y i) \<noteq> None" for y
      using core_ok_reg [OF rx_okD [OF I_ok [OF that(1)]] that(2)] by (auto simp: reg_ok_def)
    have "\<exists>x1. (if sc_type (rx_core x i) AND E_READ_OP \<noteq> 0 \<and> wants M_EPOLLIN ev then ReadComplete S H i x else Some x) = Some x1
        \<and> I x1 \<and> keeps_reg x x1"
      using read_ok [OF assms(1), of i] assms(1) r(1) [OF assms(1) rg] by (cases "wants M_EPOLLIN ev") (auto simp: op_bits)
    then obtain x1 where x1: "(if sc_type (rx_core x i) AND E_READ_OP \<noteq> 0 \<and> wants M_EPOLLIN ev then ReadComplete S H i x else Some x) = Some x1"
        "I x1" "keeps_reg x x1"
      by blast
    have rg1: "sc_reg (rx_core x1 i) \<noteq> None" using x1(3) rg by (simp add: keeps_reg_def)
    have "\<exists>x2. (if sc_type (rx_core x1 i) AND E_WRITE_OP \<noteq> 0 \<and> wants M_EPOLLOUT ev then WriteComplete S H i x1 else Some x1) = Some x2
        \<and> I x2 \<and> keeps_reg x1 x2"
      using write_ok [OF x1(2), of i] x1(2) r(2) [OF x1(2) rg1] by (cases "wants M_EPOLLOUT ev") (auto simp: op_bits)
    then obtain x2 where x2: "(if sc_type (rx_core x1 i) AND E_WRITE_OP \<noteq> 0 \<and> wants M_EPOLLOUT ev then WriteComplete S H i x1 else Some x1) = Some x2"
        "I x2" "keeps_reg x1 x2"
      by blast
    have "Io_DoExecOp S H i ev x = Some x2" using rw x1(1) x2(1) by (simp add: Io_DoExecOp_def op_bits)
    then show ?thesis using x2 keeps_reg_trans [OF x1(3)] by blast
  qed
qed

lemma close_ok:
  assumes "I x" "distinct (map fst cs)" "\<forall>i \<in> fst ` set cs. closing (rx_core x i) \<and> (\<forall>t. i \<notin> asked x t)"
    "\<forall>(i, h) \<in> set cs. K i h"
  shows "\<exists>x'. close_reqs S H cs x = Some x' \<and> I x'"
  using assms
proof (induction cs arbitrary: x)
  case (Cons c cs)
  obtain i h where c: "c = (i, h)" by fastforce
  define x1 where "x1 = core_do i core_closed (x\<lparr>rx_env := snd (sy_close S (sc_fd (rx_core x i)) (rx_env x))\<rparr>)"
  have "\<forall>j \<in> fst ` set cs. closing (rx_core x1 j) \<and> (\<forall>t. j \<notin> asked x1 t)"
    using Cons.prems(2,3) c by (auto simp: x1_def)
  moreover have "\<exists>x'. (case h of None \<Rightarrow> Some x1 | Some f \<Rightarrow> H (CClose f) x1) = Some x' \<and> I x' \<and> keeps_reg x1 x'"
    unfolding x1_def by (rule H_close [OF I_env [OF Cons.prems(1)]]) (use Cons.prems(3,4) c in simp_all)
  moreover then obtain x2 where x2: "(case h of None \<Rightarrow> Some x1 | Some h \<Rightarrow> H (CClose h) x1) = Some x2" "I x2" "keeps_reg x1 x2"
    by blast
  ultimately have "\<forall>j \<in> fst ` set cs. closing (rx_core x2 j) \<and> (\<forall>t. j \<notin> asked x2 t)"
    unfolding keeps_reg_def by blast
  with Cons.IH [OF x2(2)] Cons.prems(2,4) obtain x' where "close_reqs S H cs x2 = Some x'" "I x'" by auto
  moreover have "close_reqs S H (c # cs) x = close_reqs S H cs x2" using x2(1) c unfolding x1_def by (cases h) (simp_all add: Let_def)
  ultimately show ?case by simp
qed simp

lemma DoClose_ok:
  assumes "I x"
  shows "\<exists>x'. Io_DoClose S H t x = Some x' \<and> I x'"
proof -
  let ?cs = "ii_closereqs (rx_impl x t)" and ?x = "impl_do t (\<lambda>s. s\<lparr>ii_closereqs := []\<rparr>) x"
  have r: "distinct (map fst ?cs)" "\<forall>i \<in> asked x t. closing (rx_core x i)" "\<forall>u. t \<noteq> u \<longrightarrow> asked x t \<inter> asked x u = {}"
    using I_ok [OF assms] by (simp_all add: rx_ok_def reqs_ok_def)
  have a: "asked ?x u = (if u = t then {} else asked x u)" for u by (simp add: asked_def)
  have "rx_ok ?x" using I_ok [OF assms] by (simp add: rx_ok_def reqs_ok_def a)
  then have "I ?x" by (rule I_list [OF assms]) simp
  moreover have "\<forall>i \<in> fst ` set ?cs. closing (rx_core ?x i) \<and> (\<forall>u. i \<notin> asked ?x u)"
  proof
    fix i assume "i \<in> fst ` set ?cs"
    then have i: "i \<in> asked x t" by (simp add: asked_def)
    then have "i \<notin> asked x u" if "u \<noteq> t" for u using r(3) that by (metis disjoint_iff)
    then show "closing (rx_core ?x i) \<and> (\<forall>u. i \<notin> asked ?x u)" using r(2) i by (simp add: a)
  qed
  ultimately obtain y where y: "close_reqs S H ?cs ?x = Some y" "I y" using close_ok r(1) I_req [OF assms, of _ _ t] by blast
  let ?y = "impl_do t (\<lambda>s. s\<lparr>ii_closereqs2 := ii_closereqs2 s + length ?cs\<rparr>) y"
  have "asked ?y = asked y" by (simp add: asked_def fun_eq_iff)
  then have "rx_ok ?y" using I_ok [OF y(2)] by (simp add: rx_ok_def reqs_ok_def)
  then have "I ?y" by (rule I_list [OF y(2)]) simp
  then show ?thesis using y(1) by (simp add: Io_DoClose_def Let_def)
qed

lemma events_ok:
  assumes "I x" "\<forall>v \<in> set evs. \<forall>i w. v = EvSock i w \<longrightarrow> sc_reg (rx_core x i) \<noteq> None"
  shows "\<exists>b x'. exec_events S H evs x = Some (b, x') \<and> I x'"
  using assms
proof (induction evs arbitrary: x)
  case (Cons v evs)
  show ?case
  proof (cases v)
    case EvFinish
    then show ?thesis using Cons.IH [OF Cons.prems(1)] Cons.prems(2) by auto
  next
    case (EvSock i w)
    then obtain x1 where x1: "Io_DoExecOp S H i w x = Some x1" "I x1" "keeps_reg x x1"
      using exec_op_ok [OF Cons.prems(1), of i w] Cons.prems(2) by auto
    then have "\<forall>v \<in> set evs. \<forall>i w. v = EvSock i w \<longrightarrow> sc_reg (rx_core x1 i) \<noteq> None"
      using Cons.prems(2) by (simp add: keeps_reg_def)
    then show ?thesis using Cons.IH [OF x1(2)] x1(1) EvSock by simp
  qed
qed auto

lemma round_ok:
  assumes "I x"
  shows "\<exists>r x'. Io_Round S H t err x = Some (r, x') \<and> I x'"
proof -
  obtain x1 x2 where x: "H CRun x = Some x1" "Io_DoClose S H t x1 = Some x2" "I x2"
    using H_run [OF assms] DoClose_ok by blast
  obtain ret evs x3 where w: "epoll_wait S t x2 = (ret, evs, x3)" using prod_cases3 by blast
  then obtain e es where e: "x3 = x2\<lparr>rx_env := e\<rparr>" "evs = filter (registered (ii_handler (rx_impl x2 t)) x2) es"
    by (auto simp: epoll_wait_def Let_def split: prod.splits)
  then have "\<forall>v \<in> set evs. \<forall>i w. v = EvSock i w \<longrightarrow> sc_reg (rx_core x3 i) \<noteq> None"
    by (fastforce simp: registered_def)
  moreover have "I x3" unfolding e(1) by (rule I_env [OF x(3)])
  ultimately obtain b x' where "exec_events S H evs x3 = Some (b, x')" "I x'" "I x3" using events_ok by blast
  moreover have "Io_Round S H t err x =
      (if ret = 0 then Some (Goes_on, x3)
       else if ret < 0 \<and> sy_errno S (rx_env x3) \<noteq> M_EINTR then Some (Ends (sy_errno S (rx_env x3)), x3)
       else map_option (apfst (\<lambda>brk. if brk then Ends err else Goes_on)) (exec_events S H evs x3))"
    using x(1,2) w by (simp add: Io_Round_def)
  ultimately show ?thesis by simp
qed

lemma run_ok: "I x \<Longrightarrow> \<exists>r x'. Io_DoRun n S H t err x = Some (r, x') \<and> I x'"
proof (induction n arbitrary: x)
  case (Suc n)
  obtain r x1 where r: "Io_Round S H t err x = Some (r, x1)" "I x1" using round_ok [OF Suc.prems] by blast
  then show ?case using Suc.IH [OF r(2)] by (cases r) auto
qed simp

end

end
