(* ===== verification/Epoll_Tcp.thy ===== *)
theory Epoll_Tcp
  imports Epoll_Loop Tcp_Socket
begin

text \<open>
  The TCP sockets on the event loop: \<^verbatim>\<open>slience/netio/netio.cpp\<close> (listening, connecting, the handler of an accept),
  \<^verbatim>\<open>TcpSocket::Init\<close> and \<^verbatim>\<open>TcpConnector::_ConnectHandler\<close>, with the handlers of the sockets run by the loop.  What a
  socket asks the system for is what the loop does; whether it fails is what the loop answers.
\<close>

subsection \<open>Sockets, handlers and the state\<close>

text \<open>The handlers that are bound: of a socket, and of an accept with the socket to come and the acceptor.\<close>

datatype hnd = HWrite nat | HRead nat | HClose nat | HConnect nat | HAccept nat nat

text \<open>What the object is that has a core: none, an acceptor and the socket it waits with, a connector that connects, a connection.\<close>

datatype role = Idle | Acceptor nat | Connecting | Conn world

record netio =
  u_next :: nat
  u_role :: "nat \<Rightarrow> role"
  u_gone :: "nat list"
  u_failed :: "nat list"
  u_fault :: "nat list"

type_synonym 'e net = "('e, netio, hnd) rx"

text \<open>The system, the contents of the read buffers, whether both end points of a descriptor can be read, \<^verbatim>\<open>bind\<close> and \<^verbatim>\<open>listen\<close>.\<close>

record 'e net_env =
  ne_sys :: "'e sys"
  ne_data :: "'e \<Rightarrow> nat \<Rightarrow> byte list"
  ne_peer :: "int \<Rightarrow> 'e \<Rightarrow> bool"
  ne_listen :: "int \<Rightarrow> 'e \<Rightarrow> bool \<times> 'e"

definition E_SOCKET_TYPE :: u16 where "E_SOCKET_TYPE = 1"
definition E_ACCEPTOR_TYPE :: u16 where "E_ACCEPTOR_TYPE = 2"
definition E_CONNECTOR_TYPE :: u16 where "E_CONNECTOR_TYPE = 3"

definition user_do :: "(netio \<Rightarrow> netio) \<Rightarrow> 'e net \<Rightarrow> 'e net" where
  "user_do f x = x\<lparr>rx_user := f (rx_user x)\<rparr>"

definition set_role :: "nat \<Rightarrow> role \<Rightarrow> 'e net \<Rightarrow> 'e net" where
  "set_role i r = user_do (\<lambda>u. u\<lparr>u_role := (u_role u)(i := r)\<rparr>)"

definition role_of :: "'e net \<Rightarrow> nat \<Rightarrow> role" where
  "role_of x i = u_role (rx_user x) i"

subsection \<open>What a socket asks the system for\<close>

definition write_buf :: "nat \<Rightarrow> nat" where "write_buf i = 2 * i"
definition read_buf :: "nat \<Rightarrow> nat" where "read_buf i = 2 * i + 1"

fun sock_call :: "'e sys \<Rightarrow> nat \<Rightarrow> sock_out \<Rightarrow> 'e net \<Rightarrow> bool \<times> 'e net" where
  "sock_call S i (AsyncSendSome d) x = apfst (\<lambda>err. err \<noteq> 0) (Io_AsyncSendSome S i (write_buf i) (word_of_nat (length d)) (HWrite i) 0 x)"
| "sock_call S i AsyncRecvSome x = apfst (\<lambda>err. err \<noteq> 0) (Io_AsyncRecvSome S i (read_buf i) (word_of_nat M_SOCKET_READ_SIZE) (HRead i) 0 x)"
| "sock_call S i SocketClose x = (False, snd (Io_Close S i (Some (HClose i)) 0 x))"
| "sock_call S i _ x = (False, x)"

fun sock_calls :: "'e sys \<Rightarrow> nat \<Rightarrow> sock_out list \<Rightarrow> 'e net \<Rightarrow> bool \<times> 'e net" where
  "sock_calls S i [] x = (False, x)"
| "sock_calls S i (c # cs) x =
     (case sock_call S i c x of (e1, x1) \<Rightarrow> case sock_calls S i cs x1 of (e2, x2) \<Rightarrow> (e1 \<or> e2, x2))"

text \<open>A step \<^term>\<open>f\<close> of a socket depends on whether the asynchronous call that it makes fails; the loop knows.  The first
  \<^term>\<open>n\<close> outputs are those of earlier steps.\<close>

definition sock_step :: "'e sys \<Rightarrow> nat \<Rightarrow> nat \<Rightarrow> (bool \<Rightarrow> world mem) \<Rightarrow> 'e net \<Rightarrow> 'e net mem" where
  "sock_step S i n f x =
     Option.bind (f False) (\<lambda>w.
       case sock_calls S i (drop n (w_outs w)) x of
         (failed, x1) \<Rightarrow>
           if failed then map_option (\<lambda>w'. set_role i (Conn w') (snd (sock_calls S i (drop n (w_outs w')) x))) (f True)
           else Some (set_role i (Conn w) x1))"

subsection \<open>Objects\<close>

text \<open>The constructors take the next core.\<close>

definition obj_new :: "u16 \<Rightarrow> 'e net \<Rightarrow> nat \<times> 'e net" where
  "obj_new ty x = (let i = u_next (rx_user x) in (i, Io_ConstructImpl True i ty (user_do (\<lambda>u. u\<lparr>u_next := i + 1\<rparr>) x)))"

text \<open>The destructors: \<^verbatim>\<open>~BasicSocket\<close> closes without a handler, \<^verbatim>\<open>~SocketIoObject\<close> destroys.\<close>

definition obj_free :: "'e sys \<Rightarrow> nat \<Rightarrow> 'e net \<Rightarrow> 'e net" where
  "obj_free S i x = Io_DestroyImpl i (set_role i Idle (snd (Io_Close S i None 0 x)))"

definition start_world :: "int \<Rightarrow> bool \<Rightarrow> world" where
  "start_world fd err =
     (case ts_Init True fd err ts_new of
        (os, s) \<Rightarrow> \<lparr>w_sock = s, w_accepted = [], w_sent = [], w_error = False, w_outs = os\<rparr>)"

subsection \<open>\<^verbatim>\<open>NetIo\<close>\<close>

text \<open>\<^verbatim>\<open>TcpSocket::Init\<close>.  A socket whose end points cannot be read is not kept by anybody.\<close>

definition sock_init :: "'e net_env \<Rightarrow> nat \<Rightarrow> 'e net \<Rightarrow> 'e net mem" where
  "sock_init N i x =
     (let fd = sc_fd (rx_core x i)
      in if ne_peer N fd (rx_env x) then sock_step (ne_sys N) i 0 (\<lambda>e. Some (start_world fd e)) x
         else Some (obj_free (ne_sys N) i x))"

definition NetIo_AcceptHandler :: "'e net_env \<Rightarrow> int \<Rightarrow> nat \<Rightarrow> nat \<Rightarrow> 'e net \<Rightarrow> 'e net mem" where
  "NetIo_AcceptHandler N err p a x =
     Option.bind (if err \<noteq> 0 then Some (obj_free (ne_sys N) p x) else sock_init N p x)
       (\<lambda>x1. let (q, x2) = obj_new E_SOCKET_TYPE x1
             in case Io_AsyncAccept (ne_sys N) a q (HAccept q a) err x2 of
                  (err', x3) \<Rightarrow>
                    Some (if err' \<noteq> 0 then obj_free (ne_sys N) a (obj_free (ne_sys N) q x3)
                          else set_role a (Acceptor q) x3))"

definition NetIo_ListenOne :: "'e net_env \<Rightarrow> 'e net \<Rightarrow> bool \<times> 'e net" where
  "NetIo_ListenOne N x0 =
     (let S = ne_sys N;
          (a, x1) = obj_new E_ACCEPTOR_TYPE x0;
          (err1, x2) = Io_Open S a True 0 x1
      in if err1 \<noteq> 0 then (False, obj_free S a x2)
         else
           case ne_listen N (sc_fd (rx_core x2 a)) (rx_env x2) of
             (False, e) \<Rightarrow> (False, obj_free S a (x2\<lparr>rx_env := e\<rparr>))
           | (True, e) \<Rightarrow>
               let (p, x3) = obj_new E_SOCKET_TYPE (x2\<lparr>rx_env := e\<rparr>)
               in case Io_AsyncAccept S a p (HAccept p a) 0 x3 of
                    (err2, x4) \<Rightarrow>
                      if err2 \<noteq> 0 then (False, obj_free S a (obj_free S p x4)) else (True, set_role a (Acceptor p) x4))"

text \<open>The error of the connector stays in the connector.\<close>

definition NetIo_ConnectOne :: "'e net_env \<Rightarrow> byte list option \<Rightarrow> 'e net \<Rightarrow> 'e net" where
  "NetIo_ConnectOne N ep x0 =
     (let S = ne_sys N;
          (i, x0') = obj_new E_CONNECTOR_TYPE x0;
          (err1, x1) = Io_Open S i True 0 x0'
      in if err1 \<noteq> 0 then obj_free S i x1
         else
           case Io_AsyncConnect S i ep (HConnect i) 0 x1 of
             (err2, x2) \<Rightarrow> if err2 \<noteq> 0 then obj_free S i x2 else set_role i Connecting x2)"

text \<open>\<^verbatim>\<open>TcpConnector::_ConnectHandler\<close>: an error of the first receive ends the handler, nothing else.\<close>

definition NetIo_ConnectHandler :: "'e net_env \<Rightarrow> int \<Rightarrow> nat \<Rightarrow> 'e net \<Rightarrow> 'e net" where
  "NetIo_ConnectHandler N err i x =
     (let fd = sc_fd (rx_core x i) in
      case tc_ConnectHandler (err \<noteq> 0) (ne_peer N fd (rx_env x)) fd ts_new of
        (os, s) \<Rightarrow>
          if err \<noteq> 0 then obj_free (ne_sys N) i (user_do (\<lambda>u. u\<lparr>u_failed := u_failed u @ [i]\<rparr>) x)
          else if os = [] then obj_free (ne_sys N) i x
          else set_role i (Conn \<lparr>w_sock = s, w_accepted = [], w_sent = [], w_error = False, w_outs = os\<rparr>)
                 (snd (sock_calls (ne_sys N) i os x)))"

subsection \<open>The handlers\<close>

definition NetIo_WriteHandler :: "'e net_env \<Rightarrow> u32 \<Rightarrow> int \<Rightarrow> nat \<Rightarrow> world \<Rightarrow> 'e net \<Rightarrow> 'e net mem" where
  "NetIo_WriteHandler N n err i w =
     sock_step (ne_sys N) i (length (w_outs w)) (\<lambda>e. exec (SysWritten (unat n) (err \<noteq> 0) e) w)"

text \<open>A packet that makes the reader leave its buffers is noted, and the run goes on without it.\<close>

definition NetIo_ReadHandler :: "'e net_env \<Rightarrow> u32 \<Rightarrow> int \<Rightarrow> nat \<Rightarrow> world \<Rightarrow> 'e net \<Rightarrow> 'e net mem" where
  "NetIo_ReadHandler N n err i w x =
     (let f = (\<lambda>e. exec (SysRead (ne_data N (rx_env x) (read_buf i)) (unat n) (err \<noteq> 0) e) w)
      in if f False = None then Some (user_do (\<lambda>u. u\<lparr>u_fault := u_fault u @ [i]\<rparr>) x)
         else sock_step (ne_sys N) i (length (w_outs w)) f x)"

fun net_H :: "'e net_env \<Rightarrow> hnd call \<Rightarrow> 'e net \<Rightarrow> 'e net mem" where
  "net_H N CRun x = Some x"
| "net_H N (CClose (HClose i)) x = Some (user_do (\<lambda>u. u\<lparr>u_gone := u_gone u @ [i]\<rparr>) x)"
| "net_H N (CWrite (HWrite i) n err) x = (case role_of x i of Conn w \<Rightarrow> NetIo_WriteHandler N n err i w x | _ \<Rightarrow> None)"
| "net_H N (CRead (HRead i) n err) x = (case role_of x i of Conn w \<Rightarrow> NetIo_ReadHandler N n err i w x | _ \<Rightarrow> None)"
| "net_H N (CAccept (HAccept p a) err) x = NetIo_AcceptHandler N err p a x"
| "net_H N (CConnect (HConnect i) err) x = Some (NetIo_ConnectHandler N err i x)"
| "net_H N _ x = None"

subsection \<open>Runs\<close>

text \<open>What the application does with a socket that it has been told of.\<close>

datatype app_act = Send "byte list" | SendPacket "byte list" | SendPacketHead "byte list" "byte list" | Close

fun app_in :: "app_act \<Rightarrow> bool \<Rightarrow> sock_in" where
  "app_in (Send d) err = AppSend d err"
| "app_in (SendPacket d) err = AppSendPacket d err"
| "app_in (SendPacketHead h d) err = AppSendPacketHead h d err"
| "app_in Close err = AppClose"

fun app_fits :: "app_act \<Rightarrow> bool" where
  "app_fits (Send d) \<longleftrightarrow> length d < 2 ^ 31"
| "app_fits (SendPacket d) \<longleftrightarrow> length d < 2 ^ 31"
| "app_fits (SendPacketHead h d) \<longleftrightarrow> length h + length d < 2 ^ 31 - 8"
| "app_fits Close \<longleftrightarrow> True"

definition NetIo_App :: "'e net_env \<Rightarrow> nat \<Rightarrow> app_act \<Rightarrow> 'e net \<Rightarrow> 'e net mem" where
  "NetIo_App N i a x =
     (case role_of x i of
        Conn w \<Rightarrow> sock_step (ne_sys N) i (length (w_outs w)) (\<lambda>e. exec (app_in a e) w) x
      | _ \<Rightarrow> None)"

definition net_new :: "'e \<Rightarrow> (nat \<Rightarrow> hnd io_impl) \<Rightarrow> 'e net" where
  "net_new e ii = \<lparr>rx_env = e, rx_user = \<lparr>u_next = 0, u_role = (\<lambda>_. Idle), u_gone = [], u_failed = [], u_fault = []\<rparr>,
     rx_core = (\<lambda>_. core_new), rx_impl = (\<lambda>t. (ii t)\<lparr>ii_closereqs := [], ii_closereqs2 := 0\<rparr>), rx_implvector = [],
     rx_implmap = Map.empty, rx_implcnt = 0, rx_implidx = 0\<rparr>"

text \<open>Threads start, the program listens and connects, threads go their rounds, the application sends and closes.\<close>

inductive net_run :: "'e net_env \<Rightarrow> 'e net \<Rightarrow> bool" for N where
  new: "net_run N (net_new e ii)"
| start: "\<lbrakk>net_run N x; ii_handler (rx_impl x t) \<noteq> -1; Io_CreateIoImpl t 0 x = (0, True, x')\<rbrakk> \<Longrightarrow> net_run N x'"
| listen: "\<lbrakk>net_run N x; NetIo_ListenOne N x = (r, x')\<rbrakk> \<Longrightarrow> net_run N x'"
| connect: "net_run N x \<Longrightarrow> net_run N (NetIo_ConnectOne N ep x)"
| round: "\<lbrakk>net_run N x; Io_Round (ne_sys N) (net_H N) t err x = Some (r, x')\<rbrakk> \<Longrightarrow> net_run N x'"
| app: "\<lbrakk>net_run N x; role_of x i = Conn w; app_fits a; NetIo_App N i a x = Some x'\<rbrakk> \<Longrightarrow> net_run N x'"

end
