(* ===== verification/Epoll_Tcp_Props.thy ===== *)
theory Epoll_Tcp_Props
  imports Epoll_Tcp
begin

text \<open>
  The sockets keep the contract of the loop: the laws of the locale \<^term>\<open>reactor\<close> for the handlers of \<^verbatim>\<open>NetIo\<close>.
\<close>

subsection \<open>What a step of a socket asks for\<close>

fun is_call :: "sock_out \<Rightarrow> bool" where
  "is_call (AsyncSendSome d) \<longleftrightarrow> True"
| "is_call AsyncRecvSome \<longleftrightarrow> True"
| "is_call SocketClose \<longleftrightarrow> True"
| "is_call _ \<longleftrightarrow> False"

abbreviation calls :: "sock_out list \<Rightarrow> sock_out list" where
  "calls os \<equiv> filter is_call os"

lemma sock_calls_filter: "sock_calls S i (calls os) x = sock_calls S i os x"
proof (induction os arbitrary: x)
  case (Cons c os)
  have "\<not> is_call c \<Longrightarrow> sock_call S i c x = (False, x)" by (cases c) simp_all
  then show ?case using Cons by (cases "is_call c") (simp_all split: prod.split)
qed simp

lemma calls_receive [simp]: "calls (map OnReceiveData ds) = []"
  by (simp add: filter_empty_conv)

text \<open>Two states of a socket that are the same to the system.\<close>

definition alike :: "tcp_sock \<Rightarrow> tcp_sock \<Rightarrow> bool" where
  "alike s s' \<longleftrightarrow> t_writing s' = t_writing s \<and> (t_flag s' = E_STATE_CLOSE) = (t_flag s = E_STATE_CLOSE)
     \<and> (t_writing s' \<longrightarrow> buf_Data (t_msgbuffer1 s') = buf_Data (t_msgbuffer1 s)) \<and> t_fd s' = t_fd s"

definition shut :: "tcp_sock \<Rightarrow> tcp_sock \<Rightarrow> bool" where
  "shut s s' \<longleftrightarrow> \<not> t_writing s' \<and> t_flag s' = E_STATE_CLOSE \<and> t_fd s' = t_fd s"

text \<open>Steps that ask for nothing, or close.\<close>

definition quiet_step :: "tcp_sock \<Rightarrow> sock_out list \<times> tcp_sock \<Rightarrow> bool" where
  "quiet_step s p \<longleftrightarrow> calls (fst p) = [] \<and> alike s (snd p)
     \<or> calls (fst p) = [SocketClose] \<and> \<not> t_writing s \<and> shut s (snd p)"

text \<open>Steps that send, by the error of the call.\<close>

definition send_step :: "tcp_sock \<Rightarrow> (bool \<Rightarrow> sock_out list \<times> tcp_sock) \<Rightarrow> bool" where
  "send_step s g \<longleftrightarrow> \<not> t_writing s \<and> t_flag s \<noteq> E_STATE_CLOSE \<and>
     (\<exists>d. calls (fst (g False)) = [AsyncSendSome d] \<and> t_writing (snd (g False)) \<and> t_flag (snd (g False)) \<noteq> E_STATE_CLOSE
          \<and> buf_Data (t_msgbuffer1 (snd (g False))) = d \<and> t_fd (snd (g False)) = t_fd s
        \<and> calls (fst (g True)) = [AsyncSendSome d, SocketClose] \<and> shut s (snd (g True)))"

definition recv_step :: "tcp_sock \<Rightarrow> (bool \<Rightarrow> sock_out list \<times> tcp_sock) \<Rightarrow> bool" where
  "recv_step s g \<longleftrightarrow> t_flag s = E_STATE_START \<and> calls (fst (g False)) = [AsyncRecvSome] \<and> alike s (snd (g False))
     \<and> (calls (fst (g True)) = [AsyncRecvSome] \<and> alike s (snd (g True))
        \<or> calls (fst (g True)) = [AsyncRecvSome, SocketClose] \<and> \<not> t_writing s \<and> shut s (snd (g True)))"

lemma DoClose_step: "quiet_step s (ts_DoClose s)" if "t_writing s \<longrightarrow> t_flag s \<noteq> E_STATE_CLOSE"
  using that by (auto simp: quiet_step_def ts_DoClose_def alike_def shut_def)

lemma alike_refl [simp]: "alike s s"
  by (simp add: alike_def)

lemma SwapBuffers_sel: "t_writing (ts_SwapBuffers s) = t_writing s" "t_flag (ts_SwapBuffers s) = t_flag s" "t_fd (ts_SwapBuffers s) = t_fd s"
  by (simp_all add: ts_SwapBuffers_def Let_def)

lemma TrySendData_step:
  assumes "\<not> t_writing s" "t_flag s \<noteq> E_STATE_CLOSE"
  shows "(\<forall>err. ts_TrySendData err s = (False, [], ts_SwapBuffers s)) \<or>
    (\<exists>d. d = buf_Data (t_msgbuffer1 (ts_SwapBuffers s))
      \<and> ts_TrySendData False s = (True, [AsyncSendSome d], (ts_SwapBuffers s)\<lparr>t_writing := True\<rparr>)
      \<and> ts_TrySendData True s = (False, [AsyncSendSome d, SocketClose], (ts_SwapBuffers s)\<lparr>t_flag := E_STATE_CLOSE\<rparr>))"
  using assms by (simp add: ts_TrySendData_def ts_DoClose_def SwapBuffers_sel Let_def)

lemma WriteHandler_step:
  assumes w: "writer_ok s" "t_writing s"
  shows "quiet_step (s\<lparr>t_writing := False\<rparr>) (ts_WriteHandler n err False s)
       \<or> send_step (s\<lparr>t_writing := False\<rparr>) (\<lambda>e. ts_WriteHandler n err e s)"
proof -
  let ?s = "s\<lparr>t_writing := False\<rparr>"
  have f: "t_flag s \<noteq> E_STATE_CLOSE" using w by (simp add: writer_ok_def)
  show ?thesis
  proof (cases "err \<or> n \<le> 0")
    case True
    then have "ts_WriteHandler n err False s = ts_DoClose ?s" by (auto simp: ts_WriteHandler_def Let_def)
    then show ?thesis using DoClose_step [of ?s] by simp
  next
    case False
    let ?s1 = "?s\<lparr>t_msgbuffer1 := buf_CutData n (t_msgbuffer1 s)\<rparr>"
    have run: "ts_WriteHandler n err e s = (case ts_TrySendData e ?s1 of (sent, o1, s2) \<Rightarrow>
          if \<not> sent \<and> t_flag s2 \<noteq> E_STATE_START then (case ts_DoClose s2 of (o2, s3) \<Rightarrow> (o1 @ ShutdownWr # o2, s3)) else (o1, s2))" for e
      using False by (simp add: ts_WriteHandler_def Let_def)
    have "\<not> t_writing ?s1" "t_flag ?s1 \<noteq> E_STATE_CLOSE" using f by simp_all
    from TrySendData_step [OF this] show ?thesis
    proof (elim disjE exE conjE)
      assume t: "\<forall>err. ts_TrySendData err ?s1 = (False, [], ts_SwapBuffers ?s1)"
      have "quiet_step ?s (ts_WriteHandler n err False s)"
        unfolding run using t f by (simp add: SwapBuffers_sel ts_DoClose_def quiet_step_def alike_def shut_def)
      then show ?thesis ..
    next
      fix d
      assume t: "d = buf_Data (t_msgbuffer1 (ts_SwapBuffers ?s1))"
        "ts_TrySendData False ?s1 = (True, [AsyncSendSome d], (ts_SwapBuffers ?s1)\<lparr>t_writing := True\<rparr>)"
        "ts_TrySendData True ?s1 = (False, [AsyncSendSome d, SocketClose], (ts_SwapBuffers ?s1)\<lparr>t_flag := E_STATE_CLOSE\<rparr>)"
      have "send_step ?s (\<lambda>e. ts_WriteHandler n err e s)"
        unfolding run using t(2,3) f by (simp add: t(1) SwapBuffers_sel ts_DoClose_def send_step_def shut_def)
      then show ?thesis ..
    qed
  qed
qed

text \<open>What a send puts into the second buffer changes nothing for the system; then it is the same for all three.\<close>

lemma push_step:
  assumes "t_flag s = E_STATE_START" "\<And>e. g e = snd (ts_TrySendData e (s\<lparr>t_msgbuffer2 := b\<rparr>))"
  shows "quiet_step s (g False) \<or> send_step s g"
proof (cases "t_writing s")
  case True
  then show ?thesis using assms(2) by (simp add: ts_TrySendData_def quiet_step_def alike_def)
next
  case False
  let ?s1 = "s\<lparr>t_msgbuffer2 := b\<rparr>"
  have "\<not> t_writing ?s1" "t_flag ?s1 \<noteq> E_STATE_CLOSE" using False assms(1) by simp_all
  from TrySendData_step [OF this] show ?thesis
  proof (elim disjE exE conjE)
    assume "\<forall>err. ts_TrySendData err ?s1 = (False, [], ts_SwapBuffers ?s1)"
    then have "quiet_step s (g False)" using False by (simp add: assms(2) quiet_step_def alike_def SwapBuffers_sel)
    then show ?thesis ..
  next
    fix d
    assume t: "d = buf_Data (t_msgbuffer1 (ts_SwapBuffers ?s1))"
      "ts_TrySendData False ?s1 = (True, [AsyncSendSome d], (ts_SwapBuffers ?s1)\<lparr>t_writing := True\<rparr>)"
      "ts_TrySendData True ?s1 = (False, [AsyncSendSome d, SocketClose], (ts_SwapBuffers ?s1)\<lparr>t_flag := E_STATE_CLOSE\<rparr>)"
    have "send_step s g" using False assms(1) t(2,3) by (simp add: t(1) assms(2) send_step_def shut_def SwapBuffers_sel)
    then show ?thesis ..
  qed
qed

lemma CheckCanSend_start: "ts_CheckCanSend n s \<Longrightarrow> t_flag s = E_STATE_START"
  by (auto simp: ts_CheckCanSend_def split: if_splits)

text \<open>The steps of a socket in its world: \<^term>\<open>f\<close> has a result for both answers, and they are of one of the forms.\<close>

definition fresh_outs :: "world \<Rightarrow> world \<Rightarrow> sock_out list" where
  "fresh_outs w w' = drop (length (w_outs w)) (w_outs w')"

definition effect :: "world \<Rightarrow> (bool \<Rightarrow> world) \<Rightarrow> bool \<Rightarrow> sock_out list \<times> tcp_sock" where
  "effect w f e = (fresh_outs w (f e), w_sock (f e))"

definition sends_step :: "world \<Rightarrow> (bool \<Rightarrow> world) \<Rightarrow> tcp_sock \<Rightarrow> bool" where
  "sends_step w f s \<longleftrightarrow> quiet_step s (effect w f False) \<or> send_step s (effect w f)"

definition world_step :: "world \<Rightarrow> (bool \<Rightarrow> world) \<Rightarrow> tcp_sock \<Rightarrow> bool" where
  "world_step w f s \<longleftrightarrow> sends_step w f s \<or> recv_step s (effect w f)"

lemma sends_not_recv: "sends_step w f s \<Longrightarrow> \<not> recv_step s (effect w f)"
  by (auto simp: sends_step_def quiet_step_def send_step_def recv_step_def)

definition pushes :: "tcp_sock \<Rightarrow> (bool \<Rightarrow> (bool \<times> sock_out list \<times> tcp_sock) mem) \<Rightarrow> bool" where
  "pushes s t \<longleftrightarrow> (\<forall>e. t e = Some (False, [], s))
     \<or> (\<exists>b. t_flag s = E_STATE_START \<and> (\<forall>e. t e = Some (True, snd (ts_TrySendData e (s\<lparr>t_msgbuffer2 := b\<rparr>)))))"

lemma pushes_try:
  assumes "\<And>e. t e = (if \<not> ts_CheckCanSend n s then Some (False, [], s)
      else Option.bind m (\<lambda>b. case ts_TrySendData e (s\<lparr>t_msgbuffer2 := b\<rparr>) of (_, os, s1) \<Rightarrow> Some (True, os, s1)))"
    and "t False \<noteq> None"
  shows "pushes s t"
proof (cases "ts_CheckCanSend n s")
  case True
  then obtain b where "m = Some b" using assms by (auto simp: bind_eq_Some_conv)
  then show ?thesis using True CheckCanSend_start [OF True] assms(1) by (auto simp: pushes_def split_beta)
qed (simp add: assms(1) pushes_def)

lemma app_step:
  assumes ok: "world_ok w" and fits: "app_fits a"
  shows "(\<forall>e. exec (app_in a e) w \<noteq> None) \<and> sends_step w (\<lambda>e. the (exec (app_in a e) w)) (w_sock w)"
proof -
  have w: "writer_ok (w_sock w)" using ok by (simp add: world_ok_def)
  have push: "sends_step w (\<lambda>e. the (exec (i e) w)) (w_sock w) \<and> (\<forall>e. exec (i e) w \<noteq> None)"
    if x: "\<And>e. exec (i e) w = map_option (\<lambda>(ok, os, s). w\<lparr>w_sock := s, w_outs := w_outs w @ os,
         w_accepted := w_accepted w @ (if ok then d else []), w_error := w_error w \<or> e\<rparr>) (t e)"
      and t: "pushes (w_sock w) t" for i d t
    using t unfolding pushes_def
  proof (elim disjE exE conjE)
    assume "\<forall>e. t e = Some (False, [], w_sock w)"
    then show ?thesis by (simp add: x sends_step_def effect_def [abs_def] fresh_outs_def quiet_step_def)
  next
    fix b assume b: "t_flag (w_sock w) = E_STATE_START" "\<forall>e. t e = Some (True, snd (ts_TrySendData e ((w_sock w)\<lparr>t_msgbuffer2 := b\<rparr>)))"
    show ?thesis
      using push_step [OF b(1), of "\<lambda>e. snd (ts_TrySendData e ((w_sock w)\<lparr>t_msgbuffer2 := b\<rparr>))" b] b(2)
      by (auto simp: x sends_step_def effect_def [abs_def] fresh_outs_def split_beta)
  qed
  show ?thesis
  proof (cases a)
    case (Send d)
    have "pushes (w_sock w) (\<lambda>e. ts_Send d e (w_sock w))"
      using ts_Send_ok [OF w, of d False] fits Send
      by (intro pushes_try [where n = "word_of_nat (length d)"
            and m = "buf_Write d (t_msgbuffer2 (w_sock w))"]) (auto simp: ts_Send_def split_beta)
    from push [OF _ this, of "AppSend d" d] show ?thesis using Send by simp
  next
    case (SendPacket d)
    have "pushes (w_sock w) (\<lambda>e. ts_SendPacket d e (w_sock w))"
      using ts_SendPacket_ok [OF w, of d False] fits SendPacket
      by (intro pushes_try [where n = "word_of_nat (length d + hdrlen)"
            and m = "Option.bind (buf_Write (ph_bytes (ph_h2n \<lparr>timestamp = M_PACGET_CODE, hsize = word_of_nat (length d)\<rparr>)) (t_msgbuffer2 (w_sock w))) (buf_Write d)"]) (auto simp: ts_SendPacket_def Let_def split_beta)
    from push [OF _ this, of "AppSendPacket d" "packet_bytes d"] show ?thesis using SendPacket by simp
  next
    case (SendPacketHead h d)
    have "pushes (w_sock w) (\<lambda>e. ts_SendPacketHead h d e (w_sock w))"
      using ts_SendPacketHead_ok [OF w, of h d False] fits SendPacketHead
      by (intro pushes_try [where n = "word_of_nat (length d + hdrlen + length h)"
            and m = "Option.bind (Option.bind (buf_Write (ph_bytes (ph_h2n \<lparr>timestamp = M_PACGET_CODE, hsize = word_of_nat (length d + length h)\<rparr>)) (t_msgbuffer2 (w_sock w))) (buf_Write h)) (buf_Write d)"]) (auto simp: ts_SendPacketHead_def Let_def split_beta)
    from push [OF _ this, of "AppSendPacketHead h d" "packet_bytes (h @ d)"] show ?thesis using SendPacketHead by simp
  next
    case Close
    have "quiet_step (w_sock w) (ts_Close (w_sock w))"
      unfolding ts_Close_def ts_PostClose_def by (rule DoClose_step) (use w in \<open>simp add: writer_ok_def\<close>)
    then show ?thesis using Close by (cases "ts_Close (w_sock w)") (simp add: sends_step_def effect_def [abs_def] fresh_outs_def)
  qed
qed

lemma written_step:
  assumes "world_ok w" "t_writing (w_sock w)"
  shows "(\<forall>e. exec (SysWritten n err e) w \<noteq> None) \<and> sends_step w (\<lambda>e. the (exec (SysWritten n err e) w)) ((w_sock w)\<lparr>t_writing := False\<rparr>)"
  using WriteHandler_step [of "w_sock w" "word_of_nat n" err] assms
  by (auto simp: world_ok_def sends_step_def effect_def [abs_def] fresh_outs_def split_beta)

lemma read_step:
  assumes ok: "world_ok w" and x: "exec (SysRead rb n err False) w \<noteq> None"
  shows "(\<forall>e. exec (SysRead rb n err e) w \<noteq> None) \<and> world_step w (\<lambda>e. the (exec (SysRead rb n err e) w)) (w_sock w)"
proof -
  let ?s = "w_sock w"
  have w: "t_writing s \<longrightarrow> t_flag s \<noteq> E_STATE_CLOSE" if "s = ?s\<lparr>t_reader := b\<rparr>" for s b
    using ok that by (simp add: world_ok_def writer_ok_def)
  show ?thesis
  proof (cases "err \<or> (word_of_nat n :: u32) \<le> 0 \<or> t_flag ?s \<noteq> E_STATE_START")
    case True
    then have "ts_ReadHandler rb (word_of_nat n) err e ?s = Some (ts_PostClose ?s)" for e by (auto simp: ts_ReadHandler_def)
    then show ?thesis using DoClose_step [of ?s] w [of ?s "t_reader ?s"] by (simp add: world_step_def sends_step_def effect_def [abs_def] fresh_outs_def ts_PostClose_def split_beta)
  next
    case False
    then obtain ok ds b where c: "CutMsgPack rb (word_of_nat n) (t_reader ?s) = Some (ok, ds, b)"
      using x by (auto simp: ts_ReadHandler_def)
    let ?s1 = "?s\<lparr>t_reader := b\<rparr>"
    have r: "ts_ReadHandler rb (word_of_nat n) err e ?s = Some (if ok then (case ts_TryRecvData e ?s1 of (o2, s2) \<Rightarrow> (map OnReceiveData ds @ o2, s2))
        else (case ts_PostClose ?s1 of (o2, s2) \<Rightarrow> (map OnReceiveData ds @ ShutdownRd # o2, s2)))" for e
      using False c by (simp add: ts_ReadHandler_def Let_def)
    have a: "alike ?s ?s1" by (simp add: alike_def)
    have q: "quiet_step ?s1 (ts_DoClose ?s1)" by (rule DoClose_step) (use w [of ?s1 b] in simp)
    show ?thesis
    proof (cases ok)
      case True
      have f: "t_flag ?s = E_STATE_START" using False by blast
      have "recv_step ?s (\<lambda>e. case ts_TryRecvData e ?s1 of (o2, s2) \<Rightarrow> (map OnReceiveData ds @ o2, s2))"
        using f by (simp add: recv_step_def ts_TryRecvData_def ts_PostClose_def ts_DoClose_def alike_def shut_def)
      then show ?thesis using True by (simp add: r world_step_def sends_step_def effect_def [abs_def] fresh_outs_def split_beta)
    next
      case nok: False
      have "quiet_step ?s (case ts_PostClose ?s1 of (o2, s2) \<Rightarrow> (map OnReceiveData ds @ ShutdownRd # o2, s2))"
        using q by (auto simp: quiet_step_def ts_PostClose_def alike_def shut_def split_beta)
      then show ?thesis using nok by (simp add: r world_step_def sends_step_def effect_def [abs_def] fresh_outs_def split_beta)
    qed
  qed
qed

subsection \<open>What the calls do to the core\<close>

text \<open>Socket and core agree on what is under way.\<close>

definition conn_core :: "nat \<Rightarrow> tcp_sock \<Rightarrow> hnd core \<Rightarrow> bool" where
  "conn_core i s c \<longleftrightarrow>
     M_Impl_G_Write_Flag c = t_writing s
     \<and> (t_writing s \<longrightarrow> sc_wop c = \<lparr>rw_buf = write_buf i, rw_len = word_of_nat (length (buf_Data (t_msgbuffer1 s))),
                                  rw_impl = Some i, rw_handler = Some (HWrite i)\<rparr>)
     \<and> (M_Impl_G_Read_Flag c \<longrightarrow> sc_rop c = \<lparr>rw_buf = read_buf i, rw_len = word_of_nat M_SOCKET_READ_SIZE,
                                          rw_impl = Some i, rw_handler = Some (HRead i)\<rparr>)
     \<and> (sc_reg c \<noteq> None \<longrightarrow> \<not> bit (sc_type c) 0 \<and> \<not> bit (sc_type c) 1)
     \<and> (t_flag s \<noteq> E_STATE_CLOSE \<longrightarrow> sc_fd c \<noteq> M_INVALID_SOCKET \<and> \<not> closing c)
     \<and> (sc_fd c \<noteq> M_INVALID_SOCKET \<longrightarrow> sc_fd c = t_fd s)"

text \<open>A step on socket \<^term>\<open>i\<close> leaves the others alone; what it asks to be closed is the socket.\<close>

definition stays :: "nat \<Rightarrow> 'e net \<Rightarrow> 'e net \<Rightarrow> bool" where
  "stays i x x' \<longleftrightarrow> rx_ok x' \<and> rx_user x' = rx_user x \<and> (\<forall>j. j \<noteq> i \<longrightarrow> rx_core x' j = rx_core x j)
     \<and> (\<forall>t. set (ii_closereqs (rx_impl x' t)) \<subseteq> set (ii_closereqs (rx_impl x t)) \<union> {(i, None), (i, Some (HClose i))})
     \<and> (i \<in> set (u_gone (rx_user x)) \<longrightarrow> sc_fd (rx_core x i) = M_INVALID_SOCKET \<longrightarrow> sc_fd (rx_core x' i) = M_INVALID_SOCKET)"

definition kept :: "nat \<Rightarrow> 'e net \<Rightarrow> 'e net \<Rightarrow> bool" where
  "kept i x x' \<longleftrightarrow> stays i x x' \<and> keeps_reg x x'"

lemma kept_refl: "rx_ok x \<Longrightarrow> kept i x x"
  by (auto simp: kept_def stays_def)

lemma stays_trans: "stays i x y \<Longrightarrow> stays i y z \<Longrightarrow> stays i x z"
  unfolding stays_def by (elim conjE, intro conjI) (assumption | simp | blast)+

lemma kept_trans: "kept i x y \<Longrightarrow> kept i y z \<Longrightarrow> kept i x z"
  unfolding kept_def using stays_trans keeps_reg_trans by blast

lemma only_core_kept:
  assumes "rx_ok x' \<and> keeps_reg x x'" "only_core i x x'" "sc_fd (rx_core x' i) = sc_fd (rx_core x i)"
  shows "kept i x x'"
  using assms by (auto simp: kept_def stays_def only_core_def)

lemma stream_type:
  "\<not> bit (sc_type (send_core i d l h ep c)) 0" "\<not> bit (sc_type (send_core i d l h ep c)) (Suc 0)"
  "\<not> bit (sc_type (recv_core i d l h ep c)) 0" "\<not> bit (sc_type (recv_core i d l h ep c)) (Suc 0)"
  "sc_reg (send_refused i d l h ep c) = sc_reg c" "sc_reg (recv_refused i d l h ep c) = sc_reg c"
  "sc_reg (Write_Clear c) = sc_reg c" "sc_type (Write_Clear c) = sc_type c" "sc_reg (Read_Clear c) = sc_reg c" "sc_type (Read_Clear c) = sc_type c"
  by (simp_all add: send_core_def recv_core_def send_refused_def recv_refused_def Write_Clear_def Read_Clear_def Let_def impl_bits bit_simps)

lemma send_call:
  assumes ok: "rx_ok x" and law: "ctl_law S" and c: "conn_core i s (rx_core x i)" and s: "\<not> t_writing s" "t_flag s \<noteq> E_STATE_CLOSE"
    and run: "sock_call S i (AsyncSendSome d) x = (failed, x')"
  shows "kept i x x' \<and> (failed \<longrightarrow> conn_core i s (rx_core x' i))
    \<and> (\<not> failed \<longrightarrow> t_writing s' \<longrightarrow> t_flag s' \<noteq> E_STATE_CLOSE \<longrightarrow> buf_Data (t_msgbuffer1 s') = d \<longrightarrow> t_fd s' = t_fd s
         \<longrightarrow> conn_core i s' (rx_core x' i))"
proof -
  obtain err where r: "Io_AsyncSendSome S i (write_buf i) (word_of_nat (length d)) (HWrite i) 0 x = (err, x')" "failed = (err \<noteq> 0)"
    using run by (cases "Io_AsyncSendSome S i (write_buf i) (word_of_nat (length d)) (HWrite i) 0 x") simp
  have free: "\<not> M_Impl_G_Write_Flag (rx_core x i)" using c s by (simp add: conn_core_def)
  have nc: "\<not> closing (rx_core x i)" using c s by (simp add: conn_core_def)
  note k = AsyncSendSome_ok [OF ok free nc law r(1)] and d = AsyncSendSome_core [OF ok free nc law r(1)]
  have ty: "sc_reg (rx_core x' i) \<noteq> None \<longrightarrow> \<not> bit (sc_type (rx_core x' i)) 0 \<and> \<not> bit (sc_type (rx_core x' i)) 1"
    using d c by (elim conjE disjE exE) (simp_all add: stream_type conn_core_def)
  show ?thesis
    using k c s ty r(2) by (simp add: only_core_kept conn_core_def send_started_def split: if_splits)
qed

lemma recv_call:
  assumes ok: "rx_ok x" and law: "ctl_law S" and c: "conn_core i s (rx_core x i)" and free: "\<not> M_Impl_G_Read_Flag (rx_core x i)"
    and s: "t_flag s \<noteq> E_STATE_CLOSE" and run: "sock_call S i AsyncRecvSome x = (failed, x')"
  shows "kept i x x' \<and> conn_core i s (rx_core x' i)"
proof -
  obtain err where r: "Io_AsyncRecvSome S i (read_buf i) (word_of_nat M_SOCKET_READ_SIZE) (HRead i) 0 x = (err, x')"
    using run by (cases "Io_AsyncRecvSome S i (read_buf i) (word_of_nat M_SOCKET_READ_SIZE) (HRead i) 0 x") simp
  have nc: "\<not> closing (rx_core x i)" using c s by (simp add: conn_core_def)
  note k = AsyncRecvSome_ok [OF ok free nc law r(1)] and d = AsyncRecvSome_core [OF ok free nc law r(1)]
  have ty: "sc_reg (rx_core x' i) \<noteq> None \<longrightarrow> \<not> bit (sc_type (rx_core x' i)) 0 \<and> \<not> bit (sc_type (rx_core x' i)) 1"
    using d c by (elim conjE disjE exE) (simp_all add: stream_type conn_core_def)
  show ?thesis
    using k c ty by (simp add: only_core_kept conn_core_def recv_started_def split: if_splits)
qed

lemma Io_Close_reqs:
  "set (ii_closereqs (rx_impl (snd (Io_Close S i h err x)) t)) \<subseteq> set (ii_closereqs (rx_impl x t)) \<union> {(i, h)}"
  by (auto simp: Io_Close_def Let_def split: option.splits prod.splits if_splits)

lemma close_core:
  assumes "rx_ok x" "Io_Close S i h err x = (err', x')"
  shows "M_Impl_G_Write_Flag (rx_core x' i) \<longrightarrow> M_Impl_G_Write_Flag (rx_core x i)" "M_Impl_G_Read_Flag (rx_core x' i) \<longrightarrow> M_Impl_G_Read_Flag (rx_core x i)"
    "sc_rop (rx_core x' i) = sc_rop (rx_core x i)" "sc_type (rx_core x' i) = sc_type (rx_core x i)"
    "sc_reg (rx_core x' i) \<noteq> None \<longrightarrow> sc_reg (rx_core x i) \<noteq> None" "sc_fd (rx_core x' i) \<noteq> M_INVALID_SOCKET \<longrightarrow> sc_fd (rx_core x' i) = sc_fd (rx_core x i)"
  using Io_Close_ok [OF assms]
  by (auto simp: core_closed_def impl_bits bit_simps)

lemma close_call:
  assumes ok: "rx_ok x" and c: "conn_core i s (rx_core x i)" and s: "\<not> t_writing s" "shut s s'"
    and run: "sock_call S i SocketClose x = (failed, x')"
  shows "kept i x x' \<and> conn_core i s' (rx_core x' i) \<and> \<not> failed"
proof -
  obtain err where r: "Io_Close S i (Some (HClose i)) 0 x = (err, x')" "\<not> failed"
    using run by (cases "Io_Close S i (Some (HClose i)) 0 x") simp
  note k = Io_Close_ok [OF ok r(1)] and cc = close_core [OF ok r(1)]
  have "kept i x x'" using k cc(6) Io_Close_reqs [of S i "Some (HClose i)" 0 x] r(1) by (auto simp: kept_def stays_def)
  moreover have "conn_core i s' (rx_core x' i)" using c s cc by (auto simp: conn_core_def shut_def)
  ultimately show ?thesis using r(2) by blast
qed

lemma alike_core: "conn_core i s c \<Longrightarrow> alike s s' \<Longrightarrow> conn_core i s' c"
  by (auto simp: conn_core_def alike_def)

subsection \<open>A step of a socket on the loop\<close>

text \<open>Whatever form a step has, the loop does it, and socket and core agree afterwards.\<close>

lemma sock_step_ok:
  assumes ok: "rx_ok x" and law: "ctl_law S" and c: "conn_core i s (rx_core x i)"
    and form: "world_step w f s" and free: "recv_step s (effect w f) \<longrightarrow> \<not> M_Impl_G_Read_Flag (rx_core x i)"
  shows "\<exists>e y. sock_step S i (length (w_outs w)) (\<lambda>e. Some (f e)) x = Some (set_role i (Conn (f e)) y)
    \<and> kept i x y \<and> conn_core i (w_sock (f e)) (rx_core y i)"
proof -
  let ?g = "effect w f"
  have run: "sock_step S i (length (w_outs w)) (\<lambda>e. Some (f e)) x =
      (case sock_calls S i (calls (fresh_outs w (f False))) x of
         (failed, x1) \<Rightarrow> if failed then Some (set_role i (Conn (f True)) (snd (sock_calls S i (calls (fresh_outs w (f True))) x)))
                         else Some (set_role i (Conn (f False)) x1))"
    by (simp add: sock_step_def sock_calls_filter fresh_outs_def split: prod.split)
  have quiet: ?thesis if q: "quiet_step s (?g False)"
  proof (cases "calls (fresh_outs w (f False)) = []")
    case True
    then have "alike s (w_sock (f False))" using q by (simp add: quiet_step_def effect_def)
    then show ?thesis using run True kept_refl [OF ok] alike_core [OF c] by auto
  next
    case False
    then have q2: "calls (fresh_outs w (f False)) = [SocketClose]" "\<not> t_writing s" "shut s (w_sock (f False))"
      using q by (auto simp: quiet_step_def effect_def)
    obtain failed y where r: "sock_call S i SocketClose x = (failed, y)" by fastforce
    show ?thesis using run q2 r close_call [OF ok c q2(2,3) r] by auto
  qed
  have send: ?thesis if q: "send_step s ?g"
  proof -
    obtain d where q2: "\<not> t_writing s" "t_flag s \<noteq> E_STATE_CLOSE" "calls (fresh_outs w (f False)) = [AsyncSendSome d]"
        "t_writing (w_sock (f False))" "t_flag (w_sock (f False)) \<noteq> E_STATE_CLOSE" "buf_Data (t_msgbuffer1 (w_sock (f False))) = d"
        "t_fd (w_sock (f False)) = t_fd s" "calls (fresh_outs w (f True)) = [AsyncSendSome d, SocketClose]" "shut s (w_sock (f True))"
      using q by (auto simp: send_step_def effect_def)
    obtain failed y where r: "sock_call S i (AsyncSendSome d) x = (failed, y)" by fastforce
    note k = send_call [OF ok law c q2(1,2) r, of "w_sock (f False)"]
    show ?thesis
    proof (cases failed)
      case True
      obtain f2 z where r2: "sock_call S i SocketClose y = (f2, z)" by fastforce
      have "kept i y z \<and> conn_core i (w_sock (f True)) (rx_core z i)"
        using close_call [OF _ _ q2(1,9) r2] k True by (auto simp: kept_def stays_def)
      moreover have "sock_step S i (length (w_outs w)) (\<lambda>e. Some (f e)) x = Some (set_role i (Conn (f True)) z)"
        using run q2(3,8) r r2 True by simp
      ultimately show ?thesis using k kept_trans by blast
    next
      case False
      then show ?thesis using run q2 r k by auto
    qed
  qed
  have recv: ?thesis if q: "recv_step s ?g" and nr: "\<not> M_Impl_G_Read_Flag (rx_core x i)"
  proof -
    have q2: "calls (fresh_outs w (f False)) = [AsyncRecvSome]" "alike s (w_sock (f False))"
      using q by (simp_all add: recv_step_def effect_def)
    obtain failed y where r: "sock_call S i AsyncRecvSome x = (failed, y)" by fastforce
    have "t_flag s \<noteq> E_STATE_CLOSE" using q by (simp add: recv_step_def)
    note k = recv_call [OF ok law c nr this r]
    consider (ok) "\<not> failed" | (go) failed "calls (fresh_outs w (f True)) = [AsyncRecvSome]" "alike s (w_sock (f True))"
      | (shut) failed "calls (fresh_outs w (f True)) = [AsyncRecvSome, SocketClose]" "\<not> t_writing s" "shut s (w_sock (f True))"
      using q by (auto simp: recv_step_def effect_def)
    then show ?thesis
    proof cases
      case ok
      have "conn_core i (w_sock (f False)) (rx_core y i)" by (rule alike_core) (use k q2 in auto)
      then show ?thesis using run q2 r k ok by auto
    next
      case go
      have "conn_core i (w_sock (f True)) (rx_core y i)" by (rule alike_core) (use k go in auto)
      then show ?thesis using run q2 r k go by auto
    next
      case shut
      obtain f2 z where r2: "sock_call S i SocketClose y = (f2, z)" by fastforce
      have "kept i y z \<and> conn_core i (w_sock (f True)) (rx_core z i)"
        using close_call [OF _ _ shut(3,4) r2] k by (auto simp: kept_def stays_def)
      moreover have "sock_step S i (length (w_outs w)) (\<lambda>e. Some (f e)) x = Some (set_role i (Conn (f True)) z)"
        using run q2(1) shut(1,2) r r2 by simp
      ultimately show ?thesis using k kept_trans by blast
    qed
  qed
  show ?thesis
    using form free quiet send recv unfolding world_step_def sends_step_def
    by blast
qed

end
