(* ===== verification/Epoll_Net.thy ===== *)
theory Epoll_Net
  imports Epoll_Tcp_Props
begin

text \<open>
  The invariant of a program that listens and connects on the event loop, and the handlers of \<^verbatim>\<open>NetIo\<close> as an
  instance of the loop's contract.
\<close>

subsection \<open>Invariant\<close>

definition net_law :: "'e net_env \<Rightarrow> bool" where
  "net_law N \<longleftrightarrow> rw_law (ne_sys N) \<and> accept_law (ne_sys N) \<and> ctl_law (ne_sys N)
     \<and> (\<forall>e b. length (ne_data N e b) = M_SOCKET_READ_SIZE) \<and> (\<forall>e. \<not> ne_peer N M_INVALID_SOCKET e)"

fun role_ok :: "role \<Rightarrow> nat \<Rightarrow> hnd core \<Rightarrow> bool" where
  "role_ok Idle i c \<longleftrightarrow> \<not> M_Impl_G_Read_Flag c \<and> \<not> M_Impl_G_Write_Flag c
     \<and> (sc_reg c \<noteq> None \<longrightarrow> \<not> bit (sc_type c) 0 \<and> \<not> bit (sc_type c) 1)"
| "role_ok (Acceptor p) i c \<longleftrightarrow> sc_reg c \<noteq> None \<and> sc_type c = E_ACCEPT_OP
     \<and> sc_aop c = \<lparr>ao_acpt = Some i, ao_cli = Some p, ao_handler = Some (HAccept p i)\<rparr>
     \<and> \<not> M_Impl_G_Read_Flag c \<and> \<not> M_Impl_G_Write_Flag c \<and> M_Impl_G_Nonblock c \<and> M_Impl_G_Accept_Flag c \<and> \<not> closing c"
| "role_ok Connecting i c \<longleftrightarrow> sc_reg c \<noteq> None \<and> sc_type c = E_CONNECT_OP
     \<and> sc_cop c = \<lparr>ko_impl = Some i, ko_handler = Some (HConnect i)\<rparr>
     \<and> \<not> M_Impl_G_Read_Flag c \<and> \<not> M_Impl_G_Write_Flag c \<and> \<not> closing c"
| "role_ok (Conn w) i c \<longleftrightarrow> (\<exists>fd. sock_reach fd w) \<and> conn_core i (w_sock w) c"

definition net_K :: "nat \<Rightarrow> hnd option \<Rightarrow> bool" where
  "net_K i h \<longleftrightarrow> h = None \<or> h = Some (HClose i)"

definition fresh_core :: "u16 \<Rightarrow> 'h core" where
  "fresh_core ty = M_Impl_S_Type ty (M_Impl_S_Block (M_Impl_S_Unbind (M_Impl_S_V4 core_new)))"

text \<open>The part of the state that is not about single sockets.\<close>

definition book_ok :: "'e net \<Rightarrow> bool" where
  "book_ok x \<longleftrightarrow> distinct (u_gone (rx_user x)) \<and> (\<forall>i \<in> set (u_gone (rx_user x)). sc_fd (rx_core x i) = M_INVALID_SOCKET)
     \<and> (\<forall>t. \<forall>(i, h) \<in> set (ii_closereqs (rx_impl x t)). net_K i h)
     \<and> (\<forall>i. u_next (rx_user x) \<le> i \<longrightarrow> role_of x i = Idle \<and> rx_core x i = core_new \<and> i \<notin> set (u_gone (rx_user x)))
     \<and> (\<forall>a b p. role_of x a = Acceptor p \<longrightarrow> role_of x b = Acceptor p \<longrightarrow> a = b)"

text \<open>An acceptor has a new socket for the next connection.\<close>

definition waits :: "'e net \<Rightarrow> nat \<Rightarrow> bool" where
  "waits x p \<longleftrightarrow> p < u_next (rx_user x) \<and> role_of x p = Idle \<and> rx_core x p = fresh_core E_SOCKET_TYPE \<and> p \<notin> set (u_gone (rx_user x))"

text \<open>But for the sockets in \<^term>\<open>A\<close>.\<close>

definition net_but :: "nat set \<Rightarrow> 'e net \<Rightarrow> bool" where
  "net_but A x \<longleftrightarrow> rx_ok x \<and> book_ok x \<and> (\<forall>i. i \<notin> A \<longrightarrow> role_ok (role_of x i) i (rx_core x i))
     \<and> (\<forall>a p. a \<notin> A \<longrightarrow> role_of x a = Acceptor p \<longrightarrow> waits x p \<and> p \<notin> A)"

definition net_inv :: "'e net_env \<Rightarrow> 'e net \<Rightarrow> bool" where
  "net_inv N x \<longleftrightarrow> net_law N \<and> net_but {} x"

lemma user_do_sel [simp]:
  "rx_core (user_do f x) = rx_core x" "rx_env (user_do f x) = rx_env x" "rx_user (user_do f x) = f (rx_user x)" "rx_impl (user_do f x) = rx_impl x"
  "rx_implvector (user_do f x) = rx_implvector x" "rx_implmap (user_do f x) = rx_implmap x" "asked (user_do f x) = asked x" "rx_ok (user_do f x) = rx_ok x"
  by (simp_all add: user_do_def asked_def fun_eq_iff)

lemma set_role_sel [simp]:
  "rx_core (set_role i r x) = rx_core x" "rx_env (set_role i r x) = rx_env x" "rx_impl (set_role i r x) = rx_impl x"
  "asked (set_role i r x) = asked x" "rx_ok (set_role i r x) = rx_ok x"
  "u_next (rx_user (set_role i r x)) = u_next (rx_user x)" "u_gone (rx_user (set_role i r x)) = u_gone (rx_user x)"
  "u_fault (rx_user (set_role i r x)) = u_fault (rx_user x)"
  "role_of (set_role i r x) j = (if j = i then r else role_of x j)"
  by (simp_all add: set_role_def role_of_def)

lemma role_of_same: "rx_user x' = rx_user x \<Longrightarrow> role_of x' = role_of x"
  by (simp add: role_of_def fun_eq_iff)

lemma keeps_user [simp]: "keeps_reg x (user_do f y) = keeps_reg x y" "keeps_reg (user_do f x) y = keeps_reg x y"
  "keeps_reg x (set_role i r y) = keeps_reg x y" "keeps_reg (set_role i r x) y = keeps_reg x y"
  by (simp_all add: keeps_reg_def set_role_def)

lemma fresh_sel [simp]:
  "sc_fd (fresh_core ty) = M_INVALID_SOCKET" "sc_reg (fresh_core ty) = None" "\<not> closing (fresh_core ty)" "sc_epoll (fresh_core ty) = -1"
  "sc_fd core_new = M_INVALID_SOCKET" "sc_reg core_new = None" "\<not> closing core_new"
  by (simp_all add: fresh_core_def core_new_def closing_def impl_bits)

lemma net_inv_env: "net_inv N x \<Longrightarrow> net_inv N (x\<lparr>rx_env := e\<rparr>)"
  by (simp add: net_inv_def net_but_def book_ok_def waits_def role_of_def)

lemma net_inv_list:
  assumes "net_inv N x" "rx_ok (impl_do t f x)" "set (ii_closereqs (f (rx_impl x t))) \<subseteq> set (ii_closereqs (rx_impl x t))"
  shows "net_inv N (impl_do t f x)"
  using assms by (fastforce simp: net_inv_def net_but_def book_ok_def waits_def role_of_def)

lemma net_but_role: "net_but A x \<Longrightarrow> i \<notin> A \<Longrightarrow> role_ok (role_of x i) i (rx_core x i)"
  by (simp add: net_but_def)

lemma book_okD:
  assumes "book_ok x"
  shows "distinct (u_gone (rx_user x))" "i \<in> set (u_gone (rx_user x)) \<Longrightarrow> sc_fd (rx_core x i) = M_INVALID_SOCKET"
    "(i, h) \<in> set (ii_closereqs (rx_impl x t)) \<Longrightarrow> net_K i h"
    "u_next (rx_user x) \<le> i \<Longrightarrow> role_of x i = Idle \<and> rx_core x i = core_new \<and> i \<notin> set (u_gone (rx_user x))"
    "role_of x a = Acceptor p \<Longrightarrow> role_of x b = Acceptor p \<Longrightarrow> a = b"
  using assms unfolding book_ok_def by blast+

lemma book_okI:
  assumes "distinct (u_gone (rx_user x))" "\<And>i. i \<in> set (u_gone (rx_user x)) \<Longrightarrow> sc_fd (rx_core x i) = M_INVALID_SOCKET"
    "\<And>i h t. (i, h) \<in> set (ii_closereqs (rx_impl x t)) \<Longrightarrow> net_K i h"
    "\<And>i. u_next (rx_user x) \<le> i \<Longrightarrow> role_of x i = Idle \<and> rx_core x i = core_new \<and> i \<notin> set (u_gone (rx_user x))"
    "\<And>a b p. role_of x a = Acceptor p \<Longrightarrow> role_of x b = Acceptor p \<Longrightarrow> a = b"
  shows "book_ok x"
  using assms unfolding book_ok_def by blast

lemma net_butD:
  assumes "net_but A x"
  shows "rx_ok x" "book_ok x" "i \<notin> A \<Longrightarrow> role_ok (role_of x i) i (rx_core x i)"
    "a \<notin> A \<Longrightarrow> role_of x a = Acceptor p \<Longrightarrow> waits x p \<and> p \<notin> A"
  using assms unfolding net_but_def by blast+

lemma net_butI:
  assumes "rx_ok x" "book_ok x" "\<And>i. i \<notin> A \<Longrightarrow> role_ok (role_of x i) i (rx_core x i)"
    "\<And>a p. a \<notin> A \<Longrightarrow> role_of x a = Acceptor p \<Longrightarrow> waits x p \<and> p \<notin> A"
  shows "net_but A x"
  using assms unfolding net_but_def by blast

text \<open>A step on one socket that is left out, and a socket that gets another role and is not left out any more.\<close>

lemma net_but_stays:
  assumes inv: "net_but A x" and i: "i \<in> A" "i < u_next (rx_user x)" and k: "stays i x y"
  shows "net_but A y"
proof (rule net_butI)
  note b = book_okD [OF net_butD(2) [OF inv]]
  have u: "rx_user y = rx_user x" "role_of y = role_of x" using k role_of_same [of y x] by (simp_all add: stays_def)
  have c: "rx_core y j = rx_core x j" if "j \<noteq> i" for j using k that by (simp add: stays_def)
  show "rx_ok y" using k by (simp add: stays_def)
  show "book_ok y"
  proof (rule book_okI)
    show "distinct (u_gone (rx_user y))" using b(1) by (simp add: u)
    show "sc_fd (rx_core y j) = M_INVALID_SOCKET" if "j \<in> set (u_gone (rx_user y))" for j
      using b(2) [of j] that k c [of j] by (cases "j = i") (simp_all add: u stays_def)
    show "net_K j h" if "(j, h) \<in> set (ii_closereqs (rx_impl y t))" for j h t
    proof -
      have "(j, h) \<in> set (ii_closereqs (rx_impl x t)) \<union> {(i, None), (i, Some (HClose i))}" using k that by (auto simp: stays_def)
      then show ?thesis using b(3) by (auto simp: net_K_def)
    qed
    show "role_of y j = Idle \<and> rx_core y j = core_new \<and> j \<notin> set (u_gone (rx_user y))" if "u_next (rx_user y) \<le> j" for j
      using b(4) [of j] that i(2) c [of j] by (simp add: u)
    show "a = a'" if "role_of y a = Acceptor p" "role_of y a' = Acceptor p" for a a' p
      using b(5) that by (simp add: u)
  qed
  show "role_ok (role_of y j) j (rx_core y j)" if "j \<notin> A" for j
  proof -
    have "j \<noteq> i" using that i(1) by auto
    then show ?thesis using net_butD(3) [OF inv that] c [of j] by (simp add: u)
  qed
  show "waits y p \<and> p \<notin> A" if a: "a \<notin> A" "role_of y a = Acceptor p" for a p
  proof -
    have "waits x p \<and> p \<notin> A" using net_butD(4) [OF inv] a by (simp add: u)
    then show ?thesis using c [of p] i(1) by (auto simp: waits_def u)
  qed
qed

lemma net_but_set:
  assumes inv: "net_but A x" and i: "i \<in> A" "i < u_next (rx_user x)" and r: "role_ok r i (rx_core x i)"
    and q: "\<And>q. r = Acceptor q \<Longrightarrow> waits x q \<and> q \<noteq> i \<and> q \<notin> A \<and> (\<forall>b. b \<noteq> i \<longrightarrow> role_of x b \<noteq> Acceptor q)"
  shows "net_but (A - {i}) (set_role i r x)"
proof (rule net_butI)
  let ?z = "set_role i r x"
  note b = book_okD [OF net_butD(2) [OF inv]]
  show "rx_ok ?z" using net_butD(1) [OF inv] by simp
  show "book_ok ?z"
  proof (rule book_okI)
    show "distinct (u_gone (rx_user ?z))" "\<And>j. j \<in> set (u_gone (rx_user ?z)) \<Longrightarrow> sc_fd (rx_core ?z j) = M_INVALID_SOCKET"
      "\<And>j h t. (j, h) \<in> set (ii_closereqs (rx_impl ?z t)) \<Longrightarrow> net_K j h"
      using b(1-3) by simp_all
    show "role_of ?z j = Idle \<and> rx_core ?z j = core_new \<and> j \<notin> set (u_gone (rx_user ?z))" if "u_next (rx_user ?z) \<le> j" for j
      using b(4) [of j] that i(2) by simp
    show "a = a'" if a: "role_of ?z a = Acceptor p" "role_of ?z a' = Acceptor p" for a a' p
    proof (cases "a = i \<or> a' = i")
      case True
      then have "r = Acceptor p" using a by auto
      then show ?thesis using q [of p] a by (auto split: if_splits)
    next
      case False
      then show ?thesis using b(5) a by simp
    qed
  qed
  show "role_ok (role_of ?z j) j (rx_core ?z j)" if "j \<notin> A - {i}" for j
    using net_butD(3) [OF inv, of j] that r by (cases "j = i") simp_all
  show "waits ?z p \<and> p \<notin> A - {i}" if a: "a \<notin> A - {i}" "role_of ?z a = Acceptor p" for a p
  proof (cases "a = i")
    case True
    then show ?thesis using q [of p] a(2) by (simp add: waits_def)
  next
    case False
    then have "waits x p \<and> p \<notin> A" using net_butD(4) [OF inv] a by simp
    then show ?thesis using i(1) by (auto simp: waits_def)
  qed
qed

lemma net_but_step:
  assumes "net_but A x" "i \<in> A" "i < u_next (rx_user x)" "stays i x y" "role_ok r i (rx_core y i)" "\<And>p. r \<noteq> Acceptor p"
  shows "net_but (A - {i}) (set_role i r y)"
proof -
  have "u_next (rx_user y) = u_next (rx_user x)" using assms(4) by (simp add: stays_def)
  moreover have "waits y q \<and> q \<noteq> i \<and> q \<notin> A \<and> (\<forall>b. b \<noteq> i \<longrightarrow> role_of y b \<noteq> Acceptor q)" if "r = Acceptor q" for q
    using assms(6) that by blast
  ultimately show ?thesis using assms(3,5) by (intro net_but_set [OF net_but_stays [OF assms(1,2,3,4)] assms(2)]) auto
qed

lemma net_but_insert: "net_but A x \<Longrightarrow> \<forall>a. role_of x a \<noteq> Acceptor i \<Longrightarrow> net_but (insert i A) x"
  by (rule net_butI) (auto dest: net_butD)

lemma not_waited: "net_but {} x \<Longrightarrow> role_of x i \<noteq> Idle \<or> rx_core x i \<noteq> fresh_core E_SOCKET_TYPE \<Longrightarrow> \<forall>a. role_of x a \<noteq> Acceptor i"
  using net_butD(4) [of "{}" x] by (auto simp: waits_def)

lemma net_but_known: "net_but A x \<Longrightarrow> role_of x i \<noteq> Idle \<or> rx_core x i \<noteq> core_new \<Longrightarrow> i < u_next (rx_user x)"
  using book_okD(4) [OF net_butD(2), of A x i] by (auto intro: leI)

lemma kept_stays: "kept i x y \<Longrightarrow> stays i x y"
  by (simp add: kept_def)

text \<open>A step on a socket that no acceptor waits with.\<close>

lemma net_step:
  assumes inv: "net_but {} x" and i: "role_of x i \<noteq> Idle \<or> rx_core x i \<noteq> core_new \<and> rx_core x i \<noteq> fresh_core E_SOCKET_TYPE"
    and k: "stays i x y" and r: "role_ok r i (rx_core y i)" "\<And>p. r \<noteq> Acceptor p"
  shows "net_but {} (set_role i r y)"
proof -
  have "net_but ({i} - {i}) (set_role i r y)"
    by (rule net_but_step [OF net_but_insert [OF inv not_waited [OF inv]] _ _ k r]) (use i net_but_known [OF inv, of i] in auto)
  then show ?thesis by simp
qed

lemma net_but_fault: "net_but A (user_do (\<lambda>u. u\<lparr>u_fault := f u\<rparr>) x) = net_but A x" "net_but A (user_do (\<lambda>u. u\<lparr>u_failed := f u\<rparr>) x) = net_but A x"
proof -
  have "u_gone (u\<lparr>u_fault := v\<rparr>) = u_gone u" "u_next (u\<lparr>u_fault := v\<rparr>) = u_next u" "u_role (u\<lparr>u_fault := v\<rparr>) = u_role u"
    "u_gone (u\<lparr>u_failed := v\<rparr>) = u_gone u" "u_next (u\<lparr>u_failed := v\<rparr>) = u_next u" "u_role (u\<lparr>u_failed := v\<rparr>) = u_role u" for u :: netio and v
    by simp_all
  then show "net_but A (user_do (\<lambda>u. u\<lparr>u_fault := f u\<rparr>) x) = net_but A x" "net_but A (user_do (\<lambda>u. u\<lparr>u_failed := f u\<rparr>) x) = net_but A x"
    by (simp_all only: net_but_def book_ok_def waits_def user_do_sel role_of_def)
qed

lemma net_but_same_role: "role_of x i = r \<Longrightarrow> net_but A (set_role i r x) = net_but A x"
  by (simp add: set_role_def user_do_def role_of_def fun_upd_idem)

lemma reach_exec: "\<lbrakk>sock_reach fd w; enabled i w; exec i w \<noteq> None\<rbrakk> \<Longrightarrow> \<exists>fd. sock_reach fd (the (exec i w))"
  using sock_reach.step by fastforce

lemma core_kept:
  assumes "rx_ok x" "core_ok i (f (rx_core x i))" "sc_reg (f (rx_core x i)) \<noteq> None" "sc_fd (f (rx_core x i)) = sc_fd (rx_core x i)"
    "closing (f (rx_core x i)) = closing (rx_core x i)"
  shows "kept i x (core_do i f x)"
proof -
  have "rx_ok (core_do i f x) \<and> keeps_reg x (core_do i f x)"
    by (rule only_core_ok [OF assms(1), of i]) (use assms in simp_all)
  then show ?thesis using assms(4) by (intro only_core_kept) simp_all
qed

subsection \<open>The handlers of a connection\<close>

lemma read_done_ok:
  assumes "core_ok i c" "M_Impl_G_Read_Flag c" "M_Impl_G_Write_Flag c \<longrightarrow> bit m 2"
  shows "core_ok i (read_done (m, i) c)" "sc_reg (read_done (m, i) c) \<noteq> None" "sc_fd (read_done (m, i) c) = sc_fd c"
    "closing (read_done (m, i) c) = closing c" "\<not> M_Impl_G_Read_Flag (read_done (m, i) c)"
proof -
  obtain m0 where "sc_reg c = Some (m0, i)" "reg_ok i c m0 i"
    using core_ok_reg [OF assms(1)] assms(1,2) by (auto simp: core_ok_def)
  then show "core_ok i (read_done (m, i) c)"
    using assms by (auto simp: core_ok_def reg_ok_def read_done_def Read_Clear_def rw_ready_def closing_def impl_bits bit_simps)
qed (simp_all add: read_done_def Read_Clear_def closing_def impl_bits bit_simps)

lemma read_done_conn: "conn_core i s c \<Longrightarrow> sc_reg c \<noteq> None \<Longrightarrow> conn_core i s (read_done (m, i) c)"
  by (auto simp: conn_core_def read_done_def Read_Clear_def closing_def impl_bits bit_simps)

lemma write_done_ok:
  assumes "core_ok i c" "M_Impl_G_Write_Flag c" "M_Impl_G_Read_Flag c \<longrightarrow> bit m 0"
  shows "core_ok i (write_done (m, i) c)" "sc_reg (write_done (m, i) c) \<noteq> None" "sc_fd (write_done (m, i) c) = sc_fd c"
    "closing (write_done (m, i) c) = closing c" "M_Impl_G_Read_Flag (write_done (m, i) c) = M_Impl_G_Read_Flag c"
proof -
  obtain m0 where "sc_reg c = Some (m0, i)" "reg_ok i c m0 i"
    using core_ok_reg [OF assms(1)] assms(1,2) by (auto simp: core_ok_def)
  then show "core_ok i (write_done (m, i) c)"
    using assms by (auto simp: core_ok_def reg_ok_def write_done_def Write_Clear_def rw_ready_def closing_def impl_bits bit_simps)
qed (simp_all add: write_done_def Write_Clear_def closing_def impl_bits bit_simps)

lemma write_done_conn: "conn_core i s c \<Longrightarrow> sc_reg c \<noteq> None \<Longrightarrow> conn_core i (s\<lparr>t_writing := False\<rparr>) (write_done (m, i) c)"
  by (auto simp: conn_core_def write_done_def Write_Clear_def closing_def impl_bits bit_simps)

text \<open>A step of a connection, from a core that has been completed so far.\<close>

lemma conn_step_inv:
  assumes inv: "net_but {} x" and law: "ctl_law S" and r: "role_of x i = Conn w" and k: "kept i x x1"
    and c: "conn_core i s (rx_core x1 i)" and form: "\<forall>e. g e \<noteq> None" "world_step w (\<lambda>e. the (g e)) s"
    and free: "recv_step s (effect w (\<lambda>e. the (g e))) \<longrightarrow> \<not> M_Impl_G_Read_Flag (rx_core x1 i)"
    and reach: "\<And>e. \<exists>fd. sock_reach fd (the (g e))"
  shows "\<exists>x'. sock_step S i (length (w_outs w)) g x1 = Some x' \<and> net_but {} x' \<and> keeps_reg x x'"
proof -
  have "rx_ok x1" using k by (simp add: kept_def stays_def)
  moreover have "g = (\<lambda>e. Some (the (g e)))" using form(1) by auto
  ultimately obtain e y where y: "sock_step S i (length (w_outs w)) g x1 = Some (set_role i (Conn (the (g e))) y)" "kept i x1 y"
      "conn_core i (w_sock (the (g e))) (rx_core y i)"
    using sock_step_ok [OF _ law c form(2) free] by auto
  have k2: "kept i x y" by (rule kept_trans [OF k y(2)])
  have "net_but {} (set_role i (Conn (the (g e))) y)"
    by (rule net_step [OF inv _ kept_stays [OF k2]]) (use r y(3) reach in simp_all)
  then show ?thesis using y(1) k2 by (simp add: kept_def stays_def)
qed

lemma conn_reach: "net_but {} x \<Longrightarrow> role_of x i = Conn w \<Longrightarrow> \<exists>fd. sock_reach fd w \<and> world_ok w \<and> conn_core i (w_sock w) (rx_core x i)"
  using net_butD(3) [of "{}" x i] reach_world_ok by fastforce

lemma net_read:
  assumes inv: "net_inv N x" and rd: "M_Impl_G_Read_Flag (rx_core x i)" and h: "rw_handler (sc_rop (rx_core x i)) = Some h"
    and n: "n \<le> rw_len (sc_rop (rx_core x i))" and m: "M_Impl_G_Write_Flag (rx_core x i) \<longrightarrow> bit m 2"
  shows "\<exists>x'. net_H N (CRead h n err) (core_do i (read_done (m, i)) x) = Some x' \<and> net_inv N x' \<and> keeps_reg x x'"
proof -
  have law: "net_law N" and but: "net_but {} x" using inv by (simp_all add: net_inv_def)
  obtain w where w: "role_of x i = Conn w" using net_butD(3) [OF but, of i] rd by (cases "role_of x i") auto
  obtain fd where fd: "sock_reach fd w" "world_ok w" "conn_core i (w_sock w) (rx_core x i)" using conn_reach [OF but w] by blast
  have h2: "h = HRead i" "n \<le> word_of_nat M_SOCKET_READ_SIZE" using fd(3) rd h n by (simp_all add: conn_core_def)
  then have n2: "unat n \<le> M_SOCKET_READ_SIZE" by (simp add: word_le_nat_alt M_SOCKET_READ_SIZE_def)
  define x1 where "x1 = core_do i (read_done (m, i)) x"
  note co = rx_okD [OF net_butD(1) [OF but], of i]
  note rdk = read_done_ok [OF co rd m]
  have k: "kept i x x1" unfolding x1_def by (rule core_kept [OF net_butD(1) [OF but]]) (use rdk in simp_all)
  have c1: "conn_core i (w_sock w) (rx_core x1 i)" "\<not> M_Impl_G_Read_Flag (rx_core x1 i)"
    using read_done_conn [OF fd(3)] co rd rdk(5) by (auto simp: x1_def core_ok_def)
  let ?g = "\<lambda>e. exec (SysRead (ne_data N (rx_env x1) (read_buf i)) (unat n) (err \<noteq> 0) e) w"
  have H: "net_H N (CRead h n err) x1 = (if ?g False = None then Some (user_do (\<lambda>u. u\<lparr>u_fault := u_fault u @ [i]\<rparr>) x1)
      else sock_step (ne_sys N) i (length (w_outs w)) ?g x1)"
    using w by (simp add: h2 x1_def NetIo_ReadHandler_def Let_def role_of_def)
  show ?thesis
  proof (cases "?g False = None")
    case True
    have "net_but {} (set_role i (Conn w) x1)"
      by (rule net_step [OF but _ kept_stays [OF k]]) (use w c1 fd in auto)
    moreover have "role_of x1 i = Conn w" using w by (simp add: x1_def role_of_def)
    ultimately have "net_but {} (user_do (\<lambda>u. u\<lparr>u_fault := u_fault u @ [i]\<rparr>) x1)"
      by (simp add: net_but_fault net_but_same_role)
    then show ?thesis using H True law k unfolding x1_def [symmetric] by (simp add: net_inv_def kept_def stays_def)
  next
    case False
    have st: "(\<forall>e. ?g e \<noteq> None) \<and> world_step w (\<lambda>e. the (?g e)) (w_sock w)"
      by (rule read_step [OF fd(2) False])
    have "enabled (SysRead (ne_data N (rx_env x1) (read_buf i)) (unat n) (err \<noteq> 0) e) w" for e
      using n2 law by (simp add: net_law_def)
    then have "\<exists>fd. sock_reach fd (the (?g e))" for e using reach_exec [OF fd(1)] st by blast
    then show ?thesis
      using conn_step_inv [OF but _ w k c1(1), of "ne_sys N" ?g] st c1(2) law H False unfolding x1_def [symmetric]
      by (simp add: net_inv_def net_law_def del: exec.simps)
  qed
qed

lemma net_write:
  assumes inv: "net_inv N x" and wr: "M_Impl_G_Write_Flag (rx_core x i)" and h: "rw_handler (sc_wop (rx_core x i)) = Some h"
    and n: "n \<le> rw_len (sc_wop (rx_core x i))" and m: "M_Impl_G_Read_Flag (rx_core x i) \<longrightarrow> bit m 0"
  shows "\<exists>x'. net_H N (CWrite h n err) (core_do i (write_done (m, i)) x) = Some x' \<and> net_inv N x' \<and> keeps_reg x x'"
proof -
  have law: "net_law N" and but: "net_but {} x" using inv by (simp_all add: net_inv_def)
  obtain w where w: "role_of x i = Conn w" using net_butD(3) [OF but, of i] wr by (cases "role_of x i") auto
  obtain fd where fd: "sock_reach fd w" "world_ok w" "conn_core i (w_sock w) (rx_core x i)" using conn_reach [OF but w] by blast
  let ?d = "buf_Data (t_msgbuffer1 (w_sock w))"
  have h2: "h = HWrite i" "n \<le> word_of_nat (length ?d)" "t_writing (w_sock w)" using fd(3) wr h n by (simp_all add: conn_core_def)
  have "length ?d < 2 ^ 32"
    using fd(2) buf.bytes_used [of "t_msgbuffer1 (w_sock w)"] by (simp add: world_ok_def writer_ok_def writer_bufs_def)
  then have n2: "unat n \<le> length ?d" using h2(2) by (simp add: word_le_nat_alt unat_of_nat_small)
  define x1 where "x1 = core_do i (write_done (m, i)) x"
  note co = rx_okD [OF net_butD(1) [OF but], of i]
  note wdk = write_done_ok [OF co wr m]
  have k: "kept i x x1" unfolding x1_def by (rule core_kept [OF net_butD(1) [OF but]]) (use wdk in simp_all)
  have c1: "conn_core i ((w_sock w)\<lparr>t_writing := False\<rparr>) (rx_core x1 i)"
    using write_done_conn [OF fd(3)] co wr by (auto simp: x1_def core_ok_def)
  let ?g = "\<lambda>e. exec (SysWritten (unat n) (err \<noteq> 0) e) w"
  have st: "(\<forall>e. ?g e \<noteq> None)" "sends_step w (\<lambda>e. the (?g e)) ((w_sock w)\<lparr>t_writing := False\<rparr>)"
    using written_step [OF fd(2) h2(3)] by blast+
  have "\<exists>fd. sock_reach fd (the (?g e))" for e
    by (rule reach_exec [OF fd(1)]) (use st(1) n2 h2(3) in \<open>simp, blast\<close>)
  moreover have "net_H N (CWrite h n err) x1 = sock_step (ne_sys N) i (length (w_outs w)) ?g x1"
    using w by (simp add: h2 x1_def NetIo_WriteHandler_def role_of_def)
  ultimately show ?thesis
    using conn_step_inv [OF but _ w k c1, of "ne_sys N" ?g] st sends_not_recv [OF st(2)] law unfolding x1_def [symmetric]
    by (simp add: net_inv_def net_law_def world_step_def del: exec.simps)
qed

end
