(* ===== verification/Epoll_Safe.thy ===== *)
theory Epoll_Safe
  imports Epoll_Net
begin

text \<open>
  Objects that are made and freed, the handlers of accepted and connected sockets, the loop's contract interpreted on all
  of them, and what holds in every run of a program that listens and connects.
\<close>

subsection \<open>Objects come and go\<close>

lemma role_of_core [simp]: "role_of (core_do i f x) = role_of x" "role_of (x\<lparr>rx_env := e\<rparr>) = role_of x"
  by (simp_all add: role_of_def fun_eq_iff)

lemma type_state:
  "bit (sc_state (M_Impl_S_Type 0 c)) 1 = bit (sc_state c) 1" "bit (sc_state (M_Impl_S_Type 0 c)) 2 = bit (sc_state c) 2"
  "bit (sc_state (M_Impl_S_Type 0 c)) 5 = bit (sc_state c) 5"
  "bit (sc_state (M_Impl_S_Type 0 c)) 7 = bit (sc_state c) 7" "bit (sc_state (M_Impl_S_Type 0 c)) 8 = bit (sc_state c) 8"
  "bit (sc_state (M_Impl_S_Type 0 c)) 9 = bit (sc_state c) 9"
  by (simp_all add: M_Impl_S_Type_def bit_simps bit_numeral_rec)

definition destroyed :: "'h core \<Rightarrow> 'h core" where
  "destroyed c = M_Impl_S_Type 0 (M_Impl_S_Block (M_Impl_S_Unbind (M_Impl_S_V4 c)))"

lemma destroyed_sel:
  "sc_reg (destroyed c) = sc_reg c" "sc_fd (destroyed c) = sc_fd c" "sc_type (destroyed c) = sc_type c" "sc_epoll (destroyed c) = sc_epoll c"
  "sc_rop (destroyed c) = sc_rop c" "sc_wop (destroyed c) = sc_wop c" "sc_cop (destroyed c) = sc_cop c" "sc_aop (destroyed c) = sc_aop c"
  "M_Impl_G_Read_Flag (destroyed c) = M_Impl_G_Read_Flag c" "M_Impl_G_Write_Flag (destroyed c) = M_Impl_G_Write_Flag c"
  "M_Impl_G_Close_Flag (destroyed c) = M_Impl_G_Close_Flag c" "M_Impl_G_Accept_Flag (destroyed c) = M_Impl_G_Accept_Flag c"
  "\<not> M_Impl_G_Bind (destroyed c)"
proof -
  show "M_Impl_G_Read_Flag (destroyed c) = M_Impl_G_Read_Flag c" "M_Impl_G_Write_Flag (destroyed c) = M_Impl_G_Write_Flag c"
  "M_Impl_G_Close_Flag (destroyed c) = M_Impl_G_Close_Flag c" "M_Impl_G_Accept_Flag (destroyed c) = M_Impl_G_Accept_Flag c"
  "\<not> M_Impl_G_Bind (destroyed c)"
    unfolding destroyed_def M_Impl_G_Read_Flag_def M_Impl_G_Write_Flag_def M_Impl_G_Close_Flag_def M_Impl_G_Accept_Flag_def M_Impl_G_Bind_def type_state
    by (simp_all add: M_Impl_S_Block_def M_Impl_S_Unbind_def M_Impl_S_V4_def bit_simps)
qed (simp_all add: destroyed_def M_Impl_S_Type_def M_Impl_S_Block_def M_Impl_S_Unbind_def M_Impl_S_V4_def)

lemma destroyed_ok:
  assumes "core_ok i c" "sc_fd c = M_INVALID_SOCKET \<or> closing c"
  shows "core_ok i (destroyed c)"
proof (cases "sc_reg c")
  case None
  then show ?thesis using assms by (auto simp: core_ok_def destroyed_sel closing_def)
next
  case (Some r)
  then have "reg_ok i c (fst r) (snd r)" using assms(1) by (simp add: core_ok_def)
  then have "reg_ok i (destroyed c) (fst r) (snd r)" "closing c" using assms(2) by (auto simp: reg_ok_def destroyed_sel)
  then show ?thesis using assms(1) Some by (simp add: core_ok_def destroyed_sel closing_def)
qed
lemma DestroyImpl_core: "Io_DestroyImpl i x = core_do i destroyed x"
  by (simp add: Io_DestroyImpl_def Io_ConstructImpl_def destroyed_def [abs_def])

lemma obj_free_eq: "obj_free S i x = set_role i Idle (core_do i destroyed (snd (Io_Close S i None 0 x)))"
  by (simp add: obj_free_def DestroyImpl_core core_do_def set_role_def user_do_def)

lemma free_kept:
  assumes ok: "rx_ok x" and yd: "y = core_do i destroyed (snd (Io_Close S i None 0 x))"
  shows "kept i x y" "M_Impl_G_Read_Flag (rx_core y i) \<longrightarrow> M_Impl_G_Read_Flag (rx_core x i)"
    "M_Impl_G_Write_Flag (rx_core y i) \<longrightarrow> M_Impl_G_Write_Flag (rx_core x i)" "sc_type (rx_core y i) = sc_type (rx_core x i)"
    "sc_reg (rx_core y i) \<noteq> None \<longrightarrow> sc_reg (rx_core x i) \<noteq> None"
proof -
  obtain err x1 where c: "Io_Close S i None 0 x = (err, x1)" by fastforce
  note k = Io_Close_ok [OF ok c] and cc = close_core [OF ok c]
  have y: "y = core_do i destroyed x1" by (simp add: yd c)
  show "M_Impl_G_Read_Flag (rx_core y i) \<longrightarrow> M_Impl_G_Read_Flag (rx_core x i)"
    "M_Impl_G_Write_Flag (rx_core y i) \<longrightarrow> M_Impl_G_Write_Flag (rx_core x i)" "sc_type (rx_core y i) = sc_type (rx_core x i)"
    "sc_reg (rx_core y i) \<noteq> None \<longrightarrow> sc_reg (rx_core x i) \<noteq> None"
    using cc by (simp_all add: y destroyed_sel)
  have "core_ok i (destroyed (rx_core x1 i))" by (rule destroyed_ok) (use k rx_okD in blast)+
  then have "rx_ok y \<and> keeps_reg x1 y"
    by (intro only_core_ok [of x1 i]) (use k in \<open>simp_all add: y destroyed_sel closing_def\<close>)
  moreover have "rx_core y j = rx_core x j" if "j \<noteq> i" for j using k that by (simp add: y)
  moreover have "set (ii_closereqs (rx_impl y t)) \<subseteq> set (ii_closereqs (rx_impl x t)) \<union> {(i, None), (i, Some (HClose i))}" for t
    using Io_Close_reqs [of S i None 0 x t] c by (auto simp: y)
  moreover have "rx_user y = rx_user x" using k by (simp add: y)
  moreover have "sc_fd (rx_core x i) = M_INVALID_SOCKET \<longrightarrow> sc_fd (rx_core y i) = M_INVALID_SOCKET"
    using cc(6) by (auto simp: y destroyed_sel)
  ultimately show "kept i x y" using k keeps_reg_trans by (auto simp: kept_def stays_def)
qed

lemma obj_free_ok:
  assumes inv: "net_but A x" and i: "i \<in> A" "i < u_next (rx_user x)"
    and c: "\<not> M_Impl_G_Read_Flag (rx_core x i)" "\<not> M_Impl_G_Write_Flag (rx_core x i)"
      "sc_reg (rx_core x i) \<noteq> None \<longrightarrow> \<not> bit (sc_type (rx_core x i)) 0 \<and> \<not> bit (sc_type (rx_core x i)) 1"
  shows "net_but (A - {i}) (obj_free S i x)" "keeps_reg x (obj_free S i x)" "j \<noteq> i \<Longrightarrow> rx_core (obj_free S i x) j = rx_core x j"
    "j \<noteq> i \<Longrightarrow> role_of (obj_free S i x) j = role_of x j" "u_next (rx_user (obj_free S i x)) = u_next (rx_user x)"
proof -
  note f = free_kept [OF net_butD(1) [OF inv] refl, of i S]
  have "role_ok Idle i (rx_core (core_do i destroyed (snd (Io_Close S i None 0 x))) i)"
    using c f(2-5) by (auto simp del: core_do_sel)
  then show "net_but (A - {i}) (obj_free S i x)"
    unfolding obj_free_eq by (rule net_but_step [OF inv i kept_stays [OF f(1)]]) simp
  show "keeps_reg x (obj_free S i x)" using f(1) by (simp add: obj_free_eq kept_def)
  show "rx_core (obj_free S i x) j = rx_core x j" "role_of (obj_free S i x) j = role_of x j" if "j \<noteq> i"
    using f(1) that role_of_same [of "snd (Io_Close S i None 0 x)" x] by (simp_all add: obj_free_eq kept_def stays_def)
  show "u_next (rx_user (obj_free S i x)) = u_next (rx_user x)" using f(1) by (simp add: obj_free_eq kept_def stays_def)
qed

lemma fresh_flags:
  assumes "ty \<in> {E_SOCKET_TYPE, E_ACCEPTOR_TYPE, E_CONNECTOR_TYPE}"
  shows "\<not> M_Impl_G_Read_Flag (fresh_core ty)" "\<not> M_Impl_G_Write_Flag (fresh_core ty)" "\<not> M_Impl_G_Bind (fresh_core ty)"
    "\<not> M_Impl_G_Accept_Flag (fresh_core ty)" "\<not> M_Impl_G_Connect_Flag (fresh_core ty)" "\<not> M_Impl_G_Close_Flag (fresh_core ty)"
  using assms by (auto simp: fresh_core_def core_new_def E_SOCKET_TYPE_def E_ACCEPTOR_TYPE_def E_CONNECTOR_TYPE_def impl_bits bit_simps bit_numeral_rec)

lemma obj_new_ok:
  assumes ty: "ty \<in> {E_SOCKET_TYPE, E_ACCEPTOR_TYPE, E_CONNECTOR_TYPE}" and inv: "net_but A x" and r: "obj_new ty x = (i, y)" and A: "\<forall>a \<in> A. a < u_next (rx_user x)"
  shows "net_but A y" "keeps_reg x y" "i = u_next (rx_user x)" "u_next (rx_user y) = i + 1" "rx_core y i = fresh_core ty"
    "\<And>j. j \<noteq> i \<Longrightarrow> rx_core y j = rx_core x j" "role_of y = role_of x" "role_of y i = Idle"
    "i \<notin> A" "\<forall>a. a \<notin> A \<longrightarrow> role_of y a \<noteq> Acceptor i" "i \<notin> set (u_gone (rx_user y))" "rx_env y = rx_env x"
proof -
  note b = book_okD [OF net_butD(2) [OF inv]]
  have i: "i = u_next (rx_user x)" and y: "y = core_do i (\<lambda>c. fresh_core ty) (user_do (\<lambda>u. u\<lparr>u_next := i + 1\<rparr>) x)"
    using r by (auto simp: obj_new_def Io_ConstructImpl_def fresh_core_def Let_def)
  have n: "role_of x i = Idle" "rx_core x i = core_new" "i \<notin> set (u_gone (rx_user x))" using b(4) [of i] by (simp_all add: i)
  have ro: "role_of y = role_of x" by (simp add: y role_of_def fun_eq_iff)
  have w: "waits x p \<Longrightarrow> p \<noteq> i" for p by (auto simp: waits_def i)
  show "i = u_next (rx_user x)" "u_next (rx_user y) = i + 1" "rx_core y i = fresh_core ty" "\<And>j. j \<noteq> i \<Longrightarrow> rx_core y j = rx_core x j"
    "role_of y = role_of x" "role_of y i = Idle" "i \<notin> set (u_gone (rx_user y))" "rx_env y = rx_env x"
    using i n ro by (simp_all add: y)
  show "i \<notin> A" using A by (auto simp: i)
  show "\<forall>a. a \<notin> A \<longrightarrow> role_of y a \<noteq> Acceptor i" using net_butD(4) [OF inv] w by (auto simp: ro)
  have fo: "core_ok i (fresh_core ty)" by (simp add: core_ok_def fresh_flags [OF ty])
  have "rx_ok y \<and> keeps_reg (user_do (\<lambda>u. u\<lparr>u_next := i + 1\<rparr>) x) y"
    unfolding y by (rule only_core_ok [of _ i]) (use net_butD(1) [OF inv] n fo in simp_all)
  then have ok: "rx_ok y" and kr: "keeps_reg x y" by simp_all
  show "keeps_reg x y" by (rule kr)
  show "net_but A y"
  proof (rule net_butI)
    show "rx_ok y" by (rule ok)
    show "book_ok y"
    proof (rule book_okI)
      show "distinct (u_gone (rx_user y))" "\<And>j. j \<in> set (u_gone (rx_user y)) \<Longrightarrow> sc_fd (rx_core y j) = M_INVALID_SOCKET"
        "\<And>j h t. (j, h) \<in> set (ii_closereqs (rx_impl y t)) \<Longrightarrow> net_K j h"
        using b(1-3) n by (auto simp: y)
      show "role_of y j = Idle \<and> rx_core y j = core_new \<and> j \<notin> set (u_gone (rx_user y))" if "u_next (rx_user y) \<le> j" for j
        using b(4) [of j] that by (simp add: ro) (simp add: y i)
      show "a = a'" if "role_of y a = Acceptor p" "role_of y a' = Acceptor p" for a a' p
        using b(5) that by (simp add: ro)
    qed
    show "role_ok (role_of y j) j (rx_core y j)" if "j \<notin> A" for j
      using net_butD(3) [OF inv that] n by (cases "j = i") (simp_all add: ro, simp_all add: y fresh_flags [OF ty])
    show "waits y p \<and> p \<notin> A" if "a \<notin> A" "role_of y a = Acceptor p" for a p
    proof -
      have "waits x p \<and> p \<notin> A" using net_butD(4) [OF inv] that by (simp add: ro)
      moreover then have "p \<noteq> i" using w by simp
      ultimately show ?thesis by (simp add: waits_def ro) (simp add: y i)
    qed
  qed
qed

subsection \<open>The handlers of closing and of connecting\<close>

lemma net_close:
  assumes inv: "net_inv N x" and cl: "closing (rx_core x i)" and na: "\<forall>t. i \<notin> asked x t" and K: "net_K i r"
  shows "\<exists>x'. (case r of None \<Rightarrow> Some (core_do i core_closed x) | Some f \<Rightarrow> net_H N (CClose f) (core_do i core_closed x)) = Some x'
    \<and> net_inv N x' \<and> keeps_reg (core_do i core_closed x) x'"
proof -
  have law: "net_law N" and but: "net_but {} x" using inv by (simp_all add: net_inv_def)
  let ?y = "core_do i core_closed x"
  have fd: "sc_fd (rx_core x i) \<noteq> M_INVALID_SOCKET" using cl by (simp add: closing_def)
  have "rx_ok ?y"
    using net_butD(1) [OF but] na by (auto simp: rx_ok_def reqs_ok_def core_closed_ok)
  then have st: "stays i x ?y" by (auto simp: stays_def core_closed_def)
  have ro: "role_ok (role_of x i) i (rx_core ?y i) \<and> (\<forall>p. role_of x i \<noteq> Acceptor p)"
  proof (cases "role_of x i")
    case (Conn w)
    obtain fd where w: "sock_reach fd w" "world_ok w" "conn_core i (w_sock w) (rx_core x i)" using conn_reach [OF but Conn] by blast
    then have "t_flag (w_sock w) = E_STATE_CLOSE" "\<not> t_writing (w_sock w)" using cl by (auto simp: conn_core_def world_ok_def writer_ok_def)
    then show ?thesis using Conn w(1) by (auto simp: conn_core_def core_closed_def closing_def impl_bits)
  qed (use net_butD(3) [OF but, of i] cl in \<open>auto simp: core_closed_def impl_bits\<close>)
  have "rx_core x i \<noteq> core_new" "rx_core x i \<noteq> fresh_core E_SOCKET_TYPE" using cl by auto
  then have n: "net_but {} (set_role i (role_of x i) ?y)"
    using net_step [OF but _ st, of "role_of x i"] ro by blast
  then have ny: "net_but {} ?y" by (simp add: net_but_same_role)
  show ?thesis
  proof (cases r)
    case None
    then show ?thesis using ny law by (simp add: net_inv_def)
  next
    case (Some f)
    then have f: "f = HClose i" using K by (simp add: net_K_def)
    let ?z = "user_do (\<lambda>u. u\<lparr>u_gone := u_gone u @ [i]\<rparr>) ?y"
    note b = book_okD [OF net_butD(2) [OF ny]]
    have rz: "role_of ?z = role_of ?y" by (simp add: role_of_def fun_eq_iff)
    have ng: "i \<notin> set (u_gone (rx_user ?y))" using book_okD(2) [OF net_butD(2) [OF but], of i] fd by auto
    have kn: "i < u_next (rx_user x)" by (rule net_but_known [OF but]) (use cl in auto)
    have "net_but {} ?z"
    proof (rule net_butI)
      show "rx_ok ?z" using net_butD(1) [OF ny] by simp
      show "book_ok ?z"
      proof (rule book_okI)
        show "distinct (u_gone (rx_user ?z))" using b(1) ng by simp
        show "sc_fd (rx_core ?z j) = M_INVALID_SOCKET" if "j \<in> set (u_gone (rx_user ?z))" for j
          using b(2) [of j] that by (cases "j = i") (auto simp: core_closed_def)
        show "net_K j h" if "(j, h) \<in> set (ii_closereqs (rx_impl ?z t))" for j h t using b(3) that by simp
        show "role_of ?z j = Idle \<and> rx_core ?z j = core_new \<and> j \<notin> set (u_gone (rx_user ?z))" if "u_next (rx_user ?z) \<le> j" for j
          using b(4) [of j] that kn unfolding rz by simp
        show "a = a'" if "role_of ?z a = Acceptor p" "role_of ?z a' = Acceptor p" for a a' p
          using b(5) that unfolding rz by blast
      qed
      show "role_ok (role_of ?z j) j (rx_core ?z j)" for j using net_butD(3) [OF ny, of j] unfolding rz by simp
      show "waits ?z p \<and> p \<notin> {}" if "role_of ?z a = Acceptor p" for a p
      proof -
        have w: "waits x p" using net_butD(4) [OF but, of a p] that unfolding rz by simp
        then have "p \<noteq> i" using cl by (auto simp: waits_def)
        then show ?thesis using w unfolding waits_def rz by simp
      qed
    qed
    then show ?thesis using Some f law by (simp add: net_inv_def)
  qed
qed

lemma connect_done_ok:
  assumes "core_ok i c" "role_ok Connecting i c"
  shows "core_ok i (connect_done c)" "sc_reg (connect_done c) \<noteq> None" "sc_fd (connect_done c) = sc_fd c" "\<not> closing (connect_done c)"
    "\<not> M_Impl_G_Read_Flag (connect_done c)" "\<not> M_Impl_G_Write_Flag (connect_done c)"
    "\<not> bit (sc_type (connect_done c)) 0" "\<not> bit (sc_type (connect_done c)) 1"
proof -
  obtain m0 where "sc_reg c = Some (m0, i)" "reg_ok i c m0 i"
    using core_ok_reg [OF assms(1)] assms(2) by auto
  then show "core_ok i (connect_done c)"
    using assms by (auto simp: core_ok_def reg_ok_def connect_done_def Connect_Clear_def closing_def impl_bits bit_simps)
qed (use assms in \<open>auto simp: connect_done_def Connect_Clear_def closing_def impl_bits bit_simps\<close>)

lemma connected_is: "tc_ConnectHandler False True fd ts_new = ([OnConnected True, AsyncRecvSome], s) \<Longrightarrow>
    connected_world fd = \<lparr>w_sock = s, w_accepted = [], w_sent = [], w_error = False, w_outs = [OnConnected True, AsyncRecvSome]\<rparr>"
  by (simp add: tc_ConnectHandler_def connected_world_def ts_Init_def ts_TryRecvData_def)

lemma fresh_conn:
  assumes "\<not> M_Impl_G_Read_Flag c" "\<not> M_Impl_G_Write_Flag c" "sc_reg c \<noteq> None \<longrightarrow> \<not> bit (sc_type c) 0 \<and> \<not> bit (sc_type c) 1"
    "sc_fd c \<noteq> M_INVALID_SOCKET" "\<not> closing c"
  shows "conn_core i (ts_new\<lparr>t_flag := E_STATE_START, t_fd := sc_fd c\<rparr>) c"
  using assms by (simp add: conn_core_def ts_new_def)

lemma net_connect:
  assumes inv: "net_inv N x" and rg: "sc_reg (rx_core x i) \<noteq> None" and ty: "bit (sc_type (rx_core x i)) 1"
    and h: "ko_handler (sc_cop (rx_core x i)) = Some h"
  shows "\<exists>x'. net_H N (CConnect h err) (core_do i connect_done x) = Some x' \<and> net_inv N x' \<and> keeps_reg x x'"
proof -
  have law: "net_law N" "ctl_law (ne_sys N)" and but: "net_but {} x" using inv by (simp_all add: net_inv_def net_law_def)
  have ro: "role_of x i = Connecting"
    using net_butD(3) [OF but, of i] rg ty by (cases "role_of x i") (auto simp: conn_core_def)
  then have rk: "role_ok Connecting i (rx_core x i)" using net_butD(3) [OF but, of i] by simp
  then have h2: "h = HConnect i" using h by simp
  note co = rx_okD [OF net_butD(1) [OF but], of i]
  note cd = connect_done_ok [OF co rk]
  have live: "sc_fd (rx_core x i) \<noteq> M_INVALID_SOCKET" using core_ok_reg [OF co rg] by (auto simp: reg_ok_def)
  define y where "y = core_do i connect_done x"
  have k: "kept i x y" unfolding y_def
    by (rule core_kept [OF net_butD(1) [OF but]]) (use cd rk in simp_all)
  have i: "i < u_next (rx_user x)" by (rule net_but_known [OF but]) (simp add: ro)
  have bi: "net_but {i} x" by (rule net_but_insert [OF but not_waited [OF but]]) (simp add: ro)
  have biy: "net_but {i} y" by (rule net_but_stays [OF bi _ i kept_stays [OF k]]) simp
  have yi: "i < u_next (rx_user y)" using i by (simp add: y_def)
  have free: "net_but {} (obj_free (ne_sys N) i z) \<and> keeps_reg x (obj_free (ne_sys N) i z)"
    if "z = y \<or> z = user_do (\<lambda>u. u\<lparr>u_failed := f u\<rparr>) y" for z f
  proof -
    have "net_but {i} z" "i < u_next (rx_user z)" "rx_core z = rx_core y" "keeps_reg x z"
      using that biy yi k by (auto simp: net_but_fault kept_def)
    then show ?thesis
      using obj_free_ok(1,2) [of "{i}" z i "ne_sys N"] cd keeps_reg_trans by (auto simp: y_def)
  qed
  have H: "net_H N (CConnect h err) y = Some (NetIo_ConnectHandler N err i y)" by (simp add: h2)
  show ?thesis
  proof (cases "err \<noteq> 0 \<or> \<not> ne_peer N (sc_fd (rx_core y i)) (rx_env y)")
    case True
    then have "\<exists>z f. (z = y \<or> z = user_do (\<lambda>u. u\<lparr>u_failed := f u\<rparr>) y) \<and> NetIo_ConnectHandler N err i y = obj_free (ne_sys N) i z"
      by (auto simp: NetIo_ConnectHandler_def tc_ConnectHandler_def Let_def)
    then obtain z f where z: "z = y \<or> z = user_do (\<lambda>u. u\<lparr>u_failed := f u\<rparr>) y" "NetIo_ConnectHandler N err i y = obj_free (ne_sys N) i z"
      by blast
    show ?thesis using free [OF z(1)] z(2) H law(1) unfolding y_def [symmetric] by (simp add: net_inv_def)
  next
    case False
    let ?fd = "sc_fd (rx_core y i)" let ?s = "ts_new\<lparr>t_flag := E_STATE_START, t_fd := ?fd\<rparr>"
    obtain failed z where r: "sock_call (ne_sys N) i AsyncRecvSome y = (failed, z)" by fastforce
    have cc: "conn_core i ?s (rx_core y i)"
      by (rule fresh_conn) (use cd live in \<open>simp_all add: y_def\<close>)
    have "rx_ok y" by (rule net_butD(1) [OF biy])
    then have kz: "kept i y z \<and> conn_core i ?s (rx_core z i)"
      using recv_call [OF _ law(2) cc _ _ r] cd by (simp add: y_def)
    have th: "tc_ConnectHandler False True ?fd ts_new = ([OnConnected True, AsyncRecvSome], ?s)" by (simp add: tc_ConnectHandler_def)
    have "NetIo_ConnectHandler N err i y = set_role i (Conn (connected_world ?fd)) z"
      using False r th connected_is [OF th] by (simp add: NetIo_ConnectHandler_def Let_def)
    moreover have "net_but {} (set_role i (Conn (connected_world ?fd)) z)"
    proof (rule net_step [OF but])
      show "stays i x z" using kept_trans [OF k] kz kept_stays by blast
      have "w_sock (connected_world ?fd) = ?s" using connected_is [OF th] by simp
      then show "role_ok (Conn (connected_world ?fd)) i (rx_core z i)" using kz sock_reach.init by auto
    qed (simp_all add: ro)
    moreover have "keeps_reg x z" using k kz keeps_reg_trans by (auto simp: kept_def)
    ultimately show ?thesis using H law(1) unfolding y_def [symmetric] by (simp add: net_inv_def)
  qed
qed

subsection \<open>The handler of an accept\<close>

lemma start_world_step:
  assumes "w_outs w = []"
  shows "world_step w (start_world fd) (ts_new\<lparr>t_flag := E_STATE_START, t_fd := fd\<rparr>)"
proof -
  have "recv_step (ts_new\<lparr>t_flag := E_STATE_START, t_fd := fd\<rparr>) (effect w (start_world fd))"
    using assms by (simp add: recv_step_def effect_def fresh_outs_def start_world_def ts_Init_def ts_TryRecvData_def ts_PostClose_def
        ts_DoClose_def ts_new_def alike_def shut_def)
  then show ?thesis by (simp add: world_step_def)
qed

lemma start_world_reach: "\<exists>fd'. sock_reach fd' (start_world fd e)"
proof (cases e)
  case True
  have "exec AppClose (connected_world fd) = Some (start_world fd True)"
    by (simp add: start_world_def connected_world_def ts_Init_def ts_TryRecvData_def ts_PostClose_def ts_Close_def ts_DoClose_def ts_new_def)
  then have "sock_reach fd (start_world fd True)" by (intro sock_reach.step [OF sock_reach.init, of AppClose]) simp_all
  then show ?thesis using True by auto
next
  case False
  have "start_world fd False = connected_world fd" by (simp add: start_world_def connected_world_def)
  then show ?thesis using False sock_reach.init by metis
qed

lemma sock_init_ok:
  assumes law: "net_law N" and inv: "net_but A x" and i: "i \<in> A" "i < u_next (rx_user x)"
    and c: "\<not> M_Impl_G_Read_Flag (rx_core x i)" "\<not> M_Impl_G_Write_Flag (rx_core x i)" "sc_reg (rx_core x i) = None" "\<not> closing (rx_core x i)"
  shows "\<exists>y. sock_init N i x = Some y \<and> net_but (A - {i}) y \<and> keeps_reg x y \<and> (\<forall>j. j \<noteq> i \<longrightarrow> rx_core y j = rx_core x j)
    \<and> u_next (rx_user y) = u_next (rx_user x)"
proof (cases "ne_peer N (sc_fd (rx_core x i)) (rx_env x)")
  case False
  then show ?thesis using obj_free_ok [OF inv i, where S = "ne_sys N"] c by (simp add: sock_init_def)
next
  case True
  let ?fd = "sc_fd (rx_core x i)"
  define w where "w = (start_world ?fd False)\<lparr>w_outs := []\<rparr>"
  have live: "?fd \<noteq> M_INVALID_SOCKET" using True law by (metis net_law_def)
  have cc: "conn_core i (ts_new\<lparr>t_flag := E_STATE_START, t_fd := ?fd\<rparr>) (rx_core x i)"
    by (rule fresh_conn) (use c live in simp_all)
  have cl: "ctl_law (ne_sys N)" using law by (simp add: net_law_def)
  have "world_step w (start_world ?fd) (ts_new\<lparr>t_flag := E_STATE_START, t_fd := ?fd\<rparr>)" by (rule start_world_step) (simp add: w_def)
  from sock_step_ok [OF net_butD(1) [OF inv] cl cc this] c(1)
  obtain e y where y: "sock_step (ne_sys N) i 0 (\<lambda>e. Some (start_world ?fd e)) x = Some (set_role i (Conn (start_world ?fd e)) y)"
      "kept i x y" "conn_core i (w_sock (start_world ?fd e)) (rx_core y i)"
    by (auto simp: w_def)
  have "net_but (A - {i}) (set_role i (Conn (start_world ?fd e)) y)"
    by (rule net_but_step [OF inv i kept_stays [OF y(2)]]) (use y(3) start_world_reach in auto)
  then show ?thesis using y(1,2) True by (simp add: sock_init_def kept_def stays_def)
qed

lemma accept_next:
  assumes law: "net_law N" and inv: "net_but {a, p} x" and n: "a < u_next (rx_user x)" "p < u_next (rx_user x)" "a \<noteq> p"
    and cp: "\<not> M_Impl_G_Read_Flag (rx_core x p)" "\<not> M_Impl_G_Write_Flag (rx_core x p)" "sc_reg (rx_core x p) = None" "\<not> closing (rx_core x p)"
    and ca: "\<not> M_Impl_G_Read_Flag (rx_core x a)" "\<not> M_Impl_G_Write_Flag (rx_core x a)" "sc_reg (rx_core x a) \<noteq> None" "\<not> closing (rx_core x a)"
      "M_Impl_G_Nonblock (rx_core x a)" "\<not> M_Impl_G_Accept_Flag (rx_core x a)"
  shows "\<exists>x'. NetIo_AcceptHandler N 0 p a x = Some x' \<and> net_but {} x' \<and> keeps_reg x x'"
proof -
  obtain x1 where x1: "sock_init N p x = Some x1" "net_but ({a, p} - {p}) x1" "keeps_reg x x1" "rx_core x1 a = rx_core x a"
      "u_next (rx_user x1) = u_next (rx_user x)"
    using sock_init_ok [OF law inv _ n(2) cp] n(3) by auto
  have x1a: "net_but {a} x1" using x1(2) n(3) by (simp add: insert_Diff_if)
  obtain q x2 where q: "obj_new E_SOCKET_TYPE x1 = (q, x2)" by fastforce
  have "\<forall>b \<in> {a}. b < u_next (rx_user x1)" using n(1) x1(5) by simp
  note nw = obj_new_ok [OF _ x1a q this]
  have ty: "E_SOCKET_TYPE \<in> {E_SOCKET_TYPE, E_ACCEPTOR_TYPE, E_CONNECTOR_TYPE}" by simp
  have qa: "q \<noteq> a" using nw(9) [OF ty] by simp
  have c2: "rx_core x2 a = rx_core x a" using nw(6) [OF ty, of a] qa x1(4) by simp
  have x2: "net_but {a} x2" "keeps_reg x1 x2" using nw(1,2) [OF ty] by simp_all
  note co = rx_okD [OF net_butD(1) [OF x2(1)], of a, unfolded c2]
  have bd: "M_Impl_G_Bind (rx_core x a)" using core_ok_bind [OF co ca(4)] ca(3) by simp
  have fd: "sc_fd (rx_core x a) \<noteq> M_INVALID_SOCKET" using core_ok_reg [OF co ca(3)] by (auto simp: reg_ok_def)
  define f where "f = (\<lambda>c :: hnd core. (M_Impl_S_Accept_Flag c)\<lparr>sc_type := E_ACCEPT_OP,
                       sc_aop := \<lparr>ao_acpt = Some a, ao_cli = Some q, ao_handler = Some (HAccept q a)\<rparr>\<rparr>)"
  have again: "Io_AsyncAccept (ne_sys N) a q (HAccept q a) 0 x2 = (0, core_do a f x2)"
    unfolding f_def by (rule AsyncAccept_again) (use c2 ca fd bd in simp_all)
  let ?x3 = "core_do a f x2"
  obtain m where m: "sc_reg (rx_core x a) = Some (m, a)" "reg_ok a (rx_core x a) m a" using core_ok_reg [OF co ca(3)] by blast
  have f: "core_ok a (f (rx_core x a))" "sc_reg (f (rx_core x a)) = sc_reg (rx_core x a)" "sc_fd (f (rx_core x a)) = sc_fd (rx_core x a)"
      "closing (f (rx_core x a)) = closing (rx_core x a)"
    using co ca m by (auto simp: f_def core_ok_def reg_ok_def closing_def impl_bits bit_simps)
  have k3: "kept a x2 ?x3" by (rule core_kept [OF net_butD(1) [OF x2(1)]]) (use f c2 ca in simp_all)
  have n2: "a < u_next (rx_user x2)" using nw(3,4) [OF ty] n(1) x1(5) by simp
  have b3: "net_but {a} ?x3" by (rule net_but_stays [OF x2(1) _ n2 kept_stays [OF k3]]) simp
  have "net_but ({a} - {a}) (set_role a (Acceptor q) ?x3)"
  proof (rule net_but_set [OF b3])
    show "role_ok (Acceptor q) a (rx_core ?x3 a)" using ca by (simp add: c2 f_def closing_def impl_bits bit_simps)
    show "waits ?x3 r \<and> r \<noteq> a \<and> r \<notin> {a} \<and> (\<forall>b. b \<noteq> a \<longrightarrow> role_of ?x3 b \<noteq> Acceptor r)" if "Acceptor q = Acceptor r" for r
      using that qa nw(4,5,8,10,11) [OF ty] by (simp add: waits_def)
  qed (use n2 in simp_all)
  moreover have "NetIo_AcceptHandler N 0 p a x = Some (set_role a (Acceptor q) ?x3)"
    using x1(1) q again by (simp add: NetIo_AcceptHandler_def)
  moreover have "keeps_reg x ?x3" using x1(3) x2(2) k3 keeps_reg_trans unfolding kept_def by blast
  ultimately show ?thesis by simp
qed

lemma net_acceptor:
  assumes inv: "net_inv N x" and rg: "sc_reg (rx_core x a) \<noteq> None" and ty: "bit (sc_type (rx_core x a)) 0"
  shows "\<exists>p. role_of x a = Acceptor p \<and> role_ok (Acceptor p) a (rx_core x a) \<and> waits x p \<and> a \<noteq> p \<and> net_but {a, p} x
    \<and> a < u_next (rx_user x)"
proof -
  have but: "net_but {} x" using inv by (simp add: net_inv_def)
  obtain p where ro: "role_of x a = Acceptor p"
    using net_butD(3) [OF but, of a] rg ty by (cases "role_of x a") (auto simp: conn_core_def)
  then have rk: "role_ok (Acceptor p) a (rx_core x a)" and w: "waits x p" using net_butD(3,4) [OF but, of a] by auto
  have "a \<noteq> p" using ro w by (auto simp: waits_def)
  moreover have "net_but {a, p} x"
  proof (rule net_butI)
    show "rx_ok x" "book_ok x" "\<And>i. i \<notin> {a, p} \<Longrightarrow> role_ok (role_of x i) i (rx_core x i)" using net_butD(1-3) [OF but] by auto
    show "waits x q \<and> q \<notin> {a, p}" if "b \<notin> {a, p}" "role_of x b = Acceptor q" for b q
    proof -
      have "waits x q" using net_butD(4) [OF but _ that(2)] by simp
      moreover have "q \<noteq> p" using book_okD(5) [OF net_butD(2) [OF but] that(2)] ro that(1) by auto
      moreover have "q \<noteq> a" using calculation(1) ro by (auto simp: waits_def)
      ultimately show ?thesis by simp
    qed
  qed
  moreover have "a < u_next (rx_user x)" by (rule net_but_known [OF but]) (simp add: ro)
  ultimately show ?thesis using ro rk w by blast
qed

lemma accept_cores:
  assumes "core_ok a c" "role_ok (Acceptor p) a c"
  shows "core_ok a (accept_done c)" "core_ok a (M_Impl_C_Accept_Flag c)" "core_ok a (Accept_Clear (M_Impl_C_Accept_Flag c))"
    "sc_reg (accept_done c) \<noteq> None" "sc_fd (accept_done c) = sc_fd c" "\<not> closing (accept_done c)" "\<not> M_Impl_G_Read_Flag (accept_done c)"
    "\<not> M_Impl_G_Write_Flag (accept_done c)" "M_Impl_G_Nonblock (accept_done c)" "\<not> M_Impl_G_Accept_Flag (accept_done c)"
    "sc_reg (M_Impl_C_Accept_Flag c) \<noteq> None" "sc_fd (M_Impl_C_Accept_Flag c) = sc_fd c" "\<not> closing (M_Impl_C_Accept_Flag c)"
proof -
  obtain m where "sc_reg c = Some (m, a)" "reg_ok a c m a" using core_ok_reg [OF assms(1)] assms(2) by auto
  then show "core_ok a (accept_done c)" "core_ok a (M_Impl_C_Accept_Flag c)" "core_ok a (Accept_Clear (M_Impl_C_Accept_Flag c))"
    using assms by (auto simp: core_ok_def reg_ok_def accept_done_def Accept_Clear_def closing_def impl_bits bit_simps)
qed (use assms(2) in \<open>auto simp: accept_done_def Accept_Clear_def closing_def impl_bits bit_simps\<close>)

lemma net_refused:
  assumes inv: "net_inv N x" and rg: "sc_reg (rx_core x a) \<noteq> None" and ty: "bit (sc_type (rx_core x a)) 0"
    and h: "ao_handler (sc_aop (rx_core x a)) = Some h"
  shows "\<exists>x'. net_H N (CAccept h 0) (core_do a accept_done x) = Some x' \<and> net_inv N x' \<and> keeps_reg x x'"
proof -
  obtain p where p: "role_ok (Acceptor p) a (rx_core x a)" "waits x p" "a \<noteq> p" "net_but {a, p} x" "a < u_next (rx_user x)"
    using net_acceptor [OF inv rg ty] by blast
  have law: "net_law N" using inv by (simp add: net_inv_def)
  let ?y = "core_do a accept_done x"
  note ac = accept_cores [OF rx_okD [OF net_butD(1) [OF p(4)]] p(1)]
  have k: "kept a x ?y" by (rule core_kept [OF net_butD(1) [OF p(4)]]) (use ac p(1) in simp_all)
  have ny: "net_but {a, p} ?y" by (rule net_but_stays [OF p(4) _ p(5) kept_stays [OF k]]) simp
  have "rx_core x p = fresh_core E_SOCKET_TYPE" "p < u_next (rx_user x)" using p(2) by (simp_all add: waits_def)
  then have "\<exists>x'. NetIo_AcceptHandler N 0 p a ?y = Some x' \<and> net_but {} x' \<and> keeps_reg ?y x'"
    using accept_next [OF law ny] p(3,5) ac fresh_flags [of E_SOCKET_TYPE] by simp
  moreover have "h = HAccept p a" using h p(1) by simp
  ultimately show ?thesis using law k keeps_reg_trans by (auto simp: net_inv_def kept_def)
qed

lemma accepted_core:
  fixes c :: "hnd core"
  assumes "fd \<noteq> M_INVALID_SOCKET" "c = fresh_core E_SOCKET_TYPE"
  shows "core_ok p (accepted v fd c)" "sc_reg (accepted v fd c) = None"
    "\<not> closing (accepted v fd c)" "\<not> M_Impl_G_Read_Flag (accepted v fd c)"
    "\<not> M_Impl_G_Write_Flag (accepted v fd c)"
  using assms
  by (auto simp: core_ok_def accepted_def closing_def fresh_core_def core_new_def E_SOCKET_TYPE_def impl_bits bit_simps bit_numeral_rec)

lemma net_accepted:
  assumes inv: "net_inv N x" and rg: "sc_reg (rx_core x a) \<noteq> None" and ty: "bit (sc_type (rx_core x a)) 0"
    and h: "ao_handler (sc_aop (rx_core x a)) = Some h" and j: "ao_cli (sc_aop (rx_core x a)) = Some j" and fd: "0 \<le> fd"
  shows "\<exists>x'. net_H N (CAccept h 0) (core_do a Accept_Clear (core_do j (accepted v fd) (core_do a M_Impl_C_Accept_Flag x))) = Some x'
    \<and> net_inv N x' \<and> keeps_reg x x'"
proof -
  obtain p where p: "role_ok (Acceptor p) a (rx_core x a)" "waits x p" "a \<noteq> p" "net_but {a, p} x" "a < u_next (rx_user x)"
    using net_acceptor [OF inv rg ty] by blast
  have law: "net_law N" using inv by (simp add: net_inv_def)
  have jp: "j = p" "h = HAccept p a" using h j p(1) by simp_all
  have cp: "rx_core x p = fresh_core E_SOCKET_TYPE" "p < u_next (rx_user x)" "p \<notin> set (u_gone (rx_user x))" using p(2) by (simp_all add: waits_def)
  have fd2: "fd \<noteq> M_INVALID_SOCKET" using fd by (simp add: M_INVALID_SOCKET_def)
  note ac = accept_cores [OF rx_okD [OF net_butD(1) [OF p(4)]] p(1)]
  define y1 where "y1 = core_do a M_Impl_C_Accept_Flag x"
  have c1: "rx_core y1 p = fresh_core E_SOCKET_TYPE" "rx_core y1 a = M_Impl_C_Accept_Flag (rx_core x a)" "rx_user y1 = rx_user x"
    using p(3) cp(1) by (simp_all add: y1_def)
  have k1: "kept a x y1" unfolding y1_def by (rule core_kept [OF net_butD(1) [OF p(4)]]) (use ac p(1) in simp_all)
  have n1: "net_but {a, p} y1" by (rule net_but_stays [OF p(4) _ p(5) kept_stays [OF k1]]) simp
  define y2 where "y2 = core_do p (accepted v fd) y1"
  note av = accepted_core [OF fd2 refl]
  have "rx_ok y2 \<and> keeps_reg y1 y2"
    by (rule only_core_ok [OF net_butD(1) [OF n1], of p]) (use c1 av in \<open>simp_all add: y2_def\<close>)
  then have k2: "kept p y1 y2" using cp(3) by (auto simp: kept_def stays_def y2_def c1)
  have n2: "net_but {a, p} y2" by (rule net_but_stays [OF n1 _ _ kept_stays [OF k2]]) (use cp c1 in simp_all)
  have c2: "rx_core y2 a = M_Impl_C_Accept_Flag (rx_core x a)" "rx_core y2 p = accepted v fd (fresh_core E_SOCKET_TYPE)" "rx_user y2 = rx_user x"
    using p(3) c1 by (simp_all add: y2_def)
  define y3 where "y3 = core_do a Accept_Clear y2"
  have dn: "Accept_Clear (M_Impl_C_Accept_Flag c) = accept_done c" for c :: "hnd core" by (simp add: accept_done_def)
  have k3: "kept a y2 y3" unfolding y3_def
    by (rule core_kept [OF net_butD(1) [OF n2]]) (use ac p(1) in \<open>simp_all add: c2 dn\<close>)
  have n3: "net_but {a, p} y3" by (rule net_but_stays [OF n2 _ _ kept_stays [OF k3]]) (use p(5) c2 in simp_all)
  have c3: "rx_core y3 a = accept_done (rx_core x a)" "rx_core y3 p = accepted v fd (fresh_core E_SOCKET_TYPE)" "rx_user y3 = rx_user x"
    using p(3) c2 by (simp_all add: y3_def dn)
  have "\<exists>x'. NetIo_AcceptHandler N 0 p a y3 = Some x' \<and> net_but {} x' \<and> keeps_reg y3 x'"
    using accept_next [OF law n3] p(3,5) cp(2) ac av by (simp add: c3)
  moreover have "keeps_reg x y3" using k1 k2 k3 keeps_reg_trans unfolding kept_def by blast
  ultimately show ?thesis using law jp(2) keeps_reg_trans
    unfolding jp(1) y3_def [symmetric, unfolded y2_def y1_def] by (auto simp: net_inv_def)
qed

subsection \<open>The contract, on all of them\<close>

interpretation net: reactor "ne_sys N" net_K "net_H N" "net_inv N" for N :: "'e net_env"
proof
  fix x :: "'e net" and i j t :: nat and n m :: u32 and err fd :: int and h :: hnd and r :: "hnd option" and e :: 'e and v :: bool
    and f :: "hnd io_impl \<Rightarrow> hnd io_impl"
  assume I: "net_inv N x"
  then have but: "net_but {} x" by (simp add: net_inv_def)
  show "rw_law (ne_sys N)" "accept_law (ne_sys N)" using I by (simp_all add: net_inv_def net_law_def)
  show "rx_ok x" by (rule net_butD(1) [OF but])
  show "M_Impl_G_Accept_Flag (rx_core x i)" if "sc_reg (rx_core x i) \<noteq> None" "bit (sc_type (rx_core x i)) 0"
    using net_acceptor [OF I that] by auto
  show "net_inv N (x\<lparr>rx_env := e\<rparr>)" by (rule net_inv_env [OF I])
  show "net_inv N (impl_do t f x)" if "rx_ok (impl_do t f x)" "set (ii_closereqs (f (rx_impl x t))) \<subseteq> set (ii_closereqs (rx_impl x t))"
    by (rule net_inv_list [OF I that])
  show "net_K i r" if "(i, r) \<in> set (ii_closereqs (rx_impl x t))" by (rule book_okD(3) [OF net_butD(2) [OF but] that])
  show "\<exists>x'. net_H N CRun x = Some x' \<and> net_inv N x' \<and> keeps_reg x x'" using I by simp
qed (rule net_close net_read net_write net_connect net_accepted net_refused; assumption)+

end
