(* ===== verification/Epoll_Run.thy ===== *)
theory Epoll_Run
  imports Epoll_Safe
begin

text \<open>
  Runs of a program on the event loop: what holds in each of their states.
\<close>

subsection \<open>Listening and connecting\<close>

lemma net_but_env [simp]: "net_but A (x\<lparr>rx_env := e\<rparr>) = net_but A x"
proof -
  have "rx_user (x\<lparr>rx_env := e\<rparr>) = rx_user x" "rx_core (x\<lparr>rx_env := e\<rparr>) = rx_core x" "rx_impl (x\<lparr>rx_env := e\<rparr>) = rx_impl x"
    by simp_all
  then show ?thesis by (simp only: net_but_def book_ok_def waits_def role_of_core rx_ok_env)
qed

lemma open_ok:
  assumes ok: "rx_ok x" and c: "rx_core x i = fresh_core ty" "ty \<in> {E_SOCKET_TYPE, E_ACCEPTOR_TYPE, E_CONNECTOR_TYPE}"
    and law: "ctl_law S" and g: "i \<notin> set (u_gone (rx_user x))" and run: "Io_Open S i True 0 x = (err, y)"
  shows "kept i x y" "\<not> M_Impl_G_Read_Flag (rx_core y i)" "\<not> M_Impl_G_Write_Flag (rx_core y i)" "sc_reg (rx_core y i) = None"
    "\<not> closing (rx_core y i)" "sc_type (rx_core y i) = 0" "err = 0 \<longrightarrow> sc_fd (rx_core y i) \<noteq> M_INVALID_SOCKET"
proof -
  let ?x1 = "core_do i M_Impl_S_V4 x"
  obtain fd e where s: "sy_socket S (rx_env ?x1) = (fd, e)" by fastforce
  have y: "y = core_do i (\<lambda>c. c\<lparr>sc_fd := fd\<rparr>) (?x1\<lparr>rx_env := e\<rparr>)" and err: "err = (if fd = M_INVALID_SOCKET then sy_errno S e else 0)"
    using run c s by (auto simp: Io_Open_def Let_def)
  have cy: "rx_core y i = (M_Impl_S_V4 (fresh_core ty))\<lparr>sc_fd := fd\<rparr>" using c by (simp add: y)
  have v: "sc_reg (M_Impl_S_V4 (fresh_core ty)) = None" "sc_epoll (M_Impl_S_V4 (fresh_core ty)) = -1" "sc_type (M_Impl_S_V4 (fresh_core ty)) = 0"
    by (simp_all add: M_Impl_S_V4_def fresh_core_def core_new_def M_Impl_S_Type_def M_Impl_S_Block_def M_Impl_S_Unbind_def)
  have fl: "M_Impl_G_Read_Flag (M_Impl_S_V4 c\<lparr>sc_fd := fd\<rparr>) = M_Impl_G_Read_Flag c" "M_Impl_G_Write_Flag (M_Impl_S_V4 c\<lparr>sc_fd := fd\<rparr>) = M_Impl_G_Write_Flag c"
    "M_Impl_G_Close_Flag (M_Impl_S_V4 c\<lparr>sc_fd := fd\<rparr>) = M_Impl_G_Close_Flag c" "M_Impl_G_Bind (M_Impl_S_V4 c\<lparr>sc_fd := fd\<rparr>) = M_Impl_G_Bind c" for c :: "hnd core"
    by (simp_all add: impl_bits bit_simps)
  note ff = fresh_flags [OF c(2)]
  show a: "\<not> M_Impl_G_Read_Flag (rx_core y i)" "\<not> M_Impl_G_Write_Flag (rx_core y i)" "sc_reg (rx_core y i) = None"
    "\<not> closing (rx_core y i)" "sc_type (rx_core y i) = 0"
    unfolding cy by (simp_all add: fl ff v closing_def)
  show "err = 0 \<longrightarrow> sc_fd (rx_core y i) \<noteq> M_INVALID_SOCKET"
    using law by (auto simp: err cy ctl_law_def)
  have o: "only_core i x y" by (auto simp: y only_core_def)
  have "core_ok i (rx_core y i)" unfolding cy by (simp add: core_ok_def fl ff v closing_def)
  then have "rx_ok y \<and> keeps_reg x y" by (rule only_core_ok [OF ok o]) (simp_all add: c)
  then show "kept i x y" using o g by (auto simp: kept_def stays_def only_core_def)
qed

lemma listen_ok:
  assumes inv: "net_inv N x" and run: "NetIo_ListenOne N x = (r, x')"
  shows "net_inv N x'"
proof -
  let ?S = "ne_sys N"
  have law: "net_law N" "ctl_law ?S" and but: "net_but {} x" using inv by (simp_all add: net_inv_def net_law_def)
  obtain a x1 where a: "obj_new E_ACCEPTOR_TYPE x = (a, x1)" by fastforce
  note n1 = obj_new_ok [OF _ but a, simplified]
  have b1: "net_but {a} x1" using n1(1,10) by (intro net_but_insert) auto
  obtain err1 x2 where o: "Io_Open ?S a True 0 x1 = (err1, x2)" by fastforce
  note op = open_ok [OF net_butD(1) [OF b1] n1(5) _ law(2) n1(11) o, simplified]
  have u2: "u_next (rx_user x2) = a + 1" "role_of x2 = role_of x1" using op(1) n1(4) role_of_same by (auto simp: kept_def stays_def)
  have b2: "net_but {a} x2" by (rule net_but_stays [OF b1 _ _ kept_stays [OF op(1)]]) (use n1(4) in simp_all)
  have free2: "net_but {} (obj_free ?S a (x2\<lparr>rx_env := e\<rparr>))" for e
    using obj_free_ok(1) [of "{a}" "x2\<lparr>rx_env := e\<rparr>" a ?S] b2 u2 op(2-4) by simp
  show ?thesis
  proof (cases "err1 = 0")
    case False
    then have "x' = obj_free ?S a (x2\<lparr>rx_env := rx_env x2\<rparr>)" using run a o by (simp add: NetIo_ListenOne_def)
    then show ?thesis using free2 [of "rx_env x2"] law(1) by (simp add: net_inv_def)
  next
    case True
    obtain ok e where l: "ne_listen N (sc_fd (rx_core x2 a)) (rx_env x2) = (ok, e)" by fastforce
    show ?thesis
    proof (cases ok)
      case False
      then have "x' = obj_free ?S a (x2\<lparr>rx_env := e\<rparr>)" using run a o True l by (simp add: NetIo_ListenOne_def)
      then show ?thesis using free2 law(1) by (simp add: net_inv_def)
    next
      case okl: True
      obtain p x3 where p: "obj_new E_SOCKET_TYPE (x2\<lparr>rx_env := e\<rparr>) = (p, x3)" by fastforce
      have A: "\<forall>b \<in> {a}. b < u_next (rx_user (x2\<lparr>rx_env := e\<rparr>))" using u2 by simp
      have b2e: "net_but {a} (x2\<lparr>rx_env := e\<rparr>)" using b2 by simp
      note n3 = obj_new_ok [OF _ b2e p A, simplified]
      have pa: "p \<noteq> a" using n3(9) by simp
      have ia: "role_of x3 a = Idle" using n1(8) n3(7) u2(2) by simp
      then have np: "\<forall>b. role_of x3 b \<noteq> Acceptor p" using n3(10) by (metis role.distinct(1))
      have c3: "rx_core x3 a = rx_core x2 a" using n3(6) [of a] pa by simp
      have ap: "a < u_next (rx_user x3)" "p < u_next (rx_user x3)" using n3(3,4) u2(1) by simp_all
      obtain err2 x4 where ac: "Io_AsyncAccept ?S a p (HAccept p a) 0 x3 = (err2, x4)" by fastforce
      have x': "x' = (if err2 \<noteq> 0 then obj_free ?S a (obj_free ?S p x4) else set_role a (Acceptor p) x4)"
        using run a o True l okl p ac by (simp add: NetIo_ListenOne_def Let_def split: if_splits)
      have ok3: "rx_ok x3" by (rule net_butD(1) [OF n3(1)])
      show ?thesis
      proof (cases "err2 = 0")
        case False
        note rf = AsyncAccept_refused [OF ok3 _ _ law(2) ac False, unfolded c3, OF op(4,5)]
        have k: "kept a x3 x4"
        proof (rule only_core_kept)
          show "rx_ok x4 \<and> keeps_reg x3 x4" by (rule only_core_ok [OF ok3, of a]) (use rf op(4,5) in \<open>simp_all add: c3\<close>)
        qed (use rf c3 in simp_all)
        have b4: "net_but {a, p} x4"
          by (rule net_but_stays [OF _ _ ap(1) kept_stays [OF k]]) (use net_but_insert [OF n3(1) np] in \<open>simp_all add: insert_commute\<close>)
        have c4: "rx_core x4 p = fresh_core E_SOCKET_TYPE" "rx_user x4 = rx_user x3" using n3(5) rf pa by (simp_all add: only_core_def)
        have b5: "net_but {a} (obj_free ?S p x4)"
          using obj_free_ok(1) [OF b4, of p ?S] c4 ap pa fresh_flags [of E_SOCKET_TYPE] by (simp add: insert_Diff_if)
        have c5: "rx_core (obj_free ?S p x4) a = rx_core x4 a" "u_next (rx_user (obj_free ?S p x4)) = u_next (rx_user x3)"
          using obj_free_ok(3) [OF b4, where i = p and S = ?S and j = a] obj_free_ok(5) [OF b4, where i = p and S = ?S] c4 ap pa fresh_flags [of E_SOCKET_TYPE] by simp_all
        have "\<not> M_Impl_G_Read_Flag (rx_core x4 a)" "\<not> M_Impl_G_Write_Flag (rx_core x4 a)" using rf by (auto simp: core_ok_def)
        then have "net_but {} (obj_free ?S a (obj_free ?S p x4))"
          using obj_free_ok(1) [OF b5, of a ?S] c5 ap rf by simp
        then show ?thesis using x' False law(1) by (simp add: net_inv_def)
      next
        case acc: True
        have "sc_type_update (\<lambda>_. 0) (rx_core x3 a) = rx_core x3 a" using op(6) c3 by simp
        then have "core_do a (\<lambda>c. c\<lparr>sc_type := 0\<rparr>) x3 = x3" by (simp add: core_do_def)
        then have ok3': "rx_ok (core_do a (\<lambda>c. c\<lparr>sc_type := 0\<rparr>) x3)" using ok3 by simp
        have f3: "\<not> M_Impl_G_Read_Flag (rx_core x3 a)" "\<not> M_Impl_G_Write_Flag (rx_core x3 a)" "\<not> closing (rx_core x3 a)"
          using op c3 by simp_all
        note aa = AsyncAccept_ok [OF ok3' f3 law(2) ac [unfolded acc]]
        then obtain ep where ep: "rx_core x4 a = bound_core a M_EPOLLIN ep (accept_core a p (HAccept p a) (rx_core x3 a))" by blast
        have k: "kept a x3 x4" by (rule only_core_kept) (use aa in simp_all)
        have b4: "net_but {a} x4" by (rule net_but_stays [OF n3(1) _ ap(1) kept_stays [OF k]]) simp
        have u4: "rx_user x4 = rx_user x3" "role_of x4 = role_of x3" using k role_of_same by (auto simp: kept_def stays_def)
        have nb: "\<not> M_Impl_G_Bind (rx_core x3 a)"
          using core_ok_bind [OF rx_okD [OF ok3, of a] f3(3)] op(4) c3 by simp
        have "net_but ({a} - {a}) (set_role a (Acceptor p) x4)"
        proof (rule net_but_set [OF b4])
          show "role_ok (Acceptor p) a (rx_core x4 a)"
            using f3 nb by (simp add: ep bound_core_def accept_core_def closing_def impl_bits bit_simps)
          show "waits x4 q \<and> q \<noteq> a \<and> q \<notin> {a} \<and> (\<forall>b. b \<noteq> a \<longrightarrow> role_of x4 b \<noteq> Acceptor q)" if "Acceptor p = Acceptor q" for q
          proof -
            have "rx_core x4 p = fresh_core E_SOCKET_TYPE" using n3(5) aa pa by (simp add: only_core_def)
            then show ?thesis using that pa np n3(8,11) ap(2) u4 by (simp add: waits_def)
          qed
        qed (use ap u4 in simp_all)
        then show ?thesis using x' acc law(1) by (simp add: net_inv_def)
      qed
    qed
  qed
qed

lemma connect_one_ok:
  assumes inv: "net_inv N x"
  shows "net_inv N (NetIo_ConnectOne N ep x)"
proof -
  let ?S = "ne_sys N"
  have law: "net_law N" "ctl_law ?S" and but: "net_but {} x" using inv by (simp_all add: net_inv_def net_law_def)
  obtain i x1 where i: "obj_new E_CONNECTOR_TYPE x = (i, x1)" by fastforce
  note n1 = obj_new_ok [OF _ but i, simplified]
  have b1: "net_but {i} x1" using n1(1,10) by (intro net_but_insert) auto
  obtain err1 x2 where o: "Io_Open ?S i True 0 x1 = (err1, x2)" by fastforce
  note op = open_ok [OF net_butD(1) [OF b1] n1(5) _ law(2) n1(11) o, simplified]
  have u2: "i < u_next (rx_user x2)" using op(1) n1(4) by (auto simp: kept_def stays_def)
  have b2: "net_but {i} x2" by (rule net_but_stays [OF b1 _ _ kept_stays [OF op(1)]]) (use n1(4) in simp_all)
  show ?thesis
  proof (cases "err1 = 0")
    case False
    then have "NetIo_ConnectOne N ep x = obj_free ?S i x2" using i o by (simp add: NetIo_ConnectOne_def)
    then show ?thesis using obj_free_ok(1) [OF b2, of i ?S] u2 op(2-4) law(1) by (simp add: net_inv_def)
  next
    case True
    obtain err2 x3 where c: "Io_AsyncConnect ?S i ep (HConnect i) 0 x2 = (err2, x3)" by fastforce
    have y: "NetIo_ConnectOne N ep x = (if err2 \<noteq> 0 then obj_free ?S i x3 else set_role i Connecting x3)"
      using i o True c by (simp add: NetIo_ConnectOne_def split: if_splits)
    have nb: "\<not> M_Impl_G_Bind (rx_core x2 i)"
      using core_ok_bind [OF rx_okD [OF net_butD(1) [OF b2], of i] op(5)] op(4) by simp
    note ac = AsyncConnect_ok [OF net_butD(1) [OF b2] op(2,3,5) law(2) c]
    have k: "kept i x2 x3" by (rule only_core_kept) (use ac in simp_all)
    have b3: "net_but {i} x3" by (rule net_but_stays [OF b2 _ u2 kept_stays [OF k]]) simp
    have u3: "i < u_next (rx_user x3)" using u2 k by (simp add: kept_def stays_def)
    show ?thesis
    proof (cases "err2 = 0")
      case False
      then show ?thesis using obj_free_ok(1) [OF b3, of i ?S] u3 ac op(4) y law(1) by (simp add: net_inv_def)
    next
      case ok: True
      then obtain e where e: "rx_core x3 i = bound_core i (M_EPOLLOUT OR M_EPOLLONESHOT) e (connect_core i (HConnect i) (rx_core x2 i))"
        using ac by auto
      have "role_ok Connecting i (rx_core x3 i)"
        using op(2,3,5) nb by (simp add: e bound_core_def connect_core_def closing_def impl_bits bit_simps)
      then have "net_but ({i} - {i}) (set_role i Connecting x3)" by (intro net_but_set [OF b3] u3) simp_all
      then show ?thesis using y ok law(1) by (simp add: net_inv_def)
    qed
  qed
qed

subsection \<open>Runs\<close>

lemma start_ok:
  assumes inv: "net_inv N x" and h: "ii_handler (rx_impl x t) \<noteq> -1" and run: "Io_CreateIoImpl t 0 x = (0, True, x')"
  shows "net_inv N x'"
proof -
  have x': "x' = x\<lparr>rx_implmap := (rx_implmap x)(ii_handler (rx_impl x t) \<mapsto> t), rx_implvector := rx_implvector x @ [t],
      rx_implcnt := rx_implcnt x + 1\<rparr>"
    using run by (simp add: Io_CreateIoImpl_def split: if_splits)
  have s: "rx_user x' = rx_user x" "rx_core x' = rx_core x" "rx_impl x' = rx_impl x" "role_of x' = role_of x" "asked x' = asked x"
    by (simp_all add: x' role_of_def asked_def fun_eq_iff)
  have "rx_implmap x' (-1) = rx_implmap x (-1)" using h by (simp add: x')
  then have "rx_ok x' = rx_ok x" by (simp only: rx_ok_def reqs_ok_def s)
  then have "net_but {} x' = net_but {} x" by (simp only: net_but_def book_ok_def waits_def s)
  then show ?thesis using inv by (simp add: net_inv_def)
qed

lemma app_ok:
  assumes inv: "net_inv N x" and w: "role_of x i = Conn w" and a: "app_fits a"
  shows "\<exists>x'. NetIo_App N i a x = Some x' \<and> net_inv N x' \<and> keeps_reg x x'"
proof -
  have law: "net_law N" "ctl_law (ne_sys N)" and but: "net_but {} x" using inv by (simp_all add: net_inv_def net_law_def)
  obtain fd where fd: "sock_reach fd w" "world_ok w" "conn_core i (w_sock w) (rx_core x i)" using conn_reach [OF but w] by blast
  note st = app_step [OF fd(2) a]
  have "enabled (app_in a e) w" for e using a by (cases a) simp_all
  then have "\<exists>fd. sock_reach fd (the (exec (app_in a e) w))" for e by (rule reach_exec [OF fd(1)]) (use st in blast)
  then show ?thesis
    using conn_step_inv [OF but law(2) w kept_refl [OF net_butD(1) [OF but]] fd(3), of "\<lambda>e. exec (app_in a e) w"] st
      sends_not_recv [OF conjunct2 [OF st]] law(1) w
    by (simp add: NetIo_App_def net_inv_def world_step_def del: exec.simps)
qed

lemma new_ok: "net_law N \<Longrightarrow> net_inv N (net_new e ii)"
proof -
  have c: "core_ok i core_new" for i :: nat and c :: "hnd core"
    by (simp add: core_ok_def core_new_def closing_def impl_bits)
  have "rx_ok (net_new e ii)" by (simp add: rx_ok_def reqs_ok_def asked_def net_new_def c)
  moreover have "book_ok (net_new e ii)" by (simp add: book_ok_def net_new_def role_of_def)
  moreover have "role_ok (role_of (net_new e ii) i) i (rx_core (net_new e ii) i)" for i
    by (simp add: net_new_def role_of_def core_new_def impl_bits)
  moreover have "role_of (net_new e ii) i = Idle" for i by (simp add: net_new_def role_of_def)
  ultimately show "net_law N \<Longrightarrow> net_inv N (net_new e ii)" by (simp add: net_inv_def net_but_def)
qed

lemma net_run_ok:
  assumes "net_run N x" "net_law N"
  shows "net_inv N x"
  using assms(1)
proof induction
  case (new e ii)
  show ?case using assms(2) by (rule new_ok)
next
  case (start x t x')
  then show ?case using start_ok by blast
next
  case (listen x r x')
  then show ?case using listen_ok by blast
next
  case (connect x ep)
  then show ?case using connect_one_ok by blast
next
  case (round x t err r x')
  then show ?case using net.round_ok [OF round.IH, of t err] by auto
next
  case (app x i w a x')
  then show ?case using app_ok [OF app.IH app.hyps(2,3)] by auto
qed

subsection \<open>A run\<close>

text \<open>A program that connects; the connection comes about, and every write takes everything.\<close>

definition demo_sys :: "nat sys" where
  "demo_sys = \<lparr>sy_errno = (\<lambda>_. 11), sy_ctl = (\<lambda>_ _ _ _ e. (0, e)), sy_wait = (\<lambda>_ e. ((1, [EvSock 0 4]), e)),
     sy_create = (\<lambda>e. (4, e)), sy_socket = (\<lambda>e. (5, e)), sy_nonblock = (\<lambda>_ e. (True, e)), sy_connect = (\<lambda>_ _ e. (0, e)),
     sy_accept = (\<lambda>_ e. (6 + int e, e + 1)), sy_send = (\<lambda>_ _ l e. (uint l, e)), sy_recv = (\<lambda>_ _ l e. (min 3 (uint l), e)),
     sy_soerror = (\<lambda>_ e. ((0, 0), e)), sy_close = (\<lambda>_ e. (0, e))\<rparr>"

definition demo_net :: "nat net_env" where
  "demo_net = \<lparr>ne_sys = demo_sys, ne_data = (\<lambda>_ _. replicate M_SOCKET_READ_SIZE 0), ne_peer = (\<lambda>fd _. fd \<noteq> -1),
     ne_listen = (\<lambda>_ e. (True, e))\<rparr>"

definition demo_new :: "nat net" where
  "demo_new = net_new 0 (\<lambda>_. \<lparr>ii_handler = 4, ii_fdcnt = 0, ii_closereqs = [], ii_closereqs2 = 0\<rparr>)"

definition demo_started :: "nat net" where "demo_started = snd (snd (Io_CreateIoImpl 0 0 demo_new))"
definition demo_connecting :: "nat net" where "demo_connecting = NetIo_ConnectOne demo_net (Some []) demo_started"
definition demo_connected :: "nat net" where
  "demo_connected = snd (the (Io_Round (ne_sys demo_net) (net_H demo_net) 0 0 demo_connecting))"

lemma demo_law: "net_law demo_net"
  by (simp add: net_law_def rw_law_def accept_law_def ctl_law_def demo_net_def demo_sys_def M_INVALID_SOCKET_def)

lemma demo_run: "net_run demo_net demo_connecting" "net_run demo_net demo_connected"
proof -
  have n: "net_run demo_net demo_new" unfolding demo_new_def by (rule net_run.new)
  have s: "Io_CreateIoImpl 0 0 demo_new = (0, True, demo_started)" "ii_handler (rx_impl demo_new 0) \<noteq> -1"
    by (simp_all add: demo_started_def Io_CreateIoImpl_def demo_new_def net_new_def)
  show c: "net_run demo_net demo_connecting"
    unfolding demo_connecting_def by (rule net_run.connect [OF net_run.start [OF n s(2,1)]])
  obtain r x where r: "Io_Round (ne_sys demo_net) (net_H demo_net) 0 0 demo_connecting = Some (r, x)"
    using net.round_ok [OF net_run_ok [OF c demo_law], of 0 0] by blast
  then show "net_run demo_net demo_connected" using net_run.round [OF c r] by (simp add: demo_connected_def)
qed


subsection \<open>Properties\<close>






lemma demo_reads: "M_Impl_G_Read_Flag (rx_core demo_connected 0)"
  by code_simp




text \<open>A second receive takes the first one away.  A receive on a socket that has one under way is refused, but the operation has been
  filled and is cleared by then: the next event that reports data follows a pointer that is not there.  The sockets
  of the library ask one receive at a time.\<close>

theorem second_recv_faults:
  assumes law: "net_law N" and run: "net_run N x" and rd: "M_Impl_G_Read_Flag (rx_core x i)" and ev: "wants M_EPOLLIN ev"
  shows "Io_AsyncRecvSome S i d l h err x = (M_ERR_POSTED_READ, core_do i Read_Clear x)
     \<and> Io_DoExecOp S H i ev (core_do i Read_Clear x) = None"
proof -
  have but: "net_but {} x" using net_run_ok [OF run law] by (simp add: net_inv_def)
  note co = rx_okD [OF net_butD(1) [OF but], of i]
  obtain m where m: "sc_reg (rx_core x i) = Some (m, i)" "reg_ok i (rx_core x i) m i"
    using core_ok_reg [OF co] co rd by (auto simp: core_ok_def)
  obtain s where s: "conn_core i s (rx_core x i)" using net_butD(3) [OF but, of i] rd by (cases "role_of x i") auto
  have live: "sc_fd (rx_core x i) \<noteq> M_INVALID_SOCKET" "bit (sc_type (rx_core x i)) 3" using m rd by (simp_all add: reg_ok_def)
  have t: "\<not> bit (sc_type (rx_core x i)) 0" "\<not> bit (sc_type (rx_core x i)) 1" using s m by (simp_all add: conn_core_def)
  have ops: "sc_type (rx_core x i) AND E_ACCEPT_OP = 0" "sc_type (rx_core x i) AND E_CONNECT_OP = 0" "sc_type (rx_core x i) AND E_READ_OP \<noteq> 0"
    using op_bits [of "sc_type (rx_core x i)"] t live(2) by auto
  have "Io_AsyncRecvSome S i d l h err x = (M_ERR_POSTED_READ, core_do i Read_Clear x)"
    using live rd by (simp add: Io_AsyncRecvSome_def core_do_def Read_Clear_def M_Impl_G_Read_Flag_def)
  moreover have "Io_DoExecOp S H i ev (core_do i Read_Clear x) = None"
    using ops ev by (simp add: Io_DoExecOp_def ReadComplete_def Read_Clear_def)
  ultimately show ?thesis ..
qed

theorem second_recv_faults_witness:
  "fst (Io_AsyncRecvSome demo_sys 0 7 100 (HRead 0) 0 demo_connected) = M_ERR_POSTED_READ
   \<and> Io_DoExecOp demo_sys (net_H demo_net) 0 M_EPOLLIN (core_do 0 Read_Clear demo_connected) = None"
proof -
  have "wants M_EPOLLIN M_EPOLLIN" by (simp add: wants_def M_EPOLLIN_def)
  then show ?thesis using second_recv_faults [OF demo_law demo_run(2) demo_reads] by simp
qed




end
