(* ===== verification/Spec2Isabelle.thy ===== *)
theory Spec2Isabelle
  imports Buffer Interfaces Ring_Queue Linked_List Packet Tcp_Socket Timer_Pool Coroutines Frame Random_Gen
    Transaction Transaction_Safe Transaction_Props Net_Handler Net_Handler_Props Links Links_Props
    Multi_Index Instances Instances_Props Transaction_App Transaction_Ids Server_Trans Router_Svr Router_Props
    Transfer_Inst Transfer_Svr Transfer_Props App_Loop App_Props Register_Props Login_Props
    Md5 Md5_Props Http_Msg Http_Props Http_Trip Http_Cut Db_Tool Db_Props Db_Server Db_Migrate Db_Theorems
    String_Util Agent Agent_Props
    Epoll Epoll_Props Epoll_Loop Epoll_Tcp Epoll_Tcp_Props Epoll_Net Epoll_Safe Epoll_Run
begin

text \<open>
  Verification of the server framework in \<^verbatim>\<open>src/fk\<close> and of its three servers.

  \<^bold>\<open>The program.\<close>  \<^verbatim>\<open>slience\<close> is a network library: sockets driven by threads of an event loop,
  byte buffers and packets, coroutines and tasks, a timer wheel.  \<^verbatim>\<open>commonlib\<close> is the frame of
  a server: network threads put messages into queues of \<^verbatim>\<open>NetIoHandler\<close>, and the single-threaded
  main loop of \<^verbatim>\<open>ApplicationBase\<close> takes them out, checks connections, runs timers and hands every
  frame to a transaction.  A transaction is an object of \<^verbatim>\<open>TransactionMgr\<close> that runs in a coroutine
  and may wait for a frame, a database or a timeout.  \<^verbatim>\<open>connsvr\<close> accepts clients, \<^verbatim>\<open>routersvr\<close> routes
  packets between the servers of a zone, \<^verbatim>\<open>transfersvr\<close> connects the zones.

  \<^bold>\<open>The theories\<close>, in the order of the imports.  A definition has the name of the function it models,
  behind a prefix of its class (\<^verbatim>\<open>buf_\<close>, \<^verbatim>\<open>cq_\<close>, \<^verbatim>\<open>sl_\<close>, \<^verbatim>\<open>tp_\<close>, \<^verbatim>\<open>co_\<close>/\<^verbatim>\<open>ct_\<close>, \<^verbatim>\<open>ts_\<close>, \<^verbatim>\<open>T_\<close>/\<^verbatim>\<open>TM_\<close>, \<^verbatim>\<open>nh_\<close>,
  \<^verbatim>\<open>RM_\<close>/\<^verbatim>\<open>TR_\<close>, \<^verbatim>\<open>IM_\<close>/\<^verbatim>\<open>RI_\<close>, \<^verbatim>\<open>TI_\<close>); a class is a record, its methods are functions on it.  A value of
  type \<^verbatim>\<open>mem\<close> (an option) is \<^verbatim>\<open>None\<close> where the C++ program accesses memory it does not own, or runs
  for ever.

  \<^item> \<^verbatim>\<open>Prelude\<close>: the types of words and bytes, the collections of lemmas.  \<^verbatim>\<open>Interfaces\<close>: what the users
    of a queue, a byte stream, a codec and a table of tasks rely on, as locales; each is interpreted
    on the components below.
  \<^item> \<^verbatim>\<open>Buffer\<close> (\<^verbatim>\<open>base/buffer\<close>), \<^verbatim>\<open>Ring_Queue\<close> (\<^verbatim>\<open>base/circular_queue.hpp\<close>), \<^verbatim>\<open>Linked_List\<close>
    (\<^verbatim>\<open>base/slist.hpp\<close>, over an explicit heap), \<^verbatim>\<open>Random_Gen\<close> (\<^verbatim>\<open>base/random\<close>, single-precision rounding
    included), \<^verbatim>\<open>Timer_Pool\<close> (\<^verbatim>\<open>base/time_pool\<close>): refinement to lists, exactness of the timers that run,
    bounds, and where the code leaves its memory.
  \<^item> \<^verbatim>\<open>Coroutines\<close> (\<^verbatim>\<open>slience/coroutine\<close>): scheduler and task layer of one thread.  A suspended stack is a
    value of a type parameter, its continuation; a \<^verbatim>\<open>slice\<close> runs a continuation to its next yield.
    The lemmas show that a resume touches one coroutine and that free and suspended coroutines are
    apart.
  \<^item> \<^verbatim>\<open>Packet\<close> (\<^verbatim>\<open>netio/packet.hpp\<close>, \<^verbatim>\<open>tcp_stream_socket.hpp\<close>) and \<^verbatim>\<open>Tcp_Socket\<close> (\<^verbatim>\<open>tcp_base_socket.hpp\<close>,
    \<^verbatim>\<open>tcp_socket\<close>, \<^verbatim>\<open>tcp_connector\<close>): framing and the sending, closing and receiving state machine,
    with an inductive reachability relation over everything the network and the user can do.
  \<^item> \<^verbatim>\<open>Frame\<close> (\<^verbatim>\<open>svr_base/svrbase.h\<close>): the application frame and its bytes.  \<^verbatim>\<open>Net_Handler\<close>,
    \<^verbatim>\<open>Net_Handler_Props\<close> (\<^verbatim>\<open>commonlib/net_handler\<close>): message queues, connection containers, dispatch; what
    the callback relies on is the locale \<^verbatim>\<open>net_app\<close>, interpreted on the three servers.
  \<^item> \<^verbatim>\<open>Transaction\<close> (\<^verbatim>\<open>commonlib/transaction\<close>): objects, manager, waits, timers.  A transaction body is a
    \<^verbatim>\<open>script\<close>, a datatype of the calls it makes with the continuation after each.  \<^verbatim>\<open>Transaction_Safe\<close> has the
    invariant of the manager and of the coroutines it owns, by rule induction on the step relation
    \<^verbatim>\<open>tm_step\<close>; \<^verbatim>\<open>Transaction_Props\<close> the outcome of each wait; \<^verbatim>\<open>Transaction_App\<close> that a relation kept by the
    calls of the scripts is kept by every operation of the manager; \<^verbatim>\<open>Transaction_Ids\<close> that ids do not
    repeat and that every operation keeps the invariant in place of a run from the start.
  \<^item> \<^verbatim>\<open>Links\<close>, \<^verbatim>\<open>Links_Props\<close> (\<^verbatim>\<open>net_handler/router_mgr\<close>, \<^verbatim>\<open>routersvr/transfer_mgr\<close>): the links to the upper
    servers as a set that a reload moves to the configured one.  \<^verbatim>\<open>Multi_Index\<close> models the ordered index
    of \<^verbatim>\<open>boost::multi_index\<close>; \<^verbatim>\<open>Instances\<close>, \<^verbatim>\<open>Instances_Props\<close>, \<^verbatim>\<open>Login_Props\<close> the registries over it
    (\<^verbatim>\<open>server_instance_mgr\<close>, \<^verbatim>\<open>router_inst_mgr\<close>, \<^verbatim>\<open>user_login_mgr\<close>), refined to maps.
  \<^item> \<^verbatim>\<open>Server_Trans\<close> (the \<^verbatim>\<open>trans_application.cpp\<close> of the three servers), \<^verbatim>\<open>Router_Svr\<close> (\<^verbatim>\<open>router_svr.cpp\<close> and
    \<^verbatim>\<open>conn_svr.cpp\<close>), \<^verbatim>\<open>Router_Props\<close>, \<^verbatim>\<open>Register_Props\<close>: routing and registration.  \<^verbatim>\<open>Transfer_Inst\<close>,
    \<^verbatim>\<open>Transfer_Svr\<close>, \<^verbatim>\<open>Transfer_Props\<close> (\<^verbatim>\<open>transfer_inst_mgr\<close>, \<^verbatim>\<open>transfersvr.cpp\<close>): the mesh of the zones.
  \<^item> \<^verbatim>\<open>App_Loop\<close>, \<^verbatim>\<open>App_Props\<close> (\<^verbatim>\<open>svr_base/ApplicationBaseExt.cpp\<close>): the main loop over a record of the virtual
    functions, which the three servers fill in.  A locale \<^verbatim>\<open>server\<close> states what the loop relies on; its
    lemmas (the transaction invariant over every run, the count of idle rounds) are proved once
    and interpreted for each server.

  \<^item> \<^verbatim>\<open>Md5\<close>, \<^verbatim>\<open>Md5_Props\<close> (\<^verbatim>\<open>base/md5.hpp\<close>): the digest, equal to RFC 1321 written as a fold.
  \<^item> \<^verbatim>\<open>Http_Msg\<close> (\<^verbatim>\<open>netio/httpmsg.hpp\<close>, \<^verbatim>\<open>http_base_socket.hpp\<close>): the parsers that read a message as its bytes
    arrive, and the writer of responses.  \<^verbatim>\<open>Http_Props\<close>: the chunks do not matter to a parser, proved once in the
    locale \<^verbatim>\<open>http_parser\<close> and interpreted on requests and responses; \<^verbatim>\<open>Http_Trip\<close>: what is written is read back;
    \<^verbatim>\<open>Http_Cut\<close>: what the socket makes of chunks, and where a request leads it out of its memory.

  \<^item> \<^verbatim>\<open>Db_Tool\<close> (\<^verbatim>\<open>dbtool\<close>): the check of a configuration and the statements that bring the tables to it, as texts.
    \<^verbatim>\<open>Db_Props\<close>: the statements, what they mean to a database, and which table each step touches; \<^verbatim>\<open>Db_Server\<close>: a server that
    reads the texts and does what is assumed of MySQL; \<^verbatim>\<open>Db_Migrate\<close>, \<^verbatim>\<open>Db_Theorems\<close>: the table becomes the configured one.

  \<^item> \<^verbatim>\<open>String_Util\<close> (\<^verbatim>\<open>base/string_util\<close>, the times of day of \<^verbatim>\<open>base/util.cpp\<close>); \<^verbatim>\<open>Agent\<close>, \<^verbatim>\<open>Agent_Props\<close>
    (\<^verbatim>\<open>server_agent\<close>): the program that starts, checks and restarts the servers and runs scripts; the operating system is a
    record of functions over a state of its own.

  \<^item> \<^verbatim>\<open>Epoll\<close> (\<^verbatim>\<open>slience/socket\<close>: \<^verbatim>\<open>ioaccess.ipp\<close>, \<^verbatim>\<open>epoll_access.hpp\<close>, \<^verbatim>\<open>linux_epoll.hpp\<close>): the event loop over a record of
    system calls; one step is what the code does under one lock, a handler is a function on the whole state.  \<^verbatim>\<open>Epoll_Props\<close>:
    what each operation keeps of the cores.  \<^verbatim>\<open>Epoll_Loop\<close>: the locale \<^verbatim>\<open>reactor\<close> states what handlers have to keep and proves rounds and
    runs of a thread.  \<^verbatim>\<open>Epoll_Tcp\<close> puts the sockets of \<^verbatim>\<open>Tcp_Socket\<close> and the listening and connecting of \<^verbatim>\<open>NetIo\<close> on the
    loop, \<^verbatim>\<open>Epoll_Tcp_Props\<close> and \<^verbatim>\<open>Epoll_Net\<close> relate a step of a socket to the calls it makes, \<^verbatim>\<open>Epoll_Safe\<close>
    interprets the locale, \<^verbatim>\<open>Epoll_Run\<close> has the program's runs and the properties.

  \<^bold>\<open>Parameters.\<close>  The results of databases, what network threads do, the clock, the text of
  configuration files and the iteration order of hash maps are arguments.  The generated message
  classes are a record \<^verbatim>\<open>protos\<close> of serializers and parsers, unconstrained unless a theorem says so.

  \<^bold>\<open>Bounds and fuel.\<close>  Loops end structurally or by a measure.  The one loop that may run for ever,
  \<^verbatim>\<open>SendRegistCmd\<close>, takes fuel and a script for the time after it; theorems hold for every amount of
  fuel.  The timer wheel is exact within a day of 864000 slots of a tenth of a second; the
  transaction ids of a run are distinct for fewer than \<^verbatim>\<open>2 ^ 32 - 1\<close> frames.  Buffers keep their
  32-bit counters, and theorems on them assume sizes below \<^verbatim>\<open>buf_limit\<close>.

  \<^bold>\<open>Not modelled.\<close>  Boost, Protocol Buffers and the database clients are third-party code, the message
  classes are generated.  Threads, locks, files, signals and the command line are
  calls of the operating system without logic of their own.  Of the event loop, steps of two threads on one socket that
  interleave within a lock's scope, the variant in coroutines, completion ports and the synchronous operations are left
  out; a release of a thread is modelled but ends a run.  \<^verbatim>\<open>synccall\<close>, the synchronous sockets are not used by the servers.  Logging is left out everywhere.
\<close>

end
